(* ===== verification/Liboas_Prelude.thy ===== *)
theory Liboas_Prelude
  imports Main "HOL-Library.Word" "HOL-Library.Monad_Syntax"
begin

text \<open>
  What every component shares: the negative \<open>errno\<close> codes the C functions return,
  C strings as lists of \<open>char\<close>, the split and join of a string at a separator (the
  reference for the C loops built on \<open>strchr\<close>), and the collections of facts the
  component proofs name.
\<close>

section \<open>Error codes and strings\<close>

text \<open>
  The errno values the library returns (negated) from its operations; \<open>Errno_from\<close> is any code
  a callback of the client hands back.
\<close>

datatype errno =
  EINVAL | ENOMEM | EOVERFLOW | ENOENT | ELOOP | EACCES | ENOTSUP | ENAMETOOLONG | ENOSPC
  | EIO | EFBIG | EPROTO | EHOSTUNREACH | Errno_from nat

type_synonym u8 = "8 word"
type_synonym u16 = "16 word"
type_synonym u64 = "64 word"

text \<open>
  A C string is the list of its bytes before the terminator. Where the code writes a
  buffer that may hold a NUL byte and hands it out as \<open>const char *\<close>, what a reader
  of that pointer sees is \<open>cstr\<close> of the buffer.
\<close>

abbreviation NUL :: char where
  "NUL \<equiv> CHR 0x00"

definition cstr :: "string \<Rightarrow> string" where
  "cstr s = takeWhile (\<lambda>c. c \<noteq> NUL) s"

definition is_cstring :: "string \<Rightarrow> bool" where
  "is_cstring s \<longleftrightarrow> list_all (\<lambda>c. c \<noteq> NUL) s"

text \<open>The byte value of a character.\<close>

abbreviation byte :: "char \<Rightarrow> nat" where
  "byte c \<equiv> of_char c"

lemma byte_less: "byte c < 256"
  using nat_of_char_less_256 [of c] by simp

lemma byte_inject [simp]: "byte c = byte d \<longleftrightarrow> c = d"
  by simp

lemma is_cstring_Nil [simp]: "is_cstring []"
  by (simp add: is_cstring_def)

lemma is_cstring_Cons [simp]: "is_cstring (c # s) \<longleftrightarrow> c \<noteq> NUL \<and> is_cstring s"
  by (simp add: is_cstring_def)

lemma is_cstring_append [simp]: "is_cstring (s @ t) \<longleftrightarrow> is_cstring s \<and> is_cstring t"
  by (simp add: is_cstring_def)

lemma cstr_id [simp]: "is_cstring s \<Longrightarrow> cstr s = s"
  by (induction s) (auto simp: cstr_def)

lemma is_cstring_cstr [simp]: "is_cstring (cstr s)"
  by (auto simp: is_cstring_def cstr_def list_all_iff dest: set_takeWhileD)

section \<open>Splitting at a separator\<close>

text \<open>
  \<open>split_on c s\<close> is the list of maximal runs of \<open>s\<close> without \<open>c\<close>: always one more
  than the number of separators. \<open>join_on\<close> is its inverse.
\<close>

fun split_on :: "'a \<Rightarrow> 'a list \<Rightarrow> 'a list list" where
  "split_on c [] = [[]]"
| "split_on c (x # xs) =
     (if x = c then [] # split_on c xs
      else (case split_on c xs of [] \<Rightarrow> [[x]] | y # ys \<Rightarrow> (x # y) # ys))"

fun join_on :: "'a \<Rightarrow> 'a list list \<Rightarrow> 'a list" where
  "join_on c [] = []"
| "join_on c [x] = x"
| "join_on c (x # y # ys) = x @ c # join_on c (y # ys)"

lemma split_on_not_Nil [simp]: "split_on c s \<noteq> []"
  by (induction s) (auto split: list.splits)

lemma length_split_on: "length (split_on c s) = Suc (count_list s c)"
  by (induction s) (auto split: list.splits)

lemma join_split_on [simp]: "join_on c (split_on c s) = s"
proof (induction s)
  case Nil
  show ?case by simp
next
  case (Cons x xs)
  obtain y ys where yy: "split_on c xs = y # ys"
    by (metis list.exhaust split_on_not_Nil)
  show ?case using Cons yy by (cases ys) auto
qed

lemma split_on_no_sep: "x \<in> set (split_on c s) \<Longrightarrow> c \<notin> set x"
  by (induction s arbitrary: x) (auto split: if_splits list.splits)

text \<open>The equation a \<open>strchr\<close> loop follows: up to the separator, then the rest.\<close>

lemma split_on_takeWhile:
  "split_on c s = takeWhile (\<lambda>x. x \<noteq> c) s #
     (case dropWhile (\<lambda>x. x \<noteq> c) s of [] \<Rightarrow> [] | _ # r \<Rightarrow> split_on c r)"
  by (induction s) (auto split: list.splits)

lemma split_on_append_sep:
  "c \<notin> set x \<Longrightarrow> split_on c (x @ c # s) = x # split_on c s"
  by (induction x) auto

lemma split_on_no_occ: "c \<notin> set x \<Longrightarrow> split_on c x = [x]"
  by (induction x) auto

lemma split_join_on:
  assumes "xs \<noteq> []" and "\<And>x. x \<in> set xs \<Longrightarrow> c \<notin> set x"
  shows "split_on c (join_on c xs) = xs"
  using assms
proof (induction c xs rule: join_on.induct)
  case (1 c)
  then show ?case by simp
next
  case (2 c x)
  then show ?case by (simp add: split_on_no_occ)
next
  case (3 c x y ys)
  then show ?case by (simp add: split_on_append_sep)
qed

lemma join_on_Cons:
  "xs \<noteq> [] \<Longrightarrow> join_on c (x # xs) = x @ c # join_on c xs"
  by (cases xs) auto

lemma dropWhile_sep:
  "dropWhile (\<lambda>x. x \<noteq> c) s = [] \<or> (\<exists>r. dropWhile (\<lambda>x. x \<noteq> c) s = c # r)"
  by (induction s) auto

text \<open>
  What a loop reads that stops at the end of the string: the runs, without the empty one
  after a trailing separator.
\<close>

definition split_segments :: "'a \<Rightarrow> 'a list \<Rightarrow> 'a list list" where
  "split_segments c s = (let segs = split_on c s in if last segs = [] then butlast segs else segs)"

lemma split_segments_Nil [simp]: "split_segments c [] = []"
  by (simp add: split_segments_def)

lemma split_segments_step:
  assumes "s \<noteq> []"
  shows "split_segments c s = takeWhile (\<lambda>x. x \<noteq> c) s #
    (case dropWhile (\<lambda>x. x \<noteq> c) s of [] \<Rightarrow> [] | _ # r \<Rightarrow> split_segments c r)"
proof (cases "dropWhile (\<lambda>x. x \<noteq> c) s")
  case Nil
  then have "takeWhile (\<lambda>x. x \<noteq> c) s = s" by (metis append_Nil2 takeWhile_dropWhile_id)
  then show ?thesis using Nil assms split_on_takeWhile [of c s]
    by (simp add: split_segments_def Let_def del: dropWhile_eq_Nil_conv takeWhile_eq_all_conv)
next
  case (Cons d r)
  then show ?thesis using split_on_takeWhile [of c s] by (simp add: split_segments_def Let_def)
qed

lemma length_split_segments: "length (split_segments c s) \<le> Suc (count_list s c)"
  by (simp add: split_segments_def Let_def length_split_on)

lemma split_segments_join:
  assumes "xs \<noteq> [] \<Longrightarrow> last xs \<noteq> []" and "\<And>x. x \<in> set xs \<Longrightarrow> c \<notin> set x"
  shows "split_segments c (join_on c xs) = xs"
  using assms by (cases "xs = []") (simp_all add: split_segments_def split_join_on)

lemma split_segments_no_sep: "x \<in> set (split_segments c s) \<Longrightarrow> c \<notin> set x"
  using split_on_no_sep [of x c s] by (auto simp: split_segments_def Let_def dest: in_set_butlastD split: if_splits)

text \<open>The remaining string of such a loop gets shorter.\<close>

lemma dropWhile_shorter: "dropWhile p s = c # r \<Longrightarrow> length r < length s"
  using length_dropWhile_le [of p s] by simp

section \<open>Decimal numerals\<close>

text \<open>What \<open>printf\<close> writes for \<open>%d\<close> and \<open>%lld\<close>.\<close>

fun dec_nat :: "nat \<Rightarrow> string" where
  "dec_nat n = (if n < 10 then [char_of (48 + n)] else dec_nat (n div 10) @ [char_of (48 + n mod 10)])"

declare dec_nat.simps [simp del]

definition dec_int :: "int \<Rightarrow> string" where
  "dec_int i = (if i < 0 then CHR ''-'' # dec_nat (nat (- i)) else dec_nat (nat i))"

section \<open>Collections\<close>

text \<open>
  \<open>vm_handlers\<close> collects the definitions of the virtual machine's handlers, \<open>emit_unfold\<close>
  those of the compiler's emitters, \<open>kw_intro\<close> the rules that show a compiler step emits
  a block that checks its keyword.
\<close>

named_theorems vm_handlers
named_theorems emit_unfold
named_theorems kw_intro

end
