(* ===== verification/Liboas_Arena.thy ===== *)
theory Liboas_Arena
  imports Liboas_Prelude
begin

text \<open>
  \<open>src/core/oas_alloc.c\<close>: the arena allocator, with \<open>size_t\<close> and addresses as 64-bit
  words that wrap as in C. The system's \<open>malloc\<close> is a parameter. The interface the rest
  of the library allocates through is the locale \<open>region_allocator\<close>; the arena is its
  interpretation.
\<close>

unbundle bit_operations_syntax

section \<open>State\<close>

text \<open>
  A block is its data region (the address of \<open>data\<close>, \<open>capacity\<close>, \<open>used\<close>). The chain of
  blocks from \<open>head\<close> is a list, \<open>current\<close> an index into it. \<open>mallocs\<close> counts the calls
  of \<open>malloc\<close> made so far and is what lets the parameter answer each call differently;
  \<open>malloc k n\<close> is the answer to call number \<open>k\<close> for \<open>n\<close> bytes, \<open>None\<close> for NULL.
\<close>

record arena_block =
  blk_data :: u64
  blk_capacity :: u64
  blk_used :: u64

record oas_arena =
  blocks :: "arena_block list"
  current :: nat
  block_size :: u64
  total_allocated :: u64
  mallocs :: nat

type_synonym malloc = "nat \<Rightarrow> u64 \<Rightarrow> u64 option"

section \<open>Operations\<close>

definition oas_arena_default_block :: u64 where
  "oas_arena_default_block = 64 * 1024"

text \<open>The header of a block takes 32 bytes: three words, padded to 16 for \<open>data\<close>.\<close>

definition sizeof_arena_block :: u64 where
  "sizeof_arena_block = 32"

definition oas_arena_block_create :: "malloc \<Rightarrow> nat \<Rightarrow> u64 \<Rightarrow> arena_block option" where
  "oas_arena_block_create malloc k cap =
     (case malloc k (sizeof_arena_block + cap) of
        None \<Rightarrow> None
      | Some p \<Rightarrow> Some \<lparr>blk_data = p + sizeof_arena_block, blk_capacity = cap, blk_used = 0\<rparr>)"

text \<open>\<open>oas_arena_create\<close> first allocates the arena header itself (40 bytes).\<close>

definition oas_arena_create :: "malloc \<Rightarrow> u64 \<Rightarrow> oas_arena option" where
  "oas_arena_create malloc bsize =
     (let bs = (if bsize = 0 then oas_arena_default_block else bsize)
      in case malloc 0 40 of
           None \<Rightarrow> None
         | Some _ \<Rightarrow>
             (case oas_arena_block_create malloc 1 bs of
                None \<Rightarrow> None
              | Some b \<Rightarrow> Some \<lparr>blocks = [b], current = 0, block_size = bs,
                                total_allocated = 0, mallocs = 2\<rparr>))"

definition align_up :: "u64 \<Rightarrow> u64 \<Rightarrow> u64" where
  "align_up offset align = (offset + align - 1) AND NOT (align - 1)"

definition oas_arena_alloc ::
    "malloc \<Rightarrow> oas_arena \<Rightarrow> u64 \<Rightarrow> u64 \<Rightarrow> u64 option \<times> oas_arena" where
  "oas_arena_alloc malloc a n align =
     (if n = 0 \<or> align = 0 then (None, a)
      else if align AND (align - 1) \<noteq> 0 then (None, a)
      else
        let b = blocks a ! current a;
            base = blk_data b;
            off = align_up (base + blk_used b) align - base
        in if off + n \<le> blk_capacity b
           then (Some (base + off),
                 a\<lparr>blocks := (blocks a)[current a := b\<lparr>blk_used := off + n\<rparr>],
                   total_allocated := total_allocated a + n\<rparr>)
           else
             let cap = (if block_size a < n + align then n + align else block_size a)
             in case oas_arena_block_create malloc (mallocs a) cap of
                  None \<Rightarrow> (None, a\<lparr>mallocs := Suc (mallocs a)\<rparr>)
                | Some nb \<Rightarrow>
                    let off' = align_up (blk_data nb + blk_used nb) align - blk_data nb
                    in (Some (blk_data nb + off'),
                        a\<lparr>blocks := take (Suc (current a)) (blocks a)
                             @ [nb\<lparr>blk_used := off' + n\<rparr>] @ drop (Suc (current a)) (blocks a),
                          current := Suc (current a),
                          total_allocated := total_allocated a + n,
                          mallocs := Suc (mallocs a)\<rparr>))"

definition oas_arena_reset :: "oas_arena \<Rightarrow> oas_arena" where
  "oas_arena_reset a =
     a\<lparr>blocks := map (\<lambda>b. b\<lparr>blk_used := 0\<rparr>) (blocks a), current := 0, total_allocated := 0\<rparr>"

definition oas_arena_used :: "oas_arena \<Rightarrow> u64" where
  "oas_arena_used a = total_allocated a"

text \<open>\<open>oas_arena_destroy\<close> frees every block of the chain: the data addresses it frees.\<close>

fun oas_arena_destroy :: "arena_block list \<Rightarrow> u64 list" where
  "oas_arena_destroy [] = []"
| "oas_arena_destroy (b # bs) = (blk_data b - sizeof_arena_block) # oas_arena_destroy bs"

section \<open>Alignment\<close>

lemma and_not_mask_minus: "y AND NOT (mask k) = y - take_bit k (y :: u64)"
proof -
  have "NOT y AND take_bit k y = 0"
    by (rule bit_word_eqI) (auto simp: bit_simps)
  then have "y - take_bit k y = y AND NOT (take_bit k y)"
    by (rule disjunctive_diff_eq_and_not)
  also have "\<dots> = y AND NOT (mask k)"
    by (rule bit_word_eqI) (auto simp: bit_simps)
  finally show ?thesis by simp
qed

lemma unat_and_not_mask: "unat (y AND NOT (mask k) :: u64) = unat y - unat y mod 2 ^ k"
proof -
  have le: "take_bit k y \<le> y"
    by (simp add: word_le_nat_alt unsigned_take_bit_eq)
  have "unat (y AND NOT (mask k)) = unat y - take_bit k (unat y)"
    unfolding and_not_mask_minus unat_sub [OF le] unsigned_take_bit_eq ..
  then show ?thesis by (simp add: take_bit_eq_mod)
qed

lemma unat_two_power:
  assumes "k < 64"
  shows "unat (2 ^ k :: u64) = 2 ^ k"
proof -
  have "unat (of_nat (2 ^ k) :: u64) = 2 ^ k"
    by (simp only: unsigned_of_nat take_bit_nat_eq_self_iff) (simp add: assms)
  then show ?thesis by simp
qed

lemma power_of_two_iff:
  assumes "a \<noteq> 0" and "a AND (a - 1) = (0 :: u64)"
  shows "\<exists>k < 64. a = 2 ^ k"
proof -
  let ?n = "unat a"
  have pos: "0 < ?n" using assms(1) by (simp add: unat_gt_0)
  obtain k where k: "2 ^ k \<le> ?n" "?n < 2 ^ Suc k"
    using ex_power_ivl1 [of 2 ?n] pos by auto
  have "k < 64"
  proof (rule ccontr)
    assume "\<not> k < 64"
    then have "(2::nat) ^ 64 \<le> 2 ^ k" by (intro power_increasing) auto
    with k(1) have "2 ^ 64 \<le> ?n" by linarith
    moreover have "?n < 2 ^ LENGTH(64)" by (rule unsigned_less)
    ultimately show False by simp
  qed
  have "?n = 2 ^ k"
  proof (rule ccontr)
    assume ne: "?n \<noteq> 2 ^ k"
    have minus: "unat (a - 1) = ?n - 1" using assms(1) by (rule unat_minus_one)
    have "?n div 2 ^ k = 1" and "(?n - 1) div 2 ^ k = 1"
      using k ne by (auto intro!: div_nat_eqI)
    then have "bit (?n) k" and "bit (?n - 1) k" by (simp_all add: bit_iff_odd)
    then have "bit a k" and "bit (a - 1) k"
      using minus by (metis bit_unsigned_iff)+
    then have "bit (a AND (a - 1)) k" by (simp add: bit_and_iff)
    with assms(2) show False by simp
  qed
  then have "a = 2 ^ k" using unat_two_power [OF \<open>k < 64\<close>] by (simp only: word_unat_eq_iff)
  with \<open>k < 64\<close> show ?thesis by blast
qed

lemma unat_align_up:
  assumes "k < 64" and "unat x + 2 ^ k \<le> 2 ^ 64"
  defines "r \<equiv> unat (align_up x (2 ^ k))"
  shows "r mod 2 ^ k = 0" and "unat x \<le> r" and "r < unat x + 2 ^ k"
proof -
  let ?m = "unat x + 2 ^ k - 1"
  have p1: "(1 :: nat) \<le> 2 ^ k" by simp
  have two: "unat (2 ^ k :: u64) = 2 ^ k" using assms(1) by (rule unat_two_power)
  have "unat (x + (2 ^ k - 1)) = ?m"
  proof -
    have "unat (2 ^ k - 1 :: u64) = 2 ^ k - 1"
      using two by (metis unat_minus_one p1 not_one_le_zero unat_0)
    moreover have "unat x + (2 ^ k - 1) < 2 ^ 64" using assms(2) p1 by linarith
    ultimately show ?thesis using p1 by (simp add: unat_word_ariths)
  qed
  then have "unat (x + 2 ^ k - 1) = ?m" by (simp add: algebra_simps)
  then have r: "r = ?m - ?m mod 2 ^ k"
    by (simp add: r_def align_up_def unat_and_not_mask flip: mask_eq_exp_minus_1)
  show "r mod 2 ^ k = 0" by (simp add: r minus_mod_eq_mult_div)
  have "?m mod 2 ^ k < 2 ^ k" by simp
  then show "unat x \<le> r" and "r < unat x + 2 ^ k" using r p1 by linarith+
qed

section \<open>The interface the library allocates through\<close>

definition region :: "u64 \<Rightarrow> u64 \<Rightarrow> nat set" where
  "region p n = {unat p ..< unat p + unat n}"

text \<open>
  Requests that cannot overflow the address arithmetic: \<open>oas_arena_alloc\<close> does not check
  its additions, so its promises hold below this bound only (\<open>arena_overflow\<close> shows what
  happens above it).
\<close>

definition request_ok :: "u64 \<Rightarrow> u64 \<Rightarrow> bool" where
  "request_ok n align \<longleftrightarrow> unat n + unat align \<le> 2 ^ 61"

text \<open>A run of allocations: the regions handed out, oldest first.\<close>

fun alloc_run ::
    "('a \<Rightarrow> u64 \<Rightarrow> u64 \<Rightarrow> u64 option \<times> 'a) \<Rightarrow> 'a \<Rightarrow> (u64 \<times> u64) list \<Rightarrow> nat set list" where
  "alloc_run alloc a [] = []"
| "alloc_run alloc a ((n, align) # rs) =
     (case alloc a n align of
        (None, a') \<Rightarrow> alloc_run alloc a' rs
      | (Some p, a') \<Rightarrow> region p n # alloc_run alloc a' rs)"

locale region_allocator =
  fixes alloc :: "'a \<Rightarrow> u64 \<Rightarrow> u64 \<Rightarrow> u64 option \<times> 'a"
    and taken :: "'a \<Rightarrow> nat set"
    and used :: "'a \<Rightarrow> u64"
    and inv :: "'a \<Rightarrow> bool"
  assumes alloc_inv: "inv a \<Longrightarrow> request_ok n align \<Longrightarrow> inv (snd (alloc a n align))"
    and alloc_fresh: "inv a \<Longrightarrow> request_ok n align \<Longrightarrow> alloc a n align = (Some p, a') \<Longrightarrow>
          region p n \<inter> taken a = {} \<and> region p n \<union> taken a \<subseteq> taken a'"
    and alloc_aligned: "inv a \<Longrightarrow> request_ok n align \<Longrightarrow> alloc a n align = (Some p, a') \<Longrightarrow>
          unat p mod unat align = 0"
    and alloc_nonempty: "alloc a n align = (Some p, a') \<Longrightarrow> 0 < unat n"
    and alloc_used: "alloc a n align = (Some p, a') \<Longrightarrow> used a' = used a + n"
    and alloc_fail: "alloc a n align = (None, a') \<Longrightarrow> taken a' = taken a \<and> used a' = used a"
begin

lemma alloc_run_fresh:
  assumes "inv a" and "list_all (\<lambda>(n, align). request_ok n align) rs"
    and "r \<in> set (alloc_run alloc a rs)"
  shows "r \<inter> taken a = {}"
  using assms
proof (induction rs arbitrary: a)
  case Nil
  then show ?case by simp
next
  case (Cons q rs)
  obtain n align where q: "q = (n, align)" by (cases q)
  obtain res a' where al: "alloc a n align = (res, a')" by (cases "alloc a n align")
  have ok: "request_ok n align" and rest: "list_all (\<lambda>(n, align). request_ok n align) rs"
    using Cons.prems(2) q by simp_all
  have inv': "inv a'" using alloc_inv [OF Cons.prems(1) ok] al by simp
  show ?case
  proof (cases res)
    case None
    then show ?thesis
      using Cons.IH [OF inv' rest] Cons.prems(3) q al alloc_fail [of a n align a'] by simp
  next
    case (Some p)
    then have "r = region p n \<or> r \<inter> taken a' = {}"
      using Cons.IH [OF inv' rest] Cons.prems(3) q al by auto
    then show ?thesis
      using alloc_fresh [OF Cons.prems(1) ok, of p a'] al Some by auto
  qed
qed

lemma alloc_run_disjoint:
  assumes "inv a" and "list_all (\<lambda>(n, align). request_ok n align) rs"
  shows "sorted_wrt (\<lambda>A B. A \<inter> B = {}) (alloc_run alloc a rs)"
  using assms
proof (induction rs arbitrary: a)
  case Nil
  then show ?case by simp
next
  case (Cons q rs)
  obtain n align where q: "q = (n, align)" by (cases q)
  obtain res a' where al: "alloc a n align = (res, a')" by (cases "alloc a n align")
  have ok: "request_ok n align" and rest: "list_all (\<lambda>(n, align). request_ok n align) rs"
    using Cons.prems(2) q by simp_all
  have inv': "inv a'" using alloc_inv [OF Cons.prems(1) ok] al by simp
  show ?case
  proof (cases res)
    case None
    then show ?thesis using Cons.IH [OF inv' rest] q al by simp
  next
    case (Some p)
    have "region p n \<inter> r = {}" if "r \<in> set (alloc_run alloc a' rs)" for r
      using alloc_fresh [OF Cons.prems(1) ok, of p a'] alloc_run_fresh [OF inv' rest that]
        al Some by auto
    then show ?thesis using Cons.IH [OF inv' rest] q al Some by simp
  qed
qed

text \<open>Two live allocations never have the same address: what pointer comparison relies on.\<close>

lemma alloc_address_fresh:
  assumes "inv a" and "request_ok n align" and "alloc a n align = (Some p, a')"
  shows "unat p \<notin> taken a" and "unat p \<in> taken a'"
proof -
  have "unat p \<in> region p n"
    using alloc_nonempty [OF assms(3)] by (simp add: region_def)
  then show "unat p \<notin> taken a" and "unat p \<in> taken a'"
    using alloc_fresh [OF assms] by auto
qed

end

section \<open>The arena provides it\<close>

definition blk_region :: "arena_block \<Rightarrow> nat set" where
  "blk_region b = {unat (blk_data b) ..< unat (blk_data b) + unat (blk_capacity b)}"

definition arena_taken :: "oas_arena \<Rightarrow> nat set" where
  "arena_taken a =
     (\<Union>b \<in> set (blocks a). {unat (blk_data b) ..< unat (blk_data b) + unat (blk_used b)})"

text \<open>
  What the C library promises of \<open>malloc\<close>: the regions of different calls (none is freed
  while the arena lives) do not overlap, and lie in the lower part of the address space.
\<close>

definition malloc_ok :: "malloc \<Rightarrow> bool" where
  "malloc_ok malloc \<longleftrightarrow>
     (\<forall>k n p. malloc k n = Some p \<longrightarrow> unat p + unat n \<le> 2 ^ 62) \<and>
     (\<forall>j k n m p q. j < k \<longrightarrow> malloc j n = Some p \<longrightarrow> malloc k m = Some q \<longrightarrow>
        region p n \<inter> region q m = {})"

definition block_ok :: "arena_block \<Rightarrow> bool" where
  "block_ok b \<longleftrightarrow> unat (blk_used b) \<le> unat (blk_capacity b) \<and>
     unat (blk_data b) + unat (blk_capacity b) \<le> 2 ^ 62"

definition arena_inv :: "malloc \<Rightarrow> oas_arena \<Rightarrow> bool" where
  "arena_inv malloc a \<longleftrightarrow>
     current a < length (blocks a) \<and> unat (block_size a) \<le> 2 ^ 61 \<and>
     list_all block_ok (blocks a) \<and>
     sorted_wrt (\<lambda>A B. A \<inter> B = {}) (map blk_region (blocks a)) \<and>
     (\<forall>R \<in> set (map blk_region (blocks a)). \<forall>k \<ge> mallocs a. \<forall>n p.
        malloc k n = Some p \<longrightarrow> R \<inter> region p n = {})"

lemma arena_current_ok:
  "arena_inv malloc a \<Longrightarrow> block_ok (blocks a ! current a)"
  by (auto simp: arena_inv_def list_all_iff)

text \<open>Where the first fitting address lies, and that no word operation on the way wraps.\<close>

lemma align_offset:
  assumes "block_ok b" and "request_ok n align" and "align \<noteq> 0" and "align AND (align - 1) = 0"
  defines "off \<equiv> align_up (blk_data b + blk_used b) align - blk_data b"
  shows "unat (blk_data b + off) = unat (blk_data b) + unat off"
    and "unat (off + n) = unat off + unat n"
    and "unat (blk_used b) \<le> unat off"
    and "unat off + unat n < unat (blk_used b) + unat n + unat align"
    and "unat (blk_data b + off) mod unat align = 0"
proof -
  obtain k where k: "k < 64" "align = 2 ^ k"
    using power_of_two_iff [OF assms(3,4)] by blast
  have al: "unat align = 2 ^ k" using k by (simp only: unat_two_power)
  have b: "unat (blk_used b) \<le> unat (blk_capacity b)"
    "unat (blk_data b) + unat (blk_capacity b) \<le> 2 ^ 62"
    using assms(1) by (simp_all add: block_ok_def)
  have req: "unat n + unat align \<le> 2 ^ 61" using assms(2) by (simp add: request_ok_def)
  have sum: "unat (blk_data b + blk_used b) = unat (blk_data b) + unat (blk_used b)"
    using b by (simp add: unat_word_ariths)
  have "unat (blk_data b + blk_used b) + 2 ^ k \<le> 2 ^ 64"
    using sum b req al by simp
  note up = unat_align_up [OF k(1) this]
  let ?r = "align_up (blk_data b + blk_used b) align"
  have r: "unat (blk_data b) + unat (blk_used b) \<le> unat ?r"
    "unat ?r < unat (blk_data b) + unat (blk_used b) + unat align"
    using up sum k al by simp_all
  have off: "unat off = unat ?r - unat (blk_data b)"
    using r by (simp add: off_def unat_sub word_le_nat_alt)
  have base: "blk_data b + off = ?r" by (simp add: off_def)
  show "unat (blk_data b + off) = unat (blk_data b) + unat off"
    using base off r by simp
  show "unat (off + n) = unat off + unat n"
    using off r b req by (simp add: unat_word_ariths)
  show "unat (blk_used b) \<le> unat off" and
    "unat off + unat n < unat (blk_used b) + unat n + unat align"
    using off r by linarith+
  show "unat (blk_data b + off) mod unat align = 0"
    using base up(1) k al by simp
qed

lemma blocks_disjoint:
  assumes "arena_inv malloc a" and "i < length (blocks a)" and "j < length (blocks a)" and "i \<noteq> j"
  shows "blk_region (blocks a ! i) \<inter> blk_region (blocks a ! j) = {}"
proof -
  have s: "sorted_wrt (\<lambda>A B. A \<inter> B = {}) (map blk_region (blocks a))"
    using assms(1) by (simp add: arena_inv_def)
  show ?thesis
    using sorted_wrt_nth_less [OF s, of i j] sorted_wrt_nth_less [OF s, of j i] assms(2-4)
    by (cases "i < j") auto
qed

lemma block_taken_region:
  "block_ok b \<Longrightarrow> {unat (blk_data b) ..< unat (blk_data b) + unat (blk_used b)} \<subseteq> blk_region b"
  by (auto simp: block_ok_def blk_region_def)

lemma arena_taken_memI:
  "b \<in> set (blocks a) \<Longrightarrow>
     {unat (blk_data b) ..< unat (blk_data b) + unat (blk_used b)} \<subseteq> arena_taken a"
  by (auto simp: arena_taken_def)

lemma arena_taken_nth:
  "arena_taken a = (\<Union>i < length (blocks a). {unat (blk_data (blocks a ! i)) ..<
     unat (blk_data (blocks a ! i)) + unat (blk_used (blocks a ! i))})"
  unfolding arena_taken_def set_conv_nth by blast

text \<open>A request the current block has room for.\<close>

lemma arena_fit:
  assumes inv: "arena_inv malloc a" and ok: "request_ok n align"
    and al: "align \<noteq> 0" "align AND (align - 1) = 0"
  defines "b \<equiv> blocks a ! current a"
  defines "off \<equiv> align_up (blk_data b + blk_used b) align - blk_data b"
  defines "a' \<equiv> a\<lparr>blocks := (blocks a)[current a := b\<lparr>blk_used := off + n\<rparr>],
                 total_allocated := total_allocated a + n\<rparr>"
  assumes fit: "off + n \<le> blk_capacity b"
  shows "arena_inv malloc a'"
    and "region (blk_data b + off) n \<inter> arena_taken a = {}"
    and "region (blk_data b + off) n \<union> arena_taken a \<subseteq> arena_taken a'"
proof -
  have c: "current a < length (blocks a)" using inv by (simp add: arena_inv_def)
  have bok: "block_ok b" unfolding b_def using inv by (rule arena_current_ok)
  note o = align_offset [OF bok ok al, folded off_def]
  have room: "unat off + unat n \<le> unat (blk_capacity b)"
    using fit o(2) by (simp add: word_le_nat_alt)
  have bok': "block_ok (b\<lparr>blk_used := off + n\<rparr>)"
    using bok room o(2) by (simp add: block_ok_def)
  have regs: "map blk_region (blocks a') = map blk_region (blocks a)"
  proof -
    have "blk_region (b\<lparr>blk_used := off + n\<rparr>) = map blk_region (blocks a) ! current a"
      using c by (simp add: blk_region_def b_def)
    then show ?thesis by (simp add: a'_def map_update)
  qed
  have sub: "set (blocks a') \<subseteq> insert (b\<lparr>blk_used := off + n\<rparr>) (set (blocks a))"
    by (simp add: a'_def set_update_subset_insert)
  show "arena_inv malloc a'"
    unfolding arena_inv_def
  proof (intro conjI)
    show "list_all block_ok (blocks a')"
      using inv bok' sub by (auto simp: arena_inv_def list_all_iff)
    show "\<forall>R\<in>set (map blk_region (blocks a')). \<forall>k\<ge>mallocs a'. \<forall>n p.
        malloc k n = Some p \<longrightarrow> R \<inter> region p n = {}"
    proof -
      have "mallocs a' = mallocs a" by (simp add: a'_def)
      then show ?thesis using inv unfolding regs arena_inv_def by simp
    qed
    show "current a' < length (blocks a')" using c by (simp add: a'_def)
    show "unat (block_size a') \<le> 2 ^ 61" using inv by (simp add: arena_inv_def a'_def)
    show "sorted_wrt (\<lambda>A B. A \<inter> B = {}) (map blk_region (blocks a'))"
      using inv unfolding regs arena_inv_def by blast
  qed
  have reg: "region (blk_data b + off) n =
      {unat (blk_data b) + unat off ..< unat (blk_data b) + unat off + unat n}"
    using o(1) by (simp add: region_def)
  have in_b: "region (blk_data b + off) n \<subseteq> blk_region b"
    using reg room by (auto simp: blk_region_def)
  show "region (blk_data b + off) n \<inter> arena_taken a = {}"
  proof -
    have "region (blk_data b + off) n \<inter> {unat (blk_data (blocks a ! i)) ..<
        unat (blk_data (blocks a ! i)) + unat (blk_used (blocks a ! i))} = {}"
      if i: "i < length (blocks a)" for i
    proof (cases "i = current a")
      case True
      then show ?thesis using reg o(3) by (auto simp: b_def)
    next
      case False
      have "block_ok (blocks a ! i)" using inv i by (simp add: arena_inv_def list_all_length)
      then show ?thesis
        using block_taken_region blocks_disjoint [OF inv c i] in_b False by (fastforce simp: b_def)
    qed
    then show ?thesis by (simp add: arena_taken_nth Int_UN_distrib)
  qed
  show "region (blk_data b + off) n \<union> arena_taken a \<subseteq> arena_taken a'"
  proof -
    have "b\<lparr>blk_used := off + n\<rparr> \<in> set (blocks a')"
      using c by (simp add: a'_def set_update_memI)
    then have new: "{unat (blk_data b) ..< unat (blk_data b) + (unat off + unat n)} \<subseteq> arena_taken a'"
      using arena_taken_memI [of "b\<lparr>blk_used := off + n\<rparr>" a'] o(2) by simp
    have "region (blk_data b + off) n \<subseteq> arena_taken a'"
      using new reg by auto
    moreover have "{unat (blk_data (blocks a ! i)) ..<
        unat (blk_data (blocks a ! i)) + unat (blk_used (blocks a ! i))} \<subseteq> arena_taken a'"
      if i: "i < length (blocks a)" for i
    proof (cases "i = current a")
      case True
      then have "blocks a ! i = b" by (simp add: b_def)
      then show ?thesis using new o(3) by (auto intro!: subset_trans [OF _ new])
    next
      case False
      then have "blocks a' ! i = blocks a ! i" and "i < length (blocks a')"
        using i by (simp_all add: a'_def)
      then show ?thesis using arena_taken_nth [of a'] by auto
    qed
    ultimately show ?thesis by (auto simp: arena_taken_nth [of a])
  qed
qed

text \<open>A request that needs a new block, inserted after the current one.\<close>

lemma block_create_region:
  assumes "malloc_ok malloc" and "oas_arena_block_create malloc k cap = Some nb"
    and "unat cap \<le> 2 ^ 61"
  obtains p where "malloc k (sizeof_arena_block + cap) = Some p" and "block_ok nb"
    and "blk_region nb \<subseteq> region p (sizeof_arena_block + cap)"
    and "blk_capacity nb = cap" and "blk_used nb = 0"
proof -
  obtain p where p: "malloc k (sizeof_arena_block + cap) = Some p"
    and nb: "nb = \<lparr>blk_data = p + sizeof_arena_block, blk_capacity = cap, blk_used = 0\<rparr>"
    using assms(2) by (auto simp: oas_arena_block_create_def split: option.splits)
  have sz: "unat (sizeof_arena_block + cap) = 32 + unat cap"
    using assms(3) by (simp add: sizeof_arena_block_def unat_word_ariths)
  have bound: "unat p + (32 + unat cap) \<le> 2 ^ 62"
    using assms(1) p sz unfolding malloc_ok_def by metis
  then have d: "unat (p + sizeof_arena_block) = unat p + 32"
    by (simp add: sizeof_arena_block_def unat_word_ariths)
  show thesis
  proof
    show "malloc k (sizeof_arena_block + cap) = Some p" by (fact p)
    show "block_ok nb" using bound d by (simp add: block_ok_def nb)
    show "blk_region nb \<subseteq> region p (sizeof_arena_block + cap)"
      using sz d by (simp add: blk_region_def region_def nb)
  qed (simp_all add: nb)
qed

lemma arena_grow:
  assumes inv: "arena_inv malloc a" and ok: "request_ok n align"
    and al: "align \<noteq> 0" "align AND (align - 1) = 0" and m: "malloc_ok malloc"
    and cap: "cap = (if block_size a < n + align then n + align else block_size a)"
    and nb: "oas_arena_block_create malloc (mallocs a) cap = Some nb"
  defines "off \<equiv> align_up (blk_data nb + blk_used nb) align - blk_data nb"
  defines "a' \<equiv> a\<lparr>blocks := take (Suc (current a)) (blocks a)
                 @ [nb\<lparr>blk_used := off + n\<rparr>] @ drop (Suc (current a)) (blocks a),
                 current := Suc (current a), total_allocated := total_allocated a + n,
                 mallocs := Suc (mallocs a)\<rparr>"
  shows "arena_inv malloc a'"
    and "region (blk_data nb + off) n \<inter> arena_taken a = {}"
    and "region (blk_data nb + off) n \<union> arena_taken a \<subseteq> arena_taken a'"
    and "unat (blk_data nb + off) mod unat align = 0"
proof -
  have req: "unat n + unat align \<le> 2 ^ 61" using ok by (simp add: request_ok_def)
  then have sum: "unat (n + align) = unat n + unat align" by (simp add: unat_word_ariths)
  have capb: "unat cap \<le> 2 ^ 61" and capge: "unat n + unat align \<le> unat cap"
    using inv sum req by (auto simp: cap arena_inv_def word_less_nat_alt)
  obtain p where p: "malloc (mallocs a) (sizeof_arena_block + cap) = Some p" and bok: "block_ok nb"
    and in_p: "blk_region nb \<subseteq> region p (sizeof_arena_block + cap)"
    and nbc: "blk_capacity nb = cap" "blk_used nb = 0"
    using block_create_region [OF m nb capb] .
  note o = align_offset [OF bok ok al, folded off_def]
  show "unat (blk_data nb + off) mod unat align = 0" by (fact o(5))
  let ?nb = "nb\<lparr>blk_used := off + n\<rparr>"
  have room: "unat off + unat n \<le> unat (blk_capacity nb)"
    using o(4) capge nbc by simp
  have nbok: "block_ok ?nb" using bok room o(2) by (simp add: block_ok_def)
  have nreg: "blk_region ?nb = blk_region nb" by (simp add: blk_region_def)
  let ?cs = "take (Suc (current a)) (blocks a)" and ?ds = "drop (Suc (current a)) (blocks a)"
  have old: "blk_region b \<inter> blk_region nb = {}" if "b \<in> set (blocks a)" for b
    using inv that p in_p unfolding arena_inv_def by fastforce
  have set': "set (blocks a') = insert ?nb (set (blocks a))"
  proof -
    have "set ?cs \<union> set ?ds = set (blocks a)" by (metis append_take_drop_id set_append)
    then show ?thesis by (auto simp: a'_def)
  qed
  show "arena_inv malloc a'"
    unfolding arena_inv_def
  proof (intro conjI)
    have c: "current a < length (blocks a)" using inv by (simp add: arena_inv_def)
    then have "length (blocks a') = Suc (length (blocks a))" by (simp add: a'_def)
    then show "current a' < length (blocks a')" using c by (simp add: a'_def)
    show "unat (block_size a') \<le> 2 ^ 61" using inv by (simp add: arena_inv_def a'_def)
    show "list_all block_ok (blocks a')"
      using inv nbok by (simp add: list_all_iff set' arena_inv_def)
    have "sorted_wrt (\<lambda>A B. A \<inter> B = {}) (map blk_region ?cs @ map blk_region ?ds)"
      using inv by (simp add: arena_inv_def flip: map_append)
    then show "sorted_wrt (\<lambda>A B. A \<inter> B = {}) (map blk_region (blocks a'))"
      using old by (auto simp: a'_def sorted_wrt_append nreg Int_commute
          dest: in_set_takeD in_set_dropD)
    show "\<forall>R\<in>set (map blk_region (blocks a')). \<forall>k\<ge>mallocs a'. \<forall>n p.
        malloc k n = Some p \<longrightarrow> R \<inter> region p n = {}"
    proof (intro ballI allI impI)
      fix R k n q
      assume R: "R \<in> set (map blk_region (blocks a'))" and k: "mallocs a' \<le> k"
        and q: "malloc k n = Some q"
      have k': "mallocs a < k" using k by (simp add: a'_def)
      consider "R = blk_region nb" | "R \<in> set (map blk_region (blocks a))"
        using R by (auto simp: set' nreg)
      then show "R \<inter> region q n = {}"
      proof cases
        case 1
        have "region p (sizeof_arena_block + cap) \<inter> region q n = {}"
          using m p q k' unfolding malloc_ok_def by blast
        then show ?thesis using 1 in_p by blast
      next
        case 2
        then show ?thesis using inv q k' unfolding arena_inv_def by (meson less_imp_le)
      qed
    qed
  qed
  have reg: "region (blk_data nb + off) n =
      {unat (blk_data nb) + unat off ..< unat (blk_data nb) + unat off + unat n}"
    using o(1) by (simp add: region_def)
  then have in_nb: "region (blk_data nb + off) n \<subseteq> blk_region nb"
    using room by (auto simp: blk_region_def)
  show "region (blk_data nb + off) n \<inter> arena_taken a = {}"
    using old in_nb block_taken_region inv
    unfolding arena_taken_def arena_inv_def list_all_iff by blast
  have "{unat (blk_data nb) ..< unat (blk_data nb) + (unat off + unat n)} \<subseteq> arena_taken a'"
    using arena_taken_memI [of ?nb a'] set' o(2) by simp
  moreover have "arena_taken a \<subseteq> arena_taken a'"
    unfolding arena_taken_def set' by blast
  ultimately show "region (blk_data nb + off) n \<union> arena_taken a \<subseteq> arena_taken a'"
    using reg by auto
qed

lemma arena_alloc_total:
  assumes "oas_arena_alloc malloc a n align = (Some p, a')"
  shows "oas_arena_used a' = oas_arena_used a + n \<and> n \<noteq> 0"
  using assms
  by (auto simp: oas_arena_alloc_def oas_arena_used_def Let_def split: if_splits option.splits)

lemma arena_alloc_Some:
  assumes "arena_inv malloc a" and "request_ok n align" and "malloc_ok malloc"
    and "oas_arena_alloc malloc a n align = (Some p, a')"
  shows "arena_inv malloc a' \<and> region p n \<inter> arena_taken a = {} \<and>
    region p n \<union> arena_taken a \<subseteq> arena_taken a' \<and> unat p mod unat align = 0"
proof -
  let ?b = "blocks a ! current a"
  let ?off = "align_up (blk_data ?b + blk_used ?b) align - blk_data ?b"
  have al: "align \<noteq> 0" "align AND (align - 1) = 0"
    using assms(4) by (auto simp: oas_arena_alloc_def split: if_splits)
  show ?thesis
  proof (cases "?off + n \<le> blk_capacity ?b")
    case True
    note f = arena_fit [OF assms(1,2) al True]
    have "unat (blk_data ?b + ?off) mod unat align = 0"
      using align_offset(5) [OF arena_current_ok [OF assms(1)] assms(2) al] .
    with f assms(4) True show ?thesis
      by (auto simp: oas_arena_alloc_def Let_def split: if_splits)
  next
    case False
    define cap where "cap = (if block_size a < n + align then n + align else block_size a)"
    obtain nb where nb: "oas_arena_block_create malloc (mallocs a) cap = Some nb"
      using assms(4) False
      by (auto simp: oas_arena_alloc_def Let_def cap_def split: if_splits option.splits)
    note g = arena_grow [OF assms(1,2) al assms(3) cap_def nb]
    have "n \<noteq> 0" using arena_alloc_total [OF assms(4)] by simp
    then have E: "oas_arena_alloc malloc a n align =
      (Some (blk_data nb + (align_up (blk_data nb + blk_used nb) align - blk_data nb)),
       a\<lparr>blocks := take (Suc (current a)) (blocks a) @ [nb\<lparr>blk_used :=
           align_up (blk_data nb + blk_used nb) align - blk_data nb + n\<rparr>] @ drop (Suc (current a)) (blocks a),
         current := Suc (current a), total_allocated := total_allocated a + n,
         mallocs := Suc (mallocs a)\<rparr>)"
      unfolding oas_arena_alloc_def Let_def using al False nb [unfolded cap_def] by simp
    have "p = blk_data nb + (align_up (blk_data nb + blk_used nb) align - blk_data nb)"
      and "a' = a\<lparr>blocks := take (Suc (current a)) (blocks a) @ [nb\<lparr>blk_used :=
           align_up (blk_data nb + blk_used nb) align - blk_data nb + n\<rparr>] @ drop (Suc (current a)) (blocks a),
         current := Suc (current a), total_allocated := total_allocated a + n,
         mallocs := Suc (mallocs a)\<rparr>"
      using trans [OF assms(4) [symmetric] E] by (simp_all only: prod.inject option.inject)
    then show ?thesis using g by blast
  qed
qed

lemma arena_alloc_None:
  assumes "oas_arena_alloc malloc a n align = (None, a')"
  shows "a' = a \<or> a' = a\<lparr>mallocs := Suc (mallocs a)\<rparr>"
  using assms by (auto simp: oas_arena_alloc_def Let_def split: if_splits option.splits)

lemma arena_inv_mallocs:
  "arena_inv malloc a \<Longrightarrow> arena_inv malloc (a\<lparr>mallocs := Suc (mallocs a)\<rparr>)"
  unfolding arena_inv_def by (simp, meson Suc_leD)

lemma arena_alloc_inv:
  assumes "arena_inv malloc a" and "request_ok n align" and "malloc_ok malloc"
  shows "arena_inv malloc (snd (oas_arena_alloc malloc a n align))"
proof (cases "oas_arena_alloc malloc a n align")
  case (Pair r a')
  show ?thesis
  proof (cases r)
    case None
    then have "a' = a \<or> a' = a\<lparr>mallocs := Suc (mallocs a)\<rparr>"
      using Pair arena_alloc_None by simp
    then have "arena_inv malloc a'"
      using assms(1) arena_inv_mallocs by (elim disjE) simp_all
    then show ?thesis using Pair by simp
  next
    case (Some p)
    then show ?thesis using arena_alloc_Some [OF assms, of p a'] Pair by simp
  qed
qed

lemma arena_create_inv:
  assumes "malloc_ok malloc" and "unat bs \<le> 2 ^ 61" and "oas_arena_create malloc bs = Some a"
  shows "arena_inv malloc a \<and> arena_taken a = {}"
proof -
  define cap where "cap = (if bs = 0 then oas_arena_default_block else bs)"
  have cap: "unat cap \<le> 2 ^ 61" using assms(2) by (simp add: cap_def oas_arena_default_block_def)
  obtain b where b: "oas_arena_block_create malloc 1 cap = Some b"
    and a: "a = \<lparr>blocks = [b], current = 0, block_size = cap, total_allocated = 0, mallocs = 2\<rparr>"
    using assms(3) by (auto simp: oas_arena_create_def Let_def cap_def split: option.splits)
  obtain p where p: "malloc 1 (sizeof_arena_block + cap) = Some p" "block_ok b"
    "blk_region b \<subseteq> region p (sizeof_arena_block + cap)" "blk_used b = 0"
    using block_create_region [OF assms(1) b cap] .
  have "blk_region b \<inter> region q m = {}" if "2 \<le> k" "malloc k m = Some q" for k m q
    using assms(1) p that unfolding malloc_ok_def by (metis Int_absorb1 Suc_1 Suc_le_lessD
        disjoint_iff in_mono)
  then show ?thesis
    using p cap by (simp add: arena_inv_def a arena_taken_def)
qed

interpretation arena: region_allocator "oas_arena_alloc malloc" arena_taken oas_arena_used
    "\<lambda>a. malloc_ok malloc \<and> arena_inv malloc a" for malloc
proof unfold_locales
  fix a n align
  assume a: "malloc_ok malloc \<and> arena_inv malloc a" and r: "request_ok n align"
  then show "malloc_ok malloc \<and> arena_inv malloc (snd (oas_arena_alloc malloc a n align))"
    by (simp add: arena_alloc_inv)
  fix p a'
  assume "oas_arena_alloc malloc a n align = (Some p, a')"
  with a r have *: "arena_inv malloc a' \<and> region p n \<inter> arena_taken a = {} \<and>
    region p n \<union> arena_taken a \<subseteq> arena_taken a' \<and> unat p mod unat align = 0"
    using arena_alloc_Some by blast
  show "region p n \<inter> arena_taken a = {} \<and> region p n \<union> arena_taken a \<subseteq> arena_taken a'"
    using * by blast
  show "unat p mod unat align = 0" using * by blast
next
  fix a n align p a'
  assume "oas_arena_alloc malloc a n align = (Some p, a')"
  then have "oas_arena_used a' = oas_arena_used a + n \<and> n \<noteq> 0" by (rule arena_alloc_total)
  then show "0 < unat n" and "oas_arena_used a' = oas_arena_used a + n"
    by (simp_all add: unat_gt_0)
next
  fix a n align a'
  assume "oas_arena_alloc malloc a n align = (None, a')"
  then have "a' = a \<or> a' = a\<lparr>mallocs := Suc (mallocs a)\<rparr>" by (rule arena_alloc_None)
  then show "arena_taken a' = arena_taken a \<and> oas_arena_used a' = oas_arena_used a"
    by (elim disjE) (simp_all add: arena_taken_def oas_arena_used_def)
qed

section \<open>Properties\<close>

text \<open>A \<open>malloc\<close> that serves up to 100 calls of at most a megabyte, 16 megabytes apart.\<close>

definition sample_malloc :: malloc where
  "sample_malloc k n = (if k < 100 \<and> unat n \<le> 2 ^ 20 then Some (of_nat (2 ^ 24 * Suc k)) else None)"

lemma sample_malloc_Some:
  assumes "sample_malloc k n = Some p"
  shows "unat p = 2 ^ 24 * Suc k" and "unat n \<le> 2 ^ 20" and "k < 100"
proof -
  have p: "p = of_nat (2 ^ 24 * Suc k)" and n: "unat n \<le> 2 ^ 20" "k < 100"
    using assms by (auto simp: sample_malloc_def split: if_splits)
  have "2 ^ 24 * Suc k < (2 :: nat) ^ 64" using n by simp
  then show "unat p = 2 ^ 24 * Suc k"
    unfolding p unsigned_of_nat of_nat_id by (intro take_bit_nat_eq_self) simp
  show "unat n \<le> 2 ^ 20" and "k < 100" by (fact n)+
qed

lemma sample_malloc_ok: "malloc_ok sample_malloc"
  unfolding malloc_ok_def
proof (intro conjI allI impI)
  fix k n p assume "sample_malloc k n = Some p"
  from sample_malloc_Some [OF this] show "unat p + unat n \<le> 2 ^ 62" by simp
next
  fix j k :: nat and n m p q
  assume "j < k" "sample_malloc j n = Some p" "sample_malloc k m = Some q"
  then have "unat p + unat n \<le> unat q"
    using sample_malloc_Some [of j n p] sample_malloc_Some [of k m q] by simp
  then show "region p n \<inter> region q m = {}" by (auto simp: region_def)
qed

text \<open>
  C18. The arena never hands out overlapping memory: for any sequence of requests of bounded size
  and alignment, served by an arena fresh from \<open>oas_arena_create\<close>, the address ranges it
  returns are pairwise disjoint, across block boundaries too, as long as \<open>malloc\<close> itself
  returns disjoint ranges.
\<close>

theorem arena_allocations_disjoint:
  assumes "malloc_ok malloc" and "unat bs \<le> 2 ^ 61" and "oas_arena_create malloc bs = Some a"
    and "list_all (\<lambda>(n, align). request_ok n align) rs"
  shows "sorted_wrt (\<lambda>A B. A \<inter> B = {}) (alloc_run (oas_arena_alloc malloc) a rs)"
  using arena.alloc_run_disjoint [of malloc a rs] arena_create_inv [OF assms(1-3)] assms(1,4)
  by blast

theorem arena_allocations_disjoint_witness:
  "sorted_wrt (\<lambda>A B. A \<inter> B = {}) (alloc_run (oas_arena_alloc sample_malloc)
     \<lparr>blocks = [\<lparr>blk_data = 2 ^ 25 + 32, blk_capacity = 64, blk_used = 0\<rparr>], current = 0,
      block_size = 64, total_allocated = 0, mallocs = 2\<rparr> [(24, 8), (100, 16), (3, 1)])"
  by (rule arena_allocations_disjoint [OF sample_malloc_ok, of 64])
    (simp_all add: oas_arena_create_def oas_arena_block_create_def sample_malloc_def
      sizeof_arena_block_def request_ok_def)

text \<open>
  An arena with 48 free bytes in its only block.
\<close>

definition tight_arena :: oas_arena where
  "tight_arena = \<lparr>blocks = [\<lparr>blk_data = 4096, blk_capacity = 64, blk_used = 16\<rparr>], current = 0,
      block_size = 64, total_allocated = 16, mallocs = 2\<rparr>"

text \<open>
  The bound on request sizes is needed: the check \<open>aligned_offset + size <= capacity\<close> of
  \<open>oas_arena_alloc\<close> wraps for a request close to the address space, which is then granted out
  of 48 free bytes, and a later request gets memory that lies before it.
\<close>

theorem arena_overflow:
  "\<exists>a'. oas_arena_alloc malloc tight_arena (2 ^ 64 - 8) 8 = (Some 4112, a') \<and>
    (\<exists>a''. oas_arena_alloc malloc a' 8 8 = (Some 4104, a''))"
  by (simp add: tight_arena_def oas_arena_alloc_def align_up_def)

end
