(* ===== verification/Liboas_Json.thy ===== *)
theory Liboas_Json
  imports Liboas_Prelude Complex_Main "HOL-Library.Log_Nat"
begin

text \<open>
  JSON values as the code receives them from yyjson, the yyjson calls the code relies
  on as a record of functions (the library is not part of the repository), and the
  double arithmetic of the validator.
\<close>

section \<open>Doubles\<close>

text \<open>
  A finite C \<open>double\<close> is a rational; JSON has no infinities or NaN. Comparisons of
  doubles are comparisons of rationals, \<open>fmod\<close> is exact, and an addition or
  subtraction rounds to the nearest binary64 value, ties to even.
\<close>

type_synonym double = rat

definition ilog2_rat :: "rat \<Rightarrow> int" where
  \<comment> \<open>The largest \<open>e\<close> with \<open>2 ^ e \<le> x\<close>, for a positive rational.\<close>
  "ilog2_rat x =
     (let (n, d) = quotient_of x; k = int (floorlog 2 (nat n)) - int (floorlog 2 (nat d))
      in if 2 powi k \<le> x then k else k - 1)"

definition round_half_even :: "rat \<Rightarrow> int" where
  "round_half_even x =
     (let f = \<lfloor>x\<rfloor>; r = x - of_int f
      in if r < 1 / 2 then f else if r > 1 / 2 then f + 1 else if even f then f else f + 1)"

definition dbl_round :: "rat \<Rightarrow> double" where
  "dbl_round x =
     (if x = 0 then 0
      else let u = 2 powi (max (ilog2_rat \<bar>x\<bar> - 52) (- 1074))
           in of_int (round_half_even (x / u)) * u)"

definition dbl_sub :: "double \<Rightarrow> double \<Rightarrow> double" where
  "dbl_sub a b = dbl_round (a - b)"

text \<open>
  C's \<open>fmod\<close>: the remainder with the sign of the dividend; \<open>None\<close> is the NaN that
  a zero divisor gives.
\<close>

definition dbl_fmod :: "double \<Rightarrow> double \<Rightarrow> double option" where
  "dbl_fmod v m =
     (if m = 0 then None
      else let q = v / m; t = (if 0 \<le> q then \<lfloor>q\<rfloor> else - \<lfloor>- q\<rfloor>) in Some (v - of_int t * m))"

definition dbl_is_integral :: "double \<Rightarrow> bool" where
  \<comment> \<open>\<open>modf(d, &intpart) == 0.0\<close>\<close>
  "dbl_is_integral d \<longleftrightarrow> of_int \<lfloor>d\<rfloor> = d"

section \<open>JSON values\<close>

text \<open>
  yyjson's immutable values: the number subtypes it keeps apart, strings with their byte
  length (a string may hold NUL bytes), arrays and objects as the sequences the iterators
  walk. An object may repeat a key.
\<close>

datatype json =
    JNull
  | JBool bool
  | JUint u64
  | JSint u64
  | JReal double
  | JStr string
  | JArr "json list"
  | JObj "(string \<times> json) list"

fun is_jstr :: "json \<Rightarrow> bool" where
  "is_jstr (JStr s) = True"
| "is_jstr _ = False"

fun is_jnum :: "json \<Rightarrow> bool" where
  "is_jnum (JUint n) = True"
| "is_jnum (JSint n) = True"
| "is_jnum (JReal d) = True"
| "is_jnum _ = False"

fun is_jarr :: "json \<Rightarrow> bool" where
  "is_jarr (JArr xs) = True"
| "is_jarr _ = False"

fun is_jobj :: "json \<Rightarrow> bool" where
  "is_jobj (JObj kvs) = True"
| "is_jobj _ = False"

section \<open>The yyjson functions the code calls\<close>

text \<open>
  The calls with content of their own are parameters: the keyed lookup in an object
  (\<open>yyjson_obj_get\<close>, \<open>None\<close> for NULL), deep equality (\<open>yyjson_equals\<close>), the conversion
  of a number to double (\<open>yyjson_get_num\<close>), and writing one string as JSON text and
  reading text back (\<open>yyjson_mut_val_write\<close>, \<open>yyjson_read\<close>).
\<close>

record yyjson =
  yy_obj_get :: "json \<Rightarrow> string \<Rightarrow> json option"
  yy_equals :: "json \<Rightarrow> json \<Rightarrow> bool"
  yy_get_num :: "json \<Rightarrow> double"
  yy_write_str :: "string \<Rightarrow> string option"
  yy_read :: "string \<Rightarrow> json option"

text \<open>
  Documented behaviour of two of them, as named hypotheses: \<open>yyjson_obj_get\<close> returns
  the value of the first pair with that key and NULL where there is none or the value is
  no object; a string written by yyjson reads back as that string.
\<close>

definition yy_obj_get_ok :: "yyjson \<Rightarrow> bool" where
  "yy_obj_get_ok yy \<longleftrightarrow>
     (\<forall>v k. yy_obj_get yy v k = (case v of JObj kvs \<Rightarrow> map_of kvs k | _ \<Rightarrow> None))"

definition yy_str_roundtrip :: "yyjson \<Rightarrow> bool" where
  "yy_str_roundtrip yy \<longleftrightarrow>
     (\<forall>s t. yy_write_str yy s = Some t \<longrightarrow> yy_read yy t = Some (JStr s))"

text \<open>
  An instance of the parameter, with which the hypotheses hold: the first pair of an
  object, structural equality, and strings in quotation marks without escapes.
\<close>

fun num_value :: "json \<Rightarrow> double" where
  "num_value (JUint n) = of_nat (unat n)"
| "num_value (JSint n) = of_int (sint n)"
| "num_value (JReal d) = d"
| "num_value _ = 0"

definition sample_yyjson :: yyjson where
  "sample_yyjson =
     \<lparr>yy_obj_get = (\<lambda>v k. case v of JObj kvs \<Rightarrow> map_of kvs k | _ \<Rightarrow> None),
      yy_equals = (\<lambda>a b. a = b),
      yy_get_num = num_value,
      yy_write_str = (\<lambda>s. Some (CHR 0x22 # s @ [CHR 0x22])),
      yy_read = (\<lambda>t. if length t < 2 then None else Some (JStr (butlast (tl t))))\<rparr>"

lemma sample_yyjson_ok: "yy_obj_get_ok sample_yyjson" "yy_str_roundtrip sample_yyjson"
  by (simp_all add: yy_obj_get_ok_def yy_str_roundtrip_def sample_yyjson_def)

end
