(* ===== verification/Liboas_Schema.thy ===== *)
theory Liboas_Schema
  imports Liboas_Arena Liboas_Json
begin

text \<open>
  \<open>include/liboas/oas_schema.h\<close> and \<open>src/model/oas_schema.c\<close>: schema nodes, the store
  they live in, and the three operations of the model. A pointer to a schema is an address
  of the arena; the store maps addresses to nodes, so shared and cyclic schemas
  (\<open>ref_resolved\<close>) are expressible.
\<close>

section \<open>Nodes\<close>

type_synonym sref = u64

definition OAS_TYPE_NULL :: u8 where "OAS_TYPE_NULL = 0x01"
definition OAS_TYPE_BOOLEAN :: u8 where "OAS_TYPE_BOOLEAN = 0x02"
definition OAS_TYPE_INTEGER :: u8 where "OAS_TYPE_INTEGER = 0x04"
definition OAS_TYPE_NUMBER :: u8 where "OAS_TYPE_NUMBER = 0x08"
definition OAS_TYPE_STRING :: u8 where "OAS_TYPE_STRING = 0x10"
definition OAS_TYPE_ARRAY :: u8 where "OAS_TYPE_ARRAY = 0x20"
definition OAS_TYPE_OBJECT :: u8 where "OAS_TYPE_OBJECT = 0x40"

lemmas type_bits = OAS_TYPE_NULL_def OAS_TYPE_BOOLEAN_def OAS_TYPE_INTEGER_def
  OAS_TYPE_NUMBER_def OAS_TYPE_STRING_def OAS_TYPE_ARRAY_def OAS_TYPE_OBJECT_def

record oas_discriminator_mapping =
  dm_key :: string
  dm_ref :: "string option"

record oas_pattern_property =
  pp_pattern :: "string option"
  pp_schema :: "sref option"

record oas_dependent_required =
  dr_property :: string
  dr_required :: "string list"

record oas_dependent_schema =
  ds_property :: string
  ds_schema :: "sref option"

record oas_property =
  p_name :: string
  p_schema :: "sref option"

text \<open>
  An array with its count is a list (empty where the C pointer is null), the linked list
  of properties a list from its head. A null pointer is \<open>None\<close>; the bounds that use -1 for
  "not set" keep it.
\<close>

record oas_schema =
  s_type_mask :: u8
  s_title :: "string option"
  s_description :: "string option"
  s_format :: "string option"
  s_min_length :: int
  s_max_length :: int
  s_pattern :: "string option"
  s_minimum :: double
  s_maximum :: double
  s_exclusive_minimum :: double
  s_exclusive_maximum :: double
  s_multiple_of :: double
  s_has_minimum :: bool
  s_has_maximum :: bool
  s_has_exclusive_minimum :: bool
  s_has_exclusive_maximum :: bool
  s_has_multiple_of :: bool
  s_items :: "sref option"
  s_prefix_items :: "sref option list"
  s_min_items :: int
  s_max_items :: int
  s_unique_items :: bool
  s_properties :: "oas_property list"
  s_properties_count :: nat
  s_required :: "string list"
  s_additional_properties :: "sref option"
  s_additional_properties_bool :: bool
  s_min_properties :: int
  s_max_properties :: int
  s_property_names :: "sref option"
  s_pattern_properties :: "oas_pattern_property list"
  s_dependent_required :: "oas_dependent_required list"
  s_dependent_schemas :: "oas_dependent_schema list"
  s_contains :: "sref option"
  s_min_contains :: int
  s_max_contains :: int
  s_all_of :: "sref option list"
  s_any_of :: "sref option list"
  s_one_of :: "sref option list"
  s_not_schema :: "sref option"
  s_if_schema :: "sref option"
  s_then_schema :: "sref option"
  s_else_schema :: "sref option"
  s_const_value :: "json option"
  s_enum_values :: "json option"
  s_ref :: "string option"
  s_ref_resolved :: "sref option"
  s_default_value :: "json option"
  s_nullable :: bool
  s_read_only :: bool
  s_write_only :: bool
  s_deprecated :: bool
  s_discriminator_property :: "string option"
  s_discriminator_mapping :: "oas_discriminator_mapping list"
  s_has_unevaluated_properties :: bool
  s_unevaluated_properties :: "sref option"
  s_has_unevaluated_items :: bool
  s_unevaluated_items :: "sref option"

type_synonym schema_heap = "sref \<Rightarrow> oas_schema option"

section \<open>Operations\<close>

text \<open>What \<open>oas_schema_create\<close> leaves in a fresh node: zeros, and the unset bounds.\<close>

definition oas_schema_fresh :: oas_schema where
  "oas_schema_fresh =
     \<lparr>s_type_mask = 0, s_title = None, s_description = None, s_format = None,
      s_min_length = - 1, s_max_length = - 1, s_pattern = None,
      s_minimum = 0, s_maximum = 0, s_exclusive_minimum = 0, s_exclusive_maximum = 0,
      s_multiple_of = 0, s_has_minimum = False, s_has_maximum = False,
      s_has_exclusive_minimum = False, s_has_exclusive_maximum = False,
      s_has_multiple_of = False, s_items = None, s_prefix_items = [],
      s_min_items = - 1, s_max_items = - 1, s_unique_items = False,
      s_properties = [], s_properties_count = 0, s_required = [],
      s_additional_properties = None, s_additional_properties_bool = False,
      s_min_properties = - 1, s_max_properties = - 1, s_property_names = None,
      s_pattern_properties = [], s_dependent_required = [], s_dependent_schemas = [],
      s_contains = None, s_min_contains = - 1, s_max_contains = - 1,
      s_all_of = [], s_any_of = [], s_one_of = [], s_not_schema = None,
      s_if_schema = None, s_then_schema = None, s_else_schema = None,
      s_const_value = None, s_enum_values = None, s_ref = None, s_ref_resolved = None,
      s_default_value = None, s_nullable = False, s_read_only = False,
      s_write_only = False, s_deprecated = False, s_discriminator_property = None,
      s_discriminator_mapping = [], s_has_unevaluated_properties = False,
      s_unevaluated_properties = None, s_has_unevaluated_items = False,
      s_unevaluated_items = None\<rparr>"

lemma oas_schema_fresh_simps [simp]:
  "s_type_mask oas_schema_fresh = 0"
  "s_title oas_schema_fresh = None"
  "s_description oas_schema_fresh = None"
  "s_format oas_schema_fresh = None"
  "s_min_length oas_schema_fresh = - 1"
  "s_max_length oas_schema_fresh = - 1"
  "s_pattern oas_schema_fresh = None"
  "s_minimum oas_schema_fresh = 0"
  "s_maximum oas_schema_fresh = 0"
  "s_exclusive_minimum oas_schema_fresh = 0"
  "s_exclusive_maximum oas_schema_fresh = 0"
  "s_multiple_of oas_schema_fresh = 0"
  "s_has_minimum oas_schema_fresh = False"
  "s_has_maximum oas_schema_fresh = False"
  "s_has_exclusive_minimum oas_schema_fresh = False"
  "s_has_exclusive_maximum oas_schema_fresh = False"
  "s_has_multiple_of oas_schema_fresh = False"
  "s_items oas_schema_fresh = None"
  "s_prefix_items oas_schema_fresh = []"
  "s_min_items oas_schema_fresh = - 1"
  "s_max_items oas_schema_fresh = - 1"
  "s_unique_items oas_schema_fresh = False"
  "s_properties oas_schema_fresh = []"
  "s_properties_count oas_schema_fresh = 0"
  "s_required oas_schema_fresh = []"
  "s_additional_properties oas_schema_fresh = None"
  "s_additional_properties_bool oas_schema_fresh = False"
  "s_min_properties oas_schema_fresh = - 1"
  "s_max_properties oas_schema_fresh = - 1"
  "s_property_names oas_schema_fresh = None"
  "s_pattern_properties oas_schema_fresh = []"
  "s_dependent_required oas_schema_fresh = []"
  "s_dependent_schemas oas_schema_fresh = []"
  "s_contains oas_schema_fresh = None"
  "s_min_contains oas_schema_fresh = - 1"
  "s_max_contains oas_schema_fresh = - 1"
  "s_all_of oas_schema_fresh = []"
  "s_any_of oas_schema_fresh = []"
  "s_one_of oas_schema_fresh = []"
  "s_not_schema oas_schema_fresh = None"
  "s_if_schema oas_schema_fresh = None"
  "s_then_schema oas_schema_fresh = None"
  "s_else_schema oas_schema_fresh = None"
  "s_const_value oas_schema_fresh = None"
  "s_enum_values oas_schema_fresh = None"
  "s_ref oas_schema_fresh = None"
  "s_ref_resolved oas_schema_fresh = None"
  "s_default_value oas_schema_fresh = None"
  "s_nullable oas_schema_fresh = False"
  "s_read_only oas_schema_fresh = False"
  "s_write_only oas_schema_fresh = False"
  "s_deprecated oas_schema_fresh = False"
  "s_discriminator_property oas_schema_fresh = None"
  "s_discriminator_mapping oas_schema_fresh = []"
  "s_has_unevaluated_properties oas_schema_fresh = False"
  "s_unevaluated_properties oas_schema_fresh = None"
  "s_has_unevaluated_items oas_schema_fresh = False"
  "s_unevaluated_items oas_schema_fresh = None"
  by (simp_all add: oas_schema_fresh_def)

text \<open>
  The allocator is a parameter (the arena's \<open>oas_arena_alloc\<close>); the size is that of the
  structure on a 64-bit target.
\<close>

definition sizeof_oas_schema :: u64 where
  "sizeof_oas_schema = 480"

definition sizeof_oas_property :: u64 where
  "sizeof_oas_property = 24"

definition oas_schema_create ::
    "('a \<Rightarrow> u64 \<Rightarrow> u64 \<Rightarrow> u64 option \<times> 'a) \<Rightarrow> 'a option \<Rightarrow> schema_heap
      \<Rightarrow> sref option \<times> 'a option \<times> schema_heap" where
  "oas_schema_create alloc arena h =
     (case arena of
        None \<Rightarrow> (None, None, h)
      | Some a \<Rightarrow>
          (case alloc a sizeof_oas_schema 8 of
             (None, a') \<Rightarrow> (None, Some a', h)
           | (Some p, a') \<Rightarrow> (Some p, Some a', h(p \<mapsto> oas_schema_fresh))))"

text \<open>
  The new property goes to the front of the list. The caller's pointers may be null; a
  schema pointer outside the store is undefined behaviour, which the inner option shows.
\<close>

definition oas_schema_add_property ::
    "('a \<Rightarrow> u64 \<Rightarrow> u64 \<Rightarrow> u64 option \<times> 'a) \<Rightarrow> 'a option \<Rightarrow> schema_heap
      \<Rightarrow> sref option \<Rightarrow> string option \<Rightarrow> sref option
      \<Rightarrow> (errno option \<times> 'a option \<times> schema_heap) option" where
  "oas_schema_add_property alloc arena h schema nm q =
     (case (arena, schema, nm, q) of
        (Some a, Some p, Some n, Some sub) \<Rightarrow>
          (case alloc a sizeof_oas_property 8 of
             (None, a') \<Rightarrow> Some (Some ENOMEM, Some a', h)
           | (Some _, a') \<Rightarrow> do {
               s \<leftarrow> h p;
               Some (None, Some a',
                 h(p \<mapsto> s\<lparr>s_properties := \<lparr>p_name = n, p_schema = Some sub\<rparr> # s_properties s,
                          s_properties_count := s_properties_count s + 1\<rparr>))
             })
      | _ \<Rightarrow> Some (Some EINVAL, arena, h))"

definition oas_type_from_string :: "string option \<Rightarrow> u8" where
  "oas_type_from_string type_name =
     (case type_name of
        None \<Rightarrow> 0
      | Some t \<Rightarrow>
          if t = ''null'' then OAS_TYPE_NULL
          else if t = ''boolean'' then OAS_TYPE_BOOLEAN
          else if t = ''integer'' then OAS_TYPE_INTEGER
          else if t = ''number'' then OAS_TYPE_NUMBER
          else if t = ''string'' then OAS_TYPE_STRING
          else if t = ''array'' then OAS_TYPE_ARRAY
          else if t = ''object'' then OAS_TYPE_OBJECT
          else 0)"

section \<open>The property list\<close>

text \<open>The count is the length of the list, in every node of the store.\<close>

definition schema_heap_ok :: "schema_heap \<Rightarrow> bool" where
  "schema_heap_ok h \<longleftrightarrow>
     (\<forall>p s. h p = Some s \<longrightarrow> s_properties_count s = length (s_properties s))"

lemma schema_heap_ok_upd:
  "schema_heap_ok h \<Longrightarrow> s_properties_count s = length (s_properties s) \<Longrightarrow> schema_heap_ok (h(p \<mapsto> s))"
  by (simp add: schema_heap_ok_def)

lemma schema_heap_okD:
  "schema_heap_ok h \<Longrightarrow> h p = Some s \<Longrightarrow> s_properties_count s = length (s_properties s)"
  by (simp add: schema_heap_ok_def)

lemma schema_create_ok:
  assumes "schema_heap_ok h" and "oas_schema_create alloc arena h = (r, arena', h')"
  shows "schema_heap_ok h'"
  using assms schema_heap_ok_upd [OF assms(1), of oas_schema_fresh]
  by (auto simp: oas_schema_create_def split: option.splits prod.splits)

lemma schema_add_property_ok:
  assumes "schema_heap_ok h"
    and "oas_schema_add_property alloc arena h schema name q = Some (rc, arena', h')"
  shows "schema_heap_ok h'"
  using assms schema_heap_okD [OF assms(1)]
  by (auto simp: oas_schema_add_property_def bind_eq_Some_conv
      split: option.splits prod.splits intro!: schema_heap_ok_upd)

section \<open>Properties\<close>

text \<open>
  \<open>oas_schema_add_property\<close>, when it answers 0, puts the property in front of the list of
  the schema it was given, with the pointer passed, so that a search by name finds it first,
  leaves the older properties and every other schema as they were, and keeps the count the
  length of the list in every node.
\<close>

theorem schema_add_property_front:
  assumes "schema_heap_ok h"
    and "oas_schema_add_property alloc arena h (Some p) (Some nm) (Some q) = Some (None, arena', h')"
  shows "schema_heap_ok h' \<and> (\<forall>p'. p' \<noteq> p \<longrightarrow> h' p' = h p') \<and>
    (\<exists>s s'. h p = Some s \<and> h' p = Some s' \<and>
       s_properties s' = \<lparr>p_name = nm, p_schema = Some q\<rparr> # s_properties s)"
  using schema_add_property_ok [OF assms] assms(2)
  by (auto simp: oas_schema_add_property_def bind_eq_Some_conv split: option.splits prod.splits)

theorem schema_add_property_front_witness:
  "\<exists>h'. oas_schema_add_property (\<lambda>a n k. (Some 64, a)) (Some ()) [8 \<mapsto> oas_schema_fresh] (Some 8)
       (Some ''id'') (Some 16) = Some (None, Some (), h') \<and> schema_heap_ok h'"
proof -
  have ok: "schema_heap_ok [8 \<mapsto> oas_schema_fresh]"
    by (simp add: schema_heap_ok_def)
  have "\<exists>h'. oas_schema_add_property (\<lambda>a n k. (Some 64, a)) (Some ()) [8 \<mapsto> oas_schema_fresh] (Some 8)
       (Some ''id'') (Some 16) = Some (None, Some (), h')"
    by (simp add: oas_schema_add_property_def)
  then show ?thesis using schema_add_property_front [OF ok] by blast
qed

end
