(* ===== verification/Liboas_Doc.thy ===== *)
theory Liboas_Doc
  imports Liboas_Schema
begin

text \<open>
  The document model of \<open>include/liboas/oas_doc.h\<close>: one record per structure. The tree below
  the document is not shared, so its nodes are values; a nullable pointer is an option, an array
  with its count is a list, and only the schemas are references into the schema heap. The document
  parser leaves a slot of \<open>se_variables\<close> unwritten when memory runs out; such a slot is \<open>None\<close>.
\<close>

section \<open>Information and servers\<close>

record oas_contact =
  ct_name :: "string option"
  ct_url :: "string option"
  ct_email :: "string option"

record oas_license =
  lc_name :: "string option"
  lc_url :: "string option"
  lc_identifier :: "string option"

record oas_info =
  in_title :: "string option"
  in_summary :: "string option"
  in_description :: "string option"
  in_version :: "string option"
  in_terms_of_service :: "string option"
  in_contact :: "oas_contact option"
  in_license :: "oas_license option"

record oas_server_var =
  sv_name :: "string option"
  sv_default_value :: "string option"
  sv_description :: "string option"
  sv_enum_values :: "string option list"

record oas_server =
  se_url :: "string option"
  se_description :: "string option"
  se_variables :: "oas_server_var option list"

section \<open>Operations\<close>

record oas_media_type =
  mt_media_type_name :: "string option"
  mt_schema :: "sref option"

record oas_media_type_entry =
  me_key :: string
  me_value :: "oas_media_type option"

record oas_parameter =
  pa_name :: "string option"
  pa_in :: "string option"
  pa_description :: "string option"
  pa_required :: bool
  pa_deprecated :: bool
  pa_schema :: "sref option"

record oas_request_body =
  rb_description :: "string option"
  rb_required :: bool
  rb_content :: "oas_media_type_entry list"

record oas_response =
  re_description :: "string option"
  re_content :: "oas_media_type_entry list"

record oas_response_entry =
  rn_status_code :: string
  rn_response :: "oas_response option"

record oas_security_req =
  sr_name :: string
  sr_scopes :: "string option list"

record oas_operation =
  op_operation_id :: "string option"
  op_summary :: "string option"
  op_description :: "string option"
  op_tags :: "string option list"
  op_parameters :: "oas_parameter option list"
  op_request_body :: "oas_request_body option"
  op_responses :: "oas_response_entry list"
  op_security :: "oas_security_req option list"
  op_deprecated :: bool

record oas_path_item =
  pi_path :: "string option"
  pi_get :: "oas_operation option"
  pi_post :: "oas_operation option"
  pi_put :: "oas_operation option"
  pi_delete :: "oas_operation option"
  pi_patch :: "oas_operation option"
  pi_head :: "oas_operation option"
  pi_options :: "oas_operation option"
  pi_parameters :: "oas_parameter option list"

record oas_path_entry =
  pe_path :: string
  pe_item :: "oas_path_item option"

section \<open>Security\<close>

record oas_oauth_flow =
  of_authorization_url :: "string option"
  of_token_url :: "string option"
  of_refresh_url :: "string option"
  of_scopes :: "(string \<times> string option) list"

record oas_oauth_flows =
  ofs_implicit :: "oas_oauth_flow option"
  ofs_password :: "oas_oauth_flow option"
  ofs_client_credentials :: "oas_oauth_flow option"
  ofs_authorization_code :: "oas_oauth_flow option"

record oas_security_scheme =
  ss_type :: "string option"
  ss_name :: "string option"
  ss_in :: "string option"
  ss_scheme :: "string option"
  ss_bearer_format :: "string option"
  ss_description :: "string option"
  ss_open_id_connect_url :: "string option"
  ss_flows :: "oas_oauth_flows option"

section \<open>Components and the document\<close>

text \<open>The entry types of \<open>components\<close> are pairs of a name and a pointer.\<close>

record oas_components =
  co_schemas :: "(string \<times> sref option) list"
  co_security_schemes :: "(string \<times> oas_security_scheme option) list"
  co_comp_responses :: "(string \<times> oas_response option) list"
  co_parameters :: "(string \<times> oas_parameter option) list"
  co_request_bodies :: "(string \<times> oas_request_body option) list"
  co_headers :: "(string \<times> oas_parameter option) list"

record oas_tag =
  tg_name :: "string option"
  tg_description :: "string option"

record oas_doc =
  d_openapi :: "string option"
  d_info :: "oas_info option"
  d_servers :: "oas_server option list"
  d_paths :: "oas_path_entry list"
  d_components :: "oas_components option"
  d_security :: "oas_security_req option list"
  d_tags :: "oas_tag option list"
  d_json_doc :: "nat option"

text \<open>
  \<open>oas_doc_free\<close> releases the JSON document, which \<open>d_json_doc\<close> numbers, and leaves a null pointer
  behind; the second component lists what was freed.
\<close>

definition oas_doc_free :: "oas_doc option \<Rightarrow> oas_doc option \<times> nat list" where
  "oas_doc_free doc =
     (case doc of
        None \<Rightarrow> (None, [])
      | Some d \<Rightarrow> (Some (d\<lparr>d_json_doc := None\<rparr>), case d_json_doc d of None \<Rightarrow> [] | Some n \<Rightarrow> [n]))"

end
