(* ===== verification/Liboas_Instr.thy ===== *)
theory Liboas_Instr
  imports Liboas_Json
begin

text \<open>
  \<open>src/compiler/oas_instruction.h\<close> and \<open>oas_instruction.c\<close>: the opcodes, an
  instruction with its operand union, and the growable program buffer with its
  operations. A pointer in an operand is the thing it points to: a compiled pattern, a
  format function, a JSON value.
\<close>

section \<open>Instructions\<close>

datatype oas_opcode =
    OAS_OP_NOP | OAS_OP_CHECK_TYPE | OAS_OP_CHECK_MIN_LEN | OAS_OP_CHECK_MAX_LEN
  | OAS_OP_CHECK_PATTERN | OAS_OP_CHECK_FORMAT | OAS_OP_CHECK_MINIMUM
  | OAS_OP_CHECK_MAXIMUM | OAS_OP_CHECK_EX_MINIMUM | OAS_OP_CHECK_EX_MAXIMUM
  | OAS_OP_CHECK_MULTIPLE_OF | OAS_OP_CHECK_ENUM | OAS_OP_CHECK_CONST
  | OAS_OP_CHECK_REQUIRED | OAS_OP_CHECK_MIN_ITEMS | OAS_OP_CHECK_MAX_ITEMS
  | OAS_OP_CHECK_UNIQUE | OAS_OP_ENTER_PROPERTY | OAS_OP_ENTER_ITEMS
  | OAS_OP_ENTER_PREFIX_ITEM | OAS_OP_ENTER_ADDITIONAL | OAS_OP_BRANCH_ALLOF
  | OAS_OP_BRANCH_ANYOF | OAS_OP_BRANCH_ONEOF | OAS_OP_NEGATE | OAS_OP_COND_IF
  | OAS_OP_COND_THEN | OAS_OP_COND_ELSE | OAS_OP_DISCRIMINATOR | OAS_OP_JUMP
  | OAS_OP_JUMP_IF_FAIL | OAS_OP_PUSH_SCOPE | OAS_OP_POP_SCOPE
  | OAS_OP_CHECK_UNEVAL_PROPS | OAS_OP_CHECK_UNEVAL_ITEMS | OAS_OP_CHECK_MIN_PROPS
  | OAS_OP_CHECK_MAX_PROPS | OAS_OP_CHECK_PROP_NAMES | OAS_OP_CHECK_PATTERN_PROPS
  | OAS_OP_CHECK_DEP_REQUIRED | OAS_OP_CHECK_DEP_SCHEMA | OAS_OP_CHECK_CONTAINS
  | OAS_OP_CHECK_READ_ONLY | OAS_OP_CHECK_WRITE_ONLY | OAS_OP_END

text \<open>
  The format functions of \<open>oas_format.h\<close>, named: an operand holds the address of one
  of them.
\<close>

datatype oas_format_fn =
    Oas_format_date | Oas_format_date_time | Oas_format_time | Oas_format_email
  | Oas_format_uri | Oas_format_uri_reference | Oas_format_uuid | Oas_format_ipv4
  | Oas_format_ipv6 | Oas_format_hostname | Oas_format_byte | Oas_format_int32
  | Oas_format_int64

text \<open>
  The operand union by the member last written; \<open>OpZero\<close> is the zero-initialised union
  of \<open>{.op = op}\<close>. \<open>int64_t\<close> members are only copied and compared, so they are
  \<open>int\<close>; the branch counter keeps its 16 bits.
\<close>

datatype 'p oas_operand =
    OpZero
  | OpI64 int
  | OpF64 double
  | OpStr string
  | OpOffset u64
  | OpPattern 'p
  | OpFormat oas_format_fn
  | OpJson json
  | OpBranch (branch_count: u16) (branch_index: u16)

record 'p oas_instruction =
  op :: oas_opcode
  type_mask :: u8
  operand :: "'p oas_operand"

text \<open>
  Reading a union member. All members of a zeroed union read as zero (a null pointer for
  \<open>str\<close> and \<open>ptr\<close>); reading a member other than the one written is refused (\<open>None\<close>).
\<close>

fun get_i64 :: "'p oas_operand \<Rightarrow> int option" where
  "get_i64 (OpI64 n) = Some n"
| "get_i64 OpZero = Some 0"
| "get_i64 _ = None"

fun get_f64 :: "'p oas_operand \<Rightarrow> double option" where
  "get_f64 (OpF64 d) = Some d"
| "get_f64 OpZero = Some 0"
| "get_f64 _ = None"

fun get_str :: "'p oas_operand \<Rightarrow> string option" where
  "get_str (OpStr s) = Some s"
| "get_str _ = None"

fun get_pattern :: "'p oas_operand \<Rightarrow> 'p option" where
  "get_pattern (OpPattern p) = Some p"
| "get_pattern _ = None"

fun get_format :: "'p oas_operand \<Rightarrow> oas_format_fn option" where
  "get_format (OpFormat f) = Some f"
| "get_format _ = None"

fun get_json :: "'p oas_operand \<Rightarrow> json option" where
  "get_json (OpJson v) = Some v"
| "get_json _ = None"

fun get_branch :: "'p oas_operand \<Rightarrow> (u16 \<times> u16) option" where
  "get_branch (OpBranch c i) = Some (c, i)"
| "get_branch OpZero = Some (0, 0)"
| "get_branch _ = None"

section \<open>The program buffer\<close>

record 'p oas_program =
  code :: "'p oas_instruction list"
  capacity :: nat

text \<open>
  \<open>code\<close> lists the \<open>count\<close> instructions in use. The allocator's answer to a
  \<open>realloc\<close> is a parameter: \<open>mem n\<close> says whether room for \<open>n\<close> instructions is granted.
  The byte size \<open>n * sizeof\<close> is computed without an overflow check in the code; \<open>mem\<close>
  is asked for the number of instructions the buffer will be taken to hold.
\<close>

definition oas_program_initial_cap :: nat where
  "oas_program_initial_cap = 32"

definition oas_program_init :: "'p oas_program" where
  "oas_program_init = \<lparr>code = [], capacity = 0\<rparr>"

definition oas_program_destroy :: "'p oas_program \<Rightarrow> 'p oas_program" where
  "oas_program_destroy p = p\<lparr>code := [], capacity := 0\<rparr>"

text \<open>An instruction with a cleared type mask, as the emitters build it.\<close>

definition instr :: "oas_opcode \<Rightarrow> 'p oas_operand \<Rightarrow> 'p oas_instruction" where
  "instr oper x = \<lparr>op = oper, type_mask = 0, operand = x\<rparr>"

abbreviation end_instr :: "'p oas_instruction" where
  "end_instr \<equiv> instr OAS_OP_END OpZero"

definition oas_program_emit ::
    "(nat \<Rightarrow> bool) \<Rightarrow> 'p oas_program \<Rightarrow> 'p oas_instruction \<Rightarrow> errno + 'p oas_program" where
  "oas_program_emit mem p i =
     (if capacity p \<le> length (code p)
      then let new_cap = (if capacity p = 0 then oas_program_initial_cap else capacity p * 2)
           in if mem new_cap
              then Inr (p\<lparr>code := code p @ [i], capacity := new_cap\<rparr>)
              else Inl ENOMEM
      else Inr (p\<lparr>code := code p @ [i]\<rparr>))"

definition oas_program_pos :: "'p oas_program \<Rightarrow> nat" where
  "oas_program_pos p = length (code p)"

definition oas_program_patch :: "'p oas_program \<Rightarrow> nat \<Rightarrow> u64 \<Rightarrow> 'p oas_program" where
  "oas_program_patch p pos target =
     (if length (code p) \<le> pos then p
      else p\<lparr>code := (code p)[pos := (code p ! pos)\<lparr>operand := OpOffset target\<rparr>]\<rparr>)"

definition oas_program_reset :: "'p oas_program \<Rightarrow> 'p oas_program" where
  "oas_program_reset p = p\<lparr>code := []\<rparr>"

text \<open>
  The names table has no entry for the opcodes that were added after it, so the C array
  holds a null pointer there: \<open>None\<close>. The range check on the opcode can only fail for
  values outside the enumeration.
\<close>

fun oas_opcode_name :: "oas_opcode \<Rightarrow> string option" where
  "oas_opcode_name OAS_OP_NOP = Some ''NOP''"
| "oas_opcode_name OAS_OP_CHECK_TYPE = Some ''CHECK_TYPE''"
| "oas_opcode_name OAS_OP_CHECK_MIN_LEN = Some ''CHECK_MIN_LEN''"
| "oas_opcode_name OAS_OP_CHECK_MAX_LEN = Some ''CHECK_MAX_LEN''"
| "oas_opcode_name OAS_OP_CHECK_PATTERN = Some ''CHECK_PATTERN''"
| "oas_opcode_name OAS_OP_CHECK_FORMAT = Some ''CHECK_FORMAT''"
| "oas_opcode_name OAS_OP_CHECK_MINIMUM = Some ''CHECK_MINIMUM''"
| "oas_opcode_name OAS_OP_CHECK_MAXIMUM = Some ''CHECK_MAXIMUM''"
| "oas_opcode_name OAS_OP_CHECK_EX_MINIMUM = Some ''CHECK_EX_MINIMUM''"
| "oas_opcode_name OAS_OP_CHECK_EX_MAXIMUM = Some ''CHECK_EX_MAXIMUM''"
| "oas_opcode_name OAS_OP_CHECK_MULTIPLE_OF = Some ''CHECK_MULTIPLE_OF''"
| "oas_opcode_name OAS_OP_CHECK_ENUM = Some ''CHECK_ENUM''"
| "oas_opcode_name OAS_OP_CHECK_CONST = Some ''CHECK_CONST''"
| "oas_opcode_name OAS_OP_CHECK_REQUIRED = Some ''CHECK_REQUIRED''"
| "oas_opcode_name OAS_OP_CHECK_MIN_ITEMS = Some ''CHECK_MIN_ITEMS''"
| "oas_opcode_name OAS_OP_CHECK_MAX_ITEMS = Some ''CHECK_MAX_ITEMS''"
| "oas_opcode_name OAS_OP_CHECK_UNIQUE = Some ''CHECK_UNIQUE''"
| "oas_opcode_name OAS_OP_ENTER_PROPERTY = Some ''ENTER_PROPERTY''"
| "oas_opcode_name OAS_OP_ENTER_ITEMS = Some ''ENTER_ITEMS''"
| "oas_opcode_name OAS_OP_ENTER_PREFIX_ITEM = Some ''ENTER_PREFIX_ITEM''"
| "oas_opcode_name OAS_OP_ENTER_ADDITIONAL = Some ''ENTER_ADDITIONAL''"
| "oas_opcode_name OAS_OP_BRANCH_ALLOF = Some ''BRANCH_ALLOF''"
| "oas_opcode_name OAS_OP_BRANCH_ANYOF = Some ''BRANCH_ANYOF''"
| "oas_opcode_name OAS_OP_BRANCH_ONEOF = Some ''BRANCH_ONEOF''"
| "oas_opcode_name OAS_OP_NEGATE = Some ''NEGATE''"
| "oas_opcode_name OAS_OP_COND_IF = Some ''COND_IF''"
| "oas_opcode_name OAS_OP_COND_THEN = Some ''COND_THEN''"
| "oas_opcode_name OAS_OP_COND_ELSE = Some ''COND_ELSE''"
| "oas_opcode_name OAS_OP_DISCRIMINATOR = Some ''DISCRIMINATOR''"
| "oas_opcode_name OAS_OP_JUMP = Some ''JUMP''"
| "oas_opcode_name OAS_OP_JUMP_IF_FAIL = Some ''JUMP_IF_FAIL''"
| "oas_opcode_name OAS_OP_PUSH_SCOPE = Some ''PUSH_SCOPE''"
| "oas_opcode_name OAS_OP_POP_SCOPE = Some ''POP_SCOPE''"
| "oas_opcode_name OAS_OP_CHECK_UNEVAL_PROPS = Some ''CHECK_UNEVAL_PROPS''"
| "oas_opcode_name OAS_OP_CHECK_UNEVAL_ITEMS = Some ''CHECK_UNEVAL_ITEMS''"
| "oas_opcode_name OAS_OP_CHECK_READ_ONLY = Some ''CHECK_READ_ONLY''"
| "oas_opcode_name OAS_OP_CHECK_WRITE_ONLY = Some ''CHECK_WRITE_ONLY''"
| "oas_opcode_name OAS_OP_END = Some ''END''"
| "oas_opcode_name _ = None"

section \<open>The buffer's invariant\<close>

text \<open>No write goes past the capacity: what every operation keeps.\<close>

definition program_inv :: "'p oas_program \<Rightarrow> bool" where
  "program_inv p \<longleftrightarrow> length (code p) \<le> capacity p"

lemma program_inv_init [simp, intro]: "program_inv oas_program_init"
  by (simp add: program_inv_def oas_program_init_def)

lemma program_emit_code:
  "oas_program_emit mem p i = Inr p' \<Longrightarrow> code p' = code p @ [i]"
  by (auto simp: oas_program_emit_def Let_def split: if_splits)

lemma program_emit_inv:
  "oas_program_emit mem p i = Inr p' \<Longrightarrow> program_inv p \<Longrightarrow> program_inv p'"
  by (auto simp: oas_program_emit_def program_inv_def oas_program_initial_cap_def Let_def Suc_le_eq
      split: if_splits)

lemma program_emit_enough:
  "(\<And>n. mem n) \<Longrightarrow> \<exists>p'. oas_program_emit mem p i = Inr p'"
  by (simp add: oas_program_emit_def Let_def)

lemma program_patch_inv: "program_inv p \<Longrightarrow> program_inv (oas_program_patch p pos t)"
  by (simp add: oas_program_patch_def program_inv_def)

lemma program_reset_inv: "program_inv p \<Longrightarrow> program_inv (oas_program_reset p)"
  by (simp add: oas_program_reset_def program_inv_def)

section \<open>Properties\<close>

text \<open>
  \<open>oas_program_emit\<close> on a program whose code fits its buffer either leaves everything
  alone and answers \<open>-ENOMEM\<close>, which happens only when the buffer is full and the larger one
  is refused, or appends exactly that instruction; the buffer never shrinks and the code still
  fits it.
\<close>

theorem program_emit_appends:
  assumes "program_inv p"
  shows "case oas_program_emit mem p i of
      Inl e \<Rightarrow> e = ENOMEM \<and> length (code p) = capacity p
    | Inr p' \<Rightarrow> code p' = code p @ [i] \<and> program_inv p' \<and> capacity p \<le> capacity p'"
proof (cases "oas_program_emit mem p i")
  case (Inl e)
  then show ?thesis using assms
    by (auto simp: oas_program_emit_def program_inv_def Let_def split: if_splits)
next
  case (Inr p')
  then have "capacity p \<le> capacity p'"
    by (auto simp: oas_program_emit_def Let_def split: if_splits)
  then show ?thesis using Inr program_emit_code [OF Inr] program_emit_inv [OF Inr assms] by simp
qed

theorem program_emit_appends_witness:
  "case oas_program_emit (\<lambda>n. n < 100) (oas_program_init :: unit oas_program) end_instr of
      Inl e \<Rightarrow> False
    | Inr p' \<Rightarrow> code p' = [end_instr] \<and> program_inv p'"
  using program_emit_appends [OF program_inv_init, where mem = "\<lambda>n. n < 100" and i = end_instr]
  by (simp add: oas_program_emit_def oas_program_init_def oas_program_initial_cap_def)

text \<open>
  The names table covers the opcodes up to \<open>END\<close> in its own order only: for the opcodes
  the compiler gained later the array slot is null, so \<open>oas_opcode_name\<close> returns no string.
\<close>

theorem opcode_name_missing:
  "oas_opcode_name c = None \<longleftrightarrow>
     c \<in> {OAS_OP_CHECK_MIN_PROPS, OAS_OP_CHECK_MAX_PROPS, OAS_OP_CHECK_PROP_NAMES,
          OAS_OP_CHECK_PATTERN_PROPS, OAS_OP_CHECK_DEP_REQUIRED, OAS_OP_CHECK_DEP_SCHEMA,
          OAS_OP_CHECK_CONTAINS}"
  by (cases c) simp_all

end
