(* ===== verification/Liboas_Format.thy ===== *)
theory Liboas_Format
  imports Liboas_Instr
begin

text \<open>
  \<open>src/compiler/oas_format.c\<close>: the validators of the \<open>format\<close> keyword. Each takes the
  bytes of the string; the length the C functions take beside the pointer is the length
  of the list. \<open>value + k\<close> is \<open>drop k\<close>.
\<close>

section \<open>Helpers\<close>

definition is_digit :: "char \<Rightarrow> bool" where
  "is_digit c \<longleftrightarrow> 48 \<le> byte c \<and> byte c \<le> 57"

text \<open>The \<open>ctype.h\<close> classes in the C locale.\<close>

definition isalpha :: "char \<Rightarrow> bool" where
  "isalpha c \<longleftrightarrow> (65 \<le> byte c \<and> byte c \<le> 90) \<or> (97 \<le> byte c \<and> byte c \<le> 122)"

definition isalnum :: "char \<Rightarrow> bool" where
  "isalnum c \<longleftrightarrow> isalpha c \<or> is_digit c"

definition isxdigit :: "char \<Rightarrow> bool" where
  "isxdigit c \<longleftrightarrow> is_digit c \<or> (65 \<le> byte c \<and> byte c \<le> 70) \<or> (97 \<le> byte c \<and> byte c \<le> 102)"

definition isspace :: "char \<Rightarrow> bool" where
  "isspace c \<longleftrightarrow> byte c = 32 \<or> (9 \<le> byte c \<and> byte c \<le> 13)"

definition digit_val :: "char \<Rightarrow> int" where
  "digit_val c = int (byte c) - 48"

text \<open>The loop of \<open>parse_digits\<close>: \<open>count\<close> bytes from \<open>s\<close>; it never runs past the string in
  any call, which the \<open>[]\<close> equation makes a failure.\<close>

fun parse_digits_loop :: "string \<Rightarrow> nat \<Rightarrow> int \<Rightarrow> int option" where
  "parse_digits_loop s 0 val = Some val"
| "parse_digits_loop [] (Suc n) val = None"
| "parse_digits_loop (c # s) (Suc n) val =
     (if is_digit c then parse_digits_loop s n (val * 10 + digit_val c) else None)"

definition parse_digits :: "string \<Rightarrow> nat \<Rightarrow> int option" where
  "parse_digits s count = parse_digits_loop s count 0"

definition is_leap_year :: "int \<Rightarrow> bool" where
  "is_leap_year y \<longleftrightarrow> (y mod 4 = 0 \<and> y mod 100 \<noteq> 0) \<or> y mod 400 = 0"

definition days_in_month :: "int \<Rightarrow> int \<Rightarrow> int" where
  "days_in_month y m =
     (if m = 2 \<and> is_leap_year y then 29
      else [0, 31, 28, 31, 30, 31, 30, 31, 31, 30, 31, 30, 31] ! nat m)"

section \<open>Dates and times\<close>

definition oas_format_date :: "string \<Rightarrow> bool" where
  "oas_format_date v =
     (if length v \<noteq> 10 then False
      else if v ! 4 \<noteq> CHR ''-'' \<or> v ! 7 \<noteq> CHR ''-'' then False
      else case parse_digits v 4 of
        None \<Rightarrow> False
      | Some year \<Rightarrow>
          (case parse_digits (drop 5 v) 2 of
             None \<Rightarrow> False
           | Some month \<Rightarrow>
               (case parse_digits (drop 8 v) 2 of
                  None \<Rightarrow> False
                | Some day \<Rightarrow>
                    if month < 1 \<or> 12 < month then False
                    else if day < 1 \<or> days_in_month year month < day then False
                    else True)))"

text \<open>\<open>parse_time_part\<close> returns the number of bytes it consumed.\<close>

definition parse_time_part :: "string \<Rightarrow> nat option" where
  "parse_time_part s =
     (if length s < 8 then None
      else if s ! 2 \<noteq> CHR '':'' \<or> s ! 5 \<noteq> CHR '':'' then None
      else case parse_digits s 2 of
        None \<Rightarrow> None
      | Some hour \<Rightarrow>
          if 23 < hour then None
          else case parse_digits (drop 3 s) 2 of
            None \<Rightarrow> None
          | Some minute \<Rightarrow>
              if 59 < minute then None
              else case parse_digits (drop 6 s) 2 of
                None \<Rightarrow> None
              | Some second \<Rightarrow>
                  if 60 < second then None
                  else if 8 < length s \<and> s ! 8 = CHR ''.''
                  then (if length s \<le> 9 \<or> \<not> is_digit (s ! 9) then None
                        else Some (9 + length (takeWhile is_digit (drop 9 s))))
                  else Some 8)"

definition parse_timezone :: "string \<Rightarrow> bool" where
  "parse_timezone s =
     (if length s = 0 then False
      else if length s = 1 \<and> (s ! 0 = CHR ''Z'' \<or> s ! 0 = CHR ''z'') then True
      else if length s = 6 \<and> (s ! 0 = CHR ''+'' \<or> s ! 0 = CHR ''-'')
      then (if s ! 3 \<noteq> CHR '':'' then False
            else case parse_digits (drop 1 s) 2 of
              None \<Rightarrow> False
            | Some th \<Rightarrow>
                if 23 < th then False
                else case parse_digits (drop 4 s) 2 of
                  None \<Rightarrow> False
                | Some tm \<Rightarrow> if 59 < tm then False else True)
      else False)"

definition oas_format_time :: "string \<Rightarrow> bool" where
  "oas_format_time v =
     (case parse_time_part v of None \<Rightarrow> False | Some consumed \<Rightarrow> parse_timezone (drop consumed v))"

definition oas_format_date_time :: "string \<Rightarrow> bool" where
  "oas_format_date_time v =
     (if length v < 20 then False
      else if \<not> oas_format_date (take 10 v) then False
      else if v ! 10 \<noteq> CHR ''T'' \<and> v ! 10 \<noteq> CHR ''t'' then False
      else oas_format_time (drop 11 v))"

section \<open>Hostname, email, URI, UUID\<close>

text \<open>The loop of \<open>oas_format_hostname\<close>: \<open>None\<close> is its early \<open>return false\<close>, otherwise
  the final \<open>label_len\<close>.\<close>

fun hostname_loop :: "string \<Rightarrow> nat \<Rightarrow> nat option" where
  "hostname_loop [] label_len = Some label_len"
| "hostname_loop (c # s) label_len =
     (if c = CHR ''.'' then (if label_len = 0 then None else hostname_loop s 0)
      else if isalnum c \<or> c = CHR ''-''
      then (if 63 < label_len + 1 then None else hostname_loop s (label_len + 1))
      else None)"

definition oas_format_hostname :: "string \<Rightarrow> bool" where
  "oas_format_hostname v =
     (if length v = 0 \<or> 253 < length v then False
      else case hostname_loop v 0 of
        None \<Rightarrow> False
      | Some label_len \<Rightarrow> 0 < label_len \<or> (1 < length v \<and> last v = CHR ''.''))"

text \<open>The code's \<open>c <= ' ' || c >= 127\<close> on a signed or an unsigned \<open>char\<close> alike.\<close>

definition oas_format_email :: "string \<Rightarrow> bool" where
  "oas_format_email v =
     (if length v = 0 then False
      else if CHR ''@'' \<notin> set v then False
      else
        let local = takeWhile (\<lambda>c. c \<noteq> CHR ''@'') v;
            local_len = length local;
            domain_len = length v - local_len - 1
        in if local_len = 0 \<or> 64 < local_len then False
           else if domain_len = 0 \<or> 255 < domain_len then False
           else if list_ex (\<lambda>c. byte c \<le> 32 \<or> 127 \<le> byte c) local then False
           else oas_format_hostname (drop (local_len + 1) v))"

definition uri_scheme_char :: "char \<Rightarrow> bool" where
  "uri_scheme_char c \<longleftrightarrow> isalnum c \<or> c = CHR ''+'' \<or> c = CHR ''-'' \<or> c = CHR ''.''"

definition oas_format_uri :: "string \<Rightarrow> bool" where
  "oas_format_uri v =
     (case v of
        [] \<Rightarrow> False
      | c # s \<Rightarrow>
          if \<not> isalpha c then False
          else (case dropWhile uri_scheme_char s of [] \<Rightarrow> False | d # _ \<Rightarrow> d = CHR '':''))"

definition oas_format_uri_reference :: "string \<Rightarrow> bool" where
  "oas_format_uri_reference v =
     (if length v = 0 then True
      else if oas_format_uri v then True
      else \<not> list_ex (\<lambda>c. byte c < 32 \<and> c \<noteq> CHR 0x09) v)"

definition oas_format_uuid :: "string \<Rightarrow> bool" where
  "oas_format_uuid v =
     (if length v \<noteq> 36 then False
      else if list_ex (\<lambda>i. v ! i \<noteq> CHR ''-'') [8, 13, 18, 23] then False
      else \<not> list_ex (\<lambda>i. i \<notin> {8, 13, 18, 23} \<and> \<not> isxdigit (v ! i)) [0..<36])"

section \<open>IP addresses\<close>

text \<open>
  The loop of \<open>oas_format_ipv4\<close> for \<open>i = 0 .. len\<close>; \<open>rest\<close> is the string from \<open>i\<close>. The C
  variable \<open>cur\<close> is an \<open>int\<close> that overflows from the tenth digit of an octet on; such an
  octet is rejected by its digit count before \<open>cur\<close> is looked at, so \<open>cur\<close> is unbounded
  here.
\<close>

fun ipv4_loop :: "string \<Rightarrow> nat \<Rightarrow> string \<Rightarrow> nat \<Rightarrow> int \<Rightarrow> nat \<Rightarrow> bool" where
  "ipv4_loop v i [] octets cur digits =
     (if digits = 0 \<or> 3 < digits then False
      else if 255 < cur then False
      else if 1 < digits \<and> v ! (i - digits) = CHR ''0'' then False
      else octets + 1 = 4)"
| "ipv4_loop v i (c # rest) octets cur digits =
     (if c = CHR ''.''
      then (if digits = 0 \<or> 3 < digits then False
            else if 255 < cur then False
            else if 1 < digits \<and> v ! (i - digits) = CHR ''0'' then False
            else ipv4_loop v (i + 1) rest (octets + 1) 0 0)
      else if is_digit c
      then ipv4_loop v (i + 1) rest octets (cur * 10 + digit_val c) (digits + 1)
      else False)"

definition oas_format_ipv4 :: "string \<Rightarrow> bool" where
  "oas_format_ipv4 v =
     (if length v < 7 \<or> 15 < length v then False else ipv4_loop v 0 v 0 0 0)"

text \<open>Where the scan back from a dot stops: just after the last colon, or at 0.\<close>

fun v4_start :: "string \<Rightarrow> nat \<Rightarrow> nat" where
  "v4_start v 0 = 0"
| "v4_start v (Suc k) = (if v ! k \<noteq> CHR '':'' then v4_start v k else Suc k)"

function ipv6_loop :: "string \<Rightarrow> nat \<Rightarrow> nat \<Rightarrow> nat \<Rightarrow> bool \<Rightarrow> bool" where
  "ipv6_loop v i groups digits dc =
     (if length v \<le> i
      then (let groups = (if 0 < digits then groups + 1 else groups)
            in if dc then groups \<le> 7 else groups = 8)
      else if isxdigit (v ! i)
      then (if 4 < digits + 1 then False else ipv6_loop v (i + 1) groups (digits + 1) dc)
      else if v ! i = CHR '':''
      then (if i + 1 < length v \<and> v ! (i + 1) = CHR '':''
            then (if dc then False
                  else ipv6_loop v (i + 2) (if 0 < digits then groups + 1 else groups) 0 True)
            else if digits = 0 \<and> 0 < i \<and> v ! (i - 1) \<noteq> CHR '':'' then False
            else ipv6_loop v (i + 1) (if 0 < digits then groups + 1 else groups) 0 dc)
      else if v ! i = CHR ''.''
      then (let s = v4_start v i in if s = 0 then False else oas_format_ipv4 (drop s v))
      else False)"
  by pat_completeness auto
termination
  by (relation "measure (\<lambda>(v, i, _). length v - i)") auto

declare ipv6_loop.simps [simp del]

definition oas_format_ipv6 :: "string \<Rightarrow> bool" where
  "oas_format_ipv6 v =
     (if length v < 2 \<or> 45 < length v then False else ipv6_loop v 0 0 0 False)"

section \<open>Base64 and integers\<close>

definition base64_char :: "char \<Rightarrow> bool" where
  "base64_char c \<longleftrightarrow> isalnum c \<or> c = CHR ''+'' \<or> c = CHR ''/''"

definition oas_format_byte :: "string \<Rightarrow> bool" where
  "oas_format_byte v =
     (if length v = 0 then True
      else if length v mod 4 \<noteq> 0 then False
      else
        let data_end = length (takeWhile (\<lambda>c. c \<noteq> CHR ''='') v)
        in if list_ex (\<lambda>c. \<not> base64_char c) (take data_end v) then False
           else if 2 < length v - data_end then False
           else \<not> list_ex (\<lambda>c. c \<noteq> CHR ''='') (drop data_end v))"

text \<open>
  C's \<open>strtoll(s, &end, 10)\<close> on a C string: leading white space, an optional sign, then
  digits. The result is the value and the unread rest, or \<open>None\<close> for the rest being the
  whole string because there was no digit; a value outside \<open>long long\<close> sets \<open>errno\<close>.
\<close>

definition digits_val :: "string \<Rightarrow> int" where
  "digits_val ds = foldl (\<lambda>n c. n * 10 + digit_val c) 0 ds"

definition strtoll10 :: "string \<Rightarrow> (int \<times> bool \<times> string) option" where
  \<comment> \<open>value (clamped), whether \<open>errno\<close> is set, rest\<close>
  "strtoll10 s =
     (let t = dropWhile isspace s;
          neg = (case t of c # _ \<Rightarrow> c = CHR ''-'' | [] \<Rightarrow> False);
          u = (case t of c # r \<Rightarrow> if c = CHR ''-'' \<or> c = CHR ''+'' then r else t | [] \<Rightarrow> t);
          ds = takeWhile is_digit u;
          n = (if neg then - digits_val ds else digits_val ds)
      in if ds = [] then None
         else if n < - (2 ^ 63) then Some (- (2 ^ 63), True, dropWhile is_digit u)
         else if 2 ^ 63 - 1 < n then Some (2 ^ 63 - 1, True, dropWhile is_digit u)
         else Some (n, False, dropWhile is_digit u))"

text \<open>
  The two integer formats copy the bytes into a 32-byte buffer and compare where the
  conversion stopped with the end of the copy, so a NUL byte in the value stops it early.
\<close>

definition oas_format_int32 :: "string \<Rightarrow> bool" where
  "oas_format_int32 v =
     (if length v = 0 then False
      else if 32 \<le> length v then False
      else case strtoll10 (cstr v) of
        None \<Rightarrow> False
      | Some (val, err, rest) \<Rightarrow>
          if err \<or> rest \<noteq> [] \<or> cstr v \<noteq> v then False
          else - (2 ^ 31) \<le> val \<and> val \<le> 2 ^ 31 - 1)"

definition oas_format_int64 :: "string \<Rightarrow> bool" where
  "oas_format_int64 v =
     (if length v = 0 then False
      else if 32 \<le> length v then False
      else case strtoll10 (cstr v) of
        None \<Rightarrow> False
      | Some (val, err, rest) \<Rightarrow> \<not> (err \<or> rest \<noteq> [] \<or> cstr v \<noteq> v))"

section \<open>The table\<close>

definition format_table :: "(string \<times> oas_format_fn) list" where
  "format_table =
     [(''date'', Oas_format_date), (''date-time'', Oas_format_date_time),
      (''time'', Oas_format_time), (''email'', Oas_format_email),
      (''uri'', Oas_format_uri), (''uri-reference'', Oas_format_uri_reference),
      (''uuid'', Oas_format_uuid), (''ipv4'', Oas_format_ipv4),
      (''ipv6'', Oas_format_ipv6), (''hostname'', Oas_format_hostname),
      (''byte'', Oas_format_byte), (''int32'', Oas_format_int32),
      (''int64'', Oas_format_int64)]"

definition oas_format_get :: "string \<Rightarrow> oas_format_fn option" where
  "oas_format_get name = map_of format_table name"

text \<open>Calling the function an operand points to.\<close>

fun call_format :: "oas_format_fn \<Rightarrow> string \<Rightarrow> bool" where
  "call_format Oas_format_date v = oas_format_date v"
| "call_format Oas_format_date_time v = oas_format_date_time v"
| "call_format Oas_format_time v = oas_format_time v"
| "call_format Oas_format_email v = oas_format_email v"
| "call_format Oas_format_uri v = oas_format_uri v"
| "call_format Oas_format_uri_reference v = oas_format_uri_reference v"
| "call_format Oas_format_uuid v = oas_format_uuid v"
| "call_format Oas_format_ipv4 v = oas_format_ipv4 v"
| "call_format Oas_format_ipv6 v = oas_format_ipv6 v"
| "call_format Oas_format_hostname v = oas_format_hostname v"
| "call_format Oas_format_byte v = oas_format_byte v"
| "call_format Oas_format_int32 v = oas_format_int32 v"
| "call_format Oas_format_int64 v = oas_format_int64 v"

end
