(* ===== verification/Liboas_Compiler.thy ===== *)
theory Liboas_Compiler
  imports Liboas_Schema Liboas_Instr Liboas_Format
begin

text \<open>
  \<open>src/compiler/oas_compiler.c\<close>: from a schema tree to a program for the validator. A
  step of the compiler is a state transformer that returns the code's \<open>rc\<close> (\<open>None\<close> for
  0, \<open>Some e\<close> for \<open>-e\<close>) with the new state; the outer option is \<open>None\<close> where the C call
  does not come back or follows a dangling pointer.
\<close>

section \<open>State\<close>

text \<open>
  The regex backend is a parameter: what it compiles a pattern to (or the negated result
  code), and what a compiled pattern matches.
\<close>

record 'p oas_regex_backend =
  rx_compile :: "string \<Rightarrow> errno + 'p"
  rx_match :: "'p \<Rightarrow> string \<Rightarrow> bool"

record 'p oas_compiler_config =
  cc_regex :: "'p oas_regex_backend option"
  cc_format_policy :: u8
  cc_borrow_regex :: bool

definition OAS_FORMAT_IGNORE :: u8 where
  "OAS_FORMAT_IGNORE = 0"

text \<open>
  The calls made on the backend are kept as a trace, from the latest: a pattern compiled
  by \<open>compile\<close> is the caller's until it is given to \<open>free_pattern\<close>.
\<close>

datatype 'p regex_event = Pattern_compiled 'p | Pattern_freed 'p

text \<open>
  \<open>struct oas_compiled_schema\<close>, with the error list the compiler reports to and the
  trace. \<open>cs_patterns\<close> lists the \<open>pattern_count\<close> entries in use.
\<close>

record ('p, 'e) oas_compiled_schema =
  cs_program :: "'p oas_program"
  cs_regex :: "'p oas_regex_backend option"
  cs_patterns :: "'p list"
  cs_pattern_capacity :: nat
  cs_errors :: "'e option"
  cs_events :: "'p regex_event list"

text \<open>
  What the compiler is given: the schemas, the configuration (\<open>None\<close> for a null pointer),
  the error list's operation, and the answers of \<open>realloc\<close> to a request for room for that
  many instructions or patterns. A buffer's sizes only grow and a refused request ends the
  compilation, so no size is asked for twice.
\<close>

record ('p, 'e) compile_env =
  ce_heap :: schema_heap
  ce_config :: "'p oas_compiler_config option"
  ce_report :: "'e \<Rightarrow> string \<Rightarrow> 'e"
  ce_mem_code :: "nat \<Rightarrow> bool"
  ce_mem_patterns :: "nat \<Rightarrow> bool"

type_synonym ('p, 'e) compile_step =
  "('p, 'e) oas_compiled_schema \<Rightarrow> (errno option \<times> ('p, 'e) oas_compiled_schema) option"

section \<open>Steps\<close>

definition step_ok :: "('p, 'e) compile_step" where
  "step_ok cs = Some (None, cs)"

definition step_fail :: "errno \<Rightarrow> ('p, 'e) compile_step" where
  "step_fail e cs = Some (Some e, cs)"

text \<open>Steps in a row; the first negative result is returned at once.\<close>

fun run_steps :: "('p, 'e) compile_step list \<Rightarrow> ('p, 'e) compile_step" where
  "run_steps [] cs = Some (None, cs)"
| "run_steps (f # fs) cs = do {
     (rc, cs) \<leftarrow> f cs;
     (case rc of None \<Rightarrow> run_steps fs cs | Some e \<Rightarrow> Some (Some e, cs))
   }"

text \<open>A step under an \<open>if\<close>.\<close>

definition step_when :: "bool \<Rightarrow> ('p, 'e) compile_step \<Rightarrow> ('p, 'e) compile_step" where
  "step_when b f = (if b then f else step_ok)"

section \<open>Patterns\<close>

definition OAS_PATTERN_INITIAL_CAP :: nat where
  "OAS_PATTERN_INITIAL_CAP = 8"

definition track_pattern :: "('p, 'e) compile_env \<Rightarrow> 'p \<Rightarrow> ('p, 'e) compile_step" where
  "track_pattern env pat cs =
     (if cs_pattern_capacity cs \<le> length (cs_patterns cs)
      then let new_cap = (if cs_pattern_capacity cs = 0 then OAS_PATTERN_INITIAL_CAP
                          else cs_pattern_capacity cs * 2)
           in if ce_mem_patterns env new_cap
              then Some (None, cs\<lparr>cs_patterns := cs_patterns cs @ [pat], cs_pattern_capacity := new_cap\<rparr>)
              else Some (Some ENOMEM, cs)
      else Some (None, cs\<lparr>cs_patterns := cs_patterns cs @ [pat]\<rparr>))"

section \<open>Emitters\<close>

definition emit :: "('p, 'e) compile_env \<Rightarrow> 'p oas_instruction \<Rightarrow> ('p, 'e) compile_step" where
  "emit env i cs =
     (case oas_program_emit (ce_mem_code env) (cs_program cs) i of
        Inl e \<Rightarrow> Some (Some e, cs)
      | Inr p \<Rightarrow> Some (None, cs\<lparr>cs_program := p\<rparr>))"

definition emit_simple :: "('p, 'e) compile_env \<Rightarrow> oas_opcode \<Rightarrow> ('p, 'e) compile_step" where
  "emit_simple env oper = emit env (instr oper OpZero)"

definition emit_i64 :: "('p, 'e) compile_env \<Rightarrow> oas_opcode \<Rightarrow> int \<Rightarrow> ('p, 'e) compile_step" where
  "emit_i64 env oper n = emit env (instr oper (OpI64 n))"

definition emit_f64 :: "('p, 'e) compile_env \<Rightarrow> oas_opcode \<Rightarrow> double \<Rightarrow> ('p, 'e) compile_step" where
  "emit_f64 env oper d = emit env (instr oper (OpF64 d))"

definition emit_str :: "('p, 'e) compile_env \<Rightarrow> oas_opcode \<Rightarrow> string \<Rightarrow> ('p, 'e) compile_step" where
  "emit_str env oper s = emit env (instr oper (OpStr s))"

text \<open>\<open>emit_ptr\<close>, by what the pointer points to.\<close>

definition emit_ptr_pattern :: "('p, 'e) compile_env \<Rightarrow> oas_opcode \<Rightarrow> 'p \<Rightarrow> ('p, 'e) compile_step" where
  "emit_ptr_pattern env oper p = emit env (instr oper (OpPattern p))"

definition emit_ptr_format ::
    "('p, 'e) compile_env \<Rightarrow> oas_opcode \<Rightarrow> oas_format_fn \<Rightarrow> ('p, 'e) compile_step" where
  "emit_ptr_format env oper f = emit env (instr oper (OpFormat f))"

definition emit_ptr_json :: "('p, 'e) compile_env \<Rightarrow> oas_opcode \<Rightarrow> json \<Rightarrow> ('p, 'e) compile_step" where
  "emit_ptr_json env oper v = emit env (instr oper (OpJson v))"

definition emit_type :: "('p, 'e) compile_env \<Rightarrow> u8 \<Rightarrow> ('p, 'e) compile_step" where
  "emit_type env m = emit env \<lparr>op = OAS_OP_CHECK_TYPE, type_mask = m, operand = OpZero\<rparr>"

definition emit_branch :: "('p, 'e) compile_env \<Rightarrow> oas_opcode \<Rightarrow> u16 \<Rightarrow> ('p, 'e) compile_step" where
  "emit_branch env oper count = emit env (instr oper (OpBranch count 0))"

definition emit_prefix_item :: "('p, 'e) compile_env \<Rightarrow> u16 \<Rightarrow> ('p, 'e) compile_step" where
  "emit_prefix_item env idx = emit env (instr OAS_OP_ENTER_PREFIX_ITEM (OpBranch 0 idx))"

lemmas emitters = emit_simple_def emit_i64_def emit_f64_def emit_str_def emit_ptr_pattern_def
  emit_ptr_format_def emit_ptr_json_def emit_type_def emit_branch_def emit_prefix_item_def

section \<open>Parts of a schema\<close>

text \<open>
  \<open>rec\<close> is \<open>compile_schema\<close> with the rest of the fuel. A head instruction, the
  sub-schema's program and \<open>END\<close> is the shape of every nested construct.
\<close>

definition nested ::
    "('p, 'e) compile_env \<Rightarrow> (sref option \<Rightarrow> ('p, 'e) compile_step) \<Rightarrow> ('p, 'e) compile_step list
      \<Rightarrow> sref option \<Rightarrow> ('p, 'e) compile_step" where
  "nested env rec head sub = run_steps (head @ [rec sub, emit_simple env OAS_OP_END])"

definition compile_composition ::
    "('p, 'e) compile_env \<Rightarrow> (sref option \<Rightarrow> ('p, 'e) compile_step) \<Rightarrow> oas_opcode
      \<Rightarrow> sref option list \<Rightarrow> ('p, 'e) compile_step" where
  "compile_composition env rec oper schemas =
     run_steps (emit_branch env oper (of_nat (length schemas)) #
       concat (map (\<lambda>s. [rec s, emit_simple env OAS_OP_END]) schemas))"

definition compile_conditional_part ::
    "('p, 'e) compile_env \<Rightarrow> (sref option \<Rightarrow> ('p, 'e) compile_step) \<Rightarrow> oas_opcode
      \<Rightarrow> sref option \<Rightarrow> ('p, 'e) compile_step" where
  "compile_conditional_part env rec oper schema =
     (if schema = None then step_ok else nested env rec [emit_simple env oper] schema)"

text \<open>
  A pattern: compiled by the backend, tracked (freed when it cannot be), then used as an
  operand by the continuation.
\<close>

definition with_pattern ::
    "('p, 'e) compile_env \<Rightarrow> string \<Rightarrow> string \<Rightarrow> ('p \<Rightarrow> ('p, 'e) compile_step)
      \<Rightarrow> ('p, 'e) compile_step" where
  "with_pattern env msg pattern k cs =
     (case cs_regex cs of
        None \<Rightarrow> Some (None, cs)
      | Some rx \<Rightarrow>
          (case rx_compile rx pattern of
             Inl e \<Rightarrow>
               Some (Some e, cs\<lparr>cs_errors := map_option (\<lambda>l. ce_report env l (msg @ pattern)) (cs_errors cs)\<rparr>)
           | Inr pat \<Rightarrow> do {
               let cs = cs\<lparr>cs_events := Pattern_compiled pat # cs_events cs\<rparr>;
               (rc, cs) \<leftarrow> track_pattern env pat cs;
               (case rc of
                  Some e \<Rightarrow> Some (Some e, cs\<lparr>cs_events := Pattern_freed pat # cs_events cs\<rparr>)
                | None \<Rightarrow> k pat cs)
             }))"

definition effective_mask :: "oas_schema \<Rightarrow> u8" where
  "effective_mask s =
     (if s_nullable s \<and> s_type_mask s \<noteq> 0 then s_type_mask s OR OAS_TYPE_NULL else s_type_mask s)"

definition compile_type :: "('p, 'e) compile_env \<Rightarrow> oas_schema \<Rightarrow> ('p, 'e) compile_step list" where
  "compile_type env s = [step_when (effective_mask s \<noteq> 0) (emit_type env (effective_mask s))]"

definition compile_format :: "('p, 'e) compile_env \<Rightarrow> oas_schema \<Rightarrow> ('p, 'e) compile_step" where
  "compile_format env s =
     (case (s_format s, ce_config env) of
        (Some f, Some config) \<Rightarrow>
          if cc_format_policy config \<noteq> OAS_FORMAT_IGNORE
          then (case oas_format_get f of
                  Some fn \<Rightarrow> emit_ptr_format env OAS_OP_CHECK_FORMAT fn
                | None \<Rightarrow> step_ok)
          else step_ok
      | _ \<Rightarrow> step_ok)"

definition compile_string :: "('p, 'e) compile_env \<Rightarrow> oas_schema \<Rightarrow> ('p, 'e) compile_step list" where
  "compile_string env s =
     [step_when (0 \<le> s_min_length s) (emit_i64 env OAS_OP_CHECK_MIN_LEN (s_min_length s)),
      step_when (0 \<le> s_max_length s) (emit_i64 env OAS_OP_CHECK_MAX_LEN (s_max_length s)),
      (case s_pattern s of
         None \<Rightarrow> step_ok
       | Some p \<Rightarrow> with_pattern env ''Failed to compile pattern: '' p
           (emit_ptr_pattern env OAS_OP_CHECK_PATTERN)),
      compile_format env s]"

definition compile_numeric :: "('p, 'e) compile_env \<Rightarrow> oas_schema \<Rightarrow> ('p, 'e) compile_step list" where
  "compile_numeric env s =
     [step_when (s_has_minimum s) (emit_f64 env OAS_OP_CHECK_MINIMUM (s_minimum s)),
      step_when (s_has_maximum s) (emit_f64 env OAS_OP_CHECK_MAXIMUM (s_maximum s)),
      step_when (s_has_exclusive_minimum s) (emit_f64 env OAS_OP_CHECK_EX_MINIMUM (s_exclusive_minimum s)),
      step_when (s_has_exclusive_maximum s) (emit_f64 env OAS_OP_CHECK_EX_MAXIMUM (s_exclusive_maximum s)),
      step_when (s_has_multiple_of s) (emit_f64 env OAS_OP_CHECK_MULTIPLE_OF (s_multiple_of s))]"

definition compile_array ::
    "('p, 'e) compile_env \<Rightarrow> (sref option \<Rightarrow> ('p, 'e) compile_step) \<Rightarrow> oas_schema
      \<Rightarrow> ('p, 'e) compile_step list" where
  "compile_array env rec s =
     [step_when (0 \<le> s_min_items s) (emit_i64 env OAS_OP_CHECK_MIN_ITEMS (s_min_items s)),
      step_when (0 \<le> s_max_items s) (emit_i64 env OAS_OP_CHECK_MAX_ITEMS (s_max_items s)),
      step_when (s_unique_items s) (emit_simple env OAS_OP_CHECK_UNIQUE)]
     @ map (\<lambda>(i, sub). nested env rec [emit_prefix_item env (of_nat i)] sub)
         (List.enumerate 0 (s_prefix_items s))
     @ [step_when (s_items s \<noteq> None) (nested env rec [emit_simple env OAS_OP_ENTER_ITEMS] (s_items s))]"

definition compile_properties ::
    "('p, 'e) compile_env \<Rightarrow> (sref option \<Rightarrow> ('p, 'e) compile_step) \<Rightarrow> oas_schema
      \<Rightarrow> ('p, 'e) compile_step list" where
  "compile_properties env rec s =
     map (emit_str env OAS_OP_CHECK_REQUIRED) (s_required s)
     @ map (\<lambda>q. nested env rec [emit_str env OAS_OP_ENTER_PROPERTY (p_name q)] (p_schema q))
         (s_properties s)
     @ [step_when (s_additional_properties s \<noteq> None)
          (nested env rec [emit_simple env OAS_OP_ENTER_ADDITIONAL] (s_additional_properties s)),
        step_when (0 \<le> s_min_properties s) (emit_i64 env OAS_OP_CHECK_MIN_PROPS (s_min_properties s)),
        step_when (0 \<le> s_max_properties s) (emit_i64 env OAS_OP_CHECK_MAX_PROPS (s_max_properties s)),
        step_when (s_property_names s \<noteq> None)
          (nested env rec [emit_simple env OAS_OP_CHECK_PROP_NAMES] (s_property_names s))]"

definition compile_pattern_property ::
    "('p, 'e) compile_env \<Rightarrow> (sref option \<Rightarrow> ('p, 'e) compile_step) \<Rightarrow> oas_pattern_property
      \<Rightarrow> ('p, 'e) compile_step" where
  "compile_pattern_property env rec pp =
     (case (pp_pattern pp, pp_schema pp) of
        (Some pat, Some sub) \<Rightarrow>
          with_pattern env ''Failed to compile patternProperties pattern: '' pat
            (\<lambda>p. nested env rec [emit_ptr_pattern env OAS_OP_CHECK_PATTERN_PROPS p] (Some sub))
      | _ \<Rightarrow> step_ok)"

definition compile_dependencies ::
    "('p, 'e) compile_env \<Rightarrow> (sref option \<Rightarrow> ('p, 'e) compile_step) \<Rightarrow> oas_schema
      \<Rightarrow> ('p, 'e) compile_step list" where
  "compile_dependencies env rec s =
     map (compile_pattern_property env rec) (s_pattern_properties s)
     @ map (\<lambda>d. run_steps
           ([emit_str env OAS_OP_CHECK_DEP_REQUIRED (dr_property d),
             emit_i64 env OAS_OP_NOP (int (length (dr_required d)))]
            @ map (emit_str env OAS_OP_NOP) (dr_required d)))
         (s_dependent_required s)
     @ map (\<lambda>d. step_when (ds_schema d \<noteq> None)
           (nested env rec [emit_str env OAS_OP_CHECK_DEP_SCHEMA (ds_property d)] (ds_schema d)))
         (s_dependent_schemas s)"

definition compile_contains ::
    "('p, 'e) compile_env \<Rightarrow> (sref option \<Rightarrow> ('p, 'e) compile_step) \<Rightarrow> oas_schema
      \<Rightarrow> ('p, 'e) compile_step list" where
  "compile_contains env rec s =
     [step_when (s_contains s \<noteq> None)
        (nested env rec
           [emit_i64 env OAS_OP_CHECK_CONTAINS (if 0 \<le> s_min_contains s then s_min_contains s else 1),
            emit_i64 env OAS_OP_NOP (s_max_contains s)]
           (s_contains s))]"

definition has_discriminator :: "oas_schema \<Rightarrow> bool" where
  "has_discriminator s \<longleftrightarrow> s_discriminator_property s \<noteq> None \<and> s_discriminator_mapping s \<noteq> []"

definition compile_discriminator ::
    "('p, 'e) compile_env \<Rightarrow> (sref option \<Rightarrow> ('p, 'e) compile_step) \<Rightarrow> oas_schema
      \<Rightarrow> ('p, 'e) compile_step" where
  "compile_discriminator env rec s =
     (let branches = (if s_one_of s \<noteq> [] then s_one_of s else s_any_of s);
          keys = map dm_key (s_discriminator_mapping s)
      in step_when (branches \<noteq> [] \<and> length branches = length keys)
           (run_steps
              ([emit_str env OAS_OP_DISCRIMINATOR (the (s_discriminator_property s)),
                emit_i64 env OAS_OP_NOP (int (length keys))]
               @ map (emit_str env OAS_OP_NOP) keys
               @ concat (map (\<lambda>b. [rec b, emit_simple env OAS_OP_END]) branches))))"

definition compile_compositions ::
    "('p, 'e) compile_env \<Rightarrow> (sref option \<Rightarrow> ('p, 'e) compile_step) \<Rightarrow> oas_schema
      \<Rightarrow> ('p, 'e) compile_step list" where
  "compile_compositions env rec s =
     [step_when (s_all_of s \<noteq> []) (compile_composition env rec OAS_OP_BRANCH_ALLOF (s_all_of s))]
     @ (if has_discriminator s then [compile_discriminator env rec s]
        else
          [step_when (s_any_of s \<noteq> []) (compile_composition env rec OAS_OP_BRANCH_ANYOF (s_any_of s)),
           step_when (s_one_of s \<noteq> []) (compile_composition env rec OAS_OP_BRANCH_ONEOF (s_one_of s))])"

definition compile_conditionals ::
    "('p, 'e) compile_env \<Rightarrow> (sref option \<Rightarrow> ('p, 'e) compile_step) \<Rightarrow> oas_schema
      \<Rightarrow> ('p, 'e) compile_step list" where
  "compile_conditionals env rec s =
     [step_when (s_not_schema s \<noteq> None) (nested env rec [emit_simple env OAS_OP_NEGATE] (s_not_schema s)),
      step_when (s_if_schema s \<noteq> None)
        (run_steps
           [compile_conditional_part env rec OAS_OP_COND_IF (s_if_schema s),
            compile_conditional_part env rec OAS_OP_COND_THEN (s_then_schema s),
            compile_conditional_part env rec OAS_OP_COND_ELSE (s_else_schema s)])]"

definition compile_values :: "('p, 'e) compile_env \<Rightarrow> oas_schema \<Rightarrow> ('p, 'e) compile_step list" where
  "compile_values env s =
     [(case s_enum_values s of None \<Rightarrow> step_ok | Some v \<Rightarrow> emit_ptr_json env OAS_OP_CHECK_ENUM v),
      (case s_const_value s of None \<Rightarrow> step_ok | Some v \<Rightarrow> emit_ptr_json env OAS_OP_CHECK_CONST v),
      step_when (s_read_only s) (emit_simple env OAS_OP_CHECK_READ_ONLY),
      step_when (s_write_only s) (emit_simple env OAS_OP_CHECK_WRITE_ONLY)]"

text \<open>The body of \<open>compile_schema\<close> for a node without a reference.\<close>

definition compile_node ::
    "('p, 'e) compile_env \<Rightarrow> (sref option \<Rightarrow> ('p, 'e) compile_step) \<Rightarrow> oas_schema
      \<Rightarrow> ('p, 'e) compile_step" where
  "compile_node env rec s = run_steps
     (compile_type env s @ compile_string env s @ compile_numeric env s @ compile_array env rec s
      @ compile_properties env rec s @ compile_dependencies env rec s @ compile_contains env rec s
      @ compile_compositions env rec s @ compile_conditionals env rec s @ compile_values env s)"

text \<open>
  The recursion follows pointers, so it is bounded by fuel; the C function has no bound
  and does not return from a cycle of schemas.
\<close>

primrec compile_schema ::
    "nat \<Rightarrow> ('p, 'e) compile_env \<Rightarrow> sref option \<Rightarrow> ('p, 'e) compile_step" where
  "compile_schema 0 env schema = (if schema = None then step_ok else (\<lambda>cs. None))"
| "compile_schema (Suc fuel) env schema =
     (case schema of
        None \<Rightarrow> step_ok
      | Some p \<Rightarrow>
          (case ce_heap env p of
             None \<Rightarrow> (\<lambda>cs. None)
           | Some s \<Rightarrow>
               if s_ref_resolved s \<noteq> None then compile_schema fuel env (s_ref_resolved s)
               else if s_ref s \<noteq> None then step_fail EINVAL
               else compile_node env (compile_schema fuel env) s))"

section \<open>The interface\<close>

definition oas_compiled_schema_init ::
    "('p, 'e) compile_env \<Rightarrow> 'e option \<Rightarrow> ('p, 'e) oas_compiled_schema" where
  "oas_compiled_schema_init env errors =
     \<lparr>cs_program = oas_program_init,
      cs_regex = Option.bind (ce_config env) cc_regex,
      cs_patterns = [], cs_pattern_capacity = 0, cs_errors = errors, cs_events = []\<rparr>"

text \<open>Every tracked pattern goes back to the backend, then the buffers are released.\<close>

definition oas_compiled_schema_free ::
    "('p, 'e) oas_compiled_schema \<Rightarrow> ('p, 'e) oas_compiled_schema" where
  "oas_compiled_schema_free cs =
     cs\<lparr>cs_events := (if cs_regex cs \<noteq> None then rev (map Pattern_freed (cs_patterns cs)) else [])
                       @ cs_events cs,
        cs_patterns := [], cs_pattern_capacity := 0,
        cs_program := oas_program_destroy (cs_program cs)\<rparr>"

text \<open>
  The result pairs whether a compiled schema is returned with its final state (the freed
  one where null is returned); \<open>calloc_ok\<close> is \<open>calloc\<close>'s answer.
\<close>

definition oas_schema_compile ::
    "nat \<Rightarrow> ('p, 'e) compile_env \<Rightarrow> bool \<Rightarrow> sref option \<Rightarrow> 'e option
      \<Rightarrow> (bool \<times> ('p, 'e) oas_compiled_schema) option" where
  "oas_schema_compile fuel env calloc_ok schema errors =
     (let cs = oas_compiled_schema_init env errors in
      if schema = None \<or> \<not> calloc_ok then Some (False, cs)
      else do {
        (rc, cs) \<leftarrow> run_steps [compile_schema fuel env schema, emit_simple env OAS_OP_END] cs;
        Some (if rc = None then (True, cs) else (False, oas_compiled_schema_free cs))
      })"

end
