(* ===== verification/Liboas_Error.thy ===== *)
theory Liboas_Error
  imports Liboas_Arena "HOL-Library.Sublist"
begin

text \<open>
  \<open>src/core/oas_error.c\<close>: the list of diagnostics that grows in the arena. What its
  clients rely on is the locale \<open>error_sink\<close>; \<open>oas_error_list_add\<close> is its
  interpretation.
\<close>

section \<open>Errors\<close>

datatype oas_error_kind =
    OAS_ERR_NONE | OAS_ERR_PARSE | OAS_ERR_SCHEMA | OAS_ERR_REF | OAS_ERR_TYPE
  | OAS_ERR_CONSTRAINT | OAS_ERR_REQUIRED | OAS_ERR_FORMAT | OAS_ERR_ALLOC

text \<open>The C enumeration is an ordered type of small integers.\<close>

fun kind_code :: "oas_error_kind \<Rightarrow> nat" where
  "kind_code OAS_ERR_NONE = 0"
| "kind_code OAS_ERR_PARSE = 1"
| "kind_code OAS_ERR_SCHEMA = 2"
| "kind_code OAS_ERR_REF = 3"
| "kind_code OAS_ERR_TYPE = 4"
| "kind_code OAS_ERR_CONSTRAINT = 5"
| "kind_code OAS_ERR_REQUIRED = 6"
| "kind_code OAS_ERR_FORMAT = 7"
| "kind_code OAS_ERR_ALLOC = 8"

lemma kind_code_inject [simp]: "kind_code k = kind_code l \<longleftrightarrow> k = l"
  by (cases k; cases l) simp_all

instantiation oas_error_kind :: linorder
begin

definition less_eq_oas_error_kind :: "oas_error_kind \<Rightarrow> oas_error_kind \<Rightarrow> bool" where
  "k \<le> l \<longleftrightarrow> kind_code k \<le> kind_code l"

definition less_oas_error_kind :: "oas_error_kind \<Rightarrow> oas_error_kind \<Rightarrow> bool" where
  "k < l \<longleftrightarrow> kind_code k < kind_code l"

instance
  by standard (auto simp: less_eq_oas_error_kind_def less_oas_error_kind_def)

end

record oas_error =
  err_kind :: oas_error_kind
  err_message :: "string option"
  err_path :: "string option"
  err_line :: "32 word"
  err_column :: "32 word"

text \<open>
  \<open>errors\<close> lists the \<open>count\<close> entries in use. The list keeps a pointer to its arena; here
  it carries the allocator's state, and the allocation function is a parameter.
\<close>

record 'a oas_error_list =
  el_arena :: 'a
  el_errors :: "oas_error list"
  el_capacity :: nat

type_synonym 'a allocator = "'a \<Rightarrow> u64 \<Rightarrow> u64 \<Rightarrow> u64 option \<times> 'a"

section \<open>Operations\<close>

definition oas_error_list_init_cap :: nat where
  "oas_error_list_init_cap = 16"

definition sizeof_oas_error :: u64 where
  "sizeof_oas_error = 32"

definition oas_error_list_create :: "'a allocator \<Rightarrow> 'a \<Rightarrow> 'a oas_error_list option \<times> 'a" where
  "oas_error_list_create alloc a =
     (case alloc a 32 8 of
        (None, a1) \<Rightarrow> (None, a1)
      | (Some _, a1) \<Rightarrow>
          (case alloc a1 (sizeof_oas_error * of_nat oas_error_list_init_cap) 8 of
             (None, a2) \<Rightarrow> (None, a2)
           | (Some _, a2) \<Rightarrow>
               (Some \<lparr>el_arena = a2, el_errors = [], el_capacity = oas_error_list_init_cap\<rparr>, a2)))"

definition arena_strdup :: "'a allocator \<Rightarrow> 'a \<Rightarrow> string option \<Rightarrow> string option \<times> 'a" where
  "arena_strdup alloc a str =
     (case str of
        None \<Rightarrow> (None, a)
      | Some s \<Rightarrow>
          (case alloc a (of_nat (length s + 1)) 1 of
             (None, a') \<Rightarrow> (None, a')
           | (Some _, a') \<Rightarrow> (Some s, a')))"

text \<open>\<open>None\<close>: the list could not grow; the arena may have changed all the same.\<close>

definition error_list_grow :: "'a allocator \<Rightarrow> 'a oas_error_list \<Rightarrow> bool \<times> 'a oas_error_list" where
  "error_list_grow alloc l =
     (let new_cap = el_capacity l * 2
      in case alloc (el_arena l) (sizeof_oas_error * of_nat new_cap) 8 of
           (None, a) \<Rightarrow> (False, l\<lparr>el_arena := a\<rparr>)
         | (Some _, a) \<Rightarrow> (True, l\<lparr>el_arena := a, el_capacity := new_cap\<rparr>))"

text \<open>
  The last argument is the text of the formatted message; \<open>vsnprintf\<close> keeps what fits
  into the 1024-byte buffer with its terminator.
\<close>

definition oas_error_list_add ::
    "'a allocator \<Rightarrow> 'a oas_error_list \<Rightarrow> oas_error_kind \<Rightarrow> string option \<Rightarrow> string
      \<Rightarrow> 'a oas_error_list" where
  "oas_error_list_add alloc l kind path msg =
     (let buf = take 1023 msg;
          (ok, l) = (if el_capacity l \<le> length (el_errors l) then error_list_grow alloc l
                     else (True, l))
      in if \<not> ok then l
         else
           let (m, a1) = arena_strdup alloc (el_arena l) (Some buf);
               (p, a2) = arena_strdup alloc a1 path
           in l\<lparr>el_arena := a2,
                el_errors := el_errors l @
                  [\<lparr>err_kind = kind, err_message = m, err_path = p, err_line = 0, err_column = 0\<rparr>]\<rparr>)"

definition oas_error_list_count :: "'a oas_error_list option \<Rightarrow> nat" where
  "oas_error_list_count l = (case l of None \<Rightarrow> 0 | Some l \<Rightarrow> length (el_errors l))"

definition oas_error_list_get :: "'a oas_error_list option \<Rightarrow> nat \<Rightarrow> oas_error option" where
  "oas_error_list_get l i =
     (case l of None \<Rightarrow> None
      | Some l \<Rightarrow> if length (el_errors l) \<le> i then None else Some (el_errors l ! i))"

definition oas_error_list_has_errors :: "'a oas_error_list option \<Rightarrow> bool" where
  "oas_error_list_has_errors l = (case l of None \<Rightarrow> False | Some l \<Rightarrow> 0 < length (el_errors l))"

fun oas_error_kind_name :: "oas_error_kind \<Rightarrow> string" where
  "oas_error_kind_name OAS_ERR_NONE = ''none''"
| "oas_error_kind_name OAS_ERR_PARSE = ''parse''"
| "oas_error_kind_name OAS_ERR_SCHEMA = ''schema''"
| "oas_error_kind_name OAS_ERR_REF = ''ref''"
| "oas_error_kind_name OAS_ERR_TYPE = ''type''"
| "oas_error_kind_name OAS_ERR_CONSTRAINT = ''constraint''"
| "oas_error_kind_name OAS_ERR_REQUIRED = ''required''"
| "oas_error_kind_name OAS_ERR_FORMAT = ''format''"
| "oas_error_kind_name OAS_ERR_ALLOC = ''alloc''"

section \<open>Invariant\<close>

text \<open>No entry is written past the array, and the capacity is never zero.\<close>

definition error_list_inv :: "'a oas_error_list \<Rightarrow> bool" where
  "error_list_inv l \<longleftrightarrow> length (el_errors l) \<le> el_capacity l \<and> 0 < el_capacity l"

lemma error_list_create_inv:
  "oas_error_list_create alloc a = (Some l, a') \<Longrightarrow> error_list_inv l \<and> el_errors l = []"
  by (auto simp: oas_error_list_create_def error_list_inv_def oas_error_list_init_cap_def
      split: prod.splits option.splits)

lemma error_list_grow_errors:
  "error_list_grow alloc l = (ok, l') \<Longrightarrow> el_errors l' = el_errors l"
  by (auto simp: error_list_grow_def Let_def split: prod.splits option.splits)

lemma error_list_grow_snd [simp]: "el_errors (snd (error_list_grow alloc l)) = el_errors l"
  by (cases "error_list_grow alloc l") (simp add: error_list_grow_errors)

lemma error_list_add_cases:
  obtains (full) "el_errors (oas_error_list_add alloc l kind path msg) = el_errors l"
    and "el_capacity (oas_error_list_add alloc l kind path msg) = el_capacity l"
  | (added) m p where
      "el_errors (oas_error_list_add alloc l kind path msg) = el_errors l @
         [\<lparr>err_kind = kind, err_message = m, err_path = p, err_line = 0, err_column = 0\<rparr>]"
      and "el_capacity (oas_error_list_add alloc l kind path msg) =
        (if el_capacity l \<le> length (el_errors l) then el_capacity l * 2 else el_capacity l)"
proof -
  let ?l' = "oas_error_list_add alloc l kind path msg"
  have "(el_errors ?l' = el_errors l \<and> el_capacity ?l' = el_capacity l) \<or>
    (\<exists>m p. el_errors ?l' = el_errors l @
         [\<lparr>err_kind = kind, err_message = m, err_path = p, err_line = 0, err_column = 0\<rparr>] \<and>
       el_capacity ?l' =
        (if el_capacity l \<le> length (el_errors l) then el_capacity l * 2 else el_capacity l))"
    by (auto simp: oas_error_list_add_def error_list_grow_def Let_def
        split: prod.split option.split)
  then show thesis using full added by blast
qed

lemma error_list_add_inv:
  assumes "error_list_inv l"
  shows "error_list_inv (oas_error_list_add alloc l kind path msg)"
  using assms
  by (cases rule: error_list_add_cases [of alloc l kind path msg])
    (auto simp: error_list_inv_def)

section \<open>What reporting promises\<close>

text \<open>An allocator that has not run out of memory answers every well-formed request.\<close>

definition alloc_total :: "'a allocator \<Rightarrow> bool" where
  "alloc_total alloc \<longleftrightarrow>
     (\<forall>a n align. n \<noteq> 0 \<longrightarrow> align \<in> {1, 8} \<longrightarrow> fst (alloc a n align) \<noteq> None)"

lemma granted:
  assumes "alloc_total alloc" and "0 < m" and "m < 2 ^ 64" and "align \<in> {1, 8}"
  obtains p a' where "alloc a (of_nat m) align = (Some p, a')"
proof -
  have "unat (of_nat m :: u64) = m"
    unfolding unsigned_of_nat of_nat_id by (rule take_bit_nat_eq_self) (use assms(3) in simp)
  then have "(of_nat m :: u64) \<noteq> 0" using assms(2) by (metis less_numeral_extra(3) unat_0)
  then show thesis using assms(1,4) that unfolding alloc_total_def by (metis not_None_eq prod.collapse)
qed

locale error_sink =
  fixes report :: "'e \<Rightarrow> string \<Rightarrow> 'e"
    and entries :: "'e \<Rightarrow> oas_error list"
    and room :: "'e \<Rightarrow> bool"
  assumes report_keeps: "prefix (entries e) (entries (report e msg))"
    and report_adds: "room e \<Longrightarrow> length (entries (report e msg)) = Suc (length (entries e))"
begin

text \<open>Several reports in a row.\<close>

lemma reports_keep: "prefix (entries e) (entries (fold (\<lambda>m e. report e m) ms e))"
proof (induction ms arbitrary: e)
  case Nil
  show ?case by simp
next
  case (Cons m ms)
  show ?case
    using prefix_order.trans [OF report_keeps [of e m] Cons.IH [of "report e m"]] by simp
qed

lemma reports_grow:
  assumes "room e" and "ms \<noteq> []"
  shows "length (entries e) < length (entries (fold (\<lambda>m e. report e m) ms e))"
proof -
  obtain m ms' where ms: "ms = m # ms'" using assms(2) by (cases ms) auto
  have "length (entries e) < length (entries (report e m))"
    using report_adds [OF assms(1)] by simp
  also have "\<dots> \<le> length (entries (fold (\<lambda>m e. report e m) ms' (report e m)))"
    by (rule prefix_length_le [OF reports_keep])
  finally show ?thesis by (simp add: ms)
qed

end

text \<open>
  The validator's report: an \<open>OAS_ERR_CONSTRAINT\<close> entry with an empty path. There is room
  while the array can double without its byte size wrapping.
\<close>

definition report_constraint :: "'a allocator \<Rightarrow> 'a oas_error_list \<Rightarrow> string \<Rightarrow> 'a oas_error_list" where
  "report_constraint alloc l msg = oas_error_list_add alloc l OAS_ERR_CONSTRAINT (Some '''') msg"

definition report_room :: "'a allocator \<Rightarrow> 'a oas_error_list \<Rightarrow> bool" where
  "report_room alloc l \<longleftrightarrow> alloc_total alloc \<and> 0 < el_capacity l \<and> el_capacity l < 2 ^ 58"

lemma error_list_grow_total:
  assumes "report_room alloc l"
  shows "fst (error_list_grow alloc l)"
proof -
  have c: "0 < el_capacity l" "el_capacity l < 2 ^ 58" using assms by (simp_all add: report_room_def)
  obtain p a' where "alloc (el_arena l) (of_nat (32 * (el_capacity l * 2))) 8 = (Some p, a')"
    using granted [of alloc "32 * (el_capacity l * 2)" 8 "el_arena l"] assms c
    by (auto simp: report_room_def)
  then have "alloc (el_arena l) (sizeof_oas_error * of_nat (el_capacity l * 2)) 8 = (Some p, a')"
    by (simp add: sizeof_oas_error_def)
  then show ?thesis
    by (simp add: error_list_grow_def Let_def)
qed

lemma report_constraint_grows:
  assumes "report_room alloc l"
  shows "length (el_errors (report_constraint alloc l msg)) = Suc (length (el_errors l))"
  using error_list_grow_total [OF assms]
  by (auto simp: report_constraint_def oas_error_list_add_def Let_def
      dest: error_list_grow_errors split: prod.split)

interpretation constraint_sink: error_sink "report_constraint alloc" el_errors "report_room alloc"
  for alloc
proof unfold_locales
  fix l :: "'a oas_error_list" and msg
  show "prefix (el_errors l) (el_errors (report_constraint alloc l msg))"
    unfolding report_constraint_def
    by (cases rule: error_list_add_cases
        [of alloc l OAS_ERR_CONSTRAINT "Some ''''" msg]) simp_all
  show "length (el_errors (report_constraint alloc l msg)) = Suc (length (el_errors l))"
    if "report_room alloc l"
    using that by (rule report_constraint_grows)
qed

section \<open>Properties\<close>

text \<open>
  \<open>oas_error_list_add\<close> keeps the list's bound, never drops or changes an entry that a
  caller could already read with \<open>oas_error_list_get\<close>, and adds at most one entry, whatever
  the arena answers.
\<close>

theorem error_list_add_keeps:
  assumes "error_list_inv l" and "i < oas_error_list_count (Some l)"
  shows "error_list_inv (oas_error_list_add alloc l kind path msg) \<and>
    oas_error_list_get (Some (oas_error_list_add alloc l kind path msg)) i = oas_error_list_get (Some l) i \<and>
    oas_error_list_count (Some (oas_error_list_add alloc l kind path msg)) \<le> Suc (oas_error_list_count (Some l))"
  using error_list_add_inv [OF assms(1), of alloc kind path msg] assms(2)
  by (cases rule: error_list_add_cases [of alloc l kind path msg])
    (auto simp: oas_error_list_get_def oas_error_list_count_def nth_append)

definition one_error :: "unit oas_error_list" where
  "one_error = \<lparr>el_arena = (), el_errors = [\<lparr>err_kind = OAS_ERR_PARSE, err_message = Some ''m'',
     err_path = None, err_line = 0, err_column = 0\<rparr>], el_capacity = 1\<rparr>"

theorem error_list_add_keeps_witness:
  "oas_error_list_get (Some (oas_error_list_add (\<lambda>a n k. (Some 8, a)) one_error OAS_ERR_REF None ''x'')) 0 =
     oas_error_list_get (Some one_error) 0"
  using error_list_add_keeps [of one_error 0 "\<lambda>a n k. (Some 8, a)" OAS_ERR_REF None "''x''"]
  by (simp add: one_error_def error_list_inv_def oas_error_list_count_def)

lemma arena_strdup_total:
  assumes "alloc_total alloc" and "length s < 2 ^ 63"
  shows "fst (arena_strdup alloc a (Some s)) = Some s"
proof -
  obtain p a' where "alloc a (of_nat (length s + 1)) 1 = (Some p, a')"
    using granted [OF assms(1), of "length s + 1" 1 a] assms(2) by auto
  then show ?thesis by (simp add: arena_strdup_def)
qed

lemma arena_strdup_None [simp]: "arena_strdup alloc a None = (None, a)"
  by (simp add: arena_strdup_def)

text \<open>
  With memory granted, the entry \<open>oas_error_list_add\<close> appends carries the kind and the
  path given and the message cut to the 1023 bytes of its buffer, and \<open>oas_error_list_get\<close>
  finds it at the old count.
\<close>

theorem error_list_add_reports:
  assumes "report_room alloc l" and "length (case path of None \<Rightarrow> [] | Some p \<Rightarrow> p) < 2 ^ 63"
  shows "oas_error_list_get (Some (oas_error_list_add alloc l kind path msg)) (oas_error_list_count (Some l)) =
    Some \<lparr>err_kind = kind, err_message = Some (take 1023 msg), err_path = path,
          err_line = 0, err_column = 0\<rparr>"
proof -
  have t: "alloc_total alloc" using assms(1) by (simp add: report_room_def)
  have "fst (arena_strdup alloc a (Some (take 1023 msg))) = Some (take 1023 msg)" for a
    by (rule arena_strdup_total [OF t]) simp
  moreover have "fst (arena_strdup alloc a path) = path" for a
    using assms(2) arena_strdup_total [OF t] by (cases path) simp_all
  ultimately show ?thesis
    using error_list_grow_total [OF assms(1)]
    by (simp add: oas_error_list_add_def oas_error_list_get_def oas_error_list_count_def Let_def nth_append
        split_beta)
qed

theorem error_list_add_reports_witness:
  "oas_error_list_get (Some (oas_error_list_add (\<lambda>a n k. (Some 8, a)) one_error OAS_ERR_REF (Some ''#/a'') ''x'')) 1 =
     Some \<lparr>err_kind = OAS_ERR_REF, err_message = Some ''x'', err_path = Some ''#/a'',
           err_line = 0, err_column = 0\<rparr>"
  using error_list_add_reports [of "\<lambda>a n k. (Some 8, a)" one_error "Some ''#/a''" OAS_ERR_REF "''x''"]
  by (simp add: one_error_def report_room_def alloc_total_def oas_error_list_count_def)

end
