(* ===== verification/Liboas_VM.thy ===== *)
theory Liboas_VM
  imports Liboas_Format Liboas_Error Liboas_Schema
begin

text \<open>
  \<open>src/validator/oas_validator.c\<close>: the virtual machine that runs a compiled schema
  against a JSON value. The instruction pointer is the list of instructions from \<open>ip\<close> to
  \<open>end\<close>; \<open>None\<close> as a result of a handler is undefined behaviour of the C code (a union
  member that was not written is read, or the pointer is moved out of the program).
\<close>

section \<open>State\<close>

datatype oas_validation_direction = OAS_DIR_NONE | OAS_DIR_REQUEST | OAS_DIR_RESPONSE

text \<open>
  What the machine is given and never changes: yyjson, the regex backend's \<open>match\<close>
  (\<open>None\<close> for a null backend), and how an error list takes a report.
\<close>

record ('p, 'e) vm_env =
  ve_yy :: yyjson
  ve_regex :: "('p \<Rightarrow> string \<Rightarrow> bool) option"
  ve_report :: "'e \<Rightarrow> string \<Rightarrow> 'e"

text \<open>
  \<open>vm_errors\<close> is the pointer to the error list: \<open>None\<close> for null, else the list's state,
  which machines sharing the pointer hand to each other.
\<close>

record ('p, 'e) vm_state =
  vm_value :: json
  vm_ip :: "'p oas_instruction list"
  vm_errors :: "'e option"
  vm_direction :: oas_validation_direction
  vm_valid :: bool

type_synonym ('p, 'e) vm_run = "('p, 'e) vm_state \<Rightarrow> ('p, 'e) vm_state option"

section \<open>Helpers\<close>



fun yyjson_to_type_mask :: "json \<Rightarrow> u8" where
  "yyjson_to_type_mask JNull = OAS_TYPE_NULL"
| "yyjson_to_type_mask (JBool b) = OAS_TYPE_BOOLEAN"
| "yyjson_to_type_mask (JUint n) = OAS_TYPE_INTEGER OR OAS_TYPE_NUMBER"
| "yyjson_to_type_mask (JSint n) = OAS_TYPE_INTEGER OR OAS_TYPE_NUMBER"
| "yyjson_to_type_mask (JReal d) =
     (if dbl_is_integral d then OAS_TYPE_INTEGER OR OAS_TYPE_NUMBER else OAS_TYPE_NUMBER)"
| "yyjson_to_type_mask (JStr s) = OAS_TYPE_STRING"
| "yyjson_to_type_mask (JArr xs) = OAS_TYPE_ARRAY"
| "yyjson_to_type_mask (JObj kvs) = OAS_TYPE_OBJECT"

fun utf8_codepoint_count :: "string \<Rightarrow> nat" where
  "utf8_codepoint_count [] = 0"
| "utf8_codepoint_count (c # s) =
     (if (of_char c :: u8) AND 0xC0 \<noteq> 0x80 then Suc (utf8_codepoint_count s)
      else utf8_codepoint_count s)"

text \<open>Each item against the later ones.\<close>

fun has_duplicate_items :: "yyjson \<Rightarrow> json list \<Rightarrow> bool" where
  "has_duplicate_items yy [] = False"
| "has_duplicate_items yy (a # xs) =
     (list_ex (\<lambda>b. yy_equals yy a b) xs \<or> has_duplicate_items yy xs)"

text \<open>The message buffer of \<open>add_error\<close> holds 255 bytes and the terminator.\<close>

definition add_error :: "('p, 'e) vm_env \<Rightarrow> ('p, 'e) vm_state \<Rightarrow> string \<Rightarrow> ('p, 'e) vm_state" where
  "add_error E vm msg =
     vm\<lparr>vm_valid := False,
        vm_errors := map_option (\<lambda>e. ve_report E e (take 255 msg)) (vm_errors vm)\<rparr>"

fun is_nesting_op :: "oas_opcode \<Rightarrow> bool" where
  "is_nesting_op OAS_OP_ENTER_ITEMS = True"
| "is_nesting_op OAS_OP_ENTER_PROPERTY = True"
| "is_nesting_op OAS_OP_ENTER_PREFIX_ITEM = True"
| "is_nesting_op OAS_OP_ENTER_ADDITIONAL = True"
| "is_nesting_op OAS_OP_NEGATE = True"
| "is_nesting_op OAS_OP_COND_IF = True"
| "is_nesting_op OAS_OP_COND_THEN = True"
| "is_nesting_op OAS_OP_COND_ELSE = True"
| "is_nesting_op OAS_OP_CHECK_PROP_NAMES = True"
| "is_nesting_op OAS_OP_CHECK_PATTERN_PROPS = True"
| "is_nesting_op OAS_OP_CHECK_DEP_SCHEMA = True"
| "is_nesting_op OAS_OP_CHECK_CONTAINS = True"
| "is_nesting_op _ = False"

fun skip_loop :: "nat \<Rightarrow> 'p oas_instruction list \<Rightarrow> 'p oas_instruction list" where
  "skip_loop 0 ip = ip"
| "skip_loop (Suc depth) [] = []"
| "skip_loop (Suc depth) (i # ip) =
     (if op i = OAS_OP_END then skip_loop depth ip
      else if is_nesting_op (op i) then skip_loop (Suc (Suc depth)) ip
      else skip_loop (Suc depth) ip)"

definition skip_to_end :: "('p, 'e) vm_state \<Rightarrow> ('p, 'e) vm_state" where
  "skip_to_end vm = vm\<lparr>vm_ip := skip_loop 1 (vm_ip vm)\<rparr>"

text \<open>\<open>vm->ip += n\<close>, defined within the program only.\<close>

definition ip_advance :: "int \<Rightarrow> 'p oas_instruction list \<Rightarrow> 'p oas_instruction list option" where
  "ip_advance n ip = (if 0 \<le> n \<and> nat n \<le> length ip then Some (drop (nat n) ip) else None)"

text \<open>
  \<open>if (vm->ip < vm->end) { n = vm->ip->operand.i64; vm->ip++; }\<close>: the number an inline
  \<open>NOP\<close> carries, with the value the variable was initialised to at the end of the program.
\<close>

definition read_nop ::
    "int \<Rightarrow> 'p oas_instruction list \<Rightarrow> (int \<times> 'p oas_instruction list) option" where
  "read_nop n0 ip =
     (case ip of
        [] \<Rightarrow> Some (n0, [])
      | j # ip \<Rightarrow> map_option (\<lambda>n. (n, ip)) (get_i64 (operand j)))"

section \<open>Checks on the value itself\<close>

definition exec_check_type :: "('p, 'e) vm_env \<Rightarrow> 'p oas_instruction \<Rightarrow> ('p, 'e) vm_run" where
  [vm_handlers]: "exec_check_type E i vm =
     Some (if yyjson_to_type_mask (vm_value vm) AND type_mask i = 0
           then add_error E vm ''type mismatch'' else vm)"

definition exec_check_min_len :: "('p, 'e) vm_env \<Rightarrow> 'p oas_instruction \<Rightarrow> ('p, 'e) vm_run" where
  [vm_handlers]: "exec_check_min_len E i vm =
     (case vm_value vm of
        JStr s \<Rightarrow> do {
          n \<leftarrow> get_i64 (operand i);
          Some (if int (utf8_codepoint_count s) < n then add_error E vm ''string too short'' else vm)
        }
      | _ \<Rightarrow> Some vm)"

definition exec_check_max_len :: "('p, 'e) vm_env \<Rightarrow> 'p oas_instruction \<Rightarrow> ('p, 'e) vm_run" where
  [vm_handlers]: "exec_check_max_len E i vm =
     (case vm_value vm of
        JStr s \<Rightarrow> do {
          n \<leftarrow> get_i64 (operand i);
          Some (if n < int (utf8_codepoint_count s) then add_error E vm ''string too long'' else vm)
        }
      | _ \<Rightarrow> Some vm)"

definition exec_check_pattern :: "('p, 'e) vm_env \<Rightarrow> 'p oas_instruction \<Rightarrow> ('p, 'e) vm_run" where
  [vm_handlers]: "exec_check_pattern E i vm =
     (case (vm_value vm, ve_regex E) of
        (JStr s, Some match) \<Rightarrow> do {
          pat \<leftarrow> get_pattern (operand i);
          Some (if match pat s then vm else add_error E vm ''pattern mismatch'')
        }
      | _ \<Rightarrow> Some vm)"

definition exec_check_format :: "('p, 'e) vm_env \<Rightarrow> 'p oas_instruction \<Rightarrow> ('p, 'e) vm_run" where
  [vm_handlers]: "exec_check_format E i vm =
     (case vm_value vm of
        JStr s \<Rightarrow> do {
          fn \<leftarrow> get_format (operand i);
          Some (if call_format fn s then vm else add_error E vm ''format validation failed'')
        }
      | _ \<Rightarrow> Some vm)"

definition exec_check_minimum :: "('p, 'e) vm_env \<Rightarrow> 'p oas_instruction \<Rightarrow> ('p, 'e) vm_run" where
  [vm_handlers]: "exec_check_minimum E i vm =
     (if \<not> is_jnum (vm_value vm) then Some vm
      else do {
        m \<leftarrow> get_f64 (operand i);
        Some (if yy_get_num (ve_yy E) (vm_value vm) < m then add_error E vm ''below minimum'' else vm)
      })"

definition exec_check_maximum :: "('p, 'e) vm_env \<Rightarrow> 'p oas_instruction \<Rightarrow> ('p, 'e) vm_run" where
  [vm_handlers]: "exec_check_maximum E i vm =
     (if \<not> is_jnum (vm_value vm) then Some vm
      else do {
        m \<leftarrow> get_f64 (operand i);
        Some (if m < yy_get_num (ve_yy E) (vm_value vm) then add_error E vm ''above maximum'' else vm)
      })"

definition exec_check_ex_minimum :: "('p, 'e) vm_env \<Rightarrow> 'p oas_instruction \<Rightarrow> ('p, 'e) vm_run" where
  [vm_handlers]: "exec_check_ex_minimum E i vm =
     (if \<not> is_jnum (vm_value vm) then Some vm
      else do {
        m \<leftarrow> get_f64 (operand i);
        Some (if yy_get_num (ve_yy E) (vm_value vm) \<le> m
              then add_error E vm ''not above exclusive minimum'' else vm)
      })"

definition exec_check_ex_maximum :: "('p, 'e) vm_env \<Rightarrow> 'p oas_instruction \<Rightarrow> ('p, 'e) vm_run" where
  [vm_handlers]: "exec_check_ex_maximum E i vm =
     (if \<not> is_jnum (vm_value vm) then Some vm
      else do {
        m \<leftarrow> get_f64 (operand i);
        Some (if m \<le> yy_get_num (ve_yy E) (vm_value vm)
              then add_error E vm ''not below exclusive maximum'' else vm)
      })"

text \<open>
  The tolerance test of \<open>multipleOf\<close>: a NaN remainder (a zero divisor) compares false, so
  no error is reported.
\<close>

definition multiple_of_violated :: "double \<Rightarrow> double \<Rightarrow> bool" where
  "multiple_of_violated v m =
     (case dbl_fmod v m of
        None \<Rightarrow> False
      | Some r \<Rightarrow> dbl_round (1 / 10 ^ 9) < \<bar>r\<bar> \<and> dbl_round (1 / 10 ^ 9) < \<bar>dbl_sub r m\<bar>)"

definition exec_check_multiple_of :: "('p, 'e) vm_env \<Rightarrow> 'p oas_instruction \<Rightarrow> ('p, 'e) vm_run" where
  [vm_handlers]: "exec_check_multiple_of E i vm =
     (if \<not> is_jnum (vm_value vm) then Some vm
      else do {
        m \<leftarrow> get_f64 (operand i);
        Some (if multiple_of_violated (yy_get_num (ve_yy E) (vm_value vm)) m
              then add_error E vm ''not multiple of'' else vm)
      })"

definition exec_check_required :: "('p, 'e) vm_env \<Rightarrow> 'p oas_instruction \<Rightarrow> ('p, 'e) vm_run" where
  [vm_handlers]: "exec_check_required E i vm =
     (if \<not> is_jobj (vm_value vm) then Some vm
      else do {
        name \<leftarrow> get_str (operand i);
        Some (if yy_obj_get (ve_yy E) (vm_value vm) name = None
              then add_error E vm (''missing required property: '' @ name) else vm)
      })"

definition exec_check_min_items :: "('p, 'e) vm_env \<Rightarrow> 'p oas_instruction \<Rightarrow> ('p, 'e) vm_run" where
  [vm_handlers]: "exec_check_min_items E i vm =
     (case vm_value vm of
        JArr xs \<Rightarrow> do {
          n \<leftarrow> get_i64 (operand i);
          Some (if int (length xs) < n then add_error E vm ''too few items'' else vm)
        }
      | _ \<Rightarrow> Some vm)"

definition exec_check_max_items :: "('p, 'e) vm_env \<Rightarrow> 'p oas_instruction \<Rightarrow> ('p, 'e) vm_run" where
  [vm_handlers]: "exec_check_max_items E i vm =
     (case vm_value vm of
        JArr xs \<Rightarrow> do {
          n \<leftarrow> get_i64 (operand i);
          Some (if n < int (length xs) then add_error E vm ''too many items'' else vm)
        }
      | _ \<Rightarrow> Some vm)"

definition exec_check_unique :: "('p, 'e) vm_env \<Rightarrow> 'p oas_instruction \<Rightarrow> ('p, 'e) vm_run" where
  [vm_handlers]: "exec_check_unique E i vm =
     (case vm_value vm of
        JArr xs \<Rightarrow>
          Some (if has_duplicate_items (ve_yy E) xs
                then add_error E vm ''array has duplicate items'' else vm)
      | _ \<Rightarrow> Some vm)"

definition exec_check_enum :: "('p, 'e) vm_env \<Rightarrow> 'p oas_instruction \<Rightarrow> ('p, 'e) vm_run" where
  [vm_handlers]: "exec_check_enum E i vm = do {
     enum_arr \<leftarrow> get_json (operand i);
     (case enum_arr of
        JArr items \<Rightarrow>
          Some (if list_ex (\<lambda>item. yy_equals (ve_yy E) (vm_value vm) item) items then vm
                else add_error E vm ''value not in enum'')
      | _ \<Rightarrow> Some vm)
   }"

definition exec_check_const :: "('p, 'e) vm_env \<Rightarrow> 'p oas_instruction \<Rightarrow> ('p, 'e) vm_run" where
  [vm_handlers]: "exec_check_const E i vm = do {
     expected \<leftarrow> get_json (operand i);
     Some (if yy_equals (ve_yy E) (vm_value vm) expected then vm
           else add_error E vm ''value does not match const'')
   }"

definition exec_check_min_props :: "('p, 'e) vm_env \<Rightarrow> 'p oas_instruction \<Rightarrow> ('p, 'e) vm_run" where
  [vm_handlers]: "exec_check_min_props E i vm =
     (case vm_value vm of
        JObj kvs \<Rightarrow> do {
          n \<leftarrow> get_i64 (operand i);
          Some (if int (length kvs) < n then add_error E vm ''too few properties'' else vm)
        }
      | _ \<Rightarrow> Some vm)"

definition exec_check_max_props :: "('p, 'e) vm_env \<Rightarrow> 'p oas_instruction \<Rightarrow> ('p, 'e) vm_run" where
  [vm_handlers]: "exec_check_max_props E i vm =
     (case vm_value vm of
        JObj kvs \<Rightarrow> do {
          n \<leftarrow> get_i64 (operand i);
          Some (if n < int (length kvs) then add_error E vm ''too many properties'' else vm)
        }
      | _ \<Rightarrow> Some vm)"

definition exec_check_read_only :: "('p, 'e) vm_env \<Rightarrow> 'p oas_instruction \<Rightarrow> ('p, 'e) vm_run" where
  [vm_handlers]: "exec_check_read_only E i vm =
     Some (if vm_direction vm = OAS_DIR_REQUEST
           then add_error E vm ''readOnly property not allowed in request'' else vm)"

definition exec_check_write_only :: "('p, 'e) vm_env \<Rightarrow> 'p oas_instruction \<Rightarrow> ('p, 'e) vm_run" where
  [vm_handlers]: "exec_check_write_only E i vm =
     Some (if vm_direction vm = OAS_DIR_RESPONSE
           then add_error E vm ''writeOnly property not allowed in response'' else vm)"

section \<open>Running a sub-program\<close>

text \<open>
  \<open>vm_state_t sub = *vm; execute(&sub); if (!sub.valid) vm->valid = false;\<close>: a copy of
  the machine, \<open>valid\<close> included, that shares the error list. \<open>absorb\<close> is what the
  original keeps of the copy's run. A copy with \<open>errors = nullptr\<close> leaves the list as it is.
\<close>

definition absorb :: "('p, 'e) vm_state \<Rightarrow> ('p, 'e) vm_state \<Rightarrow> ('p, 'e) vm_state" where
  "absorb vm sub = vm\<lparr>vm_valid := (vm_valid vm \<and> vm_valid sub), vm_errors := vm_errors sub\<rparr>"

text \<open>The item loop, shared by \<open>items\<close> (and \<open>patternProperties\<close>, on the matching values).\<close>

fun items_loop ::
    "('p, 'e) vm_run \<Rightarrow> 'p oas_instruction list \<Rightarrow> json list \<Rightarrow> ('p, 'e) vm_run" where
  "items_loop run sub_start [] vm = Some vm"
| "items_loop run sub_start (item # items) vm = do {
     sub \<leftarrow> run (vm\<lparr>vm_value := item, vm_ip := sub_start\<rparr>);
     items_loop run sub_start items (absorb vm sub)
   }"

definition exec_enter_items :: "('p, 'e) vm_run \<Rightarrow> 'p oas_instruction \<Rightarrow> ('p, 'e) vm_run" where
  [vm_handlers]: "exec_enter_items run i vm =
     (case vm_value vm of
        JArr xs \<Rightarrow> map_option skip_to_end (items_loop run (vm_ip vm) xs vm)
      | _ \<Rightarrow> Some (skip_to_end vm))"

definition exec_enter_prefix_item :: "('p, 'e) vm_run \<Rightarrow> 'p oas_instruction \<Rightarrow> ('p, 'e) vm_run" where
  [vm_handlers]: "exec_enter_prefix_item run i vm =
     (case vm_value vm of
        JArr xs \<Rightarrow> do {
          (_, idx) \<leftarrow> get_branch (operand i);
          (if unat idx < length xs
           then do {
             sub \<leftarrow> run (vm\<lparr>vm_value := xs ! unat idx\<rparr>);
             Some (skip_to_end (absorb vm sub))
           }
           else Some (skip_to_end vm))
        }
      | _ \<Rightarrow> Some (skip_to_end vm))"

definition exec_enter_property ::
    "('p, 'e) vm_run \<Rightarrow> ('p, 'e) vm_env \<Rightarrow> 'p oas_instruction \<Rightarrow> ('p, 'e) vm_run" where
  [vm_handlers]: "exec_enter_property run E i vm =
     (if \<not> is_jobj (vm_value vm) then Some (skip_to_end vm)
      else do {
        name \<leftarrow> get_str (operand i);
        (case yy_obj_get (ve_yy E) (vm_value vm) name of
           Some prop \<Rightarrow> do {
             sub \<leftarrow> run (vm\<lparr>vm_value := prop\<rparr>);
             Some (skip_to_end (absorb vm sub))
           }
         | None \<Rightarrow> Some (skip_to_end vm))
      })"

definition exec_enter_additional :: "('p, 'e) vm_run" where
  [vm_handlers]: "exec_enter_additional vm = Some (skip_to_end vm)"

section \<open>Composition\<close>

text \<open>
  Each round runs the next branch from where the last one stopped, on the same value.
\<close>

primrec allof_loop :: "('p, 'e) vm_run \<Rightarrow> nat \<Rightarrow> ('p, 'e) vm_run" where
  "allof_loop run 0 vm = Some vm"
| "allof_loop run (Suc n) vm = do {
     sub \<leftarrow> run vm;
     allof_loop run n ((absorb vm sub)\<lparr>vm_ip := vm_ip sub\<rparr>)
   }"

definition exec_branch_allof :: "('p, 'e) vm_run \<Rightarrow> 'p oas_instruction \<Rightarrow> ('p, 'e) vm_run" where
  [vm_handlers]: "exec_branch_allof run i vm = do {
     (count, _) \<leftarrow> get_branch (operand i);
     allof_loop run (unat count) vm
   }"

text \<open>
  The branches of \<open>anyOf\<close> and \<open>oneOf\<close> report nothing; the number of them that passed is
  counted. (\<open>after\<close> in the code is always the pointer the loop has stored already.)
\<close>

primrec quiet_branches :: "('p, 'e) vm_run \<Rightarrow> nat \<Rightarrow> nat \<Rightarrow> ('p, 'e) vm_state \<Rightarrow>
    (nat \<times> ('p, 'e) vm_state) option" where
  "quiet_branches run 0 pass_count vm = Some (pass_count, vm)"
| "quiet_branches run (Suc n) pass_count vm = do {
     sub \<leftarrow> run (vm\<lparr>vm_errors := None\<rparr>);
     quiet_branches run n (if vm_valid sub then Suc pass_count else pass_count)
       (vm\<lparr>vm_ip := vm_ip sub\<rparr>)
   }"

definition exec_branch_anyof ::
    "('p, 'e) vm_run \<Rightarrow> ('p, 'e) vm_env \<Rightarrow> 'p oas_instruction \<Rightarrow> ('p, 'e) vm_run" where
  [vm_handlers]: "exec_branch_anyof run E i vm = do {
     (count, _) \<leftarrow> get_branch (operand i);
     (pass_count, vm) \<leftarrow> quiet_branches run (unat count) 0 vm;
     Some (if pass_count = 0 then add_error E vm ''no anyOf branch matched'' else vm)
   }"

definition exec_branch_oneof ::
    "('p, 'e) vm_run \<Rightarrow> ('p, 'e) vm_env \<Rightarrow> 'p oas_instruction \<Rightarrow> ('p, 'e) vm_run" where
  [vm_handlers]: "exec_branch_oneof run E i vm = do {
     (count, _) \<leftarrow> get_branch (operand i);
     (pass_count, vm) \<leftarrow> quiet_branches run (unat count) 0 vm;
     Some (if pass_count \<noteq> 1
           then add_error E vm (''oneOf: expected exactly 1 match, got '' @ dec_nat pass_count)
           else vm)
   }"

definition exec_negate ::
    "('p, 'e) vm_run \<Rightarrow> ('p, 'e) vm_env \<Rightarrow> 'p oas_instruction \<Rightarrow> ('p, 'e) vm_run" where
  [vm_handlers]: "exec_negate run E i vm = do {
     sub \<leftarrow> run (vm\<lparr>vm_errors := None\<rparr>);
     let vm = vm\<lparr>vm_ip := vm_ip sub\<rparr>;
     Some (if vm_valid sub then add_error E vm ''not: schema matched when it should not'' else vm)
   }"

text \<open>
  The part after an \<open>if\<close> that starts with the given opcode, when the next instruction is
  one: run on the machine itself, or skipped.
\<close>

definition exec_cond_part ::
    "('p, 'e) vm_run \<Rightarrow> oas_opcode \<Rightarrow> bool \<Rightarrow> ('p, 'e) vm_run" where
  "exec_cond_part run opc taken vm =
     (case vm_ip vm of
        j # ip \<Rightarrow>
          if op j = opc
          then (if taken then run (vm\<lparr>vm_ip := ip\<rparr>) else Some (skip_to_end (vm\<lparr>vm_ip := ip\<rparr>)))
          else Some vm
      | [] \<Rightarrow> Some vm)"

definition exec_cond_if :: "('p, 'e) vm_run \<Rightarrow> 'p oas_instruction \<Rightarrow> ('p, 'e) vm_run" where
  [vm_handlers]: "exec_cond_if run i vm = do {
     sub \<leftarrow> run (vm\<lparr>vm_errors := None\<rparr>);
     let if_passed = vm_valid sub;
     vm \<leftarrow> exec_cond_part run OAS_OP_COND_THEN if_passed (vm\<lparr>vm_ip := vm_ip sub\<rparr>);
     exec_cond_part run OAS_OP_COND_ELSE (\<not> if_passed) vm
   }"

section \<open>Object keywords with sub-programs\<close>

text \<open>
  The name is handed over as a C string, written as JSON and read back; where either
  fails the name is passed over.
\<close>

fun prop_names_loop ::
    "('p, 'e) vm_run \<Rightarrow> ('p, 'e) vm_env \<Rightarrow> 'p oas_instruction list \<Rightarrow> string list
      \<Rightarrow> ('p, 'e) vm_run" where
  "prop_names_loop run E sub_start [] vm = Some vm"
| "prop_names_loop run E sub_start (key # keys) vm =
     (case Option.bind (yy_write_str (ve_yy E) (cstr key)) (yy_read (ve_yy E)) of
        None \<Rightarrow> prop_names_loop run E sub_start keys vm
      | Some name \<Rightarrow> do {
          sub \<leftarrow> run (vm\<lparr>vm_value := name, vm_ip := sub_start\<rparr>);
          let vm' = vm\<lparr>vm_errors := vm_errors sub\<rparr>;
          prop_names_loop run E sub_start keys
            (if vm_valid sub then vm'
             else add_error E vm'
               (''propertyNames: name '' @ [CHR 0x27] @ cstr key @ [CHR 0x27] @ '' failed validation''))
        })"

definition exec_check_prop_names ::
    "('p, 'e) vm_run \<Rightarrow> ('p, 'e) vm_env \<Rightarrow> 'p oas_instruction \<Rightarrow> ('p, 'e) vm_run" where
  [vm_handlers]: "exec_check_prop_names run E i vm =
     (case vm_value vm of
        JObj kvs \<Rightarrow> map_option skip_to_end (prop_names_loop run E (vm_ip vm) (map fst kvs) vm)
      | _ \<Rightarrow> Some (skip_to_end vm))"

definition exec_check_pattern_props ::
    "('p, 'e) vm_run \<Rightarrow> ('p, 'e) vm_env \<Rightarrow> 'p oas_instruction \<Rightarrow> ('p, 'e) vm_run" where
  [vm_handlers]: "exec_check_pattern_props run E i vm =
     (case (vm_value vm, ve_regex E) of
        (JObj kvs, Some match) \<Rightarrow> do {
          pat \<leftarrow> get_pattern (operand i);
          map_option skip_to_end
            (items_loop run (vm_ip vm) (map snd (filter (\<lambda>(name, _). match pat name) kvs)) vm)
        }
      | _ \<Rightarrow> Some (skip_to_end vm))"

text \<open>The names required by a present trigger follow as operands of \<open>NOP\<close>s.\<close>

primrec dep_required_loop ::
    "('p, 'e) vm_env \<Rightarrow> string \<Rightarrow> nat \<Rightarrow> ('p, 'e) vm_run" where
  "dep_required_loop E trigger 0 vm = Some vm"
| "dep_required_loop E trigger (Suc n) vm =
     (case vm_ip vm of
        [] \<Rightarrow> Some vm
      | j # ip \<Rightarrow> do {
          req_name \<leftarrow> get_str (operand j);
          let vm = vm\<lparr>vm_ip := ip\<rparr>;
          dep_required_loop E trigger n
            (if yy_obj_get (ve_yy E) (vm_value vm) req_name = None
             then add_error E vm (''dependentRequired: '' @ [CHR 0x27] @ trigger @ [CHR 0x27]
                    @ '' requires '' @ [CHR 0x27] @ req_name @ [CHR 0x27])
             else vm)
        })"

definition exec_check_dep_required ::
    "('p, 'e) vm_env \<Rightarrow> 'p oas_instruction \<Rightarrow> ('p, 'e) vm_run" where
  [vm_handlers]: "exec_check_dep_required E i vm =
     (if \<not> is_jobj (vm_value vm)
      then do {
        (cnt, ip) \<leftarrow> read_nop 0 (vm_ip vm);
        ip \<leftarrow> ip_advance cnt ip;
        Some (vm\<lparr>vm_ip := ip\<rparr>)
      }
      else do {
        trigger \<leftarrow> get_str (operand i);
        (cnt, ip) \<leftarrow> read_nop 0 (vm_ip vm);
        (if yy_obj_get (ve_yy E) (vm_value vm) trigger \<noteq> None
         then dep_required_loop E trigger (nat cnt) (vm\<lparr>vm_ip := ip\<rparr>)
         else do { ip \<leftarrow> ip_advance cnt ip; Some (vm\<lparr>vm_ip := ip\<rparr>) })
      })"

definition exec_check_dep_schema ::
    "('p, 'e) vm_run \<Rightarrow> ('p, 'e) vm_env \<Rightarrow> 'p oas_instruction \<Rightarrow> ('p, 'e) vm_run" where
  [vm_handlers]: "exec_check_dep_schema run E i vm =
     (if \<not> is_jobj (vm_value vm) then Some (skip_to_end vm)
      else do {
        trigger \<leftarrow> get_str (operand i);
        (if yy_obj_get (ve_yy E) (vm_value vm) trigger \<noteq> None
         then do { sub \<leftarrow> run vm; Some ((absorb vm sub)\<lparr>vm_ip := vm_ip sub\<rparr>) }
         else Some (skip_to_end vm))
      })"

section \<open>contains and discriminator\<close>

fun contains_loop ::
    "('p, 'e) vm_run \<Rightarrow> 'p oas_instruction list \<Rightarrow> json list \<Rightarrow> nat \<Rightarrow> ('p, 'e) vm_state
      \<Rightarrow> nat option" where
  "contains_loop run sub_start [] match_count vm = Some match_count"
| "contains_loop run sub_start (item # items) match_count vm = do {
     sub \<leftarrow> run (vm\<lparr>vm_value := item, vm_ip := sub_start, vm_errors := None\<rparr>);
     contains_loop run sub_start items (if vm_valid sub then Suc match_count else match_count) vm
   }"

definition exec_check_contains ::
    "('p, 'e) vm_run \<Rightarrow> ('p, 'e) vm_env \<Rightarrow> 'p oas_instruction \<Rightarrow> ('p, 'e) vm_run" where
  [vm_handlers]: "exec_check_contains run E i vm =
     (case vm_value vm of
        JArr xs \<Rightarrow> do {
          min_c \<leftarrow> get_i64 (operand i);
          (max_c, ip) \<leftarrow> read_nop (- 1) (vm_ip vm);
          match_count \<leftarrow> contains_loop run ip xs 0 vm;
          let n = int match_count;
          let vm = vm\<lparr>vm_ip := ip\<rparr>;
          let vm = (if n < min_c
                    then add_error E vm (''contains: too few matches ('' @ dec_int n @ '' < ''
                           @ dec_int min_c @ '')'') else vm);
          let vm = (if 0 \<le> max_c \<and> max_c < n
                    then add_error E vm (''contains: too many matches ('' @ dec_int n @ '' > ''
                           @ dec_int max_c @ '')'') else vm);
          Some (skip_to_end vm)
        }
      | _ \<Rightarrow> Some (skip_to_end vm))"

text \<open>
  Passing over a sub-schema means running it and taking the instruction pointer; the flag
  says whether the run reports into the list (as the error branches do) or not.
\<close>

primrec disc_skip :: "('p, 'e) vm_run \<Rightarrow> bool \<Rightarrow> nat \<Rightarrow> ('p, 'e) vm_run" where
  "disc_skip run loud 0 vm = Some vm"
| "disc_skip run loud (Suc n) vm = do {
     sub \<leftarrow> run (if loud then vm else vm\<lparr>vm_errors := None\<rparr>);
     disc_skip run loud n
       (vm\<lparr>vm_ip := vm_ip sub, vm_errors := (if loud then vm_errors sub else vm_errors vm)\<rparr>)
   }"

text \<open>The branch that was selected: the ones before it, itself, the ones after it.\<close>

definition disc_run :: "('p, 'e) vm_run \<Rightarrow> nat \<Rightarrow> nat \<Rightarrow> ('p, 'e) vm_run" where
  "disc_run run count match_idx vm = do {
     vm \<leftarrow> disc_skip run False match_idx vm;
     sub \<leftarrow> run vm;
     disc_skip run False (count - Suc match_idx) ((absorb vm sub)\<lparr>vm_ip := vm_ip sub\<rparr>)
   }"

text \<open>The mapping keys are compared in order, up to the first equal one.\<close>

fun disc_find :: "string \<Rightarrow> 'p oas_instruction list \<Rightarrow> nat \<Rightarrow> nat option option" where
  "disc_find s [] k = Some None"
| "disc_find s (j # js) k = do {
     key \<leftarrow> get_str (operand j);
     (if key = s then Some (Some k) else disc_find s js (Suc k))
   }"

text \<open>What is done once the keys are passed: \<open>n\<close> sub-schemas follow.\<close>

definition disc_body ::
    "('p, 'e) vm_run \<Rightarrow> ('p, 'e) vm_env \<Rightarrow> string \<Rightarrow> nat \<Rightarrow> 'p oas_instruction list
      \<Rightarrow> ('p, 'e) vm_run" where
  "disc_body run E prop_name n keys_start vm =
     (if \<not> is_jobj (vm_value vm)
      then do {
        vm \<leftarrow> disc_skip run True n vm;
        Some (add_error E vm ''discriminator: value is not an object'')
      }
      else (case yy_obj_get (ve_yy E) (vm_value vm) prop_name of
        Some (JStr s) \<Rightarrow> do {
          match_idx \<leftarrow> disc_find (cstr s) (take n keys_start) 0;
          (case match_idx of
             None \<Rightarrow> do {
               vm \<leftarrow> disc_skip run True n vm;
               Some (add_error E vm
                 (''discriminator: value '' @ [CHR 0x27] @ cstr s @ [CHR 0x27] @ '' not in mapping''))
             }
           | Some m \<Rightarrow> disc_run run n m vm)
        }
      | _ \<Rightarrow> do {
          vm \<leftarrow> disc_skip run True n vm;
          Some (add_error E vm (''discriminator: missing or non-string property ''
                 @ [CHR 0x27] @ prop_name @ [CHR 0x27]))
        }))"

definition exec_discriminator ::
    "('p, 'e) vm_run \<Rightarrow> ('p, 'e) vm_env \<Rightarrow> 'p oas_instruction \<Rightarrow> ('p, 'e) vm_run" where
  [vm_handlers]: "exec_discriminator run E i vm = do {
     prop_name \<leftarrow> get_str (operand i);
     (count, keys_start) \<leftarrow> read_nop 0 (vm_ip vm);
     ip \<leftarrow> ip_advance count keys_start;
     disc_body run E prop_name (nat count) keys_start (vm\<lparr>vm_ip := ip\<rparr>)
   }"

section \<open>The interpreter loop\<close>

text \<open>One instruction, the pointer already past it; \<open>END\<close> is handled by the loop.\<close>

definition vm_step ::
    "('p, 'e) vm_run \<Rightarrow> ('p, 'e) vm_env \<Rightarrow> 'p oas_instruction \<Rightarrow> ('p, 'e) vm_run" where
  "vm_step run E i vm =
     (case op i of
        OAS_OP_CHECK_TYPE \<Rightarrow> exec_check_type E i vm
      | OAS_OP_CHECK_MIN_LEN \<Rightarrow> exec_check_min_len E i vm
      | OAS_OP_CHECK_MAX_LEN \<Rightarrow> exec_check_max_len E i vm
      | OAS_OP_CHECK_PATTERN \<Rightarrow> exec_check_pattern E i vm
      | OAS_OP_CHECK_FORMAT \<Rightarrow> exec_check_format E i vm
      | OAS_OP_CHECK_MINIMUM \<Rightarrow> exec_check_minimum E i vm
      | OAS_OP_CHECK_MAXIMUM \<Rightarrow> exec_check_maximum E i vm
      | OAS_OP_CHECK_EX_MINIMUM \<Rightarrow> exec_check_ex_minimum E i vm
      | OAS_OP_CHECK_EX_MAXIMUM \<Rightarrow> exec_check_ex_maximum E i vm
      | OAS_OP_CHECK_MULTIPLE_OF \<Rightarrow> exec_check_multiple_of E i vm
      | OAS_OP_CHECK_REQUIRED \<Rightarrow> exec_check_required E i vm
      | OAS_OP_CHECK_MIN_ITEMS \<Rightarrow> exec_check_min_items E i vm
      | OAS_OP_CHECK_MAX_ITEMS \<Rightarrow> exec_check_max_items E i vm
      | OAS_OP_CHECK_UNIQUE \<Rightarrow> exec_check_unique E i vm
      | OAS_OP_ENTER_ITEMS \<Rightarrow> exec_enter_items run i vm
      | OAS_OP_ENTER_PREFIX_ITEM \<Rightarrow> exec_enter_prefix_item run i vm
      | OAS_OP_ENTER_PROPERTY \<Rightarrow> exec_enter_property run E i vm
      | OAS_OP_ENTER_ADDITIONAL \<Rightarrow> exec_enter_additional vm
      | OAS_OP_BRANCH_ALLOF \<Rightarrow> exec_branch_allof run i vm
      | OAS_OP_BRANCH_ANYOF \<Rightarrow> exec_branch_anyof run E i vm
      | OAS_OP_BRANCH_ONEOF \<Rightarrow> exec_branch_oneof run E i vm
      | OAS_OP_NEGATE \<Rightarrow> exec_negate run E i vm
      | OAS_OP_COND_IF \<Rightarrow> exec_cond_if run i vm
      | OAS_OP_CHECK_ENUM \<Rightarrow> exec_check_enum E i vm
      | OAS_OP_CHECK_CONST \<Rightarrow> exec_check_const E i vm
      | OAS_OP_CHECK_MIN_PROPS \<Rightarrow> exec_check_min_props E i vm
      | OAS_OP_CHECK_MAX_PROPS \<Rightarrow> exec_check_max_props E i vm
      | OAS_OP_CHECK_PROP_NAMES \<Rightarrow> exec_check_prop_names run E i vm
      | OAS_OP_CHECK_PATTERN_PROPS \<Rightarrow> exec_check_pattern_props run E i vm
      | OAS_OP_CHECK_DEP_REQUIRED \<Rightarrow> exec_check_dep_required E i vm
      | OAS_OP_CHECK_DEP_SCHEMA \<Rightarrow> exec_check_dep_schema run E i vm
      | OAS_OP_CHECK_CONTAINS \<Rightarrow> exec_check_contains run E i vm
      | OAS_OP_DISCRIMINATOR \<Rightarrow> exec_discriminator run E i vm
      | OAS_OP_CHECK_READ_ONLY \<Rightarrow> exec_check_read_only E i vm
      | OAS_OP_CHECK_WRITE_ONLY \<Rightarrow> exec_check_write_only E i vm
      | _ \<Rightarrow> Some vm)"

text \<open>
  \<open>execute\<close> with fuel: a unit is spent per instruction, and a nested call gets what is
  left. Every instruction moves the pointer forward, so the number of instructions left
  is enough (\<open>exec_fuel\<close> below), and \<open>execute\<close> gives it that much.
\<close>

primrec exec :: "nat \<Rightarrow> ('p, 'e) vm_env \<Rightarrow> ('p, 'e) vm_run" where
  "exec 0 E vm = None"
| "exec (Suc fuel) E vm =
     (case vm_ip vm of
        [] \<Rightarrow> Some vm
      | i # ip \<Rightarrow>
          if op i = OAS_OP_END then Some (vm\<lparr>vm_ip := ip\<rparr>)
          else do {
            vm \<leftarrow> vm_step (exec fuel E) E i (vm\<lparr>vm_ip := ip\<rparr>);
            exec fuel E vm
          })"

definition execute :: "('p, 'e) vm_env \<Rightarrow> ('p, 'e) vm_run" where
  "execute E vm = exec (Suc (length (vm_ip vm))) E vm"

end
