(* ===== verification/Liboas_VM_Fuel.thy ===== *)
theory Liboas_VM_Fuel
  imports Liboas_VM
begin

section \<open>Fuel\<close>

text \<open>
  Two runners that agree on every machine with at most \<open>m\<close> instructions left, and that
  only ever move the pointer forward.
\<close>

definition tame :: "('p, 'e) vm_run \<Rightarrow> ('p, 'e) vm_run \<Rightarrow> nat \<Rightarrow> bool" where
  "tame r1 r2 m \<longleftrightarrow>
     (\<forall>vm. length (vm_ip vm) \<le> m \<longrightarrow>
        r1 vm = r2 vm \<and> (\<forall>vm'. r1 vm = Some vm' \<longrightarrow> suffix (vm_ip vm') (vm_ip vm)))"

lemma tameD:
  assumes "tame r1 r2 m" and "length (vm_ip vm) \<le> m"
  shows "r1 vm = r2 vm" and "r1 vm = Some vm' \<Longrightarrow> suffix (vm_ip vm') (vm_ip vm)"
    and "r2 vm = Some vm' \<Longrightarrow> suffix (vm_ip vm') (vm_ip vm)"
  using assms unfolding tame_def by auto

lemma add_error_ip [simp]: "vm_ip (add_error E vm msg) = vm_ip vm"
  by (simp add: add_error_def)

lemma absorb_ip [simp]: "vm_ip (absorb vm sub) = vm_ip vm"
  by (simp add: absorb_def)

lemma skip_loop_suffix: "suffix (skip_loop d ip) ip"
  by (induction d ip rule: skip_loop.induct) (auto intro: suffix_ConsI)

lemma skip_to_end_suffix [simp]: "suffix (vm_ip (skip_to_end vm)) (vm_ip vm)"
  by (simp add: skip_to_end_def skip_loop_suffix)

lemma ip_advance_suffix: "ip_advance n ip = Some ip' \<Longrightarrow> suffix ip' ip"
  by (auto simp: ip_advance_def suffix_drop split: if_splits)

lemma read_nop_suffix: "read_nop d ip = Some (n, ip') \<Longrightarrow> suffix ip' ip"
  by (auto simp: read_nop_def suffix_Cons split: list.splits)

lemma items_loop_tame:
  assumes "tame r1 r2 m" and "length st \<le> m"
  shows "items_loop r1 st xs vm = items_loop r2 st xs vm"
    and "items_loop r2 st xs vm = Some vm' \<Longrightarrow> vm_ip vm' = vm_ip vm"
  using assms
  by (induction xs arbitrary: vm) (auto simp: tameD(1) [OF assms(1)] bind_eq_Some_conv)

lemma allof_loop_tame:
  assumes "tame r1 r2 m" and "length (vm_ip vm) \<le> m"
  shows "allof_loop r1 n vm = allof_loop r2 n vm \<and>
    (\<forall>vm'. allof_loop r2 n vm = Some vm' \<longrightarrow> suffix (vm_ip vm') (vm_ip vm))"
  using assms(2)
proof (induction n arbitrary: vm)
  case 0
  then show ?case by simp
next
  case (Suc n)
  note t = tameD [OF assms(1) Suc.prems]
  show ?case
  proof (cases "r2 vm")
    case None
    then show ?thesis using t(1) by simp
  next
    case (Some sub)
    have s: "suffix (vm_ip sub) (vm_ip vm)" using t(3) Some by simp
    then have "length (vm_ip sub) \<le> m" using Suc.prems suffix_length_le le_trans by blast
    then show ?thesis
      using Suc.IH [of "(absorb vm sub)\<lparr>vm_ip := vm_ip sub\<rparr>"] t(1) Some s
      by (auto intro: suffix_order.trans)
  qed
qed

lemma quiet_branches_tame:
  assumes "tame r1 r2 m" and "length (vm_ip vm) \<le> m"
  shows "quiet_branches r1 n k vm = quiet_branches r2 n k vm \<and>
    (\<forall>j vm'. quiet_branches r2 n k vm = Some (j, vm') \<longrightarrow> suffix (vm_ip vm') (vm_ip vm))"
  using assms(2)
proof (induction n arbitrary: vm k)
  case 0
  then show ?case by simp
next
  case (Suc n)
  let ?q = "vm\<lparr>vm_errors := None\<rparr>"
  have "length (vm_ip ?q) \<le> m" using Suc.prems by simp
  note t = tameD [OF assms(1) this]
  show ?case
  proof (cases "r2 ?q")
    case None
    then show ?thesis using t(1) by simp
  next
    case (Some sub)
    have s: "suffix (vm_ip sub) (vm_ip vm)" using t(3) Some by simp
    then have "length (vm_ip sub) \<le> m" using Suc.prems suffix_length_le le_trans by blast
    then show ?thesis
      using Suc.IH [of "vm\<lparr>vm_ip := vm_ip sub\<rparr>" "if vm_valid sub then Suc k else k"] t(1) Some s
      by (auto intro: suffix_order.trans split: if_splits)
  qed
qed

lemma contains_loop_tame:
  assumes "tame r1 r2 m" and "length st \<le> m"
  shows "contains_loop r1 st xs k vm = contains_loop r2 st xs k vm"
  using assms(2)
  by (induction xs arbitrary: k) (auto simp: tameD(1) [OF assms(1)] intro!: Option.bind_cong)

lemma prop_names_loop_tame:
  assumes "tame r1 r2 m" and "length st \<le> m"
  shows "prop_names_loop r1 E st ks vm = prop_names_loop r2 E st ks vm"
    and "prop_names_loop r2 E st ks vm = Some vm' \<Longrightarrow> vm_ip vm' = vm_ip vm"
  using assms(2)
  by (induction ks arbitrary: vm)
    (auto simp: tameD(1) [OF assms(1)] bind_eq_Some_conv Let_def split: option.splits if_splits)

lemma disc_skip_tame:
  assumes "tame r1 r2 m" and "length (vm_ip vm) \<le> m"
  shows "disc_skip r1 loud n vm = disc_skip r2 loud n vm \<and>
    (\<forall>vm'. disc_skip r2 loud n vm = Some vm' \<longrightarrow> suffix (vm_ip vm') (vm_ip vm))"
  using assms(2)
proof (induction n arbitrary: vm)
  case 0
  then show ?case by simp
next
  case (Suc n)
  let ?q = "if loud then vm else vm\<lparr>vm_errors := None\<rparr>"
  have "length (vm_ip ?q) \<le> m" using Suc.prems by simp
  note t = tameD [OF assms(1) this]
  show ?case
  proof (cases "r2 ?q")
    case None
    then show ?thesis using t(1) by (simp del: if_split_asm split del: if_split)
  next
    case (Some sub)
    have s: "suffix (vm_ip sub) (vm_ip vm)" using t(3) Some by (simp split: if_splits)
    then have "length (vm_ip sub) \<le> m" using Suc.prems suffix_length_le le_trans by blast
    then show ?thesis
      using Suc.IH [of "vm\<lparr>vm_ip := vm_ip sub,
          vm_errors := (if loud then vm_errors sub else vm_errors vm)\<rparr>"] t(1) Some s
      by (auto intro: suffix_order.trans split: if_splits)
  qed
qed

lemma dep_required_loop_suffix:
  "dep_required_loop E t n vm = Some vm' \<Longrightarrow> suffix (vm_ip vm') (vm_ip vm)"
  by (induction n arbitrary: vm)
    (fastforce simp: bind_eq_Some_conv Let_def split: list.splits if_splits
      intro: suffix_ConsI)+

lemma cond_part_tame:
  assumes "tame r1 r2 m" and "length (vm_ip vm) \<le> m"
  shows "exec_cond_part r1 opc b vm = exec_cond_part r2 opc b vm \<and>
    (\<forall>vm'. exec_cond_part r2 opc b vm = Some vm' \<longrightarrow> suffix (vm_ip vm') (vm_ip vm))"
proof (cases "vm_ip vm")
  case Nil
  then show ?thesis by (simp add: exec_cond_part_def)
next
  case (Cons j ip)
  let ?v = "vm\<lparr>vm_ip := ip\<rparr>"
  have "length (vm_ip ?v) \<le> m" using assms(2) Cons by simp
  from tameD(1,2) [OF assms(1) this] show ?thesis
    using Cons skip_to_end_suffix [of ?v]
    by (auto simp: exec_cond_part_def intro: suffix_ConsI)
qed

text \<open>A runner result of one instruction is the same and moves forward.\<close>

definition step_tame ::
    "('p, 'e) vm_run \<Rightarrow> ('p, 'e) vm_run \<Rightarrow> ('p, 'e) vm_state \<Rightarrow> bool" where
  "step_tame f1 f2 vm \<longleftrightarrow>
     f1 vm = f2 vm \<and> (\<forall>vm'. f2 vm = Some vm' \<longrightarrow> suffix (vm_ip vm') (vm_ip vm))"

text \<open>The checks without a sub-program leave the machine as it is or report once.\<close>

definition leaf :: "('p, 'e) vm_env \<Rightarrow> ('p, 'e) vm_run \<Rightarrow> ('p, 'e) vm_state \<Rightarrow> bool" where
  "leaf E f vm \<longleftrightarrow> f vm \<in> {None, Some vm} \<union> range (\<lambda>msg. Some (add_error E vm msg))"

lemma leafI:
  "f vm = None \<or> f vm = Some vm \<or> (\<exists>msg. f vm = Some (add_error E vm msg)) \<Longrightarrow> leaf E f vm"
  by (auto simp: leaf_def)

lemma leafE:
  assumes "leaf E f vm" and "f vm = Some vm'"
  obtains "vm' = vm" | msg where "vm' = add_error E vm msg"
  using assms by (auto simp: leaf_def)

lemma leaf_tame: "leaf E f vm \<Longrightarrow> step_tame f f vm"
  by (auto simp: step_tame_def elim: leafE)

lemma leaf_checks:
  fixes E :: "('p, 'e) vm_env" and vm :: "('p, 'e) vm_state"
  shows "leaf E (exec_check_type E i) vm"
    and "leaf E (exec_check_min_len E i) vm"
    and "leaf E (exec_check_max_len E i) vm"
    and "leaf E (exec_check_pattern E i) vm"
    and "leaf E (exec_check_format E i) vm"
    and "leaf E (exec_check_minimum E i) vm"
    and "leaf E (exec_check_maximum E i) vm"
    and "leaf E (exec_check_ex_minimum E i) vm"
    and "leaf E (exec_check_ex_maximum E i) vm"
    and "leaf E (exec_check_multiple_of E i) vm"
    and "leaf E (exec_check_required E i) vm"
    and "leaf E (exec_check_min_items E i) vm"
    and "leaf E (exec_check_max_items E i) vm"
    and "leaf E (exec_check_unique E i) vm"
    and "leaf E (exec_check_enum E i) vm"
    and "leaf E (exec_check_const E i) vm"
    and "leaf E (exec_check_min_props E i) vm"
    and "leaf E (exec_check_max_props E i) vm"
    and "leaf E (exec_check_read_only E i) vm"
    and "leaf E (exec_check_write_only E i) vm"
  by (rule leafI; auto simp: vm_handlers split: json.split option.split Option.bind_split)+

lemma skip_to_end_suffix':
  "suffix (vm_ip v) ip \<Longrightarrow> suffix (vm_ip (skip_to_end v)) ip"
  using skip_to_end_suffix suffix_order.trans by blast

lemma dep_required_tame:
  "step_tame (exec_check_dep_required E i) (exec_check_dep_required E i) vm"
  by (auto simp: step_tame_def exec_check_dep_required_def bind_eq_Some_conv
      dest!: ip_advance_suffix dep_required_loop_suffix read_nop_suffix
      intro: suffix_order.trans split: if_split_asm)

lemma enter_items_tame:
  assumes "tame r1 r2 m" and "length (vm_ip vm) \<le> m"
  shows "step_tame (exec_enter_items r1 i) (exec_enter_items r2 i) vm"
  using items_loop_tame [OF assms]
  by (cases "vm_value vm")
    (auto simp: step_tame_def exec_enter_items_def intro!: skip_to_end_suffix')

lemma enter_prefix_item_tame:
  assumes "tame r1 r2 m" and "length (vm_ip vm) \<le> m"
  shows "step_tame (exec_enter_prefix_item r1 i) (exec_enter_prefix_item r2 i) vm"
  using assms
  by (cases "vm_value vm"; cases "get_branch (operand i)")
    (auto simp: step_tame_def exec_enter_prefix_item_def tameD(1) bind_eq_Some_conv
      intro!: skip_to_end_suffix' split: if_split_asm)

lemma enter_property_tame:
  assumes "tame r1 r2 m" and "length (vm_ip vm) \<le> m"
  shows "step_tame (exec_enter_property r1 E i) (exec_enter_property r2 E i) vm"
  using assms
  by (cases "get_str (operand i)"; cases "yy_obj_get (ve_yy E) (vm_value vm) (the (get_str (operand i)))")
    (auto simp: step_tame_def exec_enter_property_def tameD(1) bind_eq_Some_conv
      intro!: skip_to_end_suffix')

lemma branch_tame:
  assumes "tame r1 r2 m" and "length (vm_ip vm) \<le> m"
  shows "step_tame (exec_branch_allof r1 i) (exec_branch_allof r2 i) vm"
    and "step_tame (exec_branch_anyof r1 E i) (exec_branch_anyof r2 E i) vm"
    and "step_tame (exec_branch_oneof r1 E i) (exec_branch_oneof r2 E i) vm"
  using allof_loop_tame [OF assms] quiet_branches_tame [OF assms]
  by (cases "get_branch (operand i)";
      auto simp: step_tame_def exec_branch_allof_def exec_branch_anyof_def exec_branch_oneof_def
        bind_eq_Some_conv split: if_split_asm)+

lemma negate_tame:
  assumes "tame r1 r2 m" and "length (vm_ip vm) \<le> m"
  shows "step_tame (exec_negate r1 E i) (exec_negate r2 E i) vm"
  using tameD [OF assms(1), of "vm\<lparr>vm_errors := None\<rparr>"] assms(2)
  by (auto simp: step_tame_def exec_negate_def Let_def bind_eq_Some_conv)

lemma cond_if_tame:
  assumes "tame r1 r2 m" and "length (vm_ip vm) \<le> m"
  shows "step_tame (exec_cond_if r1 i) (exec_cond_if r2 i) vm"
proof (cases "r2 (vm\<lparr>vm_errors := None\<rparr>)")
  case None
  then show ?thesis
    using tameD(1) [OF assms(1), of "vm\<lparr>vm_errors := None\<rparr>"] assms(2)
    by (simp add: step_tame_def exec_cond_if_def)
next
  case (Some sub)
  let ?v = "vm\<lparr>vm_ip := vm_ip sub\<rparr>"
  have eq: "r1 (vm\<lparr>vm_errors := None\<rparr>) = Some sub" and s: "suffix (vm_ip sub) (vm_ip vm)"
    using tameD [OF assms(1), of "vm\<lparr>vm_errors := None\<rparr>"] assms(2) Some by simp_all
  then have l: "length (vm_ip ?v) \<le> m" using assms(2) suffix_length_le le_trans by fastforce
  note t = cond_part_tame [OF assms(1) l, of OAS_OP_COND_THEN "vm_valid sub"]
  show ?thesis
  proof (cases "exec_cond_part r2 OAS_OP_COND_THEN (vm_valid sub) ?v")
    case None
    then show ?thesis using t eq Some by (simp add: step_tame_def exec_cond_if_def Let_def)
  next
    case (Some w)
    have w: "suffix (vm_ip w) (vm_ip vm)" using t Some s by (auto intro: suffix_order.trans)
    then have "length (vm_ip w) \<le> m" using assms(2) suffix_length_le le_trans by blast
    from cond_part_tame [OF assms(1) this, of OAS_OP_COND_ELSE "\<not> vm_valid sub"] show ?thesis
      using t eq Some w \<open>r2 (vm\<lparr>vm_errors := None\<rparr>) = Some sub\<close>
      by (auto simp: step_tame_def exec_cond_if_def Let_def intro: suffix_order.trans)
  qed
qed

lemma prop_names_tame:
  assumes "tame r1 r2 m" and "length (vm_ip vm) \<le> m"
  shows "step_tame (exec_check_prop_names r1 E i) (exec_check_prop_names r2 E i) vm"
  using prop_names_loop_tame [OF assms]
  by (cases "vm_value vm")
    (auto simp: step_tame_def exec_check_prop_names_def intro!: skip_to_end_suffix')

lemma pattern_props_tame:
  assumes "tame r1 r2 m" and "length (vm_ip vm) \<le> m"
  shows "step_tame (exec_check_pattern_props r1 E i) (exec_check_pattern_props r2 E i) vm"
  using items_loop_tame [OF assms]
  by (cases "vm_value vm"; cases "ve_regex E"; cases "get_pattern (operand i)")
    (auto simp: step_tame_def exec_check_pattern_props_def intro!: skip_to_end_suffix')

lemma dep_schema_tame:
  assumes "tame r1 r2 m" and "length (vm_ip vm) \<le> m"
  shows "step_tame (exec_check_dep_schema r1 E i) (exec_check_dep_schema r2 E i) vm"
  using tameD [OF assms]
  by (cases "get_str (operand i)")
    (auto simp: step_tame_def exec_check_dep_schema_def bind_eq_Some_conv split: if_split_asm)

lemma contains_tame:
  assumes "tame r1 r2 m" and "length (vm_ip vm) \<le> m"
  shows "step_tame (exec_check_contains r1 E i) (exec_check_contains r2 E i) vm"
proof (cases "vm_value vm")
  case (JArr xs)
  show ?thesis
  proof (cases "get_i64 (operand i)")
    case None
    then show ?thesis using JArr by (simp add: step_tame_def exec_check_contains_def)
  next
    case g: (Some lo)
    show ?thesis
    proof (cases "read_nop (- 1) (vm_ip vm)")
      case None
      then show ?thesis using JArr g by (simp add: step_tame_def exec_check_contains_def)
    next
      case (Some q)
      obtain hi ip where q: "q = (hi, ip)" by (cases q)
      have s: "suffix ip (vm_ip vm)" using Some q by (simp add: read_nop_suffix)
      then have "length ip \<le> m" using assms(2) suffix_length_le le_trans by blast
      from contains_loop_tame [OF assms(1) this]
      have c: "contains_loop r1 ip xs 0 vm = contains_loop r2 ip xs 0 vm" .
      show ?thesis
        using JArr g Some q c s
        by (cases "contains_loop r2 ip xs 0 vm")
          (simp_all add: step_tame_def exec_check_contains_def Let_def skip_to_end_suffix')
    qed
  qed
qed (simp_all add: step_tame_def exec_check_contains_def)

lemma disc_skip_report_tame:
  assumes "tame r1 r2 m" and "length (vm_ip vm) \<le> m"
  shows "step_tame (\<lambda>vm. do { vm \<leftarrow> disc_skip r1 b n vm; Some (add_error E vm msg) })
    (\<lambda>vm. do { vm \<leftarrow> disc_skip r2 b n vm; Some (add_error E vm msg) }) vm"
  using disc_skip_tame [OF assms, of b n] by (auto simp: step_tame_def bind_eq_Some_conv)

lemma disc_run_tame:
  assumes t: "tame r1 r2 m" and l: "length (vm_ip vm) \<le> m"
  shows "step_tame (disc_run r1 n k) (disc_run r2 n k) vm"
proof (cases "disc_skip r2 False k vm")
  case None
  then show ?thesis using disc_skip_tame [OF t l, of False k] by (simp add: step_tame_def disc_run_def)
next
  case (Some v)
  then have v: "disc_skip r1 False k vm = Some v" "suffix (vm_ip v) (vm_ip vm)"
    using disc_skip_tame [OF t l, of False k] by auto
  then have lv: "length (vm_ip v) \<le> m" using l suffix_length_le le_trans by blast
  show ?thesis
  proof (cases "r2 v")
    case None
    then show ?thesis using v Some tameD(1) [OF t lv] by (simp add: step_tame_def disc_run_def)
  next
    case r: (Some sub)
    let ?w = "(absorb v sub)\<lparr>vm_ip := vm_ip sub\<rparr>"
    have s: "r1 v = Some sub" "suffix (vm_ip ?w) (vm_ip vm)"
      using tameD [OF t lv] r v by (auto intro: suffix_order.trans)
    then have "length (vm_ip ?w) \<le> m" using l suffix_length_le le_trans by blast
    from disc_skip_tame [OF t this, of False "n - Suc k"] show ?thesis
      using s r v Some
      by (auto simp: step_tame_def disc_run_def intro: suffix_order.trans)
  qed
qed

lemma disc_body_tame:
  assumes t: "tame r1 r2 m" and l: "length (vm_ip vm) \<le> m"
  shows "step_tame (disc_body r1 E p n keys) (disc_body r2 E p n keys) vm"
proof -
  note report = disc_skip_report_tame [OF t l, of True n E]
  note select = disc_run_tame [OF t l, of n]
  consider (notobj) "\<not> is_jobj (vm_value vm)"
    | (str) d where "is_jobj (vm_value vm)" "yy_obj_get (ve_yy E) (vm_value vm) p = Some (JStr d)"
    | (other) "is_jobj (vm_value vm)" "\<forall>d. yy_obj_get (ve_yy E) (vm_value vm) p \<noteq> Some (JStr d)"
    by blast
  then show ?thesis
  proof cases
    case notobj
    then show ?thesis using report by (simp add: step_tame_def disc_body_def)
  next
    case str
    then show ?thesis using report select
      by (cases "disc_find (cstr d) (take n keys) 0" rule: option.exhaust [case_product option.exhaust];
          cases "the (disc_find (cstr d) (take n keys) 0)")
        (simp_all add: step_tame_def disc_body_def)
  next
    case other
    then have "disc_body r E p n keys vm = do {
        vm \<leftarrow> disc_skip r True n vm;
        Some (add_error E vm (''discriminator: missing or non-string property ''
          @ [CHR 0x27] @ p @ [CHR 0x27])) }" for r
      by (simp add: disc_body_def split: option.split json.split)
    then show ?thesis using report by (simp add: step_tame_def)
  qed
qed

lemma discriminator_tame:
  assumes t: "tame r1 r2 m" and l: "length (vm_ip vm) \<le> m"
  shows "step_tame (exec_discriminator r1 E i) (exec_discriminator r2 E i) vm"
proof (cases "get_str (operand i)")
  case None
  then show ?thesis by (simp add: step_tame_def exec_discriminator_def)
next
  case p: (Some p)
  show ?thesis
  proof (cases "read_nop 0 (vm_ip vm)")
    case None
    then show ?thesis using p by (simp add: step_tame_def exec_discriminator_def)
  next
    case (Some q)
    obtain n keys where n: "read_nop 0 (vm_ip vm) = Some (n, keys)" using Some by (cases q) simp
    show ?thesis
    proof (cases "ip_advance n keys")
      case None
      then show ?thesis using p n by (simp add: step_tame_def exec_discriminator_def)
    next
      case ip: (Some ip)
      have s: "suffix ip (vm_ip vm)"
        using ip_advance_suffix [OF ip] read_nop_suffix [OF n] by (auto intro: suffix_order.trans)
      then have "length (vm_ip (vm\<lparr>vm_ip := ip\<rparr>)) \<le> m"
        using l suffix_length_le le_trans by fastforce
      from disc_body_tame [OF t this, of E p "nat n" keys] show ?thesis
        using p n ip s by (auto simp: step_tame_def exec_discriminator_def intro: suffix_order.trans)
    qed
  qed
qed

lemma additional_tame: "step_tame exec_enter_additional exec_enter_additional vm"
  by (simp add: step_tame_def exec_enter_additional_def)

lemmas step_tames = enter_items_tame enter_prefix_item_tame branch_tame(1) cond_if_tame
lemmas reporting_step_tames = enter_property_tame branch_tame(2,3) negate_tame prop_names_tame
  pattern_props_tame dep_schema_tame contains_tame discriminator_tame

lemma vm_step_tame:
  assumes "tame r1 r2 m" and "length (vm_ip vm) \<le> m"
  shows "step_tame (vm_step r1 E i) (vm_step r2 E i) vm"
proof -
  have "step_tame Some Some vm" by (simp add: step_tame_def)
  note tames = this step_tames [OF assms, of i] reporting_step_tames [OF assms, of E i]
    leaf_checks [of E i vm, THEN leaf_tame] dep_required_tame [of E i vm] additional_tame [of vm]
  show ?thesis
    by (cases "op i"; unfold step_tame_def vm_step_def; erule ssubst; unfold oas_opcode.case;
        rule tames [unfolded step_tame_def])
qed

lemma exec_tame:
  assumes "m < n1" and "m < n2"
  shows "tame (exec n1 E) (exec n2 E) m"
  using assms
proof (induction m arbitrary: n1 n2)
  case 0
  then show ?case
    by (cases n1; cases n2) (auto simp: tame_def)
next
  case (Suc m)
  then obtain k1 k2 where k: "n1 = Suc k1" "n2 = Suc k2" "m < k1" "m < k2"
    by (metis Suc_less_eq2)
  have t: "tame (exec k1 E) (exec k2 E) m" using Suc.IH k by simp
  show ?case
    unfolding tame_def
  proof (intro allI impI)
    fix vm :: "('a, 'b) vm_state"
    assume l: "length (vm_ip vm) \<le> Suc m"
    show "exec n1 E vm = exec n2 E vm \<and>
      (\<forall>vm'. exec n1 E vm = Some vm' \<longrightarrow> suffix (vm_ip vm') (vm_ip vm))"
    proof (cases "vm_ip vm")
      case Nil
      then show ?thesis using k by simp
    next
      case (Cons i ip)
      let ?v = "vm\<lparr>vm_ip := ip\<rparr>"
      have lv: "length (vm_ip ?v) \<le> m" using l Cons by simp
      note s = vm_step_tame [OF t lv, of E i]
      show ?thesis
      proof (cases "vm_step (exec k2 E) E i ?v")
        case None
        then show ?thesis using s Cons k by (auto simp: step_tame_def suffix_Cons)
      next
        case (Some w)
        then have w: "vm_step (exec k1 E) E i ?v = Some w" "suffix (vm_ip w) ip"
          using s by (auto simp: step_tame_def)
        then have "length (vm_ip w) \<le> m" using lv suffix_length_le le_trans by fastforce
        from tameD [OF t this] show ?thesis
          using w Some Cons k by (auto simp: suffix_Cons intro: suffix_order.trans)
      qed
    qed
  qed
qed

lemma exec_fuel:
  assumes "length (vm_ip vm) < n"
  shows "exec n E vm = execute E vm"
proof -
  have "tame (exec n E) (exec (Suc (length (vm_ip vm))) E) (length (vm_ip vm))"
    using assms by (simp add: exec_tame)
  from tameD(1) [OF this le_refl] show ?thesis unfolding execute_def .
qed

lemma execute_tame: "tame (execute E) (execute E) m"
proof -
  have "tame (exec (Suc m) E) (exec (Suc m) E) m" by (simp add: exec_tame)
  then show ?thesis unfolding tame_def by (simp add: exec_fuel del: exec.simps)
qed

text \<open>The loop, with the fuel gone: a nested call is \<open>execute\<close> itself.\<close>

lemma execute_unfold:
  "execute E vm =
     (case vm_ip vm of
        [] \<Rightarrow> Some vm
      | i # ip \<Rightarrow>
          if op i = OAS_OP_END then Some (vm\<lparr>vm_ip := ip\<rparr>)
          else do {
            vm \<leftarrow> vm_step (execute E) E i (vm\<lparr>vm_ip := ip\<rparr>);
            execute E vm
          })"
proof (cases "vm_ip vm")
  case Nil
  then show ?thesis by (simp add: execute_def)
next
  case (Cons i ip)
  let ?k = "length (vm_ip vm)" and ?v = "vm\<lparr>vm_ip := ip\<rparr>"
  have t: "tame (exec ?k E) (execute E) (length ip)"
    unfolding tame_def using exec_fuel execute_tame [of E "length ip"]
    by (metis Cons length_Cons le_imp_less_Suc tameD(2))
  have s: "step_tame (vm_step (exec ?k E) E i) (vm_step (execute E) E i) ?v"
    by (rule vm_step_tame [OF t]) simp
  show ?thesis
  proof (cases "vm_step (execute E) E i ?v")
    case None
    then show ?thesis using s Cons by (simp add: step_tame_def execute_def [of E vm])
  next
    case (Some w)
    then have "length (vm_ip w) \<le> length ip" using s by (auto simp: step_tame_def suffix_length_le)
    then have "exec ?k E w = execute E w" using Cons by (intro exec_fuel) simp
    then show ?thesis using s Some Cons by (simp add: step_tame_def execute_def [of E vm])
  qed
qed

lemma execute_suffix: "execute E vm = Some vm' \<Longrightarrow> suffix (vm_ip vm') (vm_ip vm)"
  using tameD(2) [OF execute_tame le_refl] .

section \<open>Properties\<close>


definition loop_vm :: "(unit, unit) vm_state" where
  "loop_vm = \<lparr>vm_value = JArr [JNull, JBool True], vm_ip = [instr OAS_OP_ENTER_ITEMS OpZero,
      \<lparr>op = OAS_OP_CHECK_TYPE, type_mask = OAS_TYPE_STRING, operand = OpZero\<rparr>, end_instr, end_instr],
     vm_errors = None, vm_direction = OAS_DIR_NONE, vm_valid = True\<rparr>"


text \<open>
  With the fuel gone, \<open>execute\<close> satisfies the equation of the source's loop, every nested
  call being the loop itself.
\<close>

theorem vm_loop_equation:
  "execute E vm =
     (case vm_ip vm of
        [] \<Rightarrow> Some vm
      | i # ip \<Rightarrow>
          if op i = OAS_OP_END then Some (vm\<lparr>vm_ip := ip\<rparr>)
          else do {
            vm \<leftarrow> vm_step (execute E) E i (vm\<lparr>vm_ip := ip\<rparr>);
            execute E vm
          })"
  by (rule execute_unfold)

end
