(* ===== verification/Liboas_Chunks.thy ===== *)
theory Liboas_Chunks
  imports Liboas_VM_Fuel
begin

text \<open>
  Programs by pieces: what a run of instructions does to the machine when it is followed
  by any other code, and how the skip loop passes over it. Every shape of code the compiler
  emits has a rule here that gives its meaning from the meaning of its parts.
\<close>

section \<open>The meaning of a piece of code\<close>

text \<open>A predicate on the value, under a direction of validation.\<close>

type_synonym check = "oas_validation_direction \<Rightarrow> json \<Rightarrow> bool"

text \<open>The machine went on to \<open>rest\<close>, its verdict and-ed with \<open>b\<close>.\<close>

definition moved ::
    "('p, 'e) vm_state \<Rightarrow> ('p, 'e) vm_state \<Rightarrow> 'p oas_instruction list \<Rightarrow> bool \<Rightarrow> bool" where
  "moved vm vm' rest b \<longleftrightarrow>
     vm_ip vm' = rest \<and> vm_value vm' = vm_value vm \<and> vm_direction vm' = vm_direction vm \<and>
     vm_valid vm' = (vm_valid vm \<and> b)"

text \<open>
  Code that follows an \<open>if\<close> must not begin with a \<open>then\<close> or an \<open>else\<close> of its own.
\<close>

definition clean :: "'p oas_instruction list \<Rightarrow> bool" where
  "clean c \<longleftrightarrow>
     (case c of [] \<Rightarrow> True | i # _ \<Rightarrow> op i \<noteq> OAS_OP_COND_THEN \<and> op i \<noteq> OAS_OP_COND_ELSE)"

definition realises :: "('p, 'e) vm_env \<Rightarrow> 'p oas_instruction list \<Rightarrow> check \<Rightarrow> bool" where
  "realises E c P \<longleftrightarrow>
     (\<forall>rest vm. clean rest \<longrightarrow> vm_ip vm = c @ rest \<longrightarrow>
        (\<exists>vm'. execute E vm = execute E vm' \<and>
           moved vm vm' rest (P (vm_direction vm) (vm_value vm))))"

text \<open>The skip loop leaves the piece at the depth it entered it.\<close>

definition balanced :: "'p oas_instruction list \<Rightarrow> bool" where
  "balanced c \<longleftrightarrow> (\<forall>d rest. skip_loop (Suc d) (c @ rest) = skip_loop (Suc d) rest)"

lemma clean_simps [simp]:
  "clean []"
  "clean (i # c) \<longleftrightarrow> op i \<noteq> OAS_OP_COND_THEN \<and> op i \<noteq> OAS_OP_COND_ELSE"
  by (simp_all add: clean_def)

lemma clean_append [simp]: "clean c \<Longrightarrow> clean rest \<Longrightarrow> clean (c @ rest)"
  by (cases c) simp_all

lemma movedI [intro]:
  "vm_ip vm' = rest \<Longrightarrow> vm_value vm' = vm_value vm \<Longrightarrow> vm_direction vm' = vm_direction vm \<Longrightarrow>
     vm_valid vm' = (vm_valid vm \<and> b) \<Longrightarrow> moved vm vm' rest b"
  by (simp add: moved_def)

lemma moved_trans:
  assumes "moved vm vm' r b" and "moved vm' vm'' r' b'" and "c \<longleftrightarrow> b \<and> b'"
  shows "moved vm vm'' r' c"
  using assms by (auto simp: moved_def)

lemma realisesD:
  assumes "realises E c P" and "clean rest" and "vm_ip vm = c @ rest"
  obtains vm' where "execute E vm = execute E vm'"
    and "moved vm vm' rest (P (vm_direction vm) (vm_value vm))"
  using assms unfolding realises_def by blast

lemma realises_Nil: "realises E [] (\<lambda>d v. True)"
  by (auto simp: realises_def)

lemma realises_append:
  assumes "realises E c P" and "realises E c' P'" and "clean c'"
  shows "realises E (c @ c') (\<lambda>d v. P d v \<and> P' d v)"
  unfolding realises_def
proof (intro allI impI)
  fix rest and vm :: "('a, 'b) vm_state"
  assume r: "clean rest" and ip: "vm_ip vm = (c @ c') @ rest"
  obtain w where w: "execute E vm = execute E w"
    "moved vm w (c' @ rest) (P (vm_direction vm) (vm_value vm))"
    using realisesD [OF assms(1), of "c' @ rest" vm] assms(3) r ip by auto
  obtain u where u: "execute E w = execute E u"
    "moved w u rest (P' (vm_direction w) (vm_value w))"
    using realisesD [OF assms(2) r, of w] w by (auto simp: moved_def)
  show "\<exists>vm'. execute E vm = execute E vm' \<and>
      moved vm vm' rest (P (vm_direction vm) (vm_value vm) \<and> P' (vm_direction vm) (vm_value vm))"
    using w u by (intro exI [of _ u]) (auto simp: moved_def)
qed

text \<open>A piece with its \<open>END\<close> is a run of its own.\<close>

lemma realises_run:
  assumes "realises E c P" and "op e = OAS_OP_END" and "vm_ip vm = c @ e # rest"
  obtains vm' where "execute E vm = Some vm'"
    and "moved vm vm' rest (P (vm_direction vm) (vm_value vm))"
proof -
  obtain w where w: "execute E vm = execute E w"
    "moved vm w (e # rest) (P (vm_direction vm) (vm_value vm))"
    using realisesD [OF assms(1) _ assms(3)] assms(2) by auto
  have "execute E w = Some (w\<lparr>vm_ip := rest\<rparr>)"
    using w(2) assms(2) by (subst execute_unfold) (simp add: moved_def)
  then show thesis using that w by (simp add: moved_def)
qed

text \<open>A piece that begins with an instruction, from what its handler does.\<close>

lemma realises_instr:
  fixes E :: "('p, 'e) vm_env"
  assumes "op i \<noteq> OAS_OP_END"
    and "\<And>rest (vm :: ('p, 'e) vm_state). clean rest \<Longrightarrow> vm_ip vm = c @ rest \<Longrightarrow>
      \<exists>vm'. vm_step (execute E) E i vm = Some vm' \<and>
        moved vm vm' rest (P (vm_direction vm) (vm_value vm))"
  shows "realises E (i # c) P"
  unfolding realises_def
proof (intro allI impI)
  fix rest and vm :: "('p, 'e) vm_state"
  assume r: "clean rest" and ip: "vm_ip vm = (i # c) @ rest"
  let ?v = "vm\<lparr>vm_ip := c @ rest\<rparr>"
  obtain w where w: "vm_step (execute E) E i ?v = Some w"
    "moved ?v w rest (P (vm_direction ?v) (vm_value ?v))"
    using assms(2) [OF r, of ?v] by auto
  then have "execute E vm = execute E w"
    using ip assms(1) by (subst execute_unfold) simp
  then show "\<exists>vm'. execute E vm = execute E vm' \<and>
      moved vm vm' rest (P (vm_direction vm) (vm_value vm))"
    using w(2) by (auto simp: moved_def)
qed

section \<open>Skipping\<close>

lemma balanced_Nil [simp]: "balanced []"
  by (simp add: balanced_def)

lemma balanced_append [intro]: "balanced c \<Longrightarrow> balanced c' \<Longrightarrow> balanced (c @ c')"
  by (simp add: balanced_def)

lemma balanced_Cons:
  "op i \<noteq> OAS_OP_END \<Longrightarrow> \<not> is_nesting_op (op i) \<Longrightarrow> balanced c \<Longrightarrow> balanced (i # c)"
  by (simp add: balanced_def)

lemma balanced_nested:
  "is_nesting_op (op i) \<Longrightarrow> op e = OAS_OP_END \<Longrightarrow> balanced c \<Longrightarrow> balanced (i # c @ [e])"
  by (cases "op i = OAS_OP_END") (simp_all add: balanced_def)

lemma balanced_concat: "(\<And>c. c \<in> set cs \<Longrightarrow> balanced c) \<Longrightarrow> balanced (concat cs)"
  by (induction cs) auto

lemma skip_balanced:
  "balanced c \<Longrightarrow> op e = OAS_OP_END \<Longrightarrow> vm_ip vm = c @ e # rest \<Longrightarrow>
     skip_to_end vm = vm\<lparr>vm_ip := rest\<rparr>"
  by (simp add: balanced_def skip_to_end_def)

section \<open>Checks\<close>

text \<open>
  An instruction without a sub-program: a handler that keeps or reports.
\<close>

lemma realises_leaf:
  fixes E :: "('p, 'e) vm_env"
  assumes "op i \<noteq> OAS_OP_END"
    and "\<And>vm :: ('p, 'e) vm_state. \<exists>msg.
      vm_step (execute E) E i vm =
        Some (if P (vm_direction vm) (vm_value vm) then vm else add_error E vm msg)"
  shows "realises E [i] P"
proof (rule realises_instr [OF assms(1)])
  fix rest and vm :: "('p, 'e) vm_state"
  assume "vm_ip vm = [] @ rest"
  moreover obtain msg where "vm_step (execute E) E i vm =
      Some (if P (vm_direction vm) (vm_value vm) then vm else add_error E vm msg)"
    using assms(2) by blast
  ultimately show "\<exists>vm'. vm_step (execute E) E i vm = Some vm' \<and>
      moved vm vm' rest (P (vm_direction vm) (vm_value vm))"
    by (auto simp: moved_def add_error_def)
qed

section \<open>Sub-programs that are skipped afterwards\<close>

lemma items_loop_realised:
  assumes c: "realises E c P" and e: "op e = OAS_OP_END"
  shows "\<exists>vm'. items_loop (execute E) (c @ e # rest) xs vm = Some vm' \<and>
    moved vm vm' (vm_ip vm) (list_all (P (vm_direction vm)) xs)"
proof (induction xs arbitrary: vm)
  case Nil
  show ?case by auto
next
  case (Cons x xs)
  let ?u = "vm\<lparr>vm_value := x, vm_ip := c @ e # rest\<rparr>"
  obtain sub where sub: "execute E ?u = Some sub"
    "moved ?u sub rest (P (vm_direction ?u) (vm_value ?u))"
    using realises_run [OF c e, of ?u rest] by auto
  show ?case
    using Cons.IH [of "absorb vm sub"] sub by (auto simp: absorb_def moved_def)
qed

lemma realises_items:
  assumes "op i = OAS_OP_ENTER_ITEMS" and "op e = OAS_OP_END"
    and "realises E c P" and "balanced c"
  shows "realises E (i # c @ [e]) (\<lambda>d v. case v of JArr xs \<Rightarrow> list_all (P d) xs | _ \<Rightarrow> True)"
proof (rule realises_instr)
  fix rest and vm :: "('a, 'b) vm_state"
  assume ip: "vm_ip vm = (c @ [e]) @ rest"
  then have sk: "skip_to_end w = w\<lparr>vm_ip := rest\<rparr>" if "vm_ip w = vm_ip vm" for w :: "('a, 'b) vm_state"
    using skip_balanced [OF assms(4,2)] that by simp
  show "\<exists>vm'. vm_step (execute E) E i vm = Some vm' \<and> moved vm vm' rest
      (case vm_value vm of JArr xs \<Rightarrow> list_all (P (vm_direction vm)) xs | _ \<Rightarrow> True)"
  proof (cases "\<exists>xs. vm_value vm = JArr xs")
    case True
    then obtain xs where xs: "vm_value vm = JArr xs" ..
    then show ?thesis
      using items_loop_realised [OF assms(3,2), of rest xs vm] ip sk
      by (auto simp: vm_step_def exec_enter_items_def assms(1) moved_def)
  next
    case False
    then show ?thesis using sk [of vm] assms(1)
      by (auto simp: vm_step_def exec_enter_items_def moved_def split: json.split)
  qed
qed (simp add: assms(1))

lemma realises_pattern_props:
  assumes "op i = OAS_OP_CHECK_PATTERN_PROPS" and "op e = OAS_OP_END" and "operand i = OpPattern p"
    and "realises E c P" and "balanced c" and "ve_regex E = Some match"
  shows "realises E (i # c @ [e]) (\<lambda>d v. case v of
    JObj kvs \<Rightarrow> list_all (P d) (map snd (filter (\<lambda>(name, _). match p name) kvs)) | _ \<Rightarrow> True)"
proof (rule realises_instr)
  fix rest and vm :: "('a, 'b) vm_state"
  assume ip: "vm_ip vm = (c @ [e]) @ rest"
  then have sk: "skip_to_end w = w\<lparr>vm_ip := rest\<rparr>" if "vm_ip w = vm_ip vm" for w :: "('a, 'b) vm_state"
    using skip_balanced [OF assms(5,2)] that by simp
  show "\<exists>vm'. vm_step (execute E) E i vm = Some vm' \<and> moved vm vm' rest
      (case vm_value vm of JObj kvs \<Rightarrow>
         list_all (P (vm_direction vm)) (map snd (filter (\<lambda>(name, _). match p name) kvs)) | _ \<Rightarrow> True)"
  proof (cases "\<exists>kvs. vm_value vm = JObj kvs")
    case True
    then obtain kvs where kvs: "vm_value vm = JObj kvs" ..
    then show ?thesis
      using items_loop_realised [OF assms(4,2), of rest
          "map snd (filter (\<lambda>(name, _). match p name) kvs)" vm] ip sk assms(3,6)
      by (auto simp: vm_step_def exec_check_pattern_props_def assms(1) moved_def)
  next
    case False
    then show ?thesis using sk [of vm] assms(1)
      by (auto simp: vm_step_def exec_check_pattern_props_def moved_def split: json.split)
  qed
qed (simp add: assms(1))

text \<open>The sub-programs that run on one value, when there is one.\<close>

lemma sub_run_skipped:
  assumes c: "realises E c P" "balanced c" and e: "op e = OAS_OP_END"
    and ip: "vm_ip vm = (c @ [e]) @ rest"
  shows "\<exists>vm'. do { sub \<leftarrow> execute E (vm\<lparr>vm_value := x\<rparr>); Some (skip_to_end (absorb vm sub)) } = Some vm' \<and>
    moved vm vm' rest (P (vm_direction vm) x)"
proof -
  let ?u = "vm\<lparr>vm_value := x\<rparr>"
  obtain sub where sub: "execute E ?u = Some sub"
    "moved ?u sub rest (P (vm_direction ?u) (vm_value ?u))"
    using realises_run [OF c(1) e, of ?u rest] ip by auto
  have "skip_to_end (absorb vm sub) = (absorb vm sub)\<lparr>vm_ip := rest\<rparr>"
    using skip_balanced [OF c(2) e, of "absorb vm sub" rest] ip by simp
  then show ?thesis using sub by (auto simp: moved_def absorb_def)
qed

lemma realises_prefix_item:
  assumes "op i = OAS_OP_ENTER_PREFIX_ITEM" and "op e = OAS_OP_END" and "operand i = OpBranch n idx"
    and "realises E c P" and "balanced c"
  shows "realises E (i # c @ [e]) (\<lambda>d v. case v of
    JArr xs \<Rightarrow> unat idx < length xs \<longrightarrow> P d (xs ! unat idx) | _ \<Rightarrow> True)"
proof (rule realises_instr)
  fix rest and vm :: "('a, 'b) vm_state"
  assume ip: "vm_ip vm = (c @ [e]) @ rest"
  have sk: "moved vm (skip_to_end vm) rest True"
    using skip_balanced [OF assms(5,2), of vm rest] ip by (auto simp: moved_def)
  then show "\<exists>vm'. vm_step (execute E) E i vm = Some vm' \<and> moved vm vm' rest
      (case vm_value vm of JArr xs \<Rightarrow>
         unat idx < length xs \<longrightarrow> P (vm_direction vm) (xs ! unat idx) | _ \<Rightarrow> True)"
    using sub_run_skipped [OF assms(4,5,2) ip] assms(1,3)
    by (auto simp: vm_step_def exec_enter_prefix_item_def split: json.split)
qed (simp add: assms(1))

lemma realises_property:
  assumes "op i = OAS_OP_ENTER_PROPERTY" and "op e = OAS_OP_END" and "operand i = OpStr name"
    and "realises E c P" and "balanced c"
  shows "realises E (i # c @ [e]) (\<lambda>d v. is_jobj v \<longrightarrow>
    (case yy_obj_get (ve_yy E) v name of Some x \<Rightarrow> P d x | None \<Rightarrow> True))"
proof (rule realises_instr)
  fix rest and vm :: "('a, 'b) vm_state"
  assume ip: "vm_ip vm = (c @ [e]) @ rest"
  have sk: "moved vm (skip_to_end vm) rest True"
    using skip_balanced [OF assms(5,2), of vm rest] ip by (auto simp: moved_def)
  then show "\<exists>vm'. vm_step (execute E) E i vm = Some vm' \<and> moved vm vm' rest
      (is_jobj (vm_value vm) \<longrightarrow> (case yy_obj_get (ve_yy E) (vm_value vm) name of
         Some x \<Rightarrow> P (vm_direction vm) x | None \<Rightarrow> True))"
    using sub_run_skipped [OF assms(4,5,2) ip] assms(1,3)
    by (cases "is_jobj (vm_value vm)"; cases "yy_obj_get (ve_yy E) (vm_value vm) name")
      (auto simp: vm_step_def exec_enter_property_def)
qed (simp add: assms(1))

text \<open>The name of a property as a JSON value, \<open>None\<close> where it is passed over.\<close>

definition reread :: "yyjson \<Rightarrow> string \<Rightarrow> json option" where
  "reread yy key = Option.bind (yy_write_str yy (cstr key)) (yy_read yy)"

lemma prop_names_loop_realised:
  assumes c: "realises E c P" and e: "op e = OAS_OP_END"
  shows "\<exists>vm'. prop_names_loop (execute E) E (c @ e # rest) ks vm = Some vm' \<and>
    moved vm vm' (vm_ip vm)
      (list_all (\<lambda>k. case reread (ve_yy E) k of Some x \<Rightarrow> P (vm_direction vm) x | None \<Rightarrow> True) ks)"
proof (induction ks arbitrary: vm)
  case Nil
  show ?case by auto
next
  case (Cons k ks)
  show ?case
  proof (cases "reread (ve_yy E) k")
    case None
    then show ?thesis using Cons.IH [of vm] by (simp add: reread_def)
  next
    case (Some x)
    let ?u = "vm\<lparr>vm_value := x, vm_ip := c @ e # rest\<rparr>"
    obtain sub where sub: "execute E ?u = Some sub"
      "moved ?u sub rest (P (vm_direction ?u) (vm_value ?u))"
      using realises_run [OF c e, of ?u rest] by auto
    let ?v = "vm\<lparr>vm_errors := vm_errors sub\<rparr>"
    let ?m = "''propertyNames: name '' @ [CHR 0x27] @ cstr k @ [CHR 0x27] @ '' failed validation''"
    let ?w = "if vm_valid sub then ?v else add_error E ?v ?m"
    let ?Q = "\<lambda>k. case reread (ve_yy E) k of Some x \<Rightarrow> P (vm_direction vm) x | None \<Rightarrow> True"
    have w: "moved vm ?w (vm_ip vm) (P (vm_direction vm) x)"
      using sub(2) by (auto simp: moved_def add_error_def)
    have step: "prop_names_loop (execute E) E (c @ e # rest) (k # ks) vm =
        prop_names_loop (execute E) E (c @ e # rest) ks ?w"
      using Some sub(1) by (simp add: reread_def Let_def)
    have dir: "vm_direction ?w = vm_direction vm" "vm_ip ?w = vm_ip vm"
      using w by (auto simp: moved_def)
    obtain vm' where vm': "prop_names_loop (execute E) E (c @ e # rest) ks ?w = Some vm'"
      and m: "moved ?w vm' (vm_ip vm) (list_all ?Q ks)"
      using Cons.IH [of ?w] unfolding dir by blast
    have "moved vm vm' (vm_ip vm) (list_all ?Q (k # ks))"
      by (rule moved_trans [OF w m]) (simp add: Some)
    then show ?thesis using step vm' by metis
  qed
qed

lemma realises_prop_names:
  assumes "op i = OAS_OP_CHECK_PROP_NAMES" and "op e = OAS_OP_END"
    and "realises E c P" and "balanced c"
  shows "realises E (i # c @ [e]) (\<lambda>d v. case v of
    JObj kvs \<Rightarrow> list_all (\<lambda>k. case reread (ve_yy E) k of Some x \<Rightarrow> P d x | None \<Rightarrow> True) (map fst kvs)
    | _ \<Rightarrow> True)"
proof (rule realises_instr)
  fix rest and vm :: "('a, 'b) vm_state"
  assume ip: "vm_ip vm = (c @ [e]) @ rest"
  then have sk: "skip_to_end w = w\<lparr>vm_ip := rest\<rparr>" if "vm_ip w = vm_ip vm" for w :: "('a, 'b) vm_state"
    using skip_balanced [OF assms(4,2)] that by simp
  show "\<exists>vm'. vm_step (execute E) E i vm = Some vm' \<and> moved vm vm' rest
      (case vm_value vm of JObj kvs \<Rightarrow> list_all (\<lambda>k. case reread (ve_yy E) k of
         Some x \<Rightarrow> P (vm_direction vm) x | None \<Rightarrow> True) (map fst kvs) | _ \<Rightarrow> True)"
  proof (cases "\<exists>kvs. vm_value vm = JObj kvs")
    case True
    then obtain kvs where kvs: "vm_value vm = JObj kvs" ..
    obtain w where "prop_names_loop (execute E) E (c @ e # rest) (map fst kvs) vm = Some w"
      "moved vm w (vm_ip vm) (list_all (\<lambda>k. case reread (ve_yy E) k of
         Some x \<Rightarrow> P (vm_direction vm) x | None \<Rightarrow> True) (map fst kvs))"
      using prop_names_loop_realised [OF assms(3,2)] by blast
    then show ?thesis using kvs ip sk [of w]
      by (auto simp: vm_step_def exec_check_prop_names_def assms(1) moved_def)
  next
    case False
    then show ?thesis using sk [of vm] assms(1)
      by (auto simp: vm_step_def exec_check_prop_names_def moved_def split: json.split)
  qed
qed (simp add: assms(1))

lemma realises_dep_schema:
  assumes "op i = OAS_OP_CHECK_DEP_SCHEMA" and "op e = OAS_OP_END" and "operand i = OpStr name"
    and "realises E c P" and "balanced c"
  shows "realises E (i # c @ [e]) (\<lambda>d v. is_jobj v \<longrightarrow> yy_obj_get (ve_yy E) v name \<noteq> None \<longrightarrow> P d v)"
proof (rule realises_instr)
  fix rest and vm :: "('a, 'b) vm_state"
  assume ip: "vm_ip vm = (c @ [e]) @ rest"
  have sk: "moved vm (skip_to_end vm) rest True"
    using skip_balanced [OF assms(5,2), of vm rest] ip by (auto simp: moved_def)
  obtain sub where "execute E vm = Some sub" "moved vm sub rest (P (vm_direction vm) (vm_value vm))"
    using realises_run [OF assms(4,2), of vm rest] ip by auto
  then show "\<exists>vm'. vm_step (execute E) E i vm = Some vm' \<and> moved vm vm' rest (is_jobj (vm_value vm) \<longrightarrow>
      yy_obj_get (ve_yy E) (vm_value vm) name \<noteq> None \<longrightarrow> P (vm_direction vm) (vm_value vm))"
    using sk assms(1,3)
    by (cases "is_jobj (vm_value vm) \<and> yy_obj_get (ve_yy E) (vm_value vm) name \<noteq> None")
      (auto simp: vm_step_def exec_check_dep_schema_def moved_def absorb_def)
qed (simp add: assms(1))

text \<open>The names after a \<open>dependentRequired\<close> trigger.\<close>

definition str_nop :: "'p oas_instruction \<Rightarrow> string \<Rightarrow> bool" where
  "str_nop i s \<longleftrightarrow> op i = OAS_OP_NOP \<and> operand i = OpStr s"

lemma dep_required_loop_realised:
  assumes "list_all2 str_nop js names" and "vm_ip vm = js @ rest"
  shows "\<exists>vm'. dep_required_loop E t (length names) vm = Some vm' \<and>
    moved vm vm' rest (list_all (\<lambda>n. yy_obj_get (ve_yy E) (vm_value vm) n \<noteq> None) names)"
  using assms
proof (induction js names arbitrary: vm)
  case Nil
  then show ?case by auto
next
  case (Cons j js n names)
  let ?v = "vm\<lparr>vm_ip := js @ rest\<rparr>"
  let ?m = "''dependentRequired: '' @ [CHR 0x27] @ t @ [CHR 0x27]
    @ '' requires '' @ [CHR 0x27] @ n @ [CHR 0x27]"
  let ?w = "if yy_obj_get (ve_yy E) (vm_value vm) n = None then add_error E ?v ?m else ?v"
  have w: "moved vm ?w (js @ rest) (yy_obj_get (ve_yy E) (vm_value vm) n \<noteq> None)"
    by (auto simp: moved_def add_error_def)
  have "dep_required_loop E t (length (n # names)) vm = dep_required_loop E t (length names) ?w"
    using Cons.hyps(1) Cons.prems by (simp add: str_nop_def Let_def)
  then show ?case
    using Cons.IH [of ?w] w by (auto simp: moved_def)
qed

lemma balanced_str_nops: "list_all2 str_nop js names \<Longrightarrow> balanced js"
  by (induction js names rule: list_all2_induct) (auto simp: str_nop_def intro: balanced_Cons)

lemma ip_advance_append: "length js = n \<Longrightarrow> ip_advance (int n) (js @ rest) = Some rest"
  by (simp add: ip_advance_def)

lemma realises_dep_required:
  assumes "op i = OAS_OP_CHECK_DEP_REQUIRED" and "operand i = OpStr trigger"
    and "operand n = OpI64 (int (length names))" and "list_all2 str_nop js names"
  shows "realises E (i # n # js) (\<lambda>d v. is_jobj v \<longrightarrow> yy_obj_get (ve_yy E) v trigger \<noteq> None \<longrightarrow>
    list_all (\<lambda>k. yy_obj_get (ve_yy E) v k \<noteq> None) names)"
proof (rule realises_instr)
  fix rest and vm :: "('a, 'b) vm_state"
  assume ip: "vm_ip vm = (n # js) @ rest"
  have l: "length js = length names" using assms(4) by (rule list_all2_lengthD)
  obtain w where "dep_required_loop E trigger (length names) (vm\<lparr>vm_ip := js @ rest\<rparr>) = Some w"
    "moved vm w rest (list_all (\<lambda>n. yy_obj_get (ve_yy E) (vm_value vm) n \<noteq> None) names)"
    using dep_required_loop_realised [OF assms(4), of "vm\<lparr>vm_ip := js @ rest\<rparr>" rest E trigger]
    by (auto simp: moved_def)
  then show "\<exists>vm'. vm_step (execute E) E i vm = Some vm' \<and> moved vm vm' rest (is_jobj (vm_value vm) \<longrightarrow>
      yy_obj_get (ve_yy E) (vm_value vm) trigger \<noteq> None \<longrightarrow>
      list_all (\<lambda>k. yy_obj_get (ve_yy E) (vm_value vm) k \<noteq> None) names)"
    using assms(1-3) ip ip_advance_append [OF l, of rest]
    by (cases "is_jobj (vm_value vm) \<and> yy_obj_get (ve_yy E) (vm_value vm) trigger \<noteq> None")
      (auto simp: vm_step_def exec_check_dep_required_def read_nop_def moved_def)
qed (simp add: assms(1))

text \<open>Counting matches.\<close>

lemma contains_loop_realised:
  assumes c: "realises E c P" and e: "op e = OAS_OP_END"
  shows "contains_loop (execute E) (c @ e # rest) xs k vm =
    Some (k + (if vm_valid vm then length (filter (P (vm_direction vm)) xs) else 0))"
proof (induction xs arbitrary: k)
  case Nil
  show ?case by simp
next
  case (Cons x xs)
  let ?u = "vm\<lparr>vm_value := x, vm_ip := c @ e # rest, vm_errors := None\<rparr>"
  obtain sub where sub: "execute E ?u = Some sub"
    "moved ?u sub rest (P (vm_direction ?u) (vm_value ?u))"
    using realises_run [OF c e, of ?u rest] by auto
  then show ?case using Cons.IH by (simp add: moved_def)
qed

lemma realises_contains:
  assumes "op i = OAS_OP_CHECK_CONTAINS" and "op e = OAS_OP_END" and "op n = OAS_OP_NOP"
    and "operand i = OpI64 lo" and "operand n = OpI64 hi"
    and "realises E c P" and "balanced c"
  shows "realises E (i # n # c @ [e]) (\<lambda>d v. case v of
    JArr xs \<Rightarrow> (let m = int (length (filter (P d) xs)) in lo \<le> m \<and> (0 \<le> hi \<longrightarrow> m \<le> hi))
    | _ \<Rightarrow> True)"
proof (rule realises_instr)
  fix rest and vm :: "('a, 'b) vm_state"
  assume ip: "vm_ip vm = (n # c @ [e]) @ rest"
  have sk: "skip_to_end w = w\<lparr>vm_ip := rest\<rparr>" if "vm_ip w = c @ e # rest" for w :: "('a, 'b) vm_state"
    using that by (rule skip_balanced [OF assms(7,2)])
  have "balanced (n # c)" using assms(3,7) by (intro balanced_Cons) simp_all
  then have sk': "skip_to_end vm = vm\<lparr>vm_ip := rest\<rparr>"
    using skip_balanced [OF _ assms(2), of "n # c" vm rest] ip by simp
  show "\<exists>vm'. vm_step (execute E) E i vm = Some vm' \<and> moved vm vm' rest
      (case vm_value vm of JArr xs \<Rightarrow> (let m = int (length (filter (P (vm_direction vm)) xs))
         in lo \<le> m \<and> (0 \<le> hi \<longrightarrow> m \<le> hi)) | _ \<Rightarrow> True)"
  proof (cases "\<exists>xs. vm_value vm = JArr xs")
    case True
    then obtain xs where xs: "vm_value vm = JArr xs" ..
    let ?m = "if vm_valid vm then length (filter (P (vm_direction vm)) xs) else 0"
    obtain m1 m2 where "vm_step (execute E) E i vm = Some (skip_to_end
        (let v = vm\<lparr>vm_ip := c @ e # rest\<rparr>; w = if int ?m < lo then add_error E v m1 else v
         in if 0 \<le> hi \<and> hi < int ?m then add_error E w m2 else w))"
      using xs ip assms(1,4,5) contains_loop_realised [OF assms(6,2), of rest xs 0 vm]
      by (auto simp: vm_step_def exec_check_contains_def read_nop_def Let_def)
    then show ?thesis using xs
      by (auto simp: sk Let_def moved_def add_error_def)
  next
    case False
    then show ?thesis using sk' assms(1)
      by (auto simp: vm_step_def exec_check_contains_def moved_def split: json.split)
  qed
qed (simp add: assms(1))

section \<open>Branches\<close>

text \<open>A sub-program with its \<open>END\<close>, run as a machine of its own.\<close>

definition branch :: "('p, 'e) vm_env \<Rightarrow> 'p oas_instruction list \<Rightarrow> check \<Rightarrow> bool" where
  "branch E b P \<longleftrightarrow> (\<exists>c e. b = c @ [e] \<and> op e = OAS_OP_END \<and> realises E c P)"

lemma branch_run:
  assumes "branch E b P" and "vm_ip vm = b @ rest"
  obtains vm' where "execute E vm = Some vm'"
    and "moved vm vm' rest (P (vm_direction vm) (vm_value vm))"
proof -
  obtain c e where "b = c @ [e]" "op e = OAS_OP_END" "realises E c P"
    using assms(1) by (auto simp: branch_def)
  then show thesis using realises_run [of E c P e vm rest] assms(2) that by auto
qed

text \<open>Which branches a value passes.\<close>

definition passed :: "check list \<Rightarrow> oas_validation_direction \<Rightarrow> json \<Rightarrow> nat" where
  "passed Ps d v = length (filter (\<lambda>P. P d v) Ps)"

lemma allof_loop_realised:
  assumes "list_all2 (branch E) bs Ps" and "vm_ip vm = concat bs @ rest"
  shows "\<exists>vm'. allof_loop (execute E) (length bs) vm = Some vm' \<and>
    moved vm vm' rest (list_all (\<lambda>P. P (vm_direction vm) (vm_value vm)) Ps)"
  using assms
proof (induction bs Ps arbitrary: vm)
  case Nil
  then show ?case by auto
next
  case (Cons b bs P Ps)
  obtain sub where sub: "execute E vm = Some sub"
    "moved vm sub (concat bs @ rest) (P (vm_direction vm) (vm_value vm))"
    using branch_run [OF Cons.hyps(1), of vm "concat bs @ rest"] Cons.prems by auto
  let ?w = "(absorb vm sub)\<lparr>vm_ip := vm_ip sub\<rparr>"
  have "moved vm ?w (concat bs @ rest) (P (vm_direction vm) (vm_value vm))"
    using sub(2) by (auto simp: moved_def absorb_def)
  then show ?case
    using Cons.IH [of ?w] sub(1) by (auto simp: moved_def)
qed

lemma quiet_branches_realised:
  assumes "list_all2 (branch E) bs Ps" and "vm_ip vm = concat bs @ rest"
  shows "\<exists>vm'. quiet_branches (execute E) (length bs) k vm =
      Some (k + (if vm_valid vm then passed Ps (vm_direction vm) (vm_value vm) else 0), vm') \<and>
    moved vm vm' rest True"
  using assms
proof (induction bs Ps arbitrary: vm k)
  case Nil
  then show ?case by (auto simp: passed_def)
next
  case (Cons b bs P Ps)
  let ?q = "vm\<lparr>vm_errors := None\<rparr>"
  obtain sub where sub: "execute E ?q = Some sub"
    "moved ?q sub (concat bs @ rest) (P (vm_direction ?q) (vm_value ?q))"
    using branch_run [OF Cons.hyps(1), of ?q "concat bs @ rest"] Cons.prems by auto
  let ?w = "vm\<lparr>vm_ip := vm_ip sub\<rparr>"
  have "vm_ip ?w = concat bs @ rest" using sub(2) by (simp add: moved_def)
  from Cons.IH [OF this, of "if vm_valid sub then Suc k else k"] show ?case
    using sub by (auto simp: moved_def passed_def)
qed

lemma branch_count: "n < 65536 \<Longrightarrow> unat (of_nat n :: u16) = n"
  unfolding unsigned_of_nat of_nat_id by (rule take_bit_nat_eq_self) simp

lemma realises_allof:
  assumes "op i = OAS_OP_BRANCH_ALLOF" and "operand i = OpBranch (of_nat (length bs)) k"
    and "length bs < 65536" and "list_all2 (branch E) bs Ps"
  shows "realises E (i # concat bs) (\<lambda>d v. list_all (\<lambda>P. P d v) Ps)"
proof (rule realises_instr)
  fix rest and vm :: "('a, 'b) vm_state"
  assume "vm_ip vm = concat bs @ rest"
  then show "\<exists>vm'. vm_step (execute E) E i vm = Some vm' \<and>
      moved vm vm' rest (list_all (\<lambda>P. P (vm_direction vm) (vm_value vm)) Ps)"
    using allof_loop_realised [OF assms(4), of vm rest] assms(1,2) branch_count [OF assms(3)]
    by (auto simp: vm_step_def exec_branch_allof_def)
qed (simp add: assms(1))

lemma realises_anyof:
  assumes "op i = OAS_OP_BRANCH_ANYOF" and "operand i = OpBranch (of_nat (length bs)) k"
    and "length bs < 65536" and "list_all2 (branch E) bs Ps"
  shows "realises E (i # concat bs) (\<lambda>d v. passed Ps d v \<noteq> 0)"
proof (rule realises_instr)
  fix rest and vm :: "('a, 'b) vm_state"
  assume "vm_ip vm = concat bs @ rest"
  then show "\<exists>vm'. vm_step (execute E) E i vm = Some vm' \<and>
      moved vm vm' rest (passed Ps (vm_direction vm) (vm_value vm) \<noteq> 0)"
    using quiet_branches_realised [OF assms(4), of vm rest 0] assms(1,2) branch_count [OF assms(3)]
    by (auto simp: vm_step_def exec_branch_anyof_def add_error_def moved_def)
qed (simp add: assms(1))

lemma realises_oneof:
  assumes "op i = OAS_OP_BRANCH_ONEOF" and "operand i = OpBranch (of_nat (length bs)) k"
    and "length bs < 65536" and "list_all2 (branch E) bs Ps"
  shows "realises E (i # concat bs) (\<lambda>d v. passed Ps d v = 1)"
proof (rule realises_instr)
  fix rest and vm :: "('a, 'b) vm_state"
  assume "vm_ip vm = concat bs @ rest"
  then obtain w where "quiet_branches (execute E) (length bs) 0 vm =
      Some (if vm_valid vm then passed Ps (vm_direction vm) (vm_value vm) else 0, w)"
    and "moved vm w rest True"
    using quiet_branches_realised [OF assms(4), of vm rest 0] by auto
  then show "\<exists>vm'. vm_step (execute E) E i vm = Some vm' \<and>
      moved vm vm' rest (passed Ps (vm_direction vm) (vm_value vm) = 1)"
    using assms(1,2) branch_count [OF assms(3)]
    by (auto simp: vm_step_def exec_branch_oneof_def add_error_def moved_def)
qed (simp add: assms(1))

lemma realises_negate:
  assumes "op i = OAS_OP_NEGATE" and "branch E b P"
  shows "realises E (i # b) (\<lambda>d v. \<not> P d v)"
proof (rule realises_instr)
  fix rest and vm :: "('a, 'b) vm_state"
  assume ip: "vm_ip vm = b @ rest"
  let ?q = "vm\<lparr>vm_errors := None\<rparr>"
  obtain sub where "execute E ?q = Some sub" "moved ?q sub rest (P (vm_direction ?q) (vm_value ?q))"
    using branch_run [OF assms(2), of ?q rest] ip by auto
  then show "\<exists>vm'. vm_step (execute E) E i vm = Some vm' \<and>
      moved vm vm' rest (\<not> P (vm_direction vm) (vm_value vm))"
    using assms(1) by (auto simp: vm_step_def exec_negate_def Let_def add_error_def moved_def)
qed (simp add: assms(1))

section \<open>Conditionals\<close>

text \<open>The code of a part: nothing, or its opcode with a branch the skip loop can pass.\<close>

definition cond_piece ::
    "('p, 'e) vm_env \<Rightarrow> oas_opcode \<Rightarrow> 'p oas_instruction list \<Rightarrow> check \<Rightarrow> bool" where
  "cond_piece E opc b P \<longleftrightarrow>
     b = [] \<and> P = (\<lambda>d v. True) \<or>
     (\<exists>i c e. b = i # c @ [e] \<and> op i = opc \<and> op e = OAS_OP_END \<and> realises E c P \<and> balanced c)"

lemma cond_part_realised:
  assumes "cond_piece E opc b P" and "vm_ip vm = b @ rest"
    and "b = [] \<longrightarrow> (case rest of [] \<Rightarrow> True | i # _ \<Rightarrow> op i \<noteq> opc)"
  shows "\<exists>vm'. exec_cond_part (execute E) opc taken vm = Some vm' \<and>
    moved vm vm' rest (taken \<longrightarrow> P (vm_direction vm) (vm_value vm))"
proof (cases "b = []")
  case True
  moreover have "P = (\<lambda>d v. True)" using assms(1) True by (auto simp: cond_piece_def)
  ultimately show ?thesis using assms(2,3)
    by (cases rest) (auto simp: exec_cond_part_def moved_def)
next
  case False
  then obtain i c e where b: "b = i # c @ [e]" "op i = opc" "op e = OAS_OP_END"
    and c: "realises E c P" "balanced c"
    using assms(1) by (auto simp: cond_piece_def)
  let ?v = "vm\<lparr>vm_ip := c @ e # rest\<rparr>"
  obtain w where "execute E ?v = Some w" "moved ?v w rest (P (vm_direction ?v) (vm_value ?v))"
    using realises_run [OF c(1) b(3), of ?v rest] by auto
  moreover have "skip_to_end ?v = ?v\<lparr>vm_ip := rest\<rparr>"
    by (rule skip_balanced [OF c(2) b(3)]) simp
  ultimately show ?thesis using b assms(2)
    by (cases taken) (auto simp: exec_cond_part_def moved_def)
qed

lemma realises_cond:
  assumes "op i = OAS_OP_COND_IF" and "branch E b P"
    and th: "cond_piece E OAS_OP_COND_THEN t T" and el: "cond_piece E OAS_OP_COND_ELSE f F"
  shows "realises E (i # b @ t @ f) (\<lambda>d v. if P d v then T d v else F d v)"
proof (rule realises_instr)
  fix rest and vm :: "('a, 'b) vm_state"
  assume r: "clean rest" and ip: "vm_ip vm = (b @ t @ f) @ rest"
  let ?q = "vm\<lparr>vm_errors := None\<rparr>" and ?d = "vm_direction vm" and ?x = "vm_value vm"
  obtain sub where sub: "execute E ?q = Some sub"
    "moved ?q sub (t @ f @ rest) (P (vm_direction ?q) (vm_value ?q))"
    using branch_run [OF assms(2), of ?q "t @ f @ rest"] ip by auto
  let ?v = "vm\<lparr>vm_ip := vm_ip sub\<rparr>"
  have "case f @ rest of [] \<Rightarrow> True | j # _ \<Rightarrow> op j \<noteq> OAS_OP_COND_THEN"
    using r el by (cases rest) (auto simp: cond_piece_def)
  then obtain w where w: "exec_cond_part (execute E) OAS_OP_COND_THEN (vm_valid sub) ?v = Some w"
    "moved ?v w (f @ rest) (vm_valid sub \<longrightarrow> T ?d ?x)"
    using cond_part_realised [OF th, of ?v "f @ rest" "vm_valid sub"] sub(2) by (auto simp: moved_def)
  have "case rest of [] \<Rightarrow> True | j # _ \<Rightarrow> op j \<noteq> OAS_OP_COND_ELSE"
    using r by (cases rest) simp_all
  then obtain u where "exec_cond_part (execute E) OAS_OP_COND_ELSE (\<not> vm_valid sub) w = Some u"
    "moved w u rest (\<not> vm_valid sub \<longrightarrow> F ?d ?x)"
    using cond_part_realised [OF el, of w rest "\<not> vm_valid sub"] w(2) by (auto simp: moved_def)
  then show "\<exists>vm'. vm_step (execute E) E i vm = Some vm' \<and>
      moved vm vm' rest (if P ?d ?x then T ?d ?x else F ?d ?x)"
    using sub w assms(1)
    by (auto simp: vm_step_def exec_cond_if_def Let_def moved_def)
qed (simp add: assms(1))

lemma balanced_cond_piece:
  "cond_piece E opc b P \<Longrightarrow> is_nesting_op opc \<Longrightarrow> balanced b"
  by (auto simp: cond_piece_def intro: balanced_nested)

section \<open>Discriminators\<close>

lemma disc_skip_realised:
  assumes "list_all2 (branch E) bs Ps" and "vm_ip vm = concat bs @ rest"
  shows "\<exists>vm'. disc_skip (execute E) loud (length bs) vm = Some vm' \<and> moved vm vm' rest True"
  using assms
proof (induction bs Ps arbitrary: vm)
  case Nil
  then show ?case by auto
next
  case (Cons b bs P Ps)
  let ?q = "if loud then vm else vm\<lparr>vm_errors := None\<rparr>"
  have "vm_ip ?q = b @ concat bs @ rest" using Cons.prems by simp
  then obtain sub where sub: "execute E ?q = Some sub"
    "moved ?q sub (concat bs @ rest) (P (vm_direction ?q) (vm_value ?q))"
    by (rule branch_run [OF Cons.hyps(1)])
  let ?w = "vm\<lparr>vm_ip := vm_ip sub, vm_errors := (if loud then vm_errors sub else vm_errors vm)\<rparr>"
  have "moved vm ?w (concat bs @ rest) True"
    using sub(2) by (auto simp: moved_def)
  then show ?case
    using Cons.IH [of ?w] sub(1) by (auto simp: moved_def)
qed

text \<open>The position of the first key equal to the property's value.\<close>

fun key_index :: "string \<Rightarrow> string list \<Rightarrow> nat option" where
  "key_index s [] = None"
| "key_index s (k # ks) = (if k = s then Some 0 else map_option Suc (key_index s ks))"

lemma key_index_less: "key_index s ks = Some m \<Longrightarrow> m < length ks"
  by (induction ks arbitrary: m) (auto split: if_splits)

lemma plus_fun_Suc: "(+) (Suc n) = (\<lambda>x. Suc (n + x))"
  by auto

lemma disc_find_keys:
  "list_all2 str_nop js ks \<Longrightarrow> disc_find s js n = Some (map_option ((+) n) (key_index s ks))"
  by (induction js ks arbitrary: n rule: list_all2_induct)
    (simp_all add: str_nop_def option.map_comp comp_def plus_fun_Suc)

lemma disc_run_realised:
  assumes bs: "list_all2 (branch E) bs Ps" and ip: "vm_ip vm = concat bs @ rest"
    and m: "m < length bs"
  shows "\<exists>vm'. disc_run (execute E) (length bs) m vm = Some vm' \<and>
    moved vm vm' rest ((Ps ! m) (vm_direction vm) (vm_value vm))"
proof -
  have split: "concat bs = concat (take m bs) @ bs ! m @ concat (drop (Suc m) bs)"
    using m by (metis append_take_drop_id concat.simps(2) concat_append Cons_nth_drop_Suc)
  have lt: "length (take m bs) = m" and ld: "length (drop (Suc m) bs) = length bs - Suc m"
    using m by simp_all
  have ta: "list_all2 (branch E) (take m bs) (take m Ps)" using bs by (rule list_all2_takeI)
  have dr: "list_all2 (branch E) (drop (Suc m) bs) (drop (Suc m) Ps)" using bs by (rule list_all2_dropI)
  obtain v where v: "disc_skip (execute E) False m vm = Some v"
    "moved vm v (bs ! m @ concat (drop (Suc m) bs) @ rest) True"
    using disc_skip_realised [OF ta, of vm "bs ! m @ concat (drop (Suc m) bs) @ rest" False]
      ip split lt by auto
  have "branch E (bs ! m) (Ps ! m)" using bs m by (rule list_all2_nthD)
  then obtain sub where sub: "execute E v = Some sub"
    "moved v sub (concat (drop (Suc m) bs) @ rest) ((Ps ! m) (vm_direction v) (vm_value v))"
    using v(2) by (auto simp: moved_def elim: branch_run [of E _ _ v "concat (drop (Suc m) bs) @ rest"])
  let ?w = "(absorb v sub)\<lparr>vm_ip := vm_ip sub\<rparr>"
  have w: "moved v ?w (concat (drop (Suc m) bs) @ rest) ((Ps ! m) (vm_direction v) (vm_value v))"
    using sub(2) by (auto simp: moved_def absorb_def)
  then obtain u where "disc_skip (execute E) False (length bs - Suc m) ?w = Some u" "moved ?w u rest True"
    using disc_skip_realised [OF dr, of ?w rest False] ld by (auto simp: moved_def)
  then show ?thesis using v sub w
    by (auto simp: disc_run_def moved_def)
qed

text \<open>The verdict of a discriminator over branches in the order of its keys.\<close>

definition discriminates :: "yyjson \<Rightarrow> string \<Rightarrow> string list \<Rightarrow> check list \<Rightarrow> check" where
  "discriminates yy p keys Ps d v \<longleftrightarrow>
     is_jobj v \<and>
     (case yy_obj_get yy v p of
        Some (JStr s) \<Rightarrow> (case key_index (cstr s) keys of Some m \<Rightarrow> (Ps ! m) d v | None \<Rightarrow> False)
      | _ \<Rightarrow> False)"

lemma disc_body_realised:
  assumes ks: "list_all2 str_nop js keys" and len: "length bs = length keys"
    and bs: "list_all2 (branch E) bs Ps" and ip: "vm_ip vm = concat bs @ rest"
  shows "\<exists>vm'. disc_body (execute E) E p (length bs) (js @ r) vm = Some vm' \<and>
    moved vm vm' rest (discriminates (ve_yy E) p keys Ps (vm_direction vm) (vm_value vm))"
proof -
  obtain u where u: "disc_skip (execute E) True (length bs) vm = Some u" "moved vm u rest True"
    using disc_skip_realised [OF bs ip] by blast
  then have fail: "moved vm (add_error E u msg) rest False" for msg
    by (auto simp: moved_def add_error_def)
  have take: "take (length bs) (js @ r) = js" using ks len by (simp add: list_all2_lengthD)
  consider (notobj) "\<not> is_jobj (vm_value vm)"
    | (str) s where "is_jobj (vm_value vm)" "yy_obj_get (ve_yy E) (vm_value vm) p = Some (JStr s)"
    | (other) "is_jobj (vm_value vm)" "\<forall>s. yy_obj_get (ve_yy E) (vm_value vm) p \<noteq> Some (JStr s)"
    by blast
  then show ?thesis
  proof cases
    case notobj
    then show ?thesis using u(1) fail by (auto simp: disc_body_def discriminates_def)
  next
    case str
    show ?thesis
    proof (cases "key_index (cstr s) keys")
      case None
      then show ?thesis
        using str u(1) fail disc_find_keys [OF ks] take
        by (auto simp: disc_body_def discriminates_def)
    next
      case (Some m)
      then have "m < length bs" using key_index_less len by fastforce
      from disc_run_realised [OF bs ip this] show ?thesis
        using str Some disc_find_keys [OF ks] take
        by (auto simp: disc_body_def discriminates_def)
    qed
  next
    case other
    then have "\<exists>msg. disc_body (execute E) E p (length bs) (js @ r) vm = Some (add_error E u msg)"
      and "\<not> discriminates (ve_yy E) p keys Ps (vm_direction vm) (vm_value vm)"
      using u(1) by (auto simp: disc_body_def discriminates_def split: option.split json.split)
    then show ?thesis using fail by auto
  qed
qed

lemma realises_discriminator:
  assumes "op i = OAS_OP_DISCRIMINATOR" and "operand i = OpStr p"
    and "operand n = OpI64 (int (length keys))" and "list_all2 str_nop js keys"
    and "length bs = length keys" and "list_all2 (branch E) bs Ps"
  shows "realises E (i # n # js @ concat bs) (discriminates (ve_yy E) p keys Ps)"
proof (rule realises_instr)
  fix rest and vm :: "('a, 'b) vm_state"
  assume ip: "vm_ip vm = (n # js @ concat bs) @ rest"
  have l: "length js = length keys" using assms(4) by (rule list_all2_lengthD)
  show "\<exists>vm'. vm_step (execute E) E i vm = Some vm' \<and>
      moved vm vm' rest (discriminates (ve_yy E) p keys Ps (vm_direction vm) (vm_value vm))"
    using disc_body_realised [OF assms(4,5,6), of "vm\<lparr>vm_ip := concat bs @ rest\<rparr>" rest p
        "concat bs @ rest"] assms(1-3,5) ip ip_advance_append [OF l, of "concat bs @ rest"]
    by (auto simp: vm_step_def exec_discriminator_def read_nop_def moved_def)
qed (simp add: assms(1))

end
