(* ===== verification/Liboas_Spec.thy ===== *)
theory Liboas_Spec
  imports Liboas_Compiler Liboas_Chunks
begin

text \<open>
  What a schema means, keyword by keyword, with no program in sight: the reference the
  compiled code is compared with. A check is a predicate on a direction and a JSON value;
  \<open>rec\<close> is the meaning of the sub-schemas. The second half says for which schemas the
  compiled program is claimed to decide that meaning.
\<close>

section \<open>Keywords\<close>

definition meets_type :: "oas_schema \<Rightarrow> check" where
  "meets_type s d v \<longleftrightarrow>
     (effective_mask s \<noteq> 0 \<longrightarrow> yyjson_to_type_mask v AND effective_mask s \<noteq> 0)"

definition meets_length :: "oas_schema \<Rightarrow> check" where
  "meets_length s d v \<longleftrightarrow>
     (case v of
        JStr t \<Rightarrow> (0 \<le> s_min_length s \<longrightarrow> s_min_length s \<le> int (utf8_codepoint_count t)) \<and>
                  (0 \<le> s_max_length s \<longrightarrow> int (utf8_codepoint_count t) \<le> s_max_length s)
      | _ \<Rightarrow> True)"

text \<open>A pattern means what the backend compiles it to; without a backend, nothing.\<close>

definition meets_pattern :: "'p oas_regex_backend option \<Rightarrow> oas_schema \<Rightarrow> check" where
  "meets_pattern regex s d v \<longleftrightarrow>
     (case (v, s_pattern s, regex) of
        (JStr t, Some pat, Some rx) \<Rightarrow>
          (case rx_compile rx pat of Inr p \<Rightarrow> rx_match rx p t | Inl _ \<Rightarrow> False)
      | _ \<Rightarrow> True)"

definition meets_format :: "('p, 'e) compile_env \<Rightarrow> oas_schema \<Rightarrow> check" where
  "meets_format env s d v \<longleftrightarrow>
     (case (v, s_format s, ce_config env) of
        (JStr t, Some f, Some config) \<Rightarrow>
          cc_format_policy config \<noteq> OAS_FORMAT_IGNORE \<longrightarrow>
          (case oas_format_get f of Some fn \<Rightarrow> call_format fn t | None \<Rightarrow> True)
      | _ \<Rightarrow> True)"

definition meets_numeric :: "yyjson \<Rightarrow> oas_schema \<Rightarrow> check" where
  "meets_numeric yy s d v \<longleftrightarrow>
     is_jnum v \<longrightarrow>
     (let x = yy_get_num yy v in
      (s_has_minimum s \<longrightarrow> s_minimum s \<le> x) \<and>
      (s_has_maximum s \<longrightarrow> x \<le> s_maximum s) \<and>
      (s_has_exclusive_minimum s \<longrightarrow> s_exclusive_minimum s < x) \<and>
      (s_has_exclusive_maximum s \<longrightarrow> x < s_exclusive_maximum s) \<and>
      (s_has_multiple_of s \<longrightarrow> \<not> multiple_of_violated x (s_multiple_of s)))"

definition meets_array :: "yyjson \<Rightarrow> (sref option \<Rightarrow> check) \<Rightarrow> oas_schema \<Rightarrow> check" where
  "meets_array yy rec s d v \<longleftrightarrow>
     (case v of
        JArr xs \<Rightarrow>
          (0 \<le> s_min_items s \<longrightarrow> s_min_items s \<le> int (length xs)) \<and>
          (0 \<le> s_max_items s \<longrightarrow> int (length xs) \<le> s_max_items s) \<and>
          (s_unique_items s \<longrightarrow> \<not> has_duplicate_items yy xs) \<and>
          list_all (\<lambda>(i, sub). i < length xs \<longrightarrow> rec sub d (xs ! i))
            (List.enumerate 0 (s_prefix_items s)) \<and>
          (s_items s \<noteq> None \<longrightarrow> list_all (rec (s_items s) d) xs)
      | _ \<Rightarrow> True)"

definition has_prop :: "yyjson \<Rightarrow> json \<Rightarrow> string \<Rightarrow> bool" where
  "has_prop yy v k \<longleftrightarrow> yy_obj_get yy v k \<noteq> None"

definition meets_object :: "yyjson \<Rightarrow> (sref option \<Rightarrow> check) \<Rightarrow> oas_schema \<Rightarrow> check" where
  "meets_object yy rec s d v \<longleftrightarrow>
     (case v of
        JObj kvs \<Rightarrow>
          list_all (has_prop yy v) (s_required s) \<and>
          list_all (\<lambda>q. case yy_obj_get yy v (p_name q) of
              Some x \<Rightarrow> rec (p_schema q) d x | None \<Rightarrow> True) (s_properties s) \<and>
          (0 \<le> s_min_properties s \<longrightarrow> s_min_properties s \<le> int (length kvs)) \<and>
          (0 \<le> s_max_properties s \<longrightarrow> int (length kvs) \<le> s_max_properties s) \<and>
          (s_property_names s \<noteq> None \<longrightarrow>
            list_all (\<lambda>k. case reread yy k of Some x \<Rightarrow> rec (s_property_names s) d x | None \<Rightarrow> True)
              (map fst kvs))
      | _ \<Rightarrow> True)"

definition meets_pattern_property ::
    "'p oas_regex_backend option \<Rightarrow> (sref option \<Rightarrow> check) \<Rightarrow> oas_pattern_property \<Rightarrow> check" where
  "meets_pattern_property regex rec pp d v \<longleftrightarrow>
     (case (v, pp_pattern pp, pp_schema pp, regex) of
        (JObj kvs, Some pat, Some sub, Some rx) \<Rightarrow>
          (case rx_compile rx pat of
             Inr p \<Rightarrow> list_all (rec (Some sub) d)
                        (map snd (filter (\<lambda>(name, _). rx_match rx p name) kvs))
           | Inl _ \<Rightarrow> False)
      | _ \<Rightarrow> True)"

definition meets_dependencies ::
    "yyjson \<Rightarrow> 'p oas_regex_backend option \<Rightarrow> (sref option \<Rightarrow> check) \<Rightarrow> oas_schema \<Rightarrow> check" where
  "meets_dependencies yy regex rec s d v \<longleftrightarrow>
     list_all (\<lambda>pp. meets_pattern_property regex rec pp d v) (s_pattern_properties s) \<and>
     (is_jobj v \<longrightarrow>
        list_all (\<lambda>r. has_prop yy v (dr_property r) \<longrightarrow> list_all (has_prop yy v) (dr_required r))
          (s_dependent_required s) \<and>
        list_all (\<lambda>r. ds_schema r \<noteq> None \<longrightarrow> has_prop yy v (ds_property r) \<longrightarrow> rec (ds_schema r) d v)
          (s_dependent_schemas s))"

definition meets_contains :: "(sref option \<Rightarrow> check) \<Rightarrow> oas_schema \<Rightarrow> check" where
  "meets_contains rec s d v \<longleftrightarrow>
     (case v of
        JArr xs \<Rightarrow> s_contains s \<noteq> None \<longrightarrow>
          (let m = int (length (filter (rec (s_contains s) d) xs)) in
           (if 0 \<le> s_min_contains s then s_min_contains s else 1) \<le> m \<and>
           (0 \<le> s_max_contains s \<longrightarrow> m \<le> s_max_contains s))
      | _ \<Rightarrow> True)"

text \<open>
  With a mapping the discriminator selects one of the \<open>oneOf\<close> (else \<open>anyOf\<close>) branches.
\<close>

definition meets_compositions :: "yyjson \<Rightarrow> (sref option \<Rightarrow> check) \<Rightarrow> oas_schema \<Rightarrow> check" where
  "meets_compositions yy rec s d v \<longleftrightarrow>
     list_all (\<lambda>b. rec b d v) (s_all_of s) \<and>
     (if has_discriminator s
      then (let branches = (if s_one_of s \<noteq> [] then s_one_of s else s_any_of s)
            in branches \<noteq> [] \<longrightarrow>
               discriminates yy (the (s_discriminator_property s))
                 (map dm_key (s_discriminator_mapping s)) (map rec branches) d v)
      else (s_any_of s \<noteq> [] \<longrightarrow> list_ex (\<lambda>b. rec b d v) (s_any_of s)) \<and>
           (s_one_of s \<noteq> [] \<longrightarrow> length (filter (\<lambda>b. rec b d v) (s_one_of s)) = 1))"

definition meets_conditionals :: "(sref option \<Rightarrow> check) \<Rightarrow> oas_schema \<Rightarrow> check" where
  "meets_conditionals rec s d v \<longleftrightarrow>
     (s_not_schema s \<noteq> None \<longrightarrow> \<not> rec (s_not_schema s) d v) \<and>
     (s_if_schema s \<noteq> None \<longrightarrow>
        (if rec (s_if_schema s) d v
         then s_then_schema s \<noteq> None \<longrightarrow> rec (s_then_schema s) d v
         else s_else_schema s \<noteq> None \<longrightarrow> rec (s_else_schema s) d v))"

definition meets_values :: "yyjson \<Rightarrow> oas_schema \<Rightarrow> check" where
  "meets_values yy s d v \<longleftrightarrow>
     (case s_enum_values s of Some (JArr items) \<Rightarrow> list_ex (yy_equals yy v) items | _ \<Rightarrow> True) \<and>
     (case s_const_value s of Some c \<Rightarrow> yy_equals yy v c | None \<Rightarrow> True) \<and>
     (s_read_only s \<longrightarrow> d \<noteq> OAS_DIR_REQUEST) \<and>
     (s_write_only s \<longrightarrow> d \<noteq> OAS_DIR_RESPONSE)"

section \<open>Schemas\<close>

abbreviation config_regex :: "('p, 'e) compile_env \<Rightarrow> 'p oas_regex_backend option" where
  "config_regex env \<equiv> Option.bind (ce_config env) cc_regex"

definition accepts_node ::
    "yyjson \<Rightarrow> ('p, 'e) compile_env \<Rightarrow> (sref option \<Rightarrow> check) \<Rightarrow> oas_schema \<Rightarrow> check" where
  "accepts_node yy env rec s d v \<longleftrightarrow>
     meets_type s d v \<and>
     meets_length s d v \<and> meets_pattern (config_regex env) s d v \<and> meets_format env s d v \<and>
     meets_numeric yy s d v \<and>
     meets_array yy rec s d v \<and>
     meets_object yy rec s d v \<and>
     meets_dependencies yy (config_regex env) rec s d v \<and>
     meets_contains rec s d v \<and>
     meets_compositions yy rec s d v \<and>
     meets_conditionals rec s d v \<and>
     meets_values yy s d v"

text \<open>Pointers are followed as far as the fuel goes.\<close>

primrec accepts ::
    "nat \<Rightarrow> yyjson \<Rightarrow> ('p, 'e) compile_env \<Rightarrow> sref option \<Rightarrow> check" where
  "accepts 0 yy env schema = (\<lambda>d v. schema = None)"
| "accepts (Suc fuel) yy env schema =
     (case schema of
        None \<Rightarrow> (\<lambda>d v. True)
      | Some p \<Rightarrow>
          (case ce_heap env p of
             None \<Rightarrow> (\<lambda>d v. False)
           | Some s \<Rightarrow>
               if s_ref_resolved s \<noteq> None then accepts fuel yy env (s_ref_resolved s)
               else accepts_node yy env (accepts fuel yy env) s))"

section \<open>The schemas whose program decides them\<close>

text \<open>
  Two constructs of the code keep a program from deciding its schema, and are left out
  here: a branching keyword inside a sub-schema the machine may skip (\<open>skip_to_end\<close> counts
  the branches' \<open>END\<close>s as its own), and \<open>additionalProperties\<close> (its program is always
  skipped). \<open>skipped\<close> says that the node is part of code that may be skipped. A
  discriminator must have as many keys as branches, and a \<open>oneOf\<close> must not hide an \<open>anyOf\<close>
  from it; the counts must fit the sixteen bits of the instruction, and every reference be resolved.
\<close>

definition branches_ok :: "(sref option \<Rightarrow> bool) \<Rightarrow> sref option list \<Rightarrow> bool" where
  "branches_ok rec bs \<longleftrightarrow> length bs < 65536 \<and> list_all rec bs"

definition supported_compositions :: "(sref option \<Rightarrow> bool) \<Rightarrow> bool \<Rightarrow> oas_schema \<Rightarrow> bool" where
  "supported_compositions rec skipped s \<longleftrightarrow>
     (if skipped then s_all_of s = [] \<and> s_any_of s = [] \<and> s_one_of s = []
      else branches_ok rec (s_all_of s) \<and> branches_ok rec (s_any_of s) \<and>
           branches_ok rec (s_one_of s) \<and>
           (has_discriminator s \<longrightarrow>
              (s_one_of s = [] \<or> s_any_of s = []) \<and>
              (s_one_of s = [] \<and> s_any_of s = [] \<or>
               length (s_one_of s @ s_any_of s) = length (s_discriminator_mapping s))))"

definition supported_node :: "(bool \<Rightarrow> sref option \<Rightarrow> bool) \<Rightarrow> bool \<Rightarrow> oas_schema \<Rightarrow> bool" where
  "supported_node rec skipped s \<longleftrightarrow>
     s_ref s = None \<and> s_additional_properties s = None \<and>
     length (s_prefix_items s) \<le> 65536 \<and>
     list_all (rec True) (s_prefix_items s) \<and>
     list_all (\<lambda>q. rec True (p_schema q)) (s_properties s) \<and>
     list_all (\<lambda>p. rec True (pp_schema p)) (s_pattern_properties s) \<and>
     list_all (\<lambda>r. rec True (ds_schema r)) (s_dependent_schemas s) \<and>
     rec True (s_items s) \<and> rec True (s_property_names s) \<and> rec True (s_contains s) \<and>
     rec True (s_then_schema s) \<and> rec True (s_else_schema s) \<and>
     rec skipped (s_not_schema s) \<and> rec skipped (s_if_schema s) \<and>
     supported_compositions (rec False) skipped s"

primrec supported :: "nat \<Rightarrow> schema_heap \<Rightarrow> bool \<Rightarrow> sref option \<Rightarrow> bool" where
  "supported 0 h skipped schema = (schema = None)"
| "supported (Suc fuel) h skipped schema =
     (case schema of
        None \<Rightarrow> True
      | Some p \<Rightarrow>
          (case h p of
             None \<Rightarrow> False
           | Some s \<Rightarrow>
               if s_ref_resolved s \<noteq> None then supported fuel h skipped (s_ref_resolved s)
               else supported_node (supported fuel h) skipped s))"

end
