(* ===== verification/Liboas_Correct.thy ===== *)
theory Liboas_Correct
  imports Liboas_Spec
begin

text \<open>
  The compiler is correct: the code a step appends realises the keyword it is for. A rule
  per emitter and per shape of nested code (collected in \<open>kw_intro\<close>) composes to one
  lemma per group of keywords, and these to \<open>compile_schema\<close> by induction on the fuel.
\<close>

section \<open>What a step appends\<close>

definition adds ::
    "('p, 'e) oas_compiled_schema \<Rightarrow> ('p, 'e) oas_compiled_schema \<Rightarrow> 'p oas_instruction list \<Rightarrow> bool" where
  "adds cs cs' c \<longleftrightarrow>
     code (cs_program cs') = code (cs_program cs) @ c \<and> cs_regex cs' = cs_regex cs"

text \<open>
  A step, when it succeeds under the backend \<open>rx\<close>, appends code that realises \<open>P\<close>, and that
  the skip loop can pass when \<open>b\<close> says so.
\<close>

definition emits ::
    "('p, 'e') vm_env \<Rightarrow> 'p oas_regex_backend option \<Rightarrow> bool \<Rightarrow> ('p, 'e) compile_step \<Rightarrow> check \<Rightarrow> bool" where
  "emits E rx b f P \<longleftrightarrow>
     (\<forall>cs cs'. cs_regex cs = rx \<longrightarrow> f cs = Some (None, cs') \<longrightarrow>
        (\<exists>c. adds cs cs' c \<and> clean c \<and> realises E c P \<and> (b \<longrightarrow> balanced c)))"

lemma adds_refl: "adds cs cs []"
  by (simp add: adds_def)

lemma adds_trans: "adds cs cs' c \<Longrightarrow> adds cs' cs'' c' \<Longrightarrow> adds cs cs'' (c @ c')"
  by (simp add: adds_def)

lemma emitsI:
  assumes "\<And>cs cs'. cs_regex cs = rx \<Longrightarrow> f cs = Some (None, cs') \<Longrightarrow>
    \<exists>c. adds cs cs' c \<and> clean c \<and> realises E c P \<and> (b \<longrightarrow> balanced c)"
  shows "emits E rx b f P"
  using assms by (simp add: emits_def)

lemma emitsD:
  assumes "emits E rx b f P" and "cs_regex cs = rx" and "f cs = Some (None, cs')"
  obtains c where "adds cs cs' c" "clean c" "realises E c P" "b \<longrightarrow> balanced c"
  using assms by (auto simp: emits_def)

lemma emits_cong:
  assumes "emits E rx b f P" and "\<And>d v. P d v \<longleftrightarrow> Q d v"
  shows "emits E rx b f Q"
proof -
  have "P = Q" using assms(2) by blast
  then show ?thesis using assms(1) by simp
qed

section \<open>Sequences of steps\<close>

lemma run_steps_Cons_done:
  "run_steps (f # fs) cs = Some (None, cs') \<longleftrightarrow>
     (\<exists>m. f cs = Some (None, m) \<and> run_steps fs m = Some (None, cs'))"
  by (auto simp: bind_eq_Some_conv split: option.splits)

lemma run_steps_append_done:
  "run_steps (fs @ gs) cs = Some (None, cs') \<longleftrightarrow>
     (\<exists>m. run_steps fs cs = Some (None, m) \<and> run_steps gs m = Some (None, cs'))"
  by (induction fs arbitrary: cs) (auto simp: run_steps_Cons_done simp del: run_steps.simps(2))

declare run_steps.simps(2) [simp del]

lemma emits_Nil [kw_intro]: "emits E rx b (run_steps []) (\<lambda>d v. True)"
  by (rule emitsI) (auto intro: adds_refl realises_Nil)

lemma emits_step_ok [kw_intro]: "emits E rx b step_ok (\<lambda>d v. True)"
  by (rule emitsI) (auto simp: step_ok_def intro: adds_refl realises_Nil)

lemma emits_append:
  assumes "emits E rx b (run_steps fs) P" and "emits E rx b (run_steps gs) Q"
  shows "emits E rx b (run_steps (fs @ gs)) (\<lambda>d v. P d v \<and> Q d v)"
proof (rule emitsI)
  fix cs cs' :: "('a, 'c) oas_compiled_schema"
  assume rx: "cs_regex cs = rx" and "run_steps (fs @ gs) cs = Some (None, cs')"
  then obtain m where m: "run_steps fs cs = Some (None, m)" "run_steps gs m = Some (None, cs')"
    by (auto simp: run_steps_append_done)
  obtain c where c: "adds cs m c" "clean c" "realises E c P" "b \<longrightarrow> balanced c"
    using emitsD [OF assms(1) rx m(1)] .
  have "cs_regex m = rx" using c(1) rx by (simp add: adds_def)
  from emitsD [OF assms(2) this m(2)] obtain c' where
    c': "adds m cs' c'" "clean c'" "realises E c' Q" "b \<longrightarrow> balanced c'" .
  show "\<exists>c. adds cs cs' c \<and> clean c \<and> realises E c (\<lambda>d v. P d v \<and> Q d v) \<and> (b \<longrightarrow> balanced c)"
    using c c' adds_trans realises_append by (intro exI [of _ "c @ c'"]) auto
qed

lemma emits_single: "emits E rx b f P \<Longrightarrow> emits E rx b (run_steps [f]) P"
  by (auto simp: emits_def run_steps_Cons_done)

lemma emits_Cons [kw_intro]:
  assumes "emits E rx b f P" and "emits E rx b (run_steps fs) Q"
  shows "emits E rx b (run_steps (f # fs)) (\<lambda>d v. P d v \<and> Q d v)"
  using emits_append [OF emits_single [OF assms(1)] assms(2)] by simp

lemma emits_map [kw_intro]:
  assumes "\<And>x. x \<in> set xs \<Longrightarrow> emits E rx b (f x) (P x)"
  shows "emits E rx b (run_steps (map f xs)) (\<lambda>d v. list_all (\<lambda>x. P x d v) xs)"
  using assms
proof (induction xs)
  case Nil
  then show ?case by (simp add: emits_Nil del: run_steps.simps(1))
next
  case (Cons x xs)
  then show ?case using emits_Cons [of E rx b "f x" "P x"] by simp
qed

lemma emits_when [kw_intro]:
  assumes "q \<Longrightarrow> emits E rx b f P"
  shows "emits E rx b (step_when q f) (\<lambda>d v. q \<longrightarrow> P d v)"
  using assms emits_step_ok [of E rx b] by (cases q) (simp_all add: step_when_def)

section \<open>Emitters\<close>

lemma emit_adds: "emit env i cs = Some (None, cs') \<Longrightarrow> adds cs cs' [i]"
  by (auto simp: emit_def adds_def dest: program_emit_code split: sum.splits)

lemma emit_all_adds: "run_steps (map (emit env) is) cs = Some (None, cs') \<Longrightarrow> adds cs cs' is"
proof (induction "is" arbitrary: cs)
  case Nil
  then show ?case by (simp add: adds_refl)
next
  case (Cons i "is")
  then obtain m where "emit env i cs = Some (None, m)" "run_steps (map (emit env) is) m = Some (None, cs')"
    by (auto simp: run_steps_Cons_done)
  then show ?case using Cons.IH emit_adds adds_trans by fastforce
qed

text \<open>A check without a sub-program.\<close>

lemma emits_leaf:
  fixes E :: "('p, 'e') vm_env" and env :: "('p, 'c) compile_env"
  assumes "op i \<noteq> OAS_OP_END" and "\<not> is_nesting_op (op i)"
    and "\<And>vm :: ('p, 'e') vm_state. \<exists>msg. vm_step (execute E) E i vm =
        Some (if P (vm_direction vm) (vm_value vm) then vm else add_error E vm msg)"
  shows "emits E rx b (emit env i) P"
proof (rule emitsI)
  fix cs cs' :: "('p, 'c) oas_compiled_schema"
  assume "emit env i cs = Some (None, cs')"
  then show "\<exists>c. adds cs cs' c \<and> clean c \<and> realises E c P \<and> (b \<longrightarrow> balanced c)"
    using emit_adds realises_leaf [OF assms(1,3)] assms(1,2)
    by (intro exI [of _ "[i]"]) (auto intro: balanced_Cons)
qed

lemma emits_type [kw_intro]:
  "emits E rx b (emit_type env m) (\<lambda>d v. yyjson_to_type_mask v AND m \<noteq> 0)"
  unfolding emitters by (rule emits_leaf) (auto simp: vm_step_def exec_check_type_def)

lemma emits_string_checks [kw_intro]:
  "emits E rx b (emit_i64 env OAS_OP_CHECK_MIN_LEN n)
     (\<lambda>d v. case v of JStr t \<Rightarrow> n \<le> int (utf8_codepoint_count t) | _ \<Rightarrow> True)"
  "emits E rx b (emit_i64 env OAS_OP_CHECK_MAX_LEN n)
     (\<lambda>d v. case v of JStr t \<Rightarrow> int (utf8_codepoint_count t) \<le> n | _ \<Rightarrow> True)"
  "emits E rx b (emit_ptr_format env OAS_OP_CHECK_FORMAT fn)
     (\<lambda>d v. case v of JStr t \<Rightarrow> call_format fn t | _ \<Rightarrow> True)"
  unfolding emitters
  by (rule emits_leaf; auto simp: vm_step_def vm_handlers instr_def split: json.split)+

lemma emits_numeric_checks [kw_intro]:
  "emits E rx b (emit_f64 env OAS_OP_CHECK_MINIMUM m)
     (\<lambda>d v. is_jnum v \<longrightarrow> m \<le> yy_get_num (ve_yy E) v)"
  "emits E rx b (emit_f64 env OAS_OP_CHECK_MAXIMUM m)
     (\<lambda>d v. is_jnum v \<longrightarrow> yy_get_num (ve_yy E) v \<le> m)"
  "emits E rx b (emit_f64 env OAS_OP_CHECK_EX_MINIMUM m)
     (\<lambda>d v. is_jnum v \<longrightarrow> m < yy_get_num (ve_yy E) v)"
  "emits E rx b (emit_f64 env OAS_OP_CHECK_EX_MAXIMUM m)
     (\<lambda>d v. is_jnum v \<longrightarrow> yy_get_num (ve_yy E) v < m)"
  "emits E rx b (emit_f64 env OAS_OP_CHECK_MULTIPLE_OF m)
     (\<lambda>d v. is_jnum v \<longrightarrow> \<not> multiple_of_violated (yy_get_num (ve_yy E) v) m)"
  unfolding emitters
  by (rule emits_leaf; auto simp: vm_step_def vm_handlers instr_def not_less not_le)+

lemma emits_array_checks [kw_intro]:
  "emits E rx b (emit_i64 env OAS_OP_CHECK_MIN_ITEMS n)
     (\<lambda>d v. case v of JArr xs \<Rightarrow> n \<le> int (length xs) | _ \<Rightarrow> True)"
  "emits E rx b (emit_i64 env OAS_OP_CHECK_MAX_ITEMS n)
     (\<lambda>d v. case v of JArr xs \<Rightarrow> int (length xs) \<le> n | _ \<Rightarrow> True)"
  "emits E rx b (emit_simple env OAS_OP_CHECK_UNIQUE)
     (\<lambda>d v. case v of JArr xs \<Rightarrow> \<not> has_duplicate_items (ve_yy E) xs | _ \<Rightarrow> True)"
  unfolding emitters
  by (rule emits_leaf; auto simp: vm_step_def vm_handlers instr_def split: json.split)+

lemma emits_object_checks [kw_intro]:
  "emits E rx b (emit_str env OAS_OP_CHECK_REQUIRED k)
     (\<lambda>d v. is_jobj v \<longrightarrow> has_prop (ve_yy E) v k)"
  "emits E rx b (emit_i64 env OAS_OP_CHECK_MIN_PROPS n)
     (\<lambda>d v. case v of JObj kvs \<Rightarrow> n \<le> int (length kvs) | _ \<Rightarrow> True)"
  "emits E rx b (emit_i64 env OAS_OP_CHECK_MAX_PROPS n)
     (\<lambda>d v. case v of JObj kvs \<Rightarrow> int (length kvs) \<le> n | _ \<Rightarrow> True)"
  unfolding emitters
  by (rule emits_leaf; auto simp: vm_step_def vm_handlers instr_def has_prop_def split: json.split)+

lemma emits_value_checks [kw_intro]:
  "emits E rx b (emit_ptr_json env OAS_OP_CHECK_ENUM w)
     (\<lambda>d v. case w of JArr items \<Rightarrow> list_ex (yy_equals (ve_yy E) v) items | _ \<Rightarrow> True)"
  "emits E rx b (emit_ptr_json env OAS_OP_CHECK_CONST w) (\<lambda>d v. yy_equals (ve_yy E) v w)"
  "emits E rx b (emit_simple env OAS_OP_CHECK_READ_ONLY) (\<lambda>d v. d \<noteq> OAS_DIR_REQUEST)"
  "emits E rx b (emit_simple env OAS_OP_CHECK_WRITE_ONLY) (\<lambda>d v. d \<noteq> OAS_DIR_RESPONSE)"
  unfolding emitters
  by (rule emits_leaf; auto simp: vm_step_def vm_handlers instr_def split: json.split)+

section \<open>Nested code\<close>

lemma op_instr [simp]: "op (instr oper x) = oper" "operand (instr oper x) = x"
  by (simp_all add: instr_def)

lemma emits_branch:
  assumes "emits E rx b (rec sub) P" and "cs_regex cs = rx"
    and "run_steps [rec sub, emit_simple env OAS_OP_END] cs = Some (None, cs')"
  obtains c where "adds cs cs' (c @ [end_instr])" and "clean c" and "realises E c P"
    and "b \<longrightarrow> balanced c"
proof -
  obtain m where m: "rec sub cs = Some (None, m)" "emit_simple env OAS_OP_END m = Some (None, cs')"
    using assms(3) by (auto simp: run_steps_Cons_done)
  obtain c where "adds cs m c" "clean c" "realises E c P" "b \<longrightarrow> balanced c"
    using emitsD [OF assms(1,2) m(1)] .
  moreover have "adds m cs' [end_instr]" using m(2) by (simp add: emit_simple_def emit_adds)
  ultimately show thesis using that adds_trans by blast
qed

lemma emits_nested:
  assumes sub: "emits E rx b' (rec sub) P"
    and head: "head = map (emit env) js" and "clean js" and "js \<noteq> []"
    and code: "\<And>c. realises E c P \<Longrightarrow> (b' \<longrightarrow> balanced c) \<Longrightarrow>
      realises E (js @ c @ [end_instr]) Q \<and> (b \<longrightarrow> balanced (js @ c @ [end_instr]))"
  shows "emits E rx b (nested env rec head sub) Q"
proof (rule emitsI)
  fix cs cs' :: "('a, 'c) oas_compiled_schema"
  assume rx: "cs_regex cs = rx" and n: "nested env rec head sub cs = Some (None, cs')"
  obtain m where m: "run_steps (map (emit env) js) cs = Some (None, m)"
    and r: "run_steps [rec sub, emit_simple env OAS_OP_END] m = Some (None, cs')"
    using n head by (auto simp: nested_def run_steps_append_done)
  have am: "adds cs m js" using m by (rule emit_all_adds)
  then have "cs_regex m = rx" using rx by (simp add: adds_def)
  then obtain c where c: "adds m cs' (c @ [end_instr])" "realises E c P" "b' \<longrightarrow> balanced c"
    using emits_branch [of E rx b' rec sub P m env cs'] sub r by blast
  have "adds cs cs' (js @ c @ [end_instr])" using am c(1) by (rule adds_trans)
  moreover have "clean (js @ c @ [end_instr])" using assms(3,4) by (cases "js") simp_all
  ultimately show "\<exists>c. adds cs cs' c \<and> clean c \<and> realises E c Q \<and> (b \<longrightarrow> balanced c)"
    using code [OF c(2,3)] by blast
qed

lemma emits_entered [kw_intro]:
  assumes "emits E rx True (rec sub) P"
  shows "emits E rx b (nested env rec [emit_simple env OAS_OP_ENTER_ITEMS] sub)
      (\<lambda>d v. case v of JArr xs \<Rightarrow> list_all (P d) xs | _ \<Rightarrow> True)"
    and "emits E rx b (nested env rec [emit_prefix_item env idx] sub)
      (\<lambda>d v. case v of JArr xs \<Rightarrow> unat idx < length xs \<longrightarrow> P d (xs ! unat idx) | _ \<Rightarrow> True)"
    and "emits E rx b (nested env rec [emit_str env OAS_OP_ENTER_PROPERTY k] sub)
      (\<lambda>d v. is_jobj v \<longrightarrow> (case yy_obj_get (ve_yy E) v k of Some x \<Rightarrow> P d x | None \<Rightarrow> True))"
    and "emits E rx b (nested env rec [emit_simple env OAS_OP_CHECK_PROP_NAMES] sub)
      (\<lambda>d v. case v of JObj kvs \<Rightarrow> list_all (\<lambda>k. case reread (ve_yy E) k of
         Some x \<Rightarrow> P d x | None \<Rightarrow> True) (map fst kvs) | _ \<Rightarrow> True)"
    and "emits E rx b (nested env rec [emit_str env OAS_OP_CHECK_DEP_SCHEMA k] sub)
      (\<lambda>d v. is_jobj v \<longrightarrow> has_prop (ve_yy E) v k \<longrightarrow> P d v)"
  unfolding emitters has_prop_def
  subgoal by (rule emits_nested [where rec = rec and sub = sub and P = P, OF assms, where js = "[instr OAS_OP_ENTER_ITEMS OpZero]"])
      (auto intro: realises_items balanced_nested)
  subgoal by (rule emits_nested [where rec = rec and sub = sub and P = P, OF assms, where js = "[instr OAS_OP_ENTER_PREFIX_ITEM (OpBranch 0 idx)]"])
      (auto intro: realises_prefix_item balanced_nested)
  subgoal by (rule emits_nested [where rec = rec and sub = sub and P = P, OF assms, where js = "[instr OAS_OP_ENTER_PROPERTY (OpStr k)]"])
      (auto intro: realises_property balanced_nested)
  subgoal by (rule emits_nested [where rec = rec and sub = sub and P = P, OF assms, where js = "[instr OAS_OP_CHECK_PROP_NAMES OpZero]"])
      (auto intro: realises_prop_names balanced_nested)
  subgoal by (rule emits_nested [where rec = rec and sub = sub and P = P, OF assms, where js = "[instr OAS_OP_CHECK_DEP_SCHEMA (OpStr k)]"])
      (auto simp del: not_None_eq intro: realises_dep_schema balanced_nested)
  done

lemma emits_contains [kw_intro]:
  assumes "emits E rx True (rec sub) P"
  shows "emits E rx b (nested env rec
      [emit_i64 env OAS_OP_CHECK_CONTAINS lo, emit_i64 env OAS_OP_NOP hi] sub)
    (\<lambda>d v. case v of JArr xs \<Rightarrow> (let m = int (length (filter (P d) xs)) in lo \<le> m \<and> (0 \<le> hi \<longrightarrow> m \<le> hi))
       | _ \<Rightarrow> True)"
proof (rule emits_nested [where rec = rec and sub = sub and P = P, OF assms, where
      js = "[instr OAS_OP_CHECK_CONTAINS (OpI64 lo), instr OAS_OP_NOP (OpI64 hi)]"])
  fix c
  assume c: "realises E c P" "True \<longrightarrow> balanced c"
  have "balanced (instr OAS_OP_CHECK_CONTAINS (OpI64 lo) #
      (instr OAS_OP_NOP (OpI64 hi) # c) @ [end_instr])"
    using c by (intro balanced_nested balanced_Cons) simp_all
  then show "realises E ([instr OAS_OP_CHECK_CONTAINS (OpI64 lo), instr OAS_OP_NOP (OpI64 hi)] @
        c @ [end_instr])
      (\<lambda>d v. case v of JArr xs \<Rightarrow> (let m = int (length (filter (P d) xs)) in lo \<le> m \<and> (0 \<le> hi \<longrightarrow> m \<le> hi))
       | _ \<Rightarrow> True) \<and>
      (b \<longrightarrow> balanced ([instr OAS_OP_CHECK_CONTAINS (OpI64 lo), instr OAS_OP_NOP (OpI64 hi)] @
        c @ [end_instr]))"
    using c realises_contains [of "instr OAS_OP_CHECK_CONTAINS (OpI64 lo)" end_instr
        "instr OAS_OP_NOP (OpI64 hi)" lo hi E c P]
    by simp
qed (simp_all add: emitters)

lemma emits_negate [kw_intro]:
  assumes "emits E rx b (rec sub) P"
  shows "emits E rx b (nested env rec [emit_simple env OAS_OP_NEGATE] sub) (\<lambda>d v. \<not> P d v)"
  unfolding emitters
  by (rule emits_nested [where rec = rec and sub = sub and P = P, OF assms, where js = "[instr OAS_OP_NEGATE OpZero]"])
    (auto simp: branch_def intro: realises_negate balanced_nested)

section \<open>Patterns\<close>

lemma emits_with_pattern:
  assumes "rx = None \<Longrightarrow> P = (\<lambda>d v. True)"
    and "\<And>q p. rx = Some q \<Longrightarrow> rx_compile q pat = Inr p \<Longrightarrow> emits E rx b (k p) P"
  shows "emits E rx b (with_pattern env msg pat k) P"
proof (rule emitsI)
  fix cs cs' :: "('a, 'c) oas_compiled_schema"
  assume rx: "cs_regex cs = rx" and w: "with_pattern env msg pat k cs = Some (None, cs')"
  show "\<exists>c. adds cs cs' c \<and> clean c \<and> realises E c P \<and> (b \<longrightarrow> balanced c)"
  proof (cases rx)
    case None
    then show ?thesis using w rx assms(1)
      by (auto simp: with_pattern_def intro!: exI [of _ "[]"] adds_refl realises_Nil)
  next
    case (Some q)
    then obtain p where p: "rx_compile q pat = Inr p"
      using w rx by (cases "rx_compile q pat") (auto simp: with_pattern_def)
    then obtain m where m: "track_pattern env p (cs\<lparr>cs_events := Pattern_compiled p # cs_events cs\<rparr>) = Some (None, m)"
      and k: "k p m = Some (None, cs')"
      using w rx Some by (auto simp: with_pattern_def bind_eq_Some_conv split: option.splits)
    have a: "adds cs m []"
      using m by (auto simp: track_pattern_def adds_def Let_def split: if_splits)
    have "cs_regex m = rx" using a rx by (simp add: adds_def)
    from emitsD [OF assms(2) [OF Some p] this k] obtain c where
      "adds m cs' c" "clean c" "realises E c P" "b \<longrightarrow> balanced c" .
    then show ?thesis using adds_trans [OF a] by auto
  qed
qed

lemma emits_pattern [kw_intro]:
  assumes "ve_regex E = map_option rx_match rx"
  shows "emits E rx b (with_pattern env msg pat (emit_ptr_pattern env OAS_OP_CHECK_PATTERN))
    (\<lambda>d v. case (v, rx) of
       (JStr t, Some q) \<Rightarrow> (case rx_compile q pat of Inl _ \<Rightarrow> False | Inr p \<Rightarrow> rx_match q p t)
     | _ \<Rightarrow> True)"
proof (rule emits_with_pattern)
  fix q p
  assume "rx = Some q" "rx_compile q pat = Inr p"
  with assms show "emits E rx b (emit_ptr_pattern env OAS_OP_CHECK_PATTERN p)
    (\<lambda>d v. case (v, rx) of
       (JStr t, Some q) \<Rightarrow> (case rx_compile q pat of Inl _ \<Rightarrow> False | Inr p \<Rightarrow> rx_match q p t)
     | _ \<Rightarrow> True)"
    unfolding emitters
    by (intro emits_leaf) (auto simp: vm_step_def vm_handlers split: json.split)
qed (auto split: json.split)

lemma emits_pattern_property [kw_intro]:
  assumes "ve_regex E = map_option rx_match rx"
    and "\<And>sub. pp_schema pp = Some sub \<Longrightarrow> emits E rx True (rec (Some sub)) (P (Some sub))"
  shows "emits E rx b (compile_pattern_property env rec pp) (meets_pattern_property rx P pp)"
proof (cases "pp_pattern pp"; cases "pp_schema pp")
  fix pat sub
  assume pp: "pp_pattern pp = Some pat" "pp_schema pp = Some sub"
  have "emits E rx b (with_pattern env ''Failed to compile patternProperties pattern: '' pat
      (\<lambda>p. nested env rec [emit_ptr_pattern env OAS_OP_CHECK_PATTERN_PROPS p] (Some sub)))
      (meets_pattern_property rx P pp)"
  proof (rule emits_with_pattern)
    fix q p
    assume q: "rx = Some q" "rx_compile q pat = Inr p"
    have "emits E rx b (nested env rec [emit_ptr_pattern env OAS_OP_CHECK_PATTERN_PROPS p] (Some sub))
      (\<lambda>d v. case v of JObj kvs \<Rightarrow> list_all (P (Some sub) d)
         (map snd (filter (\<lambda>(name, _). rx_match q p name) kvs)) | _ \<Rightarrow> True)"
      unfolding emitters
      by (rule emits_nested [where rec = rec and sub = "Some sub" and P = "P (Some sub)",
            OF assms(2) [OF pp(2)], where js = "[instr OAS_OP_CHECK_PATTERN_PROPS (OpPattern p)]"])
        (use q assms(1) in \<open>auto intro: realises_pattern_props balanced_nested\<close>)
    then show "emits E rx b (nested env rec [emit_ptr_pattern env OAS_OP_CHECK_PATTERN_PROPS p] (Some sub))
        (meets_pattern_property rx P pp)"
      by (rule emits_cong) (simp add: meets_pattern_property_def pp q split: json.split)
  qed (auto simp: meets_pattern_property_def fun_eq_iff split: json.split option.split)
  then show ?thesis using pp by (simp add: compile_pattern_property_def)
qed (auto simp: compile_pattern_property_def meets_pattern_property_def
    intro!: emits_cong [OF emits_step_ok] split: json.split)

section \<open>Compositions\<close>

lemma run_branches:
  assumes "\<And>s. s \<in> set ss \<Longrightarrow> emits E rx False (rec s) (P s)" and "cs_regex cs = rx"
    and "run_steps (concat (map (\<lambda>s. [rec s, emit_simple env OAS_OP_END]) ss)) cs = Some (None, cs')"
  shows "\<exists>bs. adds cs cs' (concat bs) \<and> list_all2 (branch E) bs (map P ss)"
  using assms
proof (induction ss arbitrary: cs)
  case Nil
  then show ?case by (auto simp: adds_def)
next
  case (Cons s ss)
  obtain m where m: "run_steps [rec s, emit_simple env OAS_OP_END] cs = Some (None, m)"
    and r: "run_steps (concat (map (\<lambda>s. [rec s, emit_simple env OAS_OP_END]) ss)) m = Some (None, cs')"
  proof -
    have "run_steps ([rec s, emit_simple env OAS_OP_END] @
        concat (map (\<lambda>s. [rec s, emit_simple env OAS_OP_END]) ss)) cs = Some (None, cs')"
      using Cons.prems(3) by simp
    then show thesis using that unfolding run_steps_append_done by blast
  qed
  have "emits E rx False (rec s) (P s)" using Cons.prems(1) by simp
  from emits_branch [where rec = rec and sub = s, OF this Cons.prems(2) m]
  obtain c where c: "adds cs m (c @ [end_instr])" "realises E c (P s)" by blast
  have "cs_regex m = rx" using c(1) Cons.prems(2) by (simp add: adds_def)
  then obtain bs where bs: "adds m cs' (concat bs)" "list_all2 (branch E) bs (map P ss)"
    using Cons.IH [OF _ _ r] Cons.prems(1) by auto
  have "branch E (c @ [end_instr]) (P s)" using c(2) by (auto simp: branch_def)
  then show ?case
    using adds_trans [OF c(1) bs(1)] bs(2)
    by (intro exI [of _ "(c @ [end_instr]) # bs"]) simp
qed

text \<open>Head instructions, then branches.\<close>

lemma emits_branches:
  fixes E :: "('p, 'e') vm_env" and env :: "('p, 'c) compile_env"
  assumes sub: "\<And>s. s \<in> set ss \<Longrightarrow> emits E rx False (rec s) (P s)"
    and "clean js" and "js \<noteq> []"
    and code: "\<And>bs. list_all2 (branch E) bs (map P ss) \<Longrightarrow> realises E (js @ concat bs) Q"
  shows "emits E rx False
    (run_steps (map (emit env) js @ concat (map (\<lambda>s. [rec s, emit_simple env OAS_OP_END]) ss))) Q"
proof (rule emitsI)
  fix cs cs' :: "('p, 'c) oas_compiled_schema"
  assume rx: "cs_regex cs = rx" and n: "run_steps (map (emit env) js @
    concat (map (\<lambda>s. [rec s, emit_simple env OAS_OP_END]) ss)) cs = Some (None, cs')"
  obtain m where m: "run_steps (map (emit env) js) cs = Some (None, m)"
    and r: "run_steps (concat (map (\<lambda>s. [rec s, emit_simple env OAS_OP_END]) ss)) m = Some (None, cs')"
    using n by (auto simp: run_steps_append_done)
  have am: "adds cs m js" using m by (rule emit_all_adds)
  then have "cs_regex m = rx" using rx by (simp add: adds_def)
  then obtain bs where bs: "adds m cs' (concat bs)" "list_all2 (branch E) bs (map P ss)"
    using run_branches [of ss E rx rec P m env cs'] sub r by blast
  have "adds cs cs' (js @ concat bs)" using am bs(1) by (rule adds_trans)
  moreover have "clean (js @ concat bs)" using assms(2,3) by (cases js) simp_all
  ultimately show "\<exists>c. adds cs cs' c \<and> clean c \<and> realises E c Q \<and> (False \<longrightarrow> balanced c)"
    using code [OF bs(2)] by blast
qed

lemma passed_map: "passed (map P ss) d v = length (filter (\<lambda>s. P s d v) ss)"
  by (simp add: passed_def filter_map comp_def)

lemma emits_cong_realises:
  assumes "realises E c P" and "P = Q"
  shows "realises E c Q"
  using assms by simp

lemma emits_compositions:
  fixes E :: "('p, 'e') vm_env" and env :: "('p, 'c) compile_env"
  assumes "\<And>s. s \<in> set ss \<Longrightarrow> emits E rx False (rec s) (P s)" and "length ss < 65536"
  shows "emits E rx False (compile_composition env rec OAS_OP_BRANCH_ALLOF ss)
      (\<lambda>d v. list_all (\<lambda>s. P s d v) ss)"
    and "emits E rx False (compile_composition env rec OAS_OP_BRANCH_ANYOF ss)
      (\<lambda>d v. list_ex (\<lambda>s. P s d v) ss)"
    and "emits E rx False (compile_composition env rec OAS_OP_BRANCH_ONEOF ss)
      (\<lambda>d v. length (filter (\<lambda>s. P s d v) ss) = 1)"
proof -
  let ?i = "\<lambda>oper. instr oper (OpBranch (of_nat (length ss)) 0) :: 'p oas_instruction"
  have e: "emits E rx False (compile_composition env rec oper ss) Q"
    if "oper \<noteq> OAS_OP_COND_THEN" "oper \<noteq> OAS_OP_COND_ELSE"
      "\<And>bs. list_all2 (branch E) bs (map P ss) \<Longrightarrow> realises E (?i oper # concat bs) Q" for oper Q
    using emits_branches [of ss E rx rec P "[?i oper]" Q env] assms(1) that
    by (simp add: compile_composition_def emit_branch_def)
  have l: "length bs = length ss" if "list_all2 (branch E) bs (map P ss)" for bs
    using list_all2_lengthD [OF that] by simp
  show "emits E rx False (compile_composition env rec OAS_OP_BRANCH_ALLOF ss)
      (\<lambda>d v. list_all (\<lambda>s. P s d v) ss)"
    by (rule e, simp, simp, rule emits_cong_realises,
        rule realises_allof [of "?i OAS_OP_BRANCH_ALLOF"])
      (use l assms(2) in \<open>auto simp: list.pred_map comp_def\<close>)
  show "emits E rx False (compile_composition env rec OAS_OP_BRANCH_ANYOF ss)
      (\<lambda>d v. list_ex (\<lambda>s. P s d v) ss)"
    by (rule e, simp, simp, rule emits_cong_realises,
        rule realises_anyof [of "?i OAS_OP_BRANCH_ANYOF"])
      (use l assms(2) in \<open>auto simp: passed_map filter_empty_conv list_ex_iff\<close>)
  show "emits E rx False (compile_composition env rec OAS_OP_BRANCH_ONEOF ss)
      (\<lambda>d v. length (filter (\<lambda>s. P s d v) ss) = 1)"
    by (rule e, simp, simp, rule emits_cong_realises,
        rule realises_oneof [of "?i OAS_OP_BRANCH_ONEOF"])
      (use l assms(2) in \<open>auto simp: passed_map\<close>)
qed

lemma emits_discriminator:
  fixes E :: "('p, 'e') vm_env" and env :: "('p, 'c) compile_env"
  assumes "\<And>s. s \<in> set ss \<Longrightarrow> emits E rx False (rec s) (P s)" and "length ss = length keys"
  shows "emits E rx False (run_steps
      ([emit_str env OAS_OP_DISCRIMINATOR p, emit_i64 env OAS_OP_NOP (int (length keys))]
       @ map (emit_str env OAS_OP_NOP) keys
       @ concat (map (\<lambda>b. [rec b, emit_simple env OAS_OP_END]) ss)))
    (discriminates (ve_yy E) p keys (map P ss))"
proof -
  let ?nops = "map (\<lambda>k. instr OAS_OP_NOP (OpStr k)) keys :: 'p oas_instruction list"
  let ?js = "instr OAS_OP_DISCRIMINATOR (OpStr p) # instr OAS_OP_NOP (OpI64 (int (length keys))) # ?nops"
  have n: "list_all2 str_nop ?nops keys"
    by (simp add: list_all2_map1 str_nop_def list.rel_refl)
  have "realises E (?js @ concat bs) (discriminates (ve_yy E) p keys (map P ss))"
    if "list_all2 (branch E) bs (map P ss)" for bs
    using realises_discriminator [OF _ _ _ n _ that, of "instr OAS_OP_DISCRIMINATOR (OpStr p)" p
        "instr OAS_OP_NOP (OpI64 (int (length keys)))"] list_all2_lengthD [OF that] assms(2)
    by simp
  moreover have "emit_str env OAS_OP_NOP = (\<lambda>k. emit env (instr OAS_OP_NOP (OpStr k)))"
    by (simp add: fun_eq_iff emit_str_def)
  ultimately show ?thesis
    using emits_branches [of ss E rx rec P ?js _ env, OF assms(1)]
    by (simp add: emitters comp_def)
qed

section \<open>Conditionals\<close>

lemma cond_part_emitted:
  assumes "s \<noteq> None \<Longrightarrow> emits E rx True (rec s) P" and "cs_regex cs = rx"
    and "compile_conditional_part env rec oper s cs = Some (None, cs')"
  shows "\<exists>c. adds cs cs' c \<and> cond_piece E oper c (if s = None then (\<lambda>d v. True) else P)"
proof (cases "s = None")
  case True
  then show ?thesis using assms(3)
    by (auto simp: compile_conditional_part_def step_ok_def cond_piece_def intro!: exI [of _ "[]"] adds_refl)
next
  case False
  obtain m where m: "emit env (instr oper OpZero) cs = Some (None, m)"
    and r: "run_steps [rec s, emit_simple env OAS_OP_END] m = Some (None, cs')"
    using assms(3) False by (auto simp: compile_conditional_part_def nested_def emit_simple_def
        run_steps_Cons_done)
  have a: "adds cs m [instr oper OpZero]" using m by (rule emit_adds)
  then have "cs_regex m = rx" using assms(2) by (simp add: adds_def)
  then obtain c where c: "adds m cs' (c @ [end_instr])" "realises E c P" "balanced c"
    using emits_branch [of E rx True rec s P m env cs'] assms(1) False r by blast
  have "cond_piece E oper ([instr oper OpZero] @ c @ [end_instr]) P"
    using c by (auto simp: cond_piece_def)
  then show ?thesis using adds_trans [OF a c(1)] False by auto
qed

lemma emits_conditional:
  assumes i: "s \<noteq> None" "emits E rx b (rec s) P"
    and t: "t \<noteq> None \<Longrightarrow> emits E rx True (rec t) T" and f: "f \<noteq> None \<Longrightarrow> emits E rx True (rec f) F"
  shows "emits E rx b (run_steps
      [compile_conditional_part env rec OAS_OP_COND_IF s,
       compile_conditional_part env rec OAS_OP_COND_THEN t,
       compile_conditional_part env rec OAS_OP_COND_ELSE f])
    (\<lambda>d v. if P d v then t \<noteq> None \<longrightarrow> T d v else f \<noteq> None \<longrightarrow> F d v)"
proof (rule emitsI)
  fix cs cs' :: "('a, 'c) oas_compiled_schema"
  assume rx: "cs_regex cs = rx" and n: "run_steps
      [compile_conditional_part env rec OAS_OP_COND_IF s,
       compile_conditional_part env rec OAS_OP_COND_THEN t,
       compile_conditional_part env rec OAS_OP_COND_ELSE f] cs = Some (None, cs')"
  obtain m1 m2 m3 where m1: "emit env (instr OAS_OP_COND_IF OpZero) cs = Some (None, m1)"
    and m2: "run_steps [rec s, emit_simple env OAS_OP_END] m1 = Some (None, m2)"
    and m3: "compile_conditional_part env rec OAS_OP_COND_THEN t m2 = Some (None, m3)"
    and m4: "compile_conditional_part env rec OAS_OP_COND_ELSE f m3 = Some (None, cs')"
    using n i(1) by (auto simp: compile_conditional_part_def [of env rec OAS_OP_COND_IF] nested_def
        emit_simple_def run_steps_Cons_done)
  have a1: "adds cs m1 [instr OAS_OP_COND_IF OpZero]" using m1 by (rule emit_adds)
  then have r1: "cs_regex m1 = rx" using rx by (simp add: adds_def)
  obtain c where c: "adds m1 m2 (c @ [end_instr])" "realises E c P" "b \<longrightarrow> balanced c"
    using emits_branch [of E rx b rec s P m1 env m2] i r1 m2 by blast
  have r2: "cs_regex m2 = rx" using c(1) r1 by (simp add: adds_def)
  let ?T = "if t = None then \<lambda>d v. True else T" and ?F = "if f = None then \<lambda>d v. True else F"
  obtain ct where ct: "adds m2 m3 ct" "cond_piece E OAS_OP_COND_THEN ct ?T"
    using cond_part_emitted [OF t r2 m3] by blast
  have r3: "cs_regex m3 = rx" using ct(1) r2 by (simp add: adds_def)
  obtain cf where cf: "adds m3 cs' cf" "cond_piece E OAS_OP_COND_ELSE cf ?F"
    using cond_part_emitted [OF f r3 m4] by blast
  let ?c = "instr OAS_OP_COND_IF OpZero # (c @ [end_instr]) @ ct @ cf"
  have "adds cs cs' ?c" using adds_trans [OF adds_trans [OF adds_trans [OF a1 c(1)] ct(1)] cf(1)] by simp
  moreover have "branch E (c @ [end_instr]) P" using c(2) by (auto simp: branch_def)
  then have "realises E ?c (\<lambda>d v. if P d v then ?T d v else ?F d v)"
    using ct(2) cf(2) by (intro realises_cond) (simp_all only: op_instr)
  moreover have "balanced ?c" if b
    using balanced_nested [of "instr OAS_OP_COND_IF OpZero" end_instr c] c(3) that
      balanced_cond_piece [OF ct(2)] balanced_cond_piece [OF cf(2)] balanced_append
    by (metis append.assoc append_Cons is_nesting_op.simps(6-8) op_instr(1))
  moreover have "(\<lambda>d v. if P d v then ?T d v else ?F d v) =
      (\<lambda>d v. if P d v then t \<noteq> None \<longrightarrow> T d v else f \<noteq> None \<longrightarrow> F d v)"
    by (auto simp: fun_eq_iff)
  ultimately show "\<exists>c. adds cs cs' c \<and> clean c \<and> realises E c
      (\<lambda>d v. if P d v then t \<noteq> None \<longrightarrow> T d v else f \<noteq> None \<longrightarrow> F d v) \<and> (b \<longrightarrow> balanced c)"
    by (intro exI [of _ ?c]) auto
qed

section \<open>Groups of keywords\<close>

lemma emits_meets_type: "emits E rx b (run_steps (compile_type env s)) (meets_type s)"
  unfolding compile_type_def
  by (rule emits_cong, (rule kw_intro)+) (simp add: meets_type_def)

lemma emits_format [kw_intro]: "emits E rx b (compile_format env s) (meets_format env s)"
proof (cases "\<exists>f config fn. s_format s = Some f \<and> ce_config env = Some config \<and>
    cc_format_policy config \<noteq> OAS_FORMAT_IGNORE \<and> oas_format_get f = Some fn")
  case True
  then obtain f config fn where "s_format s = Some f" "ce_config env = Some config"
    "cc_format_policy config \<noteq> OAS_FORMAT_IGNORE" "oas_format_get f = Some fn" by blast
  then show ?thesis
    using emits_cong [OF emits_string_checks(3) [of E rx b env fn], of "meets_format env s"]
    by (simp add: compile_format_def meets_format_def split: json.split)
next
  case False
  then have "compile_format env s = step_ok" and "meets_format env s = (\<lambda>d v. True)"
    by (auto simp: compile_format_def meets_format_def fun_eq_iff split: option.split json.split)
  then show ?thesis by (simp add: emits_step_ok)
qed

lemma emits_meets_string:
  assumes "ve_regex E = map_option rx_match rx"
  shows "emits E rx b (run_steps (compile_string env s))
    (\<lambda>d v. meets_length s d v \<and> meets_pattern rx s d v \<and> meets_format env s d v)"
proof -
  have "emits E rx b (case s_pattern s of None \<Rightarrow> step_ok
      | Some p \<Rightarrow> with_pattern env ''Failed to compile pattern: '' p
          (emit_ptr_pattern env OAS_OP_CHECK_PATTERN)) (meets_pattern rx s)"
  proof (cases "s_pattern s")
    case None
    then have "meets_pattern rx s = (\<lambda>d v. True)"
      by (auto simp: meets_pattern_def fun_eq_iff split: json.split)
    then show ?thesis using None by (simp add: emits_step_ok)
  next
    case (Some p)
    have "emits E rx b (with_pattern env ''Failed to compile pattern: '' p
        (emit_ptr_pattern env OAS_OP_CHECK_PATTERN)) (meets_pattern rx s)"
      by (rule emits_cong [OF emits_pattern [OF assms]])
        (simp add: meets_pattern_def Some split: json.split)
    then show ?thesis using Some by simp
  qed
  note [kw_intro] = this
  show ?thesis
    unfolding compile_string_def
    by (rule emits_cong, (rule kw_intro)+) (auto simp: meets_length_def split: json.split)
qed

lemma emits_meets_numeric:
  "emits E rx b (run_steps (compile_numeric env s)) (meets_numeric (ve_yy E) s)"
  unfolding compile_numeric_def
  by (rule emits_cong, (rule kw_intro)+) (auto simp: meets_numeric_def Let_def)

lemma emits_meets_values:
  "emits E rx b (run_steps (compile_values env s)) (meets_values (ve_yy E) s)"
proof -
  have "emits E rx b (case s_enum_values s of None \<Rightarrow> step_ok
      | Some v \<Rightarrow> emit_ptr_json env OAS_OP_CHECK_ENUM v)
    (\<lambda>d v. case s_enum_values s of Some (JArr items) \<Rightarrow> list_ex (yy_equals (ve_yy E) v) items | _ \<Rightarrow> True)"
    using emits_step_ok [of E rx b] emits_value_checks(1) [of E rx b env]
    by (cases "s_enum_values s") simp_all
  moreover have "emits E rx b (case s_const_value s of None \<Rightarrow> step_ok
      | Some v \<Rightarrow> emit_ptr_json env OAS_OP_CHECK_CONST v)
    (\<lambda>d v. case s_const_value s of Some c \<Rightarrow> yy_equals (ve_yy E) v c | None \<Rightarrow> True)"
    using emits_step_ok [of E rx b] emits_value_checks(2) [of E rx b env]
    by (cases "s_const_value s") simp_all
  moreover note [kw_intro] = calculation
  show ?thesis
    unfolding compile_values_def
    by (rule emits_cong, (rule kw_intro)+) (auto simp: meets_values_def)
qed

text \<open>The keywords with sub-schemas, for a compiler \<open>rec\<close> that is right about them.\<close>

lemma emits_meets_array:
  assumes sub: "\<And>x. S True x \<Longrightarrow> emits E rx True (rec x) (R x)"
    and ok: "length (s_prefix_items s) \<le> 65536" "list_all (S True) (s_prefix_items s)" "S True (s_items s)"
  shows "emits E rx b (run_steps (compile_array env rec s)) (meets_array (ve_yy E) R s)"
proof -
  have idx: "unat (of_nat i :: u16) = i" and el: "S True x"
    if "(i, x) \<in> set (List.enumerate 0 (s_prefix_items s))" for i x
    using that ok branch_count by (auto simp: in_set_enumerate_eq list_all_iff)
  let ?P = "\<lambda>(i, sub) d v. case v of JArr xs \<Rightarrow> i < length xs \<longrightarrow> R sub d (xs ! i) | _ \<Rightarrow> True"
  have "emits E rx b (case x of (i, sub) \<Rightarrow> nested env rec [emit_prefix_item env (of_nat i)] sub) (?P x)"
    if "x \<in> set (List.enumerate 0 (s_prefix_items s))" for x
  proof -
    obtain i y where x: "x = (i, y)" by (cases x)
    show ?thesis
      unfolding x prod.case
      by (rule emits_cong [OF emits_entered(2) [where rec = rec, OF sub [OF el]]])
        (use that idx x in \<open>auto split: json.split\<close>)
  qed
  from emits_map [of _ E rx b, OF this]
  have pre: "emits E rx b (run_steps (map (\<lambda>(i, sub). nested env rec [emit_prefix_item env (of_nat i)] sub)
      (List.enumerate 0 (s_prefix_items s))))
    (\<lambda>d v. list_all (\<lambda>x. ?P x d v) (List.enumerate 0 (s_prefix_items s)))" .
  show ?thesis
    unfolding compile_array_def
    by (rule emits_cong, rule emits_append, (rule kw_intro)+, rule emits_append, rule pre,
        (rule kw_intro sub [OF ok(3)])+)
      (auto simp: meets_array_def list_all_iff split: json.split)
qed

lemma emits_meets_object:
  assumes sub: "\<And>x. S True x \<Longrightarrow> emits E rx True (rec x) (R x)"
    and ok: "list_all (\<lambda>q. S True (p_schema q)) (s_properties s)" "S True (s_property_names s)"
      "s_additional_properties s = None"
  shows "emits E rx b (run_steps (compile_properties env rec s)) (meets_object (ve_yy E) R s)"
proof -
  have props: "emits E rx True (rec (p_schema q)) (R (p_schema q))" if "q \<in> set (s_properties s)" for q
    using sub ok(1) that by (simp add: list_all_iff)
  have none: "emits E rx b (step_when (s_additional_properties s \<noteq> None) f) (\<lambda>d v. True)" for f
    using emits_step_ok by (simp add: ok(3) step_when_def)
  show ?thesis
    unfolding compile_properties_def
    by (rule emits_cong, rule emits_append, rule emits_map, rule kw_intro, rule emits_append,
        rule emits_map, rule emits_entered(3), erule props, rule emits_Cons, rule none,
        (rule kw_intro sub [OF ok(2)])+)
      (auto simp: meets_object_def list_all_iff split: json.split option.split)
qed

lemma emits_meets_dependencies:
  assumes sub: "\<And>x. S True x \<Longrightarrow> emits E rx True (rec x) (R x)"
    and rx: "ve_regex E = map_option rx_match rx"
    and ok: "list_all (\<lambda>p. S True (pp_schema p)) (s_pattern_properties s)"
      "list_all (\<lambda>r. S True (ds_schema r)) (s_dependent_schemas s)"
  shows "emits E rx b (run_steps (compile_dependencies env rec s)) (meets_dependencies (ve_yy E) rx R s)"
proof -
  have pps: "emits E rx b (compile_pattern_property env rec pp) (meets_pattern_property rx R pp)"
    if "pp \<in> set (s_pattern_properties s)" for pp
    using sub ok(1) that by (intro emits_pattern_property [OF rx]) (auto simp: list_all_iff)
  have ds: "emits E rx True (rec (ds_schema r)) (R (ds_schema r))" if "r \<in> set (s_dependent_schemas s)" for r
    using sub ok(2) that by (simp add: list_all_iff)
  have req: "emits E rx b (run_steps
      ([emit_str env OAS_OP_CHECK_DEP_REQUIRED (dr_property r),
        emit_i64 env OAS_OP_NOP (int (length (dr_required r)))]
       @ map (emit_str env OAS_OP_NOP) (dr_required r)))
    (\<lambda>d v. is_jobj v \<longrightarrow> has_prop (ve_yy E) v (dr_property r) \<longrightarrow>
       list_all (has_prop (ve_yy E) v) (dr_required r))" for r
  proof (rule emitsI)
    fix cs cs' :: "('a, 'c) oas_compiled_schema"
    let ?nops = "map (\<lambda>k. instr OAS_OP_NOP (OpStr k)) (dr_required r) :: 'a oas_instruction list"
    let ?c = "instr OAS_OP_CHECK_DEP_REQUIRED (OpStr (dr_property r)) #
      instr OAS_OP_NOP (OpI64 (int (length (dr_required r)))) # ?nops"
    assume "run_steps ([emit_str env OAS_OP_CHECK_DEP_REQUIRED (dr_property r),
        emit_i64 env OAS_OP_NOP (int (length (dr_required r)))]
       @ map (emit_str env OAS_OP_NOP) (dr_required r)) cs = Some (None, cs')"
    moreover have "emit_str env OAS_OP_NOP = (\<lambda>k. emit env (instr OAS_OP_NOP (OpStr k)))"
      by (simp add: fun_eq_iff emit_str_def)
    ultimately have "run_steps (map (emit env) ?c) cs = Some (None, cs')"
      by (simp add: emitters comp_def)
    then have a: "adds cs cs' ?c" by (rule emit_all_adds)
    have n: "list_all2 str_nop ?nops (dr_required r)"
      by (simp add: list_all2_map1 str_nop_def list.rel_refl)
    have "realises E ?c (\<lambda>d v. is_jobj v \<longrightarrow> yy_obj_get (ve_yy E) v (dr_property r) \<noteq> None \<longrightarrow>
        list_all (\<lambda>k. yy_obj_get (ve_yy E) v k \<noteq> None) (dr_required r))"
      by (rule realises_dep_required [OF _ _ _ n]) simp_all
    moreover have "balanced ?c" by (intro balanced_Cons balanced_str_nops [OF n]) simp_all
    ultimately show "\<exists>c. adds cs cs' c \<and> clean c \<and> realises E c (\<lambda>d v. is_jobj v \<longrightarrow>
        has_prop (ve_yy E) v (dr_property r) \<longrightarrow> list_all (has_prop (ve_yy E) v) (dr_required r)) \<and>
        (b \<longrightarrow> balanced c)"
      using a unfolding has_prop_def by (intro exI [of _ ?c]) simp
  qed
  show ?thesis
    unfolding compile_dependencies_def
    by (rule emits_cong, rule emits_append, rule emits_map, erule pps, rule emits_append,
        rule emits_map, rule req, rule emits_map, rule emits_when, rule emits_entered(5), erule ds)
      (auto simp: meets_dependencies_def list_all_iff)
qed

lemma emits_meets_contains:
  assumes "S True (s_contains s)" and "\<And>x. S True x \<Longrightarrow> emits E rx True (rec x) (R x)"
  shows "emits E rx b (run_steps (compile_contains env rec s)) (meets_contains R s)"
  unfolding compile_contains_def
  by (rule emits_cong, (rule kw_intro assms(2) [OF assms(1)])+)
    (auto simp: meets_contains_def split: json.split)

lemma emits_meets_conditionals:
  assumes sub: "\<And>b x. S b x \<Longrightarrow> emits E rx b (rec x) (R x)"
    and ok: "S b (s_not_schema s)" "S b (s_if_schema s)" "S True (s_then_schema s)" "S True (s_else_schema s)"
  shows "emits E rx b (run_steps (compile_conditionals env rec s)) (meets_conditionals R s)"
  unfolding compile_conditionals_def
  by (rule emits_cong, rule emits_Cons, rule emits_when, rule emits_negate, rule sub [OF ok(1)],
      rule emits_Cons, rule emits_when, rule emits_conditional, assumption, rule sub [OF ok(2)],
      rule sub [OF ok(3)], rule sub [OF ok(4)], rule emits_Nil)
    (auto simp: meets_conditionals_def)

lemma emits_meets_compositions:
  assumes sub: "\<And>x. S x \<Longrightarrow> emits E rx False (rec x) (R x)"
    and ok: "supported_compositions S b s"
  shows "emits E rx b (run_steps (compile_compositions env rec s)) (meets_compositions (ve_yy E) R s)"
proof (cases b)
  case True
  then have none: "s_all_of s = []" "s_any_of s = []" "s_one_of s = []"
    using ok by (simp_all add: supported_compositions_def)
  have "compile_discriminator env rec s = step_ok"
    using none by (simp add: compile_discriminator_def step_when_def)
  then show ?thesis
    unfolding compile_compositions_def using none
    by (auto simp: step_when_def meets_compositions_def
        intro!: emits_Cons [THEN emits_cong] emits_step_ok emits_Nil emits_cong [OF emits_Cons])
next
  case False
  have all: "emits E rx False (rec x) (R x)" if "x \<in> set (s_all_of s @ s_any_of s @ s_one_of s)" for x
    using that sub ok False by (auto simp: supported_compositions_def branches_ok_def list_all_iff)
  have len: "length (s_all_of s) < 65536" "length (s_any_of s) < 65536" "length (s_one_of s) < 65536"
    using ok False by (simp_all add: supported_compositions_def branches_ok_def)
  have a: "emits E rx False (step_when (s_all_of s \<noteq> [])
      (compile_composition env rec OAS_OP_BRANCH_ALLOF (s_all_of s))) (\<lambda>d v. list_all (\<lambda>x. R x d v) (s_all_of s))"
    by (rule emits_cong [OF emits_when [OF emits_compositions(1) [OF all len(1)]]]) auto
  show ?thesis
  proof (cases "has_discriminator s")
    case disc: True
    let ?bs = "if s_one_of s \<noteq> [] then s_one_of s else s_any_of s"
    have l: "?bs \<noteq> [] \<Longrightarrow> length ?bs = length (map dm_key (s_discriminator_mapping s))"
      using ok False disc by (auto simp: supported_compositions_def split: if_splits)
    have e: "emits E rx False (compile_discriminator env rec s)
      (\<lambda>d v. ?bs \<noteq> [] \<and> length ?bs = length (map dm_key (s_discriminator_mapping s)) \<longrightarrow>
         discriminates (ve_yy E) (the (s_discriminator_property s))
           (map dm_key (s_discriminator_mapping s)) (map R ?bs) d v)"
      unfolding compile_discriminator_def Let_def
      by (rule emits_when, rule emits_discriminator, rule all) (auto split: if_splits)
    have "emits E rx False (run_steps [step_when (s_all_of s \<noteq> [])
        (compile_composition env rec OAS_OP_BRANCH_ALLOF (s_all_of s)), compile_discriminator env rec s])
      (meets_compositions (ve_yy E) R s)"
      by (rule emits_cong [OF emits_Cons [OF a emits_Cons [OF e emits_Nil]]])
        (use l in \<open>auto simp: meets_compositions_def disc Let_def\<close>)
    then show ?thesis using False disc by (simp add: compile_compositions_def)
  next
    case nodisc: False
    have "emits E rx False (run_steps
        [step_when (s_all_of s \<noteq> []) (compile_composition env rec OAS_OP_BRANCH_ALLOF (s_all_of s)),
         step_when (s_any_of s \<noteq> []) (compile_composition env rec OAS_OP_BRANCH_ANYOF (s_any_of s)),
         step_when (s_one_of s \<noteq> []) (compile_composition env rec OAS_OP_BRANCH_ONEOF (s_one_of s))])
      (meets_compositions (ve_yy E) R s)"
      by (rule emits_cong [OF emits_Cons [OF a emits_Cons [OF
              emits_when [OF emits_compositions(2) [OF all len(2)]]
              emits_Cons [OF emits_when [OF emits_compositions(3) [OF all len(3)]] emits_Nil]]]])
        (auto simp: meets_compositions_def nodisc)
    then show ?thesis using False nodisc by (simp add: compile_compositions_def)
  qed
qed

section \<open>Schemas\<close>

lemma emits_node:
  assumes sub: "\<And>b x. S b x \<Longrightarrow> emits E rx b (rec x) (R x)"
    and ok: "supported_node S b s" and rx: "ve_regex E = map_option rx_match rx"
    and env: "rx = config_regex env"
  shows "emits E rx b (compile_node env rec s) (accepts_node (ve_yy E) env R s)"
proof -
  have o: "s_additional_properties s = None" "length (s_prefix_items s) \<le> 65536"
    "list_all (S True) (s_prefix_items s)" "list_all (\<lambda>q. S True (p_schema q)) (s_properties s)"
    "list_all (\<lambda>p. S True (pp_schema p)) (s_pattern_properties s)"
    "list_all (\<lambda>r. S True (ds_schema r)) (s_dependent_schemas s)"
    "S True (s_items s)" "S True (s_property_names s)" "S True (s_contains s)"
    "S True (s_then_schema s)" "S True (s_else_schema s)" "S b (s_not_schema s)" "S b (s_if_schema s)"
    "supported_compositions (S False) b s"
    using ok by (simp_all add: supported_node_def)
  note groups = emits_meets_type emits_meets_string [OF rx] emits_meets_numeric
    emits_meets_array [where rec = rec and S = S and R = R and s = s, OF sub o(2,3,7)]
    emits_meets_object [where rec = rec and S = S and R = R and s = s, OF sub o(4,8,1)]
    emits_meets_dependencies [where rec = rec and S = S and R = R and s = s, OF sub rx o(5,6)]
    emits_meets_contains [where rec = rec and S = S and R = R and s = s, OF o(9) sub]
    emits_meets_compositions [where rec = rec and S = "S False" and R = R and s = s, OF sub o(14)]
    emits_meets_conditionals [where rec = rec and S = S and R = R and s = s, OF sub o(12,13,10,11)]
    emits_meets_values
  show ?thesis
    unfolding compile_node_def
    by (rule emits_cong, (rule emits_append groups | assumption)+) (auto simp: accepts_node_def env)
qed

lemma emits_schema:
  assumes "ve_regex E = map_option rx_match rx" and "rx = config_regex env"
  shows "supported n (ce_heap env) b s \<Longrightarrow>
    emits E rx b (compile_schema n env s) (accepts n (ve_yy E) env s)"
proof (induction n arbitrary: b s)
  case 0
  then show ?case using emits_step_ok by simp
next
  case (Suc n)
  show ?case
  proof (cases s)
    case None
    then show ?thesis using emits_step_ok by simp
  next
    case (Some p)
    show ?thesis
    proof (cases "ce_heap env p")
      case None
      then show ?thesis using Some by (simp add: emits_def)
    next
      case node: (Some x)
      show ?thesis
      proof (cases "s_ref_resolved x")
        case None
        have "supported_node (supported n (ce_heap env)) b x"
          using Suc.prems Some node None by simp
        from emits_node [OF Suc.IH this assms]
        have "emits E rx b (compile_node env (compile_schema n env) x)
          (accepts_node (ve_yy E) env (accepts n (ve_yy E) env) x)" .
        then show ?thesis using Some node None by (simp add: emits_def step_fail_def)
      next
        case ref: (Some r)
        then show ?thesis using Suc Some node by simp
      qed
    qed
  qed
qed

end
