(* ===== verification/Liboas_Compile_Steps.thy ===== *)
theory Liboas_Compile_Steps
  imports Liboas_Compiler "HOL-Library.Multiset"
begin

text \<open>
  What holds of every step of the compiler because it holds of the few steps it is made
  of: the locale \<open>compile_closed\<close> is that argument, interpreted for coming back and for
  the ownership of compiled patterns (and, in \<open>Liboas_Total\<close>, for success).
\<close>

section \<open>The shape of the compiler\<close>

text \<open>The pointers the program of a node is compiled from.\<close>

definition subschemas :: "oas_schema \<Rightarrow> sref option set" where
  "subschemas s =
     set (s_prefix_items s) \<union> p_schema ` set (s_properties s) \<union>
     {x \<in> pp_schema ` set (s_pattern_properties s). x \<noteq> None} \<union>
     {x \<in> ds_schema ` set (s_dependent_schemas s). x \<noteq> None} \<union>
     set (s_all_of s) \<union> set (s_any_of s) \<union> set (s_one_of s) \<union>
     ({s_items s, s_additional_properties s, s_property_names s, s_contains s, s_not_schema s,
       s_if_schema s, s_then_schema s, s_else_schema s} - {None})"

locale compile_closed =
  fixes env :: "('p, 'e) compile_env" and Q :: "('p, 'e) compile_step \<Rightarrow> bool"
  assumes closed_emit: "Q (emit env i)"
    and closed_steps: "(\<And>f. f \<in> set fs \<Longrightarrow> Q f) \<Longrightarrow> Q (run_steps fs)"
    and closed_pattern: "(\<And>p. Q (k p)) \<Longrightarrow> Q (with_pattern env msg pat k)"
begin

lemma closed_ok: "Q step_ok"
proof -
  have "run_steps [] = (step_ok :: ('p, 'e) compile_step)" by (simp add: fun_eq_iff step_ok_def)
  then show ?thesis using closed_steps [of "[]"] by (metis empty_iff list.set(1))
qed

lemma closed_emitters:
  "Q (emit_simple env oper)" "Q (emit_i64 env oper n)" "Q (emit_f64 env oper x)"
  "Q (emit_str env oper t)" "Q (emit_ptr_pattern env oper p)" "Q (emit_ptr_format env oper f)"
  "Q (emit_ptr_json env oper v)" "Q (emit_type env m)" "Q (emit_branch env oper c)"
  "Q (emit_prefix_item env c)"
  by (simp_all add: emitters closed_emit)

lemma closed_when: "(q \<Longrightarrow> Q f) \<Longrightarrow> Q (step_when q f)"
  by (simp add: step_when_def closed_ok)

lemma closed_nested:
  assumes "Q (rec sub)" and "\<And>f. f \<in> set head \<Longrightarrow> Q f"
  shows "Q (nested env rec head sub)"
  unfolding nested_def using assms closed_emitters by (intro closed_steps) auto

lemma closed_branches:
  assumes "\<And>s. s \<in> set ss \<Longrightarrow> Q (rec s)"
    and "f \<in> set (concat (map (\<lambda>s. [rec s, emit_simple env OAS_OP_END]) ss))"
  shows "Q f"
  using assms closed_emitters(1) by auto

lemma closed_conditional_part:
  "(s \<noteq> None \<Longrightarrow> Q (rec s)) \<Longrightarrow> Q (compile_conditional_part env rec oper s)"
  by (auto simp: compile_conditional_part_def intro!: closed_ok closed_nested closed_emitters)

lemma closed_simple_groups:
  assumes "f \<in> set (compile_type env s @ compile_string env s @ compile_numeric env s
    @ compile_values env s)"
  shows "Q f"
proof -
  have "Q (compile_format env s)"
    by (auto simp: compile_format_def intro!: closed_ok closed_emitters split: option.split)
  then show ?thesis
    using assms
    by (auto simp: compile_type_def compile_string_def compile_numeric_def compile_values_def
        intro!: closed_when closed_emitters closed_pattern closed_ok split: option.splits)
qed

lemma closed_array_groups:
  assumes "\<And>x. x \<in> subschemas s \<Longrightarrow> Q (rec x)"
    and "f \<in> set (compile_array env rec s @ compile_contains env rec s)"
  shows "Q f"
proof -
  have "Q (rec (s_prefix_items s ! i))" if "i < length (s_prefix_items s)" for i
    using assms(1) that nth_mem by (auto simp: subschemas_def)
  moreover have "s_items s \<noteq> None \<Longrightarrow> Q (rec (s_items s))"
    "s_contains s \<noteq> None \<Longrightarrow> Q (rec (s_contains s))"
    using assms(1) by (auto simp: subschemas_def)
  ultimately show ?thesis
    using assms(2)
    by (auto simp: compile_array_def compile_contains_def in_set_enumerate_eq
        simp del: not_None_eq intro!: closed_when closed_nested closed_emitters)
qed

lemma closed_object_groups:
  assumes "\<And>x. x \<in> subschemas s \<Longrightarrow> Q (rec x)" and "f \<in> set (compile_properties env rec s)"
  shows "Q f"
proof -
  have "q \<in> set (s_properties s) \<Longrightarrow> Q (rec (p_schema q))" for q
    using assms(1) by (auto simp: subschemas_def)
  moreover have "s_additional_properties s \<noteq> None \<Longrightarrow> Q (rec (s_additional_properties s))"
    "s_property_names s \<noteq> None \<Longrightarrow> Q (rec (s_property_names s))"
    using assms(1) by (auto simp: subschemas_def)
  ultimately show ?thesis
    using assms(2)
    by (auto simp: compile_properties_def simp del: not_None_eq
        intro!: closed_when closed_nested closed_emitters)
qed

lemma closed_pattern_property:
  assumes "\<And>x. x \<in> subschemas s \<Longrightarrow> Q (rec x)" and "pp \<in> set (s_pattern_properties s)"
  shows "Q (compile_pattern_property env rec pp)"
proof (cases "pp_pattern pp"; cases "pp_schema pp")
  fix pat x
  assume pp: "pp_pattern pp = Some pat" "pp_schema pp = Some x"
  have "pp_schema pp \<in> pp_schema ` set (s_pattern_properties s)" using assms(2) by (rule imageI)
  then have "pp_schema pp \<in> subschemas s" using pp by (simp add: subschemas_def)
  then have "Q (rec (Some x))" using assms(1) pp by simp
  then show ?thesis
    unfolding compile_pattern_property_def pp option.case prod.case
    by (intro closed_pattern closed_nested) (auto intro: closed_emitters)
qed (simp_all add: compile_pattern_property_def closed_ok)

lemma closed_dependency_groups:
  assumes "\<And>x. x \<in> subschemas s \<Longrightarrow> Q (rec x)" and "f \<in> set (compile_dependencies env rec s)"
  shows "Q f"
proof -
  consider (pattern) q where "q \<in> set (s_pattern_properties s)" "f = compile_pattern_property env rec q"
    | (required) r :: oas_dependent_required where "f = run_steps ([emit_str env OAS_OP_CHECK_DEP_REQUIRED (dr_property r),
          emit_i64 env OAS_OP_NOP (int (length (dr_required r)))]
        @ map (emit_str env OAS_OP_NOP) (dr_required r))"
    | (schema) r where "r \<in> set (s_dependent_schemas s)" "f = step_when (ds_schema r \<noteq> None)
        (nested env rec [emit_str env OAS_OP_CHECK_DEP_SCHEMA (ds_property r)] (ds_schema r))"
    using assms(2) unfolding compile_dependencies_def set_append set_map Un_iff image_iff by metis
  then show ?thesis
  proof cases
    case pattern
    then show ?thesis using closed_pattern_property [OF assms(1)] by simp
  next
    case required
    then show ?thesis using closed_emitters by (auto intro!: closed_steps)
  next
    case schema
    have "Q (rec (ds_schema r))" if "ds_schema r \<noteq> None"
      using schema(1) that by (intro assms(1)) (simp add: subschemas_def)
    then show ?thesis unfolding schema(2)
      by (intro closed_when closed_nested) (auto intro: closed_emitters)
  qed
qed

lemma closed_composition_groups:
  assumes "\<And>x. x \<in> subschemas s \<Longrightarrow> Q (rec x)" and "f \<in> set (compile_compositions env rec s)"
  shows "Q f"
proof -
  have "Q (rec x)" if "x \<in> set (s_all_of s) \<union> set (s_any_of s) \<union> set (s_one_of s)" for x
    using assms(1) that by (auto simp: subschemas_def)
  then show ?thesis
    using assms(2) closed_branches closed_emitters
    by (auto simp: compile_compositions_def compile_composition_def compile_discriminator_def Let_def
        intro!: closed_when closed_steps split: if_splits)
qed

lemma closed_conditional_groups:
  assumes "\<And>x. x \<in> subschemas s \<Longrightarrow> Q (rec x)" and "f \<in> set (compile_conditionals env rec s)"
  shows "Q f"
proof -
  have "x \<noteq> None \<Longrightarrow> x \<in> {s_not_schema s, s_if_schema s, s_then_schema s, s_else_schema s} \<Longrightarrow> Q (rec x)" for x
    using assms(1) by (auto simp: subschemas_def)
  then show ?thesis
    using assms(2)
    by (auto simp: compile_conditionals_def simp del: not_None_eq
        intro!: closed_when closed_nested closed_steps closed_emitters closed_conditional_part)
qed

lemma closed_node:
  assumes "\<And>x. x \<in> subschemas s \<Longrightarrow> Q (rec x)"
  shows "Q (compile_node env rec s)"
  unfolding compile_node_def
  using closed_simple_groups closed_array_groups [OF assms] closed_object_groups [OF assms]
    closed_dependency_groups [OF assms] closed_composition_groups [OF assms]
    closed_conditional_groups [OF assms]
  by (intro closed_steps) auto

end

section \<open>Coming back\<close>

definition returns :: "('p, 'e) compile_step \<Rightarrow> bool" where
  "returns f \<longleftrightarrow> (\<forall>cs. f cs \<noteq> None)"

lemma returns_run_steps: "(\<And>f. f \<in> set fs \<Longrightarrow> returns f) \<Longrightarrow> returns (run_steps fs)"
proof (induction fs)
  case Nil
  then show ?case by (simp add: returns_def)
next
  case (Cons f fs)
  then have "returns f" and "returns (run_steps fs)" by simp_all
  show ?case
    unfolding returns_def
  proof
    fix cs
    obtain rc m where "f cs = Some (rc, m)"
      using \<open>returns f\<close> unfolding returns_def by (metis not_None_eq surj_pair)
    then show "run_steps (f # fs) cs \<noteq> None"
      using \<open>returns (run_steps fs)\<close> by (simp add: returns_def split: option.split)
  qed
qed

interpretation returning: compile_closed env returns for env :: "('p, 'e) compile_env"
proof unfold_locales
  fix i :: "'p oas_instruction" and k :: "'p \<Rightarrow> ('p, 'e) compile_step" and msg pat fs
  show "returns (emit env i)" by (simp add: returns_def emit_def split: sum.split)
  show "returns (run_steps fs)" if "\<And>f. f \<in> set fs \<Longrightarrow> returns f"
    using that by (rule returns_run_steps)
  show "returns (with_pattern env msg pat k)" if "\<And>p. returns (k p)"
    using that by (auto simp: returns_def with_pattern_def track_pattern_def Let_def
        split: option.split sum.split)
qed

text \<open>
  A store is ranked when every pointer the compiler follows leads to a node of lower rank:
  there is no cycle, through references or otherwise.
\<close>

definition ranked :: "(sref \<Rightarrow> nat) \<Rightarrow> schema_heap \<Rightarrow> bool" where
  "ranked rank h \<longleftrightarrow>
     (\<forall>p s q. h p = Some s \<longrightarrow>
        Some q \<in> (if s_ref_resolved s \<noteq> None then {s_ref_resolved s} else subschemas s) \<longrightarrow>
        rank q < rank p \<and> h q \<noteq> None)"

text \<open>The pointers a node makes the compiler follow.\<close>

definition followed :: "oas_schema \<Rightarrow> sref option set" where
  "followed s = (if s_ref_resolved s \<noteq> None then {s_ref_resolved s} else subschemas s)"

text \<open>The compiler returns from any \<open>G\<close> that the fuel and the pointers go down together in.\<close>

lemma compile_schema_returns_by:
  assumes base: "\<And>y. G 0 y \<Longrightarrow> y = None"
    and down: "\<And>n p. G (Suc n) (Some p) \<Longrightarrow> \<exists>s. ce_heap env p = Some s \<and> (\<forall>y \<in> followed s. G n y)"
  shows "G n x \<Longrightarrow> returns (compile_schema n env x)"
proof (induction n arbitrary: x)
  case 0
  then show ?case using base by (cases x) (auto intro: returning.closed_ok)
next
  case (Suc n)
  show ?case
  proof (cases x)
    case None
    then show ?thesis using returning.closed_ok by simp
  next
    case (Some p)
    then obtain s where s: "ce_heap env p = Some s" and ih: "\<And>y. y \<in> followed s \<Longrightarrow> returns (compile_schema n env y)"
      using down Suc by blast
    have "returns (step_fail EINVAL)" by (simp add: returns_def step_fail_def)
    moreover have "returns (compile_node env (compile_schema n env) s)" if "s_ref_resolved s = None"
      by (rule returning.closed_node) (use ih that in \<open>simp add: followed_def\<close>)
    moreover have "returns (compile_schema n env (s_ref_resolved s))" if "s_ref_resolved s \<noteq> None"
      by (rule ih) (use that in \<open>simp add: followed_def\<close>)
    ultimately show ?thesis
      unfolding compile_schema.simps Some option.case s by (simp only: if_split) blast
  qed
qed

lemma compile_schema_returns:
  assumes r: "ranked rank (ce_heap env)" and x: "\<And>p. x = Some p \<Longrightarrow> rank p < n \<and> ce_heap env p \<noteq> None"
  shows "returns (compile_schema n env x)"
proof (rule compile_schema_returns_by [where G = "\<lambda>n x. \<forall>p. x = Some p \<longrightarrow> rank p < n \<and> ce_heap env p \<noteq> None"])
  fix n p
  assume p: "\<forall>q. Some p = Some q \<longrightarrow> rank q < Suc n \<and> ce_heap env q \<noteq> None"
  then obtain s where s: "ce_heap env p = Some s" by auto
  have "rank q < n \<and> ce_heap env q \<noteq> None" if "Some q \<in> followed s" for q
  proof -
    have "rank q < rank p \<and> ce_heap env q \<noteq> None" using r s that unfolding ranked_def followed_def by blast
    then show ?thesis using p by force
  qed
  then show "\<exists>s. ce_heap env p = Some s \<and> (\<forall>y \<in> followed s. \<forall>q. y = Some q \<longrightarrow> rank q < n \<and> ce_heap env q \<noteq> None)"
    using s by blast
qed (use x in \<open>auto\<close>)

section \<open>Ownership of compiled patterns\<close>

fun compiled_event :: "'p regex_event \<Rightarrow> 'p list" where
  "compiled_event (Pattern_compiled p) = [p]"
| "compiled_event (Pattern_freed p) = []"

fun freed_event :: "'p regex_event \<Rightarrow> 'p list" where
  "freed_event (Pattern_compiled p) = []"
| "freed_event (Pattern_freed p) = [p]"

definition all_compiled :: "('p, 'e) oas_compiled_schema \<Rightarrow> 'p multiset" where
  "all_compiled cs = mset (concat (map compiled_event (cs_events cs)))"

definition all_freed :: "('p, 'e) oas_compiled_schema \<Rightarrow> 'p multiset" where
  "all_freed cs = mset (concat (map freed_event (cs_events cs)))"

text \<open>
  Each pattern the backend compiled was freed once or is tracked once, and a pattern in
  the program is a tracked one.
\<close>

definition pattern_inv :: "('p, 'e) oas_compiled_schema \<Rightarrow> bool" where
  "pattern_inv cs \<longleftrightarrow>
     all_compiled cs = all_freed cs + mset (cs_patterns cs) \<and>
     (cs_regex cs = None \<longrightarrow> cs_patterns cs = [])"

definition keeps :: "('p, 'e) compile_step \<Rightarrow> bool" where
  "keeps f \<longleftrightarrow> (\<forall>cs rc cs'. pattern_inv cs \<longrightarrow> f cs = Some (rc, cs') \<longrightarrow> pattern_inv cs')"

lemma keeps_run_steps: "(\<And>f. f \<in> set fs \<Longrightarrow> keeps f) \<Longrightarrow> keeps (run_steps fs)"
proof (induction fs)
  case Nil
  then show ?case by (simp add: keeps_def)
next
  case (Cons f fs)
  then have "keeps f" and "keeps (run_steps fs)" by simp_all
  show ?case
    unfolding keeps_def
  proof (intro allI impI)
    fix cs rc cs'
    assume inv: "pattern_inv cs" and r: "run_steps (f # fs) cs = Some (rc, cs')"
    obtain e m where m: "f cs = Some (e, m)" using r by (auto simp: bind_eq_Some_conv)
    then have "pattern_inv m" using \<open>keeps f\<close> inv by (auto simp: keeps_def)
    then show "pattern_inv cs'"
      using r m \<open>keeps (run_steps fs)\<close> by (cases e) (auto simp: keeps_def)
  qed
qed

lemma track_pattern_keeps:
  assumes "pattern_inv cs" and "cs_regex cs = Some rx"
    and "track_pattern env p (cs\<lparr>cs_events := Pattern_compiled p # cs_events cs\<rparr>) = Some (rc, cs')"
  shows "rc = None \<Longrightarrow> pattern_inv cs'"
    and "rc \<noteq> None \<Longrightarrow> pattern_inv (cs'\<lparr>cs_events := Pattern_freed p # cs_events cs'\<rparr>)"
  using assms
  by (auto simp: track_pattern_def pattern_inv_def all_compiled_def all_freed_def Let_def
      split: if_splits)

interpretation owning: compile_closed env keeps for env :: "('p, 'e) compile_env"
proof unfold_locales
  fix i :: "'p oas_instruction" and k :: "'p \<Rightarrow> ('p, 'e) compile_step" and msg pat fs
  show "keeps (emit env i)"
    by (auto simp: keeps_def emit_def pattern_inv_def all_compiled_def all_freed_def split: sum.splits)
  show "keeps (run_steps fs)" if "\<And>f. f \<in> set fs \<Longrightarrow> keeps f"
    using that by (rule keeps_run_steps)
  show "keeps (with_pattern env msg pat k)" if "\<And>p. keeps (k p)"
    unfolding keeps_def
  proof (intro allI impI)
    fix cs rc cs'
    assume inv: "pattern_inv cs" and w: "with_pattern env msg pat k cs = Some (rc, cs')"
    show "pattern_inv cs'"
    proof (cases "cs_regex cs")
      case None
      then show ?thesis using inv w by (simp add: with_pattern_def)
    next
      case (Some rx)
      show ?thesis
      proof (cases "rx_compile rx pat")
        case (Inl e)
        then show ?thesis using inv w Some
          by (auto simp: with_pattern_def pattern_inv_def all_compiled_def all_freed_def)
      next
        case (Inr p)
        then obtain rc1 m where
          t: "track_pattern env p (cs\<lparr>cs_events := Pattern_compiled p # cs_events cs\<rparr>) = Some (rc1, m)"
          and k: "(case rc1 of Some e \<Rightarrow> Some (Some e, m\<lparr>cs_events := Pattern_freed p # cs_events m\<rparr>)
            | None \<Rightarrow> k p m) = Some (rc, cs')"
          using w Some by (auto simp: with_pattern_def bind_eq_Some_conv)
        show ?thesis
          using track_pattern_keeps [OF inv Some t] k that
          by (cases rc1) (auto simp: keeps_def)
      qed
    qed
  qed
qed

lemma compile_schema_keeps: "keeps (compile_schema n env x)"
proof (induction n arbitrary: x)
  case 0
  then show ?case by (simp add: keeps_def step_ok_def)
next
  case (Suc n)
  have "keeps (compile_node env (compile_schema n env) s)" for s
    by (rule owning.closed_node) (rule Suc.IH)
  moreover have "keeps (step_fail EINVAL)" by (simp add: keeps_def step_fail_def)
  moreover have "keeps step_ok" "keeps (\<lambda>cs. None)" by (simp_all add: keeps_def step_ok_def)
  ultimately show ?case
    unfolding compile_schema.simps using Suc.IH
    by (cases x; cases "ce_heap env (the x)") (simp_all only: option.case option.sel if_split, blast+)
qed

lemma compile_pattern_inv:
  assumes "run_steps [compile_schema n env x, emit_simple env OAS_OP_END]
      (oas_compiled_schema_init env errors) = Some (rc, cs)"
  shows "pattern_inv cs"
proof -
  have "keeps (run_steps [compile_schema n env x, emit_simple env OAS_OP_END])"
    using compile_schema_keeps owning.closed_emitters(1) by (intro keeps_run_steps) auto
  moreover have "pattern_inv (oas_compiled_schema_init env errors)"
    by (simp add: pattern_inv_def oas_compiled_schema_init_def all_compiled_def all_freed_def)
  ultimately show ?thesis using assms unfolding keeps_def by blast
qed

lemma concat_compiled_freed [simp]:
  "concat (map compiled_event (rev (map Pattern_freed ps))) = []"
  "concat (map freed_event (rev (map Pattern_freed ps))) = rev ps"
  by (induction ps) simp_all

lemma free_releases:
  assumes "pattern_inv cs"
  shows "all_compiled (oas_compiled_schema_free cs) = all_freed (oas_compiled_schema_free cs)"
proof -
  have "mset (concat (map compiled_event (rev (map Pattern_freed (cs_patterns cs))))) = {#}"
    and "mset (concat (map freed_event (rev (map Pattern_freed (cs_patterns cs))))) = mset (cs_patterns cs)"
    by (simp_all only: concat_compiled_freed mset_rev mset.simps)
  then show ?thesis using assms
    by (auto simp: oas_compiled_schema_free_def pattern_inv_def all_compiled_def all_freed_def
        rev_map)
qed

end
