(* ===== verification/Liboas_Total.thy ===== *)
theory Liboas_Total
  imports Liboas_Correct Liboas_Compile_Steps
begin

text \<open>
  When the compiler succeeds: for every supported schema, given memory and a backend that
  compiles what it is given. The argument is the locale \<open>compile_closed\<close> once more.
\<close>

definition resources :: "('p, 'e) compile_env \<Rightarrow> bool" where
  "resources env \<longleftrightarrow>
     (\<forall>n. ce_mem_code env n) \<and> (\<forall>n. ce_mem_patterns env n) \<and>
     (\<forall>q pat. config_regex env = Some q \<longrightarrow> (\<exists>p. rx_compile q pat = Inr p))"

definition succeeds :: "('p, 'e) compile_env \<Rightarrow> ('p, 'e) compile_step \<Rightarrow> bool" where
  "succeeds env f \<longleftrightarrow>
     (resources env \<longrightarrow>
        (\<forall>cs. cs_regex cs = config_regex env \<longrightarrow>
           (\<exists>cs'. f cs = Some (None, cs') \<and> cs_regex cs' = config_regex env)))"

declare run_steps.simps(2) [simp del]

lemma succeeds_run_steps: "(\<And>f. f \<in> set fs \<Longrightarrow> succeeds env f) \<Longrightarrow> succeeds env (run_steps fs)"
proof (induction fs)
  case Nil
  then show ?case by (simp add: succeeds_def)
next
  case (Cons f fs)
  then have "succeeds env f" and "succeeds env (run_steps fs)" by simp_all
  then show ?case unfolding succeeds_def run_steps_Cons_done by metis
qed

lemma succeeds_emit: "succeeds env (emit env i)"
  unfolding succeeds_def
proof (intro impI allI)
  fix cs :: "('a, 'b) oas_compiled_schema"
  assume "resources env" and rx: "cs_regex cs = config_regex env"
  then have "\<exists>p. oas_program_emit (ce_mem_code env) (cs_program cs) i = Inr p"
    by (intro program_emit_enough) (simp add: resources_def)
  then show "\<exists>cs'. emit env i cs = Some (None, cs') \<and> cs_regex cs' = config_regex env"
    using rx by (auto simp: emit_def)
qed

lemma succeeds_track_pattern:
  assumes "resources env"
  shows "\<exists>m. track_pattern env p cs = Some (None, m) \<and> cs_regex m = cs_regex cs"
  using assms by (simp add: track_pattern_def resources_def Let_def)

lemma succeeds_with_pattern:
  assumes "\<And>p. succeeds env (k p)"
  shows "succeeds env (with_pattern env msg pat k)"
  unfolding succeeds_def
proof (intro allI impI)
  fix cs :: "('a, 'b) oas_compiled_schema"
  assume res: "resources env" and rx: "cs_regex cs = config_regex env"
  show "\<exists>cs'. with_pattern env msg pat k cs = Some (None, cs') \<and> cs_regex cs' = config_regex env"
  proof (cases "config_regex env")
    case None
    then show ?thesis using rx by (simp add: with_pattern_def)
  next
    case (Some q)
    then obtain p where p: "rx_compile q pat = Inr p"
      using res unfolding resources_def by metis
    let ?cs = "cs\<lparr>cs_events := Pattern_compiled p # cs_events cs\<rparr>"
    obtain m where "track_pattern env p ?cs = Some (None, m)" "cs_regex m = config_regex env"
      using succeeds_track_pattern [OF res, of p ?cs] rx by auto
    then show ?thesis
      using assms [of p] res rx Some p by (auto simp: succeeds_def with_pattern_def)
  qed
qed

interpretation succeeding: compile_closed env "succeeds env" for env :: "('p, 'e) compile_env"
  by unfold_locales (auto intro: succeeds_emit succeeds_run_steps succeeds_with_pattern)

lemma supported_node_subschemas:
  assumes "supported_node S b s" and "x \<in> subschemas s"
  shows "\<exists>b. S b x"
  using assms
  by (auto simp: supported_node_def subschemas_def supported_compositions_def branches_ok_def
      list_all_iff split: if_splits)

lemma succeeds_schema: "supported n (ce_heap env) b x \<Longrightarrow> succeeds env (compile_schema n env x)"
proof (induction n arbitrary: b x)
  case 0
  then show ?case using succeeding.closed_ok by simp
next
  case (Suc n)
  show ?case
  proof (cases x)
    case None
    then show ?thesis using succeeding.closed_ok by simp
  next
    case (Some p)
    then obtain s where s: "ce_heap env p = Some s"
      using Suc.prems by (auto split: option.splits)
    show ?thesis
    proof (cases "s_ref_resolved s")
      case None
      then have node: "supported_node (supported n (ce_heap env)) b s"
        using Suc.prems Some s by simp
      then have "s_ref s = None" by (simp add: supported_node_def)
      moreover have "succeeds env (compile_node env (compile_schema n env) s)"
        by (rule succeeding.closed_node)
          (use supported_node_subschemas [OF node] Suc.IH in blast)
      ultimately show ?thesis using Some s None by simp
    next
      case (Some r)
      then show ?thesis using Suc \<open>x = Some p\<close> s by simp
    qed
  qed
qed

lemma compile_succeeds:
  assumes "resources env" and "supported n (ce_heap env) False (Some p)"
  shows "\<exists>cs. oas_schema_compile n env True (Some p) errors = Some (True, cs)"
proof -
  let ?cs0 = "oas_compiled_schema_init env errors"
  have "succeeds env (run_steps [compile_schema n env (Some p), emit_simple env OAS_OP_END])"
    using succeeds_schema [OF assms(2)] succeeding.closed_emitters(1)
    by (intro succeeds_run_steps) auto
  moreover have "cs_regex ?cs0 = config_regex env" by (simp add: oas_compiled_schema_init_def)
  ultimately obtain cs where "run_steps [compile_schema n env (Some p), emit_simple env OAS_OP_END] ?cs0
      = Some (None, cs)"
    using assms(1) unfolding succeeds_def by blast
  then show ?thesis by (simp add: oas_schema_compile_def Let_def)
qed

section \<open>Schemas the compiler does not come back from\<close>

text \<open>
  A list: an object whose property \<open>next\<close> refers to the schema itself. The resolver makes
  \<open>ref_resolved\<close> point to the target, so the store has a cycle.
\<close>

definition list_heap :: schema_heap where
  "list_heap = [
     1 \<mapsto> oas_schema_fresh\<lparr>s_type_mask := OAS_TYPE_OBJECT,
        s_properties := [\<lparr>p_name = ''next'', p_schema = Some 2\<rparr>]\<rparr>,
     2 \<mapsto> oas_schema_fresh\<lparr>s_ref := Some ''#/components/schemas/List'', s_ref_resolved := Some 1\<rparr>]"

lemma run_steps_ok [simp]: "run_steps (step_ok # fs) = run_steps fs"
  by (simp add: fun_eq_iff run_steps.simps(2) step_ok_def)

lemma run_steps_ok_later [simp]:
  "run_steps (f # step_ok # fs) = run_steps (f # fs)"
  "run_steps (f # g # step_ok # fs) = run_steps (f # g # fs)"
  by (simp_all add: fun_eq_iff run_steps.simps(2) [of f] run_steps.simps(2) [of g]
      cong: option.case_cong)

lemmas node_steps = compile_node_def compile_type_def compile_string_def compile_format_def
  compile_numeric_def compile_array_def compile_properties_def compile_dependencies_def
  compile_contains_def compile_compositions_def has_discriminator_def compile_conditionals_def
  compile_values_def step_when_def effective_mask_def type_bits

lemma list_node_steps:
  assumes "ce_heap env = list_heap"
  shows "compile_schema (Suc n) env (Some 1) = run_steps
    [emit_type env OAS_TYPE_OBJECT,
     nested env (compile_schema n env) [emit_str env OAS_OP_ENTER_PROPERTY ''next''] (Some 2)]"
  using assms
  by (simp add: list_heap_def node_steps)

lemma list_heap_diverges:
  assumes "ce_heap env = list_heap" and mem: "\<And>k. ce_mem_code env k"
  shows "p \<in> {1, 2} \<Longrightarrow> compile_schema n env (Some p) cs = None"
proof (induction n arbitrary: p cs)
  case 0
  then show ?case by simp
next
  case (Suc n)
  have emits: "\<exists>cs'. emit env i cs = Some (None, cs')" for i and cs :: "('a, 'b) oas_compiled_schema"
    using program_emit_enough [of "ce_mem_code env" "cs_program cs" i] mem by (auto simp: emit_def)
  show ?case
  proof (cases "p = 2")
    case True
    then show ?thesis using Suc.IH [of 1] assms(1) by (simp add: list_heap_def)
  next
    case False
    obtain m where m: "emit_type env OAS_TYPE_OBJECT cs = Some (None, m)"
      using emits unfolding emit_type_def by blast
    obtain m' where m': "emit_str env OAS_OP_ENTER_PROPERTY ''next'' m = Some (None, m')"
      using emits unfolding emit_str_def by blast
    show ?thesis
      using False Suc.prems m m' Suc.IH [of 2]
      by (simp add: list_node_steps [OF assms(1)] nested_def run_steps.simps(2)
          del: compile_schema.simps)
  qed
qed

end
