(* ===== verification/Liboas_VM_Report.thy ===== *)
theory Liboas_VM_Report
  imports Liboas_VM_Fuel
begin

text \<open>
  What a run of the machine does to the caller's error list: it reports exactly when it
  turns the verdict to invalid. Proved once for every list that keeps the contract of
  \<open>error_sink\<close>, and used for the list of \<open>oas_error.c\<close>.
\<close>

lemma absorb_simps [simp]:
  "vm_valid (absorb vm sub) = (vm_valid vm \<and> vm_valid sub)"
  "vm_errors (absorb vm sub) = vm_errors sub"
  by (simp_all add: absorb_def)

lemma add_error_simps [simp]:
  "vm_valid (add_error E vm msg) = False"
  "vm_errors (add_error E vm msg) = map_option (\<lambda>e. ve_report E e (take 255 msg)) (vm_errors vm)"
  by (simp_all add: add_error_def)

lemma skip_to_end_simps [simp]:
  "vm_valid (skip_to_end vm) = vm_valid vm"
  "vm_errors (skip_to_end vm) = vm_errors vm"
  by (simp_all add: skip_to_end_def)

context error_sink
begin

definition grows :: "'e \<Rightarrow> 'e \<Rightarrow> bool" where
  "grows e e' \<longleftrightarrow>
     prefix (entries e) (entries e') \<and> (room e \<longrightarrow> length (entries e) < length (entries e'))"

text \<open>
  The list of the machine afterwards: untouched with an unchanged verdict, or grown with
  the verdict invalid. A machine without a list can only lose its verdict.
\<close>

definition verdict :: "('p, 'e) vm_state \<Rightarrow> ('p, 'e) vm_state \<Rightarrow> bool" where
  "verdict vm vm' \<longleftrightarrow>
     (case vm_errors vm of
        None \<Rightarrow> vm_errors vm' = None \<and> (vm_valid vm' \<longrightarrow> vm_valid vm)
      | Some e \<Rightarrow> \<exists>e'. vm_errors vm' = Some e' \<and>
          (vm_valid vm' = vm_valid vm \<and> e' = e \<or> \<not> vm_valid vm' \<and> grows e e'))"

definition sound_run :: "('p, 'e) vm_run \<Rightarrow> bool" where
  "sound_run run \<longleftrightarrow> (\<forall>vm vm'. run vm = Some vm' \<longrightarrow> verdict vm vm')"

lemma grows_report: "grows e (report e msg)"
  using report_keeps [of e msg] report_adds [of e msg] by (simp add: grows_def)

lemma grows_trans: "grows e e' \<Longrightarrow> grows e' e'' \<Longrightarrow> grows e e''"
  unfolding grows_def using prefix_length_le by (meson order_less_le_trans prefix_order.trans)

lemma verdict_same:
  "vm_valid vm' = vm_valid vm \<Longrightarrow> vm_errors vm' = vm_errors vm \<Longrightarrow> verdict vm vm'"
  by (auto simp: verdict_def split: option.split)

lemma verdict_refl [simp]: "verdict vm vm"
  by (simp add: verdict_same)

lemma verdict_trans: "verdict vm vm' \<Longrightarrow> verdict vm' vm'' \<Longrightarrow> verdict vm vm''"
  by (auto simp: verdict_def intro: grows_trans split: option.splits)

lemma verdict_cong:
  assumes "verdict u u'" and "vm_valid vm = vm_valid u" and "vm_errors vm = vm_errors u"
    and "vm_valid vm' = vm_valid u'" and "vm_errors vm' = vm_errors u'"
  shows "verdict vm vm'"
  using assms by (cases "vm_errors u") (simp_all add: verdict_def)

lemma verdict_ip [simp]:
  "verdict (vm\<lparr>vm_ip := ip\<rparr>) vm' = verdict vm vm'"
  "verdict vm (vm'\<lparr>vm_ip := ip\<rparr>) = verdict vm vm'"
  "verdict vm (skip_to_end vm') = verdict vm vm'"
  by (cases "vm_errors vm"; simp add: verdict_def)+

lemma verdict_add_error: "ve_report E = report \<Longrightarrow> verdict vm (add_error E vm msg)"
  by (auto simp: verdict_def grows_report split: option.split)

lemma verdict_absorb:
  assumes "verdict u sub" and "vm_valid vm = vm_valid u" and "vm_errors vm = vm_errors u"
  shows "verdict vm (absorb vm sub)"
  using assms by (auto simp: verdict_def split: option.splits)

lemma verdict_report_after:
  assumes "ve_report E = report" and "verdict vm vm'"
  shows "verdict vm (add_error E vm' msg)"
  using assms verdict_trans verdict_add_error by blast

lemma leaf_verdict:
  assumes "ve_report E = report" and "leaf E f vm" and "f vm = Some vm'"
  shows "verdict vm vm'"
  using assms(2,3) verdict_add_error [OF assms(1)] by (auto elim: leafE)

text \<open>The loops over a runner.\<close>

lemma sound_runD: "sound_run run \<Longrightarrow> run vm = Some vm' \<Longrightarrow> verdict vm vm'"
  by (simp add: sound_run_def)

lemma items_loop_verdict:
  assumes "sound_run run" and "items_loop run st xs vm = Some vm'"
  shows "verdict vm vm'"
  using assms(2)
proof (induction xs arbitrary: vm)
  case Nil
  then show ?case by simp
next
  case (Cons x xs)
  then obtain sub where sub: "run (vm\<lparr>vm_value := x, vm_ip := st\<rparr>) = Some sub"
    and rest: "items_loop run st xs (absorb vm sub) = Some vm'"
    by (auto simp: bind_eq_Some_conv)
  have "verdict vm (absorb vm sub)"
    using sound_runD [OF assms(1) sub] by (rule verdict_absorb) simp_all
  then show ?case using Cons.IH [OF rest] verdict_trans by blast
qed

lemma allof_loop_verdict:
  assumes "sound_run run" and "allof_loop run n vm = Some vm'"
  shows "verdict vm vm'"
  using assms(2)
proof (induction n arbitrary: vm)
  case 0
  then show ?case by simp
next
  case (Suc n)
  then obtain sub where sub: "run vm = Some sub"
    and rest: "allof_loop run n ((absorb vm sub)\<lparr>vm_ip := vm_ip sub\<rparr>) = Some vm'"
    by (auto simp: bind_eq_Some_conv)
  have "verdict vm (absorb vm sub)"
    using sound_runD [OF assms(1) sub] by (rule verdict_absorb) simp_all
  then show ?case using Suc.IH [OF rest] verdict_trans by simp blast
qed

lemma quiet_branches_same:
  "quiet_branches run n k vm = Some (j, vm') \<Longrightarrow>
     vm_valid vm' = vm_valid vm \<and> vm_errors vm' = vm_errors vm"
  by (induction n arbitrary: vm k) (force simp: bind_eq_Some_conv split: if_splits)+

lemma quiet_branches_verdict:
  "quiet_branches run n k vm = Some (j, vm') \<Longrightarrow> verdict vm vm'"
  using quiet_branches_same verdict_same by metis

lemma prop_names_loop_verdict:
  assumes r: "ve_report E = report" and "sound_run run"
    and "prop_names_loop run E st ks vm = Some vm'"
  shows "verdict vm vm'"
  using assms(3)
proof (induction ks arbitrary: vm)
  case Nil
  then show ?case by simp
next
  case (Cons k ks)
  show ?case
  proof (cases "Option.bind (yy_write_str (ve_yy E) (cstr k)) (yy_read (ve_yy E))")
    case None
    then show ?thesis using Cons by simp
  next
    case (Some name)
    let ?u = "vm\<lparr>vm_value := name, vm_ip := st\<rparr>"
    obtain sub where sub: "run ?u = Some sub"
      using Cons.prems Some by (auto simp: bind_eq_Some_conv)
    let ?w = "vm\<lparr>vm_errors := vm_errors sub\<rparr>"
    let ?msg = "''propertyNames: name '' @ [CHR 0x27] @ cstr k @ [CHR 0x27] @ '' failed validation''"
    have v: "verdict ?u sub" using sound_runD [OF assms(2) sub] .
    have "verdict vm (if vm_valid sub then ?w else add_error E ?w ?msg)"
    proof (cases "vm_valid sub")
      case True
      then show ?thesis using v by (auto simp: verdict_def split: option.splits)
    next
      case False
      then have "\<exists>e e'. vm_errors vm = Some e \<and> vm_errors sub = Some e' \<and> (e' = e \<or> grows e e')
          \<or> vm_errors vm = None \<and> vm_errors sub = None"
        using v by (auto simp: verdict_def split: option.splits)
      then show ?thesis
        using False r grows_report grows_trans
        by (auto simp: verdict_def)
    qed
    moreover have "prop_names_loop run E st ks (if vm_valid sub then ?w else add_error E ?w ?msg) = Some vm'"
      using Cons.prems Some sub by (simp add: Let_def)
    ultimately show ?thesis using Cons.IH verdict_trans by blast
  qed
qed

text \<open>A loud skip may leave reports behind with the verdict unchanged; a report follows it.\<close>

lemma disc_skip_report_verdict:
  assumes r: "ve_report E = report" and "sound_run run"
    and "disc_skip run loud n vm = Some vm'"
  shows "verdict vm (add_error E vm' msg)"
proof -
  have "vm_valid vm' = vm_valid vm \<and>
    (case vm_errors vm of None \<Rightarrow> vm_errors vm' = None
     | Some e \<Rightarrow> \<exists>e'. vm_errors vm' = Some e' \<and> (e' = e \<or> grows e e'))"
    using assms(3)
  proof (induction n arbitrary: vm)
    case 0
    then show ?case by (simp split: option.split)
  next
    case (Suc n)
    let ?q = "if loud then vm else vm\<lparr>vm_errors := None\<rparr>"
    obtain sub where sub: "run ?q = Some sub"
      and rest: "disc_skip run loud n (vm\<lparr>vm_ip := vm_ip sub,
        vm_errors := (if loud then vm_errors sub else vm_errors vm)\<rparr>) = Some vm'"
      using Suc.prems by (auto simp: bind_eq_Some_conv split: if_splits)
    have "verdict ?q sub" using sound_runD [OF assms(2) sub] .
    then show ?case using Suc.IH [OF rest] grows_trans
      by (cases loud) (auto simp: verdict_def split: option.splits)
  qed
  then show ?thesis using r grows_report grows_trans
    by (auto simp: verdict_def split: option.splits)
qed

lemma disc_skip_quiet_same:
  "disc_skip run False n vm = Some vm' \<Longrightarrow>
     vm_valid vm' = vm_valid vm \<and> vm_errors vm' = vm_errors vm"
  by (induction n arbitrary: vm) (force simp: bind_eq_Some_conv)+

lemma disc_run_verdict:
  assumes "sound_run run" and "disc_run run n k vm = Some vm'"
  shows "verdict vm vm'"
proof -
  obtain v sub where v: "disc_skip run False k vm = Some v" and sub: "run v = Some sub"
    and w: "disc_skip run False (n - Suc k) ((absorb v sub)\<lparr>vm_ip := vm_ip sub\<rparr>) = Some vm'"
    using assms(2) by (auto simp: disc_run_def bind_eq_Some_conv)
  have "verdict v (absorb v sub)" using sound_runD [OF assms(1) sub] by (rule verdict_absorb) simp_all
  then show ?thesis
    by (rule verdict_cong) (use disc_skip_quiet_same [OF v] disc_skip_quiet_same [OF w] in simp_all)
qed

lemma dep_required_loop_verdict:
  assumes "ve_report E = report"
  shows "dep_required_loop E t n vm = Some vm' \<Longrightarrow> verdict vm vm'"
proof (induction n arbitrary: vm)
  case 0
  then show ?case by simp
next
  case (Suc n)
  show ?case
  proof (cases "vm_ip vm")
    case Nil
    then show ?thesis using Suc.prems by simp
  next
    case (Cons j ip)
    then obtain w where "dep_required_loop E t n w = Some vm'" and "verdict vm w"
      using Suc.prems verdict_report_after [OF assms verdict_same]
      by (auto simp: bind_eq_Some_conv Let_def split: if_splits)
    then show ?thesis using Suc.IH verdict_trans by blast
  qed
qed

lemma enter_verdict:
  assumes "sound_run run"
  shows "exec_enter_items run i vm = Some vm' \<Longrightarrow> verdict vm vm'"
    and "exec_enter_prefix_item run i vm = Some vm' \<Longrightarrow> verdict vm vm'"
    and "exec_enter_property run E i vm = Some vm' \<Longrightarrow> verdict vm vm'"
    and "exec_check_pattern_props run E i vm = Some vm' \<Longrightarrow> verdict vm vm'"
    and "exec_check_dep_schema run E i vm = Some vm' \<Longrightarrow> verdict vm vm'"
    and "exec_enter_additional vm = Some vm' \<Longrightarrow> verdict vm vm'"
  using items_loop_verdict [OF assms] verdict_absorb [OF sound_runD [OF assms]]
  by (auto simp: vm_handlers bind_eq_Some_conv
      split: json.split_asm option.split_asm if_split_asm)

lemma branch_verdict:
  assumes "ve_report E = report" and "sound_run run"
  shows "exec_branch_allof run i vm = Some vm' \<Longrightarrow> verdict vm vm'"
    and "exec_branch_anyof run E i vm = Some vm' \<Longrightarrow> verdict vm vm'"
    and "exec_branch_oneof run E i vm = Some vm' \<Longrightarrow> verdict vm vm'"
    and "exec_negate run E i vm = Some vm' \<Longrightarrow> verdict vm vm'"
  using allof_loop_verdict [OF assms(2)] verdict_report_after [OF assms(1) quiet_branches_verdict]
    quiet_branches_verdict verdict_report_after [OF assms(1) verdict_same]
  by (auto simp: vm_handlers bind_eq_Some_conv Let_def split: if_split_asm)

lemma cond_part_verdict:
  assumes "sound_run run" and "exec_cond_part run opc b vm = Some vm'"
  shows "verdict vm vm'"
  using assms(2) sound_runD [OF assms(1), of "vm\<lparr>vm_ip := tl (vm_ip vm)\<rparr>" vm']
  by (auto simp: exec_cond_part_def split: list.split_asm if_split_asm)

lemma cond_if_verdict:
  assumes "sound_run run" and "exec_cond_if run i vm = Some vm'"
  shows "verdict vm vm'"
proof -
  obtain v w b where "exec_cond_part run OAS_OP_COND_THEN b (vm\<lparr>vm_ip := v\<rparr>) = Some w"
    and "exec_cond_part run OAS_OP_COND_ELSE (\<not> b) w = Some vm'"
    using assms(2) by (auto simp: exec_cond_if_def Let_def bind_eq_Some_conv)
  then have "verdict (vm\<lparr>vm_ip := v\<rparr>) w" and "verdict w vm'"
    using cond_part_verdict [OF assms(1)] by blast+
  then show ?thesis using verdict_trans by simp
qed

lemma prop_names_verdict:
  assumes "ve_report E = report" and "sound_run run" and "exec_check_prop_names run E i vm = Some vm'"
  shows "verdict vm vm'"
  using assms(3) prop_names_loop_verdict [OF assms(1,2)]
  by (auto simp: exec_check_prop_names_def split: json.split_asm)

lemma dep_required_verdict:
  assumes "ve_report E = report" and "exec_check_dep_required E i vm = Some vm'"
  shows "verdict vm vm'"
  using assms(2) dep_required_loop_verdict [OF assms(1)]
  by (auto simp: exec_check_dep_required_def bind_eq_Some_conv split: if_split_asm dest: dep_required_loop_verdict [OF assms(1)])

lemma contains_verdict:
  assumes r: "ve_report E = report" and "exec_check_contains run E i vm = Some vm'"
  shows "verdict vm vm'"
proof (cases "vm_value vm")
  case (JArr xs)
  then obtain ip b c m n where "vm' = skip_to_end (let v = vm\<lparr>vm_ip := ip\<rparr>;
      w = if b then add_error E v m else v in if c then add_error E w n else w)"
    using assms(2) by (auto simp: exec_check_contains_def bind_eq_Some_conv Let_def)
  then show ?thesis
    using verdict_report_after [OF r] by (auto simp: Let_def)
qed (use assms(2) in \<open>auto simp: exec_check_contains_def\<close>)

lemma disc_body_verdict:
  assumes r: "ve_report E = report" and "sound_run run" and "disc_body run E p n keys vm = Some vm'"
  shows "verdict vm vm'"
  using assms(3) disc_skip_report_verdict [OF r assms(2)] disc_run_verdict [OF assms(2)]
  by (auto simp: disc_body_def bind_eq_Some_conv
      split: if_split_asm option.split_asm json.split_asm)

lemma discriminator_verdict:
  assumes "ve_report E = report" and "sound_run run" and "exec_discriminator run E i vm = Some vm'"
  shows "verdict vm vm'"
proof -
  obtain p n keys ip where "disc_body run E p n keys (vm\<lparr>vm_ip := ip\<rparr>) = Some vm'"
    using assms(3) by (auto simp: exec_discriminator_def bind_eq_Some_conv)
  from disc_body_verdict [OF assms(1,2) this] show ?thesis by simp
qed

lemma vm_step_verdict:
  assumes r: "ve_report E = report" and run: "sound_run run" and "vm_step run E i vm = Some vm'"
  shows "verdict vm vm'"
proof -
  have "Some vm = Some vm' \<Longrightarrow> verdict vm vm'" by simp
  note rules = this leaf_checks [of E i vm, THEN leaf_verdict [OF r]] enter_verdict [OF run]
    branch_verdict [OF r run] cond_if_verdict [OF run] prop_names_verdict [OF r run]
    dep_required_verdict [OF r] contains_verdict [OF r] discriminator_verdict [OF r run]
  show ?thesis
    using assms(3) unfolding vm_step_def
    by - (cases "op i"; simp only: oas_opcode.case; erule rules)
qed

lemma exec_sound:
  fixes E :: "('p, 'e) vm_env"
  assumes r: "ve_report E = report"
  shows "sound_run (exec n E)"
proof (induction n)
  case 0
  then show ?case by (simp add: sound_run_def)
next
  case (Suc n)
  show ?case
    unfolding sound_run_def
  proof (intro allI impI)
    fix vm vm' :: "('p, 'e) vm_state"
    assume e: "exec (Suc n) E vm = Some vm'"
    show "verdict vm vm'"
    proof (cases "vm_ip vm")
      case Nil
      then show ?thesis using e by simp
    next
      case (Cons i ip)
      show ?thesis
      proof (cases "op i = OAS_OP_END")
        case True
        then show ?thesis using e Cons by auto
      next
        case False
        then obtain w where "vm_step (exec n E) E i (vm\<lparr>vm_ip := ip\<rparr>) = Some w"
          and "exec n E w = Some vm'"
          using e Cons by (auto simp: bind_eq_Some_conv)
        then show ?thesis
          using vm_step_verdict [OF r Suc.IH] sound_runD [OF Suc.IH] verdict_trans by fastforce
      qed
    qed
  qed
qed

lemma execute_verdict:
  "ve_report E = report \<Longrightarrow> execute E vm = Some vm' \<Longrightarrow> verdict vm vm'"
  using sound_runD [OF exec_sound] unfolding execute_def by blast

end

end
