(* ===== verification/Liboas_Validate.thy ===== *)
theory Liboas_Validate
  imports Liboas_Total Liboas_VM_Report
begin

text \<open>
  The interface of \<open>src/validator/oas_validator.c\<close>, and what it promises for a schema
  compiled by \<open>oas_schema_compile\<close>: the verdict is the schema's meaning, the run comes
  back, and the error list grows exactly with a negative verdict.
\<close>

section \<open>Operations\<close>

record 'e oas_validation_result =
  vr_valid :: bool
  vr_errors :: "'e option"

text \<open>
  The result is the negated return code with the caller's result structure afterwards.
  Null pointers are \<open>None\<close>; the outer option is \<open>None\<close> for undefined behaviour of the
  machine. A list that cannot be created leaves the pointer null.
\<close>

definition oas_validate_with_direction ::
    "yyjson \<Rightarrow> 'a allocator \<Rightarrow> ('p, 'c) oas_compiled_schema option \<Rightarrow> json option
      \<Rightarrow> oas_validation_direction \<Rightarrow> 'a oas_error_list oas_validation_result option \<Rightarrow> 'a option
      \<Rightarrow> (errno option \<times> 'a oas_error_list oas_validation_result option) option" where
  "oas_validate_with_direction yy alloc compiled v direction res arena =
     (case (compiled, v, res) of
        (Some cs, Some x, Some r) \<Rightarrow>
          if code (cs_program cs) = [] then Some (Some EINVAL, res)
          else do {
            let errors = (case (vr_errors r, arena) of
                            (None, Some a) \<Rightarrow> fst (oas_error_list_create alloc a)
                          | (es, _) \<Rightarrow> es);
            vm \<leftarrow> execute
              \<lparr>ve_yy = yy, ve_regex = map_option rx_match (cs_regex cs),
               ve_report = report_constraint alloc\<rparr>
              \<lparr>vm_value = x, vm_ip = code (cs_program cs), vm_errors = errors,
               vm_direction = direction, vm_valid = True\<rparr>;
            Some (None, Some \<lparr>vr_valid = vm_valid vm, vr_errors = vm_errors vm\<rparr>)
          }
      | _ \<Rightarrow> Some (Some EINVAL, res))"

definition oas_validate ::
    "yyjson \<Rightarrow> 'a allocator \<Rightarrow> ('p, 'c) oas_compiled_schema option \<Rightarrow> json option
      \<Rightarrow> 'a oas_error_list oas_validation_result option \<Rightarrow> 'a option
      \<Rightarrow> (errno option \<times> 'a oas_error_list oas_validation_result option) option" where
  "oas_validate yy alloc compiled v res arena =
     oas_validate_with_direction yy alloc compiled v OAS_DIR_NONE res arena"

definition oas_validate_json_with_direction ::
    "yyjson \<Rightarrow> 'a allocator \<Rightarrow> ('p, 'c) oas_compiled_schema option \<Rightarrow> string option
      \<Rightarrow> oas_validation_direction \<Rightarrow> 'a oas_error_list oas_validation_result option \<Rightarrow> 'a option
      \<Rightarrow> (errno option \<times> 'a oas_error_list oas_validation_result option) option" where
  "oas_validate_json_with_direction yy alloc compiled js direction res arena =
     (case (compiled, js, res) of
        (Some cs, Some text, Some r) \<Rightarrow>
          (case yy_read yy text of
             None \<Rightarrow> Some (Some EINVAL, res)
           | Some doc_root \<Rightarrow>
               oas_validate_with_direction yy alloc compiled (Some doc_root) direction res arena)
      | _ \<Rightarrow> Some (Some EINVAL, res))"

definition oas_validate_json ::
    "yyjson \<Rightarrow> 'a allocator \<Rightarrow> ('p, 'c) oas_compiled_schema option \<Rightarrow> string option
      \<Rightarrow> 'a oas_error_list oas_validation_result option \<Rightarrow> 'a option
      \<Rightarrow> (errno option \<times> 'a oas_error_list oas_validation_result option) option" where
  "oas_validate_json yy alloc compiled js res arena =
     oas_validate_json_with_direction yy alloc compiled js OAS_DIR_NONE res arena"

section \<open>Compiled schemas\<close>

text \<open>A program the compiler returned: a realisation of the schema, then \<open>END\<close>.\<close>

lemma compile_adds:
  assumes "oas_schema_compile n env ok (Some p) errors = Some (True, cs)"
    and "supported n (ce_heap env) False (Some p)"
    and "ve_regex E = map_option rx_match (config_regex env)"
  obtains c where "code (cs_program cs) = c @ [end_instr]" and "cs_regex cs = config_regex env"
    and "realises E c (accepts n (ve_yy E) env (Some p))"
proof -
  let ?cs0 = "oas_compiled_schema_init env errors"
  have rx: "cs_regex ?cs0 = config_regex env" by (simp add: oas_compiled_schema_init_def)
  have r: "run_steps [compile_schema n env (Some p), emit_simple env OAS_OP_END] ?cs0 = Some (None, cs)"
    using assms(1) by (auto simp: oas_schema_compile_def Let_def bind_eq_Some_conv split: if_splits)
  have "emits E (config_regex env) False (compile_schema n env (Some p)) (accepts n (ve_yy E) env (Some p))"
    using emits_schema [OF assms(3) refl assms(2)] .
  from emits_branch [where rec = "compile_schema n env", OF this rx r]
  obtain c where "adds ?cs0 cs (c @ [end_instr])"
    and "realises E c (accepts n (ve_yy E) env (Some p))" by blast
  then show thesis using that rx
    by (simp add: adds_def oas_compiled_schema_init_def oas_program_init_def)
qed

lemma validate_compiled:
  assumes "oas_schema_compile n env ok (Some p) errors = Some (True, cs)"
    and "supported n (ce_heap env) False (Some p)"
  shows "\<exists>es. oas_validate_with_direction yy alloc (Some cs) (Some v) d (Some res) arena =
    Some (None, Some \<lparr>vr_valid = accepts n yy env (Some p) d v, vr_errors = es\<rparr>)"
proof -
  let ?E = "\<lparr>ve_yy = yy, ve_regex = map_option rx_match (cs_regex cs),
    ve_report = report_constraint alloc\<rparr>"
  have rx: "cs_regex cs = config_regex env"
    using compile_adds [OF assms, of "\<lparr>ve_yy = yy, ve_regex = map_option rx_match (config_regex env),
      ve_report = report_constraint alloc\<rparr>"] by auto
  obtain c where c: "code (cs_program cs) = c @ [end_instr]" "realises ?E c (accepts n yy env (Some p))"
    using compile_adds [OF assms, of ?E] rx by auto
  let ?vm = "\<lambda>es. \<lparr>vm_value = v, vm_ip = c @ [end_instr], vm_errors = es,
    vm_direction = d, vm_valid = True\<rparr>"
  have "\<exists>vm'. execute ?E (?vm es) = Some vm' \<and> vm_valid vm' = accepts n yy env (Some p) d v" for es
    using realises_run [OF c(2), of end_instr "?vm es" "[]"] by (auto simp: moved_def)
  then show ?thesis
    by (simp add: oas_validate_with_direction_def c(1) Let_def bind_eq_Some_conv split_beta)
qed

section \<open>An example\<close>

text \<open>
  A schema with most shapes of code: an object with a required name, a list of distinct
  strings, a forbidden property and a choice at the top level.
\<close>

definition sample_heap :: schema_heap where
  "sample_heap = [
     1 \<mapsto> oas_schema_fresh\<lparr>s_type_mask := OAS_TYPE_OBJECT, s_required := [''name''],
        s_properties := [\<lparr>p_name = ''name'', p_schema = Some 2\<rparr>, \<lparr>p_name = ''tags'', p_schema = Some 3\<rparr>],
        s_not_schema := Some 4, s_any_of := [Some 5, Some 6]\<rparr>,
     2 \<mapsto> oas_schema_fresh\<lparr>s_type_mask := OAS_TYPE_STRING, s_min_length := 2\<rparr>,
     3 \<mapsto> oas_schema_fresh\<lparr>s_type_mask := OAS_TYPE_ARRAY, s_items := Some 2, s_unique_items := True\<rparr>,
     4 \<mapsto> oas_schema_fresh\<lparr>s_required := [''bad'']\<rparr>,
     5 \<mapsto> oas_schema_fresh\<lparr>s_required := [''tags'']\<rparr>,
     6 \<mapsto> oas_schema_fresh\<lparr>s_min_properties := 2\<rparr>]"

definition sample_env :: "(unit, unit) compile_env" where
  "sample_env = \<lparr>ce_heap = sample_heap, ce_config = None, ce_report = (\<lambda>e m. e),
     ce_mem_code = (\<lambda>n. True), ce_mem_patterns = (\<lambda>n. True)\<rparr>"

definition sample_value :: json where
  "sample_value = JObj [(''name'', JStr ''ab''), (''tags'', JArr [JStr ''xy'', JStr ''z''])]"

lemma sample_resources: "resources sample_env"
  by (simp add: resources_def sample_env_def)

lemma sample_supported: "supported 3 (ce_heap sample_env) False (Some 1)"
  by (simp add: numeral_3_eq_3 sample_env_def sample_heap_def supported_node_def
      supported_compositions_def branches_ok_def has_discriminator_def)

lemma sample_rejects:
  "\<not> accepts 3 sample_yyjson sample_env (Some 1) OAS_DIR_NONE sample_value"
  by (simp add: numeral_3_eq_3 sample_env_def sample_heap_def sample_value_def accepts_node_def
      meets_object_def meets_array_def sample_yyjson_def meets_type_def type_bits effective_mask_def
      meets_length_def meets_compositions_def)

section \<open>Properties\<close>



text \<open>
  C4. (progress of the compiler): for a supported schema, when memory is granted and the
  backend compiles every pattern, \<open>oas_schema_compile\<close> returns a compiled schema; it neither
  recurses for ever nor fails.
\<close>

theorem compile_returns:
  assumes "resources env" and "supported n (ce_heap env) False (Some p)"
  shows "\<exists>cs. oas_schema_compile n env True (Some p) errors = Some (True, cs)"
  using assms by (rule compile_succeeds)

theorem compile_returns_witness:
  "\<exists>cs. oas_schema_compile 3 sample_env True (Some 1) None = Some (True, cs)"
  by (rule compile_returns [OF sample_resources sample_supported])

text \<open>
  C3. (verdict and reports agree): a run that returns with a list that has room leaves the
  earlier entries in place, and the verdict is valid exactly when nothing was added.
\<close>

theorem validate_reports_iff_invalid:
  assumes "oas_validate_with_direction yy alloc (Some cs) (Some v) d (Some res) arena =
      Some (None, Some res')"
    and "vr_errors res = Some l" and "report_room alloc l"
  shows "\<exists>l'. vr_errors res' = Some l' \<and> prefix (el_errors l) (el_errors l') \<and>
    (vr_valid res' \<longleftrightarrow> el_errors l' = el_errors l)"
proof -
  let ?E = "\<lparr>ve_yy = yy, ve_regex = map_option rx_match (cs_regex cs),
    ve_report = report_constraint alloc\<rparr>"
  let ?vm = "\<lparr>vm_value = v, vm_ip = code (cs_program cs), vm_errors = Some l,
    vm_direction = d, vm_valid = True\<rparr>"
  obtain vm where run: "execute ?E ?vm = Some vm"
    and res': "res' = \<lparr>vr_valid = vm_valid vm, vr_errors = vm_errors vm\<rparr>"
    using assms(1,2) by (auto simp: oas_validate_with_direction_def Let_def bind_eq_Some_conv
        split: if_splits option.splits)
  have "constraint_sink.verdict alloc ?vm vm"
    by (rule constraint_sink.execute_verdict [OF _ run]) simp
  then show ?thesis
    using assms(3) res' by (auto simp: constraint_sink.verdict_def constraint_sink.grows_def)
qed

definition grant_all :: "unit allocator" where
  "grant_all a n align = (if n = 0 then (None, a) else (Some 8, a))"

definition empty_list :: "unit oas_error_list" where
  "empty_list = \<lparr>el_arena = (), el_errors = [], el_capacity = 16\<rparr>"

definition one_check :: "(unit, unit) oas_compiled_schema" where
  "one_check = \<lparr>cs_program = \<lparr>code = [\<lparr>op = OAS_OP_CHECK_TYPE, type_mask = OAS_TYPE_STRING,
     operand = OpZero\<rparr>, end_instr], capacity = 32\<rparr>, cs_regex = None, cs_patterns = [],
     cs_pattern_capacity = 0, cs_errors = None, cs_events = []\<rparr>"

theorem validate_reports_iff_invalid_witness:
  "\<exists>res' l'. oas_validate_with_direction sample_yyjson grant_all (Some one_check) (Some JNull)
      OAS_DIR_NONE (Some \<lparr>vr_valid = True, vr_errors = Some empty_list\<rparr>) None = Some (None, Some res') \<and>
    \<not> vr_valid res' \<and> vr_errors res' = Some l' \<and> el_errors l' \<noteq> []"
proof -
  let ?run = "oas_validate_with_direction sample_yyjson grant_all (Some one_check) (Some JNull)
      OAS_DIR_NONE (Some \<lparr>vr_valid = True, vr_errors = Some empty_list\<rparr>) None"
  have "\<exists>res'. ?run = Some (None, Some res') \<and> \<not> vr_valid res'"
    by (simp add: oas_validate_with_direction_def one_check_def empty_list_def Let_def execute_def
        vm_step_def exec_check_type_def instr_def type_bits add_error_def)
  then obtain res' where run: "?run = Some (None, Some res')" and v: "\<not> vr_valid res'" by blast
  have "report_room grant_all empty_list"
    by (simp add: report_room_def alloc_total_def grant_all_def empty_list_def)
  from validate_reports_iff_invalid [OF run _ this] v run show ?thesis
    by (auto simp: empty_list_def)
qed

text \<open>
  (arguments): with a null program, value or result, or an empty program, the call
  returns \<open>-EINVAL\<close> and leaves the caller's result alone.
\<close>

theorem validate_rejects_arguments:
  assumes "compiled = None \<or> v = None \<or> res = None \<or>
    (\<exists>cs. compiled = Some cs \<and> code (cs_program cs) = [])"
  shows "oas_validate_with_direction yy alloc compiled v d res arena = Some (Some EINVAL, res)"
  using assms by (auto simp: oas_validate_with_direction_def split: option.split)

theorem validate_rejects_arguments_witness:
  "oas_validate_with_direction sample_yyjson grant_all (Some one_check) None OAS_DIR_NONE
     (Some \<lparr>vr_valid = True, vr_errors = Some empty_list\<rparr>) None =
   Some (Some EINVAL, Some \<lparr>vr_valid = True, vr_errors = Some empty_list\<rparr>)"
  by (rule validate_rejects_arguments) simp



text \<open>
  (acyclic schemas): where the pointers the compiler follows decrease a rank, it comes
  back with that much fuel, with a program or with an error code, whatever memory is granted
  and whatever the backend answers.
\<close>

theorem compile_returns_when_acyclic:
  assumes "ranked rank (ce_heap env)" and "rank p < n" and "ce_heap env p \<noteq> None"
  shows "oas_schema_compile n env ok (Some p) errors \<noteq> None"
proof -
  have "returns (compile_schema n env (Some p))"
    using assms(2,3) by (intro compile_schema_returns [OF assms(1)]) simp
  then have "returns (run_steps [compile_schema n env (Some p), emit_simple env OAS_OP_END])"
    using returning.closed_emitters(1) by (intro returns_run_steps) auto
  then have "run_steps [compile_schema n env (Some p), emit_simple env OAS_OP_END]
      (oas_compiled_schema_init env errors) \<noteq> None" unfolding returns_def by blast
  then show ?thesis by (auto simp: oas_schema_compile_def Let_def)
qed

definition sample_rank :: "sref \<Rightarrow> nat" where
  "sample_rank p = (if p = 1 then 2 else if p = 3 then 1 else 0)"

theorem compile_returns_when_acyclic_witness:
  "oas_schema_compile 3 (sample_env\<lparr>ce_mem_code := (\<lambda>n. False)\<rparr>) True (Some 1) None \<noteq> None"
proof (rule compile_returns_when_acyclic [where rank = sample_rank])
  show "ranked sample_rank (ce_heap (sample_env\<lparr>ce_mem_code := (\<lambda>n. False)\<rparr>))"
    by (auto simp: ranked_def sample_env_def sample_heap_def sample_rank_def subschemas_def)
qed (simp_all add: sample_env_def sample_heap_def sample_rank_def)

text \<open>
  C5. (pattern ownership): on failure every pattern the backend compiled has been freed,
  once; on success that holds after \<open>oas_compiled_schema_free\<close>.
\<close>

theorem compile_releases_patterns:
  assumes "oas_schema_compile n env ok x errors = Some (r, cs)"
  shows "let cs' = (if r then oas_compiled_schema_free cs else cs)
    in all_compiled cs' = all_freed cs'"
proof (cases "x = None \<or> \<not> ok")
  case True
  then show ?thesis using assms
    by (auto simp: oas_schema_compile_def oas_compiled_schema_init_def all_compiled_def all_freed_def Let_def)
next
  case False
  then obtain rc m where m: "run_steps [compile_schema n env x, emit_simple env OAS_OP_END]
      (oas_compiled_schema_init env errors) = Some (rc, m)"
    and r: "(r, cs) = (if rc = None then (True, m) else (False, oas_compiled_schema_free m))"
    using assms by (auto simp: oas_schema_compile_def Let_def bind_eq_Some_conv)
  show ?thesis
    using free_releases [OF compile_pattern_inv [OF m]] r by (auto split: if_splits)
qed

definition refusing_backend :: "string oas_regex_backend" where
  "refusing_backend =
     \<lparr>rx_compile = (\<lambda>p. if p = ''('' then Inl EINVAL else Inr p), rx_match = (\<lambda>p s. p = s)\<rparr>"

definition refusing_env :: "(string, unit) compile_env" where
  "refusing_env =
     \<lparr>ce_heap = [1 \<mapsto> oas_schema_fresh\<lparr>s_pattern := Some ''a'', s_not_schema := Some 2\<rparr>,
                 2 \<mapsto> oas_schema_fresh\<lparr>s_pattern := Some ''(''\<rparr>],
      ce_config = Some \<lparr>cc_regex = Some refusing_backend, cc_format_policy = 0, cc_borrow_regex = False\<rparr>,
      ce_report = (\<lambda>e m. e), ce_mem_code = (\<lambda>n. True), ce_mem_patterns = (\<lambda>n. True)\<rparr>"

theorem compile_releases_patterns_witness:
  "\<exists>cs. oas_schema_compile 2 refusing_env True (Some 1) None = Some (False, cs) \<and>
     all_compiled cs = {#''a''#} \<and> all_freed cs = {#''a''#}"
proof -
  have "\<exists>cs. oas_schema_compile 2 refusing_env True (Some 1) None = Some (False, cs) \<and>
      all_compiled cs = {#''a''#}"
    by (simp add: oas_schema_compile_def oas_compiled_schema_init_def refusing_env_def
        refusing_backend_def node_steps numeral_2_eq_2 with_pattern_def track_pattern_def
        OAS_PATTERN_INITIAL_CAP_def emitters emit_def oas_program_emit_def oas_program_init_def
        oas_program_initial_cap_def nested_def run_steps.simps(2) Let_def
        oas_compiled_schema_free_def all_compiled_def)
  then show ?thesis using compile_releases_patterns [of 2 refusing_env True "Some 1" None False] by auto
qed

definition choice_heap :: schema_heap where
  "choice_heap = [
     1 \<mapsto> oas_schema_fresh\<lparr>s_properties := [\<lparr>p_name = ''a'', p_schema = Some 2\<rparr>]\<rparr>,
     2 \<mapsto> oas_schema_fresh\<lparr>s_any_of := [Some 3, Some 4]\<rparr>,
     3 \<mapsto> oas_schema_fresh\<lparr>s_type_mask := OAS_TYPE_STRING\<rparr>,
     4 \<mapsto> oas_schema_fresh\<lparr>s_type_mask := OAS_TYPE_INTEGER\<rparr>]"

definition choice_program :: "unit oas_instruction list" where
  "choice_program =
     [instr OAS_OP_ENTER_PROPERTY (OpStr ''a''), instr OAS_OP_BRANCH_ANYOF (OpBranch 2 0),
      \<lparr>op = OAS_OP_CHECK_TYPE, type_mask = OAS_TYPE_STRING, operand = OpZero\<rparr>, end_instr,
      \<lparr>op = OAS_OP_CHECK_TYPE, type_mask = OAS_TYPE_INTEGER, operand = OpZero\<rparr>, end_instr,
      end_instr, end_instr]"

lemma choice_compiles:
  "\<exists>cs. oas_schema_compile 3 (sample_env\<lparr>ce_heap := choice_heap\<rparr>) True (Some 1) None = Some (True, cs) \<and>
     code (cs_program cs) = choice_program \<and> cs_regex cs = None"
  by (simp add: oas_schema_compile_def oas_compiled_schema_init_def sample_env_def choice_heap_def
      node_steps numeral_3_eq_3 emitters emit_def oas_program_emit_def oas_program_init_def
      oas_program_initial_cap_def nested_def compile_composition_def run_steps.simps(2) Let_def
      choice_program_def instr_def)

text \<open>
  (a branching keyword under \<open>properties\<close>): the compiled program of
  \<open>{"properties": {"a": {"anyOf": [{"type": "string"}, {"type": "integer"}]}}}\<close> rejects the
  empty object, which the schema accepts: skipping the absent property ends at the first
  branch's \<open>END\<close>, and the second branch is run against the object itself.
\<close>

theorem skipped_anyof_rejects_valid_object:
  "\<exists>cs. oas_schema_compile 3 (sample_env\<lparr>ce_heap := choice_heap\<rparr>) True (Some 1) None = Some (True, cs) \<and>
     oas_validate sample_yyjson grant_all (Some cs) (Some (JObj []))
       (Some \<lparr>vr_valid = True, vr_errors = None\<rparr>) None =
     Some (None, Some \<lparr>vr_valid = False, vr_errors = None\<rparr>) \<and>
     accepts 3 sample_yyjson (sample_env\<lparr>ce_heap := choice_heap\<rparr>) (Some 1) OAS_DIR_NONE (JObj [])"
proof -
  obtain cs where cs: "oas_schema_compile 3 (sample_env\<lparr>ce_heap := choice_heap\<rparr>) True (Some 1) None = Some (True, cs)"
    and prog: "code (cs_program cs) = choice_program" "cs_regex cs = None"
    using choice_compiles by blast
  have "oas_validate sample_yyjson grant_all (Some cs) (Some (JObj []))
       (Some \<lparr>vr_valid = True, vr_errors = None\<rparr>) None =
     Some (None, Some \<lparr>vr_valid = False, vr_errors = None\<rparr>)"
    by (simp add: oas_validate_def oas_validate_with_direction_def prog choice_program_def execute_def
        vm_step_def exec_enter_property_def exec_check_type_def instr_def sample_yyjson_def
        skip_to_end_def type_bits add_error_def Let_def)
  moreover have "accepts 3 sample_yyjson (sample_env\<lparr>ce_heap := choice_heap\<rparr>) (Some 1) OAS_DIR_NONE (JObj [])"
    by (simp add: numeral_3_eq_3 sample_env_def choice_heap_def accepts_node_def sample_yyjson_def
        meets_type_def effective_mask_def meets_length_def meets_pattern_def meets_format_def
        meets_numeric_def meets_array_def meets_object_def meets_dependencies_def meets_contains_def
        meets_compositions_def has_discriminator_def meets_conditionals_def meets_values_def)
  ultimately show ?thesis using cs by blast
qed

end
