(* ===== verification/Liboas_Query.thy ===== *)
theory Liboas_Query
  imports Liboas_Error
begin

text \<open>
  The query-string parser (\<open>src/core/oas_query.c\<close>) and the cookie-header parser
  (\<open>src/core/oas_cookie.c\<close>): percent decoding into arena buffers, the splitting loops with
  their bound on the number of pairs, and the round trips with the encodings they read. The
  arena is the allocator of \<open>Liboas_Error\<close>: it may refuse any request.
\<close>

section \<open>Percent decoding\<close>

text \<open>The digit's value; the source's \<open>-1\<close> is \<open>None\<close>.\<close>

definition hex_digit :: "char \<Rightarrow> nat option" where
  "hex_digit c =
     (if byte CHR ''0'' \<le> byte c \<and> byte c \<le> byte CHR ''9'' then Some (byte c - byte CHR ''0'')
      else if byte CHR ''a'' \<le> byte c \<and> byte c \<le> byte CHR ''f'' then Some (byte c - byte CHR ''a'' + 10)
      else if byte CHR ''A'' \<le> byte c \<and> byte c \<le> byte CHR ''F'' then Some (byte c - byte CHR ''A'' + 10)
      else None)"

text \<open>
  The byte a \<open>%XX\<close> at the head of the unread input stands for; \<open>i + 2 < len\<close> is that two more
  bytes are left in the segment.
\<close>

definition percent_byte :: "string \<Rightarrow> char option" where
  "percent_byte s =
     (case s of
        c # h # l # _ \<Rightarrow>
          if c = CHR 0x25
          then (case (hex_digit h, hex_digit l) of
                  (Some hi, Some lo) \<Rightarrow> Some (char_of (hi * 16 + lo))
                | _ \<Rightarrow> None)
          else None
      | _ \<Rightarrow> None)"

text \<open>The loops: the bytes they write, given the bytes still to read.\<close>

fun url_decode_loop :: "string \<Rightarrow> string" where
  "url_decode_loop [] = []"
| "url_decode_loop (c # s) =
     (case percent_byte (c # s) of
        Some b \<Rightarrow> b # url_decode_loop (drop 2 s)
      | None \<Rightarrow> (if c = CHR ''+'' then CHR '' '' else c) # url_decode_loop s)"

fun percent_decode_loop :: "string \<Rightarrow> string" where
  "percent_decode_loop [] = []"
| "percent_decode_loop (c # s) =
     (case percent_byte (c # s) of
        Some b \<Rightarrow> (if b = NUL then [] else [b]) @ percent_decode_loop (drop 2 s)
      | None \<Rightarrow> c # percent_decode_loop s)"

text \<open>The buffer's bytes before the terminator the code appends; \<open>None\<close> is the null pointer.\<close>

definition url_decode :: "'a allocator \<Rightarrow> 'a \<Rightarrow> string \<Rightarrow> string option \<times> 'a" where
  "url_decode alloc a src =
     (case alloc a (of_nat (length src + 1)) 1 of
        (None, a') \<Rightarrow> (None, a')
      | (Some _, a') \<Rightarrow> (Some (url_decode_loop src), a'))"

definition percent_decode :: "'a allocator \<Rightarrow> 'a \<Rightarrow> string \<Rightarrow> string option \<times> 'a" where
  "percent_decode alloc a src =
     (case alloc a (of_nat (length src + 1)) 1 of
        (None, a') \<Rightarrow> (None, a')
      | (Some _, a') \<Rightarrow> (Some (percent_decode_loop src), a'))"

section \<open>Query strings\<close>

record oas_query_pair =
  qp_key :: "string option"
  qp_value :: "string option"

definition sizeof_oas_query_pair :: u64 where
  "sizeof_oas_query_pair = 16"

text \<open>One segment; a null result of the decoder is stored like any other.\<close>

definition query_read :: "'a allocator \<Rightarrow> 'a \<Rightarrow> string \<Rightarrow> oas_query_pair \<times> 'a" where
  "query_read alloc a seg =
     (case dropWhile (\<lambda>c. c \<noteq> CHR ''='') seg of
        _ # v \<Rightarrow>
          (let (key, a) = url_decode alloc a (takeWhile (\<lambda>c. c \<noteq> CHR ''='') seg);
               (val, a) = url_decode alloc a v
           in (\<lparr>qp_key = key, qp_value = val\<rparr>, a))
      | [] \<Rightarrow>
          (let (key, a) = url_decode alloc a seg
           in (\<lparr>qp_key = key, qp_value = Some ''''\<rparr>, a)))"

text \<open>
  The loop with the number of array slots left and the unread string.
\<close>

fun query_loop :: "'a allocator \<Rightarrow> nat \<Rightarrow> 'a \<Rightarrow> string \<Rightarrow> oas_query_pair list \<times> 'a" where
  "query_loop alloc 0 a p = ([], a)"
| "query_loop alloc (Suc slots) a p =
     (if p = [] then ([], a)
      else
        let (pair, a) = query_read alloc a (takeWhile (\<lambda>c. c \<noteq> CHR ''&'') p)
        in (case dropWhile (\<lambda>c. c \<noteq> CHR ''&'') p of
              [] \<Rightarrow> ([pair], a)
            | _ # p' \<Rightarrow> (let (pairs, a) = query_loop alloc slots a p' in (pair # pairs, a))))"

text \<open>
  The return code (\<open>None\<close> for 0), the pairs stored through \<open>out\<close> (the null pointer with count
  0 is the empty list) and the arena. \<open>have_out\<close> is that both output pointers are non-null.
\<close>

definition oas_query_parse ::
    "'a allocator \<Rightarrow> 'a option \<Rightarrow> string option \<Rightarrow> bool
      \<Rightarrow> errno option \<times> oas_query_pair list \<times> 'a option" where
  "oas_query_parse alloc arena query_string have_out =
     (case arena of
        None \<Rightarrow> (Some EINVAL, [], None)
      | Some a \<Rightarrow>
          if \<not> have_out then (Some EINVAL, [], Some a)
          else
            (case query_string of
               None \<Rightarrow> (None, [], Some a)
             | Some q \<Rightarrow>
                 if q = [] then (None, [], Some a)
                 else
                   let n = Suc (count_list q CHR ''&'')
                   in (case alloc a (sizeof_oas_query_pair * of_nat n) 8 of
                         (None, a) \<Rightarrow> (Some ENOMEM, [], Some a)
                       | (Some _, a) \<Rightarrow>
                           (let (pairs, a) = query_loop alloc n a q in (None, pairs, Some a)))))"

section \<open>Cookie headers\<close>

record oas_cookie =
  ck_name :: "string option"
  ck_value :: "string option"

definition sizeof_oas_cookie :: nat where
  "sizeof_oas_cookie = 16"

text \<open>\<open>strstr(p, "; ")\<close>: the segment before the separator and the string after it.\<close>

fun cookie_cut :: "string \<Rightarrow> string \<times> string option" where
  "cookie_cut (c # d # s) =
     (if c = CHR '';'' \<and> d = CHR '' '' then ([], Some s)
      else let (seg, rest) = cookie_cut (d # s) in (c # seg, rest))"
| "cookie_cut s = (s, None)"

fun count_separators :: "string \<Rightarrow> nat" where
  "count_separators (c # d # s) =
     (if c = CHR '';'' \<and> d = CHR '' '' then 1 else 0) + count_separators (d # s)"
| "count_separators s = 0"

text \<open>The name is copied as it is; a refused buffer ends the loop with \<open>-ENOMEM\<close>.\<close>

definition copy_segment :: "'a allocator \<Rightarrow> 'a \<Rightarrow> string \<Rightarrow> string option \<times> 'a" where
  "copy_segment alloc a s =
     (case alloc a (of_nat (length s + 1)) 1 of
        (None, a') \<Rightarrow> (None, a')
      | (Some _, a') \<Rightarrow> (Some s, a'))"

definition cookie_pair :: "'a allocator \<Rightarrow> 'a \<Rightarrow> string \<Rightarrow> oas_cookie option \<times> 'a" where
  "cookie_pair alloc a seg =
     (case dropWhile (\<lambda>c. c \<noteq> CHR ''='') seg of
        _ # v \<Rightarrow>
          (case copy_segment alloc a (takeWhile (\<lambda>c. c \<noteq> CHR ''='') seg) of
             (None, a) \<Rightarrow> (None, a)
           | (Some nm, a) \<Rightarrow>
               (case percent_decode alloc a v of
                  (None, a) \<Rightarrow> (None, a)
                | (Some val, a) \<Rightarrow> (Some \<lparr>ck_name = Some nm, ck_value = Some val\<rparr>, a)))
      | [] \<Rightarrow>
          (case copy_segment alloc a seg of
             (None, a) \<Rightarrow> (None, a)
           | (Some nm, a) \<Rightarrow> (Some \<lparr>ck_name = Some nm, ck_value = Some ''''\<rparr>, a)))"

fun cookie_loop :: "'a allocator \<Rightarrow> nat \<Rightarrow> 'a \<Rightarrow> string \<Rightarrow> oas_cookie list option \<times> 'a" where
  "cookie_loop alloc 0 a p = (Some [], a)"
| "cookie_loop alloc (Suc slots) a p =
     (if p = [] then (Some [], a)
      else
        let (seg, rest) = cookie_cut p
        in (case cookie_pair alloc a seg of
              (None, a) \<Rightarrow> (None, a)
            | (Some ck, a) \<Rightarrow>
                (case rest of
                   None \<Rightarrow> (Some [ck], a)
                 | Some p' \<Rightarrow>
                     (let (cks, a) = cookie_loop alloc slots a p' in (map_option ((#) ck) cks, a)))))"

definition oas_cookie_parse ::
    "'a allocator \<Rightarrow> 'a option \<Rightarrow> string option \<Rightarrow> bool
      \<Rightarrow> errno option \<times> oas_cookie list \<times> 'a option" where
  "oas_cookie_parse alloc arena header have_out =
     (case arena of
        None \<Rightarrow> (Some EINVAL, [], None)
      | Some a \<Rightarrow>
          if \<not> have_out then (Some EINVAL, [], Some a)
          else
            (case header of
               None \<Rightarrow> (None, [], Some a)
             | Some h \<Rightarrow>
                 if h = [] then (None, [], Some a)
                 else
                   let n = Suc (count_separators h)
                   in if 2 ^ 64 \<le> sizeof_oas_cookie * n then (Some EOVERFLOW, [], Some a)
                      else
                        (case alloc a (of_nat (sizeof_oas_cookie * n)) 8 of
                           (None, a) \<Rightarrow> (Some ENOMEM, [], Some a)
                         | (Some _, a) \<Rightarrow>
                             (case cookie_loop alloc n a h of
                                (None, a) \<Rightarrow> (Some ENOMEM, [], Some a)
                              | (Some cks, a) \<Rightarrow> (None, cks, Some a)))))"

section \<open>The encodings the decoders undo\<close>

definition hex_char :: "nat \<Rightarrow> char" where
  "hex_char n = ''0123456789ABCDEF'' ! n"

text \<open>
  A writer keeps the characters it considers safe and writes \<open>%XX\<close> for the others.
\<close>

definition pct :: "char \<Rightarrow> string" where
  "pct c = [CHR 0x25, hex_char (byte c div 16), hex_char (byte c mod 16)]"

definition pct_encode :: "(char \<Rightarrow> bool) \<Rightarrow> string \<Rightarrow> string" where
  "pct_encode safe s = concat (map (\<lambda>c. if safe c then [c] else pct c) s)"

lemma pct_encode_simps [simp]:
  "pct_encode safe [] = []"
  "pct_encode safe (c # s) = (if safe c then [c] else pct c) @ pct_encode safe s"
  by (simp_all add: pct_encode_def)

lemma hex_digit_char [simp]:
  assumes "n < 16"
  shows "hex_digit (hex_char n) = Some n"
proof -
  have "\<forall>k \<in> set [0..<16]. hex_digit (hex_char k) = Some k"
    by (simp add: upt_rec hex_digit_def hex_char_def)
  then show ?thesis using assms by simp
qed

lemma hex_char_plain:
  assumes "n < 16"
  shows "hex_char n \<notin> {CHR ''&'', CHR ''='', CHR '';'', CHR ''+'', CHR 0x25}"
proof
  assume "hex_char n \<in> {CHR ''&'', CHR ''='', CHR '';'', CHR ''+'', CHR 0x25}"
  then have "hex_digit (hex_char n) = None"
    by (elim insertE emptyE) (simp_all add: hex_digit_def)
  then show False using hex_digit_char [OF assms] by simp
qed

lemma byte_nibbles: "byte c div 16 < 16" "byte c mod 16 < 16"
  using byte_less [of c] by (simp_all add: less_mult_imp_div_less)

lemma percent_byte_pct: "percent_byte (pct c @ s) = Some c"
proof -
  have "char_of (byte c div 16 * 16 + byte c mod 16) = c" by simp
  then show ?thesis by (simp add: percent_byte_def pct_def byte_nibbles)
qed

lemma percent_byte_other: "c \<noteq> CHR 0x25 \<Longrightarrow> percent_byte (c # s) = None"
  by (simp add: percent_byte_def split: list.split)

lemma url_decode_pct: "url_decode_loop (pct c @ s) = c # url_decode_loop s"
  using percent_byte_pct [of c s] by (simp add: pct_def)

lemma percent_decode_pct:
  "percent_decode_loop (pct c @ s) = (if c = NUL then [] else [c]) @ percent_decode_loop s"
  using percent_byte_pct [of c s] by (simp add: pct_def)

lemma url_decode_encode:
  assumes "\<not> safe CHR 0x25" and "\<not> safe CHR ''+''"
  shows "url_decode_loop (pct_encode safe s) = s"
proof (induction s)
  case (Cons c s)
  have "safe c \<Longrightarrow> c \<noteq> CHR 0x25 \<and> c \<noteq> CHR ''+''" using assms by auto
  then show ?case using Cons.IH by (auto simp: url_decode_pct percent_byte_other)
qed simp

lemma percent_decode_encode:
  assumes "\<not> safe CHR 0x25" and "is_cstring s"
  shows "percent_decode_loop (pct_encode safe s) = s"
  using assms(2)
proof (induction s)
  case (Cons c s)
  have "safe c \<Longrightarrow> c \<noteq> CHR 0x25" using assms(1) by auto
  then show ?case using Cons by (auto simp: percent_decode_pct percent_byte_other)
qed simp

lemma encode_avoids:
  assumes "c \<in> {CHR ''&'', CHR ''='', CHR '';''}" and "\<not> safe c"
  shows "c \<notin> set (pct_encode safe s)"
proof (induction s)
  case (Cons d s)
  have "c \<notin> set (pct d)"
    using hex_char_plain [OF byte_nibbles(1) [of d]] hex_char_plain [OF byte_nibbles(2) [of d]] assms(1)
    by (auto simp: pct_def)
  then show ?case using Cons.IH assms(2) by auto
qed simp

section \<open>With memory granted\<close>

lemma decoders_granted:
  assumes "alloc_total alloc" and "length s < 2 ^ 63"
  obtains a' where "url_decode alloc a s = (Some (url_decode_loop s), a')"
    and "percent_decode alloc a s = (Some (percent_decode_loop s), a')"
    and "copy_segment alloc a s = (Some s, a')"
proof -
  obtain p a' where "alloc a (of_nat (length s + 1)) 1 = (Some p, a')"
    using granted [OF assms(1), of "length s + 1" 1 a] assms(2) by auto
  then show thesis using that by (simp add: url_decode_def percent_decode_def copy_segment_def)
qed

text \<open>
  The pairs the query loop reads off: one per \<open>&\<close>-separated segment, without the empty
  segment a trailing \<open>&\<close> leaves.
\<close>

definition query_pair :: "string \<Rightarrow> oas_query_pair" where
  "query_pair seg =
     \<lparr>qp_key = Some (url_decode_loop (takeWhile (\<lambda>c. c \<noteq> CHR ''='') seg)),
      qp_value = Some (url_decode_loop (drop 1 (dropWhile (\<lambda>c. c \<noteq> CHR ''='') seg)))\<rparr>"

lemma query_read_pair:
  assumes "alloc_total alloc" and "length seg < 2 ^ 63"
  shows "fst (query_read alloc a seg) = query_pair seg"
proof -
  note g = decoders_granted [OF assms(1)]
  have k: "length (takeWhile (\<lambda>c. c \<noteq> CHR ''='') seg) < 2 ^ 63"
    using assms(2) length_takeWhile_le le_less_trans by blast
  obtain a' where key: "url_decode alloc a (takeWhile (\<lambda>c. c \<noteq> CHR ''='') seg) =
      (Some (url_decode_loop (takeWhile (\<lambda>c. c \<noteq> CHR ''='') seg)), a')" by (rule g [OF k])
  show ?thesis
  proof (cases "dropWhile (\<lambda>c. c \<noteq> CHR ''='') seg")
    case Nil
    then have "takeWhile (\<lambda>c. c \<noteq> CHR ''='') seg = seg" by (metis append_Nil2 takeWhile_dropWhile_id)
    then show ?thesis using Nil key
      by (simp add: query_read_def query_pair_def del: dropWhile_eq_Nil_conv takeWhile_eq_all_conv)
  next
    case (Cons c v)
    then have v: "length v < 2 ^ 63"
      using assms(2) length_dropWhile_le [of "\<lambda>c. c \<noteq> CHR ''=''" seg] by simp
    obtain a'' where "url_decode alloc a' v = (Some (url_decode_loop v), a'')" by (rule g [OF v])
    then show ?thesis using Cons key by (simp add: query_read_def query_pair_def)
  qed
qed

lemma query_loop_pairs:
  assumes "alloc_total alloc" and "length q < 2 ^ 63" and "length (split_segments CHR ''&'' q) \<le> slots"
  shows "fst (query_loop alloc slots a q) = map query_pair (split_segments CHR ''&'' q)"
  using assms(2,3)
proof (induction slots arbitrary: a q)
  case 0
  then show ?case by simp
next
  case (Suc slots)
  show ?case
  proof (cases "q = []")
    case False
    let ?seg = "takeWhile (\<lambda>c. c \<noteq> CHR ''&'') q"
    note step = split_segments_step [OF False]
    have "length ?seg < 2 ^ 63" using Suc.prems(1) length_takeWhile_le le_less_trans by blast
    then have p: "fst (query_read alloc a ?seg) = query_pair ?seg" by (rule query_read_pair [OF assms(1)])
    show ?thesis
    proof (cases "dropWhile (\<lambda>c. c \<noteq> CHR ''&'') q")
      case Nil
      then show ?thesis using False p step by (simp add: split_beta del: dropWhile_eq_Nil_conv)
    next
      case (Cons c r)
      then have "length r < 2 ^ 63"
        using Suc.prems(1) length_dropWhile_le [of "\<lambda>c. c \<noteq> CHR ''&''" q] by simp
      moreover have "length (split_segments CHR ''&'' r) \<le> slots" using Suc.prems(2) step Cons by simp
      ultimately show ?thesis using Suc.IH [of r] Cons False p step by (simp add: split_beta)
    qed
  qed simp
qed

lemma query_parse_pairs:
  assumes "alloc_total alloc" and "length q < 2 ^ 59"
  shows "\<exists>a'. oas_query_parse alloc (Some a) (Some q) True = (None, map query_pair (split_segments CHR ''&'' q), Some a')"
proof (cases "q = []")
  case False
  let ?n = "Suc (count_list q CHR ''&'')"
  have "?n \<le> 2 ^ 59" using assms(2) count_le_length [of q "CHR ''&''"] by simp
  then obtain p a' where "alloc a (of_nat (16 * ?n)) 8 = (Some p, a')"
    using granted [OF assms(1), of "16 * ?n" 8 a] by auto
  then have "alloc a (sizeof_oas_query_pair * of_nat ?n) 8 = (Some p, a')"
    by (simp add: sizeof_oas_query_pair_def)
  moreover have "fst (query_loop alloc ?n a' q) = map query_pair (split_segments CHR ''&'' q)"
    using assms by (intro query_loop_pairs length_split_segments) simp_all
  ultimately show ?thesis using False by (simp add: oas_query_parse_def Let_def split_beta)
qed (simp add: oas_query_parse_def)

section \<open>Cookies, with memory granted\<close>

lemma cookie_cut_sep: "CHR '';'' \<notin> set seg \<Longrightarrow> cookie_cut (seg @ CHR '';'' # CHR '' '' # s) = (seg, Some s)"
proof (induction seg)
  case (Cons c seg)
  then have "c \<noteq> CHR '';''" by auto
  then show ?case using Cons by (cases seg) simp_all
qed simp

lemma cookie_cut_last: "CHR '';'' \<notin> set seg \<Longrightarrow> cookie_cut seg = (seg, None)"
proof (induction seg)
  case (Cons c seg)
  then have "c \<noteq> CHR '';''" by auto
  then show ?case using Cons by (cases seg) simp_all
qed simp

lemma count_separators_skip: "c \<noteq> CHR '';'' \<Longrightarrow> count_separators (c # s) = count_separators s"
  by (cases s) simp_all

lemma count_separators_sep:
  "CHR '';'' \<notin> set seg \<Longrightarrow>
     count_separators (seg @ CHR '';'' # CHR '' '' # s) = Suc (count_separators s)"
proof (induction seg)
  case (Cons c seg)
  then have "c \<noteq> CHR '';''" by auto
  then show ?case using Cons by (simp add: count_separators_skip)
qed (simp add: count_separators_skip)

definition cookie_form :: "(char \<Rightarrow> bool) \<Rightarrow> string \<times> string \<Rightarrow> string" where
  "cookie_form safe nv = fst nv @ CHR ''='' # pct_encode safe (snd nv)"

fun render_cookies :: "(char \<Rightarrow> bool) \<Rightarrow> (string \<times> string) list \<Rightarrow> string" where
  "render_cookies safe [] = []"
| "render_cookies safe [nv] = cookie_form safe nv"
| "render_cookies safe (nv # cs) = cookie_form safe nv @ CHR '';'' # CHR '' '' # render_cookies safe cs"

definition cookie_ok :: "string \<times> string \<Rightarrow> bool" where
  "cookie_ok nv \<longleftrightarrow> CHR ''='' \<notin> set (fst nv) \<and> CHR '';'' \<notin> set (fst nv) \<and> is_cstring (snd nv)"

definition stored_cookie :: "string \<times> string \<Rightarrow> oas_cookie" where
  "stored_cookie nv = \<lparr>ck_name = Some (fst nv), ck_value = Some (snd nv)\<rparr>"

lemma cookie_form_no_sep:
  "cookie_ok nv \<Longrightarrow> \<not> safe CHR '';'' \<Longrightarrow> CHR '';'' \<notin> set (cookie_form safe nv)"
  using encode_avoids [of "CHR '';''" safe "snd nv"] by (auto simp: cookie_ok_def cookie_form_def)

lemma cookie_pair_form:
  assumes "alloc_total alloc" and "length (cookie_form safe nv) < 2 ^ 63" and "cookie_ok nv"
    and "\<not> safe CHR 0x25"
  shows "\<exists>a'. cookie_pair alloc a (cookie_form safe nv) = (Some (stored_cookie nv), a')"
proof -
  have eq: "CHR ''='' \<notin> set (fst nv)" using assms(3) by (simp add: cookie_ok_def)
  have s: "takeWhile (\<lambda>c. c \<noteq> CHR ''='') (cookie_form safe nv) = fst nv"
    "dropWhile (\<lambda>c. c \<noteq> CHR ''='') (cookie_form safe nv) = CHR ''='' # pct_encode safe (snd nv)"
    using eq by (auto simp: cookie_form_def takeWhile_append dropWhile_append)
  have l: "length (fst nv) < 2 ^ 63" "length (pct_encode safe (snd nv)) < 2 ^ 63"
    using assms(2) by (simp_all add: cookie_form_def)
  obtain a1 where n: "copy_segment alloc a (fst nv) = (Some (fst nv), a1)"
    by (rule decoders_granted [OF assms(1) l(1)])
  obtain a2 where v: "percent_decode alloc a1 (pct_encode safe (snd nv)) = (Some (snd nv), a2)"
    using percent_decode_encode [of safe "snd nv"] assms(3,4) decoders_granted [OF assms(1) l(2), of a1]
    by (metis cookie_ok_def)
  show ?thesis unfolding cookie_pair_def s using n v by (simp add: stored_cookie_def)
qed

lemma cookie_loop_render:
  assumes "alloc_total alloc" and "\<not> safe CHR 0x25" and "\<not> safe CHR '';''"
    and "list_all cookie_ok cs" and "length (render_cookies safe cs) < 2 ^ 63" and "length cs \<le> slots"
  shows "\<exists>a'. cookie_loop alloc slots a (render_cookies safe cs) = (Some (map stored_cookie cs), a')"
  using assms(4-6)
proof (induction cs arbitrary: a slots rule: induct_list012)
  case 1
  then show ?case by (cases slots) simp_all
next
  case (2 nv)
  then obtain k where k: "slots = Suc k" by (cases slots) auto
  have c: "cookie_cut (cookie_form safe nv) = (cookie_form safe nv, None)"
    using cookie_cut_last [OF cookie_form_no_sep [of nv safe]] 2 assms(3) by simp
  have "cookie_form safe nv \<noteq> []" by (simp add: cookie_form_def)
  then show ?case using cookie_pair_form [OF assms(1), of safe nv a] 2 assms(2) c k by auto
next
  case (3 nv nv' cs)
  then obtain k where k: "slots = Suc k" by (cases slots) auto
  let ?rest = "render_cookies safe (nv' # cs)"
  have c: "cookie_cut (render_cookies safe (nv # nv' # cs)) = (cookie_form safe nv, Some ?rest)"
    using 3 assms(3) by (simp add: cookie_cut_sep cookie_form_no_sep)
  obtain a1 where p: "cookie_pair alloc a (cookie_form safe nv) = (Some (stored_cookie nv), a1)"
    using cookie_pair_form [OF assms(1), of safe nv a] 3 assms(2) by auto
  obtain a2 where r: "cookie_loop alloc k a1 ?rest = (Some (map stored_cookie (nv' # cs)), a2)"
    using 3 k by fastforce
  show ?case unfolding k cookie_loop.simps c using p r by simp
qed

lemma length_render_cookies: "cs \<noteq> [] \<Longrightarrow> list_all cookie_ok cs \<Longrightarrow> \<not> safe CHR '';'' \<Longrightarrow>
  length cs \<le> Suc (count_separators (render_cookies safe cs))"
proof (induction safe cs rule: render_cookies.induct)
  case (3 safe nv nv' cs)
  then show ?case by (simp add: count_separators_sep cookie_form_no_sep)
qed simp_all

lemma count_separators_le: "count_separators s \<le> length s"
  by (induction s rule: count_separators.induct) auto

lemma query_loop_length: "length (fst (query_loop alloc slots a q)) \<le> slots"
proof (induction slots arbitrary: a q)
  case (Suc slots)
  then show ?case by (simp add: split_beta split: list.split)
qed simp

lemma cookie_loop_length:
  "cookie_loop alloc slots a h = (Some cks, a') \<Longrightarrow> length cks \<le> slots"
proof (induction slots arbitrary: a h cks a')
  case (Suc slots)
  then show ?case
    by (auto simp: split_beta Let_def split: if_splits prod.splits option.splits) (metis Suc.IH prod.collapse)
qed simp

section \<open>Properties\<close>

text \<open>
  With memory granted, \<open>oas_query_parse\<close> returns one pair for every \<open>&\<close>-separated
  segment of the query string (without an empty last one), split at its first \<open>=\<close>, both halves
  percent-decoded, in the order of the string.
\<close>

theorem query_parse_segments:
  assumes "alloc_total alloc" and "length q < 2 ^ 59"
  shows "\<exists>a'. oas_query_parse alloc (Some a) (Some q) True =
    (None, map query_pair (split_segments CHR ''&'' q), Some a')"
  using assms by (rule query_parse_pairs)

theorem query_parse_segments_witness:
  "\<exists>a'. oas_query_parse (\<lambda>a n k. (Some 8, a)) (Some ()) (Some ''a=1%2B&b&c=x+y&'') True =
    (None, [\<lparr>qp_key = Some ''a'', qp_value = Some ''1+''\<rparr>, \<lparr>qp_key = Some ''b'', qp_value = Some []\<rparr>,
            \<lparr>qp_key = Some ''c'', qp_value = Some ''x y''\<rparr>], Some a')"
proof -
  have "split_segments CHR ''&'' ''a=1%2B&b&c=x+y&'' = [''a=1%2B'', ''b'', ''c=x+y'']"
    by (simp add: split_segments_def)
  then show ?thesis
    using query_parse_segments [of "\<lambda>a n k. (Some 8, a)" "''a=1%2B&b&c=x+y&''" "()"]
    by (simp add: alloc_total_def query_pair_def percent_byte_def hex_digit_def char_of_def bit_Suc_0_iff)
qed

text \<open>
  C19. \<open>oas_query_parse\<close> reads back what a writer encoded: for any list of pairs, rendered with
  \<open>key=value\<close> joined by \<open>&\<close> and every unsafe byte written as \<open>%XX\<close>, it returns exactly those
  pairs.
\<close>

theorem query_roundtrip:
  assumes "alloc_total alloc" and "list_all (\<lambda>c. \<not> safe c) [CHR 0x25, CHR ''+'', CHR ''&'', CHR ''='']"
    and "length (join_on CHR ''&'' (map (\<lambda>(k, v). pct_encode safe k @ CHR ''='' # pct_encode safe v) kvs)) < 2 ^ 59"
  shows "\<exists>a'. oas_query_parse alloc (Some a)
      (Some (join_on CHR ''&'' (map (\<lambda>(k, v). pct_encode safe k @ CHR ''='' # pct_encode safe v) kvs))) True =
    (None, map (\<lambda>(k, v). \<lparr>qp_key = Some k, qp_value = Some v\<rparr>) kvs, Some a')"
proof (cases "kvs = []")
  case False
  let ?f = "\<lambda>(k, v). pct_encode safe k @ CHR ''='' # pct_encode safe v"
  have av: "CHR ''&'' \<notin> set (pct_encode safe s)" "CHR ''='' \<notin> set (pct_encode safe s)" for s
    using assms(2) by (simp_all add: encode_avoids)
  have "split_on CHR ''&'' (join_on CHR ''&'' (map ?f kvs)) = map ?f kvs"
    using False av by (intro split_join_on) auto
  moreover have "last (map ?f kvs) \<noteq> []" using False by (simp add: last_map split_beta)
  ultimately have "split_segments CHR ''&'' (join_on CHR ''&'' (map ?f kvs)) = map ?f kvs"
    by (simp add: split_segments_def)
  moreover have "map query_pair (map ?f kvs) = map (\<lambda>(k, v). \<lparr>qp_key = Some k, qp_value = Some v\<rparr>) kvs"
  proof -
    have "query_pair (?f kv) = (\<lambda>(k, v). \<lparr>qp_key = Some k, qp_value = Some v\<rparr>) kv" for kv
      using av assms(2) by (cases kv)
        (auto simp: query_pair_def takeWhile_append dropWhile_append url_decode_encode)
    then show ?thesis unfolding map_map comp_def by simp
  qed
  ultimately show ?thesis using query_parse_pairs [OF assms(1,3), of a] by (simp only:)
qed (simp add: oas_query_parse_def)

theorem query_roundtrip_witness:
  "\<exists>a'. oas_query_parse (\<lambda>a n k. (Some 8, a)) (Some ()) (Some ''a=%26%3D&b%25=c'') True =
    (None, [\<lparr>qp_key = Some ''a'', qp_value = Some ''&=''\<rparr>, \<lparr>qp_key = Some ''b%'', qp_value = Some ''c''\<rparr>], Some a')"
  using query_roundtrip [of "\<lambda>a n k. (Some 8, a)" "\<lambda>c. c \<in> {CHR ''a'', CHR ''b'', CHR ''c''}"
      "[(''a'', ''&=''), (''b%'', ''c'')]" "()"]
  by (simp add: alloc_total_def pct_def hex_char_def)

text \<open>
  \<open>oas_cookie_parse\<close> reads back what a server set: for names without \<open>=\<close> and \<open>;\<close> and values
  percent-encoded with \<open>;\<close> and \<open>%\<close> unsafe, the header \<open>n1=v1; n2=v2; ...\<close> gives exactly those
  names and values, in order.
\<close>

theorem cookie_roundtrip:
  assumes "alloc_total alloc" and "\<not> safe CHR 0x25" and "\<not> safe CHR '';''"
    and "list_all cookie_ok cs" and "length (render_cookies safe cs) < 2 ^ 59"
  shows "\<exists>a'. oas_cookie_parse alloc (Some a) (Some (render_cookies safe cs)) True =
    (None, map stored_cookie cs, Some a')"
proof (cases "cs = []")
  case False
  let ?h = "render_cookies safe cs" and ?n = "Suc (count_separators (render_cookies safe cs))"
  have "?h \<noteq> []" using False by (cases "(safe, cs)" rule: render_cookies.cases) (auto simp: cookie_form_def)
  moreover have n: "?n \<le> 2 ^ 59" using assms(5) count_separators_le [of ?h] by simp
  then obtain p a1 where al: "alloc a (of_nat (sizeof_oas_cookie * ?n)) 8 = (Some p, a1)"
    using granted [OF assms(1), of "sizeof_oas_cookie * ?n" 8 a] by (auto simp: sizeof_oas_cookie_def)
  obtain a2 where "cookie_loop alloc ?n a1 ?h = (Some (map stored_cookie cs), a2)"
    using cookie_loop_render [OF assms(1-4), of ?n a1] length_render_cookies [of cs safe, OF False assms(4,3)] assms(5)
    by auto
  moreover have "\<not> 2 ^ 64 \<le> sizeof_oas_cookie * ?n" using n by (simp add: sizeof_oas_cookie_def)
  ultimately show ?thesis using al
    by (simp add: oas_cookie_parse_def Let_def del: cookie_loop.simps of_nat_Suc of_nat_mult mult_Suc_right)
qed (simp add: oas_cookie_parse_def)

theorem cookie_roundtrip_witness:
  "\<exists>a'. oas_cookie_parse (\<lambda>a n k. (Some 8, a)) (Some ()) (Some ''a=x%3By; b='') True =
    (None, [\<lparr>ck_name = Some ''a'', ck_value = Some ''x;y''\<rparr>, \<lparr>ck_name = Some ''b'', ck_value = Some []\<rparr>], Some a')"
  using cookie_roundtrip [of "\<lambda>a n k. (Some 8, a)" "\<lambda>c. c \<in> {CHR ''x'', CHR ''y''}"
      "[(''a'', ''x;y''), (''b'', [])]" "()"]
  by (simp add: alloc_total_def pct_def hex_char_def cookie_form_def cookie_ok_def stored_cookie_def)

text \<open>
  Both parsers stay inside the array they allocated: whatever the arena answers, the number
  of pairs stored is at most the number of slots requested, one more than the separators
  counted.
\<close>

theorem pairs_in_bounds:
  "length (fst (snd (oas_query_parse alloc arena (Some q) out))) \<le> Suc (count_list q CHR ''&'') \<and>
   length (fst (snd (oas_cookie_parse alloc arena (Some h) out))) \<le> Suc (count_separators h)"
proof
  show "length (fst (snd (oas_query_parse alloc arena (Some q) out))) \<le> Suc (count_list q CHR ''&'')"
    using query_loop_length [of alloc "Suc (count_list q CHR ''&'')"]
    by (auto simp: oas_query_parse_def Let_def split_beta split: option.split prod.split
        simp del: query_loop.simps)
  show "length (fst (snd (oas_cookie_parse alloc arena (Some h) out))) \<le> Suc (count_separators h)"
    by (auto simp: oas_cookie_parse_def Let_def split: option.split prod.split
        simp del: cookie_loop.simps dest: cookie_loop_length)
qed

text \<open>
  When a decoding buffer is refused, \<open>oas_query_parse\<close> still answers 0: the pair it
  hands out then has null pointers for key and value, which its callers have to expect.
\<close>

theorem query_null_key:
  "oas_query_parse (\<lambda>a n k. if k = 1 then (None, a) else (Some 8, a)) (Some ()) (Some ''a=b'') True =
     (None, [\<lparr>qp_key = None, qp_value = None\<rparr>], Some ())"
  by (simp add: oas_query_parse_def query_read_def url_decode_def Let_def)

end
