(* ===== verification/Liboas_Path.thy ===== *)
theory Liboas_Path
  imports Liboas_Error
begin

text \<open>
  The path matcher (\<open>src/core/oas_path_match.c\<close>): templates are parsed into static and
  parameter segments, a request path is split, and the matching template with the most static
  segments gives the parameters. Memory comes from the arena, which may refuse.
\<close>

section \<open>Data\<close>

datatype path_seg_kind = PATH_SEG_STATIC | PATH_SEG_PARAM

text \<open>A refused buffer leaves the segment without its text.\<close>

record path_segment =
  seg_kind :: path_seg_kind
  seg_text :: "string option"

record path_template =
  pt_path :: string
  pt_segments :: "path_segment list"
  pt_static_count :: nat

record oas_path_param =
  mp_name :: "string option"
  mp_value :: string

record oas_path_match_result =
  pm_matched :: bool
  pm_template_path :: "string option"
  pm_params :: "oas_path_param list"
  pm_params_count :: nat

definition MAX_SEGMENTS :: nat where
  "MAX_SEGMENTS = 64"

section \<open>Templates\<close>

text \<open>
  The counting loop, with the length of the current segment and the string from position
  \<open>i\<close>; it stops at a slash that is the last character.
\<close>

fun count_segments_loop :: "nat \<Rightarrow> string \<Rightarrow> nat" where
  "count_segments_loop cur [] = (if 0 < cur then 1 else 0)"
| "count_segments_loop cur (c # s) =
     (if c = CHR ''/''
      then (if 0 < cur then 1 else 0) + (if s = [] then 0 else count_segments_loop 0 s)
      else count_segments_loop (Suc cur) s)"

definition count_segments :: "string \<Rightarrow> nat" where
  "count_segments path =
     (case path of
        [] \<Rightarrow> 0
      | c # s \<Rightarrow>
          if c = CHR ''/'' then (if s = [] then 0 else count_segments_loop 0 s)
          else count_segments_loop 0 path)"

definition is_param_segment :: "string \<Rightarrow> bool" where
  "is_param_segment seg \<longleftrightarrow> hd seg = CHR ''{'' \<and> last seg = CHR ''}''"

text \<open>One slot of the segments array: its kind, and its text copied without the braces.\<close>

definition parse_segment :: "'a allocator \<Rightarrow> 'a \<Rightarrow> string \<Rightarrow> path_segment \<times> 'a" where
  "parse_segment alloc a seg =
     (let (kind, text) = (if is_param_segment seg then (PATH_SEG_PARAM, butlast (tl seg))
                          else (PATH_SEG_STATIC, seg))
      in (case alloc a (of_nat (length text + 1)) 1 of
            (None, a) \<Rightarrow> (\<lparr>seg_kind = kind, seg_text = None\<rparr>, a)
          | (Some _, a) \<Rightarrow> (\<lparr>seg_kind = kind, seg_text = Some text\<rparr>, a)))"

text \<open>
  The filling loop: the return code (\<open>None\<close> for 0) and every slot of the array it wrote to,
  on the failing paths too.
\<close>

function parse_segments :: "'a allocator \<Rightarrow> 'a \<Rightarrow> string \<Rightarrow> errno option \<times> path_segment list \<times> 'a" where
  "parse_segments alloc a s =
     (if s = [] then (None, [], a)
      else
        let seg = takeWhile (\<lambda>c. c \<noteq> CHR ''/'') s
        in if seg = [] then (Some EINVAL, [], a)
           else
             let (slot, a) = parse_segment alloc a seg
             in if seg_text slot = None then (Some ENOMEM, [slot], a)
                else
                  (case dropWhile (\<lambda>c. c \<noteq> CHR ''/'') s of
                     [] \<Rightarrow> (None, [slot], a)
                   | _ # r \<Rightarrow>
                       (let (rc, slots, a) = parse_segments alloc a r in (rc, slot # slots, a))))"
  by pat_completeness auto
termination
  by (relation "measure (\<lambda>(alloc, a, s). length s)") (auto dest: dropWhile_shorter)

declare parse_segments.simps [simp del]

definition strip_slash :: "string \<Rightarrow> string" where
  "strip_slash s = (case s of c # r \<Rightarrow> if c = CHR ''/'' then r else s | [] \<Rightarrow> [])"

definition sizeof_path_segment :: nat where
  "sizeof_path_segment = 24"

definition sizeof_path_template :: nat where
  "sizeof_path_template = 32"

definition count_static :: "path_segment list \<Rightarrow> nat" where
  "count_static segs = length (filter (\<lambda>g. seg_kind g = PATH_SEG_STATIC) segs)"

definition parse_template :: "'a allocator \<Rightarrow> 'a \<Rightarrow> string \<Rightarrow> errno option \<times> path_template \<times> 'a" where
  "parse_template alloc a tmpl =
     (if tmpl = ''/'' \<or> count_segments tmpl = 0
      then (None, \<lparr>pt_path = tmpl, pt_segments = [], pt_static_count = 0\<rparr>, a)
      else
        (case alloc a (of_nat (count_segments tmpl * sizeof_path_segment)) 8 of
           (None, a) \<Rightarrow> (Some ENOMEM, \<lparr>pt_path = tmpl, pt_segments = [], pt_static_count = 0\<rparr>, a)
         | (Some _, a) \<Rightarrow>
             (let (rc, segs, a) = parse_segments alloc a (strip_slash tmpl)
              in (rc, \<lparr>pt_path = tmpl, pt_segments = segs, pt_static_count = count_static segs\<rparr>, a))))"

text \<open>The matcher is its array of templates; a null entry or a failing template gives none.\<close>

fun create_loop :: "'a allocator \<Rightarrow> 'a \<Rightarrow> string option list \<Rightarrow> path_template list option \<times> 'a" where
  "create_loop alloc a [] = (Some [], a)"
| "create_loop alloc a (None # ts) = (None, a)"
| "create_loop alloc a (Some t # ts) =
     (let (rc, tmpl, a) = parse_template alloc a t
      in if rc \<noteq> None then (None, a)
         else (let (r, a) = create_loop alloc a ts in (map_option ((#) tmpl) r, a)))"

definition oas_path_matcher_create ::
    "'a allocator \<Rightarrow> 'a option \<Rightarrow> string option list option \<Rightarrow> path_template list option \<times> 'a option" where
  "oas_path_matcher_create alloc arena templates =
     (case (arena, templates) of
        (Some a, Some ts) \<Rightarrow>
          if ts = [] then (None, Some a)
          else
            (case alloc a 16 8 of
               (None, a) \<Rightarrow> (None, Some a)
             | (Some _, a) \<Rightarrow>
                 (case alloc a (of_nat (length ts * sizeof_path_template)) 8 of
                    (None, a) \<Rightarrow> (None, Some a)
                  | (Some _, a) \<Rightarrow> (let (r, a) = create_loop alloc a ts in (r, Some a))))
      | _ \<Rightarrow> (None, arena))"

section \<open>Requests\<close>

text \<open>The loop with the slots left in the caller's arrays; \<open>None\<close> is \<open>-EINVAL\<close>.\<close>

fun split_loop :: "nat \<Rightarrow> string \<Rightarrow> string list option" where
  "split_loop 0 s = (if s = [] then Some [] else None)"
| "split_loop (Suc slots) s =
     (if s = [] then Some []
      else
        let seg = takeWhile (\<lambda>c. c \<noteq> CHR ''/'') s
        in if seg = [] then None
           else
             (case dropWhile (\<lambda>c. c \<noteq> CHR ''/'') s of
                [] \<Rightarrow> Some [seg]
              | _ # r \<Rightarrow> map_option ((#) seg) (split_loop slots r)))"

definition split_request_path :: "string \<Rightarrow> nat \<Rightarrow> string list option" where
  "split_request_path path max_segs =
     (if path = ''/'' then Some []
      else
        let eff = (if 1 < length path \<and> last path = CHR ''/'' then butlast path else path)
        in split_loop max_segs (strip_slash eff))"

definition segment_matches :: "path_segment \<Rightarrow> string \<Rightarrow> bool" where
  "segment_matches ts seg \<longleftrightarrow>
     (case seg_kind ts of PATH_SEG_STATIC \<Rightarrow> seg_text ts = Some seg | PATH_SEG_PARAM \<Rightarrow> True)"

definition try_match :: "path_template \<Rightarrow> string list \<Rightarrow> bool" where
  "try_match tmpl segs \<longleftrightarrow>
     length (pt_segments tmpl) = length segs \<and> list_all2 segment_matches (pt_segments tmpl) segs"

definition better_match :: "string list \<Rightarrow> path_template \<Rightarrow> path_template option \<Rightarrow> path_template option" where
  "better_match segs tmpl best =
     (if try_match tmpl segs \<and>
         (case best of None \<Rightarrow> True | Some b \<Rightarrow> pt_static_count b < pt_static_count tmpl)
      then Some tmpl else best)"

definition best_match :: "path_template list \<Rightarrow> string list \<Rightarrow> path_template option" where
  "best_match templates segs = fold (better_match segs) templates None"

text \<open>The parameters in the order of the template; on a refused buffer, those already stored.\<close>

fun params_loop ::
    "'a allocator \<Rightarrow> 'a \<Rightarrow> (path_segment \<times> string) list \<Rightarrow> errno option \<times> oas_path_param list \<times> 'a" where
  "params_loop alloc a [] = (None, [], a)"
| "params_loop alloc a ((ts, seg) # rest) =
     (if seg_kind ts \<noteq> PATH_SEG_PARAM then params_loop alloc a rest
      else
        (case alloc a (of_nat (length seg + 1)) 1 of
           (None, a) \<Rightarrow> (Some ENOMEM, [], a)
         | (Some _, a) \<Rightarrow>
             (let (rc, ps, a) = params_loop alloc a rest
              in (rc, \<lparr>mp_name = seg_text ts, mp_value = seg\<rparr> # ps, a))))"

definition no_match :: oas_path_match_result where
  "no_match = \<lparr>pm_matched = False, pm_template_path = None, pm_params = [], pm_params_count = 0\<rparr>"

definition count_params :: "path_segment list \<Rightarrow> nat" where
  "count_params segs = length (filter (\<lambda>g. seg_kind g = PATH_SEG_PARAM) segs)"

text \<open>
  The return code, the caller's result structure and the arena. Null pointers are \<open>None\<close>.
\<close>

definition oas_path_match ::
    "'a allocator \<Rightarrow> path_template list option \<Rightarrow> string option \<Rightarrow> oas_path_match_result option
      \<Rightarrow> 'a option \<Rightarrow> errno option \<times> oas_path_match_result option \<times> 'a option" where
  "oas_path_match alloc matcher request_path result arena =
     (case (matcher, request_path, result, arena) of
        (Some templates, Some path, Some _, Some a) \<Rightarrow>
          if path = [] \<or> hd path \<noteq> CHR ''/'' then (Some EINVAL, Some no_match, Some a)
          else
            (case split_request_path path MAX_SEGMENTS of
               None \<Rightarrow> (None, Some no_match, Some a)
             | Some segs \<Rightarrow>
                 (case best_match templates segs of
                    None \<Rightarrow> (None, Some no_match, Some a)
                  | Some best \<Rightarrow>
                      let n = count_params (pt_segments best);
                          res = \<lparr>pm_matched = True, pm_template_path = Some (pt_path best),
                                 pm_params = [], pm_params_count = n\<rparr>
                      in if n = 0 then (None, Some res, Some a)
                         else
                           (case alloc a (of_nat (n * 16)) 8 of
                              (None, a) \<Rightarrow> (Some ENOMEM, Some res, Some a)
                            | (Some _, a) \<Rightarrow>
                                (let (rc, ps, a) = params_loop alloc a (zip (pt_segments best) segs)
                                 in (rc, Some (res\<lparr>pm_params := ps\<rparr>), Some a)))))
      | _ \<Rightarrow> (Some EINVAL, result, arena))"

section \<open>Requests and templates as lists of segments\<close>

lemma split_loop_segments:
  "split_loop slots s =
     (let segs = split_segments CHR ''/'' s
      in if length segs \<le> slots \<and> [] \<notin> set segs then Some segs else None)"
proof (induction slots arbitrary: s)
  case 0
  then show ?case using split_segments_step [of s "CHR ''/''"] by (cases "s = []") (simp_all add: Let_def)
next
  case (Suc slots)
  show ?case
  proof (cases "s = []")
    case False
    note step = split_segments_step [OF False, of "CHR ''/''"]
    show ?thesis
    proof (cases "dropWhile (\<lambda>c. c \<noteq> CHR ''/'') s")
      case Nil
      then show ?thesis using False step
        by (simp add: Let_def del: dropWhile_eq_Nil_conv takeWhile_eq_Nil_iff)
    next
      case (Cons c r)
      then show ?thesis using False step Suc.IH [of r]
        by (auto simp: Let_def simp del: takeWhile_eq_Nil_iff)
    qed
  qed simp
qed

definition segments_text :: "string list \<Rightarrow> string" where
  "segments_text segs = CHR ''/'' # join_on CHR ''/'' segs"

lemma split_request_segments:
  assumes "list_all (\<lambda>s. s \<noteq> [] \<and> CHR ''/'' \<notin> set s) segs"
  shows "split_request_path (segments_text segs) m = (if length segs \<le> m then Some segs else None)"
    and "segs \<noteq> [] \<Longrightarrow> split_request_path (segments_text segs @ ''/'') m = (if length segs \<le> m then Some segs else None)"
proof -
  have j: "split_segments CHR ''/'' (join_on CHR ''/'' segs) = segs"
    using assms by (intro split_segments_join) (auto simp: list_all_iff)
  have ne: "[] \<notin> set segs" using assms by (auto simp: list_all_iff)
  have last: "segs \<noteq> [] \<Longrightarrow> join_on CHR ''/'' segs \<noteq> [] \<and> last (join_on CHR ''/'' segs) \<noteq> CHR ''/''"
    using assms
  proof (induction segs rule: induct_list012)
    case (3 x y zs)
    then show ?case by (simp add: join_on_Cons)
  qed (auto dest: last_in_set)
  show "split_request_path (segments_text segs) m = (if length segs \<le> m then Some segs else None)"
    using last j ne by (cases "segs = []")
      (simp_all add: split_request_path_def segments_text_def strip_slash_def split_loop_segments Let_def)
  show "split_request_path (segments_text segs @ ''/'') m = (if length segs \<le> m then Some segs else None)"
    if "segs \<noteq> []"
    using last j ne that by
      (simp add: split_request_path_def segments_text_def strip_slash_def split_loop_segments Let_def butlast_append)
qed

text \<open>What a template's segment stands for.\<close>

definition slot_of :: "string \<Rightarrow> path_segment" where
  "slot_of t = (if is_param_segment t then \<lparr>seg_kind = PATH_SEG_PARAM, seg_text = Some (butlast (tl t))\<rparr>
                else \<lparr>seg_kind = PATH_SEG_STATIC, seg_text = Some t\<rparr>)"

definition template_segments :: "string \<Rightarrow> string list" where
  "template_segments tmpl =
     (let segs = split_segments CHR ''/'' (strip_slash tmpl) in if list_all (\<lambda>t. t = []) segs then [] else segs)"

definition matches_template :: "string \<Rightarrow> string list \<Rightarrow> bool" where
  "matches_template tmpl segs \<longleftrightarrow> list_all2 (\<lambda>t s. is_param_segment t \<or> t = s) (template_segments tmpl) segs"

definition template_statics :: "string \<Rightarrow> nat" where
  "template_statics tmpl = length (filter (\<lambda>t. \<not> is_param_segment t) (template_segments tmpl))"

definition bound_params :: "string \<Rightarrow> string list \<Rightarrow> oas_path_param list" where
  "bound_params tmpl segs =
     map (\<lambda>(t, s). \<lparr>mp_name = Some (butlast (tl t)), mp_value = s\<rparr>)
       (filter (\<lambda>(t, s). is_param_segment t) (zip (template_segments tmpl) segs))"

definition represents :: "string \<Rightarrow> path_template \<Rightarrow> bool" where
  "represents s tmpl \<longleftrightarrow> pt_path tmpl = s \<and> pt_segments tmpl = map slot_of (template_segments s) \<and>
     pt_static_count tmpl = template_statics s"

lemma parse_segment_slot:
  "parse_segment alloc a seg = (slot, a') \<Longrightarrow> seg_text slot \<noteq> None \<Longrightarrow> slot = slot_of seg"
  by (auto simp: parse_segment_def slot_of_def Let_def split: if_splits option.splits prod.splits)

lemma parse_segments_slots:
  "parse_segments alloc a s = (None, slots, a') \<Longrightarrow>
     slots = map slot_of (split_segments CHR ''/'' s) \<and> [] \<notin> set (split_segments CHR ''/'' s)"
proof (induction alloc a s arbitrary: slots a' rule: parse_segments.induct)
  case (1 alloc a s)
  let ?seg = "takeWhile (\<lambda>c. c \<noteq> CHR ''/'') s"
  show ?case
  proof (cases "s = []")
    case True
    then show ?thesis using "1.prems" parse_segments.simps [of alloc a s] by simp
  next
    case False
    note step = split_segments_step [OF False, of "CHR ''/''"]
    obtain slot a1 where slot: "parse_segment alloc a ?seg = (slot, a1)" by fastforce
    have seg: "?seg \<noteq> []" and tx: "seg_text slot \<noteq> None"
      using "1.prems" parse_segments.simps [of alloc a s] slot False
      by (auto simp: Let_def simp del: takeWhile_eq_Nil_iff split: if_splits)
    have so: "slot = slot_of ?seg" using parse_segment_slot [OF slot tx] .
    show ?thesis
    proof (cases "dropWhile (\<lambda>c. c \<noteq> CHR ''/'') s")
      case Nil
      then show ?thesis
        using "1.prems" parse_segments.simps [of alloc a s] slot False seg tx so step
        by (auto simp: Let_def simp del: dropWhile_eq_Nil_conv takeWhile_eq_Nil_iff split: if_splits)
    next
      case (Cons c r)
      then obtain slots' where r: "parse_segments alloc a1 r = (None, slots', a')" "slots = slot # slots'"
        using "1.prems" parse_segments.simps [of alloc a s] slot False seg tx
        by (auto simp: Let_def split: prod.splits simp del: takeWhile_eq_Nil_iff)
      have "slots' = map slot_of (split_segments CHR ''/'' r) \<and> [] \<notin> set (split_segments CHR ''/'' r)"
        using "1.IH" [OF False refl seg slot [symmetric] refl tx Cons r(1)] .
      then show ?thesis using r(2) so step Cons seg by (simp del: takeWhile_eq_Nil_iff)
    qed
  qed
qed

lemma count_segments_loop_seg:
  "CHR ''/'' \<notin> set seg \<Longrightarrow> count_segments_loop cur seg = (if 0 < cur + length seg then 1 else 0)"
  "CHR ''/'' \<notin> set seg \<Longrightarrow> count_segments_loop cur (seg @ CHR ''/'' # r) =
     (if 0 < cur + length seg then 1 else 0) + (if r = [] then 0 else count_segments_loop 0 r)"
  by (induction seg arbitrary: cur) auto

text \<open>The count is that of the non-empty parts.\<close>

lemma count_segments_loop_split:
  "count_segments_loop 0 s = length (filter (\<lambda>t. t \<noteq> []) (split_segments CHR ''/'' s))"
proof (induction s rule: measure_induct_rule [of length])
  case (less s)
  show ?case
  proof (cases "s = []")
    case False
    let ?seg = "takeWhile (\<lambda>c. c \<noteq> CHR ''/'') s"
    have no: "CHR ''/'' \<notin> set ?seg" by (auto dest: set_takeWhileD)
    note step = split_segments_step [OF False, of "CHR ''/''"]
    show ?thesis
    proof (cases "dropWhile (\<lambda>c. c \<noteq> CHR ''/'') s")
      case Nil
      then have "?seg = s" by (metis append_Nil2 takeWhile_dropWhile_id)
      then show ?thesis using False step Nil no count_segments_loop_seg(1) [OF no, of 0]
        by (simp del: dropWhile_eq_Nil_conv takeWhile_eq_all_conv)
    next
      case (Cons c r)
      then have c: "c = CHR ''/''" using dropWhile_sep [of "CHR ''/''" s] by auto
      then have "s = ?seg @ CHR ''/'' # r" using Cons by (metis takeWhile_dropWhile_id)
      moreover have "length r < length s" using Cons by (rule dropWhile_shorter)
      ultimately show ?thesis
        using less.IH [of r] step Cons count_segments_loop_seg(2) [OF no, of 0 r]
        by (cases "r = []") (auto simp del: takeWhile_eq_Nil_iff)
    qed
  qed simp
qed

lemma count_segments_strip: "count_segments tmpl = count_segments_loop 0 (strip_slash tmpl)"
  by (cases tmpl) (simp_all add: count_segments_def strip_slash_def)

lemma count_segments_split:
  "count_segments tmpl = length (filter (\<lambda>t. t \<noteq> []) (split_segments CHR ''/'' (strip_slash tmpl)))"
  by (simp add: count_segments_strip count_segments_loop_split)

lemma count_segments_zero: "count_segments tmpl = 0 \<longleftrightarrow> template_segments tmpl = []"
proof -
  let ?segs = "split_segments CHR ''/'' (strip_slash tmpl)"
  have "count_segments tmpl = 0 \<longleftrightarrow> list_all (\<lambda>t. t = []) ?segs"
    by (simp add: count_segments_split filter_empty_conv list_all_iff)
  moreover have "template_segments tmpl = [] \<longleftrightarrow> list_all (\<lambda>t. t = []) ?segs"
    by (cases "list_all (\<lambda>t. t = []) ?segs"; cases "?segs = []") (simp_all add: template_segments_def Let_def)
  ultimately show ?thesis by blast
qed

lemma statics_slots: "count_static (map slot_of ts) = length (filter (\<lambda>t. \<not> is_param_segment t) ts)"
  by (induction ts) (simp_all add: count_static_def slot_of_def)

lemma parse_template_represents:
  assumes "parse_template alloc a tmpl = (None, t, a')"
  shows "represents tmpl t"
proof (cases "tmpl = ''/'' \<or> count_segments tmpl = 0")
  case True
  moreover have "template_segments ''/'' = []" by (simp add: template_segments_def strip_slash_def)
  ultimately have "template_segments tmpl = []" using count_segments_zero [of tmpl] by blast
  moreover have "t = \<lparr>pt_path = tmpl, pt_segments = [], pt_static_count = 0\<rparr>"
    using assms True by (simp add: parse_template_def)
  ultimately show ?thesis by (simp add: represents_def template_statics_def)
next
  case False
  then obtain slots a1 a2 where p: "parse_segments alloc a1 (strip_slash tmpl) = (None, slots, a2)"
    and t: "t = \<lparr>pt_path = tmpl, pt_segments = slots, pt_static_count = count_static slots\<rparr>"
    using assms by (auto simp: parse_template_def split: option.splits prod.splits)
  note s = parse_segments_slots [OF p]
  have "template_segments tmpl \<noteq> []" using False by (simp add: count_segments_zero)
  then have "template_segments tmpl = split_segments CHR ''/'' (strip_slash tmpl)"
    by (auto simp: template_segments_def Let_def)
  then show ?thesis using s t by (simp add: represents_def template_statics_def statics_slots)
qed

lemma create_represents:
  "create_loop alloc a ts = (Some ms, a') \<Longrightarrow> list_all2 (\<lambda>t m. \<exists>s. t = Some s \<and> represents s m) ts ms"
proof (induction alloc a ts arbitrary: ms a' rule: create_loop.induct)
  case (3 alloc a t ts)
  then show ?case
    by (auto split: prod.splits if_splits dest: parse_template_represents)
qed auto

lemma try_match_represents:
  assumes "represents s m"
  shows "try_match m segs \<longleftrightarrow> matches_template s segs"
proof -
  have "segment_matches (slot_of t) x \<longleftrightarrow> is_param_segment t \<or> t = x" for t x
    by (simp add: segment_matches_def slot_of_def)
  then show ?thesis using assms
    by (auto simp: try_match_def matches_template_def represents_def list_all2_map1 dest: list_all2_lengthD)
qed

text \<open>The scan keeps the first among the matching templates with the most static segments.\<close>

lemma best_match_snoc: "best_match (ts @ [t]) segs = better_match segs t (best_match ts segs)"
  by (simp add: best_match_def)

lemma best_match_first:
  "case best_match ts segs of
     None \<Rightarrow> \<forall>t \<in> set ts. \<not> try_match t segs
   | Some b \<Rightarrow> try_match b segs \<and> (\<exists>pre post. ts = pre @ b # post \<and>
        (\<forall>t \<in> set pre. try_match t segs \<longrightarrow> pt_static_count t < pt_static_count b) \<and>
        (\<forall>t \<in> set post. try_match t segs \<longrightarrow> pt_static_count t \<le> pt_static_count b))"
proof (induction ts rule: rev_induct)
  case Nil
  then show ?case by (simp add: best_match_def)
next
  case (snoc t ts)
  show ?case
  proof (cases "best_match ts segs")
    case None
    then have "\<forall>t \<in> set ts. \<not> try_match t segs" using snoc by simp
    then have "ts @ [t] = ts @ t # [] \<and> (\<forall>u \<in> set ts. try_match u segs \<longrightarrow> pt_static_count u < pt_static_count t)"
      by simp
    then show ?thesis using None \<open>\<forall>t \<in> set ts. \<not> try_match t segs\<close>
      by (simp add: best_match_snoc better_match_def) (metis empty_iff empty_set)
  next
    case (Some b)
    then obtain pre post where b: "try_match b segs" "ts = pre @ b # post"
      "\<forall>t \<in> set pre. try_match t segs \<longrightarrow> pt_static_count t < pt_static_count b"
      "\<forall>t \<in> set post. try_match t segs \<longrightarrow> pt_static_count t \<le> pt_static_count b"
      using snoc by auto
    show ?thesis
    proof (cases "try_match t segs \<and> pt_static_count b < pt_static_count t")
      case True
      then have "\<forall>u \<in> set ts. try_match u segs \<longrightarrow> pt_static_count u < pt_static_count t"
        using b by fastforce
      then show ?thesis using True Some
        by (simp add: best_match_snoc better_match_def) (metis empty_iff empty_set)
    next
      case False
      then have "best_match (ts @ [t]) segs = Some b" using Some False by (auto simp: best_match_snoc better_match_def)
      moreover have "\<forall>u \<in> set (post @ [t]). try_match u segs \<longrightarrow> pt_static_count u \<le> pt_static_count b"
        using b(4) False by auto
      ultimately show ?thesis using b by (simp, metis append_Cons)
    qed
  qed
qed

lemma params_loop_slots:
  assumes "alloc_total alloc" and "list_all (\<lambda>s. length s < 2 ^ 63) segs"
  shows "\<exists>a'. params_loop alloc a (zip (map slot_of ts) segs) =
    (None, map (\<lambda>(t, s). \<lparr>mp_name = Some (butlast (tl t)), mp_value = s\<rparr>)
       (filter (\<lambda>(t, s). is_param_segment t) (zip ts segs)), a')"
  using assms(2)
proof (induction ts segs arbitrary: a rule: list_induct2')
  case (4 t ts s segs)
  show ?case
  proof (cases "is_param_segment t")
    case True
    obtain p a1 where "alloc a (of_nat (length s + 1)) 1 = (Some p, a1)"
      using granted [OF assms(1), of "length s + 1" 1 a] 4 by auto
    moreover obtain a2 where "params_loop alloc a1 (zip (map slot_of ts) segs) =
      (None, map (\<lambda>(t, s). \<lparr>mp_name = Some (butlast (tl t)), mp_value = s\<rparr>)
       (filter (\<lambda>(t, s). is_param_segment t) (zip ts segs)), a2)" using 4 by fastforce
    moreover have "slot_of t = \<lparr>seg_kind = PATH_SEG_PARAM, seg_text = Some (butlast (tl t))\<rparr>"
      using True by (simp add: slot_of_def)
    ultimately show ?thesis using True by simp
  next
    case False
    then have "slot_of t = \<lparr>seg_kind = PATH_SEG_STATIC, seg_text = Some t\<rparr>" by (simp add: slot_of_def)
    then show ?thesis using 4 False by simp
  qed
qed simp_all

lemma count_params_slots: "count_params (map slot_of ts) = length (filter is_param_segment ts)"
  by (induction ts) (simp_all add: count_params_def slot_of_def)

lemma length_bound_params:
  "matches_template t segs \<Longrightarrow> length (bound_params t segs) = length (filter is_param_segment (template_segments t))"
  unfolding matches_template_def bound_params_def
  by (induction rule: list_all2_induct) auto

lemma split_segments_lengths:
  "list_all (\<lambda>x. length x \<le> length s) (split_segments c s)"
proof (induction s rule: measure_induct_rule [of length])
  case (less s)
  show ?case
  proof (cases "s = []")
    case False
    show ?thesis
    proof (cases "dropWhile (\<lambda>x. x \<noteq> c) s")
      case Nil
      then show ?thesis using split_segments_step [OF False, of c]
        by (simp add: length_takeWhile_le del: dropWhile_eq_Nil_conv)
    next
      case (Cons d r)
      then have "length r < length s" by (rule dropWhile_shorter)
      then show ?thesis using split_segments_step [OF False, of c] Cons less.IH [of r]
        by (auto simp: length_takeWhile_le list_all_iff intro: less_imp_le le_less_trans)
    qed
  qed simp
qed

lemma split_request_small:
  assumes "length path < 2 ^ 58" and "split_request_path path MAX_SEGMENTS = Some segs"
  shows "list_all (\<lambda>s. length s < 2 ^ 63) segs \<and> length segs \<le> 64"
proof (cases "path = ''/''")
  case True
  then show ?thesis using assms(2) by (simp add: split_request_path_def)
next
  case False
  let ?eff = "if 1 < length path \<and> last path = CHR ''/'' then butlast path else path"
  have s: "segs = split_segments CHR ''/'' (strip_slash ?eff)" "length segs \<le> 64"
    using assms(2) False
    by (auto simp: split_request_path_def split_loop_segments Let_def MAX_SEGMENTS_def split: if_splits)
  have "length (strip_slash ?eff) \<le> length path" by (auto simp: strip_slash_def split: list.split)
  then have "list_all (\<lambda>x. length x < 2 ^ 63) segs"
    using split_segments_lengths [of "strip_slash ?eff" "CHR ''/''"] assms(1)
    unfolding s(1) list_all_iff by fastforce
  then show ?thesis using s(2) by simp
qed

text \<open>
  The same selection on the template strings: what the router decides, without the matcher.
\<close>

definition better_template :: "string list \<Rightarrow> string \<Rightarrow> string option \<Rightarrow> string option" where
  "better_template segs t best =
     (if matches_template t segs \<and>
         (case best of None \<Rightarrow> True | Some b \<Rightarrow> template_statics b < template_statics t)
      then Some t else best)"

definition best_template :: "string list \<Rightarrow> string list \<Rightarrow> string option" where
  "best_template ts segs = fold (better_template segs) ts None"

definition route :: "string list \<Rightarrow> string \<Rightarrow> (string \<times> string list) option" where
  "route ts path =
     (case split_request_path path MAX_SEGMENTS of
        None \<Rightarrow> None
      | Some segs \<Rightarrow> map_option (\<lambda>t. (t, segs)) (best_template ts segs))"

definition routed_result :: "(string \<times> string list) option \<Rightarrow> oas_path_match_result" where
  "routed_result r =
     (case r of
        None \<Rightarrow> no_match
      | Some (t, segs) \<Rightarrow>
          \<lparr>pm_matched = True, pm_template_path = Some t, pm_params = bound_params t segs,
           pm_params_count = length (bound_params t segs)\<rparr>)"

lemma best_template_represents:
  assumes "list_all2 represents ts ms"
  shows "rel_option represents (best_template ts segs) (best_match ms segs)"
proof -
  have step: "rel_option represents (better_template segs t b) (better_match segs m b')"
    if "represents t m" "rel_option represents b b'" for t m b b'
    using that try_match_represents [OF that(1), of segs]
    by (cases rule: option.rel_cases [OF that(2)])
      (auto simp: better_template_def better_match_def represents_def)
  have "rel_option represents b b' \<Longrightarrow>
      rel_option represents (fold (better_template segs) ts b) (fold (better_match segs) ms b')" for b b'
    using assms by (induction arbitrary: b b' rule: list_all2_induct) (simp_all add: step)
  then show ?thesis by (simp add: best_template_def best_match_def)
qed

lemma bound_params_matches:
  assumes "best_template ts segs = Some t"
  shows "matches_template t segs"
proof -
  have "\<forall>u. fold (better_template segs) ts b = Some u \<longrightarrow> (\<forall>v. b = Some v \<longrightarrow> matches_template v segs) \<longrightarrow>
      matches_template u segs" for b
    by (induction ts arbitrary: b) (auto simp: better_template_def split: if_splits)
  then show ?thesis using assms by (simp add: best_template_def)
qed

lemma run_best:
  assumes t: "alloc_total alloc" and rep: "represents tmpl b" and mt: "matches_template tmpl segs"
    and segs: "split_request_path path MAX_SEGMENTS = Some segs" "best_match ms segs = Some b"
    and p: "path \<noteq> []" "hd path = CHR ''/''" "length path < 2 ^ 58"
  shows "\<exists>a'. oas_path_match alloc (Some ms) (Some path) (Some r0) (Some a) =
      (None, Some (routed_result (Some (tmpl, segs))), Some a')"
proof -
  have n: "count_params (pt_segments b) = length (bound_params tmpl segs)"
    using rep mt by (simp add: represents_def count_params_slots length_bound_params)
  have segs': "list_all (\<lambda>s. length s < 2 ^ 63) segs" and few: "length segs \<le> 64"
    using split_request_small [OF p(3) segs(1)] by auto
  have run: "oas_path_match alloc (Some ms) (Some path) (Some r0) (Some a) =
     (let n = length (bound_params tmpl segs);
          res = \<lparr>pm_matched = True, pm_template_path = Some tmpl, pm_params = [], pm_params_count = n\<rparr>
      in if n = 0 then (None, Some res, Some a)
         else (case alloc a (of_nat (n * 16)) 8 of
                 (None, a) \<Rightarrow> (Some ENOMEM, Some res, Some a)
               | (Some _, a) \<Rightarrow>
                   (let (rc, ps, a) = params_loop alloc a (zip (pt_segments b) segs)
                    in (rc, Some (res\<lparr>pm_params := ps\<rparr>), Some a))))"
    using p(1,2) segs n rep by (simp add: oas_path_match_def represents_def Let_def)
  show ?thesis
  proof (cases "bound_params tmpl segs = []")
    case True
    then show ?thesis unfolding run by (simp add: routed_result_def)
  next
    case False
    have "length (bound_params tmpl segs) \<le> 64"
      using few mt by (auto simp: bound_params_def intro!: le_trans [OF length_filter_le])
    then obtain q a1 where a1: "alloc a (of_nat (length (bound_params tmpl segs) * 16)) 8 = (Some q, a1)"
      using granted [OF t, of "length (bound_params tmpl segs) * 16" 8 a] False by auto
    obtain a2 where "params_loop alloc a1 (zip (pt_segments b) segs) = (None, bound_params tmpl segs, a2)"
      using params_loop_slots [OF t segs', of a1 "template_segments tmpl"] rep
      by (auto simp: represents_def bound_params_def)
    then show ?thesis unfolding run using a1 False by (simp add: Let_def routed_result_def)
  qed
qed

lemma path_match_route:
  assumes "alloc_total alloc" and "list_all2 represents ts ms"
    and "path \<noteq> []" and "hd path = CHR ''/''" and "length path < 2 ^ 58"
  shows "\<exists>a'. oas_path_match alloc (Some ms) (Some path) (Some r0) (Some a) =
      (None, Some (routed_result (route ts path)), Some a')"
proof (cases "split_request_path path MAX_SEGMENTS")
  case None
  then show ?thesis using assms(3,4) by (simp add: oas_path_match_def route_def routed_result_def)
next
  case (Some segs)
  show ?thesis
  proof (cases "best_template ts segs")
    case None
    then have "best_match ms segs = None" using best_template_represents [OF assms(2), of segs] by simp
    then show ?thesis using Some None assms(3,4) by (simp add: oas_path_match_def route_def routed_result_def)
  next
    case (Some t)
    then obtain b where b: "best_match ms segs = Some b" "represents t b"
      using best_template_represents [OF assms(2), of segs] by (auto elim: option.rel_cases)
    have r: "route ts path = Some (t, segs)"
      using Some \<open>split_request_path path MAX_SEGMENTS = Some segs\<close> by (simp add: route_def)
    show ?thesis unfolding r
      by (rule run_best [OF assms(1) b(2) bound_params_matches [OF Some]
          \<open>split_request_path path MAX_SEGMENTS = Some segs\<close> b(1) assms(3-5)])
  qed
qed

lemma match_represents:
  assumes t: "alloc_total alloc" and r: "list_all2 (\<lambda>t m. \<exists>s. t = Some s \<and> represents s m) ts ms"
    and p: "path \<noteq> []" "hd path = CHR ''/''" "length path < 2 ^ 58"
    and segs: "split_request_path path MAX_SEGMENTS = Some segs"
    and b: "best_match ms segs = Some b"
  shows "\<exists>tmpl pre post a'. ts = pre @ Some tmpl # post \<and> matches_template tmpl segs \<and>
    (\<forall>u. Some u \<in> set pre \<and> matches_template u segs \<longrightarrow> template_statics u < template_statics tmpl) \<and>
    (\<forall>u. Some u \<in> set post \<and> matches_template u segs \<longrightarrow> template_statics u \<le> template_statics tmpl) \<and>
    oas_path_match alloc (Some ms) (Some path) (Some r0) (Some a) =
      (None, Some \<lparr>pm_matched = True, pm_template_path = Some tmpl, pm_params = bound_params tmpl segs,
                   pm_params_count = length (bound_params tmpl segs)\<rparr>, Some a')"
proof -
  obtain mpre mpost where m: "try_match b segs" "ms = mpre @ b # mpost"
    "\<forall>t \<in> set mpre. try_match t segs \<longrightarrow> pt_static_count t < pt_static_count b"
    "\<forall>t \<in> set mpost. try_match t segs \<longrightarrow> pt_static_count t \<le> pt_static_count b"
    using best_match_first [of ms segs] b by auto
  obtain pre u post where ts: "ts = pre @ u # post"
    and lp: "list_all2 (\<lambda>t m. \<exists>s. t = Some s \<and> represents s m) pre mpre"
    and lu: "\<exists>s. u = Some s \<and> represents s b"
    and lq: "list_all2 (\<lambda>t m. \<exists>s. t = Some s \<and> represents s m) post mpost"
    using r unfolding m(2) by (auto simp: list_all2_append2 list_all2_Cons2)
  obtain tmpl where tm: "u = Some tmpl" "represents tmpl b" using lu by blast
  have low: "\<exists>m \<in> set mx. try_match m segs \<and> pt_static_count m = template_statics s"
    if mem: "Some s \<in> set x" and mat: "matches_template s segs"
      and rel: "list_all2 (\<lambda>t m. \<exists>s. t = Some s \<and> represents s m) x mx" for s x mx
  proof -
    obtain k where k: "k < length x" "x ! k = Some s" using mem unfolding in_set_conv_nth by blast
    then have "represents s (mx ! k)" "mx ! k \<in> set mx"
      using list_all2_nthD [OF rel k(1)] k list_all2_lengthD [OF rel] by auto
    then show ?thesis using mat try_match_represents by (auto simp: represents_def)
  qed
  have st: "pt_static_count b = template_statics tmpl" using tm(2) by (simp add: represents_def)
  have mt: "matches_template tmpl segs" using m(1) tm(2) try_match_represents by blast
  obtain a' where "oas_path_match alloc (Some ms) (Some path) (Some r0) (Some a) =
      (None, Some (routed_result (Some (tmpl, segs))), Some a')"
    using run_best [OF t tm(2) mt segs b p] by blast
  then have "\<exists>a'. oas_path_match alloc (Some ms) (Some path) (Some r0) (Some a) =
      (None, Some \<lparr>pm_matched = True, pm_template_path = Some tmpl, pm_params = bound_params tmpl segs,
                   pm_params_count = length (bound_params tmpl segs)\<rparr>, Some a')"
    by (simp add: routed_result_def)
  then show ?thesis using ts tm(1) mt low [OF _ _ lp] low [OF _ _ lq] m(3,4) st
    by (metis (no_types, lifting))
qed

lemma match_none:
  assumes r: "list_all2 (\<lambda>t m. \<exists>s. t = Some s \<and> represents s m) ts ms"
    and p: "path \<noteq> []" "hd path = CHR ''/''"
    and segs: "split_request_path path MAX_SEGMENTS = None \<or>
      (\<exists>segs. split_request_path path MAX_SEGMENTS = Some segs \<and> best_match ms segs = None)"
  shows "oas_path_match alloc (Some ms) (Some path) (Some r0) (Some a) = (None, Some no_match, Some a)"
    and "split_request_path path MAX_SEGMENTS = Some segs \<Longrightarrow> Some t \<in> set ts \<Longrightarrow> \<not> matches_template t segs"
proof -
  show "oas_path_match alloc (Some ms) (Some path) (Some r0) (Some a) = (None, Some no_match, Some a)"
    using p segs by (auto simp: oas_path_match_def)
  assume s: "split_request_path path MAX_SEGMENTS = Some segs" and t: "Some t \<in> set ts"
  then have "\<forall>m \<in> set ms. \<not> try_match m segs"
    using segs best_match_first [of ms segs] by auto
  moreover obtain m where "m \<in> set ms" "represents t m"
    using t r by (fastforce simp: list_all2_conv_all_nth in_set_conv_nth)
  ultimately show "\<not> matches_template t segs" using try_match_represents by blast
qed

lemma matcher_create_represents:
  assumes "oas_path_matcher_create alloc arena (Some ts) = (Some ms, arena')"
  shows "list_all2 (\<lambda>t m. \<exists>s. t = Some s \<and> represents s m) ts ms"
  using assms create_represents
  by (fastforce simp: oas_path_matcher_create_def split: option.splits if_splits prod.splits)

lemma parse_segments_touched:
  "length (fst (snd (parse_segments alloc a s))) \<le> count_segments_loop 0 s"
proof (induction alloc a s rule: parse_segments.induct)
  case (1 alloc a s)
  let ?seg = "takeWhile (\<lambda>c. c \<noteq> CHR ''/'') s"
  show ?case
  proof (cases "s = [] \<or> ?seg = []")
    case True
    then show ?thesis using parse_segments.simps [of alloc a s] by (auto simp: Let_def)
  next
    case False
    then have ne: "s \<noteq> []" "?seg \<noteq> []" by auto
    obtain slot a1 where slot: "parse_segment alloc a ?seg = (slot, a1)" by fastforce
    note cnt = split_segments_step [OF ne(1), of "CHR ''/''"]
    have one: "1 \<le> count_segments_loop 0 s"
      unfolding count_segments_loop_split cnt using ne(2) by simp
    show ?thesis
    proof (cases "seg_text slot = None \<or> dropWhile (\<lambda>c. c \<noteq> CHR ''/'') s = []")
      case True
      then show ?thesis using parse_segments.simps [of alloc a s] ne slot one
        by (auto simp: Let_def simp del: takeWhile_eq_Nil_iff dropWhile_eq_Nil_conv)
    next
      case False
      then obtain c r where r: "dropWhile (\<lambda>c. c \<noteq> CHR ''/'') s = c # r"
        by (cases "dropWhile (\<lambda>c. c \<noteq> CHR ''/'') s") auto
      have tx: "seg_text slot \<noteq> None" using False by simp
      have "length (fst (snd (parse_segments alloc a1 r))) \<le> count_segments_loop 0 r"
        using "1.IH" [OF ne(1) refl ne(2) slot [symmetric] refl tx r] .
      then show ?thesis using parse_segments.simps [of alloc a s] ne slot False r cnt
        by (simp add: Let_def split_beta count_segments_loop_split del: takeWhile_eq_Nil_iff)
    qed
  qed
qed

section \<open>Properties\<close>

text \<open>
  C16. A matcher made of well-formed templates answers every request as the templates say:
  there is a match exactly when some template has the request's number of segments and equals
  it in all its static ones; the result then names a template of the list, binds each
  parameter, by its name in braces, to the request's segment at its place, in order, and
  otherwise it is empty. With memory granted it answers 0.
\<close>

theorem path_match_decides:
  assumes "alloc_total alloc" and "oas_path_matcher_create alloc arena (Some ts) = (Some ms, arena')"
    and "path \<noteq> []" and "hd path = CHR ''/''" and "length path < 2 ^ 58"
  shows "\<exists>res a'. oas_path_match alloc (Some ms) (Some path) (Some r0) (Some a) = (None, Some res, Some a') \<and>
    (if \<exists>segs t. split_request_path path MAX_SEGMENTS = Some segs \<and> Some t \<in> set ts \<and> matches_template t segs
     then \<exists>segs t. split_request_path path MAX_SEGMENTS = Some segs \<and> Some t \<in> set ts \<and> matches_template t segs \<and>
        res = \<lparr>pm_matched = True, pm_template_path = Some t, pm_params = bound_params t segs,
               pm_params_count = length (bound_params t segs)\<rparr>
     else res = no_match)"
proof (cases "\<exists>segs b. split_request_path path MAX_SEGMENTS = Some segs \<and> best_match ms segs = Some b")
  case True
  then obtain segs b where "split_request_path path MAX_SEGMENTS = Some segs" "best_match ms segs = Some b" by blast
  from match_represents [OF assms(1) matcher_create_represents [OF assms(2)] assms(3-5) this]
  show ?thesis using \<open>split_request_path path MAX_SEGMENTS = Some segs\<close> by fastforce
next
  case False
  then have n: "split_request_path path MAX_SEGMENTS = None \<or>
      (\<exists>segs. split_request_path path MAX_SEGMENTS = Some segs \<and> best_match ms segs = None)" by fastforce
  note none = match_none [OF matcher_create_represents [OF assms(2)] assms(3,4) n]
  have "\<not> (\<exists>segs t. split_request_path path MAX_SEGMENTS = Some segs \<and> Some t \<in> set ts \<and> matches_template t segs)"
    using none(2) by (metis (no_types))
  then show ?thesis using none(1) [of alloc r0 a] by (metis (no_types))
qed

definition sample_templates :: "string option list" where
  "sample_templates = [Some ''/pets/{id}'', Some ''/pets/mine'', Some ''/pets/{id}/toys/{toy}'']"

definition sample_matcher :: "path_template list" where
  "sample_matcher = the (fst (oas_path_matcher_create (\<lambda>a n k. (Some 8, a)) (Some ()) (Some sample_templates)))"

lemma sample_matcher_create:
  "oas_path_matcher_create (\<lambda>a n k. (Some 8, a)) (Some ()) (Some sample_templates) = (Some sample_matcher, Some ())"
  by (simp add: sample_matcher_def sample_templates_def oas_path_matcher_create_def parse_template_def
      count_segments_def strip_slash_def parse_segments.simps parse_segment_def is_param_segment_def Let_def)

lemma sample_total: "alloc_total (\<lambda>a n k. (Some 8, a))"
  by (simp add: alloc_total_def)

lemma sample_segments:
  "template_segments ''/pets/{id}'' = [''pets'', ''{id}'']" "template_segments ''/pets/mine'' = [''pets'', ''mine'']"
  "template_segments ''/pets/{id}/toys/{toy}'' = [''pets'', ''{id}'', ''toys'', ''{toy}'']"
  by (simp_all add: template_segments_def split_segments_def strip_slash_def)

theorem path_match_decides_witness:
  "\<exists>a'. oas_path_match (\<lambda>a n k. (Some 8, a)) (Some sample_matcher) (Some ''/pets/7/toys/ball/'') (Some no_match) (Some ()) =
    (None, Some \<lparr>pm_matched = True, pm_template_path = Some ''/pets/{id}/toys/{toy}'',
       pm_params = [\<lparr>mp_name = Some ''id'', mp_value = ''7''\<rparr>, \<lparr>mp_name = Some ''toy'', mp_value = ''ball''\<rparr>],
       pm_params_count = 2\<rparr>, Some a')"
proof -
  have s: "split_request_path ''/pets/7/toys/ball/'' MAX_SEGMENTS = Some [''pets'', ''7'', ''toys'', ''ball'']"
    by (simp add: split_request_path_def split_loop_segments split_segments_def strip_slash_def MAX_SEGMENTS_def)
  have m: "Some t \<in> set sample_templates \<and> matches_template t [''pets'', ''7'', ''toys'', ''ball''] \<and> P
      \<longleftrightarrow> t = ''/pets/{id}/toys/{toy}'' \<and> P" for t P
    by (auto simp: sample_templates_def matches_template_def sample_segments is_param_segment_def)
  have b: "bound_params ''/pets/{id}/toys/{toy}'' [''pets'', ''7'', ''toys'', ''ball''] =
      [\<lparr>mp_name = Some ''id'', mp_value = ''7''\<rparr>, \<lparr>mp_name = Some ''toy'', mp_value = ''ball''\<rparr>]"
    by (simp add: bound_params_def sample_segments is_param_segment_def)
  show ?thesis
    using path_match_decides [OF sample_total sample_matcher_create, of "''/pets/7/toys/ball/''" no_match "()"]
    by (simp add: s m [of _ True, simplified] m b)
qed

text \<open>
  Among the templates that match, the one returned has the most static segments, and is
  the first of the list with that many.
\<close>

theorem path_match_prefers_static:
  assumes "alloc_total alloc" and "oas_path_matcher_create alloc arena (Some ts) = (Some ms, arena')"
    and "path \<noteq> []" and "hd path = CHR ''/''" and "length path < 2 ^ 58"
    and "split_request_path path MAX_SEGMENTS = Some segs" and "Some u \<in> set ts" and "matches_template u segs"
  shows "\<exists>t pre post res a'. ts = pre @ Some t # post \<and> matches_template t segs \<and>
    oas_path_match alloc (Some ms) (Some path) (Some r0) (Some a) = (None, Some res, Some a') \<and>
    pm_template_path res = Some t \<and> template_statics u \<le> template_statics t \<and>
    (Some u \<in> set pre \<longrightarrow> template_statics u < template_statics t)"
proof (cases "best_match ms segs")
  case None
  then show ?thesis
    using match_none(2) [OF matcher_create_represents [OF assms(2)] assms(3,4) _ assms(6,7)] assms(6,8) by blast
next
  case (Some b)
  obtain t pre post a' where m: "ts = pre @ Some t # post" "matches_template t segs"
    "\<forall>u. Some u \<in> set pre \<and> matches_template u segs \<longrightarrow> template_statics u < template_statics t"
    "\<forall>u. Some u \<in> set post \<and> matches_template u segs \<longrightarrow> template_statics u \<le> template_statics t"
    and run: "oas_path_match alloc (Some ms) (Some path) (Some r0) (Some a) =
      (None, Some \<lparr>pm_matched = True, pm_template_path = Some t, pm_params = bound_params t segs,
                   pm_params_count = length (bound_params t segs)\<rparr>, Some a')"
    using match_represents [OF assms(1) matcher_create_represents [OF assms(2)] assms(3-6) Some, of r0 a] by blast
  have "template_statics u \<le> template_statics t" using m assms(7,8) by (auto dest: less_imp_le)
  then show ?thesis using m run assms(8) by auto
qed

theorem path_match_prefers_static_witness:
  "\<exists>res a'. oas_path_match (\<lambda>a n k. (Some 8, a)) (Some sample_matcher) (Some ''/pets/mine'') (Some no_match) (Some ()) =
     (None, Some res, Some a') \<and> pm_template_path res = Some ''/pets/mine''"
proof -
  have s: "split_request_path ''/pets/mine'' MAX_SEGMENTS = Some [''pets'', ''mine'']"
    by (simp add: split_request_path_def split_loop_segments split_segments_def strip_slash_def MAX_SEGMENTS_def)
  have u: "Some ''/pets/mine'' \<in> set sample_templates" "matches_template ''/pets/mine'' [''pets'', ''mine'']"
    by (simp_all add: sample_templates_def matches_template_def sample_segments)
  have best: "t = ''/pets/mine''" if "sample_templates = pre @ Some t # post"
      "template_statics ''/pets/mine'' \<le> template_statics t" "matches_template t [''pets'', ''mine'']" for t pre post
  proof -
    have "Some t \<in> set sample_templates" using that(1) by (metis in_set_conv_decomp)
    then show ?thesis using that(2,3)
      by (auto simp: sample_templates_def template_statics_def sample_segments is_param_segment_def matches_template_def)
  qed
  have p: "''/pets/mine'' \<noteq> []" "hd ''/pets/mine'' = CHR ''/''" "length ''/pets/mine'' < 2 ^ 58" by simp_all
  show ?thesis
    using path_match_prefers_static [OF sample_total sample_matcher_create p s u, of no_match "()"] best by metis
qed

text \<open>
  \<open>split_request_path\<close> reads back the segments of a normalised path, with or without one
  trailing slash, as long as the caller's arrays have room; with more segments it fails, so a
  path of more than 64 segments never matches.
\<close>

theorem split_request_roundtrip:
  assumes "list_all (\<lambda>s. s \<noteq> [] \<and> CHR ''/'' \<notin> set s) segs" and "segs \<noteq> []"
  shows "split_request_path (segments_text segs) m = (if length segs \<le> m then Some segs else None) \<and>
    split_request_path (segments_text segs @ ''/'') m = (if length segs \<le> m then Some segs else None)"
  using split_request_segments [OF assms(1)] assms(2) by blast

theorem split_request_roundtrip_witness:
  "split_request_path ''/a/b/'' 64 = Some [''a'', ''b''] \<and> split_request_path ''/a/b'' 1 = None"
  using split_request_roundtrip [of "[''a'', ''b'']" 64] split_request_roundtrip [of "[''a'', ''b'']" 1]
  by (simp add: segments_text_def)

text \<open>
  \<open>parse_template\<close> never writes outside the array it allocated: \<open>count_segments\<close>, a loop of
  its own over the template, is an upper bound of the slots the filling loop touches, on every
  path through it, failures included.
\<close>

theorem parse_template_in_bounds:
  "length (pt_segments (fst (snd (parse_template alloc a tmpl)))) \<le> count_segments tmpl"
  using parse_segments_touched [of alloc _ "strip_slash tmpl"] count_segments_strip [of tmpl]
  by (simp add: parse_template_def split_beta split: option.split)

text \<open>
  Empty segments are rejected in the middle of a template but not everywhere: the template
  \<open>//\<close> is accepted and matches the root path, and a request with two trailing slashes matches
  as if it had none.
\<close>

theorem empty_segments_accepted:
  "parse_template (\<lambda>a n k. (Some 8, a)) () ''//'' = (None, \<lparr>pt_path = ''//'', pt_segments = [], pt_static_count = 0\<rparr>, ()) \<and>
   split_request_path ''/pets//'' MAX_SEGMENTS = Some [''pets'']"
  by (simp add: parse_template_def count_segments_def split_request_path_def split_loop_segments split_segments_def
      strip_slash_def MAX_SEGMENTS_def)

end
