(* ===== verification/Liboas_Request.thy ===== *)
theory Liboas_Request
  imports Liboas_Validate Liboas_Query Liboas_Path
begin

text \<open>
  Requests and responses against a compiled document (\<open>src/validator/oas_request.c\<close>): the
  lookup of the operation, the media type and the response, and the validation of body and
  parameters. The error list usually lives in the arena the caller passes, so the state keeps
  the two together.
\<close>

section \<open>Compiled documents\<close>

record ('p, 'e) compiled_media_type =
  cm_content_type :: string
  cm_schema :: "('p, 'e) oas_compiled_schema option"
  cm_source_schema :: "sref option"

record ('p, 'e) compiled_param =
  cp_name :: string
  cp_in :: string
  cp_required :: bool
  cp_schema :: "('p, 'e) oas_compiled_schema option"

record ('p, 'e) compiled_response =
  cr_status_code :: string
  cr_content :: "('p, 'e) compiled_media_type list"

record ('p, 'e) compiled_operation =
  co_path :: string
  co_method :: string
  co_operation_id :: "string option"
  co_request_body :: "('p, 'e) compiled_media_type list"
  co_request_body_required :: bool
  co_responses :: "('p, 'e) compiled_response list"
  co_params :: "('p, 'e) compiled_param list"

record ('p, 'e) oas_compiled_doc =
  cd_matcher :: "path_template list option"
  cd_operations :: "('p, 'e) compiled_operation list"
  cd_all_schemas :: "('p, 'e) oas_compiled_schema list"
  cd_all_schemas_capacity :: nat
  cd_regex :: "'p oas_regex_backend option"
  cd_owns_regex :: bool

record oas_http_request =
  rq_method :: "string option"
  rq_path :: "string option"
  rq_content_type :: "string option"
  rq_body :: "string option"
  rq_headers :: "(string \<times> string option) list option"
  rq_query :: "(string \<times> string option) list option"
  rq_query_string :: "string option"
  rq_cookie_header :: "string option"

record oas_http_response =
  rp_status_code :: int
  rp_content_type :: "string option"
  rp_body :: "string option"

section \<open>Case-insensitive comparison\<close>

text \<open>\<open>strcasecmp\<close> and \<open>strncasecmp\<close> of the C locale.\<close>

definition ascii_lower :: "char \<Rightarrow> char" where
  "ascii_lower c = (if 65 \<le> byte c \<and> byte c \<le> 90 then char_of (byte c + 32) else c)"

definition strcaseeq :: "string \<Rightarrow> string \<Rightarrow> bool" where
  "strcaseeq a b \<longleftrightarrow> map ascii_lower a = map ascii_lower b"

definition strncaseeq :: "nat \<Rightarrow> string \<Rightarrow> string \<Rightarrow> bool" where
  "strncaseeq n a b \<longleftrightarrow> strcaseeq (take n a) (take n b)"

section \<open>Lookups\<close>

definition find_operation ::
    "('p, 'e) oas_compiled_doc \<Rightarrow> string \<Rightarrow> string \<Rightarrow> ('p, 'e) compiled_operation option" where
  "find_operation doc template_path method =
     find (\<lambda>c. co_path c = template_path \<and> strcaseeq (co_method c) method) (cd_operations doc)"

definition find_content_type ::
    "('p, 'e) compiled_media_type list \<Rightarrow> string option \<Rightarrow> ('p, 'e) compiled_media_type option" where
  "find_content_type entries content_type =
     (case content_type of
        None \<Rightarrow> None
      | Some ct \<Rightarrow>
          (case find (\<lambda>m. strcaseeq (cm_content_type m) ct) entries of
             Some m \<Rightarrow> Some m
           | None \<Rightarrow>
               if CHR '';'' \<in> set ct
               then let base_len = length (takeWhile (\<lambda>c. c \<noteq> CHR '';'') ct)
                    in find (\<lambda>m. strncaseeq base_len (cm_content_type m) ct \<and>
                         length (cm_content_type m) = base_len) entries
               else None))"

definition c_div :: "int \<Rightarrow> int \<Rightarrow> int" where
  \<comment> \<open>C's division truncates towards zero.\<close>
  "c_div a b = (if a < 0 then - ((- a) div b) else a div b)"

text \<open>The buffers hold 15 and 3 characters.\<close>

definition find_response ::
    "('p, 'e) compiled_operation \<Rightarrow> int \<Rightarrow> ('p, 'e) compiled_response option" where
  "find_response opn status_code =
     (let status_str = take 15 (dec_int status_code);
          range_str = take 3 (dec_int (c_div status_code 100) @ ''XX'')
      in (case find (\<lambda>r. cr_status_code r = status_str) (co_responses opn) of
            Some r \<Rightarrow> Some r
          | None \<Rightarrow>
              (case find (\<lambda>r. strcaseeq (cr_status_code r) range_str) (co_responses opn) of
                 Some r \<Rightarrow> Some r
               | None \<Rightarrow> find (\<lambda>r. cr_status_code r = ''default'') (co_responses opn))))"

definition find_header :: "(string \<times> string option) list \<Rightarrow> string \<Rightarrow> string option" where
  "find_header headers nm =
     (case find (\<lambda>(h, v). strcaseeq h nm) headers of None \<Rightarrow> None | Some (h, v) \<Rightarrow> v)"

definition find_query_param :: "(string \<times> string option) list \<Rightarrow> string \<Rightarrow> string option" where
  "find_query_param params nm =
     (case find (\<lambda>(h, v). h = nm) params of None \<Rightarrow> None | Some (h, v) \<Rightarrow> v)"

text \<open>
  The search of the parsed query: \<open>strcmp\<close> on the null key of a pair is undefined, which
  the outer \<open>None\<close> shows.
\<close>

fun find_pair :: "oas_query_pair list \<Rightarrow> string \<Rightarrow> string option option" where
  "find_pair [] nm = Some None"
| "find_pair (q # qs) nm =
     (case qp_key q of
        None \<Rightarrow> None
      | Some k \<Rightarrow> if cstr k = nm then Some (map_option cstr (qp_value q)) else find_pair qs nm)"

definition find_cookie :: "oas_cookie list \<Rightarrow> string \<Rightarrow> string option" where
  "find_cookie cookies nm =
     (case find (\<lambda>c. ck_name c = Some nm) cookies of None \<Rightarrow> None | Some c \<Rightarrow> ck_value c)"

definition find_path_param :: "oas_path_param list \<Rightarrow> string \<Rightarrow> string option" where
  "find_path_param params nm =
     (case find (\<lambda>p. mp_name p = Some nm) params of None \<Rightarrow> None | Some p \<Rightarrow> Some (mp_value p))"

section \<open>State\<close>

text \<open>
  The caller's result with the arena: while \<open>rs_shared\<close> holds, the error list was created in
  that arena, and the arena's state is the list's.
\<close>

record 'a request_state =
  rs_valid :: bool
  rs_errors :: "'a oas_error_list option"
  rs_arena :: "'a option"
  rs_shared :: bool

definition rs_get_arena :: "'a request_state \<Rightarrow> 'a option" where
  "rs_get_arena st =
     (case rs_errors st of Some l \<Rightarrow> if rs_shared st then Some (el_arena l) else rs_arena st
      | None \<Rightarrow> rs_arena st)"

definition rs_set_arena :: "'a option \<Rightarrow> 'a request_state \<Rightarrow> 'a request_state" where
  "rs_set_arena a st =
     (case (rs_errors st, a) of
        (Some l, Some x) \<Rightarrow> if rs_shared st then st\<lparr>rs_errors := Some (l\<lparr>el_arena := x\<rparr>)\<rparr>
                           else st\<lparr>rs_arena := a\<rparr>
      | _ \<Rightarrow> st\<lparr>rs_arena := a\<rparr>)"

text \<open>\<open>ensure_errors\<close>, and the pattern \<open>valid = false; if (errors) add(...)\<close>.\<close>

definition ensure_errors :: "'a allocator \<Rightarrow> 'a request_state \<Rightarrow> 'a request_state" where
  "ensure_errors alloc st =
     (case (rs_errors st, rs_arena st) of
        (None, Some a) \<Rightarrow>
          (let (es, a') = oas_error_list_create alloc a
           in st\<lparr>rs_errors := es, rs_arena := Some a', rs_shared := es \<noteq> None\<rparr>)
      | _ \<Rightarrow> st)"

definition reject :: "'a allocator \<Rightarrow> oas_error_kind \<Rightarrow> string \<Rightarrow> 'a request_state \<Rightarrow> 'a request_state" where
  "reject alloc kind msg st =
     st\<lparr>rs_valid := False,
        rs_errors := map_option (\<lambda>l. oas_error_list_add alloc l kind (Some []) msg) (rs_errors st)\<rparr>"

text \<open>
  A call of \<open>oas_validate_json_with_direction\<close> and its kin on the caller's result: the
  validator may itself create the missing list in the arena.
\<close>

definition with_result ::
    "'a allocator \<Rightarrow> 'a request_state \<Rightarrow> 'a oas_error_list oas_validation_result \<Rightarrow> 'a request_state" where
  "with_result alloc st r =
     (let st' = st\<lparr>rs_valid := vr_valid r, rs_errors := vr_errors r\<rparr>
      in if rs_errors st = None \<and> vr_errors r \<noteq> None then st'\<lparr>rs_shared := True\<rparr> else st')"

type_synonym 'a request_step = "'a request_state \<Rightarrow> (errno option \<times> 'a request_state) option"

section \<open>Parameters\<close>

definition validate_param_value ::
    "yyjson \<Rightarrow> 'a allocator \<Rightarrow> ('p, 'c) oas_compiled_schema option \<Rightarrow> string option \<Rightarrow> 'a request_step" where
  "validate_param_value yy alloc schema value st =
     (case (schema, value) of
        (Some cs, Some v) \<Rightarrow>
          let tmp = \<lparr>vr_valid = False, vr_errors = rs_errors st\<rparr>;
              finish = (\<lambda>st (rc, tmp'). (rc, (with_result alloc st (the tmp'))
                          \<lparr>rs_valid := rs_valid st \<and> vr_valid (the tmp')\<rparr>))
          in (case yy_read yy v of
                Some doc_root \<Rightarrow>
                  map_option (finish st) (oas_validate yy alloc (Some cs) (Some doc_root) (Some tmp) (rs_get_arena st))
              | None \<Rightarrow>
                  (case rs_get_arena st of
                     None \<Rightarrow> Some (Some ENOMEM, st)
                   | Some a \<Rightarrow>
                       (case alloc a (of_nat (length v + 3)) 1 of
                          (None, a) \<Rightarrow> Some (Some ENOMEM, rs_set_arena (Some a) st)
                        | (Some _, a) \<Rightarrow>
                            let st = rs_set_arena (Some a) st;
                                buf = CHR 0x22 # v @ [CHR 0x22]
                            in map_option (finish st)
                                 (oas_validate_json yy alloc (Some cs) (Some buf)
                                    (Some (tmp\<lparr>vr_errors := rs_errors st\<rparr>)) (rs_get_arena st)))))
      | _ \<Rightarrow> Some (None, st))"

text \<open>
  The loop the four kinds of parameter share: \<open>lookup\<close> finds the value of a name, \<open>missing\<close> is
  the message for a required parameter that is not there.
\<close>

fun param_loop ::
    "yyjson \<Rightarrow> 'a allocator \<Rightarrow> string \<Rightarrow> (string \<Rightarrow> string option option) \<Rightarrow> string option
      \<Rightarrow> ('p, 'c) compiled_param list \<Rightarrow> 'a request_step" where
  "param_loop yy alloc kind lookup missing [] st = Some (None, st)"
| "param_loop yy alloc kind lookup missing (p # ps) st =
     (if cp_in p \<noteq> kind then param_loop yy alloc kind lookup missing ps st
      else do {
        value \<leftarrow> lookup (cp_name p);
        (case value of
           None \<Rightarrow>
             param_loop yy alloc kind lookup missing ps
               (case missing of
                  Some msg \<Rightarrow> if cp_required p then reject alloc OAS_ERR_REQUIRED (msg @ cp_name p) st else st
                | None \<Rightarrow> st)
         | Some v \<Rightarrow> do {
             (rc, st) \<leftarrow> validate_param_value yy alloc (cp_schema p) (Some v) st;
             if rc \<noteq> None then Some (rc, st) else param_loop yy alloc kind lookup missing ps st
           })
      })"

definition validate_header_params ::
    "yyjson \<Rightarrow> 'a allocator \<Rightarrow> ('p, 'c) compiled_param list \<Rightarrow> oas_http_request \<Rightarrow> 'a request_step" where
  "validate_header_params yy alloc params req =
     param_loop yy alloc ''header''
       (\<lambda>nm. Some (case rq_headers req of None \<Rightarrow> None | Some hs \<Rightarrow> find_header hs nm))
       (Some ''required header missing: '') params"

definition validate_query_params ::
    "yyjson \<Rightarrow> 'a allocator \<Rightarrow> ('p, 'c) compiled_param list \<Rightarrow> oas_http_request \<Rightarrow> 'a request_step" where
  "validate_query_params yy alloc params req st =
     (case rq_query req of
        Some qs \<Rightarrow>
          param_loop yy alloc ''query'' (\<lambda>nm. Some (find_query_param qs nm))
            (Some ''required query parameter missing: '') params st
      | None \<Rightarrow>
          (case rq_query_string req of
             None \<Rightarrow>
               param_loop yy alloc ''query'' (\<lambda>nm. Some None)
                 (Some ''required query parameter missing: '') params st
           | Some q \<Rightarrow>
               (let (rc, parsed, a) = oas_query_parse alloc (rs_get_arena st) (Some q) True;
                    st = rs_set_arena a st
                in if rc \<noteq> None then Some (rc, st)
                   else param_loop yy alloc ''query'' (find_pair parsed)
                          (Some ''required query parameter missing: '') params st)))"

definition validate_path_params ::
    "yyjson \<Rightarrow> 'a allocator \<Rightarrow> ('p, 'c) compiled_param list \<Rightarrow> oas_path_match_result \<Rightarrow> 'a request_step" where
  "validate_path_params yy alloc params m =
     param_loop yy alloc ''path'' (\<lambda>nm. Some (find_path_param (pm_params m) nm)) None
       (filter (\<lambda>p. cp_schema p \<noteq> None) params)"

definition validate_cookie_params ::
    "yyjson \<Rightarrow> 'a allocator \<Rightarrow> ('p, 'c) compiled_param list \<Rightarrow> oas_http_request \<Rightarrow> 'a request_step" where
  "validate_cookie_params yy alloc params req st =
     (case rq_cookie_header req of
        None \<Rightarrow> param_loop yy alloc ''cookie'' (\<lambda>nm. Some None) (Some ''required cookie missing: '') params st
      | Some h \<Rightarrow>
          (let (rc, cookies, a) = oas_cookie_parse alloc (rs_get_arena st) (Some h) True;
               st = rs_set_arena a st
           in if rc \<noteq> None then Some (rc, st)
              else param_loop yy alloc ''cookie'' (\<lambda>nm. Some (find_cookie cookies nm))
                     (Some ''required cookie missing: '') params st))"

text \<open>Steps in a row, stopping at the first negative code.\<close>

fun request_steps :: "'a request_step list \<Rightarrow> 'a request_step" where
  "request_steps [] st = Some (None, st)"
| "request_steps (f # fs) st = do {
     (rc, st) \<leftarrow> f st;
     (case rc of None \<Rightarrow> request_steps fs st | Some e \<Rightarrow> Some (Some e, st))
   }"

section \<open>Bodies\<close>

text \<open>The body against the schema of its media type.\<close>

definition validate_body ::
    "yyjson \<Rightarrow> 'a allocator \<Rightarrow> oas_validation_direction \<Rightarrow> ('p, 'c) compiled_media_type \<Rightarrow> string \<Rightarrow> 'a request_step" where
  "validate_body yy alloc dir mt body st = do {
     (rc, r) \<leftarrow> oas_validate_json_with_direction yy alloc (cm_schema mt) (Some body) dir
       (Some \<lparr>vr_valid = rs_valid st, vr_errors = rs_errors st\<rparr>) (rs_get_arena st);
     Some (rc, with_result alloc st (the r))
   }"

definition non_empty :: "string option \<Rightarrow> bool" where
  "non_empty b \<longleftrightarrow> (case b of None \<Rightarrow> False | Some s \<Rightarrow> s \<noteq> [])"

definition validate_params ::
    "yyjson \<Rightarrow> 'a allocator \<Rightarrow> ('p, 'c) compiled_operation \<Rightarrow> oas_http_request \<Rightarrow> oas_path_match_result
      \<Rightarrow> 'a request_step" where
  "validate_params yy alloc opn req m =
     request_steps
       (if co_params opn = [] then []
        else [validate_header_params yy alloc (co_params opn) req,
              validate_query_params yy alloc (co_params opn) req] @
             (if 0 < pm_params_count m then [validate_path_params yy alloc (co_params opn) m] else []) @
             [validate_cookie_params yy alloc (co_params opn) req])"

section \<open>Requests and responses\<close>

text \<open>The operation of a path and a method; \<open>Inl\<close> is the end of the call.\<close>

definition select_operation ::
    "'a allocator \<Rightarrow> ('p, 'c) oas_compiled_doc \<Rightarrow> string \<Rightarrow> string \<Rightarrow> 'a request_state
      \<Rightarrow> (errno option \<times> 'a request_state) + (('p, 'c) compiled_operation \<times> oas_path_match_result \<times> 'a request_state)" where
  "select_operation alloc doc path method st =
     (case cd_matcher doc of
        None \<Rightarrow> Inl (None, reject alloc OAS_ERR_SCHEMA ''no paths registered in document'' st)
      | Some matcher \<Rightarrow>
          (case oas_path_match alloc (Some matcher) (Some path) (Some no_match) (rs_get_arena st) of
             (rc, m, a) \<Rightarrow>
               let st = rs_set_arena a st
               in if rc \<noteq> None then Inl (rc, st)
                  else
                    if \<not> pm_matched (the m)
                    then Inl (None, reject alloc OAS_ERR_SCHEMA (''path not found: '' @ path) st)
                    else
                      let t = the (pm_template_path (the m))
                      in (case find_operation doc t method of
                            None \<Rightarrow> Inl (None, reject alloc OAS_ERR_SCHEMA
                              (''method '' @ method @ '' not allowed for path '' @ t) st)
                          | Some opn \<Rightarrow> Inr (opn, the m, st))))"

definition validate_operation ::
    "yyjson \<Rightarrow> 'a allocator \<Rightarrow> ('p, 'c) compiled_operation \<Rightarrow> oas_path_match_result \<Rightarrow> oas_http_request
      \<Rightarrow> 'a request_step" where
  "validate_operation yy alloc opn m req st =
     (if co_request_body_required opn \<and> \<not> non_empty (rq_body req)
      then Some (None, reject alloc OAS_ERR_REQUIRED ''request body is required'' st)
      else if non_empty (rq_body req) \<and> co_request_body opn \<noteq> []
      then
        (case find_content_type (co_request_body opn) (rq_content_type req) of
           None \<Rightarrow> Some (None, reject alloc OAS_ERR_SCHEMA (''unsupported content type: '' @
             (case rq_content_type req of Some ct \<Rightarrow> ct | None \<Rightarrow> ''(none)'')) st)
         | Some mt \<Rightarrow>
             request_steps [validate_body yy alloc OAS_DIR_REQUEST mt (the (rq_body req)),
                            validate_params yy alloc opn req m] st)
      else validate_params yy alloc opn req m st)"

definition oas_validate_request ::
    "yyjson \<Rightarrow> 'a allocator \<Rightarrow> ('p, 'c) oas_compiled_doc option \<Rightarrow> oas_http_request option
      \<Rightarrow> 'a request_state option \<Rightarrow> (errno option \<times> 'a request_state option) option" where
  "oas_validate_request yy alloc doc req result =
     (case (doc, req, result) of
        (Some d, Some r, Some st) \<Rightarrow>
          (case (rq_method r, rq_path r) of
             (Some method, Some path) \<Rightarrow>
               (let st = ensure_errors alloc (st\<lparr>rs_valid := True\<rparr>)
                in (case select_operation alloc d path method st of
                      Inl (rc, st) \<Rightarrow> Some (rc, Some st)
                    | Inr (opn, m, st) \<Rightarrow>
                        map_option (\<lambda>(rc, st). (rc, Some st)) (validate_operation yy alloc opn m r st)))
           | _ \<Rightarrow> Some (Some EINVAL, result))
      | _ \<Rightarrow> Some (Some EINVAL, result))"

definition validate_response_content ::
    "yyjson \<Rightarrow> 'a allocator \<Rightarrow> ('p, 'c) compiled_response \<Rightarrow> oas_http_response \<Rightarrow> 'a request_step" where
  "validate_response_content yy alloc def resp st =
     (if non_empty (rp_body resp) \<and> cr_content def \<noteq> []
      then
        (case find_content_type (cr_content def) (rp_content_type resp) of
           None \<Rightarrow> Some (None, reject alloc OAS_ERR_SCHEMA (''unsupported response content type: '' @
             (case rp_content_type resp of Some ct \<Rightarrow> ct | None \<Rightarrow> ''(none)'')) st)
         | Some mt \<Rightarrow> validate_body yy alloc OAS_DIR_RESPONSE mt (the (rp_body resp)) st)
      else Some (None, st))"

definition oas_validate_response ::
    "yyjson \<Rightarrow> 'a allocator \<Rightarrow> ('p, 'c) oas_compiled_doc option \<Rightarrow> string option \<Rightarrow> string option
      \<Rightarrow> oas_http_response option \<Rightarrow> 'a request_state option
      \<Rightarrow> (errno option \<times> 'a request_state option) option" where
  "oas_validate_response yy alloc doc path method resp result =
     (case (doc, path, method, resp, result) of
        (Some d, Some pth, Some mth, Some r, Some st) \<Rightarrow>
          (let st = ensure_errors alloc (st\<lparr>rs_valid := True\<rparr>)
           in (case select_operation alloc d pth mth st of
                 Inl (rc, st) \<Rightarrow> Some (rc, Some st)
               | Inr (opn, m, st) \<Rightarrow>
                   (case find_response opn (rp_status_code r) of
                      None \<Rightarrow> Some (None, Some (reject alloc OAS_ERR_SCHEMA
                        (''no response defined for status '' @ dec_int (rp_status_code r)) st))
                    | Some def \<Rightarrow>
                        map_option (\<lambda>(rc, st). (rc, Some st)) (validate_response_content yy alloc def r st))))
      | _ \<Rightarrow> Some (Some EINVAL, result))"

end
