(* ===== verification/Liboas_Request_Spec.thy ===== *)
theory Liboas_Request_Spec
  imports Liboas_Request
begin

text \<open>
  What the validation of a request decides: the operation that the routing of the path strings
  and the method name, the body against the schema of its media type, and every parameter
  against the value the request gives it. The steps of \<open>Liboas_Request\<close> are shown to compute
  the conjunction of these.
\<close>

section \<open>Schemas\<close>

text \<open>A compiled schema and the meaning of the schema it was compiled from.\<close>

definition compiled_from ::
    "yyjson \<Rightarrow> ('p, 'c) oas_compiled_schema \<Rightarrow> (oas_validation_direction \<Rightarrow> json \<Rightarrow> bool) \<Rightarrow> bool" where
  "compiled_from yy cs acc \<longleftrightarrow>
     (\<exists>n env ok p errors. oas_schema_compile n env ok (Some p) errors = Some (True, cs) \<and>
       supported n (ce_heap env) False (Some p) \<and> acc = accepts n yy env (Some p))"

lemma compiled_from_verdict:
  assumes "compiled_from yy cs acc"
  obtains es where "oas_validate_with_direction yy alloc (Some cs) (Some v) d (Some res) arena =
    Some (None, Some \<lparr>vr_valid = acc d v, vr_errors = es\<rparr>)"
  using assms validate_compiled unfolding compiled_from_def by blast

section \<open>Values\<close>

text \<open>
  The JSON value a parameter is checked as: its text when that parses, and otherwise the text
  between double quotes.
\<close>

definition param_value :: "yyjson \<Rightarrow> string \<Rightarrow> json option" where
  "param_value yy v =
     (case yy_read yy v of Some x \<Rightarrow> Some x | None \<Rightarrow> yy_read yy (CHR 0x22 # v @ [CHR 0x22]))"

definition cookies_of :: "string \<Rightarrow> oas_cookie list" where
  "cookies_of h = fst (snd (oas_cookie_parse (\<lambda>a n k. (Some 8, a)) (Some ()) (Some h) True))"

definition query_value :: "string \<Rightarrow> string \<Rightarrow> string option" where
  "query_value q nm = the (find_pair (map query_pair (split_segments CHR ''&'' q)) nm)"

text \<open>The value the request has for a parameter of a kind.\<close>

definition request_value ::
    "oas_http_request \<Rightarrow> oas_path_param list \<Rightarrow> string \<Rightarrow> string \<Rightarrow> string option" where
  "request_value req bound kind nm =
     (if kind = ''header'' then Option.bind (rq_headers req) (\<lambda>hs. find_header hs nm)
      else if kind = ''query''
      then (case rq_query req of
              Some qs \<Rightarrow> find_query_param qs nm
            | None \<Rightarrow> Option.bind (rq_query_string req) (\<lambda>q. query_value q nm))
      else if kind = ''path'' then find_path_param bound nm
      else if kind = ''cookie''
      then Option.bind (rq_cookie_header req) (\<lambda>h. find_cookie (cookies_of h) nm)
      else None)"

definition param_ok ::
    "yyjson \<Rightarrow> (('p, 'c) oas_compiled_schema \<Rightarrow> oas_validation_direction \<Rightarrow> json \<Rightarrow> bool) \<Rightarrow> bool
      \<Rightarrow> string option \<Rightarrow> ('p, 'c) compiled_param \<Rightarrow> bool" where
  "param_ok yy acc report value p =
     (case value of
        None \<Rightarrow> \<not> (report \<and> cp_required p)
      | Some v \<Rightarrow>
          (case cp_schema p of None \<Rightarrow> True | Some cs \<Rightarrow> acc cs OAS_DIR_NONE (the (param_value yy v))))"

definition params_ok ::
    "yyjson \<Rightarrow> (('p, 'c) oas_compiled_schema \<Rightarrow> oas_validation_direction \<Rightarrow> json \<Rightarrow> bool)
      \<Rightarrow> oas_http_request \<Rightarrow> oas_path_param list \<Rightarrow> ('p, 'c) compiled_param list \<Rightarrow> bool" where
  "params_ok yy acc req bound ps \<longleftrightarrow>
     list_all (\<lambda>p. cp_in p \<in> {''header'', ''query'', ''path'', ''cookie''} \<longrightarrow>
       param_ok yy acc (cp_in p \<noteq> ''path'') (request_value req bound (cp_in p) (cp_name p)) p) ps"

definition body_ok ::
    "yyjson \<Rightarrow> (('p, 'c) oas_compiled_schema \<Rightarrow> oas_validation_direction \<Rightarrow> json \<Rightarrow> bool)
      \<Rightarrow> oas_validation_direction \<Rightarrow> ('p, 'c) compiled_media_type list \<Rightarrow> string option \<Rightarrow> string option \<Rightarrow> bool" where
  "body_ok yy acc dir entries content_type body \<longleftrightarrow>
     non_empty body \<and> entries \<noteq> [] \<longrightarrow>
     (case find_content_type entries content_type of
        None \<Rightarrow> False
      | Some mt \<Rightarrow> acc (the (cm_schema mt)) dir (the (yy_read yy (the body))))"

definition request_ok ::
    "yyjson \<Rightarrow> (('p, 'c) oas_compiled_schema \<Rightarrow> oas_validation_direction \<Rightarrow> json \<Rightarrow> bool)
      \<Rightarrow> string list \<Rightarrow> ('p, 'c) oas_compiled_doc \<Rightarrow> string \<Rightarrow> string \<Rightarrow> oas_http_request \<Rightarrow> bool" where
  "request_ok yy acc ts doc path meth req =
     (case route ts path of
        None \<Rightarrow> False
      | Some (t, segs) \<Rightarrow>
          (case find_operation doc t meth of
             None \<Rightarrow> False
           | Some opn \<Rightarrow>
               (co_request_body_required opn \<longrightarrow> non_empty (rq_body req)) \<and>
               body_ok yy acc OAS_DIR_REQUEST (co_request_body opn) (rq_content_type req) (rq_body req) \<and>
               params_ok yy acc req (bound_params t segs) (co_params opn)))"

section \<open>Cookies and queries, with memory granted\<close>

lemma cookie_pair_agrees:
  assumes "alloc_total alloc" and "alloc_total alloc'" and "length seg < 2 ^ 63"
  shows "\<exists>ck a1 a2. cookie_pair alloc a seg = (Some ck, a1) \<and> cookie_pair alloc' a' seg = (Some ck, a2)"
proof -
  let ?k = "takeWhile (\<lambda>c. c \<noteq> CHR ''='') seg"
  have k: "length ?k < 2 ^ 63" using assms(3) length_takeWhile_le le_less_trans by blast
  note g = decoders_granted [OF assms(1)] and g' = decoders_granted [OF assms(2)]
  show ?thesis
  proof (cases "dropWhile (\<lambda>c. c \<noteq> CHR ''='') seg")
    case Nil
    obtain a1 where "copy_segment alloc a seg = (Some seg, a1)" by (rule g [OF assms(3)])
    moreover obtain a2 where "copy_segment alloc' a' seg = (Some seg, a2)" by (rule g' [OF assms(3)])
    ultimately show ?thesis using Nil by (simp add: cookie_pair_def del: dropWhile_eq_Nil_conv)
  next
    case (Cons c v)
    then have v: "length v < 2 ^ 63"
      using assms(3) length_dropWhile_le [of "\<lambda>c. c \<noteq> CHR ''=''" seg] by simp
    obtain a1 where a1: "copy_segment alloc a ?k = (Some ?k, a1)" by (rule g [OF k])
    obtain a2 where a2: "copy_segment alloc' a' ?k = (Some ?k, a2)" by (rule g' [OF k])
    obtain b1 where "percent_decode alloc a1 v = (Some (percent_decode_loop v), b1)" by (rule g [OF v])
    moreover obtain b2 where "percent_decode alloc' a2 v = (Some (percent_decode_loop v), b2)" by (rule g' [OF v])
    ultimately show ?thesis using Cons a1 a2 by (simp add: cookie_pair_def)
  qed
qed

lemma cookie_cut_lengths:
  "cookie_cut s = (seg, rest) \<Longrightarrow> length seg \<le> length s \<and> (\<forall>r. rest = Some r \<longrightarrow> length r < length s)"
proof (induction s arbitrary: seg rest rule: cookie_cut.induct)
  case (1 c d s)
  show ?case
  proof (cases "c = CHR '';'' \<and> d = CHR '' ''")
    case False
    obtain x r where "cookie_cut (d # s) = (x, r)" by fastforce
    then show ?thesis using 1(1) [OF False] 1(2) False by fastforce
  qed (use 1(2) in auto)
qed auto

lemma cookie_loop_agrees:
  assumes "alloc_total alloc" and "alloc_total alloc'" and "length h < 2 ^ 63"
  shows "\<exists>cks a1 a2. cookie_loop alloc slots a h = (Some cks, a1) \<and> cookie_loop alloc' slots a' h = (Some cks, a2)"
  using assms(3)
proof (induction slots arbitrary: a a' h)
  case (Suc slots)
  obtain seg rest where cut: "cookie_cut h = (seg, rest)" by fastforce
  note len = cookie_cut_lengths [OF cut]
  have "length seg < 2 ^ 63" using len Suc.prems by linarith
  from cookie_pair_agrees [OF assms(1,2) this]
  obtain ck a1 a2 where ck: "cookie_pair alloc a seg = (Some ck, a1)" "cookie_pair alloc' a' seg = (Some ck, a2)"
    by blast
  show ?case
  proof (cases rest)
    case None
    then show ?thesis using cut ck by simp
  next
    case (Some r)
    then have "length r < 2 ^ 63" using len Suc.prems by auto
    from Suc.IH [OF this, of a1 a2] show ?thesis using Some cut ck by auto
  qed
qed simp

lemma cookie_parse_granted:
  assumes "alloc_total alloc" and "length h < 2 ^ 59"
  shows "\<exists>a'. oas_cookie_parse alloc (Some a) (Some h) True = (None, cookies_of h, Some a')"
proof (cases "h = []")
  case True
  then show ?thesis by (simp add: oas_cookie_parse_def cookies_of_def)
next
  case False
  let ?n = "Suc (count_separators h)"
  have n: "?n \<le> 2 ^ 59" using assms(2) count_separators_le [of h] by simp
  then obtain p a1 where "alloc a (of_nat (16 * ?n)) 8 = (Some p, a1)"
    using granted [OF assms(1), of "16 * ?n" 8 a] by auto
  moreover obtain cks b1 b2 where "cookie_loop alloc ?n a1 h = (Some cks, b1)"
    "cookie_loop (\<lambda>a n k. (Some 8, a)) ?n () h = (Some cks, b2)"
    using cookie_loop_agrees [OF assms(1) sample_total, of h ?n a1 "()"] assms(2) by auto
  ultimately show ?thesis using False n
    by (simp add: oas_cookie_parse_def cookies_of_def sizeof_oas_cookie_def Let_def del: cookie_loop.simps)
qed

lemma find_pair_query: "find_pair (map query_pair segs) nm \<noteq> None"
  by (induction segs) (simp_all add: query_pair_def)

section \<open>The state\<close>

definition ready :: "'a request_state \<Rightarrow> bool" where
  "ready st \<longleftrightarrow> rs_arena st \<noteq> None"

lemma ready_get: "ready st \<Longrightarrow> \<exists>a. rs_get_arena st = Some a"
  by (auto simp: ready_def rs_get_arena_def split: option.split)

lemma set_arena_keeps [simp]:
  "rs_valid (rs_set_arena a st) = rs_valid st"
  "ready st \<Longrightarrow> ready (rs_set_arena (Some x) st)"
  by (auto simp: rs_set_arena_def ready_def split: option.split)

lemma reject_keeps [simp]:
  "\<not> rs_valid (reject alloc k m st)" "ready (reject alloc k m st) = ready st"
  by (simp_all add: reject_def ready_def)

lemma with_result_keeps [simp]:
  "rs_valid (with_result alloc st r) = vr_valid r" "ready (with_result alloc st r) = ready st"
  by (simp_all add: with_result_def ready_def Let_def)

lemma ready_valid [simp]: "ready (st\<lparr>rs_valid := b\<rparr>) = ready st"
  by (simp add: ready_def)

lemma ensure_errors_keeps [simp]:
  "rs_valid (ensure_errors alloc st) = rs_valid st" "ready st \<Longrightarrow> ready (ensure_errors alloc st)"
  by (auto simp: ensure_errors_def ready_def split_beta split: option.split)

text \<open>A step that comes back with code 0 and conjoins a verdict.\<close>

definition decides :: "'a request_step \<Rightarrow> bool \<Rightarrow> bool" where
  "decides f b \<longleftrightarrow>
     (\<forall>st. ready st \<longrightarrow> (\<exists>st'. f st = Some (None, st') \<and> ready st' \<and> rs_valid st' = (rs_valid st \<and> b)))"

lemma decidesI:
  assumes "\<And>st. ready st \<Longrightarrow> \<exists>st'. f st = Some (None, st') \<and> ready st' \<and> rs_valid st' = (rs_valid st \<and> b)"
  shows "decides f b"
  using assms by (simp add: decides_def)

lemma decidesE:
  assumes "decides f b" and "ready st"
  obtains st' where "f st = Some (None, st')" "ready st'" "rs_valid st' = (rs_valid st \<and> b)"
  using assms by (auto simp: decides_def)

lemma decides_steps:
  "list_all2 decides fs bs \<Longrightarrow> decides (request_steps fs) (list_all id bs)"
proof (induction rule: list_all2_induct)
  case (Cons f fs b bs)
  show ?case
  proof (rule decidesI)
    fix st :: "'a request_state" assume "ready st"
    then obtain st1 where s1: "f st = Some (None, st1)" "ready st1" "rs_valid st1 = (rs_valid st \<and> b)"
      by (rule decidesE [OF Cons.hyps(1)])
    obtain st2 where "request_steps fs st1 = Some (None, st2)" "ready st2"
      "rs_valid st2 = (rs_valid st1 \<and> list_all id bs)" by (rule decidesE [OF Cons.IH s1(2)])
    then show "\<exists>st'. request_steps (f # fs) st = Some (None, st') \<and> ready st' \<and>
        rs_valid st' = (rs_valid st \<and> list_all id (b # bs))" using s1 by auto
  qed
qed (simp add: decides_def)

section \<open>Parameters\<close>

lemma validate_value_decides:
  assumes t: "alloc_total alloc" and c: "compiled_from yy cs acc"
    and x: "param_value yy v = Some x" and l: "length v < 2 ^ 63"
  shows "decides (validate_param_value yy alloc (Some cs) (Some v)) (acc OAS_DIR_NONE x)"
proof (rule decidesI)
  fix st :: "'a request_state" assume st: "ready st"
  note verdict = compiled_from_verdict [OF c, of alloc _ OAS_DIR_NONE]
  show "\<exists>st'. validate_param_value yy alloc (Some cs) (Some v) st = Some (None, st') \<and> ready st' \<and>
      rs_valid st' = (rs_valid st \<and> acc OAS_DIR_NONE x)"
  proof (cases "yy_read yy v")
    case (Some y)
    then have "y = x" using x by (simp add: param_value_def)
    moreover obtain es where "oas_validate_with_direction yy alloc (Some cs) (Some x) OAS_DIR_NONE
        (Some \<lparr>vr_valid = False, vr_errors = rs_errors st\<rparr>) (rs_get_arena st) =
      Some (None, Some \<lparr>vr_valid = acc OAS_DIR_NONE x, vr_errors = es\<rparr>)" by (rule verdict)
    ultimately show ?thesis using Some st
      by (simp add: validate_param_value_def oas_validate_def Let_def)
  next
    case None
    then have q: "yy_read yy (CHR 0x22 # v @ [CHR 0x22]) = Some x" using x by (simp add: param_value_def)
    obtain a where a: "rs_get_arena st = Some a" using ready_get [OF st] by blast
    obtain p a' where p: "alloc a (of_nat (length v + 3)) 1 = (Some p, a')"
      using granted [OF t, of "length v + 3" 1 a] l by auto
    let ?st = "rs_set_arena (Some a') st"
    obtain es where "oas_validate_with_direction yy alloc (Some cs) (Some x) OAS_DIR_NONE
        (Some \<lparr>vr_valid = False, vr_errors = rs_errors ?st\<rparr>) (rs_get_arena ?st) =
      Some (None, Some \<lparr>vr_valid = acc OAS_DIR_NONE x, vr_errors = es\<rparr>)" by (rule verdict)
    then show ?thesis using None q a p st
      by (simp add: validate_param_value_def oas_validate_json_def oas_validate_json_with_direction_def Let_def)
  qed
qed

text \<open>
  What the loop over the parameters of one kind decides, where the lookup answers and every
  value that is checked can be read.
\<close>

definition kind_ok ::
    "yyjson \<Rightarrow> (('p, 'c) oas_compiled_schema \<Rightarrow> oas_validation_direction \<Rightarrow> json \<Rightarrow> bool)
      \<Rightarrow> string \<Rightarrow> (string \<Rightarrow> string option) \<Rightarrow> bool \<Rightarrow> ('p, 'c) compiled_param list \<Rightarrow> bool" where
  "kind_ok yy acc kind look report ps \<longleftrightarrow>
     list_all (\<lambda>p. cp_in p = kind \<longrightarrow> param_ok yy acc report (look (cp_name p)) p) ps"

definition params_readable ::
    "yyjson \<Rightarrow> (('p, 'c) oas_compiled_schema \<Rightarrow> oas_validation_direction \<Rightarrow> json \<Rightarrow> bool)
      \<Rightarrow> string \<Rightarrow> (string \<Rightarrow> string option) \<Rightarrow> ('p, 'c) compiled_param list \<Rightarrow> bool" where
  "params_readable yy acc kind look ps \<longleftrightarrow>
     (\<forall>p \<in> set ps. \<forall>v cs. cp_in p = kind \<and> look (cp_name p) = Some v \<and> cp_schema p = Some cs \<longrightarrow>
       compiled_from yy cs (acc cs) \<and> param_value yy v \<noteq> None \<and> length v < 2 ^ 63)"

lemma param_loop_decides:
  assumes t: "alloc_total alloc" and look: "\<And>nm. lookup nm = Some (look nm)"
    and r: "params_readable yy acc kind look ps"
  shows "decides (param_loop yy alloc kind lookup missing ps) (kind_ok yy acc kind look (missing \<noteq> None) ps)"
  using r
proof (induction ps)
  case Nil
  then show ?case by (simp add: decides_def kind_ok_def)
next
  case (Cons p ps)
  let ?rest = "kind_ok yy acc kind look (missing \<noteq> None) ps"
  have IH: "decides (param_loop yy alloc kind lookup missing ps) ?rest"
    using Cons by (simp add: params_readable_def)
  show ?case
  proof (rule decidesI)
    fix st :: "'a request_state" assume st: "ready st"
    let ?goal = "\<exists>st'. param_loop yy alloc kind lookup missing (p # ps) st = Some (None, st') \<and> ready st' \<and>
      rs_valid st' = (rs_valid st \<and> kind_ok yy acc kind look (missing \<noteq> None) (p # ps))"
    have via: ?goal
      if r1: "ready st1" and v1: "rs_valid st1 = (rs_valid st \<and> (cp_in p = kind \<longrightarrow> param_ok yy acc (missing \<noteq> None) (look (cp_name p)) p))"
        and l1: "param_loop yy alloc kind lookup missing (p # ps) st = param_loop yy alloc kind lookup missing ps st1" for st1
      proof -
      obtain st' where "param_loop yy alloc kind lookup missing ps st1 = Some (None, st')" "ready st'"
        "rs_valid st' = (rs_valid st1 \<and> ?rest)" by (rule decidesE [OF IH r1])
      then show ?thesis unfolding l1 using v1 by (simp add: kind_ok_def)
    qed
    show ?goal
    proof (cases "cp_in p = kind")
      case False
      then show ?thesis by (intro via [OF st]) simp_all
    next
      case True
      show ?thesis
      proof (cases "look (cp_name p)")
        case None
        let ?st = "case missing of Some msg \<Rightarrow>
          if cp_required p then reject alloc OAS_ERR_REQUIRED (msg @ cp_name p) st else st | None \<Rightarrow> st"
        show ?thesis
        proof (rule via [of ?st])
          show "ready ?st" using st by (simp split: option.split)
          show "rs_valid ?st = (rs_valid st \<and> (cp_in p = kind \<longrightarrow>
              param_ok yy acc (missing \<noteq> None) (look (cp_name p)) p))"
            using None True by (auto simp: param_ok_def split: option.split)
        qed (simp add: True None look)
      next
        case (Some v)
        have "decides (validate_param_value yy alloc (cp_schema p) (Some v))
            (param_ok yy acc (missing \<noteq> None) (look (cp_name p)) p)"
        proof (cases "cp_schema p")
          case None
          then show ?thesis using Some by (simp add: validate_param_value_def decides_def param_ok_def)
        next
          case c: (Some cs)
          then obtain x where "compiled_from yy cs (acc cs)" "param_value yy v = Some x" "length v < 2 ^ 63"
            using Cons.prems True Some by (auto simp: params_readable_def)
          then show ?thesis using validate_value_decides [OF t] Some c by (simp add: param_ok_def)
        qed
        from decidesE [OF this st] obtain st1 where s1:
          "validate_param_value yy alloc (cp_schema p) (Some v) st = Some (None, st1)" "ready st1"
          "rs_valid st1 = (rs_valid st \<and> param_ok yy acc (missing \<noteq> None) (look (cp_name p)) p)" by blast
        show ?thesis by (rule via [OF s1(2)]) (simp_all add: True look Some s1(1,3))
      qed
    qed
  qed
qed

lemma set_arena_decides:
  assumes "\<And>a. \<exists>x a'. parse (Some a) = (None, x, Some a') \<and> decides (k x) b"
  shows "decides (\<lambda>st. let (rc, x, a) = parse (rs_get_arena st); st = rs_set_arena a st
      in if rc \<noteq> None then Some (rc, st) else k x st) b"
proof (rule decidesI)
  fix st :: "'a request_state" assume st: "ready st"
  then obtain a where "rs_get_arena st = Some a" using ready_get by blast
  then obtain x a' where x: "parse (rs_get_arena st) = (None, x, Some a')" "decides (k x) b"
    using assms by metis
  from decidesE [OF x(2), of "rs_set_arena (Some a') st"] st
  show "\<exists>st'. (let (rc, x, a) = parse (rs_get_arena st); st = rs_set_arena a st
      in if rc \<noteq> None then Some (rc, st) else k x st) = Some (None, st') \<and> ready st' \<and> rs_valid st' = (rs_valid st \<and> b)"
    using x(1) by fastforce
qed

lemma header_params_decide:
  assumes "alloc_total alloc" and "params_readable yy acc ''header'' (request_value req bound ''header'') ps"
  shows "decides (validate_header_params yy alloc ps req)
    (kind_ok yy acc ''header'' (request_value req bound ''header'') True ps)"
proof -
  have "(\<lambda>nm. Some (case rq_headers req of None \<Rightarrow> None | Some hs \<Rightarrow> find_header hs nm)) =
      (\<lambda>nm. Some (request_value req bound ''header'' nm))"
    by (simp add: request_value_def fun_eq_iff split: option.split)
  then show ?thesis
    using param_loop_decides [OF assms(1) refl assms(2), where missing = "Some ''required header missing: ''"]
    by (simp add: validate_header_params_def)
qed

lemma path_params_decide:
  assumes "alloc_total alloc" and "params_readable yy acc ''path'' (find_path_param (pm_params m)) ps"
  shows "decides (validate_path_params yy alloc ps m)
    (kind_ok yy acc ''path'' (find_path_param (pm_params m)) False ps)"
proof -
  have r: "params_readable yy acc ''path'' (find_path_param (pm_params m)) (filter (\<lambda>p. cp_schema p \<noteq> None) ps)"
    using assms(2) by (auto simp: params_readable_def)
  have "kind_ok yy acc ''path'' (find_path_param (pm_params m)) False (filter (\<lambda>p. cp_schema p \<noteq> None) ps) =
      kind_ok yy acc ''path'' (find_path_param (pm_params m)) False ps"
    by (auto simp: kind_ok_def list_all_iff param_ok_def split: option.split)
  then show ?thesis
    using param_loop_decides [OF assms(1) refl r, where missing = None]
    by (simp add: validate_path_params_def)
qed

lemma query_params_decide:
  assumes "alloc_total alloc" and "params_readable yy acc ''query'' (request_value req bound ''query'') ps"
    and "\<forall>q. rq_query_string req = Some q \<longrightarrow> length q < 2 ^ 59"
  shows "decides (validate_query_params yy alloc ps req)
    (kind_ok yy acc ''query'' (request_value req bound ''query'') True ps)"
proof -
  let ?loop = "\<lambda>look. param_loop yy alloc ''query'' look (Some ''required query parameter missing: '') ps"
  have loop: "decides (?loop look) (kind_ok yy acc ''query'' (request_value req bound ''query'') True ps)"
    if "\<And>nm. look nm = Some (request_value req bound ''query'' nm)" for look
    using param_loop_decides [OF assms(1) that assms(2), where missing = "Some ''required query parameter missing: ''"]
    by simp
  consider (given) qs where "rq_query req = Some qs" | (absent) "rq_query req = None" "rq_query_string req = None"
    | (raw) q where "rq_query req = None" "rq_query_string req = Some q" by (cases "rq_query req"; cases "rq_query_string req") auto
  then show ?thesis
  proof cases
    case given
    then have "validate_query_params yy alloc ps req = ?loop (\<lambda>nm. Some (find_query_param qs nm))"
      by (simp add: validate_query_params_def fun_eq_iff)
    then show ?thesis using loop given by (simp add: request_value_def)
  next
    case absent
    then have "validate_query_params yy alloc ps req = ?loop (\<lambda>nm. Some None)"
      by (simp add: validate_query_params_def fun_eq_iff)
    then show ?thesis using loop absent by (simp add: request_value_def)
  next
    case raw
    have "decides (?loop (find_pair (map query_pair (split_segments CHR ''&'' q))))
        (kind_ok yy acc ''query'' (request_value req bound ''query'') True ps)"
      using find_pair_query [of "split_segments CHR ''&'' q"] raw
      by (intro loop) (simp add: request_value_def query_value_def)
    moreover have "length q < 2 ^ 59" using assms(3) raw by simp
    ultimately have "\<exists>x a'. oas_query_parse alloc (Some a) (Some q) True = (None, x, Some a') \<and>
        decides (?loop (find_pair x)) (kind_ok yy acc ''query'' (request_value req bound ''query'') True ps)" for a
      using query_parse_pairs [OF assms(1), of q a] by metis
    from set_arena_decides [where parse = "\<lambda>a. oas_query_parse alloc a (Some q) True" and k = "\<lambda>x. ?loop (find_pair x)", OF this]
    show ?thesis unfolding validate_query_params_def raw option.case .
  qed
qed

lemma cookie_params_decide:
  assumes "alloc_total alloc" and "params_readable yy acc ''cookie'' (request_value req bound ''cookie'') ps"
    and "\<forall>h. rq_cookie_header req = Some h \<longrightarrow> length h < 2 ^ 59"
  shows "decides (validate_cookie_params yy alloc ps req)
    (kind_ok yy acc ''cookie'' (request_value req bound ''cookie'') True ps)"
proof -
  let ?loop = "\<lambda>look. param_loop yy alloc ''cookie'' look (Some ''required cookie missing: '') ps"
  have loop: "decides (?loop look) (kind_ok yy acc ''cookie'' (request_value req bound ''cookie'') True ps)"
    if "\<And>nm. look nm = Some (request_value req bound ''cookie'' nm)" for look
    using param_loop_decides [OF assms(1) that assms(2), where missing = "Some ''required cookie missing: ''"]
    by simp
  show ?thesis
  proof (cases "rq_cookie_header req")
    case None
    then have "validate_cookie_params yy alloc ps req = ?loop (\<lambda>nm. Some None)"
      by (simp add: validate_cookie_params_def fun_eq_iff)
    then show ?thesis using loop None by (simp add: request_value_def)
  next
    case (Some h)
    have "decides (?loop (\<lambda>nm. Some (find_cookie (cookies_of h) nm)))
        (kind_ok yy acc ''cookie'' (request_value req bound ''cookie'') True ps)"
      using Some by (intro loop) (simp add: request_value_def)
    moreover have "length h < 2 ^ 59" using assms(3) Some by simp
    ultimately have "\<exists>x a'. oas_cookie_parse alloc (Some a) (Some h) True = (None, x, Some a') \<and>
        decides (?loop (\<lambda>nm. Some (find_cookie x nm)))
          (kind_ok yy acc ''cookie'' (request_value req bound ''cookie'') True ps)" for a
      using cookie_parse_granted [OF assms(1), of h a] by metis
    from set_arena_decides [where parse = "\<lambda>a. oas_cookie_parse alloc a (Some h) True" and
        k = "\<lambda>x. ?loop (\<lambda>nm. Some (find_cookie x nm))", OF this]
    show ?thesis unfolding validate_cookie_params_def Some option.case .
  qed
qed

section \<open>Operations\<close>

definition body_readable ::
    "yyjson \<Rightarrow> (('p, 'c) oas_compiled_schema \<Rightarrow> oas_validation_direction \<Rightarrow> json \<Rightarrow> bool)
      \<Rightarrow> ('p, 'c) compiled_media_type list \<Rightarrow> string option \<Rightarrow> string option \<Rightarrow> bool" where
  "body_readable yy acc entries content_type body \<longleftrightarrow>
     (\<forall>mt. non_empty body \<and> find_content_type entries content_type = Some mt \<longrightarrow>
       (\<exists>cs. cm_schema mt = Some cs \<and> compiled_from yy cs (acc cs)) \<and> yy_read yy (the body) \<noteq> None)"

definition operation_readable ::
    "yyjson \<Rightarrow> (('p, 'c) oas_compiled_schema \<Rightarrow> oas_validation_direction \<Rightarrow> json \<Rightarrow> bool)
      \<Rightarrow> oas_http_request \<Rightarrow> oas_path_param list \<Rightarrow> ('p, 'c) compiled_operation \<Rightarrow> bool" where
  "operation_readable yy acc req bound opn \<longleftrightarrow>
     body_readable yy acc (co_request_body opn) (rq_content_type req) (rq_body req) \<and>
     (\<forall>kind. params_readable yy acc kind (request_value req bound kind) (co_params opn)) \<and>
     (\<forall>q. rq_query_string req = Some q \<longrightarrow> length q < 2 ^ 59) \<and>
     (\<forall>h. rq_cookie_header req = Some h \<longrightarrow> length h < 2 ^ 59)"

lemma body_read:
  assumes "compiled_from yy cs acc" and "cm_schema mt = Some cs" and "yy_read yy body = Some x"
  obtains st' where "validate_body yy alloc dir mt body st = Some (None, st')"
    and "ready st' = ready st" and "rs_valid st' = acc dir x"
proof -
  obtain es where "oas_validate_with_direction yy alloc (Some cs) (Some x) dir
      (Some \<lparr>vr_valid = rs_valid st, vr_errors = rs_errors st\<rparr>) (rs_get_arena st) =
    Some (None, Some \<lparr>vr_valid = acc dir x, vr_errors = es\<rparr>)" by (rule compiled_from_verdict [OF assms(1)])
  then show thesis using that assms(2,3) by (simp add: validate_body_def oas_validate_json_with_direction_def)
qed

lemma params_ok_kinds:
  "params_ok yy acc req bound ps \<longleftrightarrow>
     kind_ok yy acc ''header'' (request_value req bound ''header'') True ps \<and>
     kind_ok yy acc ''query'' (request_value req bound ''query'') True ps \<and>
     kind_ok yy acc ''path'' (find_path_param bound) False ps \<and>
     kind_ok yy acc ''cookie'' (request_value req bound ''cookie'') True ps"
proof -
  have p: "request_value req bound ''path'' = find_path_param bound"
    by (simp add: request_value_def fun_eq_iff)
  show ?thesis unfolding params_ok_def kind_ok_def list_all_iff p [symmetric] by auto
qed

lemma params_decide:
  assumes t: "alloc_total alloc" and r: "operation_readable yy acc req (pm_params m) opn"
    and n: "pm_params_count m = length (pm_params m)"
  shows "decides (validate_params yy alloc opn req m) (params_ok yy acc req (pm_params m) (co_params opn))"
proof (cases "co_params opn = []")
  case True
  then show ?thesis by (simp add: validate_params_def decides_def params_ok_def)
next
  case False
  let ?ok = "\<lambda>kind. kind_ok yy acc kind (request_value req (pm_params m) kind) True (co_params opn)"
  let ?path = "kind_ok yy acc ''path'' (find_path_param (pm_params m)) False (co_params opn)"
  have readable: "params_readable yy acc kind (request_value req (pm_params m) kind) (co_params opn)" for kind
    using r by (simp add: operation_readable_def)
  have f: "request_value req (pm_params m) ''path'' = find_path_param (pm_params m)"
    by (simp add: request_value_def fun_eq_iff)
  note steps = header_params_decide [OF t readable] query_params_decide [OF t readable]
    path_params_decide [OF t readable [of "''path''", unfolded f]] cookie_params_decide [OF t readable]
  have sizes: "\<forall>q. rq_query_string req = Some q \<longrightarrow> length q < 2 ^ 59"
    "\<forall>h. rq_cookie_header req = Some h \<longrightarrow> length h < 2 ^ 59"
    using r by (simp_all add: operation_readable_def)
  show ?thesis
  proof (cases "pm_params m = []")
    case True
    then have "?path" by (simp add: kind_ok_def list_all_iff param_ok_def find_path_param_def)
    moreover have l: "list_all2 decides [validate_header_params yy alloc (co_params opn) req,
        validate_query_params yy alloc (co_params opn) req, validate_cookie_params yy alloc (co_params opn) req]
        [?ok ''header'', ?ok ''query'', ?ok ''cookie'']"
      using steps(1) steps(2) [OF sizes(1)] steps(4) [OF sizes(2)] by simp
    ultimately show ?thesis
      using decides_steps [OF l] \<open>co_params opn \<noteq> []\<close> n True
      by (simp add: validate_params_def params_ok_kinds)
  next
    case ne: False
    have "list_all2 decides [validate_header_params yy alloc (co_params opn) req,
        validate_query_params yy alloc (co_params opn) req, validate_path_params yy alloc (co_params opn) m,
        validate_cookie_params yy alloc (co_params opn) req]
        [?ok ''header'', ?ok ''query'', ?path, ?ok ''cookie'']"
      using steps(1) steps(2) [OF sizes(1)] steps(3) steps(4) [OF sizes(2)] by simp
    from decides_steps [OF this] show ?thesis
      using False n ne by (simp add: validate_params_def params_ok_kinds)
  qed
qed

lemma operation_decides:
  assumes t: "alloc_total alloc" and r: "operation_readable yy acc req (pm_params m) opn"
    and n: "pm_params_count m = length (pm_params m)" and st: "ready st" and v: "rs_valid st"
  shows "\<exists>st'. validate_operation yy alloc opn m req st = Some (None, st') \<and> ready st' \<and>
    rs_valid st' = ((co_request_body_required opn \<longrightarrow> non_empty (rq_body req)) \<and>
      body_ok yy acc OAS_DIR_REQUEST (co_request_body opn) (rq_content_type req) (rq_body req) \<and>
      params_ok yy acc req (pm_params m) (co_params opn))"
proof -
  note params = params_decide [OF t r n]
  consider (missing) "co_request_body_required opn" "\<not> non_empty (rq_body req)"
    | (unknown) "non_empty (rq_body req)" "co_request_body opn \<noteq> []"
        "find_content_type (co_request_body opn) (rq_content_type req) = None"
    | (known) mt where "non_empty (rq_body req)" "co_request_body opn \<noteq> []"
        "find_content_type (co_request_body opn) (rq_content_type req) = Some mt"
    | (bare) "co_request_body_required opn \<longrightarrow> non_empty (rq_body req)"
        "\<not> (non_empty (rq_body req) \<and> co_request_body opn \<noteq> [])"
    by fastforce
  then show ?thesis
  proof cases
    case missing
    then show ?thesis using st by (simp add: validate_operation_def)
  next
    case unknown
    then show ?thesis using st by (simp add: validate_operation_def body_ok_def)
  next
    case known
    then obtain cs x where cs: "cm_schema mt = Some cs" "compiled_from yy cs (acc cs)"
      "yy_read yy (the (rq_body req)) = Some x"
      using r by (auto simp: operation_readable_def body_readable_def)
    obtain st1 where s1: "validate_body yy alloc OAS_DIR_REQUEST mt (the (rq_body req)) st = Some (None, st1)"
      "ready st1 = ready st" "rs_valid st1 = acc cs OAS_DIR_REQUEST x"
      by (rule body_read [OF cs(2,1,3)])
    obtain st2 where "validate_params yy alloc opn req m st1 = Some (None, st2)" "ready st2"
      "rs_valid st2 = (rs_valid st1 \<and> params_ok yy acc req (pm_params m) (co_params opn))"
      using decidesE [OF params] s1(2) st by metis
    then show ?thesis using known s1 cs by (simp add: validate_operation_def body_ok_def)
  next
    case bare
    from decidesE [OF params st] obtain st' where "validate_params yy alloc opn req m st = Some (None, st')" "ready st'"
      "rs_valid st' = (rs_valid st \<and> params_ok yy acc req (pm_params m) (co_params opn))" by blast
    then show ?thesis using bare v by (auto simp: validate_operation_def body_ok_def)
  qed
qed

lemma select_operation_routes:
  assumes t: "alloc_total alloc" and m: "cd_matcher d = Some ms" "list_all2 represents ts ms"
    and p: "path \<noteq> []" "hd path = CHR ''/''" "length path < 2 ^ 58" and st: "ready st" "rs_valid st"
  shows "case route ts path of
      None \<Rightarrow> \<exists>st'. select_operation alloc d path meth st = Inl (None, st') \<and> ready st' \<and> \<not> rs_valid st'
    | Some (u, segs) \<Rightarrow>
        (case find_operation d u meth of
           None \<Rightarrow> \<exists>st'. select_operation alloc d path meth st = Inl (None, st') \<and> ready st' \<and> \<not> rs_valid st'
         | Some opn \<Rightarrow> \<exists>st'. select_operation alloc d path meth st =
             Inr (opn, routed_result (Some (u, segs)), st') \<and> ready st' \<and> rs_valid st')"
proof -
  obtain a where a: "rs_get_arena st = Some a" using ready_get [OF st(1)] by blast
  obtain a' where "oas_path_match alloc (Some ms) (Some path) (Some no_match) (rs_get_arena st) =
      (None, Some (routed_result (route ts path)), Some a')"
    using path_match_route [OF t m(2) p, of no_match a] a by auto
  then show ?thesis using m(1) st
    by (auto simp: select_operation_def routed_result_def no_match_def Let_def split: option.split)
qed

section \<open>Requests\<close>

text \<open>What the theorem on requests asks of the input.\<close>

definition request_readable ::
    "yyjson \<Rightarrow> (('p, 'c) oas_compiled_schema \<Rightarrow> oas_validation_direction \<Rightarrow> json \<Rightarrow> bool)
      \<Rightarrow> string list \<Rightarrow> ('p, 'c) oas_compiled_doc \<Rightarrow> string \<Rightarrow> string \<Rightarrow> oas_http_request \<Rightarrow> bool" where
  "request_readable yy acc ts doc path meth req \<longleftrightarrow>
     (\<forall>t segs opn. route ts path = Some (t, segs) \<and> find_operation doc t meth = Some opn \<longrightarrow>
       operation_readable yy acc req (bound_params t segs) opn)"

lemma request_decides:
  assumes t: "alloc_total alloc" and m: "cd_matcher d = Some ms" "list_all2 represents ts ms"
    and q: "rq_method req = Some meth" "rq_path req = Some path"
    and p: "path \<noteq> []" "hd path = CHR ''/''" "length path < 2 ^ 58"
    and r: "request_readable yy acc ts d path meth req" and st: "rs_arena st \<noteq> None"
  shows "\<exists>st'. oas_validate_request yy alloc (Some d) (Some req) (Some st) = Some (None, Some st') \<and>
    ready st' \<and> rs_valid st' = request_ok yy acc ts d path meth req"
proof -
  let ?st = "ensure_errors alloc (st\<lparr>rs_valid := True\<rparr>)"
  have "ready (st\<lparr>rs_valid := True\<rparr>)" using st by (simp add: ready_def)
  then have s: "ready ?st" "rs_valid ?st" by simp_all
  note sel = select_operation_routes [OF t m p s, of meth]
  show ?thesis
  proof (cases "route ts path")
    case None
    then show ?thesis using sel q by (auto simp: oas_validate_request_def request_ok_def)
  next
    case (Some us)
    obtain u segs where us: "us = (u, segs)" by fastforce
    show ?thesis
    proof (cases "find_operation d u meth")
      case None
      then show ?thesis using sel q Some us by (auto simp: oas_validate_request_def request_ok_def)
    next
      case opn: (Some opn)
      let ?m = "routed_result (Some (u, segs))"
      obtain st1 where s1: "select_operation alloc d path meth ?st = Inr (opn, ?m, st1)" "ready st1" "rs_valid st1"
        using sel Some us opn by auto
      have m': "pm_params ?m = bound_params u segs" "pm_params_count ?m = length (pm_params ?m)"
        by (simp_all add: routed_result_def)
      have "operation_readable yy acc req (pm_params ?m) opn"
        using r Some us opn m' by (simp add: request_readable_def)
      from operation_decides [OF t this m'(2) s1(2,3)] show ?thesis
        using s1(1) q Some us opn m'(1) by (auto simp: oas_validate_request_def request_ok_def)
    qed
  qed
qed

section \<open>Responses\<close>

definition response_ok ::
    "yyjson \<Rightarrow> (('p, 'c) oas_compiled_schema \<Rightarrow> oas_validation_direction \<Rightarrow> json \<Rightarrow> bool)
      \<Rightarrow> string list \<Rightarrow> ('p, 'c) oas_compiled_doc \<Rightarrow> string \<Rightarrow> string \<Rightarrow> oas_http_response \<Rightarrow> bool" where
  "response_ok yy acc ts doc path meth resp =
     (case route ts path of
        None \<Rightarrow> False
      | Some (t, segs) \<Rightarrow>
          (case find_operation doc t meth of
             None \<Rightarrow> False
           | Some opn \<Rightarrow>
               (case find_response opn (rp_status_code resp) of
                  None \<Rightarrow> False
                | Some def \<Rightarrow> body_ok yy acc OAS_DIR_RESPONSE (cr_content def) (rp_content_type resp) (rp_body resp))))"

definition response_readable ::
    "yyjson \<Rightarrow> (('p, 'c) oas_compiled_schema \<Rightarrow> oas_validation_direction \<Rightarrow> json \<Rightarrow> bool)
      \<Rightarrow> string list \<Rightarrow> ('p, 'c) oas_compiled_doc \<Rightarrow> string \<Rightarrow> string \<Rightarrow> oas_http_response \<Rightarrow> bool" where
  "response_readable yy acc ts doc path meth resp \<longleftrightarrow>
     (\<forall>t segs opn def. route ts path = Some (t, segs) \<and> find_operation doc t meth = Some opn \<and>
         find_response opn (rp_status_code resp) = Some def \<longrightarrow>
       body_readable yy acc (cr_content def) (rp_content_type resp) (rp_body resp))"

lemma response_content_decides:
  assumes r: "body_readable yy acc (cr_content def) (rp_content_type resp) (rp_body resp)" and v: "rs_valid st"
  shows "\<exists>st'. validate_response_content yy alloc def resp st = Some (None, st') \<and>
    rs_valid st' = body_ok yy acc OAS_DIR_RESPONSE (cr_content def) (rp_content_type resp) (rp_body resp)"
proof (cases "non_empty (rp_body resp) \<and> cr_content def \<noteq> []")
  case False
  then show ?thesis using v by (auto simp: validate_response_content_def body_ok_def)
next
  case True
  show ?thesis
  proof (cases "find_content_type (cr_content def) (rp_content_type resp)")
    case None
    then show ?thesis using True by (simp add: validate_response_content_def body_ok_def)
  next
    case (Some mt)
    then obtain cs x where cs: "cm_schema mt = Some cs" "compiled_from yy cs (acc cs)"
      "yy_read yy (the (rp_body resp)) = Some x"
      using r True by (auto simp: body_readable_def)
    obtain st1 where "validate_body yy alloc OAS_DIR_RESPONSE mt (the (rp_body resp)) st = Some (None, st1)"
      "rs_valid st1 = acc cs OAS_DIR_RESPONSE x" by (rule body_read [OF cs(2,1,3)])
    then show ?thesis using True Some cs by (simp add: validate_response_content_def body_ok_def)
  qed
qed

lemma response_decides:
  assumes t: "alloc_total alloc" and m: "cd_matcher d = Some ms" "list_all2 represents ts ms"
    and p: "path \<noteq> []" "hd path = CHR ''/''" "length path < 2 ^ 58"
    and r: "response_readable yy acc ts d path meth resp" and st: "rs_arena st \<noteq> None"
  shows "\<exists>st'. oas_validate_response yy alloc (Some d) (Some path) (Some meth) (Some resp) (Some st) =
      Some (None, Some st') \<and> rs_valid st' = response_ok yy acc ts d path meth resp"
proof -
  let ?st = "ensure_errors alloc (st\<lparr>rs_valid := True\<rparr>)"
  have "ready (st\<lparr>rs_valid := True\<rparr>)" using st by (simp add: ready_def)
  then have s: "ready ?st" "rs_valid ?st" by simp_all
  note sel = select_operation_routes [OF t m p s, of meth]
  show ?thesis
  proof (cases "\<exists>u segs opn. route ts path = Some (u, segs) \<and> find_operation d u meth = Some opn")
    case False
    then show ?thesis using sel
      by (auto simp: oas_validate_response_def response_ok_def split: option.splits)
  next
    case True
    then obtain u segs opn where u: "route ts path = Some (u, segs)" "find_operation d u meth = Some opn" by blast
    obtain m st1 where s1: "select_operation alloc d path meth ?st = Inr (opn, m, st1)" "rs_valid st1"
      using sel u by auto
    show ?thesis
    proof (cases "find_response opn (rp_status_code resp)")
      case None
      then show ?thesis using s1 u by (simp add: oas_validate_response_def response_ok_def)
    next
      case (Some def)
      then have "body_readable yy acc (cr_content def) (rp_content_type resp) (rp_body resp)"
        using r u by (auto simp: response_readable_def)
      from response_content_decides [OF this s1(2), of alloc] show ?thesis
        using s1 u Some by (auto simp: oas_validate_response_def response_ok_def)
    qed
  qed
qed

lemma matcher_of_templates:
  assumes "oas_path_matcher_create alloc arena (Some (map Some ts)) = (Some ms, arena')"
  shows "list_all2 represents ts ms"
  using matcher_create_represents [OF assms] by (simp add: list_all2_map1)

section \<open>An example\<close>

text \<open>Reading text: a quoted string without inner quotes, or one number.\<close>

definition reading_yyjson :: yyjson where
  "reading_yyjson = sample_yyjson\<lparr>yy_read := (\<lambda>t.
     if 2 \<le> length t \<and> hd t = CHR 0x22 \<and> last t = CHR 0x22 \<and> CHR 0x22 \<notin> set (butlast (tl t))
     then Some (JStr (butlast (tl t))) else if t = ''42'' then Some (JUint 42) else None)\<rparr>"

definition text_env :: "(unit, unit) compile_env" where
  "text_env = sample_env\<lparr>ce_heap := [1 \<mapsto> oas_schema_fresh\<lparr>s_type_mask := OAS_TYPE_STRING, s_min_length := 2\<rparr>]\<rparr>"

definition text_meaning ::
    "(unit, unit) oas_compiled_schema \<Rightarrow> oas_validation_direction \<Rightarrow> json \<Rightarrow> bool" where
  "text_meaning cs = accepts 1 reading_yyjson text_env (Some 1)"

definition pets_get :: "(unit, unit) oas_compiled_schema \<Rightarrow> (unit, unit) compiled_operation" where
  "pets_get cs =
     \<lparr>co_path = ''/pets/{id}'', co_method = ''GET'', co_operation_id = None, co_request_body = [],
      co_request_body_required = False,
      co_responses = [\<lparr>cr_status_code = ''2XX'', cr_content =
        [\<lparr>cm_content_type = ''text/json'', cm_schema = Some cs, cm_source_schema = None\<rparr>]\<rparr>],
      co_params =
        [\<lparr>cp_name = ''id'', cp_in = ''path'', cp_required = True, cp_schema = Some cs\<rparr>,
         \<lparr>cp_name = ''tag'', cp_in = ''query'', cp_required = True, cp_schema = Some cs\<rparr>]\<rparr>"

definition pets_doc :: "(unit, unit) oas_compiled_schema \<Rightarrow> (unit, unit) oas_compiled_doc" where
  "pets_doc cs =
     \<lparr>cd_matcher = Some sample_matcher, cd_operations = [pets_get cs], cd_all_schemas = [cs],
      cd_all_schemas_capacity = 16, cd_regex = None, cd_owns_regex = False\<rparr>"

lemma text_compiles:
  obtains cs where "oas_schema_compile 1 text_env True (Some 1) None = Some (True, cs)"
    and "compiled_from reading_yyjson cs (text_meaning cs)"
proof -
  have r: "resources text_env" by (simp add: resources_def text_env_def sample_env_def)
  have s: "supported 1 (ce_heap text_env) False (Some 1)"
    by (simp add: text_env_def supported_node_def supported_compositions_def branches_ok_def
        has_discriminator_def)
  obtain cs where "oas_schema_compile 1 text_env True (Some 1) None = Some (True, cs)"
    using compile_succeeds [OF r s] by blast
  then show thesis using that s unfolding compiled_from_def text_meaning_def by blast
qed

lemma text_meaning_str: "text_meaning cs d (JStr s) \<longleftrightarrow> 2 \<le> utf8_codepoint_count s"
  by (simp add: text_meaning_def text_env_def accepts_node_def reading_yyjson_def sample_yyjson_def
      meets_type_def effective_mask_def meets_length_def meets_pattern_def meets_format_def
      meets_numeric_def meets_array_def meets_object_def meets_dependencies_def meets_contains_def
      meets_compositions_def has_discriminator_def meets_conditionals_def meets_values_def type_bits)

lemma pets_templates: "sample_templates = map Some [''/pets/{id}'', ''/pets/mine'', ''/pets/{id}/toys/{toy}'']"
  by (simp add: sample_templates_def)

lemma pets_route:
  "route [''/pets/{id}'', ''/pets/mine'', ''/pets/{id}/toys/{toy}''] ''/pets/rex'' =
     Some (''/pets/{id}'', [''pets'', ''rex''])"
  "bound_params ''/pets/{id}'' [''pets'', ''rex''] = [\<lparr>mp_name = Some ''id'', mp_value = ''rex''\<rparr>]"
  by (simp_all add: route_def best_template_def better_template_def matches_template_def sample_segments
      is_param_segment_def split_request_path_def split_loop_segments split_segments_def strip_slash_def
      MAX_SEGMENTS_def bound_params_def)

definition pets_request :: oas_http_request where
  "pets_request = \<lparr>rq_method = Some ''get'', rq_path = Some ''/pets/rex'', rq_content_type = None, rq_body = None,
     rq_headers = None, rq_query = None, rq_query_string = Some ''tag=x&tag=yy'', rq_cookie_header = None\<rparr>"

definition pets_response :: oas_http_response where
  "pets_response = \<lparr>rp_status_code = 204, rp_content_type = Some ''text/JSON; charset=utf-8'',
     rp_body = Some [CHR 0x22, CHR ''o'', CHR ''k'', CHR 0x22]\<rparr>"

definition fresh_state :: "unit request_state" where
  "fresh_state = \<lparr>rs_valid = False, rs_errors = None, rs_arena = Some (), rs_shared = False\<rparr>"

lemma pets_operation: "find_operation (pets_doc cs) ''/pets/{id}'' ''get'' = Some (pets_get cs)"
  by (simp add: find_operation_def pets_doc_def pets_get_def strcaseeq_def ascii_lower_def char_of_def bit_Suc_0_iff)

lemma pets_values:
  "request_value pets_request bound ''query'' ''tag'' = Some ''x''"
  "request_value pets_request [\<lparr>mp_name = Some ''id'', mp_value = ''rex''\<rparr>] ''path'' ''id'' = Some ''rex''"
  "param_value reading_yyjson ''x'' = Some (JStr ''x'')" "param_value reading_yyjson ''rex'' = Some (JStr ''rex'')"
  by (simp_all add: request_value_def pets_request_def query_value_def split_segments_def query_pair_def
      percent_byte_def cstr_def find_path_param_def param_value_def reading_yyjson_def sample_yyjson_def)

lemma pets_readable:
  assumes "compiled_from reading_yyjson cs (text_meaning cs)"
  shows "request_readable reading_yyjson text_meaning [''/pets/{id}'', ''/pets/mine'', ''/pets/{id}/toys/{toy}'']
    (pets_doc cs) ''/pets/rex'' ''get'' pets_request"
  using assms
  by (auto simp: request_readable_def pets_route pets_operation operation_readable_def body_readable_def
      params_readable_def pets_values pets_get_def)
    (auto simp: pets_request_def non_empty_def)

lemma pets_response_lookup:
  "find_response (pets_get cs) (rp_status_code pets_response) = Some (hd (co_responses (pets_get cs)))"
  "find_content_type (cr_content (hd (co_responses (pets_get cs)))) (rp_content_type pets_response) =
     Some (hd (cr_content (hd (co_responses (pets_get cs)))))"
  by (simp_all add: pets_get_def pets_response_def find_response_def dec_int_def dec_nat.simps c_div_def strcaseeq_def
      ascii_lower_def find_content_type_def strncaseeq_def Let_def char_of_def bit_Suc_0_iff)

lemma pets_response_readable:
  assumes "compiled_from reading_yyjson cs (text_meaning cs)"
  shows "response_readable reading_yyjson text_meaning [''/pets/{id}'', ''/pets/mine'', ''/pets/{id}/toys/{toy}'']
    (pets_doc cs) ''/pets/rex'' ''get'' pets_response"
  using assms
  by (auto simp: response_readable_def pets_route pets_operation body_readable_def pets_response_lookup)
    (simp_all add: pets_get_def pets_response_def reading_yyjson_def sample_yyjson_def)

section \<open>Properties\<close>

text \<open>
  C7. \<open>oas_validate_request\<close> answers 0 and its verdict is what the document says of the request:
  the best template for the path has an operation of that method, a required body is there, the
  body is valid for the schema of its media type, every required header, query and cookie
  parameter has a value, and every value is valid for its parameter's schema. The hypotheses:
  memory is granted, the matcher was made from the templates, the path starts with a slash, the
  schemas in use were compiled from supported ones, and body and values can be read as JSON.
\<close>

theorem validate_request_decides:
  assumes "alloc_total alloc" and "cd_matcher d = Some ms"
    and "oas_path_matcher_create alloc0 arena0 (Some (map Some ts)) = (Some ms, arena1)"
    and "rq_method req = Some meth" and "rq_path req = Some path"
    and "path \<noteq> []" and "hd path = CHR ''/''" and "length path < 2 ^ 58"
    and "request_readable yy acc ts d path meth req" and "rs_arena st \<noteq> None"
  shows "\<exists>st'. oas_validate_request yy alloc (Some d) (Some req) (Some st) = Some (None, Some st') \<and>
    rs_valid st' = request_ok yy acc ts d path meth req"
  using request_decides [OF assms(1,2) matcher_of_templates [OF assms(3)] assms(4-10)] by blast

theorem validate_request_decides_witness:
  "\<exists>cs st'. oas_schema_compile 1 text_env True (Some 1) None = Some (True, cs) \<and>
     oas_validate_request reading_yyjson (\<lambda>a n k. (Some 8, a)) (Some (pets_doc cs)) (Some pets_request)
       (Some fresh_state) = Some (None, Some st') \<and> \<not> rs_valid st'"
proof -
  obtain cs where cs: "oas_schema_compile 1 text_env True (Some 1) None = Some (True, cs)"
    "compiled_from reading_yyjson cs (text_meaning cs)" by (rule text_compiles)
  have m: "cd_matcher (pets_doc cs) = Some sample_matcher" by (simp add: pets_doc_def)
  have r: "rq_method pets_request = Some ''get''" "rq_path pets_request = Some ''/pets/rex''"
    by (simp_all add: pets_request_def)
  have p: "''/pets/rex'' \<noteq> []" "hd ''/pets/rex'' = CHR ''/''" "length ''/pets/rex'' < 2 ^ 58" by simp_all
  have a: "rs_arena fresh_state \<noteq> None" by (simp add: fresh_state_def)
  have "\<not> request_ok reading_yyjson text_meaning [''/pets/{id}'', ''/pets/mine'', ''/pets/{id}/toys/{toy}'']
      (pets_doc cs) ''/pets/rex'' ''get'' pets_request"
    by (simp add: request_ok_def pets_route pets_operation params_ok_def param_ok_def pets_values pets_get_def
        text_meaning_str)
  then show ?thesis
    using validate_request_decides [OF sample_total m sample_matcher_create [unfolded pets_templates] r p
        pets_readable [OF cs(2)] a] cs(1) by blast
qed



text \<open>
  A parameter value that is no JSON text, and not even between double quotes (a quote or a
  backslash in it is not escaped), does not make the request invalid: the call itself gives up
  with \<open>-EINVAL\<close>.
\<close>

theorem unreadable_parameter_aborts:
  assumes "alloc_total alloc" and "param_value yy v = None" and "length v < 2 ^ 63" and "rs_arena st \<noteq> None"
  shows "\<exists>st'. validate_param_value yy alloc (Some cs) (Some v) st = Some (Some EINVAL, st') \<and> \<not> rs_valid st'"
proof -
  have "ready st" using assms(4) by (simp add: ready_def)
  then obtain a where a: "rs_get_arena st = Some a" using ready_get by blast
  obtain p a' where "alloc a (of_nat (length v + 3)) 1 = (Some p, a')"
    using granted [OF assms(1), of "length v + 3" 1 a] assms(3) by auto
  then show ?thesis using a assms(2)
    by (simp add: validate_param_value_def param_value_def oas_validate_json_def
        oas_validate_json_with_direction_def Let_def split: option.splits)
qed

theorem unreadable_parameter_aborts_witness:
  "\<exists>st'. validate_param_value reading_yyjson (\<lambda>a n k. (Some 8, a)) (Some one_check)
     (Some [CHR ''a'', CHR 0x22, CHR ''b'']) fresh_state = Some (Some EINVAL, st') \<and> \<not> rs_valid st'"
  by (rule unreadable_parameter_aborts [OF sample_total])
    (simp_all add: param_value_def reading_yyjson_def sample_yyjson_def fresh_state_def)

text \<open>
  A parameter declared as a string is refused when its text happens to be a number: the
  text is parsed as JSON first, and only what does not parse is taken as a string.
\<close>

theorem numeric_text_refused:
  assumes "yy_read yy v = Some (JUint n)"
  shows "(\<exists>st'. validate_param_value yy alloc (Some one_check) (Some v) st = Some (None, st') \<and> \<not> rs_valid st') \<and>
    (\<exists>res. oas_validate yy alloc (Some one_check) (Some (JStr v)) (Some res0) arena = Some (None, Some res) \<and>
      vr_valid res)"
  using assms
  by (auto simp: validate_param_value_def oas_validate_def oas_validate_with_direction_def one_check_def Let_def
      execute_def vm_step_def exec_check_type_def instr_def type_bits add_error_def split: option.split)

theorem numeric_text_refused_witness:
  "(\<exists>st'. validate_param_value reading_yyjson grant_all (Some one_check) (Some ''42'') fresh_state =
      Some (None, st') \<and> \<not> rs_valid st') \<and>
   (\<exists>res. oas_validate reading_yyjson grant_all (Some one_check) (Some (JStr ''42''))
      (Some \<lparr>vr_valid = False, vr_errors = None\<rparr>) None = Some (None, Some res) \<and> vr_valid res)"
  by (rule numeric_text_refused) (simp add: reading_yyjson_def sample_yyjson_def)

end
