(* ===== verification/Liboas_Doc_Compile.thy ===== *)
theory Liboas_Doc_Compile
  imports Liboas_Doc Liboas_Request_Spec
begin

text \<open>
  The document compiler (\<open>src/compiler/oas_doc_compiler.c\<close>): the path matcher and one compiled
  operation per operation of the document, with the ownership of the compiled schemas and of
  the regex backend.
\<close>

section \<open>State\<close>

text \<open>
  What a run is given: the schemas and the configuration, the fuel of one schema compilation,
  and the answers of the heap: \<open>de_calloc\<close> and the buffers of the \<open>k\<close>-th schema compilation,
  \<open>de_mem_track\<close> for the array of tracked schemas. \<open>de_arena\<close> is what \<open>oas_arena_create\<close>
  returns, \<open>de_alloc\<close> is \<open>oas_arena_alloc\<close>.
\<close>

record ('p, 'e, 'a) doc_env =
  de_fuel :: nat
  de_heap :: schema_heap
  de_config :: "'p oas_compiler_config option"
  de_report :: "'e \<Rightarrow> string \<Rightarrow> 'e"
  de_calloc :: "nat \<Rightarrow> bool"
  de_mem_code :: "nat \<Rightarrow> nat \<Rightarrow> bool"
  de_mem_patterns :: "nat \<Rightarrow> nat \<Rightarrow> bool"
  de_mem_track :: "nat \<Rightarrow> bool"
  de_alloc :: "'a allocator"
  de_arena :: "'a option"

definition env_at :: "('p, 'e, 'a) doc_env \<Rightarrow> nat \<Rightarrow> ('p, 'e) compile_env" where
  "env_at de k = \<lparr>ce_heap = de_heap de, ce_config = de_config de, ce_report = de_report de,
     ce_mem_code = de_mem_code de k, ce_mem_patterns = de_mem_patterns de k\<rparr>"

text \<open>
  The compiled document under construction, as far as the steps change it, the error list, the
  number of schema compilations so far, and \<open>dc_gone\<close>: the compiled schemas that have been
  released, in the state the release left.
\<close>

record ('p, 'e, 'a) doc_state =
  dc_arena :: 'a
  dc_errors :: "'e option"
  dc_schemas :: "('p, 'e) oas_compiled_schema list"
  dc_capacity :: nat
  dc_calls :: nat
  dc_gone :: "('p, 'e) oas_compiled_schema list"

definition OAS_SCHEMA_TRACK_INITIAL_CAP :: nat where
  "OAS_SCHEMA_TRACK_INITIAL_CAP = 16"

definition track_schema ::
    "('p, 'e, 'a) doc_env \<Rightarrow> ('p, 'e) oas_compiled_schema \<Rightarrow> ('p, 'e, 'a) doc_state
      \<Rightarrow> errno option \<times> ('p, 'e, 'a) doc_state" where
  "track_schema de cs st =
     (if dc_capacity st \<le> length (dc_schemas st)
      then let new_cap = (if dc_capacity st = 0 then OAS_SCHEMA_TRACK_INITIAL_CAP else dc_capacity st * 2)
           in if de_mem_track de new_cap
              then (None, st\<lparr>dc_schemas := dc_schemas st @ [cs], dc_capacity := new_cap\<rparr>)
              else (Some ENOMEM, st)
      else (None, st\<lparr>dc_schemas := dc_schemas st @ [cs]\<rparr>))"

text \<open>The \<open>k\<close>-th call of \<open>oas_schema_compile\<close>; \<open>None\<close> is the null pointer.\<close>

definition schema_compile ::
    "('p, 'e, 'a) doc_env \<Rightarrow> sref \<Rightarrow> ('p, 'e, 'a) doc_state
      \<Rightarrow> (('p, 'e) oas_compiled_schema option \<times> ('p, 'e, 'a) doc_state) option" where
  "schema_compile de p st = do {
     (ok, cs) \<leftarrow> oas_schema_compile (de_fuel de) (env_at de (dc_calls st)) (de_calloc de (dc_calls st))
       (Some p) (dc_errors st);
     let st = st\<lparr>dc_errors := cs_errors cs, dc_calls := Suc (dc_calls st)\<rparr>;
     Some (if ok then (Some cs, st) else (None, st\<lparr>dc_gone := cs # dc_gone st\<rparr>))
   }"

text \<open>
  The part of the loops on media types and parameters that compiles a schema and tracks it: the
  new value of \<open>ret\<close> and the compiled schema, or the code with which the loop returns at once.
\<close>

definition compile_tracked ::
    "('p, 'e, 'a) doc_env \<Rightarrow> sref \<Rightarrow> errno option \<Rightarrow> ('p, 'e, 'a) doc_state
      \<Rightarrow> ((errno + errno option \<times> ('p, 'e) oas_compiled_schema option) \<times> ('p, 'e, 'a) doc_state) option" where
  "compile_tracked de p ret st = do {
     (cs, st) \<leftarrow> schema_compile de p st;
     (case cs of
        None \<Rightarrow> Some (Inr (Some EINVAL, None), st)
      | Some cs \<Rightarrow>
          (case track_schema de cs st of
             (Some rc, st) \<Rightarrow> Some (Inl rc, st\<lparr>dc_gone := oas_compiled_schema_free cs # dc_gone st\<rparr>)
           | (None, st) \<Rightarrow> Some (Inr (ret, Some cs), st)))
   }"

section \<open>Media types, parameters, responses\<close>

text \<open>
  The code of a step, the array it stores through \<open>out\<close> and the state. Where the code is
  returned before \<open>out\<close> is written, the array is the empty list: no caller reads it then.
\<close>

type_synonym ('b, 'p, 'e, 'a) doc_step =
  "('p, 'e, 'a) doc_state \<Rightarrow> (errno option \<times> 'b list \<times> ('p, 'e, 'a) doc_state) option"

fun media_loop ::
    "('p, 'e, 'a) doc_env \<Rightarrow> oas_media_type_entry list \<Rightarrow> errno option
      \<Rightarrow> (('p, 'e) compiled_media_type, 'p, 'e, 'a) doc_step" where
  "media_loop de [] ret st = Some (ret, [], st)"
| "media_loop de (e # es) ret st =
     (case Option.bind (me_value e) mt_schema of
        None \<Rightarrow> media_loop de es ret st
      | Some p \<Rightarrow> do {
          (r, st) \<leftarrow> compile_tracked de p ret st;
          (case r of
             Inl rc \<Rightarrow> Some (Some rc, [], st)
           | Inr (ret, None) \<Rightarrow> media_loop de es ret st
           | Inr (ret, Some cs) \<Rightarrow> do {
               (rc, ms, st) \<leftarrow> media_loop de es ret st;
               Some (rc, \<lparr>cm_content_type = me_key e, cm_schema = Some cs, cm_source_schema = Some p\<rparr> # ms, st)
             })
        })"

definition with_array ::
    "('p, 'e, 'a) doc_env \<Rightarrow> nat \<Rightarrow> nat \<Rightarrow> ('b, 'p, 'e, 'a) doc_step \<Rightarrow> ('b, 'p, 'e, 'a) doc_step" where
  "with_array de n sz f st =
     (if n = 0 then Some (None, [], st)
      else
        (case de_alloc de (dc_arena st) (of_nat n * of_nat sz) 8 of
           (None, a) \<Rightarrow> Some (Some ENOMEM, [], st\<lparr>dc_arena := a\<rparr>)
         | (Some _, a) \<Rightarrow> f (st\<lparr>dc_arena := a\<rparr>)))"

definition compile_media_types ::
    "('p, 'e, 'a) doc_env \<Rightarrow> oas_media_type_entry list \<Rightarrow> (('p, 'e) compiled_media_type, 'p, 'e, 'a) doc_step" where
  "compile_media_types de entries = with_array de (length entries) 24 (media_loop de entries None)"

fun params_compile_loop ::
    "('p, 'e, 'a) doc_env \<Rightarrow> oas_parameter option list \<Rightarrow> errno option
      \<Rightarrow> (('p, 'e) compiled_param, 'p, 'e, 'a) doc_step" where
  "params_compile_loop de [] ret st = Some (ret, [], st)"
| "params_compile_loop de (x # xs) ret st =
     (case x of
        None \<Rightarrow> params_compile_loop de xs ret st
      | Some prm \<Rightarrow>
          (case pa_schema prm of
             None \<Rightarrow> params_compile_loop de xs ret st
           | Some p \<Rightarrow> do {
               (r, st) \<leftarrow> compile_tracked de p ret st;
               (case r of
                  Inl rc \<Rightarrow> Some (Some rc, [], st)
                | Inr (ret, None) \<Rightarrow> params_compile_loop de xs ret st
                | Inr (ret, Some cs) \<Rightarrow> do {
                    nm \<leftarrow> pa_name prm;
                    kind \<leftarrow> pa_in prm;
                    (rc, ps, st) \<leftarrow> params_compile_loop de xs ret st;
                    Some (rc, \<lparr>cp_name = nm, cp_in = kind, cp_required = pa_required prm,
                               cp_schema = Some cs\<rparr> # ps, st)
                  })
             }))"

definition compile_params ::
    "('p, 'e, 'a) doc_env \<Rightarrow> oas_parameter option list \<Rightarrow> (('p, 'e) compiled_param, 'p, 'e, 'a) doc_step" where
  "compile_params de parameters = with_array de (length parameters) 32 (params_compile_loop de parameters None)"

fun responses_loop ::
    "('p, 'e, 'a) doc_env \<Rightarrow> oas_response_entry list \<Rightarrow> errno option
      \<Rightarrow> (('p, 'e) compiled_response, 'p, 'e, 'a) doc_step" where
  "responses_loop de [] ret st = Some (ret, [], st)"
| "responses_loop de (e # es) ret st =
     (case rn_response e of
        None \<Rightarrow> responses_loop de es ret st
      | Some r \<Rightarrow> do {
          (rc, ms, st) \<leftarrow> compile_media_types de (re_content r) st;
          if rc = Some ENOMEM then Some (rc, [], st)
          else do {
            (rc, rs, st) \<leftarrow> responses_loop de es (if rc \<noteq> None then rc else ret) st;
            Some (rc, \<lparr>cr_status_code = rn_status_code e, cr_content = ms\<rparr> # rs, st)
          }
        })"

definition compile_responses ::
    "('p, 'e, 'a) doc_env \<Rightarrow> oas_response_entry list \<Rightarrow> (('p, 'e) compiled_response, 'p, 'e, 'a) doc_step" where
  "compile_responses de entries = with_array de (length entries) 24 (responses_loop de entries None)"

section \<open>Operations\<close>

definition compile_operation ::
    "('p, 'e, 'a) doc_env \<Rightarrow> string \<Rightarrow> string \<Rightarrow> oas_operation \<Rightarrow> (('p, 'e) compiled_operation, 'p, 'e, 'a) doc_step" where
  "compile_operation de path method opn st = do {
     (rc1, body, st) \<leftarrow> (case op_request_body opn of
                          None \<Rightarrow> Some (None, [], st)
                        | Some b \<Rightarrow> compile_media_types de (rb_content b) st);
     if rc1 = Some ENOMEM then Some (rc1, [], st)
     else do {
       (rc2, resps, st) \<leftarrow> compile_responses de (op_responses opn) st;
       if rc2 = Some ENOMEM then Some (rc2, [], st)
       else do {
         (rc3, ps, st) \<leftarrow> compile_params de (op_parameters opn) st;
         if rc3 = Some ENOMEM then Some (rc3, [], st)
         else Some (if rc3 \<noteq> None then rc3 else if rc2 \<noteq> None then rc2 else rc1,
           [\<lparr>co_path = path, co_method = method, co_operation_id = op_operation_id opn,
             co_request_body = body,
             co_request_body_required = (case op_request_body opn of None \<Rightarrow> False | Some b \<Rightarrow> rb_required b),
             co_responses = resps, co_params = ps\<rparr>], st)
       }
     }
   }"

text \<open>The \<open>methods\<close> table of a path item, and its entries that are there.\<close>

definition item_methods :: "oas_path_item \<Rightarrow> (string \<times> oas_operation option) list" where
  "item_methods item =
     [(''GET'', pi_get item), (''POST'', pi_post item), (''PUT'', pi_put item), (''DELETE'', pi_delete item),
      (''PATCH'', pi_patch item), (''HEAD'', pi_head item), (''OPTIONS'', pi_options item)]"

definition doc_operations :: "oas_doc \<Rightarrow> (string \<times> string \<times> oas_operation) list" where
  "doc_operations doc =
     concat (map (\<lambda>e. case pe_item e of
         None \<Rightarrow> []
       | Some item \<Rightarrow> List.map_filter (\<lambda>(m, x). map_option (\<lambda>opn. (pe_path e, m, opn)) x) (item_methods item))
       (d_paths doc))"

definition count_operations :: "oas_doc \<Rightarrow> nat" where
  "count_operations doc =
     fold (\<lambda>e total. case pe_item e of
         None \<Rightarrow> total
       | Some item \<Rightarrow>
           fold (\<lambda>x total. if x \<noteq> None then total + 1 else total)
             [pi_get item, pi_post item, pi_put item, pi_delete item, pi_patch item, pi_head item, pi_options item]
             total)
       (d_paths doc) 0"

text \<open>The nested loops over paths and methods, with \<open>compile_err\<close>.\<close>

fun operations_loop ::
    "('p, 'e, 'a) doc_env \<Rightarrow> (string \<times> string \<times> oas_operation) list \<Rightarrow> errno option
      \<Rightarrow> (('p, 'e) compiled_operation, 'p, 'e, 'a) doc_step" where
  "operations_loop de [] compile_err st = Some (compile_err, [], st)"
| "operations_loop de ((path, method, opn) # ops) compile_err st = do {
     (rc, out, st) \<leftarrow> compile_operation de path method opn st;
     if rc = Some ENOMEM then Some (rc, [], st)
     else do {
       (rc, outs, st) \<leftarrow> operations_loop de ops (if rc \<noteq> None then rc else compile_err) st;
       Some (rc, out @ outs, st)
     }
   }"

section \<open>The interface\<close>

text \<open>
  What a release leaves: the compiled schemas released so far, how often the backend's
  \<open>destroy\<close> was called, how often the document's arena was destroyed, and the number of schema
  compilations there were.
\<close>

record ('p, 'e) doc_release =
  dl_schemas :: "('p, 'e) oas_compiled_schema list"
  dl_regex :: nat
  dl_arena :: nat
  dl_calls :: nat

definition oas_compiled_doc_free ::
    "('p, 'e) oas_compiled_doc option \<Rightarrow> ('p, 'e) doc_release \<Rightarrow> ('p, 'e) doc_release" where
  "oas_compiled_doc_free compiled r =
     (case compiled of
        None \<Rightarrow> r
      | Some c \<Rightarrow>
          r\<lparr>dl_schemas := rev (map oas_compiled_schema_free (cd_all_schemas c)) @ dl_schemas r,
            dl_regex := (if cd_regex c \<noteq> None \<and> cd_owns_regex c then Suc (dl_regex r) else dl_regex r),
            dl_arena := Suc (dl_arena r)\<rparr>)"

text \<open>The matcher: null without paths; the outer \<open>None\<close> is a failure.\<close>

definition build_matcher ::
    "('p, 'e, 'a) doc_env \<Rightarrow> oas_doc \<Rightarrow> 'a \<Rightarrow> path_template list option option \<times> 'a" where
  "build_matcher de doc a =
     (if d_paths doc = [] then (Some None, a)
      else
        (case de_alloc de a (of_nat (length (d_paths doc)) * 8) 8 of
           (None, a) \<Rightarrow> (None, a)
         | (Some _, a) \<Rightarrow>
             (case oas_path_matcher_create (de_alloc de) (Some a) (Some (map (\<lambda>e. Some (pe_path e)) (d_paths doc))) of
                (None, a') \<Rightarrow> (None, the a')
              | (Some ms, a') \<Rightarrow> (Some (Some ms), the a'))))"

text \<open>The array of operations, with one slot per operation counted.\<close>

definition operations_array :: "('p, 'e, 'a) doc_env \<Rightarrow> oas_doc \<Rightarrow> 'a \<Rightarrow> bool \<times> 'a" where
  "operations_array de doc a =
     (if count_operations doc = 0 then (True, a)
      else case de_alloc de a (of_nat (count_operations doc) * 80) 8 of (p, a) \<Rightarrow> (p \<noteq> None, a))"

definition owned_backend :: "('p, 'e, 'a) doc_env \<Rightarrow> 'p oas_regex_backend option" where
  "owned_backend de = Option.bind (de_config de) cc_regex"

text \<open>
  The body of \<open>oas_doc_compile\<close> after the document's structure is allocated: the code with which
  it goes to \<open>fail\<close>, the compiled document as it is then, and the state.
\<close>

definition doc_compile_body ::
    "('p, 'e, 'a) doc_env \<Rightarrow> oas_doc \<Rightarrow> ('p, 'e, 'a) doc_state
      \<Rightarrow> (bool \<times> ('p, 'e) oas_compiled_doc \<times> ('p, 'e, 'a) doc_state) option" where
  "doc_compile_body de doc st =
     (let finish = (\<lambda>ok m ops st.
        Some (ok,
         \<lparr>cd_matcher = m, cd_operations = ops, cd_all_schemas = dc_schemas st,
          cd_all_schemas_capacity = dc_capacity st, cd_regex = owned_backend de,
          cd_owns_regex = (owned_backend de \<noteq> None \<and> \<not> cc_borrow_regex (the (de_config de)))\<rparr>, st))
      in (case build_matcher de doc (dc_arena st) of
            (None, a) \<Rightarrow> finish False None [] (st\<lparr>dc_arena := a\<rparr>)
          | (Some m, a) \<Rightarrow>
              (case operations_array de doc a of
                 (False, a) \<Rightarrow> finish False m [] (st\<lparr>dc_arena := a\<rparr>)
               | (True, a) \<Rightarrow> do {
                   (rc, ops, st) \<leftarrow> operations_loop de (doc_operations doc) None (st\<lparr>dc_arena := a\<rparr>);
                   finish (rc = None) m ops st
                 })))"

text \<open>
  The compiled document with what has been released and the error list. A null document, or an
  arena that cannot give the structure, ends the call before the backend is taken over.
\<close>

definition oas_doc_compile ::
    "('p, 'e, 'a) doc_env \<Rightarrow> oas_doc option \<Rightarrow> 'e option
      \<Rightarrow> (('p, 'e) oas_compiled_doc option \<times> ('p, 'e) doc_release \<times> 'e option) option" where
  "oas_doc_compile de doc errors =
     (let none = \<lparr>dl_schemas = [], dl_regex = 0, dl_arena = 0, dl_calls = 0\<rparr> in
      case (doc, de_arena de) of
        (Some d, Some a) \<Rightarrow>
          (case de_alloc de a 72 8 of
             (None, a) \<Rightarrow> Some (None, none\<lparr>dl_arena := 1\<rparr>, errors)
           | (Some _, a) \<Rightarrow> do {
               (ok, cdoc, st) \<leftarrow> doc_compile_body de d
                 \<lparr>dc_arena = a, dc_errors = errors, dc_schemas = [], dc_capacity = 0, dc_calls = 0, dc_gone = []\<rparr>;
               let r = none\<lparr>dl_schemas := dc_gone st, dl_calls := dc_calls st\<rparr>;
               Some (if ok then (Some cdoc, r, dc_errors st)
                     else (None, oas_compiled_doc_free (Some cdoc) r, dc_errors st))
             })
      | _ \<Rightarrow> Some (None, none, errors))"

end
