(* ===== verification/Liboas_Document.thy ===== *)
theory Liboas_Document
  imports Liboas_Doc_Compile
begin

text \<open>
  What compiling a document gives: every schema compiled along the way is released once, the
  operations are those of the document, and a request validated against the compiled document
  is judged by the document itself.
\<close>

section \<open>Counting\<close>

lemma count_methods:
  "fold (\<lambda>x total. if x \<noteq> None then total + 1 else total) xs t = t + length (filter (\<lambda>x. x \<noteq> None) xs)"
  by (induction xs arbitrary: t) simp_all

lemma map_filter_present:
  "length (List.map_filter (\<lambda>(m, x). map_option (g m) x) xs) = length (filter (\<lambda>x. x \<noteq> None) (map snd xs))"
  by (induction xs) (auto simp: List.map_filter_simps split: option.split)

lemma fold_count_concat:
  fixes t :: nat
  assumes "\<And>e i t. h i t = t + length (k e i)"
  shows "fold (\<lambda>e t. case g e of None \<Rightarrow> t | Some i \<Rightarrow> h i t) es t =
    t + length (concat (map (\<lambda>e. case g e of None \<Rightarrow> [] | Some i \<Rightarrow> k e i) es))"
  by (induction es arbitrary: t) (simp_all add: assms split: option.split)

lemma count_item:
  "fold (\<lambda>x total. if x \<noteq> None then total + 1 else total)
     [pi_get i, pi_post i, pi_put i, pi_delete i, pi_patch i, pi_head i, pi_options i] t =
   t + length (List.map_filter (\<lambda>(m, x). map_option (\<lambda>opn. (p, m, opn)) x) (item_methods i))"
  unfolding count_methods map_filter_present by (simp only: item_methods_def list.map snd_conv)

lemma count_doc_operations: "count_operations doc = length (doc_operations doc)"
  unfolding count_operations_def doc_operations_def
  by (subst fold_count_concat [OF count_item]) (rule add_0)

section \<open>Invariants of a run\<close>

text \<open>What a call that comes back satisfies.\<close>

definition post :: "('x \<Rightarrow> bool) \<Rightarrow> 'x option \<Rightarrow> bool" where
  "post P m \<longleftrightarrow> (\<forall>x. m = Some x \<longrightarrow> P x)"

lemma post_simps [simp]:
  "post P None" "post P (Some x) = P x"
  by (auto simp: post_def)

lemma post_bind: "post P m \<Longrightarrow> (\<And>x. P x \<Longrightarrow> post Q (f x)) \<Longrightarrow> post Q (Option.bind m f)"
  by (auto simp: post_def bind_eq_Some_conv)

lemma post_mono: "post P m \<Longrightarrow> (\<And>x. P x \<Longrightarrow> Q x) \<Longrightarrow> post Q m"
  unfolding post_def by blast

lemma post_option:
  fixes m :: "string option"
  shows "(\<And>x. m = Some x \<Longrightarrow> post Q (f x)) \<Longrightarrow> post Q (Option.bind m f)"
  by (cases m) simp_all

lemma postD: "post P m \<Longrightarrow> m = Some x \<Longrightarrow> P x"
  unfolding post_def by blast

text \<open>
  A property of the state that the arena does not matter to and that compiling and tracking one
  schema keeps is kept by every step of the document compiler.
\<close>

locale doc_invariant =
  fixes de :: "('p, 'e, 'a) doc_env" and I :: "('p, 'e, 'a) doc_state \<Rightarrow> bool"
  assumes arena: "I st \<Longrightarrow> I (st\<lparr>dc_arena := a\<rparr>)"
    and tracked: "I st \<Longrightarrow> post (\<lambda>(r, st'). I st') (compile_tracked de p ret st)"
begin

abbreviation kept :: "(errno option \<times> 'b list \<times> ('p, 'e, 'a) doc_state) option \<Rightarrow> bool" where
  "kept m \<equiv> post (\<lambda>(rc, out, st'). I st') m"

lemma kept_then: "kept m \<Longrightarrow> (\<And>rc out st. I st \<Longrightarrow> post Q (f (rc, out, st))) \<Longrightarrow> post Q (Option.bind m f)"
  by (erule post_bind) auto

lemma tracked_then:
  "I st \<Longrightarrow> (\<And>r st. I st \<Longrightarrow> post Q (f (r, st))) \<Longrightarrow> post Q (Option.bind (compile_tracked de p ret st) f)"
  by (rule post_bind [OF tracked]) auto

lemma kept_media_loop: "I st \<Longrightarrow> kept (media_loop de es ret st)"
proof (induction es arbitrary: ret st)
  case (Cons e es)
  show ?case
    by (auto simp: Cons.prems split: option.split sum.split intro!: tracked_then kept_then Cons.IH)
qed simp

lemma kept_with_array: "I st \<Longrightarrow> (\<And>st. I st \<Longrightarrow> kept (f st)) \<Longrightarrow> kept (with_array de n sz f st)"
  by (auto simp: with_array_def arena split: prod.split option.split)

lemma kept_media_types: "I st \<Longrightarrow> kept (compile_media_types de es st)"
  unfolding compile_media_types_def by (intro kept_with_array kept_media_loop)

lemma kept_params_loop: "I st \<Longrightarrow> kept (params_compile_loop de xs ret st)"
proof (induction xs arbitrary: ret st)
  case (Cons x xs)
  show ?case
    by (auto simp: Cons.prems split: option.split sum.split
        intro!: tracked_then kept_then Cons.IH post_option)
qed simp

lemma kept_params: "I st \<Longrightarrow> kept (compile_params de xs st)"
  unfolding compile_params_def by (intro kept_with_array kept_params_loop)

lemma kept_responses_loop: "I st \<Longrightarrow> kept (responses_loop de es ret st)"
proof (induction es arbitrary: ret st)
  case (Cons e es)
  show ?case
    by (auto simp: Cons.prems split: option.split intro!: kept_then kept_media_types Cons.IH)
qed simp

lemma kept_responses: "I st \<Longrightarrow> kept (compile_responses de es st)"
  unfolding compile_responses_def by (intro kept_with_array kept_responses_loop)

lemma kept_operation:
  assumes "I st"
  shows "kept (compile_operation de path meth opn st)"
proof -
  have b: "kept (case op_request_body opn of None \<Rightarrow> Some (None, [], st)
      | Some b \<Rightarrow> compile_media_types de (rb_content b) st)"
    using assms by (simp add: kept_media_types split: option.split)
  show ?thesis
    by (auto simp: compile_operation_def intro!: kept_then [OF b] kept_then kept_responses kept_params)
qed

lemma kept_operations_loop: "I st \<Longrightarrow> kept (operations_loop de ops ret st)"
proof (induction ops arbitrary: ret st)
  case (Cons x ops)
  obtain path meth opn where x: "x = (path, meth, opn)" by (cases x) auto
  show ?case
    by (auto simp: x Cons.prems intro!: kept_then kept_operation Cons.IH)
qed simp

lemma kept_body:
  assumes "I st"
  shows "post (\<lambda>(ok, cdoc, st'). I st' \<and> cd_all_schemas cdoc = dc_schemas st') (doc_compile_body de doc st)"
  using assms
  by (auto simp: doc_compile_body_def Let_def arena split: prod.split option.split bool.split
      intro!: kept_then kept_operations_loop)

end

section \<open>Ownership\<close>

lemma schema_compile_owned:
  assumes "oas_schema_compile n env ok (Some p) errors = Some (b, cs)"
  shows "if b then pattern_inv cs else all_compiled cs = all_freed cs"
proof (cases ok)
  case False
  then show ?thesis using assms
    by (auto simp: oas_schema_compile_def oas_compiled_schema_init_def all_compiled_def all_freed_def Let_def)
next
  case True
  then obtain rc m where m: "run_steps [compile_schema n env (Some p), emit_simple env OAS_OP_END]
      (oas_compiled_schema_init env errors) = Some (rc, m)"
    and r: "(b, cs) = (if rc = None then (True, m) else (False, oas_compiled_schema_free m))"
    using assms by (auto simp: oas_schema_compile_def Let_def bind_eq_Some_conv)
  show ?thesis
    using compile_pattern_inv [OF m] free_releases [OF compile_pattern_inv [OF m]] r by (auto split: if_splits)
qed

text \<open>Every compiled schema is tracked or released, and no pattern of a released one is left.\<close>

definition schemas_owned :: "('p, 'e, 'a) doc_state \<Rightarrow> bool" where
  "schemas_owned st \<longleftrightarrow>
     dc_calls st = length (dc_schemas st) + length (dc_gone st) \<and>
     (\<forall>cs \<in> set (dc_schemas st). pattern_inv cs) \<and>
     (\<forall>cs \<in> set (dc_gone st). all_compiled cs = all_freed cs)"

lemma track_schema_owned:
  assumes "schemas_owned st" and "pattern_inv cs"
  shows "case track_schema de cs (st\<lparr>dc_errors := e, dc_calls := Suc (dc_calls st)\<rparr>) of
      (Some rc, st') \<Rightarrow> schemas_owned (st'\<lparr>dc_gone := oas_compiled_schema_free cs # dc_gone st'\<rparr>)
    | (None, st') \<Rightarrow> schemas_owned st'"
  using assms free_releases [OF assms(2)] by (auto simp: track_schema_def schemas_owned_def Let_def)

lemma schema_compile_post:
  assumes "schemas_owned st"
  shows "post (\<lambda>(x, st'). case x of None \<Rightarrow> schemas_owned st'
      | Some cs \<Rightarrow> pattern_inv cs \<and> (\<exists>e. st' = st\<lparr>dc_errors := e, dc_calls := Suc (dc_calls st)\<rparr>))
    (schema_compile de p st)"
proof -
  let ?run = "oas_schema_compile (de_fuel de) (env_at de (dc_calls st)) (de_calloc de (dc_calls st))
    (Some p) (dc_errors st)"
  have "post (\<lambda>(b, cs). if b then pattern_inv cs else all_compiled cs = all_freed cs) ?run"
    using schema_compile_owned by (fastforce simp: post_def)
  then show ?thesis unfolding schema_compile_def
    by (rule post_bind) (use assms in \<open>auto simp: Let_def schemas_owned_def\<close>)
qed

interpretation ownership: doc_invariant de schemas_owned for de :: "('p, 'e, 'a) doc_env"
proof unfold_locales
  fix st :: "('p, 'e, 'a) doc_state" and a
  assume "schemas_owned st"
  then show "schemas_owned (st\<lparr>dc_arena := a\<rparr>)" by (simp add: schemas_owned_def)
next
  fix st :: "('p, 'e, 'a) doc_state" and p ret
  assume st: "schemas_owned st"
  show "post (\<lambda>(r, st'). schemas_owned st') (compile_tracked de p ret st)"
    unfolding compile_tracked_def
  proof (rule post_bind [OF schema_compile_post [OF st]])
    fix x :: "('p, 'e) oas_compiled_schema option \<times> ('p, 'e, 'a) doc_state"
    assume x: "case x of (x, st') \<Rightarrow> (case x of None \<Rightarrow> schemas_owned st'
      | Some cs \<Rightarrow> pattern_inv cs \<and> (\<exists>e. st' = st\<lparr>dc_errors := e, dc_calls := Suc (dc_calls st)\<rparr>))"
    show "post (\<lambda>(r, st'). schemas_owned st') (case x of (None, st) \<Rightarrow> Some (Inr (Some EINVAL, None), st)
      | (Some cs, st) \<Rightarrow> (case track_schema de cs st of
          (Some rc, st) \<Rightarrow> Some (Inl rc, st\<lparr>dc_gone := oas_compiled_schema_free cs # dc_gone st\<rparr>)
        | (None, st) \<Rightarrow> Some (Inr (ret, Some cs), st)))"
      using x track_schema_owned [OF st, of _ de]
      by (fastforce split: prod.split option.split prod.splits option.splits)
  qed
qed

section \<open>The compiled operations\<close>

text \<open>
  The media types and parameters that have a schema, and when a compiled one belongs to its
  source: same names and flags, and a program compiled from the source's schema.
\<close>

definition compiles ::
    "('p, 'e, 'a) doc_env \<Rightarrow> sref \<Rightarrow> ('p, 'e) oas_compiled_schema option \<Rightarrow> bool" where
  "compiles de p x \<longleftrightarrow> (\<exists>k ok errors cs. x = Some cs \<and>
     oas_schema_compile (de_fuel de) (env_at de k) ok (Some p) errors = Some (True, cs))"

definition media_sources :: "oas_media_type_entry list \<Rightarrow> (string \<times> sref) list" where
  "media_sources es =
     List.map_filter (\<lambda>e. map_option (Pair (me_key e)) (Option.bind (me_value e) mt_schema)) es"

definition media_of ::
    "('p, 'e, 'a) doc_env \<Rightarrow> string \<times> sref \<Rightarrow> ('p, 'e) compiled_media_type \<Rightarrow> bool" where
  "media_of de s m \<longleftrightarrow> cm_content_type m = fst s \<and> cm_source_schema m = Some (snd s) \<and>
     compiles de (snd s) (cm_schema m)"

definition param_sources :: "oas_parameter option list \<Rightarrow> oas_parameter list" where
  "param_sources xs = filter (\<lambda>p. pa_schema p \<noteq> None) (List.map_filter id xs)"

definition param_of :: "('p, 'e, 'a) doc_env \<Rightarrow> oas_parameter \<Rightarrow> ('p, 'e) compiled_param \<Rightarrow> bool" where
  "param_of de s p \<longleftrightarrow> Some (cp_name p) = pa_name s \<and> Some (cp_in p) = pa_in s \<and> cp_required p = pa_required s \<and>
     compiles de (the (pa_schema s)) (cp_schema p)"

definition response_sources :: "oas_response_entry list \<Rightarrow> (string \<times> oas_response) list" where
  "response_sources es = List.map_filter (\<lambda>e. map_option (Pair (rn_status_code e)) (rn_response e)) es"

definition response_of ::
    "('p, 'e, 'a) doc_env \<Rightarrow> string \<times> oas_response \<Rightarrow> ('p, 'e) compiled_response \<Rightarrow> bool" where
  "response_of de s r \<longleftrightarrow> cr_status_code r = fst s \<and>
     list_all2 (media_of de) (media_sources (re_content (snd s))) (cr_content r)"

definition body_sources :: "oas_operation \<Rightarrow> (string \<times> sref) list" where
  "body_sources opn = (case op_request_body opn of None \<Rightarrow> [] | Some b \<Rightarrow> media_sources (rb_content b))"

definition body_required :: "oas_operation \<Rightarrow> bool" where
  "body_required opn = (case op_request_body opn of None \<Rightarrow> False | Some b \<Rightarrow> rb_required b)"

definition operation_of ::
    "('p, 'e, 'a) doc_env \<Rightarrow> string \<times> string \<times> oas_operation \<Rightarrow> ('p, 'e) compiled_operation \<Rightarrow> bool" where
  "operation_of de s c \<longleftrightarrow>
     (case s of (path, meth, opn) \<Rightarrow>
        co_path c = path \<and> co_method c = meth \<and> co_operation_id c = op_operation_id opn \<and>
        co_request_body_required c = body_required opn \<and>
        list_all2 (media_of de) (body_sources opn) (co_request_body c) \<and>
        list_all2 (response_of de) (response_sources (op_responses opn)) (co_responses c) \<and>
        list_all2 (param_of de) (param_sources (op_parameters opn)) (co_params c))"

text \<open>A step that compiles a list of sources: with code 0 there was no error, and all of it is there.\<close>

abbreviation delivers where
  "delivers R xs ret \<equiv> post (\<lambda>(rc, out, st). rc = None \<longrightarrow> ret = None \<and> list_all2 R xs out)"

lemma schema_compile_compiles:
  "post (\<lambda>(x, st'). x \<noteq> None \<longrightarrow> compiles de p x) (schema_compile de p st)"
  unfolding schema_compile_def compiles_def post_def
  by (auto simp: bind_eq_Some_conv Let_def split: if_splits)

lemma tracked_compiles:
  "post (\<lambda>(r, st'). case r of Inl rc \<Rightarrow> True | Inr (ret', x) \<Rightarrow>
      (if x = None then ret' = Some EINVAL else ret' = ret \<and> compiles de p x)) (compile_tracked de p ret st)"
  unfolding compile_tracked_def
  by (rule post_bind [OF schema_compile_compiles]) (auto split: option.split prod.split)

lemma tracked_delivers:
  assumes loop: "\<And>ret st. delivers R xs ret (loop ret st)"
    and mk: "\<And>cs. compiles de p (Some cs) \<Longrightarrow> R s (mk cs)"
  shows "delivers R (s # xs) ret (do {
      (r, st) \<leftarrow> compile_tracked de p ret st;
      (case r of
         Inl rc \<Rightarrow> Some (Some rc, [], st)
       | Inr (ret, None) \<Rightarrow> loop ret st
       | Inr (ret, Some cs) \<Rightarrow> do {
           (rc, out, st) \<leftarrow> loop ret st;
           Some (rc, mk cs # out, st)
         })
    })"
  by (rule post_bind [OF tracked_compiles])
    (auto split: sum.split option.split intro!: post_bind [OF loop] post_mono [OF loop] simp: mk)

lemma delivers_array:
  assumes "xs = [] \<longrightarrow> ys = []" and "\<And>st. delivers R ys None (f st)"
  shows "delivers R ys None (with_array de (length xs) sz f st)"
  using assms by (auto simp: with_array_def split: prod.split option.split)

lemma media_sources_simps [simp]:
  "media_sources [] = []"
  "media_sources (e # es) = (case Option.bind (me_value e) mt_schema of None \<Rightarrow> media_sources es
     | Some p \<Rightarrow> (me_key e, p) # media_sources es)"
  by (simp_all add: media_sources_def List.map_filter_simps split: option.split)

lemma param_sources_simps [simp]:
  "param_sources [] = []"
  "param_sources (x # xs) = (case x of None \<Rightarrow> param_sources xs
     | Some p \<Rightarrow> if pa_schema p = None then param_sources xs else p # param_sources xs)"
  by (simp_all add: param_sources_def List.map_filter_simps split: option.split)

lemma response_sources_simps [simp]:
  "response_sources [] = []"
  "response_sources (e # es) = (case rn_response e of None \<Rightarrow> response_sources es
     | Some r \<Rightarrow> (rn_status_code e, r) # response_sources es)"
  by (simp_all add: response_sources_def List.map_filter_simps split: option.split)

lemma delivers_media_loop: "delivers (media_of de) (media_sources es) ret (media_loop de es ret st)"
proof (induction es arbitrary: ret st)
  case (Cons e es)
  show ?case
  proof (cases "Option.bind (me_value e) mt_schema")
    case (Some p)
    show ?thesis unfolding media_loop.simps media_sources_simps Some option.case
      by (rule tracked_delivers [OF Cons]) (simp add: media_of_def)
  qed (simp add: Cons)
qed simp

lemma delivers_media: "delivers (media_of de) (media_sources es) None (compile_media_types de es st)"
  unfolding compile_media_types_def by (rule delivers_array) (simp, rule delivers_media_loop)

lemma delivers_params_loop: "delivers (param_of de) (param_sources xs) ret (params_compile_loop de xs ret st)"
proof (induction xs arbitrary: ret st)
  case (Cons x xs)
  show ?case
  proof (cases "\<exists>prm p. x = Some prm \<and> pa_schema prm = Some p")
    case True
    then obtain prm p where p: "x = Some prm" "pa_schema prm = Some p" by blast
    have ne: "(Some p = None) = False" by simp
    have mk: "param_of de prm \<lparr>cp_name = nm, cp_in = kind, cp_required = pa_required prm, cp_schema = Some cs\<rparr>"
      if "pa_name prm = Some nm" "pa_in prm = Some kind" "compiles de p (Some cs)" for nm kind cs
      using that by (simp add: param_of_def p)
    show ?thesis unfolding params_compile_loop.simps param_sources_simps p option.case ne if_False
      by (rule post_bind [OF tracked_compiles])
        (auto split: sum.split option.split intro!: post_option post_bind [OF Cons] post_mono [OF Cons] simp: mk)
  qed (auto simp: Cons split: option.split)
qed simp

lemma delivers_params: "delivers (param_of de) (param_sources xs) None (compile_params de xs st)"
  unfolding compile_params_def by (rule delivers_array) (simp, rule delivers_params_loop)

lemma delivers_responses_loop:
  "delivers (response_of de) (response_sources es) ret (responses_loop de es ret st)"
proof (induction es arbitrary: ret st)
  case (Cons e es)
  have r: "response_of de (k, r) \<lparr>cr_status_code = k, cr_content = ms\<rparr>"
    if "list_all2 (media_of de) (media_sources (re_content r)) ms" for k r ms
    using that by (simp add: response_of_def)
  show ?case
    by (auto split: option.split intro!: post_bind [OF delivers_media] post_bind [OF Cons] post_mono [OF Cons] r)
qed simp

lemma delivers_responses: "delivers (response_of de) (response_sources es) None (compile_responses de es st)"
  unfolding compile_responses_def by (rule delivers_array) (simp, rule delivers_responses_loop)

lemma delivers_operation:
  "delivers (operation_of de) [(path, meth, opn)] None (compile_operation de path meth opn st)"
proof -
  have b: "delivers (media_of de) (body_sources opn) None (case op_request_body opn of None \<Rightarrow> Some (None, [], st)
      | Some b \<Rightarrow> compile_media_types de (rb_content b) st)"
    using delivers_media by (auto simp: body_sources_def split: option.split)
  show ?thesis unfolding compile_operation_def
    by (rule post_bind [OF b])
      (auto intro!: post_bind [OF delivers_responses] post_bind [OF delivers_params]
        simp: operation_of_def body_required_def split: if_splits)
qed

lemma delivers_operations: "delivers (operation_of de) ops ret (operations_loop de ops ret st)"
proof (induction ops arbitrary: ret st)
  case (Cons x ops)
  obtain path meth opn where x: "x = (path, meth, opn)" by (cases x) auto
  show ?case unfolding x operations_loop.simps
    by (rule post_bind [OF delivers_operation])
      (auto intro!: post_bind [OF Cons] split: if_splits simp: list_all2_Cons1)
qed simp

lemma matcher_built:
  assumes "build_matcher de doc a = (Some m, a')"
  shows "case m of None \<Rightarrow> d_paths doc = [] | Some ms \<Rightarrow> list_all2 represents (map pe_path (d_paths doc)) ms"
proof -
  have e: "map (\<lambda>e. Some (pe_path e)) (d_paths doc) = map Some (map pe_path (d_paths doc))" by simp
  show ?thesis
  proof (cases m)
    case None
    then show ?thesis using assms
      by (auto simp: build_matcher_def split: if_splits option.splits prod.splits)
  next
    case (Some ms)
    obtain a1 a2 where "oas_path_matcher_create (de_alloc de) (Some a1) (Some (map Some (map pe_path (d_paths doc)))) =
        (Some ms, a2)"
      using assms Some unfolding build_matcher_def e
      by (auto split: if_splits option.splits prod.splits)
    then show ?thesis using Some matcher_of_templates by fastforce
  qed
qed

lemma body_operations:
  "post (\<lambda>(ok, cdoc, st'). ok \<longrightarrow> list_all2 (operation_of de) (doc_operations doc) (cd_operations cdoc) \<and>
      (case cd_matcher cdoc of None \<Rightarrow> d_paths doc = []
       | Some ms \<Rightarrow> list_all2 represents (map pe_path (d_paths doc)) ms))
    (doc_compile_body de doc st)"
  by (auto simp: doc_compile_body_def Let_def split: prod.split option.split bool.split
      intro!: post_bind [OF delivers_operations] dest: matcher_built)

lemma doc_compile_parts:
  assumes "oas_doc_compile de (Some doc) errors = Some (Some cdoc, rel, es)"
  shows "list_all2 (operation_of de) (doc_operations doc) (cd_operations cdoc)"
    and "case cd_matcher cdoc of None \<Rightarrow> d_paths doc = []
      | Some ms \<Rightarrow> list_all2 represents (map pe_path (d_paths doc)) ms"
proof -
  obtain st ok cdoc' st' where "doc_compile_body de doc st = Some (ok, cdoc', st')" "ok" "cdoc' = cdoc"
    using assms by (auto simp: oas_doc_compile_def bind_eq_Some_conv Let_def split: option.splits prod.splits if_splits)
  then have "list_all2 (operation_of de) (doc_operations doc) (cd_operations cdoc) \<and>
    (case cd_matcher cdoc of None \<Rightarrow> d_paths doc = []
      | Some ms \<Rightarrow> list_all2 represents (map pe_path (d_paths doc)) ms)"
    using postD [OF body_operations] by fastforce
  then show "list_all2 (operation_of de) (doc_operations doc) (cd_operations cdoc)"
    and "case cd_matcher cdoc of None \<Rightarrow> d_paths doc = []
      | Some ms \<Rightarrow> list_all2 represents (map pe_path (d_paths doc)) ms" by simp_all
qed

section \<open>What a compiled schema means\<close>

lemma accepts_env:
  assumes "ce_heap env = ce_heap env'" and "ce_config env = ce_config env'"
  shows "accepts n yy env x = accepts n yy env' x"
proof (induction n arbitrary: x)
  case (Suc n)
  have r: "accepts n yy env = accepts n yy env'" by (rule ext) (rule Suc.IH)
  have "accepts_node yy env rec s d v = accepts_node yy env' rec s d v" for rec s d v
    unfolding accepts_node_def meets_format_def assms ..
  then have "accepts_node yy env rec s = accepts_node yy env' rec s" for rec s by (intro ext)
  then show ?case by (simp add: r assms split: option.split)
qed simp

text \<open>The verdict read off a run; it is the schema's meaning whatever schema it was compiled from.\<close>

definition compiled_meaning ::
    "yyjson \<Rightarrow> ('p, 'c) oas_compiled_schema \<Rightarrow> oas_validation_direction \<Rightarrow> json \<Rightarrow> bool" where
  "compiled_meaning yy cs d v =
     (case oas_validate_with_direction yy (\<lambda>a n k. (None, a)) (Some cs) (Some v) d
         (Some \<lparr>vr_valid = False, vr_errors = None\<rparr>) (None :: unit option) of
        Some (_, Some r) \<Rightarrow> vr_valid r | _ \<Rightarrow> False)"

lemma compiled_meaning_eq:
  assumes "compiled_from yy cs acc"
  shows "compiled_meaning yy cs = acc"
proof (intro ext)
  fix d v
  obtain es where "oas_validate_with_direction yy (\<lambda>a n k. (None, a)) (Some cs) (Some v) d
      (Some \<lparr>vr_valid = False, vr_errors = None\<rparr>) (None :: unit option) =
    Some (None, Some \<lparr>vr_valid = acc d v, vr_errors = es\<rparr>)" by (rule compiled_from_verdict [OF assms])
  then show "compiled_meaning yy cs d v = acc d v" by (simp add: compiled_meaning_def)
qed

definition schema_meaning ::
    "yyjson \<Rightarrow> ('p, 'e, 'a) doc_env \<Rightarrow> sref \<Rightarrow> oas_validation_direction \<Rightarrow> json \<Rightarrow> bool" where
  "schema_meaning yy de p = accepts (de_fuel de) yy (env_at de 0) (Some p)"

lemma compiles_meaning:
  assumes "compiles de p x" and "supported (de_fuel de) (de_heap de) False (Some p)"
  obtains cs where "x = Some cs" and "compiled_from yy cs (compiled_meaning yy cs)"
    and "compiled_meaning yy cs = schema_meaning yy de p"
proof -
  obtain k ok errors cs where x: "x = Some cs"
    and c: "oas_schema_compile (de_fuel de) (env_at de k) ok (Some p) errors = Some (True, cs)"
    using assms(1) by (auto simp: compiles_def)
  have h: "ce_heap (env_at de k) = de_heap de" by (simp add: env_at_def)
  have "compiled_from yy cs (accepts (de_fuel de) yy (env_at de k) (Some p))"
    unfolding compiled_from_def using c assms(2) h by metis
  moreover have "accepts (de_fuel de) yy (env_at de k) (Some p) = schema_meaning yy de p"
    unfolding schema_meaning_def by (rule accepts_env) (simp_all add: env_at_def)
  ultimately show thesis using that x compiled_meaning_eq by metis
qed

section \<open>What a document says of a request\<close>

text \<open>The media type chosen among the sources: the code's choice, which looks at the names only.\<close>

definition find_source :: "(string \<times> sref) list \<Rightarrow> string option \<Rightarrow> sref option" where
  "find_source sources content_type =
     Option.bind (find_content_type
         (map (\<lambda>(k, p). \<lparr>cm_content_type = k, cm_schema = None :: (unit, unit) oas_compiled_schema option,
            cm_source_schema = Some p\<rparr>) sources) content_type)
       cm_source_schema"

definition source_body_ok ::
    "yyjson \<Rightarrow> ('p, 'e, 'a) doc_env \<Rightarrow> (string \<times> sref) list \<Rightarrow> string option \<Rightarrow> string option \<Rightarrow> bool" where
  "source_body_ok yy de sources content_type body \<longleftrightarrow>
     non_empty body \<and> sources \<noteq> [] \<longrightarrow>
     (case find_source sources content_type of
        None \<Rightarrow> False
      | Some p \<Rightarrow> schema_meaning yy de p OAS_DIR_REQUEST (the (yy_read yy (the body))))"

definition source_param_ok ::
    "yyjson \<Rightarrow> ('p, 'e, 'a) doc_env \<Rightarrow> string option \<Rightarrow> oas_parameter \<Rightarrow> bool" where
  "source_param_ok yy de value p =
     (case value of
        None \<Rightarrow> \<not> (pa_in p \<noteq> Some ''path'' \<and> pa_required p)
      | Some v \<Rightarrow> schema_meaning yy de (the (pa_schema p)) OAS_DIR_NONE (the (param_value yy v)))"

definition find_source_operation ::
    "oas_doc \<Rightarrow> string \<Rightarrow> string \<Rightarrow> (string \<times> string \<times> oas_operation) option" where
  "find_source_operation doc t meth =
     find (\<lambda>(p, m, opn). p = t \<and> strcaseeq m meth) (doc_operations doc)"

definition doc_paths :: "oas_doc \<Rightarrow> string list" where
  "doc_paths doc = map pe_path (d_paths doc)"

definition document_accepts ::
    "yyjson \<Rightarrow> ('p, 'e, 'a) doc_env \<Rightarrow> oas_doc \<Rightarrow> string \<Rightarrow> string \<Rightarrow> oas_http_request \<Rightarrow> bool" where
  "document_accepts yy de doc path meth req =
     (case route (doc_paths doc) path of
        None \<Rightarrow> False
      | Some (t, segs) \<Rightarrow>
          (case find_source_operation doc t meth of
             None \<Rightarrow> False
           | Some (_, _, opn) \<Rightarrow>
               (body_required opn \<longrightarrow> non_empty (rq_body req)) \<and>
               source_body_ok yy de (body_sources opn) (rq_content_type req) (rq_body req) \<and>
               list_all (\<lambda>p. pa_in p \<in> Some ` {''header'', ''query'', ''path'', ''cookie''} \<longrightarrow>
                   source_param_ok yy de (request_value req (bound_params t segs) (the (pa_in p)) (the (pa_name p))) p)
                 (param_sources (op_parameters opn))))"

text \<open>
  The operation's schemas are of the supported kind, its body and parameters can be read, and
  the raw query and cookie strings are not longer than any buffer.
\<close>

definition operation_usable ::
    "yyjson \<Rightarrow> ('p, 'e, 'a) doc_env \<Rightarrow> oas_path_param list \<Rightarrow> oas_operation \<Rightarrow> oas_http_request \<Rightarrow> bool" where
  "operation_usable yy de bound opn req \<longleftrightarrow>
     (\<forall>p \<in> snd ` set (body_sources opn) \<union> (the \<circ> pa_schema) ` set (param_sources (op_parameters opn)).
        supported (de_fuel de) (de_heap de) False (Some p)) \<and>
     (\<forall>p. non_empty (rq_body req) \<and> find_source (body_sources opn) (rq_content_type req) = Some p \<longrightarrow>
        yy_read yy (the (rq_body req)) \<noteq> None) \<and>
     (\<forall>p \<in> set (param_sources (op_parameters opn)). \<forall>v.
        request_value req bound (the (pa_in p)) (the (pa_name p)) = Some v \<longrightarrow> param_value yy v \<noteq> None \<and> length v < 2 ^ 63) \<and>
     (\<forall>q. rq_query_string req = Some q \<longrightarrow> length q < 2 ^ 59) \<and>
     (\<forall>h. rq_cookie_header req = Some h \<longrightarrow> length h < 2 ^ 59)"

definition document_usable ::
    "yyjson \<Rightarrow> ('p, 'e, 'a) doc_env \<Rightarrow> oas_doc \<Rightarrow> string \<Rightarrow> string \<Rightarrow> oas_http_request \<Rightarrow> bool" where
  "document_usable yy de doc path meth req \<longleftrightarrow>
     (\<forall>t segs p m opn. route (doc_paths doc) path = Some (t, segs) \<and>
        find_source_operation doc t meth = Some (p, m, opn) \<longrightarrow>
        operation_usable yy de (bound_params t segs) opn req)"

section \<open>The compiled document against its source\<close>

lemma find_related:
  assumes "list_all2 R xs ys" and "\<And>x y. R x y \<Longrightarrow> P x = Q y"
  shows "rel_option R (find P xs) (find Q ys)"
  using assms by (induction rule: list_all2_induct) auto

lemma content_type_related:
  assumes "list_all2 R xs ys" and "\<And>x y. R x y \<Longrightarrow> cm_content_type x = cm_content_type y"
  shows "rel_option R (find_content_type xs ct) (find_content_type ys ct)"
proof (cases ct)
  case None
  then show ?thesis by (simp add: find_content_type_def)
next
  case (Some c)
  let ?exact = "\<lambda>m. strcaseeq (cm_content_type m) c"
  let ?n = "length (takeWhile (\<lambda>c. c \<noteq> CHR '';'') c)"
  let ?base = "\<lambda>m. strncaseeq ?n (cm_content_type m) c \<and> length (cm_content_type m) = ?n"
  have "rel_option R (find ?exact xs) (find ?exact ys)" "rel_option R (find ?base xs) (find ?base ys)"
    using assms by (auto intro!: find_related)
  then show ?thesis using Some
    by (auto simp: find_content_type_def Let_def option.rel_sel split: option.split)
qed

lemma media_chosen:
  assumes "list_all2 (media_of de) sources ms"
  shows "case find_source sources ct of None \<Rightarrow> find_content_type ms ct = None
    | Some p \<Rightarrow> \<exists>m k. find_content_type ms ct = Some m \<and> media_of de (k, p) m \<and> (k, p) \<in> set sources"
proof -
  let ?mk = "\<lambda>(k, p). \<lparr>cm_content_type = k, cm_schema = None :: (unit, unit) oas_compiled_schema option,
    cm_source_schema = Some p\<rparr>"
  let ?R = "\<lambda>x m. \<exists>s. x = ?mk s \<and> media_of de s m \<and> s \<in> set sources"
  have "list_all2 (\<lambda>s m. media_of de s m \<and> s \<in> set sources) sources ms"
    using assms by (auto simp: list_all2_conv_all_nth)
  then have "list_all2 ?R (map ?mk sources) ms"
    unfolding list_all2_map1 by (rule list_all2_mono) blast
  then have "rel_option ?R (find_content_type (map ?mk sources) ct) (find_content_type ms ct)"
    by (rule content_type_related) (auto simp: media_of_def)
  then show ?thesis
    by (cases rule: option.rel_cases) (auto simp: find_source_def)
qed

lemma operation_chosen:
  assumes "list_all2 (operation_of de) (doc_operations doc) (cd_operations cdoc)"
  shows "rel_option (operation_of de) (find_source_operation doc t meth) (find_operation cdoc t meth)"
  unfolding find_source_operation_def find_operation_def
  using assms by (rule find_related) (auto simp: operation_of_def)

lemma body_judged:
  assumes ms: "list_all2 (media_of de) sources ms"
    and sup: "\<forall>p \<in> snd ` set sources. supported (de_fuel de) (de_heap de) False (Some p)"
  shows "body_ok yy (compiled_meaning yy) OAS_DIR_REQUEST ms ct body = source_body_ok yy de sources ct body"
    and "(\<forall>p. non_empty body \<and> find_source sources ct = Some p \<longrightarrow> yy_read yy (the body) \<noteq> None) \<Longrightarrow>
      body_readable yy (compiled_meaning yy) ms ct body"
proof -
  have e: "ms = [] \<longleftrightarrow> sources = []" using ms by auto
  show "body_ok yy (compiled_meaning yy) OAS_DIR_REQUEST ms ct body = source_body_ok yy de sources ct body"
    and "(\<forall>p. non_empty body \<and> find_source sources ct = Some p \<longrightarrow> yy_read yy (the body) \<noteq> None) \<Longrightarrow>
      body_readable yy (compiled_meaning yy) ms ct body"
  proof (atomize (full), cases "find_source sources ct")
    case None
    then show "body_ok yy (compiled_meaning yy) OAS_DIR_REQUEST ms ct body = source_body_ok yy de sources ct body \<and>
      ((\<forall>p. non_empty body \<and> find_source sources ct = Some p \<longrightarrow> yy_read yy (the body) \<noteq> None) \<longrightarrow>
        body_readable yy (compiled_meaning yy) ms ct body)"
      using media_chosen [OF ms, of ct] e by (simp add: body_ok_def source_body_ok_def body_readable_def)
  next
    case (Some p)
    then obtain m k where m: "find_content_type ms ct = Some m" "media_of de (k, p) m" "(k, p) \<in> set sources"
      using media_chosen [OF ms, of ct] by auto
    then have "supported (de_fuel de) (de_heap de) False (Some p)" using sup by force
    then obtain cs where "cm_schema m = Some cs" "compiled_from yy cs (compiled_meaning yy cs)"
      "compiled_meaning yy cs = schema_meaning yy de p"
      using compiles_meaning [of de p "cm_schema m" yy] m(2) by (auto simp: media_of_def)
    then show "body_ok yy (compiled_meaning yy) OAS_DIR_REQUEST ms ct body = source_body_ok yy de sources ct body \<and>
      ((\<forall>p. non_empty body \<and> find_source sources ct = Some p \<longrightarrow> yy_read yy (the body) \<noteq> None) \<longrightarrow>
        body_readable yy (compiled_meaning yy) ms ct body)"
      using Some m(1) e by (simp add: body_ok_def source_body_ok_def body_readable_def)
  qed
qed

lemma params_judged:
  assumes ps: "list_all2 (param_of de) sources ps"
    and sup: "\<forall>p \<in> (the \<circ> pa_schema) ` set sources. supported (de_fuel de) (de_heap de) False (Some p)"
  shows "params_ok yy (compiled_meaning yy) req bound ps =
    list_all (\<lambda>p. pa_in p \<in> Some ` {''header'', ''query'', ''path'', ''cookie''} \<longrightarrow>
      source_param_ok yy de (request_value req bound (the (pa_in p)) (the (pa_name p))) p) sources"
  using ps sup
proof (induction rule: list_all2_induct)
  case (Cons s sources p ps)
  then obtain cs where cs: "cp_schema p = Some cs" "compiled_meaning yy cs = schema_meaning yy de (the (pa_schema s))"
    using compiles_meaning [of de "the (pa_schema s)" "cp_schema p" yy] by (auto simp: param_of_def)
  have p: "pa_name s = Some (cp_name p)" "pa_in s = Some (cp_in p)" "cp_required p = pa_required s"
    using Cons.hyps by (simp_all add: param_of_def)
  have "param_ok yy (compiled_meaning yy) (cp_in p \<noteq> ''path'') (request_value req bound (cp_in p) (cp_name p)) p =
      source_param_ok yy de (request_value req bound (the (pa_in s)) (the (pa_name s))) s"
    unfolding param_ok_def source_param_ok_def p cs option.case option.sel option.inject ..
  moreover have "params_ok yy (compiled_meaning yy) req bound ps =
      list_all (\<lambda>p. pa_in p \<in> Some ` {''header'', ''query'', ''path'', ''cookie''} \<longrightarrow>
        source_param_ok yy de (request_value req bound (the (pa_in p)) (the (pa_name p))) p) sources"
    using Cons by simp
  ultimately show ?case unfolding params_ok_def list.pred_inject p
    by (simp only: image_insert image_empty insert_iff empty_iff option.inject option.sel)
qed (simp add: params_ok_def)

lemma params_usable:
  assumes ps: "list_all2 (param_of de) sources ps"
    and sup: "\<forall>p \<in> (the \<circ> pa_schema) ` set sources. supported (de_fuel de) (de_heap de) False (Some p)"
    and vals: "\<forall>p \<in> set sources. \<forall>v. request_value req bound (the (pa_in p)) (the (pa_name p)) = Some v \<longrightarrow>
      param_value yy v \<noteq> None \<and> length v < 2 ^ 63"
  shows "params_readable yy (compiled_meaning yy) kind (request_value req bound kind) ps"
  unfolding params_readable_def
proof (intro ballI allI impI)
  fix p v cs
  assume p: "p \<in> set ps" and v: "cp_in p = kind \<and> request_value req bound kind (cp_name p) = Some v \<and> cp_schema p = Some cs"
  then obtain i where i: "i < length ps" "ps ! i = p" by (meson in_set_conv_nth)
  let ?s = "sources ! i"
  have s: "param_of de ?s p" "?s \<in> set sources"
    using list_all2_nthD2 [OF ps i(1)] i list_all2_lengthD [OF ps] by auto
  have c: "compiles de (the (pa_schema ?s)) (cp_schema p)" using s(1) by (simp add: param_of_def)
  have "supported (de_fuel de) (de_heap de) False (Some (the (pa_schema ?s)))" using sup s(2) by simp
  then obtain cs' where "cp_schema p = Some cs'" "compiled_from yy cs' (compiled_meaning yy cs')"
    by (rule compiles_meaning [OF c])
  then have "compiled_from yy cs (compiled_meaning yy cs)" using v by simp
  moreover have "request_value req bound (the (pa_in ?s)) (the (pa_name ?s)) = Some v"
    using s(1) v unfolding param_of_def by (metis option.sel)
  then have "param_value yy v \<noteq> None \<and> length v < 2 ^ 63" using vals s(2) by blast
  ultimately show "compiled_from yy cs (compiled_meaning yy cs) \<and> param_value yy v \<noteq> None \<and> length v < 2 ^ 63"
    by blast
qed

lemma operation_judged:
  assumes c: "operation_of de (t, m, opn) cop" and u: "operation_usable yy de bound opn req"
  shows "operation_readable yy (compiled_meaning yy) req bound cop"
    and "body_ok yy (compiled_meaning yy) OAS_DIR_REQUEST (co_request_body cop) (rq_content_type req) (rq_body req) =
      source_body_ok yy de (body_sources opn) (rq_content_type req) (rq_body req)"
    and "params_ok yy (compiled_meaning yy) req bound (co_params cop) =
      list_all (\<lambda>p. pa_in p \<in> Some ` {''header'', ''query'', ''path'', ''cookie''} \<longrightarrow>
          source_param_ok yy de (request_value req bound (the (pa_in p)) (the (pa_name p))) p) (param_sources (op_parameters opn))"
proof -
  have parts: "list_all2 (media_of de) (body_sources opn) (co_request_body cop)"
    "list_all2 (param_of de) (param_sources (op_parameters opn)) (co_params cop)"
    using c by (simp_all add: operation_of_def)
  have sup: "\<forall>p \<in> snd ` set (body_sources opn). supported (de_fuel de) (de_heap de) False (Some p)"
    "\<forall>p \<in> (the \<circ> pa_schema) ` set (param_sources (op_parameters opn)). supported (de_fuel de) (de_heap de) False (Some p)"
    using u unfolding operation_usable_def by blast+
  show "operation_readable yy (compiled_meaning yy) req bound cop"
    unfolding operation_readable_def
  proof (intro conjI allI)
    show "body_readable yy (compiled_meaning yy) (co_request_body cop) (rq_content_type req) (rq_body req)"
      by (rule body_judged(2) [OF parts(1) sup(1)]) (use u in \<open>simp add: operation_usable_def\<close>)
    show "params_readable yy (compiled_meaning yy) kind (request_value req bound kind) (co_params cop)" for kind
      by (rule params_usable [OF parts(2) sup(2)]) (use u in \<open>simp add: operation_usable_def\<close>)
  qed (use u in \<open>simp_all add: operation_usable_def\<close>)
  show "body_ok yy (compiled_meaning yy) OAS_DIR_REQUEST (co_request_body cop) (rq_content_type req) (rq_body req) =
      source_body_ok yy de (body_sources opn) (rq_content_type req) (rq_body req)"
    by (rule body_judged(1) [OF parts(1) sup(1)])
  show "params_ok yy (compiled_meaning yy) req bound (co_params cop) =
      list_all (\<lambda>p. pa_in p \<in> Some ` {''header'', ''query'', ''path'', ''cookie''} \<longrightarrow>
          source_param_ok yy de (request_value req bound (the (pa_in p)) (the (pa_name p))) p) (param_sources (op_parameters opn))"
    by (rule params_judged [OF parts(2) sup(2)])
qed

lemma document_judged:
  assumes ops: "list_all2 (operation_of de) (doc_operations doc) (cd_operations cdoc)"
    and u: "document_usable yy de doc path meth req"
  shows "request_readable yy (compiled_meaning yy) (doc_paths doc) cdoc path meth req"
    and "request_ok yy (compiled_meaning yy) (doc_paths doc) cdoc path meth req = document_accepts yy de doc path meth req"
proof -
  have judged: "operation_readable yy (compiled_meaning yy) req (bound_params t segs) cop"
    "\<exists>p m opn. find_source_operation doc t meth = Some (p, m, opn) \<and> operation_of de (p, m, opn) cop \<and>
      operation_usable yy de (bound_params t segs) opn req"
    if r1: "route (doc_paths doc) path = Some (t, segs)" and r2: "find_operation cdoc t meth = Some cop" for t segs cop
  proof -
    obtain x where x: "find_source_operation doc t meth = Some x" "operation_of de x cop"
      using operation_chosen [OF ops, of t meth] r2 by (auto elim: option.rel_cases)
    obtain p m opn where px: "x = (p, m, opn)" by (cases x) auto
    have us: "operation_usable yy de (bound_params t segs) opn req"
      using u r1 x(1) px by (simp add: document_usable_def)
    show "operation_readable yy (compiled_meaning yy) req (bound_params t segs) cop"
      using operation_judged(1) x(2) px us by blast
    show "\<exists>p m opn. find_source_operation doc t meth = Some (p, m, opn) \<and> operation_of de (p, m, opn) cop \<and>
      operation_usable yy de (bound_params t segs) opn req" using x px us by blast
  qed
  then show "request_readable yy (compiled_meaning yy) (doc_paths doc) cdoc path meth req"
    by (simp add: request_readable_def)
  show "request_ok yy (compiled_meaning yy) (doc_paths doc) cdoc path meth req = document_accepts yy de doc path meth req"
  proof (cases "route (doc_paths doc) path")
    case None
    then show ?thesis by (simp add: request_ok_def document_accepts_def)
  next
    case (Some x)
    obtain t segs where x: "x = (t, segs)" by fastforce
    show ?thesis
    proof (cases "find_operation cdoc t meth")
      case None
      then have "find_source_operation doc t meth = None"
        using operation_chosen [OF ops, of t meth] by simp
      then show ?thesis using Some x None by (simp add: request_ok_def document_accepts_def)
    next
      case c: (Some cop)
      then obtain p m opn where s: "find_source_operation doc t meth = Some (p, m, opn)"
        "operation_of de (p, m, opn) cop" "operation_usable yy de (bound_params t segs) opn req"
        using judged(2) Some x by blast
      have "co_request_body_required cop = body_required opn" using s(2) by (simp add: operation_of_def)
      then show ?thesis
        using Some x c s(1) operation_judged(2,3) [OF s(2,3)] by (simp add: request_ok_def document_accepts_def)
    qed
  qed
qed

lemma request_without_paths:
  assumes "cd_matcher d = None" and "rq_method req = Some meth" and "rq_path req = Some path" and "ready st"
  shows "\<exists>st'. oas_validate_request yy alloc (Some d) (Some req) (Some st) = Some (None, Some st') \<and> ready st' \<and>
    \<not> rs_valid st'"
  using assms by (simp add: oas_validate_request_def select_operation_def)

lemma route_nothing: "route [] path = None"
  by (simp add: route_def best_template_def split: option.split)

text \<open>The whole call, with the arena still there afterwards.\<close>

lemma document_request:
  assumes "oas_doc_compile de (Some doc) errors = Some (Some cdoc, rel, es)"
    and "document_usable yy de doc path meth req" and "alloc_total alloc"
    and "rq_method req = Some meth" and "rq_path req = Some path"
    and "path \<noteq> []" and "hd path = CHR ''/''" and "length path < 2 ^ 58" and "rs_arena st \<noteq> None"
  shows "\<exists>st'. oas_validate_request yy alloc (Some cdoc) (Some req) (Some st) = Some (None, Some st') \<and> ready st' \<and>
    rs_valid st' = document_accepts yy de doc path meth req"
proof (cases "cd_matcher cdoc")
  case None
  then have "doc_paths doc = []" using doc_compile_parts(2) [OF assms(1)] by (simp add: doc_paths_def)
  then have "\<not> document_accepts yy de doc path meth req" by (simp add: document_accepts_def route_nothing)
  then show ?thesis using request_without_paths [OF None assms(4,5)] assms(9) by (metis ready_def)
next
  case (Some ms)
  then have "list_all2 represents (doc_paths doc) ms"
    using doc_compile_parts(2) [OF assms(1)] by (simp add: doc_paths_def)
  from request_decides [OF assms(3) Some this assms(4-8) _ assms(9)] show ?thesis
    using document_judged [OF doc_compile_parts(1) [OF assms(1)] assms(2)] by metis
qed

section \<open>An example\<close>

definition pets_env :: "(unit, unit, unit) doc_env" where
  "pets_env = \<lparr>de_fuel = 1, de_heap = ce_heap text_env, de_config = None, de_report = (\<lambda>e m. e),
     de_calloc = (\<lambda>k. True), de_mem_code = (\<lambda>k n. True), de_mem_patterns = (\<lambda>k n. True),
     de_mem_track = (\<lambda>n. True), de_alloc = (\<lambda>a n k. (Some 8, a)), de_arena = Some ()\<rparr>"

definition pets_operation_source :: oas_operation where
  "pets_operation_source =
     \<lparr>op_operation_id = Some ''getPet'', op_summary = None, op_description = None, op_tags = [],
      op_parameters = [Some \<lparr>pa_name = Some ''id'', pa_in = Some ''path'', pa_description = None, pa_required = True,
        pa_deprecated = False, pa_schema = Some 1\<rparr>, None],
      op_request_body = None,
      op_responses = [\<lparr>rn_status_code = ''200'', rn_response = None\<rparr>],
      op_security = [], op_deprecated = False\<rparr>"

definition pets_source :: oas_doc where
  "pets_source =
     \<lparr>d_openapi = Some ''3.2.0'', d_info = None, d_servers = [],
      d_paths = [\<lparr>pe_path = ''/pets/{id}'', pe_item = Some
        \<lparr>pi_path = None, pi_get = Some pets_operation_source, pi_post = None, pi_put = None, pi_delete = None,
         pi_patch = None, pi_head = None, pi_options = None, pi_parameters = []\<rparr>\<rparr>],
      d_components = None, d_security = [], d_tags = [], d_json_doc = None\<rparr>"

lemma pets_source_operations: "doc_operations pets_source = [(''/pets/{id}'', ''GET'', pets_operation_source)]"
  by (simp add: doc_operations_def pets_source_def item_methods_def List.map_filter_simps)

lemma pets_source_params:
  "map pa_name (param_sources (op_parameters pets_operation_source)) = [Some ''id'']"
  "param_sources (op_parameters pets_operation_source) =
     [\<lparr>pa_name = Some ''id'', pa_in = Some ''path'', pa_description = None, pa_required = True, pa_deprecated = False, pa_schema = Some 1\<rparr>]"
  "body_sources pets_operation_source = []" "body_required pets_operation_source = False"
  by (simp_all add: pets_operation_source_def body_sources_def body_required_def)

lemma pets_supported: "supported (de_fuel pets_env) (de_heap pets_env) False (Some 1)"
  by (simp add: pets_env_def text_env_def supported_node_def supported_compositions_def branches_ok_def
      has_discriminator_def)

lemma pets_matcher: "\<exists>ms. build_matcher pets_env pets_source () = (Some (Some ms), ())"
  by (simp add: build_matcher_def pets_env_def pets_source_def oas_path_matcher_create_def parse_template_def
      count_segments_def strip_slash_def parse_segments.simps parse_segment_def is_param_segment_def Let_def)

lemma pets_compiles:
  "\<exists>cdoc rel es. oas_doc_compile pets_env (Some pets_source) None = Some (Some cdoc, rel, es) \<and>
     length (cd_operations cdoc) = 1"
proof -
  have r: "resources (env_at pets_env 0)" by (simp add: resources_def env_at_def pets_env_def)
  have "supported 1 (ce_heap (env_at pets_env 0)) False (Some 1)"
    using pets_supported by (simp add: env_at_def pets_env_def)
  then obtain cs where cs: "oas_schema_compile 1 (env_at pets_env 0) True (Some 1) None = Some (True, cs)"
    using compile_succeeds [OF r] by blast
  obtain ms where ms: "build_matcher pets_env pets_source () = (Some (Some ms), ())" using pets_matcher by blast
  have p: "de_fuel pets_env = 1" "de_calloc pets_env k" "de_mem_track pets_env k"
    "de_alloc pets_env () n al = (Some 8, ())" "de_arena pets_env = Some ()" for k n al
    by (simp_all add: pets_env_def)
  have n: "count_operations pets_source = 1"
    by (simp add: count_doc_operations pets_source_operations)
  show ?thesis
    by (simp add: oas_doc_compile_def doc_compile_body_def operations_array_def p n ms pets_source_operations
        compile_operation_def pets_operation_source_def compile_responses_def compile_params_def with_array_def
        compile_tracked_def schema_compile_def cs [unfolded One_nat_def] track_schema_def OAS_SCHEMA_TRACK_INITIAL_CAP_def Let_def)
qed

lemma pets_routed:
  "doc_paths pets_source = [''/pets/{id}'']"
  "route [''/pets/{id}''] ''/pets/rex'' = Some (''/pets/{id}'', [''pets'', ''rex''])"
  "find_source_operation pets_source ''/pets/{id}'' ''get'' = Some (''/pets/{id}'', ''GET'', pets_operation_source)"
proof -
  show "doc_paths pets_source = [''/pets/{id}'']" by (simp add: doc_paths_def pets_source_def)
  show "route [''/pets/{id}''] ''/pets/rex'' = Some (''/pets/{id}'', [''pets'', ''rex''])"
    by (simp add: route_def best_template_def better_template_def matches_template_def sample_segments
        is_param_segment_def split_request_path_def split_loop_segments split_segments_def strip_slash_def
        MAX_SEGMENTS_def)
  show "find_source_operation pets_source ''/pets/{id}'' ''get'' =
      Some (''/pets/{id}'', ''GET'', pets_operation_source)"
    by (simp add: find_source_operation_def pets_source_operations strcaseeq_def ascii_lower_def char_of_def bit_Suc_0_iff)
qed

lemma pets_judged:
  "document_usable reading_yyjson pets_env pets_source ''/pets/rex'' ''get'' pets_request"
  "document_accepts reading_yyjson pets_env pets_source ''/pets/rex'' ''get'' pets_request"
  "rq_method pets_request = Some ''get''" "rq_path pets_request = Some ''/pets/rex''" "rq_body pets_request = None"
  "''/pets/rex'' \<noteq> []" "hd ''/pets/rex'' = CHR ''/''" "length ''/pets/rex'' < 2 ^ 58" "rs_arena fresh_state \<noteq> None"
proof -
  note paths = pets_routed(1) and route = pets_routed(2) and find = pets_routed(3)
  have meaning: "schema_meaning reading_yyjson pets_env 1 d v = text_meaning one_check d v" for d v
    unfolding schema_meaning_def text_meaning_def
    using accepts_env [of "env_at pets_env 0" text_env 1 reading_yyjson "Some 1"]
    by (simp add: env_at_def pets_env_def text_env_def sample_env_def)
  show "document_usable reading_yyjson pets_env pets_source ''/pets/rex'' ''get'' pets_request"
    using pets_supported pets_values(2)
    by (auto simp: document_usable_def paths route find operation_usable_def pets_source_params pets_route(2)
        find_source_def find_content_type_def pets_values pets_request_def non_empty_def split: option.splits)
  show "document_accepts reading_yyjson pets_env pets_source ''/pets/rex'' ''get'' pets_request"
    by (simp add: document_accepts_def paths route find pets_source_params source_body_ok_def source_param_ok_def
        pets_route(2) pets_values meaning text_meaning_str)
qed (simp_all add: pets_request_def fresh_state_def)

text \<open>What the compiler and the release of its result give back.\<close>

lemma compiled_doc_released:
  assumes "oas_doc_compile de doc errors = Some (r, rel, es)"
  shows "let rel' = oas_compiled_doc_free r rel;
             taken = (doc \<noteq> None \<and> (\<exists>a p a'. de_arena de = Some a \<and> de_alloc de a 72 8 = (Some p, a')))
         in length (dl_schemas rel') = dl_calls rel' \<and>
            (\<forall>cs \<in> set (dl_schemas rel'). all_compiled cs = all_freed cs) \<and>
            dl_arena rel' = (if doc \<noteq> None \<and> de_arena de \<noteq> None then 1 else 0) \<and>
            dl_regex rel' =
              (if taken \<and> owned_backend de \<noteq> None \<and> \<not> cc_borrow_regex (the (de_config de)) then 1 else 0)"
proof (cases "\<exists>d a p a'. doc = Some d \<and> de_arena de = Some a \<and> de_alloc de a 72 8 = (Some p, a')")
  case False
  then show ?thesis using assms
    by (auto simp: oas_doc_compile_def oas_compiled_doc_free_def Let_def split: option.splits prod.splits)
next
  case True
  then obtain d a p a' where d: "doc = Some d" "de_arena de = Some a" "de_alloc de a 72 8 = (Some p, a')" by blast
  let ?st = "\<lparr>dc_arena = a', dc_errors = errors, dc_schemas = [], dc_capacity = 0, dc_calls = 0, dc_gone = []\<rparr>"
  obtain ok cdoc st where b: "doc_compile_body de d ?st = Some (ok, cdoc, st)"
    and r: "(r, rel) = (let rl = \<lparr>dl_schemas = dc_gone st, dl_regex = 0, dl_arena = 0, dl_calls = dc_calls st\<rparr>
      in if ok then (Some cdoc, rl) else (None, oas_compiled_doc_free (Some cdoc) rl))"
    using assms d by (auto simp: oas_doc_compile_def bind_eq_Some_conv Let_def split: if_splits)
  have "schemas_owned ?st" by (simp add: schemas_owned_def)
  from postD [OF ownership.kept_body [OF this] b] have o: "schemas_owned st" "cd_all_schemas cdoc = dc_schemas st"
    by simp_all
  have x: "cd_regex cdoc = owned_backend de"
    "cd_owns_regex cdoc \<longleftrightarrow> owned_backend de \<noteq> None \<and> \<not> cc_borrow_regex (the (de_config de))"
    using b by (auto simp: doc_compile_body_def Let_def bind_eq_Some_conv split: prod.splits option.splits bool.splits)
  have rel': "oas_compiled_doc_free r rel = oas_compiled_doc_free (Some cdoc)
      \<lparr>dl_schemas = dc_gone st, dl_regex = 0, dl_arena = 0, dl_calls = dc_calls st\<rparr>"
    using r by (auto simp: Let_def oas_compiled_doc_free_def split: if_splits)
  have "\<forall>cs \<in> set (dc_schemas st). all_compiled (oas_compiled_schema_free cs) = all_freed (oas_compiled_schema_free cs)"
    using o(1) free_releases by (auto simp: schemas_owned_def)
  then show ?thesis unfolding Let_def rel'
    using o x d by (auto simp: oas_compiled_doc_free_def schemas_owned_def)
qed

section \<open>Properties\<close>



text \<open>
  C13. The compiled operations are the document's, in its order: for every method of every path
  item one entry with the same path, method, identifier and flags, and for every media type,
  response and parameter of it that is there (and has a schema) one compiled entry with a
  program compiled from that schema. The array allocated for them is exactly filled.
\<close>

theorem doc_compile_operations:
  assumes "oas_doc_compile de (Some doc) errors = Some (Some cdoc, rel, es)"
  shows "list_all2 (operation_of de) (doc_operations doc) (cd_operations cdoc) \<and>
    length (cd_operations cdoc) = count_operations doc"
  using doc_compile_parts(1) [OF assms] by (simp add: count_doc_operations list_all2_lengthD)

theorem doc_compile_operations_witness:
  "\<exists>cdoc rel es. oas_doc_compile pets_env (Some pets_source) None = Some (Some cdoc, rel, es) \<and>
     co_operation_id (hd (cd_operations cdoc)) = Some ''getPet'' \<and> length (cd_operations cdoc) = count_operations pets_source"
proof -
  obtain cdoc rel es where c: "oas_doc_compile pets_env (Some pets_source) None = Some (Some cdoc, rel, es)"
    using pets_compiles by blast
  have "op_operation_id pets_operation_source = Some ''getPet''" by (simp add: pets_operation_source_def)
  then show ?thesis using doc_compile_operations [OF c] c
    by (auto simp: pets_source_operations list_all2_Cons1 operation_of_def)
qed

text \<open>
  C6. Ownership across \<open>oas_doc_compile\<close> and \<open>oas_compiled_doc_free\<close>, on success and on every
  failure: after the free, each of the schemas compiled along the way has been released, once,
  with every pattern its compilation made the backend compile given back; the arena is gone;
  and the backend, when it was taken over, has been destroyed once. It is taken over as soon as
  the document's structure is allocated, so a null result does not say whether the caller's
  backend still exists.
\<close>

theorem doc_compile_releases:
  assumes "oas_doc_compile de doc errors = Some (r, rel, es)"
  shows "let rel' = oas_compiled_doc_free r rel;
             taken = (doc \<noteq> None \<and> (\<exists>a p a'. de_arena de = Some a \<and> de_alloc de a 72 8 = (Some p, a')))
         in length (dl_schemas rel') = dl_calls rel' \<and>
            (\<forall>cs \<in> set (dl_schemas rel'). all_compiled cs = all_freed cs) \<and>
            dl_arena rel' = (if doc \<noteq> None \<and> de_arena de \<noteq> None then 1 else 0) \<and>
            dl_regex rel' =
              (if taken \<and> owned_backend de \<noteq> None \<and> \<not> cc_borrow_regex (the (de_config de)) then 1 else 0)"
  by (rule compiled_doc_released [OF assms])

theorem doc_compile_releases_witness:
  "\<exists>cdoc rel es. oas_doc_compile pets_env (Some pets_source) None = Some (Some cdoc, rel, es) \<and>
     length (dl_schemas (oas_compiled_doc_free (Some cdoc) rel)) = dl_calls rel \<and>
     dl_arena (oas_compiled_doc_free (Some cdoc) rel) = 1"
proof -
  obtain cdoc rel es where c: "oas_doc_compile pets_env (Some pets_source) None = Some (Some cdoc, rel, es)"
    using pets_compiles by blast
  have "dl_calls (oas_compiled_doc_free (Some cdoc) rel) = dl_calls rel" by (simp add: oas_compiled_doc_free_def)
  moreover have "de_arena pets_env = Some ()" by (simp add: pets_env_def)
  ultimately show ?thesis using doc_compile_releases [OF c] c by (auto simp: Let_def)
qed

end
