(* ===== verification/Liboas_Format_Spec.thy ===== *)
theory Liboas_Format_Spec
  imports Liboas_Format
begin

text \<open>
  What the format validators decide, stated on the values the strings stand for: calendar
  dates, four octets, labels.
\<close>

section \<open>Fixed-width decimals\<close>

fun dec_pad :: "nat \<Rightarrow> nat \<Rightarrow> string" where
  "dec_pad 0 n = []"
| "dec_pad (Suc k) n = dec_pad k (n div 10) @ [char_of (48 + n mod 10)]"

lemma dec_step: "int (n div 10) * 10 + int (n mod 10) = int n"
  by (simp add: zdiv_int zmod_int)

lemma is_digit_char_of [simp]: "(n :: nat) < 10 \<Longrightarrow> is_digit (char_of (48 + n))"
  by (simp add: is_digit_def)

lemma digit_val_char_of [simp]: "(n :: nat) < 10 \<Longrightarrow> digit_val (char_of (48 + n)) = int n"
  by (simp add: digit_val_def)

lemma digit_char:
  assumes "is_digit c"
  obtains n :: nat where "n < 10" and "c = char_of (48 + n)"
proof -
  have "byte c - 48 < 10" using assms by (auto simp: is_digit_def)
  moreover have "c = char_of (48 + (byte c - 48))" using assms by (simp add: is_digit_def)
  ultimately show thesis using that by blast
qed

lemma length_dec_pad [simp]: "length (dec_pad k n) = k"
  by (induction k arbitrary: n) auto

lemma digits_dec_pad: "list_all is_digit (dec_pad k n)"
  by (induction k arbitrary: n) auto

lemma digits_val_snoc: "digits_val (ds @ [c]) = digits_val ds * 10 + digit_val c"
  by (simp add: digits_val_def)

lemma digits_val_dec_pad: "n < 10 ^ k \<Longrightarrow> digits_val (dec_pad k n) = int n"
proof (induction k arbitrary: n)
  case 0
  then show ?case by (simp add: digits_val_def)
next
  case (Suc k)
  then have "n div 10 < 10 ^ k" by (simp add: less_mult_imp_div_less mult.commute)
  then show ?case using Suc.IH by (simp add: digits_val_snoc dec_step)
qed

text \<open>Every string of digits is the numeral of its value.\<close>

lemma dec_pad_digits:
  "list_all is_digit ds \<Longrightarrow>
     0 \<le> digits_val ds \<and> digits_val ds < 10 ^ length ds \<and> dec_pad (length ds) (nat (digits_val ds)) = ds"
proof (induction ds rule: rev_induct)
  case Nil
  then show ?case by (simp add: digits_val_def)
next
  case (snoc c ds)
  then obtain n :: nat where n: "n < 10" "c = char_of (48 + n)" by (auto elim: digit_char)
  have ih: "0 \<le> digits_val ds" "digits_val ds < 10 ^ length ds"
    "dec_pad (length ds) (nat (digits_val ds)) = ds" using snoc by simp_all
  have v: "digits_val (ds @ [c]) = digits_val ds * 10 + int n" using n by (simp add: digits_val_snoc)
  have "nat (digits_val ds * 10 + int n) = nat (digits_val ds) * 10 + n"
    using ih(1) by (simp add: nat_add_distrib nat_mult_distrib)
  then have "nat (digits_val ds * 10 + int n) div 10 = nat (digits_val ds)"
    and "nat (digits_val ds * 10 + int n) mod 10 = n" using n(1) by simp_all
  moreover have "digits_val ds * 10 + int n < 10 ^ Suc (length ds)" using ih(2) n(1) by simp
  ultimately show ?case using ih n v by simp
qed

lemma parse_digits_loop_val:
  "parse_digits_loop s k acc =
     (if k \<le> length s \<and> list_all is_digit (take k s)
      then Some (foldl (\<lambda>n c. n * 10 + digit_val c) acc (take k s)) else None)"
  by (induction s k acc rule: parse_digits_loop.induct) auto

lemma parse_digits_val:
  "parse_digits s k = Some v \<longleftrightarrow>
     k \<le> length s \<and> list_all is_digit (take k s) \<and> v = digits_val (take k s)"
  by (auto simp: parse_digits_def parse_digits_loop_val digits_val_def)

lemma parse_dec_pad: "n < 10 ^ k \<Longrightarrow> parse_digits (dec_pad k n @ s) k = Some (int n)"
  by (simp add: parse_digits_val digits_dec_pad digits_val_dec_pad)

lemma parse_digits_dec_pad:
  assumes "parse_digits s k = Some v"
  obtains n where "v = int n" and "n < 10 ^ k" and "take k s = dec_pad k n"
proof -
  have s: "k \<le> length s" "list_all is_digit (take k s)" "v = digits_val (take k s)"
    using assms by (simp_all add: parse_digits_val)
  then have "0 \<le> v" "v < 10 ^ k" "dec_pad k (nat v) = take k s"
    using dec_pad_digits [OF s(2)] by (simp_all add: min_absorb2)
  then show thesis using that [of "nat v"] by (simp add: nat_less_iff)
qed

section \<open>Dates\<close>

definition gregorian_leap :: "nat \<Rightarrow> bool" where
  "gregorian_leap y \<longleftrightarrow> 4 dvd y \<and> (100 dvd y \<longrightarrow> 400 dvd y)"

definition month_length :: "nat \<Rightarrow> nat \<Rightarrow> nat" where
  "month_length y m =
     (if m = 2 then (if gregorian_leap y then 29 else 28)
      else if m \<in> {4, 6, 9, 11} then 30 else 31)"

definition full_date :: "nat \<Rightarrow> nat \<Rightarrow> nat \<Rightarrow> string" where
  "full_date y m d = dec_pad 4 y @ ''-'' @ dec_pad 2 m @ ''-'' @ dec_pad 2 d"

definition calendar_date :: "nat \<Rightarrow> nat \<Rightarrow> nat \<Rightarrow> bool" where
  "calendar_date y m d \<longleftrightarrow> y < 10000 \<and> 1 \<le> m \<and> m \<le> 12 \<and> 1 \<le> d \<and> d \<le> month_length y m"

lemma days_in_month_length:
  assumes "1 \<le> m" and "m \<le> 12"
  shows "days_in_month (int y) (int m) = int (month_length y m)"
proof -
  have leap: "is_leap_year (int y) = gregorian_leap y"
    unfolding is_leap_year_def gregorian_leap_def by presburger
  have "m \<in> {1, 2, 3, 4, 5, 6, 7, 8, 9, 10, 11, 12}" using assms unfolding insert_iff empty_iff by presburger
  then show ?thesis
    by (elim insertE emptyE) (simp_all add: days_in_month_def month_length_def leap)
qed

lemma date_split:
  assumes "length v = 10" and "v ! 4 = a" and "v ! 7 = b"
  shows "v = take 4 v @ [a] @ take 2 (drop 5 v) @ [b] @ take 2 (drop 8 v)"
proof -
  have "v = take 4 v @ v ! 4 # drop 5 v" using assms(1) id_take_nth_drop [of 4 v] by simp
  moreover have "drop 5 v = take 2 (drop 5 v) @ v ! 7 # drop 8 v"
    using assms(1) id_take_nth_drop [of 2 "drop 5 v"] by simp
  moreover have "drop 8 v = take 2 (drop 8 v)" using assms(1) by simp
  ultimately show ?thesis using assms(2,3) by (metis append_Cons append_Nil)
qed

text \<open>
  C21. \<open>oas_format_date\<close> accepts exactly the dates of the Gregorian calendar of the years 0 to 9999,
  written \<open>YYYY-MM-DD\<close>: the string is accepted when it is the zero-padded form of a year, a month
  from 1 to 12 and a day the month has in that year, and only then.
\<close>

theorem format_date_iff:
  "oas_format_date v \<longleftrightarrow> (\<exists>y m d. calendar_date y m d \<and> v = full_date y m d)"
proof
  assume "oas_format_date v"
  then obtain year month day where l: "length v = 10" "v ! 4 = CHR ''-''" "v ! 7 = CHR ''-''"
    and p: "parse_digits v 4 = Some year" "parse_digits (drop 5 v) 2 = Some month"
      "parse_digits (drop 8 v) 2 = Some day"
    and r: "1 \<le> month" "month \<le> 12" "1 \<le> day" "day \<le> days_in_month year month"
    by (auto simp: oas_format_date_def split: if_splits option.splits)
  obtain y where y: "year = int y" "y < 10 ^ 4" "take 4 v = dec_pad 4 y"
    using parse_digits_dec_pad [OF p(1)] .
  obtain m where m: "month = int m" "m < 10 ^ 2" "take 2 (drop 5 v) = dec_pad 2 m"
    using parse_digits_dec_pad [OF p(2)] .
  obtain d where d: "day = int d" "d < 10 ^ 2" "take 2 (drop 8 v) = dec_pad 2 d"
    using parse_digits_dec_pad [OF p(3)] .
  have "calendar_date y m d"
    using r y m d days_in_month_length [of m y] by (simp add: calendar_date_def)
  moreover have "v = full_date y m d"
    using date_split [OF l] y(3) m(3) d(3) by (simp add: full_date_def)
  ultimately show "\<exists>y m d. calendar_date y m d \<and> v = full_date y m d" by blast
next
  assume "\<exists>y m d. calendar_date y m d \<and> v = full_date y m d"
  then obtain y m d where c: "calendar_date y m d" and v: "v = full_date y m d" by blast
  have "month_length y m \<le> 31" by (simp add: month_length_def)
  then have r: "y < 10 ^ 4" "m < 10 ^ 2" "d < 10 ^ 2" using c by (simp_all add: calendar_date_def)
  have m: "drop 5 v = dec_pad 2 m @ ''-'' @ dec_pad 2 d" and d: "drop 8 v = dec_pad 2 d @ []"
    by (simp_all add: v full_date_def)
  have nth: "v ! 4 = CHR ''-''" "v ! 7 = CHR ''-''" "length v = 10"
    by (simp_all add: v full_date_def nth_append)
  show "oas_format_date v"
    using nth parse_dec_pad [OF r(1), of "''-'' @ dec_pad 2 m @ ''-'' @ dec_pad 2 d"]
      parse_dec_pad [OF r(2), of "''-'' @ dec_pad 2 d"] parse_dec_pad [OF r(3), of "[]"]
      days_in_month_length [of m y] c
    unfolding oas_format_date_def m d
    by (simp add: v full_date_def calendar_date_def)
qed

section \<open>IPv4 addresses\<close>

lemma dec_nat_digits: "list_all is_digit (dec_nat n) \<and> dec_nat n \<noteq> []"
  by (induction n rule: dec_nat.induct) (simp add: dec_nat.simps)

lemma digits_val_dec_nat: "digits_val (dec_nat n) = int n"
proof (induction n rule: dec_nat.induct)
  case (1 n)
  show ?case
  proof (cases "n < 10")
    case True
    then show ?thesis by (subst dec_nat.simps) (simp add: digits_val_def)
  next
    case False
    then show ?thesis using 1 by (subst dec_nat.simps) (simp add: digits_val_snoc dec_step)
  qed
qed

text \<open>No leading zero, except for zero itself.\<close>

lemma dec_nat_hd: "0 < n \<Longrightarrow> hd (dec_nat n) \<noteq> CHR ''0''"
proof (induction n rule: dec_nat.induct)
  case (1 n)
  show ?case
  proof (cases "n < 10")
    case True
    then have "byte (char_of (48 + n)) \<noteq> byte CHR ''0''" using 1(2) by simp
    then show ?thesis using True by (subst dec_nat.simps) (metis byte_inject list.sel(1))
  next
    case False
    then have "hd (dec_nat (n div 10)) \<noteq> CHR ''0''" using 1 by simp
    then show ?thesis using False dec_nat_digits [of "n div 10"]
      by (subst dec_nat.simps) simp
  qed
qed

lemma dec_nat_of_digits:
  assumes "list_all is_digit ds" and "ds \<noteq> []" and "length ds = 1 \<or> hd ds \<noteq> CHR ''0''"
  shows "dec_nat (nat (digits_val ds)) = ds"
  using assms
proof (induction ds rule: rev_induct)
  case Nil
  then show ?case by simp
next
  case (snoc c ds)
  obtain n :: nat where n: "n < 10" "c = char_of (48 + n)"
    using snoc.prems(1) by (auto elim: digit_char)
  show ?case
  proof (cases "ds = []")
    case True
    then show ?thesis using n by (subst dec_nat.simps) (simp add: digits_val_def)
  next
    case False
    have ds: "list_all is_digit ds" "hd ds \<noteq> CHR ''0''" using snoc.prems False by auto
    then have ih: "dec_nat (nat (digits_val ds)) = ds" using snoc.IH False by simp
    have "digits_val ds \<noteq> 0"
    proof
      assume "digits_val ds = 0"
      then have "dec_nat 0 = ds" using ih by simp
      moreover have "dec_nat 0 = ''0''" by code_simp
      ultimately have "ds = ''0''" by simp
      then show False using ds(2) by simp
    qed
    then have pos: "0 < digits_val ds" using dec_pad_digits [OF ds(1)] by simp
    have v: "digits_val (ds @ [c]) = digits_val ds * 10 + int n" using n by (simp add: digits_val_snoc)
    have "nat (digits_val ds * 10 + int n) = nat (digits_val ds) * 10 + n"
      using pos by (simp add: nat_add_distrib nat_mult_distrib)
    then have "nat (digits_val ds * 10 + int n) div 10 = nat (digits_val ds)"
      and "nat (digits_val ds * 10 + int n) mod 10 = n"
      and "\<not> nat (digits_val ds * 10 + int n) < 10" using pos n(1) by simp_all
    then show ?thesis using ih n v by (subst dec_nat.simps) simp
  qed
qed

definition octet :: "string \<Rightarrow> bool" where
  "octet ds \<longleftrightarrow> (\<exists>n \<le> 255. ds = dec_nat n)"

lemma length_dec_nat: "n < 1000 \<Longrightarrow> length (dec_nat n) \<le> 3"
  by (subst dec_nat.simps, simp, subst dec_nat.simps, simp, subst dec_nat.simps, simp)

lemma octet_iff:
  assumes "list_all is_digit ds"
  shows "octet ds \<longleftrightarrow> ds \<noteq> [] \<and> length ds \<le> 3 \<and> digits_val ds \<le> 255 \<and>
    (1 < length ds \<longrightarrow> hd ds \<noteq> CHR ''0'')"
proof
  assume "octet ds"
  then obtain n where n: "n \<le> 255" "ds = dec_nat n" by (auto simp: octet_def)
  moreover have "hd ds \<noteq> CHR ''0''" if "1 < length ds"
  proof -
    have "n \<noteq> 0" using that n(2) by (cases "n = 0") (simp_all add: dec_nat.simps [of 0])
    then show ?thesis using n(2) dec_nat_hd by simp
  qed
  ultimately show "ds \<noteq> [] \<and> length ds \<le> 3 \<and> digits_val ds \<le> 255 \<and>
      (1 < length ds \<longrightarrow> hd ds \<noteq> CHR ''0'')"
    using dec_nat_digits [of n] length_dec_nat [of n] digits_val_dec_nat [of n] by simp
next
  assume a: "ds \<noteq> [] \<and> length ds \<le> 3 \<and> digits_val ds \<le> 255 \<and> (1 < length ds \<longrightarrow> hd ds \<noteq> CHR ''0'')"
  then have "length ds = 1 \<or> hd ds \<noteq> CHR ''0''" by (cases ds) auto
  then have "dec_nat (nat (digits_val ds)) = ds" using dec_nat_of_digits assms a by blast
  then show "octet ds" using a unfolding octet_def by (intro exI [of _ "nat (digits_val ds)"]) auto
qed

lemma is_digit_dot [simp]: "\<not> is_digit CHR ''.''"
  by (simp add: is_digit_def)

text \<open>
  The loop at position \<open>i\<close>, with the digits of the current octet read: \<open>v = pre @ ds @ rest\<close>.
\<close>

lemma ipv4_loop_octets:
  assumes "v = pre @ ds @ rest" and "list_all is_digit ds"
  shows "ipv4_loop v (length pre + length ds) rest k (digits_val ds) (length ds) \<longleftrightarrow>
    (\<exists>xs. split_on CHR ''.'' (ds @ rest) = xs \<and> list_all octet xs \<and> k + length xs = 4)"
  using assms
proof (induction rest arbitrary: pre ds k)
  case Nil
  have "CHR ''.'' \<notin> set ds" using Nil.prems(2) is_digit_dot by (auto simp: list_all_iff)
  then have "split_on CHR ''.'' ds = [ds]" by (rule split_on_no_occ)
  moreover have "1 < length ds \<Longrightarrow> v ! length pre = hd ds"
    using Nil.prems(1) by (cases ds) simp_all
  ultimately show ?case using octet_iff [OF Nil.prems(2)] by auto
next
  case (Cons c rest)
  have nodot: "CHR ''.'' \<notin> set ds" using Cons.prems(2) is_digit_dot by (auto simp: list_all_iff)
  have hd: "1 < length ds \<Longrightarrow> v ! length pre = hd ds"
    using Cons.prems(1) by (cases ds) (simp_all add: nth_append)
  consider (dot) "c = CHR ''.''" | (digit) "c \<noteq> CHR ''.''" "is_digit c"
    | (other) "c \<noteq> CHR ''.''" "\<not> is_digit c" by blast
  then show ?case
  proof cases
    case dot
    have "ipv4_loop v (length (pre @ ds @ [c]) + length ([]::string)) rest (k + 1) (digits_val []) (length ([]::string)) \<longleftrightarrow>
        list_all octet (split_on CHR ''.'' rest) \<and> k + 1 + length (split_on CHR ''.'' rest) = 4"
      using Cons.IH [of "pre @ ds @ [c]" "[]" "k + 1"] Cons.prems(1) by simp
    moreover have "split_on CHR ''.'' (ds @ c # rest) = ds # split_on CHR ''.'' rest"
      unfolding dot using nodot by (rule split_on_append_sep)
    ultimately show ?thesis
      using dot hd octet_iff [OF Cons.prems(2)] by (auto simp: digits_val_def)
  next
    case digit
    have "ipv4_loop v (length pre + length (ds @ [c])) rest k (digits_val (ds @ [c])) (length (ds @ [c])) \<longleftrightarrow>
        (\<exists>xs. split_on CHR ''.'' ((ds @ [c]) @ rest) = xs \<and> list_all octet xs \<and> k + length xs = 4)"
      using Cons.IH [of pre "ds @ [c]" k] Cons.prems digit by simp
    then show ?thesis using digit by (simp add: digits_val_snoc)
  next
    case other
    have "\<not> list_all octet (split_on CHR ''.'' (ds @ c # rest))"
    proof -
      have s: "split_on CHR ''.'' (ds @ c # rest) =
          takeWhile (\<lambda>x. x \<noteq> CHR ''.'') (ds @ c # rest) #
          (case dropWhile (\<lambda>x. x \<noteq> CHR ''.'') (ds @ c # rest) of [] \<Rightarrow> [] | _ # r \<Rightarrow> split_on CHR ''.'' r)"
        by (rule split_on_takeWhile)
      have "takeWhile (\<lambda>x. x \<noteq> CHR ''.'') (ds @ c # rest) =
          ds @ c # takeWhile (\<lambda>x. x \<noteq> CHR ''.'') rest"
        using nodot other(1) by (subst takeWhile_append2) auto
      moreover have "\<not> octet (ds @ c # zs)" for zs
        using dec_nat_digits other(2) unfolding octet_def by (metis list_all_append list.pred_inject(2))
      ultimately show ?thesis unfolding s by simp
    qed
    then show ?thesis using other by simp
  qed
qed

text \<open>
  \<open>oas_format_ipv4\<close> accepts exactly four decimal octets from 0 to 255, without leading
  zeros, separated by single dots.
\<close>

theorem format_ipv4_iff:
  "oas_format_ipv4 v \<longleftrightarrow>
     (\<exists>a b c d. a \<le> 255 \<and> b \<le> 255 \<and> c \<le> 255 \<and> d \<le> 255 \<and>
        v = join_on CHR ''.'' [dec_nat a, dec_nat b, dec_nat c, dec_nat d])"
proof -
  have loop: "ipv4_loop v 0 v 0 0 0 \<longleftrightarrow>
      list_all octet (split_on CHR ''.'' v) \<and> length (split_on CHR ''.'' v) = 4"
    using ipv4_loop_octets [of v "[]" "[]" v 0] by (simp add: digits_val_def)
  show ?thesis
  proof
    assume "oas_format_ipv4 v"
    then have l: "list_all octet (split_on CHR ''.'' v)" "length (split_on CHR ''.'' v) = 4"
      using loop by (auto simp: oas_format_ipv4_def split: if_splits)
    then obtain p q r s where x: "split_on CHR ''.'' v = [p, q, r, s]"
      by (auto simp: length_Suc_conv numeral_eq_Suc)
    have "v = join_on CHR ''.'' [p, q, r, s]" using join_split_on [of "CHR ''.''" v] x by simp
    then show "\<exists>a b c d. a \<le> 255 \<and> b \<le> 255 \<and> c \<le> 255 \<and> d \<le> 255 \<and>
        v = join_on CHR ''.'' [dec_nat a, dec_nat b, dec_nat c, dec_nat d]"
      using l(1) unfolding x by (auto simp: octet_def)
  next
    assume "\<exists>a b c d. a \<le> 255 \<and> b \<le> 255 \<and> c \<le> 255 \<and> d \<le> 255 \<and>
        v = join_on CHR ''.'' [dec_nat a, dec_nat b, dec_nat c, dec_nat d]"
    then obtain a b c d where r: "a \<le> 255" "b \<le> 255" "c \<le> 255" "d \<le> 255"
      and v: "v = join_on CHR ''.'' [dec_nat a, dec_nat b, dec_nat c, dec_nat d]" by blast
    have nodot: "CHR ''.'' \<notin> set (dec_nat n)" for n
      using dec_nat_digits [of n] is_digit_dot by (auto simp: list_all_iff)
    have x: "split_on CHR ''.'' v = [dec_nat a, dec_nat b, dec_nat c, dec_nat d]"
      unfolding v by (rule split_join_on) (use nodot in auto)
    have len: "1 \<le> length (dec_nat n) \<and> length (dec_nat n) \<le> 3" if "n \<le> 255" for n
      using dec_nat_digits [of n] length_dec_nat [of n] that by (cases "dec_nat n") auto
    have "7 \<le> length v" "length v \<le> 15"
      using len [OF r(1)] len [OF r(2)] len [OF r(3)] len [OF r(4)] by (simp_all add: v)
    moreover have "list_all octet (split_on CHR ''.'' v)" unfolding x using r by (auto simp: octet_def)
    ultimately show "oas_format_ipv4 v" using loop x by (simp add: oas_format_ipv4_def)
  qed
qed

end
