(* ===== verification/Liboas_Jsonptr.thy ===== *)
theory Liboas_Jsonptr
  imports Liboas_Json Liboas_Error
begin

text \<open>
  JSON pointers (\<open>src/core/oas_jsonptr.c\<close>): the tokeniser with its in-place unescaping, the
  fragment helper, and resolution, where the walk itself is yyjson's and a parameter.
\<close>

section \<open>Operations\<close>

text \<open>
  \<open>unescape_segment\<close> rewrites a token in place; the writer never overtakes the reader, so the
  result is a function of the token.
\<close>

fun unescape_segment :: "string \<Rightarrow> string" where
  "unescape_segment (c # d # s) =
     (if c = CHR ''~'' \<and> d = CHR ''1'' then CHR ''/'' # unescape_segment s
      else if c = CHR ''~'' \<and> d = CHR ''0'' then CHR ''~'' # unescape_segment s
      else c # unescape_segment (d # s))"
| "unescape_segment s = s"

text \<open>The loop over the copied buffer: a slash is overwritten and starts the next token.\<close>

function jsonptr_tokens :: "string \<Rightarrow> string list" where
  "jsonptr_tokens tok =
     (case dropWhile (\<lambda>c. c \<noteq> CHR ''/'') tok of
        [] \<Rightarrow> [unescape_segment tok]
      | _ # rest \<Rightarrow>
          unescape_segment (takeWhile (\<lambda>c. c \<noteq> CHR ''/'') tok) # jsonptr_tokens rest)"
  by pat_completeness auto
termination
proof (relation "measure length")
  fix tok c rest
  assume "dropWhile (\<lambda>c. c \<noteq> CHR ''/'') tok = c # rest"
  then show "(rest, tok) \<in> measure length"
    using length_dropWhile_le [of "\<lambda>c. c \<noteq> CHR ''/''" tok] by simp
qed simp

declare jsonptr_tokens.simps [simp del]

text \<open>The return code (\<open>None\<close> for 0), the tokens, and the arena.\<close>

definition oas_jsonptr_parse ::
    "'a allocator \<Rightarrow> 'a option \<Rightarrow> string option \<Rightarrow> bool \<Rightarrow> errno option \<times> string list \<times> 'a option" where
  "oas_jsonptr_parse alloc arena pointer have_out =
     (case (pointer, arena) of
        (Some ptr, Some a) \<Rightarrow>
          if \<not> have_out then (Some EINVAL, [], Some a)
          else
            (case ptr of
               [] \<Rightarrow> (None, [], Some a)
             | c # p \<Rightarrow>
                 if c \<noteq> CHR ''/'' then (Some EINVAL, [], Some a)
                 else
                   let n = Suc (count_list p CHR ''/'')
                   in (case alloc a (of_nat (8 * n)) 8 of
                         (None, a) \<Rightarrow> (Some ENOMEM, [], Some a)
                       | (Some _, a) \<Rightarrow>
                           (case alloc a (of_nat (length p + 1)) 1 of
                              (None, a) \<Rightarrow> (Some ENOMEM, [], Some a)
                            | (Some _, a) \<Rightarrow> (None, jsonptr_tokens p, Some a))))
      | _ \<Rightarrow> (Some EINVAL, [], arena))"

definition oas_jsonptr_from_ref :: "string option \<Rightarrow> string option" where
  "oas_jsonptr_from_ref ref =
     (case ref of
        None \<Rightarrow> None
      | Some r \<Rightarrow> (case r of c # s \<Rightarrow> if c = CHR ''#'' then Some s else Some r | [] \<Rightarrow> Some r))"

text \<open>
  yyjson's walk is a parameter: the value it finds, or the message of its error structure.
\<close>

type_synonym ptr_walk = "json \<Rightarrow> string \<Rightarrow> string option + json"

definition oas_jsonptr_resolve :: "ptr_walk \<Rightarrow> json option \<Rightarrow> string option \<Rightarrow> json option" where
  "oas_jsonptr_resolve walk doc_root pointer =
     (case (doc_root, pointer) of
        (Some r, Some p) \<Rightarrow>
          if p = [] then Some r
          else (case walk r p of Inr v \<Rightarrow> Some v | Inl _ \<Rightarrow> None)
      | _ \<Rightarrow> None)"

definition oas_jsonptr_resolve_ex ::
    "ptr_walk \<Rightarrow> 'a allocator \<Rightarrow> json option \<Rightarrow> string option \<Rightarrow> 'a oas_error_list option
      \<Rightarrow> json option \<times> 'a oas_error_list option" where
  "oas_jsonptr_resolve_ex walk alloc doc_root pointer errors =
     (case (doc_root, pointer) of
        (Some r, Some p) \<Rightarrow>
          if p = [] then (Some r, errors)
          else
            (case walk r p of
               Inr v \<Rightarrow> (Some v, errors)
             | Inl msg \<Rightarrow>
                 (None, map_option (\<lambda>l. oas_error_list_add alloc l OAS_ERR_REF (Some p)
                    (''JSON Pointer cannot be resolved: '' @ (case msg of Some m \<Rightarrow> m | None \<Rightarrow> ''unknown error'')))
                    errors))
      | _ \<Rightarrow>
          (None, map_option (\<lambda>l. oas_error_list_add alloc l OAS_ERR_REF (Some [])
             (''JSON Pointer resolution: null '' @ (if doc_root = None then ''root'' else ''pointer''))) errors))"

section \<open>Escaping\<close>

definition escape_char :: "char \<Rightarrow> string" where
  "escape_char c = (if c = CHR ''~'' then ''~0'' else if c = CHR ''/'' then ''~1'' else [c])"

definition escape_segment :: "string \<Rightarrow> string" where
  "escape_segment s = concat (map escape_char s)"

definition render_pointer :: "string list \<Rightarrow> string" where
  "render_pointer segs = concat (map (\<lambda>s. CHR ''/'' # escape_segment s) segs)"

lemma unescape_Cons: "c \<noteq> CHR ''~'' \<Longrightarrow> unescape_segment (c # s) = c # unescape_segment s"
  by (cases s) simp_all

lemma unescape_escape: "unescape_segment (escape_segment s) = s"
  by (induction s) (simp_all add: escape_segment_def escape_char_def unescape_Cons)

lemma escape_no_slash: "CHR ''/'' \<notin> set (escape_segment s)"
  by (induction s) (auto simp: escape_segment_def escape_char_def)

lemma jsonptr_tokens_split: "jsonptr_tokens s = map unescape_segment (split_on CHR ''/'' s)"
proof (induction s rule: jsonptr_tokens.induct)
  case (1 tok)
  show ?case
  proof (cases "dropWhile (\<lambda>c. c \<noteq> CHR ''/'') tok")
    case Nil
    then have "takeWhile (\<lambda>c. c \<noteq> CHR ''/'') tok = tok" by (metis append_Nil2 takeWhile_dropWhile_id)
    then show ?thesis using Nil jsonptr_tokens.simps [of tok] split_on_takeWhile [of "CHR ''/''" tok]
      by (simp del: dropWhile_eq_Nil_conv takeWhile_eq_all_conv)
  next
    case (Cons c rest)
    then show ?thesis using 1 jsonptr_tokens.simps [of tok] split_on_takeWhile [of "CHR ''/''" tok] by simp
  qed
qed

lemma render_pointer_join:
  "segs \<noteq> [] \<Longrightarrow> render_pointer segs = CHR ''/'' # join_on CHR ''/'' (map escape_segment segs)"
proof (induction segs rule: induct_list012)
  case (3 s t segs)
  then show ?case by (simp add: render_pointer_def)
qed (simp_all add: render_pointer_def)

lemma tokens_render: "segs \<noteq> [] \<Longrightarrow> jsonptr_tokens (tl (render_pointer segs)) = segs"
proof -
  assume "segs \<noteq> []"
  then have "split_on CHR ''/'' (tl (render_pointer segs)) = map escape_segment segs"
    using escape_no_slash by (auto simp: render_pointer_join intro!: split_join_on)
  then show ?thesis by (simp add: jsonptr_tokens_split unescape_escape map_idI)
qed

lemma jsonptr_parse_tokens:
  assumes "alloc_total alloc" and "length p < 2 ^ 59"
  shows "\<exists>a'. oas_jsonptr_parse alloc (Some a) (Some (CHR ''/'' # p)) True =
    (None, map unescape_segment (split_on CHR ''/'' p), Some a')"
proof -
  have "count_list p CHR ''/'' \<le> length p" by (rule count_le_length)
  then obtain q1 a1 where "alloc a (of_nat (8 * Suc (count_list p CHR ''/''))) 8 = (Some q1, a1)"
    using granted [OF assms(1), of "8 * Suc (count_list p CHR ''/'')" 8 a] assms(2) by auto
  moreover obtain q2 a2 where "alloc a1 (of_nat (length p + 1)) 1 = (Some q2, a2)"
    using granted [OF assms(1), of "length p + 1" 1 a1] assms(2) by auto
  ultimately show ?thesis
    by (simp add: oas_jsonptr_parse_def Let_def jsonptr_tokens_split)
qed

section \<open>Properties\<close>

text \<open>
  With memory granted, \<open>oas_jsonptr_parse\<close> on a pointer that starts with a slash answers 0
  with one token for each slash-separated part, unescaped left to right, so that \<open>~01\<close> stands
  for \<open>~1\<close> and not for a slash.
\<close>

theorem jsonptr_parse_splits:
  assumes "alloc_total alloc" and "length p < 2 ^ 59"
  shows "\<exists>a'. oas_jsonptr_parse alloc (Some a) (Some (CHR ''/'' # p)) True =
    (None, map unescape_segment (split_on CHR ''/'' p), Some a')"
  using assms by (rule jsonptr_parse_tokens)

theorem jsonptr_parse_splits_witness:
  "\<exists>a'. oas_jsonptr_parse (\<lambda>a n k. (Some 8, a)) (Some ()) (Some ''/a~01//b~1c'') True =
    (None, [''a~1'', [], ''b/c''], Some a')"
  using jsonptr_parse_splits [of "\<lambda>a n k. (Some 8, a)" "''a~01//b~1c''" "()"] by (simp add: alloc_total_def)

text \<open>
  C20. Rendering and parsing are inverse: for any list of keys, with any bytes in them,
  \<open>oas_jsonptr_parse\<close> on their escaped pointer returns exactly these keys.
\<close>

theorem jsonptr_roundtrip:
  assumes "alloc_total alloc" and "length (render_pointer segs) < 2 ^ 59"
  shows "\<exists>a'. oas_jsonptr_parse alloc (Some a) (Some (render_pointer segs)) True = (None, segs, Some a')"
proof (cases "segs = []")
  case False
  then obtain p where p: "render_pointer segs = CHR ''/'' # p" by (simp add: render_pointer_join)
  then have "jsonptr_tokens p = segs" using tokens_render [OF False] by simp
  then show ?thesis using jsonptr_parse_tokens [OF assms(1), of p a] assms(2) p
    by (simp add: jsonptr_tokens_split)
qed (simp add: oas_jsonptr_parse_def render_pointer_def)

theorem jsonptr_roundtrip_witness:
  "\<exists>a'. oas_jsonptr_parse (\<lambda>a n k. (Some 8, a)) (Some ()) (Some ''/paths/~1pets~1{id}/~0x'') True =
    (None, [''paths'', ''/pets/{id}'', ''~x''], Some a')"
  using jsonptr_roundtrip [of "\<lambda>a n k. (Some 8, a)" "[''paths'', ''/pets/{id}'', ''~x'']" "()"]
  by (simp add: alloc_total_def render_pointer_def escape_segment_def escape_char_def)

text \<open>
  The reporting variant \<open>oas_jsonptr_resolve_ex\<close> finds what \<open>oas_jsonptr_resolve\<close> finds, and
  when it finds nothing and the caller gave a list with room, it adds exactly one entry of
  kind \<open>OAS_ERR_REF\<close>; when it finds a value the list is untouched.
\<close>

theorem jsonptr_resolve_reports:
  assumes "report_room alloc l"
  shows "\<exists>l'. oas_jsonptr_resolve_ex walk alloc doc_root pointer (Some l) =
      (oas_jsonptr_resolve walk doc_root pointer, Some l') \<and>
    (if oas_jsonptr_resolve walk doc_root pointer = None
     then length (el_errors l') = Suc (length (el_errors l)) \<and> err_kind (last (el_errors l')) = OAS_ERR_REF
     else l' = l)"
proof -
  have "length (el_errors (oas_error_list_add alloc l k p m)) = Suc (length (el_errors l)) \<and>
      err_kind (last (el_errors (oas_error_list_add alloc l k p m))) = k" for k p m
    using error_list_grow_total [OF assms] by (simp add: oas_error_list_add_def Let_def split_beta)
  then show ?thesis
    by (auto simp: oas_jsonptr_resolve_ex_def oas_jsonptr_resolve_def split: option.split sum.split)
qed

theorem jsonptr_resolve_reports_witness:
  "\<exists>l'. oas_jsonptr_resolve_ex (\<lambda>r p. Inl (Some ''no key'')) (\<lambda>a n k. (Some 8, a)) (Some JNull) (Some ''/a'')
      (Some one_error) = (None, Some l') \<and> length (el_errors l') = 2"
  using jsonptr_resolve_reports [of "\<lambda>a n k. (Some 8, a)" one_error "\<lambda>r p. Inl (Some ''no key'')"
      "Some JNull" "Some ''/a''"]
  by (auto simp: report_room_def alloc_total_def one_error_def oas_jsonptr_resolve_def)

end
