(* ===== verification/Liboas_Intern.thy ===== *)
theory Liboas_Intern
  imports Liboas_Arena
begin

unbundle bit_operations_syntax

text \<open>
  The string pool of \<open>src/core/oas_intern.c\<close>: an FNV-1a hash table with chaining, whose
  strings and entries live in the arena. A pointer is the address the arena returned; the
  bytes stored there never change, so an entry is the address with its bytes. That equal
  pointers mean equal strings rests on the allocator's contract, \<open>region_allocator\<close>.
\<close>

section \<open>The pool\<close>

record oas_intern_entry =
  ie_str :: u64
  ie_bytes :: string

record 'a oas_intern =
  in_arena :: 'a
  in_buckets :: "nat \<Rightarrow> oas_intern_entry list"
  in_capacity :: u64
  in_count :: nat

type_synonym 'a region_alloc = "'a \<Rightarrow> u64 \<Rightarrow> u64 \<Rightarrow> u64 option \<times> 'a"

definition oas_intern_default_cap :: u64 where
  "oas_intern_default_cap = 256"

definition fnv1a :: "string \<Rightarrow> u64" where
  "fnv1a data = foldl (\<lambda>h c. (h XOR of_nat (byte c)) * 1099511628211) 14695981039346656037 data"

definition bucket_index :: "u64 \<Rightarrow> string \<Rightarrow> nat" where
  "bucket_index cap str = unat (fnv1a str mod cap)"

definition oas_intern_create :: "'a region_alloc \<Rightarrow> 'a option \<Rightarrow> u64 \<Rightarrow> 'a oas_intern option" where
  "oas_intern_create alloc arena capacity =
     (case arena of
        None \<Rightarrow> None
      | Some a \<Rightarrow>
          let cap = (if capacity = 0 then oas_intern_default_cap else capacity)
          in (case alloc a 32 8 of
                (None, _) \<Rightarrow> None
              | (Some _, a) \<Rightarrow>
                  (case alloc a (8 * cap) 8 of
                     (None, _) \<Rightarrow> None
                   | (Some _, a) \<Rightarrow>
                       Some \<lparr>in_arena = a, in_buckets = (\<lambda>_. []), in_capacity = cap, in_count = 0\<rparr>)))"

text \<open>The search of a bucket, and the insertion at its head.\<close>

fun bucket_find :: "oas_intern_entry list \<Rightarrow> string \<Rightarrow> u64 option" where
  "bucket_find [] str = None"
| "bucket_find (e # es) str =
     (if length (ie_bytes e) = length str \<and> ie_bytes e = str then Some (ie_str e) else bucket_find es str)"

definition oas_intern_get ::
    "'a region_alloc \<Rightarrow> 'a oas_intern option \<Rightarrow> string option \<Rightarrow> u64 option \<times> 'a oas_intern option" where
  "oas_intern_get alloc pool str =
     (case (pool, str) of
        (Some ip, Some s) \<Rightarrow>
          let idx = bucket_index (in_capacity ip) s
          in (case bucket_find (in_buckets ip idx) s of
                Some p \<Rightarrow> (Some p, Some ip)
              | None \<Rightarrow>
                  (case alloc (in_arena ip) (of_nat (length s + 1)) 1 of
                     (None, a) \<Rightarrow> (None, Some (ip\<lparr>in_arena := a\<rparr>))
                   | (Some copy, a) \<Rightarrow>
                       (case alloc a 24 8 of
                          (None, a) \<Rightarrow> (None, Some (ip\<lparr>in_arena := a\<rparr>))
                        | (Some _, a) \<Rightarrow>
                            (Some copy,
                             Some (ip\<lparr>in_arena := a,
                               in_buckets := (in_buckets ip)
                                 (idx := \<lparr>ie_str = copy, ie_bytes = s\<rparr> # in_buckets ip idx),
                               in_count := in_count ip + 1\<rparr>)))))
      | _ \<Rightarrow> (None, pool))"

definition oas_intern_count :: "'a oas_intern option \<Rightarrow> nat" where
  "oas_intern_count pool = (case pool of None \<Rightarrow> 0 | Some ip \<Rightarrow> in_count ip)"

text \<open>A sequence of calls: the pointers returned and the pool afterwards.\<close>

fun intern_run :: "'a region_alloc \<Rightarrow> 'a oas_intern \<Rightarrow> string list \<Rightarrow> u64 option list \<times> 'a oas_intern" where
  "intern_run alloc ip [] = ([], ip)"
| "intern_run alloc ip (s # ss) =
     (let (r, ip') = oas_intern_get alloc (Some ip) (Some s);
          (rs, ip'') = intern_run alloc (the ip') ss
      in (r # rs, ip''))"

section \<open>The pool as a map\<close>

text \<open>What the table stands for: a finite map from strings to their pointers.\<close>

definition interned :: "'a oas_intern \<Rightarrow> string \<Rightarrow> u64 option" where
  "interned ip s = bucket_find (in_buckets ip (bucket_index (in_capacity ip) s)) s"

lemma interned_arena [simp]: "interned (ip\<lparr>in_arena := a\<rparr>) = interned ip"
  by (simp add: interned_def fun_eq_iff)

lemma interned_insert:
  "interned (ip\<lparr>in_arena := a, in_buckets := (in_buckets ip)
     (bucket_index (in_capacity ip) s := \<lparr>ie_str = p, ie_bytes = s\<rparr> # in_buckets ip (bucket_index (in_capacity ip) s)),
     in_count := n\<rparr>) = (interned ip)(s \<mapsto> p)"
  by (auto simp: interned_def fun_eq_iff)

context region_allocator
begin

text \<open>
  The invariant: pointers are allocated addresses, different strings have different pointers,
  and the counter is the number of strings.
\<close>

definition intern_ok :: "'a oas_intern \<Rightarrow> bool" where
  "intern_ok ip \<longleftrightarrow> inv (in_arena ip) \<and> finite (dom (interned ip)) \<and>
     in_count ip = card (dom (interned ip)) \<and> inj_on (interned ip) (dom (interned ip)) \<and>
     (\<forall>p \<in> ran (interned ip). unat p \<in> taken (in_arena ip))"

lemma intern_ok_arena:
  assumes "intern_ok ip" and "inv a" and "taken (in_arena ip) \<subseteq> taken a"
  shows "intern_ok (ip\<lparr>in_arena := a\<rparr>)"
  using assms by (auto simp: intern_ok_def)

lemma alloc_taken_mono:
  assumes "inv a" and "request_ok n align" and "alloc a n align = (r, a')"
  shows "inv a' \<and> taken a \<subseteq> taken a'"
proof (cases r)
  case None
  then show ?thesis using assms alloc_inv [OF assms(1,2)] alloc_fail [of a n align a'] by simp
next
  case (Some p)
  then show ?thesis using assms alloc_inv [OF assms(1,2)] alloc_fresh [OF assms(1,2), of p a'] by simp
qed

lemma intern_get_map:
  assumes ok: "intern_ok ip" and len: "length s < 2 ^ 60"
    and get: "oas_intern_get alloc (Some ip) (Some s) = (r, ip')"
  shows "\<exists>ip1. ip' = Some ip1 \<and> intern_ok ip1 \<and> interned ip \<subseteq>\<^sub>m interned ip1 \<and>
    (case r of None \<Rightarrow> interned ip1 = interned ip | Some p \<Rightarrow> interned ip1 = (interned ip)(s \<mapsto> p))"
proof (cases "interned ip s")
  case (Some p)
  then have "r = Some p" "ip' = Some ip"
    using get by (auto simp: oas_intern_get_def interned_def Let_def)
  then show ?thesis using ok Some by (auto simp: fun_upd_idem)
next
  case None
  have "unat (of_nat (length s + 1) :: u64) = length s + 1"
    unfolding unsigned_of_nat of_nat_id by (rule take_bit_nat_eq_self) (use len in simp)
  then have rq: "request_ok (of_nat (length s + 1)) 1" "request_ok 24 8"
    using len by (simp_all add: request_ok_def)
  have inv: "inv (in_arena ip)" using ok by (simp add: intern_ok_def)
  obtain r1 a1 where 1: "alloc (in_arena ip) (of_nat (length s + 1)) 1 = (r1, a1)" by fastforce
  obtain r2 a2 where 2: "alloc a1 24 8 = (r2, a2)" by fastforce
  note m1 = alloc_taken_mono [OF inv rq(1) 1]
  note m2 = alloc_taken_mono [OF conjunct1 [OF m1] rq(2) 2]
  have find: "bucket_find (in_buckets ip (bucket_index (in_capacity ip) s)) s = None"
    using None by (simp add: interned_def)
  show ?thesis
  proof (cases "r1 = None \<or> r2 = None")
    case True
    then have "r = None \<and> (ip' = Some (ip\<lparr>in_arena := a1\<rparr>) \<or> ip' = Some (ip\<lparr>in_arena := a2\<rparr>))"
      using get find 1 2 by (auto simp: oas_intern_get_def Let_def split: option.splits)
    then show ?thesis using intern_ok_arena [OF ok, of a1] intern_ok_arena [OF ok, of a2] m1 m2 by auto
  next
    case False
    then obtain p q where pq: "r1 = Some p" "r2 = Some q" by auto
    define ip1 where "ip1 = ip\<lparr>in_arena := a2, in_buckets := (in_buckets ip)
      (bucket_index (in_capacity ip) s := \<lparr>ie_str = p, ie_bytes = s\<rparr> # in_buckets ip (bucket_index (in_capacity ip) s)),
      in_count := in_count ip + 1\<rparr>"
    have r: "r = Some p" "ip' = Some ip1"
      using get find 1 2 pq by (auto simp: oas_intern_get_def Let_def ip1_def)
    have map: "interned ip1 = (interned ip)(s \<mapsto> p)" unfolding ip1_def by (rule interned_insert)
    have fresh: "unat p \<notin> taken (in_arena ip)" "unat p \<in> taken a1"
      using alloc_address_fresh [OF inv rq(1)] 1 pq by auto
    have new: "p \<notin> ran (interned ip)" using ok fresh(1) by (auto simp: intern_ok_def)
    then have "inj_on (interned ip1) (dom (interned ip1))"
      using ok None unfolding map intern_ok_def inj_on_def by (auto simp: ran_def split: if_splits)
    moreover have "\<forall>p' \<in> ran (interned ip1). unat p' \<in> taken (in_arena ip1)"
      using ok fresh(2) m1 m2 None unfolding map by (auto simp: intern_ok_def ip1_def)
    moreover have "s \<notin> dom (interned ip)" using None by auto
    then have "in_count ip1 = card (dom (interned ip1))" "finite (dom (interned ip1))"
      using ok unfolding map by (simp_all add: intern_ok_def ip1_def)
    moreover have "interned ip \<subseteq>\<^sub>m interned ip1" using None map by (auto simp: map_le_def)
    ultimately show ?thesis using r map m2 by (auto simp: intern_ok_def ip1_def)
  qed
qed

lemma intern_run_map:
  assumes "intern_ok ip" and "list_all (\<lambda>s. length s < 2 ^ 60) ss" and "intern_run alloc ip ss = (rs, ip')"
  shows "intern_ok ip' \<and> interned ip \<subseteq>\<^sub>m interned ip' \<and> length rs = length ss \<and>
    (\<forall>k < length ss. rs ! k = None \<or> rs ! k = interned ip' (ss ! k))"
  using assms
proof (induction ss arbitrary: ip rs)
  case Nil
  then show ?case by simp
next
  case (Cons s ss)
  obtain r ip1 rs' where get: "oas_intern_get alloc (Some ip) (Some s) = (r, Some ip1)"
    and ok1: "intern_ok ip1" and rs: "rs = r # rs'" "intern_run alloc ip1 ss = (rs', ip')"
    and m: "case r of None \<Rightarrow> interned ip1 = interned ip | Some p \<Rightarrow> interned ip1 = (interned ip)(s \<mapsto> p)"
    using intern_get_map [OF Cons.prems(1), of s] Cons.prems(2,3)
    by (cases "oas_intern_get alloc (Some ip) (Some s)") (fastforce split: prod.splits)
  have IH: "intern_ok ip' \<and> interned ip1 \<subseteq>\<^sub>m interned ip' \<and> length rs' = length ss \<and>
    (\<forall>k < length ss. rs' ! k = None \<or> rs' ! k = interned ip' (ss ! k))"
    using Cons.IH [OF ok1 _ rs(2)] Cons.prems(2) by simp
  have sub: "interned ip \<subseteq>\<^sub>m interned ip1"
    using intern_get_map [OF Cons.prems(1) _ get] Cons.prems(2) by simp
  have "r = None \<or> r = interned ip' s"
    using m IH by (cases r) (auto simp: map_le_def)
  then show ?case using IH sub rs(1) by (auto simp: nth_Cons' intro: map_le_trans)
qed

lemma intern_run_dom:
  assumes "intern_ok ip" and "list_all (\<lambda>s. length s < 2 ^ 60) ss" and "intern_run alloc ip ss = (rs, ip')"
  shows "dom (interned ip') \<subseteq> dom (interned ip) \<union> set ss"
  using assms
proof (induction ss arbitrary: ip rs)
  case (Cons s ss)
  obtain r ip1 rs' where get: "oas_intern_get alloc (Some ip) (Some s) = (r, Some ip1)"
    and ok1: "intern_ok ip1" and rs: "intern_run alloc ip1 ss = (rs', ip')"
    and m: "case r of None \<Rightarrow> interned ip1 = interned ip | Some p \<Rightarrow> interned ip1 = (interned ip)(s \<mapsto> p)"
    using intern_get_map [OF Cons.prems(1), of s] Cons.prems(2,3)
    by (cases "oas_intern_get alloc (Some ip) (Some s)") (fastforce split: prod.splits)
  have "dom (interned ip1) \<subseteq> insert s (dom (interned ip))" using m by (cases r) auto
  moreover have "dom (interned ip') \<subseteq> dom (interned ip1) \<union> set ss"
    using Cons.IH [OF ok1 _ rs] Cons.prems(2) by simp
  ultimately show ?case unfolding list.set by blast
qed simp

end

section \<open>Properties\<close>

lemma intern_create_ok:
  assumes "malloc_ok malloc" and "arena_inv malloc a" and "unat cap < 2 ^ 57"
    and "oas_intern_create (oas_arena_alloc malloc) (Some a) cap = Some ip"
  shows "arena.intern_ok malloc ip \<and> interned ip = Map.empty"
proof -
  let ?cap = "if cap = 0 then oas_intern_default_cap else cap"
  have c: "unat ?cap < 2 ^ 57" using assms(3) by (simp add: oas_intern_default_cap_def)
  then have "unat (8 * ?cap) = 8 * unat ?cap" by (subst unat_mult_lem [THEN iffD1]) simp_all
  then have rq: "request_ok 32 8" "request_ok (8 * ?cap) 8" using c by (simp_all add: request_ok_def)
  obtain p1 a1 p2 a2 where 1: "oas_arena_alloc malloc a 32 8 = (Some p1, a1)"
    and 2: "oas_arena_alloc malloc a1 (8 * ?cap) 8 = (Some p2, a2)"
    and ip: "ip = \<lparr>in_arena = a2, in_buckets = (\<lambda>_. []), in_capacity = ?cap, in_count = 0\<rparr>"
    using assms(4) by (auto simp: oas_intern_create_def Let_def split: option.splits prod.splits)
  have "arena_inv malloc a2"
    using arena.alloc_taken_mono [OF _ rq(1) 1] arena.alloc_taken_mono [OF _ rq(2) 2] assms(1,2) by blast
  moreover have "interned ip = Map.empty" "in_arena ip = a2" "in_count ip = 0"
    by (simp_all add: ip interned_def fun_eq_iff)
  ultimately show ?thesis using assms(1) unfolding arena.intern_ok_def by simp
qed

text \<open>A pool with one bucket, so that all strings collide.\<close>

definition sample_arena :: oas_arena where
  "sample_arena = \<lparr>blocks = [\<lparr>blk_data = 2 ^ 25 + 32, blk_capacity = 4096, blk_used = 0\<rparr>], current = 0,
      block_size = 4096, total_allocated = 0, mallocs = 2\<rparr>"

lemma sample_arena_inv: "arena_inv sample_malloc sample_arena"
proof -
  have "oas_arena_create sample_malloc 4096 = Some sample_arena"
    by (simp add: oas_arena_create_def oas_arena_block_create_def sample_malloc_def
        sizeof_arena_block_def sample_arena_def)
  then show ?thesis using arena_create_inv [OF sample_malloc_ok, of 4096] by simp
qed


definition sample_pool :: "oas_arena oas_intern" where
  "sample_pool = the (oas_intern_create (oas_arena_alloc sample_malloc) (Some sample_arena) 1)"

lemma sample_pool_create:
  "oas_intern_create (oas_arena_alloc sample_malloc) (Some sample_arena) 1 = Some sample_pool"
proof -
  have "oas_intern_create (oas_arena_alloc sample_malloc) (Some sample_arena) 1 \<noteq> None"
    by (simp add: oas_intern_create_def sample_arena_def oas_arena_alloc_def align_up_def Let_def)
  then show ?thesis by (simp add: sample_pool_def)
qed

lemma sample_pool_run:
  "fst (intern_run (oas_arena_alloc sample_malloc) sample_pool [''a'', ''b'', ''a'']) =
     [Some 33554504, Some 33554536, Some 33554504]"
  by code_simp

text \<open>
  C17. Pointer comparison replaces string comparison: for any sequence of strings interned in a
  fresh pool, two calls that both returned a pointer returned the same pointer exactly when
  they were given the same string, hash collisions and refused allocations notwithstanding.
\<close>

theorem intern_pointers_canonical:
  assumes "malloc_ok malloc" and "arena_inv malloc a" and "unat cap < 2 ^ 57"
    and "oas_intern_create (oas_arena_alloc malloc) (Some a) cap = Some ip"
    and "list_all (\<lambda>s. length s < 2 ^ 60) ss"
    and "i < length ss" and "j < length ss"
    and "fst (intern_run (oas_arena_alloc malloc) ip ss) ! i = Some p"
    and "fst (intern_run (oas_arena_alloc malloc) ip ss) ! j = Some q"
  shows "p = q \<longleftrightarrow> ss ! i = ss ! j"
proof -
  obtain rs ip' where run: "intern_run (oas_arena_alloc malloc) ip ss = (rs, ip')" by fastforce
  note r = arena.intern_run_map [OF conjunct1 [OF intern_create_ok [OF assms(1-4)]] assms(5) run]
  have "interned ip' (ss ! i) = Some p" "interned ip' (ss ! j) = Some q"
    using r assms(6-9) run by (metis fst_conv option.distinct(1))+
  then show ?thesis using r by (auto simp: arena.intern_ok_def inj_on_def dom_def)
qed

theorem intern_pointers_canonical_witness:
  "fst (intern_run (oas_arena_alloc sample_malloc) sample_pool [''a'', ''b'', ''a'']) ! 0 =
     fst (intern_run (oas_arena_alloc sample_malloc) sample_pool [''a'', ''b'', ''a'']) ! 2 \<and>
   fst (intern_run (oas_arena_alloc sample_malloc) sample_pool [''a'', ''b'', ''a'']) ! 0 \<noteq>
     fst (intern_run (oas_arena_alloc sample_malloc) sample_pool [''a'', ''b'', ''a'']) ! 1"
proof -
  note c = intern_pointers_canonical [OF sample_malloc_ok sample_arena_inv _ sample_pool_create,
      of "[''a'', ''b'', ''a'']"]
  show ?thesis
    using c [of 0 2 33554504 33554504] c [of 0 1 33554504 33554536] by (simp add: sample_pool_run del: intern_run.simps)
qed

text \<open>
  The counter of the pool is the number of different strings it holds, and every string
  whose pointer was returned is in it.
\<close>

theorem intern_count_distinct:
  assumes "malloc_ok malloc" and "arena_inv malloc a" and "unat cap < 2 ^ 57"
    and "oas_intern_create (oas_arena_alloc malloc) (Some a) cap = Some ip"
    and "list_all (\<lambda>s. length s < 2 ^ 60) ss"
    and "None \<notin> set (fst (intern_run (oas_arena_alloc malloc) ip ss))"
  shows "oas_intern_count (Some (snd (intern_run (oas_arena_alloc malloc) ip ss))) = card (set ss)"
proof -
  obtain rs ip' where run: "intern_run (oas_arena_alloc malloc) ip ss = (rs, ip')" by fastforce
  note c = intern_create_ok [OF assms(1-4)]
  note r = arena.intern_run_map [OF conjunct1 [OF c] assms(5) run]
  have "set ss \<subseteq> dom (interned ip')"
  proof
    fix s assume "s \<in> set ss"
    then obtain k where "k < length ss" "ss ! k = s" by (auto simp: in_set_conv_nth)
    then show "s \<in> dom (interned ip')"
      using r assms(6) run nth_mem [of k rs] by (metis domIff fst_conv)
  qed
  moreover have "dom (interned ip') \<subseteq> dom (interned ip) \<union> set ss"
    using arena.intern_run_dom [OF conjunct1 [OF c] assms(5) run] .
  ultimately have "dom (interned ip') = set ss" using c by auto
  then show ?thesis using r run by (simp add: oas_intern_count_def arena.intern_ok_def)
qed

theorem intern_count_distinct_witness:
  "oas_intern_count (Some (snd (intern_run (oas_arena_alloc sample_malloc) sample_pool [''a'', ''b'', ''a'']))) = 2"
  using intern_count_distinct [OF sample_malloc_ok sample_arena_inv _ sample_pool_create,
      of "[''a'', ''b'', ''a'']"]
  by (simp add: sample_pool_run insert_commute del: intern_run.simps)

end
