(* ===== verification/Liboas_Uri.thy ===== *)
theory Liboas_Uri
  imports Liboas_Error
begin

text \<open>
  URI references (\<open>src/parser/oas_uri.c\<close>): splitting into components, resolution against a base
  and the check for parent directories. Component strings are copied into the arena, which may
  refuse any of them.
\<close>

section \<open>Components\<close>

record oas_uri =
  ur_scheme :: "string option"
  ur_host :: "string option"
  ur_port :: u16
  ur_path :: "string option"
  ur_query :: "string option"
  ur_fragment :: "string option"
  ur_is_absolute :: bool
  ur_is_fragment_only :: bool

definition uri_zero :: oas_uri where
  "uri_zero = \<lparr>ur_scheme = None, ur_host = None, ur_port = 0, ur_path = None, ur_query = None,
     ur_fragment = None, ur_is_absolute = False, ur_is_fragment_only = False\<rparr>"

definition arena_strndup :: "'a allocator \<Rightarrow> 'a \<Rightarrow> string \<Rightarrow> string option \<times> 'a" where
  "arena_strndup alloc a s =
     (case alloc a (of_nat (length s) + 1) 1 of
        (None, a) \<Rightarrow> (None, a)
      | (Some _, a) \<Rightarrow> (Some s, a))"

text \<open>At most five digits, so the value of type \<open>unsigned long\<close> does not wrap.\<close>

definition port_digit :: "char \<Rightarrow> bool" where
  "port_digit c \<longleftrightarrow> byte CHR ''0'' \<le> byte c \<and> byte c \<le> byte CHR ''9''"

definition port_value :: "string \<Rightarrow> nat" where
  "port_value s = foldl (\<lambda>v c. v * 10 + (byte c - byte CHR ''0'')) 0 s"

definition parse_port :: "string \<Rightarrow> u16" where
  "parse_port s =
     (if s = [] \<or> length s > 5 then 0
      else if \<not> list_all port_digit s then 0
      else if port_value s > 65535 then 0
      else of_nat (port_value s))"

section \<open>Parsing\<close>

text \<open>The unread string, the output structure and the arena.\<close>

record 'a uri_state =
  us_p :: string
  us_out :: oas_uri
  us_arena :: 'a

type_synonym 'a uri_step = "'a uri_state \<Rightarrow> errno option \<times> 'a uri_state"

fun uri_steps :: "'a uri_step list \<Rightarrow> 'a uri_step" where
  "uri_steps [] st = (None, st)"
| "uri_steps (f # fs) st =
     (case f st of (Some e, st) \<Rightarrow> (Some e, st) | (None, st) \<Rightarrow> uri_steps fs st)"

text \<open>A copy of \<open>t\<close> stored into a field; then the reader goes on at \<open>rest\<close>.\<close>

definition keep_text ::
    "'a allocator \<Rightarrow> (string option \<Rightarrow> oas_uri \<Rightarrow> oas_uri) \<Rightarrow> string \<Rightarrow> string \<Rightarrow> 'a uri_step" where
  "keep_text alloc f t rest st =
     (case arena_strndup alloc (us_arena st) t of
        (None, a) \<Rightarrow> (Some ENOMEM, st\<lparr>us_out := f None (us_out st), us_arena := a\<rparr>)
      | (Some x, a) \<Rightarrow> (None, st\<lparr>us_p := rest, us_out := f (Some x) (us_out st), us_arena := a\<rparr>))"

definition is_alpha :: "char \<Rightarrow> bool" where
  "is_alpha c \<longleftrightarrow> (byte CHR ''a'' \<le> byte c \<and> byte c \<le> byte CHR ''z'') \<or>
     (byte CHR ''A'' \<le> byte c \<and> byte c \<le> byte CHR ''Z'')"

definition scheme_char :: "char \<Rightarrow> bool" where
  "scheme_char c \<longleftrightarrow> is_alpha c \<or> port_digit c \<or> c \<in> {CHR ''+'', CHR ''-'', CHR ''.''}"

fun valid_scheme :: "string \<Rightarrow> bool" where
  "valid_scheme [] \<longleftrightarrow> False"
| "valid_scheme (c # s) \<longleftrightarrow> is_alpha c \<and> list_all scheme_char s"

text \<open>The first colon counts only if it comes before the first slash.\<close>

definition uri_scheme :: "'a allocator \<Rightarrow> 'a uri_step" where
  "uri_scheme alloc st =
     (let pre = takeWhile (\<lambda>c. c \<noteq> CHR '':'') (us_p st)
      in case dropWhile (\<lambda>c. c \<noteq> CHR '':'') (us_p st) of
           [] \<Rightarrow> (None, st)
         | _ # rest \<Rightarrow>
             if CHR ''/'' \<notin> set pre \<and> valid_scheme pre
             then keep_text alloc (\<lambda>x u. u\<lparr>ur_scheme := x, ur_is_absolute := x \<noteq> None\<rparr>) pre rest st
             else (None, st))"

definition auth_char :: "char \<Rightarrow> bool" where
  "auth_char c \<longleftrightarrow> c \<noteq> CHR ''/'' \<and> c \<noteq> CHR ''?'' \<and> c \<noteq> CHR ''#''"

text \<open>Host and port are parted at the last colon of the authority.\<close>

definition uri_authority :: "'a allocator \<Rightarrow> 'a uri_step" where
  "uri_authority alloc st =
     (case us_p st of
        c # d # p \<Rightarrow>
          if c = CHR ''/'' \<and> d = CHR ''/''
          then
            let auth = takeWhile auth_char p;
                rest = dropWhile auth_char p
            in (case dropWhile (\<lambda>c. c \<noteq> CHR '':'') (rev auth) of
                  [] \<Rightarrow> keep_text alloc (\<lambda>x u. u\<lparr>ur_host := x\<rparr>) auth rest st
                | _ # host \<Rightarrow>
                    keep_text alloc
                      (\<lambda>x u. u\<lparr>ur_host := x,
                         ur_port := if x = None then 0
                                    else parse_port (rev (takeWhile (\<lambda>c. c \<noteq> CHR '':'') (rev auth)))\<rparr>)
                      (rev host) rest st)
          else (None, st)
      | _ \<Rightarrow> (None, st))"

definition path_char :: "char \<Rightarrow> bool" where
  "path_char c \<longleftrightarrow> c \<noteq> CHR ''?'' \<and> c \<noteq> CHR ''#''"

definition uri_path :: "'a allocator \<Rightarrow> 'a uri_step" where
  "uri_path alloc st =
     (case us_p st of
        [] \<Rightarrow> (None, st)
      | c # _ \<Rightarrow>
          if path_char c
          then keep_text alloc (\<lambda>x u. u\<lparr>ur_path := x\<rparr>) (takeWhile path_char (us_p st))
                 (dropWhile path_char (us_p st)) st
          else (None, st))"

definition uri_query :: "'a allocator \<Rightarrow> 'a uri_step" where
  "uri_query alloc st =
     (case us_p st of
        c # p \<Rightarrow>
          if c = CHR ''?''
          then keep_text alloc (\<lambda>x u. u\<lparr>ur_query := x\<rparr>)
                 (takeWhile (\<lambda>c. c \<noteq> CHR ''#'') p) (dropWhile (\<lambda>c. c \<noteq> CHR ''#'') p) st
          else (None, st)
      | [] \<Rightarrow> (None, st))"

definition uri_fragment :: "'a allocator \<Rightarrow> 'a uri_step" where
  "uri_fragment alloc st =
     (case us_p st of
        c # p \<Rightarrow>
          if c = CHR ''#'' then keep_text alloc (\<lambda>x u. u\<lparr>ur_fragment := x\<rparr>) p p st else (None, st)
      | [] \<Rightarrow> (None, st))"

text \<open>The code, the structure written through \<open>out\<close>, and the arena.\<close>

definition oas_uri_parse ::
    "'a allocator \<Rightarrow> string option \<Rightarrow> 'a option \<Rightarrow> oas_uri option
      \<Rightarrow> errno option \<times> oas_uri option \<times> 'a option" where
  "oas_uri_parse alloc uri arena out =
     (case (uri, arena, out) of
        (Some p, Some a, Some _) \<Rightarrow>
          let st = \<lparr>us_p = p, us_out = uri_zero, us_arena = a\<rparr>;
              (rc, st) =
                (if p \<noteq> [] \<and> hd p = CHR ''#''
                 then keep_text alloc (\<lambda>x u. u\<lparr>ur_fragment := x, ur_is_fragment_only := True\<rparr>) (tl p) [] st
                 else uri_steps [uri_scheme alloc, uri_authority alloc, uri_path alloc, uri_query alloc,
                        uri_fragment alloc] st)
          in (rc, Some (us_out st), Some (us_arena st))
      | _ \<Rightarrow> (Some EINVAL, out, arena))"

section \<open>Resolution\<close>

definition merge_base :: "'a allocator \<Rightarrow> 'a \<Rightarrow> string option \<Rightarrow> string option \<times> 'a" where
  "merge_base alloc a path =
     (case path of
        None \<Rightarrow> (Some ''/'', a)
      | Some s \<Rightarrow>
          if s = [] then (Some ''/'', a)
          else
            (case dropWhile (\<lambda>c. c \<noteq> CHR ''/'') (rev s) of
               [] \<Rightarrow> (Some [], a)
             | d \<Rightarrow> arena_strndup alloc a (rev d)))"

definition opt_len :: "nat \<Rightarrow> string option \<Rightarrow> u64" where
  "opt_len extra x = (case x of None \<Rightarrow> 0 | Some s \<Rightarrow> of_nat (length s) + of_nat extra)"

definition opt_text :: "string \<Rightarrow> string option \<Rightarrow> string \<Rightarrow> string" where
  "opt_text before x after = (case x of None \<Rightarrow> [] | Some s \<Rightarrow> before @ s @ after)"

text \<open>What both branches count and write of the base: \<open>scheme://host:port\<close>.\<close>

definition base_len :: "oas_uri \<Rightarrow> u64" where
  "base_len b = opt_len 3 (ur_scheme b) + opt_len 0 (ur_host b) + (if ur_port b > 0 then 6 else 0)"

definition base_text :: "oas_uri \<Rightarrow> string" where
  "base_text b = opt_text [] (ur_scheme b) ''://'' @ opt_text [] (ur_host b) [] @
     (if ur_port b > 0 then CHR '':'' # dec_nat (unat (ur_port b)) else [])"

text \<open>
  \<open>sprintf\<close> into a buffer of \<open>len\<close> bytes: \<open>None\<close> where text and terminator do not fit and the
  code writes past its end.
\<close>

definition print_into ::
    "'a allocator \<Rightarrow> 'a \<Rightarrow> u64 \<Rightarrow> string \<Rightarrow> (errno option \<times> string option \<times> 'a) option" where
  "print_into alloc a len t =
     (case alloc a len 1 of
        (None, a) \<Rightarrow> Some (Some ENOMEM, None, a)
      | (Some _, a) \<Rightarrow> if length t < unat len then Some (None, Some t, a) else None)"

definition resolve_parsed ::
    "'a allocator \<Rightarrow> 'a \<Rightarrow> oas_uri \<Rightarrow> string \<Rightarrow> oas_uri \<Rightarrow> (errno option \<times> string option \<times> 'a) option" where
  "resolve_parsed alloc a base ref parsed =
     (if ur_is_absolute parsed
      then
        (case arena_strndup alloc a ref of
           (None, a) \<Rightarrow> Some (Some ENOMEM, None, a)
         | (Some x, a) \<Rightarrow> Some (None, Some x, a))
      else if ur_is_fragment_only parsed
      then print_into alloc a
             (base_len base + opt_len 0 (ur_path base) + opt_len 1 (ur_fragment parsed) + 1)
             (base_text base @ opt_text [] (ur_path base) [] @ opt_text ''#'' (ur_fragment parsed) [])
      else
        (case merge_base alloc a (ur_path base) of
           (None, a) \<Rightarrow> Some (Some ENOMEM, None, a)
         | (Some dir, a) \<Rightarrow>
             let rel = (case ur_path parsed of None \<Rightarrow> [] | Some r \<Rightarrow> r)
             in print_into alloc a
                  (base_len base + (of_nat (length dir) + of_nat (length rel)) +
                   opt_len 1 (ur_fragment parsed) + opt_len 1 (ur_query parsed) + 1)
                  (base_text base @ dir @ rel @ opt_text ''?'' (ur_query parsed) [] @
                   opt_text ''#'' (ur_fragment parsed) [])))"

text \<open>
  The code, what is stored through \<open>out\<close> (\<open>None\<close> for nothing or a null pointer) and the arena.
\<close>

definition oas_uri_resolve ::
    "'a allocator \<Rightarrow> oas_uri option \<Rightarrow> string option \<Rightarrow> 'a option \<Rightarrow> bool
      \<Rightarrow> (errno option \<times> string option \<times> 'a option) option" where
  "oas_uri_resolve alloc base ref arena have_out =
     (case (base, ref, arena) of
        (Some b, Some r, Some a) \<Rightarrow>
          if \<not> have_out then Some (Some EINVAL, None, arena)
          else
            (case oas_uri_parse alloc (Some r) (Some a) (Some uri_zero) of
               (Some e, _, a) \<Rightarrow> Some (Some e, None, a)
             | (None, parsed, a) \<Rightarrow>
                 map_option (\<lambda>(rc, t, a). (rc, t, Some a)) (resolve_parsed alloc (the a) b r (the parsed)))
      | _ \<Rightarrow> Some (Some EINVAL, None, arena))"

section \<open>Safe paths\<close>

text \<open>The loop at a position: whether it is the start or follows a slash, and the unread bytes.\<close>

fun safe_loop :: "bool \<Rightarrow> string \<Rightarrow> bool" where
  "safe_loop first [] \<longleftrightarrow> True"
| "safe_loop first (c # p) \<longleftrightarrow>
     (if first \<and> c = CHR ''.'' \<and> (case p of d # q \<Rightarrow> d = CHR ''.'' \<and> (case q of [] \<Rightarrow> True | e # _ \<Rightarrow> e = CHR ''/'') | [] \<Rightarrow> False)
      then False
      else safe_loop (c = CHR ''/'') p)"

definition oas_uri_path_is_safe :: "string option \<Rightarrow> bool" where
  "oas_uri_path_is_safe path = (case path of None \<Rightarrow> True | Some p \<Rightarrow> safe_loop True p)"


section \<open>Safe paths are those without a parent segment\<close>

fun later_parent :: "string \<Rightarrow> bool" where
  "later_parent p \<longleftrightarrow> ''..'' \<in> set (tl (split_on CHR ''/'' p))"

lemma safe_loop_split:
  "safe_loop first p \<longleftrightarrow> (if first then ''..'' \<notin> set (split_on CHR ''/'' p) else \<not> later_parent p)"
proof (induction p arbitrary: first)
  case (Cons c p)
  obtain s ss where p: "split_on CHR ''/'' p = s # ss" by (metis list.exhaust split_on_not_Nil)
  show ?case
  proof (cases "c = CHR ''/''")
    case True
    then show ?thesis using Cons.IH [of True] p by simp
  next
    case False
    have dot: "(case p of d # q \<Rightarrow> d = CHR ''.'' \<and> (case q of [] \<Rightarrow> True | e # _ \<Rightarrow> e = CHR ''/'') | [] \<Rightarrow> False)
        \<longleftrightarrow> s = ''.''"
      using p by (auto split: list.splits if_splits)
    show ?thesis using Cons.IH [of False] False p dot by auto
  qed
qed simp

section \<open>Parsing what was written\<close>

definition authority_text :: "oas_uri \<Rightarrow> string" where
  "authority_text u =
     (case ur_host u of
        None \<Rightarrow> []
      | Some h \<Rightarrow> ''//'' @ h @ (if ur_port u = 0 then [] else CHR '':'' # dec_nat (unat (ur_port u))))"

definition tail_text :: "oas_uri \<Rightarrow> string" where
  "tail_text u = opt_text ''?'' (ur_query u) [] @ opt_text ''#'' (ur_fragment u) []"

definition render_uri :: "oas_uri \<Rightarrow> string" where
  "render_uri u = opt_text [] (ur_scheme u) '':'' @ authority_text u @ opt_text [] (ur_path u) [] @ tail_text u"

text \<open>
  Structures a reference can be written for: no delimiter inside a component, a path that is
  not taken for a scheme or an authority, a path after an authority absolute.
\<close>

definition uri_ok :: "oas_uri \<Rightarrow> bool" where
  "uri_ok u \<longleftrightarrow>
     (ur_is_absolute u \<longleftrightarrow> ur_scheme u \<noteq> None) \<and> \<not> ur_is_fragment_only u \<and>
     pred_option valid_scheme (ur_scheme u) \<and>
     pred_option (\<lambda>h. set h \<inter> {CHR '':'', CHR ''/'', CHR ''?'', CHR ''#''} = {}) (ur_host u) \<and>
     (ur_host u = None \<longrightarrow> ur_port u = 0) \<and>
     pred_option (\<lambda>p. p \<noteq> [] \<and> set p \<inter> {CHR ''?'', CHR ''#''} = {} \<and>
       (if ur_host u \<noteq> None then hd p = CHR ''/''
        else take 2 p \<noteq> ''//'' \<and>
          (ur_scheme u = None \<longrightarrow> CHR '':'' \<in> set p \<longrightarrow> CHR ''/'' \<in> set (takeWhile (\<lambda>c. c \<noteq> CHR '':'') p))))
       (ur_path u) \<and>
     pred_option (\<lambda>q. CHR ''#'' \<notin> set q) (ur_query u) \<and>
     (ur_scheme u \<noteq> None \<or> ur_host u \<noteq> None \<or> ur_path u \<noteq> None \<or> ur_query u \<noteq> None \<or> ur_fragment u = None)"

lemma dec_nat_port_digits: "list_all port_digit (dec_nat n)"
proof (induction n rule: dec_nat.induct)
  case (1 n)
  have "port_digit (char_of (48 + k))" if "k < 10" for k :: nat
    using that by (simp add: port_digit_def)
  then show ?case using 1 dec_nat.simps [of n] by auto
qed

lemma port_value_snoc: "port_value (s @ [c]) = port_value s * 10 + (byte c - byte CHR ''0'')"
  by (simp add: port_value_def)

lemma port_value_dec_nat: "port_value (dec_nat n) = n"
proof (induction n rule: dec_nat.induct)
  case (1 n)
  have d: "byte (char_of (48 + k) :: char) - byte CHR ''0'' = k" if "k < 10" for k :: nat
    using that by simp
  show ?case
  proof (cases "n < 10")
    case True
    then show ?thesis using d [of n] dec_nat.simps [of n] by (simp add: port_value_def)
  next
    case False
    then show ?thesis using 1 d [of "n mod 10"] dec_nat.simps [of n] by (simp add: port_value_snoc)
  qed
qed

lemma dec_nat_length: "n < 10 ^ Suc k \<Longrightarrow> length (dec_nat n) \<le> Suc k"
proof (induction k arbitrary: n)
  case 0
  then show ?case by (simp add: dec_nat.simps)
next
  case (Suc k)
  then have "n div 10 < 10 ^ Suc k" by (simp add: less_mult_imp_div_less)
  then show ?case using Suc.IH [of "n div 10"] dec_nat.simps [of n] by simp
qed

lemma length_dec_port: "length (dec_nat (unat (p :: u16))) \<le> 5"
  using unsigned_less [of p, where ?'a = nat] by (intro dec_nat_length [of _ 4, simplified]) simp

lemma dec_nat_not_Nil [simp]: "dec_nat n \<noteq> []"
  by (subst dec_nat.simps) simp

lemma parse_port_dec: "parse_port (dec_nat (unat (p :: u16))) = p"
proof -
  have "unat p \<le> 65535" using unsigned_less [of p, where ?'a = nat] by simp
  then show ?thesis
    using length_dec_port [of p] by (simp add: parse_port_def port_value_dec_nat dec_nat_port_digits)
qed


text \<open>One stage: what it reads off the string and stores, when memory is granted.\<close>

definition reads :: "'a uri_step \<Rightarrow> string \<Rightarrow> string \<Rightarrow> (oas_uri \<Rightarrow> oas_uri) \<Rightarrow> bool" where
  "reads f s r g \<longleftrightarrow> (\<forall>st. us_p st = s \<longrightarrow>
     (\<exists>st'. f st = (None, st') \<and> us_p st' = r \<and> us_out st' = g (us_out st)))"

lemma reads_steps:
  "reads (uri_steps []) s s id"
  "reads f s r g \<Longrightarrow> reads (uri_steps fs) r t h \<Longrightarrow> reads (uri_steps (f # fs)) s t (h \<circ> g)"
  by (fastforce simp: reads_def)+

lemma reads_from:
  assumes "reads f s r g"
  obtains st' where "f \<lparr>us_p = s, us_out = u, us_arena = a\<rparr> = (None, st')" "us_out st' = g u"
  using assms unfolding reads_def by (metis uri_state.select_convs(1,2))

lemma reads_nothing: "(\<And>st. us_p st = s \<Longrightarrow> f st = (None, st)) \<Longrightarrow> reads f s s id"
  by (simp add: reads_def)

lemma strndup_granted:
  assumes "alloc_total alloc" and "length t < 2 ^ 60"
  obtains a' where "arena_strndup alloc a t = (Some t, a')"
proof -
  obtain p a' where "alloc a (of_nat (length t + 1)) 1 = (Some p, a')"
    using granted [OF assms(1), of "length t + 1" 1 a] assms(2) by auto
  then show thesis using that by (simp add: arena_strndup_def add.commute)
qed

lemma reads_text:
  assumes "alloc_total alloc" and "length t < 2 ^ 60"
    and "\<And>st. us_p st = s \<Longrightarrow> f st = keep_text alloc g t r st"
  shows "reads f s r (g (Some t))"
  unfolding reads_def
proof (intro allI impI)
  fix st :: "'a uri_state"
  assume "us_p st = s"
  then have f: "f st = keep_text alloc g t r st" by (rule assms(3))
  obtain a' where "arena_strndup alloc (us_arena st) t = (Some t, a')"
    by (rule strndup_granted [OF assms(1,2)])
  then show "\<exists>st'. f st = (None, st') \<and> us_p st' = r \<and> us_out st' = g (Some t) (us_out st)"
    by (simp add: f keep_text_def)
qed

lemma takeWhile_stop: "list_all P s \<Longrightarrow> r = [] \<or> \<not> P (hd r) \<Longrightarrow> takeWhile P (s @ r) = s \<and> dropWhile P (s @ r) = r"
proof (induction s)
  case Nil
  then show ?case by (cases r) auto
qed auto

lemma not_special:
  "set h \<inter> {CHR '':'', CHR ''/'', CHR ''?'', CHR ''#''} = {} \<Longrightarrow>
     list_all auth_char h \<and> CHR '':'' \<notin> set h"
  by (auto simp: list_all_iff auth_char_def)

lemma scheme_no_colon: "valid_scheme s \<Longrightarrow> list_all (\<lambda>c. c \<noteq> CHR '':'') s \<and> CHR ''/'' \<notin> set s"
  by (cases s) (auto simp: list_all_iff scheme_char_def is_alpha_def port_digit_def)

lemma reads_scheme:
  assumes "alloc_total alloc" and "length s < 2 ^ 60" and "valid_scheme s"
  shows "reads (uri_scheme alloc) (s @ CHR '':'' # r) r (\<lambda>u. u\<lparr>ur_scheme := Some s, ur_is_absolute := True\<rparr>)"
proof -
  have "takeWhile (\<lambda>c. c \<noteq> CHR '':'') (s @ CHR '':'' # r) = s \<and> dropWhile (\<lambda>c. c \<noteq> CHR '':'') (s @ CHR '':'' # r) = CHR '':'' # r"
    using scheme_no_colon [OF assms(3)] by (intro takeWhile_stop) simp_all
  then have "reads (uri_scheme alloc) (s @ CHR '':'' # r) r
      ((\<lambda>x u. u\<lparr>ur_scheme := x, ur_is_absolute := x \<noteq> None\<rparr>) (Some s))"
    using assms(3) scheme_no_colon [OF assms(3)]
    by (intro reads_text [OF assms(1,2)]) (simp add: uri_scheme_def)
  then show ?thesis by simp
qed

lemma last_colon:
  assumes "CHR '':'' \<notin> set t"
  shows "dropWhile (\<lambda>c. c \<noteq> CHR '':'') (rev (h @ CHR '':'' # t)) = CHR '':'' # rev h"
    and "takeWhile (\<lambda>c. c \<noteq> CHR '':'') (rev (h @ CHR '':'' # t)) = rev t"
proof -
  have "list_all (\<lambda>c. c \<noteq> CHR '':'') (rev t)" using assms by (auto simp: list_all_iff)
  then have "takeWhile (\<lambda>c. c \<noteq> CHR '':'') (rev t @ CHR '':'' # rev h) = rev t \<and>
      dropWhile (\<lambda>c. c \<noteq> CHR '':'') (rev t @ CHR '':'' # rev h) = CHR '':'' # rev h"
    by (intro takeWhile_stop) simp_all
  then show "dropWhile (\<lambda>c. c \<noteq> CHR '':'') (rev (h @ CHR '':'' # t)) = CHR '':'' # rev h"
    "takeWhile (\<lambda>c. c \<noteq> CHR '':'') (rev (h @ CHR '':'' # t)) = rev t" by simp_all
qed

definition ends :: "string \<Rightarrow> bool" where
  "ends r \<longleftrightarrow> r = [] \<or> hd r \<in> {CHR ''/'', CHR ''?'', CHR ''#''}"

lemma reads_host:
  assumes "alloc_total alloc" and "length h < 2 ^ 60"
    and "set h \<inter> {CHR '':'', CHR ''/'', CHR ''?'', CHR ''#''} = {}" and "ends r"
  shows "reads (uri_authority alloc) (''//'' @ h @ r) r (\<lambda>u. u\<lparr>ur_host := Some h\<rparr>)"
proof -
  have a: "takeWhile auth_char (h @ r) = h \<and> dropWhile auth_char (h @ r) = r"
    using not_special [OF assms(3)] assms(4) by (intro takeWhile_stop) (auto simp: ends_def auth_char_def)
  have c: "dropWhile (\<lambda>c. c \<noteq> CHR '':'') (rev h) = []" using not_special [OF assms(3)] by auto
  show ?thesis using a c
    by (intro reads_text [OF assms(1,2)]) (simp add: uri_authority_def Let_def del: dropWhile_eq_Nil_conv)
qed

lemma reads_host_port:
  assumes "alloc_total alloc" and "length h < 2 ^ 60" and "port \<noteq> 0"
    and "set h \<inter> {CHR '':'', CHR ''/'', CHR ''?'', CHR ''#''} = {}" and "ends r"
  shows "reads (uri_authority alloc) (''//'' @ h @ CHR '':'' # dec_nat (unat port) @ r) r
    (\<lambda>u. u\<lparr>ur_host := Some h, ur_port := port\<rparr>)"
proof -
  have d: "list_all auth_char (dec_nat (unat port))" "CHR '':'' \<notin> set (dec_nat (unat port))"
    using dec_nat_port_digits [of "unat port"] by (auto simp: list_all_iff port_digit_def auth_char_def)
  have "takeWhile auth_char ((h @ CHR '':'' # dec_nat (unat port)) @ r) = h @ CHR '':'' # dec_nat (unat port) \<and>
      dropWhile auth_char ((h @ CHR '':'' # dec_nat (unat port)) @ r) = r"
    using not_special [OF assms(4)] d(1) assms(5) by (intro takeWhile_stop) (auto simp: ends_def auth_char_def)
  then have a: "takeWhile auth_char (h @ CHR '':'' # dec_nat (unat port) @ r) = h @ CHR '':'' # dec_nat (unat port)"
      "dropWhile auth_char (h @ CHR '':'' # dec_nat (unat port) @ r) = r" by simp_all
  have "reads (uri_authority alloc) (''//'' @ h @ CHR '':'' # dec_nat (unat port) @ r) r
      ((\<lambda>x u. u\<lparr>ur_host := x, ur_port := if x = None then 0 else parse_port (dec_nat (unat port))\<rparr>) (Some h))"
    using a last_colon [OF d(2), of h]
    by (intro reads_text [OF assms(1,2)]) (simp add: uri_authority_def Let_def del: rev_append cong: if_cong)
  then show ?thesis by (simp add: parse_port_dec)
qed


lemma scheme_skipped:
  assumes "us_p st = s"
    and "dropWhile (\<lambda>c. c \<noteq> CHR '':'') s = [] \<or> CHR ''/'' \<in> set (takeWhile (\<lambda>c. c \<noteq> CHR '':'') s) \<or>
      \<not> valid_scheme (takeWhile (\<lambda>c. c \<noteq> CHR '':'') s)"
  shows "uri_scheme alloc st = (None, st)"
proof (cases "dropWhile (\<lambda>c. c \<noteq> CHR '':'') s")
  case Nil
  show ?thesis unfolding uri_scheme_def Let_def assms(1) Nil by (simp only: list.case)
next
  case (Cons c r)
  then have "\<not> (CHR ''/'' \<notin> set (takeWhile (\<lambda>c. c \<noteq> CHR '':'') s) \<and> valid_scheme (takeWhile (\<lambda>c. c \<noteq> CHR '':'') s))"
    using assms(2) by (metis list.discI)
  then show ?thesis unfolding uri_scheme_def Let_def assms(1) Cons by (simp only: list.case if_False)
qed

lemma reads_no_scheme:
  assumes "e = [] \<or> \<not> path_char (hd e)"
    and "CHR '':'' \<in> set p \<Longrightarrow> CHR ''/'' \<in> set (takeWhile (\<lambda>c. c \<noteq> CHR '':'') p)"
  shows "reads (uri_scheme alloc) (p @ e) (p @ e) id"
proof (rule reads_nothing)
  fix st :: "'a uri_state"
  assume st: "us_p st = p @ e"
  let ?pre = "takeWhile (\<lambda>c. c \<noteq> CHR '':'') (p @ e)"
  have "dropWhile (\<lambda>c. c \<noteq> CHR '':'') (p @ e) = [] \<or> CHR ''/'' \<in> set ?pre \<or> \<not> valid_scheme ?pre"
  proof (cases "CHR '':'' \<in> set p")
    case True
    have "?pre = takeWhile (\<lambda>c. c \<noteq> CHR '':'') p" by (rule takeWhile_append1 [OF True]) simp
    then show ?thesis using assms(2) [OF True] by simp
  next
    case False
    then have w: "?pre = p @ takeWhile (\<lambda>c. c \<noteq> CHR '':'') e" by (intro takeWhile_append2) auto
    show ?thesis
    proof (cases e)
      case Nil
      then show ?thesis using False by auto
    next
      case (Cons c e')
      then have "c = CHR ''?'' \<or> c = CHR ''#''" using assms(1) by (auto simp: path_char_def)
      then have "c \<in> set ?pre \<and> \<not> scheme_char c" unfolding w
        by (auto simp: Cons scheme_char_def is_alpha_def port_digit_def)
      moreover have "valid_scheme ?pre \<Longrightarrow> \<forall>c \<in> set ?pre. scheme_char c"
        by (cases ?pre) (auto simp: list_all_iff scheme_char_def)
      ultimately show ?thesis by blast
    qed
  qed
  then show "uri_scheme alloc st = (None, st)" by (rule scheme_skipped [OF st])
qed

lemma reads_no_authority:
  assumes "e = [] \<or> \<not> path_char (hd e)" and "take 2 p \<noteq> ''//''"
  shows "reads (uri_authority alloc) (p @ e) (p @ e) id"
proof (rule reads_nothing)
  fix st :: "'a uri_state"
  assume st: "us_p st = p @ e"
  have "\<not> (\<exists>r. p @ e = CHR ''/'' # CHR ''/'' # r)"
    using assms by (auto simp: path_char_def append_eq_Cons_conv)
  then show "uri_authority alloc st = (None, st)" by (auto simp: uri_authority_def st split: list.split)
qed

lemma reads_path:
  assumes "alloc_total alloc" and "length p < 2 ^ 60" and "list_all path_char p" and "p \<noteq> []"
    and "e = [] \<or> \<not> path_char (hd e)"
  shows "reads (uri_path alloc) (p @ e) e (\<lambda>u. u\<lparr>ur_path := Some p\<rparr>)"
proof -
  obtain c q where p: "p = c # q" "path_char c" using assms(3,4) by (cases p) auto
  show ?thesis using takeWhile_stop [OF assms(3,5)] p
    by (intro reads_text [OF assms(1,2)]) (auto simp: uri_path_def)
qed

lemma reads_no_path: "e = [] \<or> \<not> path_char (hd e) \<Longrightarrow> reads (uri_path alloc) e e id"
  by (rule reads_nothing) (auto simp: uri_path_def split: list.split)

lemma reads_query:
  assumes "alloc_total alloc" and "length q < 2 ^ 60" and "CHR ''#'' \<notin> set q" and "e = [] \<or> hd e = CHR ''#''"
  shows "reads (uri_query alloc) (CHR ''?'' # q @ e) e (\<lambda>u. u\<lparr>ur_query := Some q\<rparr>)"
proof -
  have "takeWhile (\<lambda>c. c \<noteq> CHR ''#'') (q @ e) = q \<and> dropWhile (\<lambda>c. c \<noteq> CHR ''#'') (q @ e) = e"
    using assms(3,4) by (intro takeWhile_stop) (auto simp: list_all_iff)
  then show ?thesis by (intro reads_text [OF assms(1,2)]) (simp add: uri_query_def)
qed

lemma reads_no_query: "e = [] \<or> hd e = CHR ''#'' \<Longrightarrow> reads (uri_query alloc) e e id"
  by (rule reads_nothing) (auto simp: uri_query_def split: list.split)

lemma reads_fragment:
  assumes "alloc_total alloc" and "length f < 2 ^ 60"
  shows "reads (uri_fragment alloc) (CHR ''#'' # f) f (\<lambda>u. u\<lparr>ur_fragment := Some f\<rparr>)"
  by (intro reads_text [OF assms]) (simp add: uri_fragment_def)

lemma reads_no_fragment: "reads (uri_fragment alloc) [] [] id"
  by (rule reads_nothing) (simp add: uri_fragment_def)


definition uri_small :: "oas_uri \<Rightarrow> bool" where
  "uri_small u \<longleftrightarrow>
     list_all (pred_option (\<lambda>t. length t < 2 ^ 60)) [ur_scheme u, ur_host u, ur_path u, ur_query u, ur_fragment u]"

lemma tail_text_ends: "tail_text u = [] \<or> \<not> path_char (hd (tail_text u))"
  by (auto simp: tail_text_def opt_text_def path_char_def split: option.split)

lemma reads_tail:
  assumes "alloc_total alloc" and "uri_ok u" and "uri_small u"
  shows "reads (uri_steps [uri_query alloc, uri_fragment alloc]) (tail_text u) (case ur_fragment u of None \<Rightarrow> [] | Some f \<Rightarrow> f)
    (id \<circ> (case ur_fragment u of None \<Rightarrow> id | Some f \<Rightarrow> (\<lambda>u. u\<lparr>ur_fragment := Some f\<rparr>)) \<circ>
      (case ur_query u of None \<Rightarrow> id | Some q \<Rightarrow> (\<lambda>u. u\<lparr>ur_query := Some q\<rparr>)))"
proof (intro reads_steps(2))
  let ?e = "opt_text ''#'' (ur_fragment u) []"
  have e: "?e = [] \<or> hd ?e = CHR ''#''" by (simp add: opt_text_def split: option.split)
  show "reads (uri_query alloc) (tail_text u) ?e (case ur_query u of None \<Rightarrow> id | Some q \<Rightarrow> (\<lambda>u. u\<lparr>ur_query := Some q\<rparr>))"
  proof (cases "ur_query u")
    case None
    then show ?thesis using reads_no_query [OF e] by (simp add: tail_text_def opt_text_def)
  next
    case (Some q)
    then have "CHR ''#'' \<notin> set q" "length q < 2 ^ 60" using assms(2,3) by (simp_all add: uri_ok_def uri_small_def)
    then show ?thesis using reads_query [OF assms(1) _ _ e] Some by (simp add: tail_text_def opt_text_def)
  qed
  show "reads (uri_fragment alloc) ?e (case ur_fragment u of None \<Rightarrow> [] | Some f \<Rightarrow> f)
      (case ur_fragment u of None \<Rightarrow> id | Some f \<Rightarrow> (\<lambda>u. u\<lparr>ur_fragment := Some f\<rparr>))"
    using reads_no_fragment reads_fragment [OF assms(1)] assms(3)
    by (auto simp: opt_text_def uri_small_def split: option.split)
qed (rule reads_steps(1))

lemma reads_path_opt:
  assumes "alloc_total alloc" and "uri_ok u" and "uri_small u"
  shows "reads (uri_path alloc) (opt_text [] (ur_path u) [] @ tail_text u) (tail_text u)
    (case ur_path u of None \<Rightarrow> id | Some p \<Rightarrow> (\<lambda>u. u\<lparr>ur_path := Some p\<rparr>))"
proof (cases "ur_path u")
  case None
  then show ?thesis using reads_no_path [OF tail_text_ends] by (simp add: opt_text_def)
next
  case (Some p)
  then have "p \<noteq> []" "list_all path_char p" "length p < 2 ^ 60"
    using assms(2,3) by (auto simp: uri_ok_def uri_small_def list_all_iff path_char_def)
  then show ?thesis using reads_path [OF assms(1) _ _ _ tail_text_ends] Some by (simp add: opt_text_def)
qed

lemma reads_authority_opt:
  assumes "alloc_total alloc" and "uri_ok u" and "uri_small u"
  shows "reads (uri_authority alloc) (authority_text u @ opt_text [] (ur_path u) [] @ tail_text u)
    (opt_text [] (ur_path u) [] @ tail_text u)
    (case ur_host u of None \<Rightarrow> id | Some h \<Rightarrow>
       if ur_port u = 0 then (\<lambda>u. u\<lparr>ur_host := Some h\<rparr>) else (\<lambda>v. v\<lparr>ur_host := Some h, ur_port := ur_port u\<rparr>))"
proof (cases "ur_host u")
  case None
  then have "take 2 (opt_text [] (ur_path u) []) \<noteq> ''//''"
    using assms(2) by (auto simp: uri_ok_def opt_text_def split: option.split)
  from reads_no_authority [OF tail_text_ends this] show ?thesis using None by (simp add: authority_text_def)
next
  case (Some h)
  let ?r = "opt_text [] (ur_path u) [] @ tail_text u"
  have r: "ends ?r"
  proof (cases "ur_path u")
    case None
    then show ?thesis using tail_text_ends [of u] by (auto simp: ends_def opt_text_def path_char_def)
  next
    case (Some p)
    then show ?thesis using assms(2) \<open>ur_host u = Some h\<close> by (auto simp: uri_ok_def ends_def opt_text_def)
  qed
  have h: "set h \<inter> {CHR '':'', CHR ''/'', CHR ''?'', CHR ''#''} = {}" "length h < 2 ^ 60"
    using assms(2,3) Some by (simp_all add: uri_ok_def uri_small_def)
  show ?thesis
    using reads_host [OF assms(1) h(2,1) r] reads_host_port [OF assms(1) h(2) _ h(1) r, of "ur_port u"] Some
    by (simp add: authority_text_def)
qed

lemma reads_scheme_opt:
  assumes "alloc_total alloc" and "uri_ok u" and "uri_small u"
  shows "reads (uri_scheme alloc) (render_uri u) (authority_text u @ opt_text [] (ur_path u) [] @ tail_text u)
    (case ur_scheme u of None \<Rightarrow> id | Some s \<Rightarrow> (\<lambda>u. u\<lparr>ur_scheme := Some s, ur_is_absolute := True\<rparr>))"
proof (cases "ur_scheme u")
  case None
  let ?p = "authority_text u @ opt_text [] (ur_path u) []"
  have "CHR ''/'' \<in> set (takeWhile (\<lambda>c. c \<noteq> CHR '':'') ?p)" if "CHR '':'' \<in> set ?p"
  proof (cases "ur_host u")
    case None
    then show ?thesis using assms(2) that \<open>ur_scheme u = None\<close>
      by (cases "ur_path u") (simp_all add: uri_ok_def authority_text_def opt_text_def)
  qed (simp add: authority_text_def)
  from reads_no_scheme [OF tail_text_ends this] show ?thesis using None
    by (simp add: render_uri_def opt_text_def [of _ None])
next
  case (Some s)
  then have "valid_scheme s" "length s < 2 ^ 60" using assms(2,3) by (simp_all add: uri_ok_def uri_small_def)
  then show ?thesis using reads_scheme [OF assms(1)] Some
    by (simp add: render_uri_def opt_text_def [of _ "Some s"])
qed

lemma render_not_fragment:
  assumes "uri_ok u"
  shows "render_uri u = [] \<or> hd (render_uri u) \<noteq> CHR ''#''"
proof (cases "ur_scheme u")
  case (Some s)
  then obtain c s' where "s = c # s'" "is_alpha c" using assms by (cases s) (auto simp: uri_ok_def)
  then show ?thesis using Some by (auto simp: render_uri_def opt_text_def is_alpha_def)
next
  case None
  then show ?thesis using assms
    by (cases "ur_host u"; cases "ur_path u"; cases "ur_query u")
      (auto simp: uri_ok_def render_uri_def authority_text_def tail_text_def opt_text_def neq_Nil_conv)
qed


lemma parse_render:
  assumes "alloc_total alloc" and "uri_ok u" and "uri_small u"
  shows "\<exists>a'. oas_uri_parse alloc (Some (render_uri u)) (Some a) (Some out) = (None, Some u, Some a')"
proof -
  let ?st = "\<lparr>us_p = render_uri u, us_out = uri_zero, us_arena = a\<rparr>"
  note R = reads_steps(2) [OF reads_scheme_opt [OF assms] reads_steps(2) [OF reads_authority_opt [OF assms]
      reads_steps(2) [OF reads_path_opt [OF assms] reads_tail [OF assms]]]]
  have G: "(id \<circ> (case ur_fragment u of None \<Rightarrow> id | Some f \<Rightarrow> (\<lambda>u. u\<lparr>ur_fragment := Some f\<rparr>)) \<circ>
      (case ur_query u of None \<Rightarrow> id | Some q \<Rightarrow> (\<lambda>u. u\<lparr>ur_query := Some q\<rparr>)) \<circ>
      (case ur_path u of None \<Rightarrow> id | Some p \<Rightarrow> (\<lambda>u. u\<lparr>ur_path := Some p\<rparr>)) \<circ>
      (case ur_host u of None \<Rightarrow> id | Some h \<Rightarrow>
         if ur_port u = 0 then (\<lambda>u. u\<lparr>ur_host := Some h\<rparr>) else (\<lambda>v. v\<lparr>ur_host := Some h, ur_port := ur_port u\<rparr>)) \<circ>
      (case ur_scheme u of None \<Rightarrow> id | Some s \<Rightarrow> (\<lambda>u. u\<lparr>ur_scheme := Some s, ur_is_absolute := True\<rparr>))) uri_zero = u"
  proof -
    have ok: "ur_is_absolute u \<longleftrightarrow> ur_scheme u \<noteq> None" "\<not> ur_is_fragment_only u" "ur_host u = None \<longrightarrow> ur_port u = 0"
      using assms(2) by (simp_all add: uri_ok_def)
    then show ?thesis
      by (cases u; cases "ur_scheme u"; cases "ur_host u"; cases "ur_path u"; cases "ur_query u"; cases "ur_fragment u")
        (simp_all add: uri_zero_def)
  qed
  obtain st' where st': "uri_steps [uri_scheme alloc, uri_authority alloc, uri_path alloc, uri_query alloc,
        uri_fragment alloc] ?st = (None, st')" and u: "us_out st' = u"
    using reads_from [OF R, of uri_zero a] unfolding G by blast
  show ?thesis using render_not_fragment [OF assms(2)] st' u
    by (auto simp: oas_uri_parse_def Let_def simp del: uri_steps.simps)
qed

section \<open>Resolution\<close>

text \<open>The components of a parsed reference are no longer than the reference.\<close>

definition bounded :: "nat \<Rightarrow> oas_uri \<Rightarrow> bool" where
  "bounded n u \<longleftrightarrow>
     list_all (pred_option (\<lambda>t. length t \<le> n)) [ur_scheme u, ur_host u, ur_path u, ur_query u, ur_fragment u]"

lemma bounded_update:
  assumes "bounded n u" and "pred_option (\<lambda>t. length t \<le> n) x"
  shows "bounded n (u\<lparr>ur_scheme := x, ur_is_absolute := b\<rparr>)" "bounded n (u\<lparr>ur_host := x\<rparr>)"
    "bounded n (u\<lparr>ur_host := x, ur_port := k\<rparr>)" "bounded n (u\<lparr>ur_path := x\<rparr>)" "bounded n (u\<lparr>ur_query := x\<rparr>)"
    "bounded n (u\<lparr>ur_fragment := x\<rparr>)" "bounded n (u\<lparr>ur_fragment := x, ur_is_fragment_only := b\<rparr>)"
  using assms by (simp_all add: bounded_def)

definition fits :: "nat \<Rightarrow> 'a uri_state \<Rightarrow> bool" where
  "fits n st \<longleftrightarrow> length (us_p st) \<le> n \<and> bounded n (us_out st)"

definition stays_bounded :: "nat \<Rightarrow> 'a uri_step \<Rightarrow> bool" where
  "stays_bounded n f \<longleftrightarrow> (\<forall>st. fits n st \<longrightarrow> fits n (snd (f st)))"

lemma bounded_steps: "list_all (stays_bounded n) fs \<Longrightarrow> stays_bounded n (uri_steps fs)"
proof (induction fs)
  case (Cons f fs)
  show ?case unfolding stays_bounded_def
  proof (intro allI impI)
    fix st :: "'a uri_state"
    assume "fits n st"
    then have "fits n (snd (f st))" using Cons.prems by (simp add: stays_bounded_def)
    then show "fits n (snd (uri_steps (f # fs) st))"
      using Cons by (auto simp: stays_bounded_def split: prod.split option.split)
  qed
qed (simp add: stays_bounded_def)

lemma keep_text_bounded:
  assumes "fits n st" and "length t \<le> n" and "length r \<le> n"
    and "\<And>x u. bounded n u \<Longrightarrow> pred_option (\<lambda>t. length t \<le> n) x \<Longrightarrow> bounded n (f x u)"
  shows "fits n (snd (keep_text alloc f t r st))"
  using assms by (auto simp: fits_def keep_text_def arena_strndup_def split: prod.splits option.splits)

lemma dropWhile_le: "dropWhile P s = c # r \<Longrightarrow> length s \<le> n \<Longrightarrow> length r \<le> n"
  using dropWhile_shorter [of P s c r] by simp

lemma scheme_bounded: "stays_bounded n (uri_scheme alloc)"
  unfolding stays_bounded_def
proof (intro allI impI)
  fix st :: "'a uri_state"
  assume st: "fits n st"
  then have p: "length (us_p st) \<le> n" by (simp add: fits_def)
  show "fits n (snd (uri_scheme alloc st))"
  proof (cases "dropWhile (\<lambda>c. c \<noteq> CHR '':'') (us_p st)")
    case Nil
    then show ?thesis using st unfolding uri_scheme_def Let_def Nil by simp
  next
    case (Cons c r)
    have "fits n (snd (keep_text alloc (\<lambda>x u. u\<lparr>ur_scheme := x, ur_is_absolute := x \<noteq> None\<rparr>)
        (takeWhile (\<lambda>c. c \<noteq> CHR '':'') (us_p st)) r st))"
      using p dropWhile_le [OF Cons p] order.trans [OF length_takeWhile_le p]
      by (intro keep_text_bounded [OF st] bounded_update)
    then show ?thesis using st unfolding uri_scheme_def Let_def Cons by simp
  qed
qed

lemma authority_bounded: "stays_bounded n (uri_authority alloc)"
  unfolding stays_bounded_def
proof (intro allI impI)
  fix st :: "'a uri_state"
  assume st: "fits n st"
  show "fits n (snd (uri_authority alloc st))"
  proof (cases "\<exists>p. us_p st = CHR ''/'' # CHR ''/'' # p")
    case False
    then show ?thesis using st by (auto simp: uri_authority_def split: list.split)
  next
    case True
    then obtain p where p: "us_p st = CHR ''/'' # CHR ''/'' # p" by blast
    let ?a = "takeWhile auth_char p"
    have l: "length ?a \<le> n" "length (dropWhile auth_char p) \<le> n"
      using st p length_takeWhile_le [of auth_char p] length_dropWhile_le [of auth_char p] by (auto simp: fits_def)
    have h: "length (rev r) \<le> n" if "dropWhile (\<lambda>c. c \<noteq> CHR '':'') (rev ?a) = c # r" for c r
      using dropWhile_le [OF that] l(1) by simp
    show ?thesis
    proof (cases "dropWhile (\<lambda>c. c \<noteq> CHR '':'') (rev ?a)")
      case Nil
      show ?thesis unfolding uri_authority_def p Let_def list.case Nil
        using l by (simp del: fits_def) (intro keep_text_bounded [OF st] bounded_update)
    next
      case (Cons c r)
      show ?thesis unfolding uri_authority_def p Let_def list.case Cons
        using l h [OF Cons] by simp (intro keep_text_bounded [OF st] bounded_update; simp)
    qed
  qed
qed

lemma runs_le:
  "length s \<le> n \<Longrightarrow> length (takeWhile P s) \<le> n" "length s \<le> n \<Longrightarrow> length (dropWhile P s) \<le> n"
  using length_takeWhile_le [of P s] length_dropWhile_le [of P s] by simp_all

lemma rest_bounded:
  "stays_bounded n (uri_path alloc)" "stays_bounded n (uri_query alloc)" "stays_bounded n (uri_fragment alloc)"
proof -
  have p: "fits n st \<Longrightarrow> length (us_p st) \<le> n" for st :: "'a uri_state" by (simp add: fits_def)
  have c: "fits n st \<Longrightarrow> us_p st = c # s \<Longrightarrow> length s \<le> n" for st :: "'a uri_state" and c s
    using p [of st] by simp
  show "stays_bounded n (uri_path alloc)" unfolding stays_bounded_def
  proof (intro allI impI)
    fix st :: "'a uri_state"
    assume st: "fits n st"
    have "fits n (snd (keep_text alloc (\<lambda>x u. u\<lparr>ur_path := x\<rparr>) (takeWhile path_char (us_p st))
        (dropWhile path_char (us_p st)) st))"
      by (intro keep_text_bounded [OF st] bounded_update runs_le p [OF st])
    then show "fits n (snd (uri_path alloc st))" using st unfolding uri_path_def by (simp split: list.split)
  qed
  show "stays_bounded n (uri_query alloc)" "stays_bounded n (uri_fragment alloc)"
    unfolding stays_bounded_def uri_query_def uri_fragment_def
    by (auto intro!: keep_text_bounded bounded_update runs_le intro: c split: list.split)
qed

lemma parse_bounded:
  assumes "oas_uri_parse alloc (Some r) (Some a) (Some out) = (rc, Some u, a')"
  shows "bounded (length r) u"
proof -
  let ?st = "\<lparr>us_p = r, us_out = uri_zero, us_arena = a\<rparr>"
  have st: "fits (length r) ?st" by (simp add: fits_def bounded_def uri_zero_def)
  have "stays_bounded (length r) (uri_steps [uri_scheme alloc, uri_authority alloc, uri_path alloc,
      uri_query alloc, uri_fragment alloc])"
    by (rule bounded_steps) (simp add: scheme_bounded authority_bounded rest_bounded)
  then have s: "fits (length r) (snd (uri_steps [uri_scheme alloc, uri_authority alloc, uri_path alloc,
      uri_query alloc, uri_fragment alloc] ?st))"
    using st unfolding stays_bounded_def by blast
  have f: "fits (length r) (snd (keep_text alloc (\<lambda>x u. u\<lparr>ur_fragment := x, ur_is_fragment_only := True\<rparr>) (tl r) [] ?st))"
    by (intro keep_text_bounded [OF st] bounded_update) simp_all
  show ?thesis
    using assms s f by (auto simp: oas_uri_parse_def Let_def fits_def simp del: uri_steps.simps split: prod.splits if_splits)
qed


definition opt_nat :: "nat \<Rightarrow> string option \<Rightarrow> nat" where
  "opt_nat extra x = (case x of None \<Rightarrow> 0 | Some s \<Rightarrow> length s + extra)"

definition base_nat :: "oas_uri \<Rightarrow> nat" where
  "base_nat b = opt_nat 3 (ur_scheme b) + opt_nat 0 (ur_host b) + (if ur_port b > 0 then 6 else 0)"

lemma len_nat: "opt_len k x = of_nat (opt_nat k x)" "base_len b = of_nat (base_nat b)"
proof -
  show o: "opt_len k x = of_nat (opt_nat k x)" for k x by (simp add: opt_len_def opt_nat_def split: option.split)
  show "base_len b = of_nat (base_nat b)" by (simp add: base_len_def base_nat_def o)
qed

lemma base_text_length: "length (base_text b) \<le> base_nat b"
  using length_dec_port [of "ur_port b"]
  by (auto simp: base_text_def base_nat_def opt_text_def opt_nat_def split: option.split)

lemma opt_text_length: "length (opt_text x t []) \<le> opt_nat (length x) t"
  by (simp add: opt_text_def opt_nat_def split: option.split)

lemma print_fits:
  assumes "length t < m" and "m < 2 ^ 64"
  shows "print_into alloc a (of_nat m) t \<noteq> None"
    and "alloc_total alloc \<Longrightarrow> \<exists>a'. print_into alloc a (of_nat m) t = Some (None, Some t, a')"
proof -
  have m: "unat (of_nat m :: u64) = m"
    unfolding unsigned_of_nat of_nat_id by (rule take_bit_nat_eq_self) (use assms(2) in simp)
  show "print_into alloc a (of_nat m) t \<noteq> None"
    using assms m by (simp add: print_into_def split: prod.split option.split)
  assume "alloc_total alloc"
  then obtain p a' where "alloc a (of_nat m) 1 = (Some p, a')"
    using granted [of alloc m 1 a] assms by auto
  then show "\<exists>a'. print_into alloc a (of_nat m) t = Some (None, Some t, a')"
    using assms m by (simp add: print_into_def)
qed

text \<open>The directory of a path: everything up to its last slash.\<close>

definition merge_dir :: "string option \<Rightarrow> string" where
  "merge_dir path =
     (case path of
        None \<Rightarrow> ''/''
      | Some s \<Rightarrow> if s = [] then ''/'' else rev (dropWhile (\<lambda>c. c \<noteq> CHR ''/'') (rev s)))"

lemma merge_dir_length: "length (merge_dir path) \<le> Suc (opt_nat 0 path)"
  using length_dropWhile_le [of "\<lambda>c. c \<noteq> CHR ''/''" "rev (the path)"]
  by (auto simp: merge_dir_def opt_nat_def split: option.split)

lemma merge_base_result:
  "fst (merge_base alloc a path) \<in> {None, Some (merge_dir path)}"
  "alloc_total alloc \<Longrightarrow> opt_nat 0 path < 2 ^ 60 \<Longrightarrow> fst (merge_base alloc a path) = Some (merge_dir path)"
proof -
  show "fst (merge_base alloc a path) \<in> {None, Some (merge_dir path)}"
    by (auto simp: merge_base_def merge_dir_def arena_strndup_def split: option.split list.split prod.split)
  assume t: "alloc_total alloc" and l: "opt_nat 0 path < 2 ^ 60"
  show "fst (merge_base alloc a path) = Some (merge_dir path)"
  proof (cases path)
    case (Some s)
    let ?d = "dropWhile (\<lambda>c. c \<noteq> CHR ''/'') (rev s)"
    have "length (rev ?d) < 2 ^ 60"
      using l Some length_dropWhile_le [of "\<lambda>c. c \<noteq> CHR ''/''" "rev s"] by (simp add: opt_nat_def)
    then obtain a' where "arena_strndup alloc a (rev ?d) = (Some (rev ?d), a')" using strndup_granted [OF t] by blast
    then show ?thesis using Some
      by (cases ?d) (auto simp: merge_base_def merge_dir_def simp del: dropWhile_eq_Nil_conv)
  qed (simp add: merge_base_def merge_dir_def)
qed

definition short :: "string option \<Rightarrow> bool" where
  "short x \<longleftrightarrow> pred_option (\<lambda>t. length t < 2 ^ 60) x"

lemma short_nat: "short x \<Longrightarrow> opt_nat k x < 2 ^ 60 + k"
  by (cases x) (simp_all add: short_def opt_nat_def)

lemma uri_small_short: "uri_small u \<longleftrightarrow>
    short (ur_scheme u) \<and> short (ur_host u) \<and> short (ur_path u) \<and> short (ur_query u) \<and> short (ur_fragment u)"
  by (simp add: uri_small_def short_def)

lemma base_nat_small: "uri_small b \<Longrightarrow> base_nat b < 2 * 2 ^ 60 + 9"
  using short_nat [of "ur_scheme b" 3] short_nat [of "ur_host b" 0]
  by (auto simp: base_nat_def uri_small_short)

text \<open>What is written for a reference that is no absolute URI.\<close>

definition resolved_text :: "oas_uri \<Rightarrow> oas_uri \<Rightarrow> string" where
  "resolved_text b u =
     (if ur_is_fragment_only u
      then base_text b @ opt_text [] (ur_path b) [] @ opt_text ''#'' (ur_fragment u) []
      else base_text b @ merge_dir (ur_path b) @ opt_text [] (ur_path u) [] @ tail_text u)"

lemma resolve_parsed_fits:
  assumes "uri_small b" and "uri_small u"
  shows "resolve_parsed alloc a b r u \<noteq> None"
    and "alloc_total alloc \<Longrightarrow> \<not> ur_is_absolute u \<Longrightarrow>
      \<exists>a'. resolve_parsed alloc a b r u = Some (None, Some (resolved_text b u), a')"
proof -
  note n = base_nat_small [OF assms(1)] short_nat [of "ur_path b" 0] short_nat [of "ur_fragment u" 1]
    short_nat [of "ur_query u" 1] short_nat [of "ur_path u" 0] merge_dir_length [of "ur_path b"]
  have s: "short (ur_path b)" "short (ur_path u)" "short (ur_query u)" "short (ur_fragment u)"
    using assms by (simp_all add: uri_small_short)
  define m1 where "m1 = base_nat b + opt_nat 0 (ur_path b) + opt_nat 1 (ur_fragment u) + 1"
  define m2 where "m2 = base_nat b + (length (merge_dir (ur_path b)) + opt_nat 0 (ur_path u)) +
    opt_nat 1 (ur_fragment u) + opt_nat 1 (ur_query u) + 1"
  let ?t1 = "base_text b @ opt_text [] (ur_path b) [] @ opt_text ''#'' (ur_fragment u) []"
  let ?t2 = "base_text b @ merge_dir (ur_path b) @ opt_text [] (ur_path u) [] @ tail_text u"
  have m: "m1 < 2 ^ 64" "m2 < 2 ^ 64" using n s by (simp_all add: m1_def m2_def)
  have t: "length ?t1 < m1" "length ?t2 < m2"
    using base_text_length [of b] opt_text_length [of "[]" "ur_path b"] opt_text_length [of "[]" "ur_path u"]
      opt_text_length [of "''#''" "ur_fragment u"] opt_text_length [of "''?''" "ur_query u"]
    by (simp_all add: m1_def m2_def tail_text_def)
  have l1: "base_len b + opt_len 0 (ur_path b) + opt_len 1 (ur_fragment u) + 1 = of_nat m1"
    by (simp add: m1_def len_nat)
  have l2: "base_len b + (of_nat (length (merge_dir (ur_path b))) +
      of_nat (length (case ur_path u of None \<Rightarrow> [] | Some r \<Rightarrow> r))) + opt_len 1 (ur_fragment u) + opt_len 1 (ur_query u) + 1 = of_nat m2"
    by (simp add: m2_def len_nat opt_nat_def split: option.split)
  have e: "(case ur_path u of None \<Rightarrow> [] | Some r \<Rightarrow> r) @ opt_text ''?'' (ur_query u) [] @ opt_text ''#'' (ur_fragment u) [] =
      opt_text [] (ur_path u) [] @ tail_text u"
    by (simp add: tail_text_def opt_text_def split: option.split)
  note P = print_fits [OF t(1) m(1)] print_fits [OF t(2) m(2)]
  obtain x a1 where mb: "merge_base alloc a (ur_path b) = (x, a1)" by (cases "merge_base alloc a (ur_path b)")
  then have x: "x = None \<or> x = Some (merge_dir (ur_path b))" using merge_base_result(1) [of alloc a "ur_path b"] by auto
  have R: "resolve_parsed alloc a b r u =
      (if ur_is_absolute u
       then (case arena_strndup alloc a r of
               (None, a) \<Rightarrow> Some (Some ENOMEM, None, a) | (Some x, a) \<Rightarrow> Some (None, Some x, a))
       else if ur_is_fragment_only u then print_into alloc a (of_nat m1) ?t1
       else (case x of None \<Rightarrow> Some (Some ENOMEM, None, a1)
             | Some dir \<Rightarrow> print_into alloc a1 (of_nat m2) ?t2))"
    unfolding resolve_parsed_def mb l1 using x l2 e by (auto simp: Let_def simp del: append_assoc)
  show "resolve_parsed alloc a b r u \<noteq> None"
    unfolding R using P(1) [of alloc a] P(3) [of alloc a1] by (cases x) (auto split: prod.split option.split)
  assume t: "alloc_total alloc" and na: "\<not> ur_is_absolute u"
  have "x = Some (merge_dir (ur_path b))" using merge_base_result(2) [OF t, of "ur_path b" a] n(2) s(1) mb by simp
  then show "\<exists>a'. resolve_parsed alloc a b r u = Some (None, Some (resolved_text b u), a')"
    using na P(2) [OF t] P(4) [OF t] unfolding R by (simp add: resolved_text_def)
qed


section \<open>Properties\<close>

text \<open>
  C39. Writing a URI and parsing it are inverse: with memory granted, \<open>oas_uri_parse\<close> on the text
  of a structure without delimiters inside its components gives back this structure, scheme,
  host, port, path, query and fragment.
\<close>

theorem uri_roundtrip:
  assumes "alloc_total alloc" and "uri_ok u" and "uri_small u"
  shows "\<exists>a'. oas_uri_parse alloc (Some (render_uri u)) (Some a) (Some out) = (None, Some u, Some a')"
proof -
  obtain a' where "oas_uri_parse alloc (Some (render_uri u)) (Some a) (Some out) = (None, Some u, a')"
    using parse_render [OF assms] by blast
  then show ?thesis by (auto simp: oas_uri_parse_def Let_def split: prod.splits if_splits)
qed

definition sample_uri :: oas_uri where
  "sample_uri = \<lparr>ur_scheme = Some ''https'', ur_host = Some ''api.io'', ur_port = 8443, ur_path = Some ''/v1/a.json'',
     ur_query = Some ''x=1'', ur_fragment = Some ''/b'', ur_is_absolute = True, ur_is_fragment_only = False\<rparr>"

lemma sample_uri_ok: "uri_ok sample_uri" "uri_small sample_uri"
  by (simp_all add: sample_uri_def uri_ok_def uri_small_def is_alpha_def scheme_char_def)

theorem uri_roundtrip_witness:
  "\<exists>a'. oas_uri_parse (\<lambda>a n k. (Some 8, a)) (Some (render_uri sample_uri)) (Some ()) (Some uri_zero) =
    (None, Some sample_uri, Some a')"
  using uri_roundtrip [OF _ sample_uri_ok, of "\<lambda>a n k. (Some 8, a)" "()" uri_zero] by (simp add: alloc_total_def)

text \<open>
  C40. \<open>oas_uri_resolve\<close> never writes past the buffer it sizes, whatever the reference and
  wherever memory is refused: the length it computes covers the separators, the port and the
  terminator.
\<close>

theorem uri_resolve_in_bounds:
  assumes "uri_small base" and "length ref < 2 ^ 60"
  shows "oas_uri_resolve alloc (Some base) (Some ref) (Some a) have_out \<noteq> None"
proof -
  obtain rc u a' where p: "oas_uri_parse alloc (Some ref) (Some a) (Some uri_zero) = (rc, Some u, a')"
    by (simp add: oas_uri_parse_def Let_def case_prod_beta del: uri_steps.simps)
  have "uri_small u" using parse_bounded [OF p] assms(2)
    by (cases u) (auto simp: bounded_def uri_small_def option.pred_set elim!: order.strict_trans1)
  then show ?thesis using resolve_parsed_fits(1) [OF assms(1), of u alloc "the a'" ref]
    by (cases rc) (auto simp: oas_uri_resolve_def p)
qed

theorem uri_resolve_in_bounds_witness:
  "oas_uri_resolve (\<lambda>a n k. (Some 8, a)) (Some sample_uri) (Some ''b.json#/x'') (Some ()) True \<noteq> None"
  by (rule uri_resolve_in_bounds [OF sample_uri_ok(2)]) simp

text \<open>
  What a relative reference resolves to: the base's scheme, host and port, the directory of
  the base's path, and then the whole of the reference's path, query and fragment. A path
  that starts with a slash is appended like any other, where RFC 3986 replaces the base's.
\<close>

theorem uri_resolve_relative:
  assumes "alloc_total alloc" and "uri_small base" and "uri_ok u" and "uri_small u" and "ur_scheme u = None"
  shows "\<exists>a'. oas_uri_resolve alloc (Some base) (Some (render_uri u)) (Some a) True =
    Some (None, Some (base_text base @ merge_dir (ur_path base) @ opt_text [] (ur_path u) [] @ tail_text u), a')"
proof -
  obtain a1 where p: "oas_uri_parse alloc (Some (render_uri u)) (Some a) (Some uri_zero) = (None, Some u, a1)"
    using parse_render [OF assms(1,3,4)] by blast
  have u: "\<not> ur_is_absolute u" "\<not> ur_is_fragment_only u" using assms(3,5) by (simp_all add: uri_ok_def)
  then show ?thesis using resolve_parsed_fits(2) [OF assms(2,4,1) u(1), of "the a1" "render_uri u"]
    by (auto simp: oas_uri_resolve_def p resolved_text_def)
qed

definition absolute_path :: oas_uri where
  "absolute_path = uri_zero\<lparr>ur_path := Some ''/c.json''\<rparr>"

theorem uri_resolve_relative_witness:
  "\<exists>a'. oas_uri_resolve (\<lambda>a n k. (Some 8, a)) (Some sample_uri) (Some ''/c.json'') (Some ()) True =
    Some (None, Some ''https://api.io:8443/v1//c.json'', a')"
proof -
  have u: "uri_ok absolute_path" "uri_small absolute_path" "ur_scheme absolute_path = None"
    by (simp_all add: absolute_path_def uri_zero_def uri_ok_def uri_small_def)
  have t: "alloc_total (\<lambda>a n k. (Some 8, a))" by (simp add: alloc_total_def)
  have d: "dec_nat 8443 = ''8443''" by (simp add: dec_nat.simps char_of_def bit_Suc_0_iff)
  show ?thesis using uri_resolve_relative [OF t sample_uri_ok(2) u, of "()"]
    by (simp add: absolute_path_def uri_zero_def sample_uri_def render_uri_def authority_text_def tail_text_def
        opt_text_def base_text_def merge_dir_def d)
qed

text \<open>
  The check for directory traversal accepts exactly the paths none of whose segments is the
  parent directory; encoded dots are not looked at.
\<close>

theorem uri_path_is_safe_iff:
  "oas_uri_path_is_safe (Some p) \<longleftrightarrow> ''..'' \<notin> set (split_on CHR ''/'' p)"
  by (simp add: oas_uri_path_is_safe_def safe_loop_split)

end
