(* ===== verification/Liboas_Ref_Cache.thy ===== *)
theory Liboas_Ref_Cache
  imports Liboas_Json Liboas_Arena "HOL-Library.Multiset"
begin

unbundle bit_operations_syntax

text \<open>
  The cache of external documents (\<open>src/parser/oas_ref_cache.c\<close>): an open-addressing hash table
  from URIs to documents it owns. It is shown to implement a finite map of bounded size.
\<close>

section \<open>The table\<close>

text \<open>The document is a handle that identifies what \<open>yyjson_doc_free\<close> is called on.\<close>

record 'd ref_cache_entry =
  ce_uri :: string
  ce_doc :: 'd
  ce_root :: json

record 'd oas_ref_cache =
  rc_entries :: "'d ref_cache_entry option list"
  rc_capacity :: u64
  rc_count :: nat
  rc_max_documents :: nat

definition OAS_REF_CACHE_DEFAULT_MAX :: int where
  "OAS_REF_CACHE_DEFAULT_MAX = 100"

definition ref_cache_hash :: "string \<Rightarrow> u64" where
  "ref_cache_hash uri = foldl (\<lambda>h c. (h XOR of_nat (byte c)) * 1099511628211) 14695981039346656037 uri"

text \<open>The loop doubles \<open>n\<close>, which is \<open>2 ^ k\<close>.\<close>

function pow2_loop :: "nat \<Rightarrow> nat \<Rightarrow> nat" where
  "pow2_loop k v =
     (if 2 ^ k < v then if 2 ^ k > (2 ^ 64 - 1 :: nat) div 2 then 2 ^ k else pow2_loop (Suc k) v else 2 ^ k)"
  by pat_completeness auto
termination
proof (relation "measure (\<lambda>(k, v). v - k)")
  fix k v :: nat
  assume "2 ^ k < v"
  then have "k < v" using less_exp [of k] by (rule order.strict_trans [rotated])
  then show "((Suc k, v), k, v) \<in> measure (\<lambda>(k, v). v - k)" by simp
qed simp

declare pow2_loop.simps [simp del]

definition next_pow2 :: "nat \<Rightarrow> nat" where
  "next_pow2 v = pow2_loop 4 v"

text \<open>\<open>mem\<close> and \<open>mem_entries\<close> say whether the two calls of \<open>calloc\<close> are granted.\<close>

definition oas_ref_cache_create :: "bool \<Rightarrow> bool \<Rightarrow> int \<Rightarrow> 'd oas_ref_cache option" where
  "oas_ref_cache_create mem mem_entries max_documents =
     (let m = (if max_documents \<le> 0 then OAS_REF_CACHE_DEFAULT_MAX else max_documents);
          cap = next_pow2 (nat m * 2)
      in if mem \<and> mem_entries
         then Some \<lparr>rc_entries = replicate cap None, rc_capacity = of_nat cap, rc_count = 0, rc_max_documents = nat m\<rparr>
         else None)"

section \<open>Probing\<close>

definition cache_slot :: "'d oas_ref_cache \<Rightarrow> string \<Rightarrow> nat \<Rightarrow> nat" where
  "cache_slot c uri i =
     (let mask = rc_capacity c - 1; idx = ref_cache_hash uri AND mask in unat ((idx + of_nat i) AND mask))"

text \<open>Both loops, from probe \<open>i\<close> with \<open>n\<close> probes left.\<close>

fun get_loop :: "'d oas_ref_cache \<Rightarrow> string \<Rightarrow> nat \<Rightarrow> nat \<Rightarrow> json option" where
  "get_loop c uri i 0 = None"
| "get_loop c uri i (Suc n) =
     (case rc_entries c ! cache_slot c uri i of
        None \<Rightarrow> None
      | Some e \<Rightarrow> if ce_uri e = uri then Some (ce_root e) else get_loop c uri (Suc i) n)"

fun put_loop :: "'d oas_ref_cache \<Rightarrow> 'd ref_cache_entry \<Rightarrow> nat \<Rightarrow> nat \<Rightarrow> 'd oas_ref_cache option" where
  "put_loop c e i 0 = None"
| "put_loop c e i (Suc n) =
     (let s = cache_slot c (ce_uri e) i
      in case rc_entries c ! s of
           None \<Rightarrow> Some (c\<lparr>rc_entries := (rc_entries c)[s := Some e], rc_count := rc_count c + 1\<rparr>)
         | Some _ \<Rightarrow> put_loop c e (Suc i) n)"

definition oas_ref_cache_get :: "'d oas_ref_cache option \<Rightarrow> string option \<Rightarrow> json option" where
  "oas_ref_cache_get cache uri =
     (case (cache, uri) of
        (Some c, Some u) \<Rightarrow> get_loop c u 0 (unat (rc_capacity c))
      | _ \<Rightarrow> None)"

text \<open>
  The code, the cache and the documents freed. \<open>dup\<close> says whether \<open>strdup\<close> is granted.
\<close>

definition oas_ref_cache_put ::
    "bool \<Rightarrow> 'd oas_ref_cache option \<Rightarrow> string option \<Rightarrow> 'd option \<Rightarrow> json option
      \<Rightarrow> errno option \<times> 'd oas_ref_cache option \<times> 'd list" where
  "oas_ref_cache_put dup cache uri doc doc_root =
     (case (cache, uri, doc, doc_root) of
        (Some c, Some u, Some d, Some r) \<Rightarrow>
          if oas_ref_cache_get (Some c) (Some u) \<noteq> None then (None, Some c, [d])
          else if rc_count c \<ge> rc_max_documents c then (Some ENOSPC, Some c, [])
          else if \<not> dup then (Some ENOMEM, Some c, [])
          else
            (case put_loop c \<lparr>ce_uri = u, ce_doc = d, ce_root = r\<rparr> 0 (unat (rc_capacity c)) of
               Some c' \<Rightarrow> (None, Some c', [])
             | None \<Rightarrow> (Some ENOSPC, Some c, []))
      | _ \<Rightarrow> (Some EINVAL, cache, []))"

definition oas_ref_cache_count :: "'d oas_ref_cache option \<Rightarrow> nat" where
  "oas_ref_cache_count cache = (case cache of None \<Rightarrow> 0 | Some c \<Rightarrow> rc_count c)"

text \<open>The documents freed.\<close>

definition oas_ref_cache_destroy :: "'d oas_ref_cache option \<Rightarrow> 'd list" where
  "oas_ref_cache_destroy cache =
     (case cache of None \<Rightarrow> [] | Some c \<Rightarrow> List.map_filter (map_option ce_doc) (rc_entries c))"

section \<open>Slots\<close>

definition cache_home :: "'d oas_ref_cache \<Rightarrow> string \<Rightarrow> nat" where
  "cache_home c uri = unat (ref_cache_hash uri) mod length (rc_entries c)"

definition table_ok :: "'d oas_ref_cache \<Rightarrow> bool" where
  "table_ok c \<longleftrightarrow> (\<exists>k < 64. rc_capacity c = 2 ^ k \<and> length (rc_entries c) = 2 ^ k)"

lemma and_mask_mod: "k < 64 \<Longrightarrow> unat ((w :: u64) AND (2 ^ k - 1)) = unat w mod 2 ^ k"
proof -
  assume "k < 64"
  have "unat (w AND (2 ^ k - 1)) = unat (take_bit k w)" by (simp only: take_bit_eq_mask mask_eq_exp_minus_1)
  also have "\<dots> = take_bit k (unat w)" by (rule unsigned_take_bit_eq)
  finally show ?thesis by (simp only: take_bit_eq_mod)
qed

lemma table_okE:
  assumes "table_ok c"
  obtains k where "k < 64" "rc_capacity c = 2 ^ k" "length (rc_entries c) = 2 ^ k" "unat (rc_capacity c) = length (rc_entries c)"
proof -
  obtain k where k: "k < 64" "rc_capacity c = 2 ^ k" "length (rc_entries c) = 2 ^ k"
    using assms by (auto simp: table_ok_def)
  moreover have "unat (2 ^ k :: u64) = 2 ^ k" using k(1) by (rule unat_two_power)
  ultimately show thesis using that by simp
qed

lemma cache_slot_mod:
  assumes "table_ok c"
  shows "cache_slot c uri i = (cache_home c uri + i) mod length (rc_entries c)"
proof -
  obtain k where k: "k < 64" "rc_capacity c = 2 ^ k" "length (rc_entries c) = 2 ^ k" by (rule table_okE [OF assms])
  have d: "(2 :: nat) ^ k dvd 2 ^ 64" using k(1) by (intro le_imp_power_dvd) simp
  have "cache_slot c uri i = unat ((ref_cache_hash uri AND (2 ^ k - 1)) + of_nat i) mod 2 ^ k"
    by (simp add: cache_slot_def Let_def k and_mask_mod)
  also have "\<dots> = ((unat (ref_cache_hash uri) mod 2 ^ k + i) mod 2 ^ 64) mod 2 ^ k"
    by (simp add: unat_word_ariths unsigned_of_nat take_bit_eq_mod and_mask_mod k(1) mod_simps)
  also have "\<dots> = (unat (ref_cache_hash uri) mod 2 ^ k + i) mod 2 ^ k" using d by (rule mod_mod_cancel)
  finally show ?thesis by (simp add: cache_home_def k(3))
qed


section \<open>The table as a map\<close>

definition cache_entries :: "'d oas_ref_cache \<Rightarrow> 'd ref_cache_entry list" where
  "cache_entries c = List.map_filter id (rc_entries c)"

definition cache_map :: "'d oas_ref_cache \<Rightarrow> string \<Rightarrow> json option" where
  "cache_map c = map_of (map (\<lambda>e. (ce_uri e, ce_root e)) (cache_entries c))"

text \<open>
  The entry at \<open>s\<close> is reached from its home slot over slots that hold other URIs; the count is
  the number of occupied slots, and at least half of the table is free.
\<close>

definition reached :: "'d oas_ref_cache \<Rightarrow> string \<Rightarrow> nat \<Rightarrow> bool" where
  "reached c u s \<longleftrightarrow> (\<exists>j < length (rc_entries c). s = cache_slot c u j \<and>
     (\<forall>i < j. \<exists>e. rc_entries c ! cache_slot c u i = Some e \<and> ce_uri e \<noteq> u))"

definition cache_ok :: "'d oas_ref_cache \<Rightarrow> bool" where
  "cache_ok c \<longleftrightarrow> table_ok c \<and> rc_count c = length (cache_entries c) \<and>
     rc_count c \<le> rc_max_documents c \<and> 2 * rc_max_documents c \<le> length (rc_entries c) \<and> 0 < rc_max_documents c \<and>
     (\<forall>s < length (rc_entries c). \<forall>e. rc_entries c ! s = Some e \<longrightarrow> reached c (ce_uri e) s)"

lemma cache_reached:
  "cache_ok c \<Longrightarrow> s < length (rc_entries c) \<Longrightarrow> rc_entries c ! s = Some e \<Longrightarrow> reached c (ce_uri e) s"
  unfolding cache_ok_def by blast

lemma slot_less: "table_ok c \<Longrightarrow> cache_slot c u i < length (rc_entries c)"
proof -
  assume t: "table_ok c"
  then have "0 < length (rc_entries c)" by (auto simp: table_ok_def)
  then show ?thesis by (simp add: cache_slot_mod [OF t])
qed

lemma mem_cache_entries: "e \<in> set (cache_entries c) \<longleftrightarrow> (\<exists>s < length (rc_entries c). rc_entries c ! s = Some e)"
  by (fastforce simp: cache_entries_def List.map_filter_def in_set_conv_nth image_iff)

lemma get_loop_found:
  assumes "\<And>k. i \<le> k \<Longrightarrow> k < j \<Longrightarrow> \<exists>e. rc_entries c ! cache_slot c u k = Some e \<and> ce_uri e \<noteq> u"
    and "rc_entries c ! cache_slot c u j = Some e" and "ce_uri e = u" and "i \<le> j" and "j < i + n"
  shows "get_loop c u i n = Some (ce_root e)"
  using assms
proof (induction n arbitrary: i)
  case (Suc n)
  show ?case
  proof (cases "i = j")
    case False
    then obtain e' where "rc_entries c ! cache_slot c u i = Some e'" "ce_uri e' \<noteq> u"
      using Suc.prems(1) [of i] Suc.prems(4) by auto
    then show ?thesis using False Suc.IH [of "Suc i"] Suc.prems by simp
  qed (use Suc.prems in simp)
qed simp

lemma get_loop_absent:
  assumes "table_ok c" and "\<And>e. e \<in> set (cache_entries c) \<Longrightarrow> ce_uri e \<noteq> u"
  shows "get_loop c u i n = None"
proof (induction n arbitrary: i)
  case (Suc n)
  then show ?case using assms(2) slot_less [OF assms(1), of u i]
    by (auto simp: mem_cache_entries split: option.split)
qed simp

lemma reached_unique:
  assumes "reached c u s" and "reached c u t" and "rc_entries c ! s = Some d" "rc_entries c ! t = Some e"
    and "ce_uri d = u" and "ce_uri e = u"
  shows "s = t"
proof -
  obtain j k where "s = cache_slot c u j" "t = cache_slot c u k"
    "\<forall>i < j. \<exists>e. rc_entries c ! cache_slot c u i = Some e \<and> ce_uri e \<noteq> u"
    "\<forall>i < k. \<exists>e. rc_entries c ! cache_slot c u i = Some e \<and> ce_uri e \<noteq> u"
    using assms(1,2) unfolding reached_def by blast
  then show ?thesis using assms(3-6) by (metis linorder_neqE_nat option.inject)
qed

lemma entries_unique:
  assumes "cache_ok c" and "d \<in> set (cache_entries c)" and "e \<in> set (cache_entries c)" and "ce_uri d = ce_uri e"
  shows "d = e"
proof -
  obtain s where s: "s < length (rc_entries c)" "rc_entries c ! s = Some d"
    using assms(2) unfolding mem_cache_entries by blast
  obtain t where t: "t < length (rc_entries c)" "rc_entries c ! t = Some e"
    using assms(3) unfolding mem_cache_entries by blast
  have "reached c (ce_uri d) s" "reached c (ce_uri d) t"
    using cache_reached [OF assms(1) s] cache_reached [OF assms(1) t] assms(4) by simp_all
  then have "s = t" by (rule reached_unique [OF _ _ s(2) t(2)]) (simp_all add: assms(4))
  then show ?thesis using s(2) t(2) by simp
qed

lemma map_of_unique:
  assumes "\<And>d e. d \<in> set xs \<Longrightarrow> e \<in> set xs \<Longrightarrow> f d = f e \<Longrightarrow> d = e"
  shows "map_of (map (\<lambda>e. (f e, g e)) xs) k = Some v \<longleftrightarrow> (\<exists>e \<in> set xs. f e = k \<and> g e = v)"
  using assms
proof (induction xs)
  case (Cons x xs)
  have "map_of (map (\<lambda>e. (f e, g e)) xs) k = Some v \<longleftrightarrow> (\<exists>e \<in> set xs. f e = k \<and> g e = v)"
    by (rule Cons.IH) (rule Cons.prems; simp)
  moreover have "e = x" if "e \<in> set xs" "f e = f x" for e using Cons.prems [of e x] that by simp
  ultimately show ?case by auto
qed simp

lemma cache_map_iff:
  assumes "cache_ok c"
  shows "cache_map c u = Some r \<longleftrightarrow> (\<exists>e \<in> set (cache_entries c). ce_uri e = u \<and> ce_root e = r)"
  unfolding cache_map_def by (rule map_of_unique) (rule entries_unique [OF assms])

lemma cache_get_map:
  assumes "cache_ok c"
  shows "oas_ref_cache_get (Some c) (Some u) = cache_map c u"
proof -
  have t: "table_ok c" using assms by (simp add: cache_ok_def)
  then have n: "unat (rc_capacity c) = length (rc_entries c)" by (rule table_okE)
  show ?thesis
  proof (cases "\<exists>e \<in> set (cache_entries c). ce_uri e = u")
    case False
    then have "cache_map c u = None" using cache_map_iff [OF assms] by (metis not_None_eq)
    then show ?thesis using get_loop_absent [OF t, of u 0] False by (auto simp: oas_ref_cache_get_def)
  next
    case True
    then obtain e where e: "e \<in> set (cache_entries c)" "ce_uri e = u" by blast
    then obtain s where "s < length (rc_entries c)" "rc_entries c ! s = Some e" by (auto simp: mem_cache_entries)
    then obtain j where "j < length (rc_entries c)" "rc_entries c ! cache_slot c u j = Some e"
      "\<forall>i < j. \<exists>e. rc_entries c ! cache_slot c u i = Some e \<and> ce_uri e \<noteq> u"
      using assms e(2) by (fastforce simp: cache_ok_def reached_def)
    then have "get_loop c u 0 (length (rc_entries c)) = Some (ce_root e)"
      using e(2) by (intro get_loop_found [of 0 j]) auto
    moreover have "cache_map c u = Some (ce_root e)" using cache_map_iff [OF assms] e by blast
    ultimately show ?thesis by (simp add: oas_ref_cache_get_def n)
  qed
qed


section \<open>Insertion\<close>

lemma cache_slot_same:
  "rc_capacity c' = rc_capacity c \<Longrightarrow> cache_slot c' u i = cache_slot c u i"
  by (simp add: cache_slot_def)

text \<open>The probes of a URI visit every slot.\<close>

lemma slot_onto:
  assumes "table_ok c" and "s < length (rc_entries c)"
  shows "\<exists>j < length (rc_entries c). cache_slot c u j = s"
proof -
  let ?n = "length (rc_entries c)" and ?h = "cache_home c u"
  have h: "?h < ?n" using assms(2) unfolding cache_home_def by (intro mod_less_divisor) (rule le_less_trans [OF le0])
  define j where "j = (if ?h \<le> s then s - ?h else s + ?n - ?h)"
  have "j < ?n" "(?h + j) mod ?n = s" using assms(2) h by (auto simp: j_def)
  then show ?thesis by (auto simp: cache_slot_mod [OF assms(1)])
qed

lemma put_loop_result:
  assumes "\<And>k. i \<le> k \<Longrightarrow> k < j \<Longrightarrow> rc_entries c ! cache_slot c (ce_uri e) k \<noteq> None"
    and "rc_entries c ! cache_slot c (ce_uri e) j = None" and "i \<le> j" and "j < i + n"
  shows "put_loop c e i n =
    Some (c\<lparr>rc_entries := (rc_entries c)[cache_slot c (ce_uri e) j := Some e], rc_count := rc_count c + 1\<rparr>)"
  using assms
proof (induction n arbitrary: i)
  case (Suc n)
  show ?case
  proof (cases "i = j")
    case False
    then obtain d where "rc_entries c ! cache_slot c (ce_uri e) i = Some d" using Suc.prems(1) [of i] Suc.prems(3) by auto
    then show ?thesis using False Suc.IH [of "Suc i"] Suc.prems by (simp add: Let_def)
  qed (use Suc.prems in \<open>simp add: Let_def\<close>)
qed simp

lemma filter_update:
  assumes "s < length xs" and "xs ! s = None"
  shows "\<exists>ys zs. List.map_filter id xs = ys @ zs \<and> List.map_filter id (xs[s := Some e]) = ys @ e # zs"
proof -
  have "xs = take s xs @ xs ! s # drop (Suc s) xs" using assms(1) by (rule id_take_nth_drop)
  moreover have "xs[s := Some e] = take s xs @ Some e # drop (Suc s) xs" using assms(1) by (rule upd_conv_take_nth_drop)
  moreover have "List.map_filter id (as @ bs) = List.map_filter id as @ List.map_filter id bs"
    for as bs :: "'a option list"
    by (simp add: List.map_filter_def)
  moreover have "List.map_filter id (x # bs) = (case x of None \<Rightarrow> [] | Some a \<Rightarrow> [a]) @ List.map_filter id bs"
    for x and bs :: "'a option list"
    by (cases x) (simp_all add: List.map_filter_def)
  ultimately show ?thesis using assms(2) by (metis append_Cons append_Nil option.case)
qed

text \<open>Storing a new entry in the first free slot of its probe sequence.\<close>

lemma insert_ok:
  assumes "cache_ok c" and "\<And>d. d \<in> set (cache_entries c) \<Longrightarrow> ce_uri d \<noteq> ce_uri e"
    and "rc_count c < rc_max_documents c"
    and "j < length (rc_entries c)" and "rc_entries c ! cache_slot c (ce_uri e) j = None"
    and "\<And>k. k < j \<Longrightarrow> rc_entries c ! cache_slot c (ce_uri e) k \<noteq> None"
  defines "c' \<equiv> c\<lparr>rc_entries := (rc_entries c)[cache_slot c (ce_uri e) j := Some e], rc_count := rc_count c + 1\<rparr>"
  shows "cache_ok c'" and "\<exists>ys zs. cache_entries c = ys @ zs \<and> cache_entries c' = ys @ e # zs"
proof -
  let ?s = "cache_slot c (ce_uri e) j"
  have t: "table_ok c" using assms(1) by (simp add: cache_ok_def)
  have s: "?s < length (rc_entries c)" by (rule slot_less [OF t])
  show E: "\<exists>ys zs. cache_entries c = ys @ zs \<and> cache_entries c' = ys @ e # zs"
    using filter_update [OF s assms(5), of e] by (simp add: cache_entries_def c'_def)
  have sl: "cache_slot c' u i = cache_slot c u i" for u i by (rule cache_slot_same) (simp add: c'_def)
  have old: "rc_entries c' ! k = rc_entries c ! k" if "rc_entries c ! k \<noteq> None" for k
    using that assms(5) by (cases "k = ?s") (simp_all add: c'_def)
  have len: "length (rc_entries c') = length (rc_entries c)" by (simp add: c'_def)
  have "reached c' (ce_uri d) k" if k: "k < length (rc_entries c')" "rc_entries c' ! k = Some d" for k d
  proof (cases "k = ?s")
    case True
    then have d: "d = e" using k s by (simp add: c'_def)
    have "\<exists>f. rc_entries c' ! cache_slot c' (ce_uri e) i = Some f \<and> ce_uri f \<noteq> ce_uri e" if i: "i < j" for i
    proof -
      obtain f where f: "rc_entries c ! cache_slot c (ce_uri e) i = Some f" using assms(6) [OF i] by blast
      then have "f \<in> set (cache_entries c)" using slot_less [OF t] unfolding mem_cache_entries by blast
      then show ?thesis using f old [of "cache_slot c (ce_uri e) i"] assms(2) by (auto simp: sl)
    qed
    then show ?thesis unfolding reached_def d True using assms(4) by (intro exI [of _ j]) (auto simp: sl len)
  next
    case False
    then have "rc_entries c ! k = Some d" "k < length (rc_entries c)" using k by (simp_all add: c'_def)
    then have "reached c (ce_uri d) k" using cache_reached [OF assms(1)] by blast
    then obtain i where i: "i < length (rc_entries c)" "k = cache_slot c (ce_uri d) i"
      "\<forall>l < i. \<exists>f. rc_entries c ! cache_slot c (ce_uri d) l = Some f \<and> ce_uri f \<noteq> ce_uri d"
      unfolding reached_def by blast
    have "\<forall>l < i. \<exists>f. rc_entries c' ! cache_slot c (ce_uri d) l = Some f \<and> ce_uri f \<noteq> ce_uri d"
    proof (intro allI impI)
      fix l assume "l < i"
      then obtain f where "rc_entries c ! cache_slot c (ce_uri d) l = Some f" "ce_uri f \<noteq> ce_uri d" using i(3) by blast
      then show "\<exists>f. rc_entries c' ! cache_slot c (ce_uri d) l = Some f \<and> ce_uri f \<noteq> ce_uri d"
        using old [of "cache_slot c (ce_uri d) l"] by simp
    qed
    then show ?thesis unfolding reached_def using i by (intro exI [of _ i]) (simp add: sl len)
  qed
  moreover have "table_ok c'" using t by (simp add: table_ok_def c'_def)
  moreover have "rc_count c' = length (cache_entries c')" using E assms(1) by (auto simp: cache_ok_def c'_def)
  ultimately show "cache_ok c'" using assms(1,3) len by (simp add: cache_ok_def c'_def)
qed

lemma put_finds:
  assumes "cache_ok c" and "rc_count c < rc_max_documents c"
  obtains j where "j < length (rc_entries c)" "rc_entries c ! cache_slot c u j = None"
    "\<And>k. k < j \<Longrightarrow> rc_entries c ! cache_slot c u k \<noteq> None"
proof -
  have t: "table_ok c" using assms(1) by (simp add: cache_ok_def)
  have "length (cache_entries c) < length (rc_entries c)" using assms by (auto simp: cache_ok_def)
  then have "\<exists>s < length (rc_entries c). rc_entries c ! s = None"
  proof (rule contrapos_pp)
    assume "\<not> (\<exists>s < length (rc_entries c). rc_entries c ! s = None)"
    then have "\<forall>x \<in> set (rc_entries c). x \<noteq> None" by (auto simp: in_set_conv_nth)
    then have "filter (\<lambda>x. x \<noteq> None) (rc_entries c) = rc_entries c" by simp
    then show "\<not> length (cache_entries c) < length (rc_entries c)"
      by (simp add: cache_entries_def List.map_filter_def del: not_None_eq filter_id_conv)
  qed
  then obtain s where "s < length (rc_entries c)" "rc_entries c ! s = None" by blast
  then have ex: "\<exists>j < length (rc_entries c). rc_entries c ! cache_slot c u j = None"
    using slot_onto [OF t] by metis
  define j where "j = (LEAST j. rc_entries c ! cache_slot c u j = None)"
  have "rc_entries c ! cache_slot c u j = None" "j < length (rc_entries c)"
    using ex unfolding j_def by (metis (mono_tags, lifting) LeastI, metis (mono_tags, lifting) Least_le order.strict_trans1)
  moreover have "rc_entries c ! cache_slot c u k \<noteq> None" if "k < j" for k
    using not_less_Least [of k "\<lambda>j. rc_entries c ! cache_slot c u j = None"] that by (simp add: j_def)
  ultimately show thesis using that by blast
qed


lemma cache_create_ok:
  assumes "oas_ref_cache_create mem mem_entries m = Some c" and "m < 2 ^ 31"
  shows "cache_ok c" and "cache_map c = Map.empty" and "rc_max_documents c = (if m \<le> 0 then 100 else nat m)"
proof -
  let ?m = "nat (if m \<le> 0 then OAS_REF_CACHE_DEFAULT_MAX else m)"
  have pow: "\<exists>l < 64. pow2_loop k v = 2 ^ l \<and> v \<le> 2 ^ l" if "v \<le> 2 ^ 32" and "k < 64" for k v
    using that
  proof (induction k v rule: pow2_loop.induct)
    case (1 k v)
    show ?case
    proof (cases "2 ^ k < v")
      case True
      then have "(2 :: nat) ^ k < 2 ^ 32" using 1(2) by (rule order.strict_trans2)
      then have "k < 32" by (rule power_less_imp_less_exp [rotated]) simp
      moreover have "\<not> 2 ^ k > (2 ^ 64 - 1 :: nat) div 2" using \<open>(2 :: nat) ^ k < 2 ^ 32\<close> by simp
      ultimately show ?thesis using 1 True by (subst pow2_loop.simps) simp
    next
      case False
      then show ?thesis using 1(3) by (subst pow2_loop.simps) auto
    qed
  qed
  have m: "0 < ?m" "?m * 2 \<le> 2 ^ 32" using assms(2) by (auto simp: OAS_REF_CACHE_DEFAULT_MAX_def)
  obtain l where l: "l < 64" "next_pow2 (?m * 2) = 2 ^ l" "?m * 2 \<le> 2 ^ l"
    using pow [OF m(2), of 4] by (auto simp: next_pow2_def)
  have c: "c = \<lparr>rc_entries = replicate (2 ^ l) None, rc_capacity = 2 ^ l, rc_count = 0, rc_max_documents = ?m\<rparr>"
    using assms(1) l(2) by (simp add: oas_ref_cache_create_def Let_def split: if_splits)
  then have e: "cache_entries c = []" by (simp add: cache_entries_def List.map_filter_def)
  have "table_ok c" using l(1) c by (auto simp: table_ok_def)
  then show "cache_ok c" using e l(3) m(1) by (auto simp: cache_ok_def c)
  show "cache_map c = Map.empty" by (simp add: cache_map_def e)
  show "rc_max_documents c = (if m \<le> 0 then 100 else nat m)" by (simp add: c OAS_REF_CACHE_DEFAULT_MAX_def)
qed

section \<open>The contract\<close>

text \<open>
  A bounded store of documents: what a client of the cache relies on. \<open>docs\<close> are the documents
  the store owns.
\<close>

locale document_store =
  fixes ok :: "'s \<Rightarrow> bool"
    and lookup :: "'s \<Rightarrow> string \<Rightarrow> json option"
    and store :: "bool \<Rightarrow> 's \<Rightarrow> string \<Rightarrow> 'd \<Rightarrow> json \<Rightarrow> errno option \<times> 's \<times> 'd list"
    and held :: "'s \<Rightarrow> 'd list"
    and limit :: "'s \<Rightarrow> nat"
  assumes store_ok: "ok s \<Longrightarrow> ok (fst (snd (store dup s u d r)))"
    and store_limit: "limit (fst (snd (store dup s u d r))) = limit s"
    and held_bound: "ok s \<Longrightarrow> length (held s) \<le> limit s"
    and store_new: "ok s \<Longrightarrow> lookup s u = None \<Longrightarrow> fst (store dup s u d r) = None \<Longrightarrow>
      lookup (fst (snd (store dup s u d r))) = (lookup s)(u \<mapsto> r) \<and>
      mset (held (fst (snd (store dup s u d r)))) = add_mset d (mset (held s)) \<and> snd (snd (store dup s u d r)) = []"
    and store_dup: "ok s \<Longrightarrow> lookup s u \<noteq> None \<Longrightarrow> store dup s u d r = (None, s, [d])"
    and store_fails: "ok s \<Longrightarrow> fst (store dup s u d r) \<noteq> None \<Longrightarrow>
      fst (snd (store dup s u d r)) = s \<and> snd (snd (store dup s u d r)) = []"
    and store_room: "ok s \<Longrightarrow> lookup s u = None \<Longrightarrow> dup \<Longrightarrow> length (held s) < limit s \<Longrightarrow> fst (store dup s u d r) = None"
begin

text \<open>A sequence of insertions: the documents handed over and not refused are held or freed.\<close>

fun stores :: "'s \<Rightarrow> (bool \<times> string \<times> 'd \<times> json) list \<Rightarrow> 'd list \<times> 's \<times> 'd list" where
  "stores s [] = ([], s, [])"
| "stores s ((dup, u, d, r) # xs) =
     (case store dup s u d r of
        (rc, s1, gone) \<Rightarrow>
          (case stores s1 xs of
             (taken, s2, gone') \<Rightarrow> (if rc = None then d # taken else taken, s2, gone @ gone')))"

lemma stores_account:
  assumes "ok s" and "stores s xs = (taken, s', gone)"
  shows "ok s' \<and> mset (held s') + mset gone = mset (held s) + mset taken \<and> lookup s \<subseteq>\<^sub>m lookup s'"
  using assms
proof (induction xs arbitrary: s taken gone)
  case (Cons x xs)
  obtain dup u d r where x: "x = (dup, u, d, r)" by (cases x)
  obtain rc s1 g where st: "store dup s u d r = (rc, s1, g)" by (cases "store dup s u d r")
  obtain tk g' where rest: "stores s1 xs = (tk, s', g')" "taken = (if rc = None then d # tk else tk)" "gone = g @ g'"
    using Cons.prems(2) by (auto simp: x st split: prod.splits)
  have s1: "ok s1" using store_ok [OF Cons.prems(1), of dup u d r] st by simp
  have "mset (held s1) + mset g = mset (held s) + (if rc = None then {#d#} else {#}) \<and> lookup s \<subseteq>\<^sub>m lookup s1"
  proof (cases "lookup s u = None")
    case True
    then show ?thesis using store_new [OF Cons.prems(1) True, of dup d r] store_fails [OF Cons.prems(1), of dup u d r] st
      by (cases rc) (auto simp: map_le_def)
  next
    case False
    then show ?thesis using store_dup [OF Cons.prems(1) False, of dup d r] st by simp
  qed
  then show ?case using Cons.IH [OF s1 rest(1)] rest(2,3)
    by (auto simp: algebra_simps intro: map_le_trans) (metis add.commute add.left_commute add_mset_add_single union_mset_add_mset_right)+
qed simp

end


definition cache_store ::
    "bool \<Rightarrow> 'd oas_ref_cache \<Rightarrow> string \<Rightarrow> 'd \<Rightarrow> json \<Rightarrow> errno option \<times> 'd oas_ref_cache \<times> 'd list" where
  "cache_store dup c u d r =
     (case oas_ref_cache_put dup (Some c) (Some u) (Some d) (Some r) of (rc, c', gone) \<Rightarrow> (rc, the c', gone))"

definition cache_docs :: "'d oas_ref_cache \<Rightarrow> 'd list" where
  "cache_docs c = map ce_doc (cache_entries c)"

lemma cache_map_insert:
  assumes "cache_ok c" and "cache_ok c'" and "set (cache_entries c') = insert e (set (cache_entries c))"
    and "\<And>f. f \<in> set (cache_entries c) \<Longrightarrow> ce_uri f \<noteq> ce_uri e"
  shows "cache_map c' = (cache_map c)(ce_uri e \<mapsto> ce_root e)"
proof
  fix v
  have "cache_map c' v = Some x \<longleftrightarrow> ((cache_map c)(ce_uri e \<mapsto> ce_root e)) v = Some x" for x
    using cache_map_iff [OF assms(2), of v x] cache_map_iff [OF assms(1), of v x] assms(4) by (auto simp: assms(3))
  then show "cache_map c' v = ((cache_map c)(ce_uri e \<mapsto> ce_root e)) v" by (metis not_None_eq)
qed

lemma destroy_docs: "oas_ref_cache_destroy (Some c) = cache_docs c"
  by (simp add: oas_ref_cache_destroy_def cache_docs_def cache_entries_def List.map_filter_def comp_def option.map_sel)

text \<open>The three outcomes of an insertion.\<close>

lemma cache_store_cases:
  assumes "cache_ok c"
  obtains (dup) "cache_map c u \<noteq> None" "cache_store dup c u d r = (None, c, [d])"
  | (refused) e where "cache_map c u = None" "cache_store dup c u d r = (Some e, c, [])"
      "e = (if rc_max_documents c \<le> rc_count c then ENOSPC else ENOMEM)" "rc_max_documents c \<le> rc_count c \<or> \<not> dup"
  | (stored) c' where "cache_map c u = None" "cache_store dup c u d r = (None, c', [])" "cache_ok c'"
      "cache_map c' = (cache_map c)(u \<mapsto> r)" "mset (cache_docs c') = add_mset d (mset (cache_docs c))"
      "rc_max_documents c' = rc_max_documents c" "rc_count c < rc_max_documents c" "dup"
proof (cases "cache_map c u = None")
  case False
  then show thesis using dup by (simp add: cache_store_def oas_ref_cache_put_def cache_get_map [OF assms])
next
  case True
  note absent = True
  show thesis
  proof (cases "rc_max_documents c \<le> rc_count c \<or> \<not> dup")
    case True
    then have "cache_store dup c u d r = (Some (if rc_max_documents c \<le> rc_count c then ENOSPC else ENOMEM), c, [])"
      using absent by (auto simp: cache_store_def oas_ref_cache_put_def cache_get_map [OF assms])
    then show thesis using refused [OF absent _ refl] True by blast
  next
    case False
    let ?e = "\<lparr>ce_uri = u, ce_doc = d, ce_root = r\<rparr>"
    have room: "rc_count c < rc_max_documents c" using False by simp
    obtain j where j: "j < length (rc_entries c)" "rc_entries c ! cache_slot c u j = None"
        "\<And>k. k < j \<Longrightarrow> rc_entries c ! cache_slot c u k \<noteq> None"
      using put_finds [OF assms room, of u] by blast
    let ?c = "c\<lparr>rc_entries := (rc_entries c)[cache_slot c u j := Some ?e], rc_count := rc_count c + 1\<rparr>"
    have t: "table_ok c" using assms by (simp add: cache_ok_def)
    have n: "unat (rc_capacity c) = length (rc_entries c)" using t by (rule table_okE)
    have "put_loop c ?e 0 (length (rc_entries c)) = Some ?c" using j put_loop_result [of 0 j c ?e] by simp
    then have st: "cache_store dup c u d r = (None, ?c, [])"
      using False absent by (simp add: cache_store_def oas_ref_cache_put_def cache_get_map [OF assms] n)
    have a: "ce_uri f \<noteq> ce_uri ?e" if "f \<in> set (cache_entries c)" for f
      using that absent cache_map_iff [OF assms, of u "ce_root f"] by auto
    have ok: "cache_ok ?c" and E: "\<exists>ys zs. cache_entries c = ys @ zs \<and> cache_entries ?c = ys @ ?e # zs"
      using insert_ok [OF assms a room j(1)] j(2,3) by simp_all
    have set: "set (cache_entries ?c) = insert ?e (set (cache_entries c))" using E by auto
    have "cache_map ?c = (cache_map c)(ce_uri ?e \<mapsto> ce_root ?e)" using a by (intro cache_map_insert assms ok set)
    then have "cache_map ?c = (cache_map c)(u \<mapsto> r)" by simp
    moreover have "mset (cache_docs ?c) = add_mset d (mset (cache_docs c))" using E by (auto simp: cache_docs_def)
    ultimately show thesis using stored [OF absent st ok] room False by auto
  qed
qed

lemma put_loop_limit: "put_loop c e i n = Some c' \<Longrightarrow> rc_max_documents c' = rc_max_documents c"
  by (induction n arbitrary: i) (auto simp: Let_def split: option.splits)

interpretation ref_store: document_store cache_ok cache_map cache_store cache_docs rc_max_documents
proof (unfold_locales, goal_cases)
  case (1 s dup u d r)
  then show ?case by (cases rule: cache_store_cases [of s u dup d r]) (use 1 in auto)
next
  case (2 dup s u d r)
  show ?case by (auto simp: cache_store_def oas_ref_cache_put_def split: option.split elim: put_loop_limit)
next
  case (3 s)
  then show ?case by (simp add: cache_ok_def cache_docs_def)
next
  case (4 s u dup d r)
  then show ?case by (cases rule: cache_store_cases [of s u dup d r]) auto
next
  case (5 s u dup d r)
  then show ?case by (cases rule: cache_store_cases [of s u dup d r]) auto
next
  case (6 s dup u d r)
  then show ?case by (cases rule: cache_store_cases [of s u dup d r]) auto
next
  case (7 s u dup d r)
  then have "rc_count s < rc_max_documents s" by (simp add: cache_docs_def cache_ok_def)
  then show ?case using 7(2,3) by (cases rule: cache_store_cases [OF 7(1), of u dup d r]) auto
qed

section \<open>Properties\<close>

text \<open>
  C38. The table is a finite map: a lookup answers what the map has, an insertion of a new URI
  below the limit with memory adds it, one of a known URI changes nothing and frees the
  document handed over, and a refused one (\<open>ENOSPC\<close> at the limit, else \<open>ENOMEM\<close>) changes nothing;
  probing finds a slot whenever the limit allows one.
\<close>

theorem ref_cache_refines_map:
  assumes "cache_ok c"
  shows "oas_ref_cache_get (Some c) (Some u) = cache_map c u \<and>
    (case oas_ref_cache_put dup (Some c) (Some u) (Some d) (Some r) of
       (None, Some c', gone) \<Rightarrow>
         (if cache_map c u = None
          then rc_count c < rc_max_documents c \<and> cache_ok c' \<and> cache_map c' = (cache_map c)(u \<mapsto> r) \<and> gone = []
          else c' = c \<and> gone = [d])
     | (Some e, c', gone) \<Rightarrow>
         cache_map c u = None \<and> c' = Some c \<and> gone = [] \<and>
         e = (if rc_max_documents c \<le> rc_count c then ENOSPC else ENOMEM) \<and> (rc_max_documents c \<le> rc_count c \<or> \<not> dup)
     | _ \<Rightarrow> False)"
proof -
  have "\<exists>c'. oas_ref_cache_put dup (Some c) (Some u) (Some d) (Some r) =
      (fst (cache_store dup c u d r), Some c', snd (snd (cache_store dup c u d r))) \<and> c' = fst (snd (cache_store dup c u d r))"
    by (auto simp: cache_store_def oas_ref_cache_put_def split: option.split)
  then show ?thesis
    by (cases rule: cache_store_cases [OF assms, of u dup d r]) (auto simp: cache_get_map [OF assms])
qed

definition empty_cache :: "nat oas_ref_cache" where
  "empty_cache = the (oas_ref_cache_create True True 2)"

lemma empty_cache: "oas_ref_cache_create True True 2 = Some empty_cache" "cache_ok empty_cache"
  "cache_map empty_cache = Map.empty" "rc_max_documents empty_cache = 2" "rc_count empty_cache = 0"
proof -
  show c: "oas_ref_cache_create True True 2 = Some empty_cache"
    by (simp add: empty_cache_def oas_ref_cache_create_def Let_def)
  show "cache_ok empty_cache" "cache_map empty_cache = Map.empty" "rc_max_documents empty_cache = 2"
    using cache_create_ok [OF c] by simp_all
  show "rc_count empty_cache = 0" by (simp add: empty_cache_def oas_ref_cache_create_def Let_def)
qed

theorem ref_cache_refines_map_witness:
  "\<exists>c'. oas_ref_cache_put True (Some empty_cache) (Some ''a.json'') (Some (7 :: nat)) (Some JNull) = (None, Some c', []) \<and>
    cache_map c' ''a.json'' = Some JNull"
  using ref_cache_refines_map [OF empty_cache(2), where u = "''a.json''" and dup = True and d = "7 :: nat" and r = JNull] empty_cache(3-5)
  by (auto split: prod.splits option.splits)

text \<open>
  Documents are released exactly once: of all documents handed over with an answer of 0,
  those freed on the way because their URI was known, and those \<open>oas_ref_cache_destroy\<close> frees at
  the end, are all of them, each once; and at no time are more held than the limit.
\<close>

theorem ref_cache_releases:
  assumes "oas_ref_cache_create mem mem_entries m = Some c" and "m < 2 ^ 31"
    and "ref_store.stores c xs = (taken, c', gone)"
  shows "mset gone + mset (oas_ref_cache_destroy (Some c')) = mset taken \<and>
    oas_ref_cache_count (Some c') \<le> rc_max_documents c'"
proof -
  note c = cache_create_ok [OF assms(1,2)]
  have e: "cache_docs c = []" using c(1,2) cache_map_iff [OF c(1)] by (auto simp: cache_docs_def) (metis list.set_intros(1) neq_Nil_conv option.distinct(1))
  show ?thesis using ref_store.stores_account [OF c(1) assms(3)] e destroy_docs [of c']
    by (auto simp: oas_ref_cache_count_def cache_ok_def add.commute)
qed

theorem ref_cache_releases_witness:
  "\<exists>c'. ref_store.stores empty_cache [(True, ''a'', 1, JNull), (True, ''a'', 2, JNull)] = ([1, 2], c', [2]) \<and>
    mset [2 :: nat] + mset (oas_ref_cache_destroy (Some c')) = mset [1, 2]"
proof -
  obtain t c' g where s: "ref_store.stores empty_cache [(True, ''a'', 1 :: nat, JNull), (True, ''a'', 2, JNull)] = (t, c', g)"
    by (metis prod_cases3)
  from s have "t = [1, 2] \<and> g = [2]"
    by (cases rule: cache_store_cases [OF empty_cache(2), of "''a''" True 1 JNull])
      (auto simp: empty_cache(3-5) ref_store.store_dup)
  then show ?thesis using ref_cache_releases [OF empty_cache(1) _ s] s by auto
qed

end
