(* ===== verification/Liboas_Schema_Parser.thy ===== *)
theory Liboas_Schema_Parser
  imports Liboas_Schema
begin

text \<open>
  The schema parser (\<open>src/parser/oas_schema_parser.c\<close>): from a JSON value to schema nodes in
  the arena. The error list is passed down and never written, so the model leaves it out.
\<close>

section \<open>State and steps\<close>

text \<open>
  The arena and the store of nodes. A step returns \<open>None\<close> where it does not come back, or where
  it stores a pointer the model has no value for: an array slot left uninitialised (a member of
  \<open>required\<close> that is no string) or a null name in \<open>dependentRequired\<close>.
\<close>

record 'a parse_state =
  ps_arena :: 'a
  ps_heap :: schema_heap

type_synonym 'a schema_alloc = "'a \<Rightarrow> u64 \<Rightarrow> u64 \<Rightarrow> u64 option \<times> 'a"

type_synonym 'a parse_step = "'a parse_state \<Rightarrow> 'a parse_state option"

type_synonym 'a schema_reader = "json \<Rightarrow> 'a parse_state \<Rightarrow> (sref option \<times> 'a parse_state) option"

fun parse_steps :: "'a parse_step list \<Rightarrow> 'a parse_step" where
  "parse_steps [] st = Some st"
| "parse_steps (f # fs) st = do { st \<leftarrow> f st; parse_steps fs st }"

text \<open>A write to fields of the node.\<close>

definition set_node :: "sref \<Rightarrow> (oas_schema \<Rightarrow> oas_schema) \<Rightarrow> 'a parse_step" where
  "set_node p f st = do { s \<leftarrow> ps_heap st p; Some (st\<lparr>ps_heap := (ps_heap st)(p \<mapsto> f s)\<rparr>) }"

text \<open>An array of \<open>n\<close> elements of a size; a refused array leaves the fields as they are.\<close>

definition with_slots :: "'a schema_alloc \<Rightarrow> nat \<Rightarrow> nat \<Rightarrow> 'a parse_step \<Rightarrow> 'a parse_step" where
  "with_slots alloc n sz f st =
     (if n = 0 then Some st
      else
        (case alloc (ps_arena st) (of_nat sz * of_nat n) 8 of
           (None, a) \<Rightarrow> Some (st\<lparr>ps_arena := a\<rparr>)
         | (Some _, a) \<Rightarrow> f (st\<lparr>ps_arena := a\<rparr>)))"

section \<open>Values\<close>

fun is_jint :: "json \<Rightarrow> bool" where
  "is_jint (JUint n) = True"
| "is_jint (JSint n) = True"
| "is_jint _ = False"

text \<open>\<open>yyjson_get_sint\<close> reads the 64 bits as signed, whatever the subtype.\<close>

fun yyjson_get_sint :: "json \<Rightarrow> int" where
  "yyjson_get_sint (JUint n) = sint n"
| "yyjson_get_sint (JSint n) = sint n"
| "yyjson_get_sint _ = 0"

fun get_number :: "json \<Rightarrow> double" where
  "get_number (JReal d) = d"
| "get_number (JUint n) = dbl_round (of_int (yyjson_get_sint (JUint n)))"
| "get_number (JSint n) = dbl_round (of_int (yyjson_get_sint (JSint n)))"
| "get_number _ = 0"

fun json_str :: "json \<Rightarrow> string option" where
  "json_str (JStr s) = Some (cstr s)"
| "json_str _ = None"

fun json_bool :: "json \<Rightarrow> bool option" where
  "json_bool (JBool b) = Some b"
| "json_bool _ = None"

definition json_int :: "json \<Rightarrow> int option" where
  "json_int v = (if is_jint v then Some (yyjson_get_sint v) else None)"

definition json_num :: "json \<Rightarrow> double option" where
  "json_num v = (if is_jnum v then Some (get_number v) else None)"

text \<open>A field set from a key whose value is there and of the right kind.\<close>

definition on_key ::
    "yyjson \<Rightarrow> json \<Rightarrow> string \<Rightarrow> (json \<Rightarrow> 'x option) \<Rightarrow> ('x \<Rightarrow> oas_schema \<Rightarrow> oas_schema) \<Rightarrow> oas_schema \<Rightarrow> oas_schema" where
  "on_key yy obj k get f s =
     (case Option.bind (yy_obj_get yy obj k) get of None \<Rightarrow> s | Some x \<Rightarrow> f x s)"

section \<open>Constraints without sub-schemas\<close>

definition parse_type :: "json \<Rightarrow> oas_schema \<Rightarrow> oas_schema" where
  "parse_type v s =
     (case v of
        JStr t \<Rightarrow> s\<lparr>s_type_mask := oas_type_from_string (Some (cstr t))\<rparr>
      | JArr xs \<Rightarrow>
          fold (\<lambda>x s. case x of
              JStr t \<Rightarrow> s\<lparr>s_type_mask := s_type_mask s OR oas_type_from_string (Some (cstr t))\<rparr>
            | _ \<Rightarrow> s) xs s
      | _ \<Rightarrow> s)"

definition parse_string_constraints :: "yyjson \<Rightarrow> json \<Rightarrow> oas_schema \<Rightarrow> oas_schema" where
  "parse_string_constraints yy obj s =
     (let s = on_key yy obj ''minLength'' json_int (\<lambda>n s. s\<lparr>s_min_length := n\<rparr>) s;
          s = on_key yy obj ''maxLength'' json_int (\<lambda>n s. s\<lparr>s_max_length := n\<rparr>) s
      in on_key yy obj ''pattern'' json_str (\<lambda>t s. s\<lparr>s_pattern := Some t\<rparr>) s)"

definition parse_numeric_constraints :: "yyjson \<Rightarrow> json \<Rightarrow> oas_schema \<Rightarrow> oas_schema" where
  "parse_numeric_constraints yy obj s =
     (let s = on_key yy obj ''minimum'' json_num (\<lambda>d s. s\<lparr>s_minimum := d, s_has_minimum := True\<rparr>) s;
          s = on_key yy obj ''maximum'' json_num (\<lambda>d s. s\<lparr>s_maximum := d, s_has_maximum := True\<rparr>) s;
          s = on_key yy obj ''exclusiveMinimum'' json_num
                (\<lambda>d s. s\<lparr>s_exclusive_minimum := d, s_has_exclusive_minimum := True\<rparr>) s;
          s = on_key yy obj ''exclusiveMaximum'' json_num
                (\<lambda>d s. s\<lparr>s_exclusive_maximum := d, s_has_exclusive_maximum := True\<rparr>) s
      in on_key yy obj ''multipleOf'' json_num (\<lambda>d s. s\<lparr>s_multiple_of := d, s_has_multiple_of := True\<rparr>) s)"

section \<open>Sub-schemas\<close>

text \<open>A key whose object value is parsed into one field.\<close>

definition parse_child ::
    "yyjson \<Rightarrow> 'a schema_reader \<Rightarrow> json \<Rightarrow> string \<Rightarrow> sref \<Rightarrow> (sref option \<Rightarrow> oas_schema \<Rightarrow> oas_schema)
      \<Rightarrow> 'a parse_step" where
  "parse_child yy rec obj k p f st =
     (case yy_obj_get yy obj k of
        None \<Rightarrow> Some st
      | Some v \<Rightarrow> if is_jobj v then do { (x, st) \<leftarrow> rec v st; set_node p (f x) st } else Some st)"

text \<open>The elements of an array, or the values of an object, each into its slot.\<close>

fun read_all :: "'a schema_reader \<Rightarrow> json list \<Rightarrow> 'a parse_state \<Rightarrow> (sref option list \<times> 'a parse_state) option" where
  "read_all rec [] st = Some ([], st)"
| "read_all rec (v # vs) st = do {
     (x, st) \<leftarrow> rec v st;
     (xs, st) \<leftarrow> read_all rec vs st;
     Some (x # xs, st)
   }"

text \<open>A slot that is filled only for an object value.\<close>

definition read_object :: "'a schema_reader \<Rightarrow> 'a schema_reader" where
  "read_object rec v st = (if is_jobj v then rec v st else Some (None, st))"

definition arr_of :: "yyjson \<Rightarrow> json \<Rightarrow> string \<Rightarrow> json list option" where
  "arr_of yy obj k = (case yy_obj_get yy obj k of Some (JArr xs) \<Rightarrow> Some xs | _ \<Rightarrow> None)"

definition obj_of :: "yyjson \<Rightarrow> json \<Rightarrow> string \<Rightarrow> (string \<times> json) list option" where
  "obj_of yy obj k = (case yy_obj_get yy obj k of Some (JObj kvs) \<Rightarrow> Some kvs | _ \<Rightarrow> None)"

text \<open>
  An array of schemas, under \<open>prefixItems\<close> and the compositions; without an array, or with a
  refused one, the field stays empty.
\<close>

definition parse_schema_array ::
    "yyjson \<Rightarrow> 'a schema_alloc \<Rightarrow> 'a schema_reader \<Rightarrow> json \<Rightarrow> string \<Rightarrow> sref
      \<Rightarrow> (sref option list \<Rightarrow> oas_schema \<Rightarrow> oas_schema) \<Rightarrow> 'a parse_step" where
  "parse_schema_array yy alloc rec obj k p f st =
     (case arr_of yy obj k of
        None \<Rightarrow> Some st
      | Some vs \<Rightarrow> with_slots alloc (length vs) 8 (\<lambda>st. do { (xs, st) \<leftarrow> read_all rec vs st; set_node p (f xs) st }) st)"

definition parse_array_constraints ::
    "yyjson \<Rightarrow> 'a schema_alloc \<Rightarrow> 'a schema_reader \<Rightarrow> json \<Rightarrow> sref \<Rightarrow> 'a parse_step list" where
  "parse_array_constraints yy alloc rec obj p =
     [parse_child yy rec obj ''items'' p (\<lambda>x s. s\<lparr>s_items := x\<rparr>),
      parse_schema_array yy alloc rec obj ''prefixItems'' p (\<lambda>xs s. s\<lparr>s_prefix_items := xs\<rparr>),
      set_node p (on_key yy obj ''minItems'' json_int (\<lambda>n s. s\<lparr>s_min_items := n\<rparr>)),
      set_node p (on_key yy obj ''maxItems'' json_int (\<lambda>n s. s\<lparr>s_max_items := n\<rparr>)),
      set_node p (on_key yy obj ''uniqueItems'' json_bool (\<lambda>b s. s\<lparr>s_unique_items := b\<rparr>)),
      parse_child yy rec obj ''contains'' p (\<lambda>x s. s\<lparr>s_contains := x\<rparr>),
      set_node p (on_key yy obj ''minContains'' json_int (\<lambda>n s. s\<lparr>s_min_contains := n\<rparr>)),
      set_node p (on_key yy obj ''maxContains'' json_int (\<lambda>n s. s\<lparr>s_max_contains := n\<rparr>))]"

text \<open>\<open>properties\<close>: a property whose node cannot be added is dropped.\<close>

fun properties_loop ::
    "'a schema_alloc \<Rightarrow> 'a schema_reader \<Rightarrow> sref \<Rightarrow> (string \<times> json) list \<Rightarrow> 'a parse_step" where
  "properties_loop alloc rec p [] st = Some st"
| "properties_loop alloc rec p ((k, v) # kvs) st =
     (if is_jobj v
      then do {
        (x, st) \<leftarrow> rec v st;
        st \<leftarrow> (case x of
                 None \<Rightarrow> Some st
               | Some q \<Rightarrow> do {
                   (rc, a, h) \<leftarrow> oas_schema_add_property alloc (Some (ps_arena st)) (ps_heap st)
                     (Some p) (Some (cstr k)) (Some q);
                   Some (st\<lparr>ps_arena := the a, ps_heap := h\<rparr>)
                 });
        properties_loop alloc rec p kvs st
      }
      else properties_loop alloc rec p kvs st)"

definition all_strings :: "json list \<Rightarrow> string list option" where
  "all_strings vs = (if list_all is_jstr vs then Some (map (the \<circ> json_str) vs) else None)"

definition parse_required :: "yyjson \<Rightarrow> 'a schema_alloc \<Rightarrow> json \<Rightarrow> sref \<Rightarrow> 'a parse_step" where
  "parse_required yy alloc obj p st =
     (case arr_of yy obj ''required'' of
        None \<Rightarrow> Some st
      | Some vs \<Rightarrow> with_slots alloc (length vs) 8
          (\<lambda>st. do { ns \<leftarrow> all_strings vs; set_node p (\<lambda>s. s\<lparr>s_required := ns\<rparr>) st }) st)"

definition parse_additional ::
    "yyjson \<Rightarrow> 'a schema_alloc \<Rightarrow> 'a schema_reader \<Rightarrow> json \<Rightarrow> sref \<Rightarrow> 'a parse_step" where
  "parse_additional yy alloc rec obj p st =
     (case yy_obj_get yy obj ''additionalProperties'' of
        Some (JBool b) \<Rightarrow> do {
          st \<leftarrow> set_node p (\<lambda>s. s\<lparr>s_additional_properties_bool := True\<rparr>) st;
          (if b then Some st
           else
             (case oas_schema_create alloc (Some (ps_arena st)) (ps_heap st) of
                (x, a, h) \<Rightarrow>
                  set_node p (\<lambda>s. s\<lparr>s_additional_properties := x\<rparr>) (st\<lparr>ps_arena := the a, ps_heap := h\<rparr>)))
        }
      | Some v \<Rightarrow>
          if is_jobj v then do { (x, st) \<leftarrow> rec v st; set_node p (\<lambda>s. s\<lparr>s_additional_properties := x\<rparr>) st }
          else Some st
      | None \<Rightarrow> Some st)"

text \<open>The keyed arrays: \<open>patternProperties\<close>, \<open>dependentRequired\<close>, \<open>dependentSchemas\<close>.\<close>

definition parse_pattern_properties ::
    "yyjson \<Rightarrow> 'a schema_alloc \<Rightarrow> 'a schema_reader \<Rightarrow> json \<Rightarrow> sref \<Rightarrow> 'a parse_step" where
  "parse_pattern_properties yy alloc rec obj p st =
     (case obj_of yy obj ''patternProperties'' of
        None \<Rightarrow> Some st
      | Some kvs \<Rightarrow> with_slots alloc (length kvs) 16 (\<lambda>st. do {
          (xs, st) \<leftarrow> read_all (read_object rec) (map snd kvs) st;
          set_node p (\<lambda>s. s\<lparr>s_pattern_properties :=
            map2 (\<lambda>k x. \<lparr>pp_pattern = Some (cstr k), pp_schema = x\<rparr>) (map fst kvs) xs\<rparr>) st
        }) st)"

definition parse_dependent_schemas ::
    "yyjson \<Rightarrow> 'a schema_alloc \<Rightarrow> 'a schema_reader \<Rightarrow> json \<Rightarrow> sref \<Rightarrow> 'a parse_step" where
  "parse_dependent_schemas yy alloc rec obj p st =
     (case obj_of yy obj ''dependentSchemas'' of
        None \<Rightarrow> Some st
      | Some kvs \<Rightarrow> with_slots alloc (length kvs) 16 (\<lambda>st. do {
          (xs, st) \<leftarrow> read_all (read_object rec) (map snd kvs) st;
          set_node p (\<lambda>s. s\<lparr>s_dependent_schemas :=
            map2 (\<lambda>k x. \<lparr>ds_property = cstr k, ds_schema = x\<rparr>) (map fst kvs) xs\<rparr>) st
        }) st)"

text \<open>The names of one entry: an array that is refused, or no array at all, leaves it empty.\<close>

definition dependent_names :: "'a schema_alloc \<Rightarrow> json \<Rightarrow> 'a \<Rightarrow> (string list \<times> 'a) option" where
  "dependent_names alloc v a =
     (case v of
        JArr vs \<Rightarrow>
          if vs = [] then Some ([], a)
          else
            (case alloc a (8 * of_nat (length vs)) 8 of
               (None, a) \<Rightarrow> Some ([], a)
             | (Some _, a) \<Rightarrow> do { ns \<leftarrow> all_strings vs; Some (ns, a) })
      | _ \<Rightarrow> Some ([], a))"

fun dependent_loop ::
    "'a schema_alloc \<Rightarrow> (string \<times> json) list \<Rightarrow> 'a \<Rightarrow> (oas_dependent_required list \<times> 'a) option" where
  "dependent_loop alloc [] a = Some ([], a)"
| "dependent_loop alloc ((k, v) # kvs) a = do {
     (ns, a) \<leftarrow> dependent_names alloc v a;
     (ds, a) \<leftarrow> dependent_loop alloc kvs a;
     Some (\<lparr>dr_property = cstr k, dr_required = ns\<rparr> # ds, a)
   }"

definition parse_dependent_required :: "yyjson \<Rightarrow> 'a schema_alloc \<Rightarrow> json \<Rightarrow> sref \<Rightarrow> 'a parse_step" where
  "parse_dependent_required yy alloc obj p st =
     (case obj_of yy obj ''dependentRequired'' of
        None \<Rightarrow> Some st
      | Some kvs \<Rightarrow> with_slots alloc (length kvs) 24 (\<lambda>st. do {
          (ds, a) \<leftarrow> dependent_loop alloc kvs (ps_arena st);
          set_node p (\<lambda>s. s\<lparr>s_dependent_required := ds\<rparr>) (st\<lparr>ps_arena := a\<rparr>)
        }) st)"

definition parse_object_constraints ::
    "yyjson \<Rightarrow> 'a schema_alloc \<Rightarrow> 'a schema_reader \<Rightarrow> json \<Rightarrow> sref \<Rightarrow> 'a parse_step list" where
  "parse_object_constraints yy alloc rec obj p =
     [(\<lambda>st. case obj_of yy obj ''properties'' of None \<Rightarrow> Some st | Some kvs \<Rightarrow> properties_loop alloc rec p kvs st),
      parse_required yy alloc obj p,
      parse_additional yy alloc rec obj p,
      set_node p (on_key yy obj ''minProperties'' json_int (\<lambda>n s. s\<lparr>s_min_properties := n\<rparr>)),
      set_node p (on_key yy obj ''maxProperties'' json_int (\<lambda>n s. s\<lparr>s_max_properties := n\<rparr>)),
      parse_child yy rec obj ''propertyNames'' p (\<lambda>x s. s\<lparr>s_property_names := x\<rparr>),
      parse_pattern_properties yy alloc rec obj p,
      parse_dependent_required yy alloc obj p,
      parse_dependent_schemas yy alloc rec obj p]"

definition parse_composition ::
    "yyjson \<Rightarrow> 'a schema_alloc \<Rightarrow> 'a schema_reader \<Rightarrow> json \<Rightarrow> sref \<Rightarrow> 'a parse_step list" where
  "parse_composition yy alloc rec obj p =
     [parse_schema_array yy alloc rec obj ''allOf'' p (\<lambda>xs s. s\<lparr>s_all_of := xs\<rparr>),
      parse_schema_array yy alloc rec obj ''anyOf'' p (\<lambda>xs s. s\<lparr>s_any_of := xs\<rparr>),
      parse_schema_array yy alloc rec obj ''oneOf'' p (\<lambda>xs s. s\<lparr>s_one_of := xs\<rparr>),
      parse_child yy rec obj ''not'' p (\<lambda>x s. s\<lparr>s_not_schema := x\<rparr>)]"

definition parse_conditional ::
    "yyjson \<Rightarrow> 'a schema_reader \<Rightarrow> json \<Rightarrow> sref \<Rightarrow> 'a parse_step list" where
  "parse_conditional yy rec obj p =
     [parse_child yy rec obj ''if'' p (\<lambda>x s. s\<lparr>s_if_schema := x\<rparr>),
      parse_child yy rec obj ''then'' p (\<lambda>x s. s\<lparr>s_then_schema := x\<rparr>),
      parse_child yy rec obj ''else'' p (\<lambda>x s. s\<lparr>s_else_schema := x\<rparr>)]"

section \<open>A schema\<close>

definition parse_annotations :: "yyjson \<Rightarrow> json \<Rightarrow> oas_schema \<Rightarrow> oas_schema" where
  "parse_annotations yy v s =
     (let s = on_key yy v ''$ref'' json_str (\<lambda>t s. s\<lparr>s_ref := Some t\<rparr>) s;
          s = on_key yy v ''type'' Some parse_type s;
          s = on_key yy v ''title'' json_str (\<lambda>t s. s\<lparr>s_title := Some t\<rparr>) s;
          s = on_key yy v ''description'' json_str (\<lambda>t s. s\<lparr>s_description := Some t\<rparr>) s
      in on_key yy v ''format'' json_str (\<lambda>t s. s\<lparr>s_format := Some t\<rparr>) s)"

definition parse_flags :: "yyjson \<Rightarrow> json \<Rightarrow> oas_schema \<Rightarrow> oas_schema" where
  "parse_flags yy v s =
     (let s = on_key yy v ''const'' Some (\<lambda>x s. s\<lparr>s_const_value := Some x\<rparr>) s;
          s = on_key yy v ''enum'' (\<lambda>x. if is_jarr x then Some x else None) (\<lambda>x s. s\<lparr>s_enum_values := Some x\<rparr>) s;
          s = on_key yy v ''default'' Some (\<lambda>x s. s\<lparr>s_default_value := Some x\<rparr>) s;
          s = on_key yy v ''nullable'' json_bool
                (\<lambda>b s. if b then s\<lparr>s_nullable := True, s_type_mask := s_type_mask s OR OAS_TYPE_NULL\<rparr> else s) s;
          s = on_key yy v ''readOnly'' json_bool (\<lambda>b s. s\<lparr>s_read_only := b\<rparr>) s;
          s = on_key yy v ''writeOnly'' json_bool (\<lambda>b s. s\<lparr>s_write_only := b\<rparr>) s
      in on_key yy v ''deprecated'' json_bool (\<lambda>b s. s\<lparr>s_deprecated := b\<rparr>) s)"

definition parse_discriminator :: "yyjson \<Rightarrow> 'a schema_alloc \<Rightarrow> json \<Rightarrow> sref \<Rightarrow> 'a parse_step" where
  "parse_discriminator yy alloc obj p st =
     (case yy_obj_get yy obj ''discriminator'' of
        Some (JObj dkvs) \<Rightarrow> do {
          st \<leftarrow> set_node p (on_key yy (JObj dkvs) ''propertyName'' json_str
                  (\<lambda>t s. s\<lparr>s_discriminator_property := Some t\<rparr>)) st;
          (case obj_of yy (JObj dkvs) ''mapping'' of
             None \<Rightarrow> Some st
           | Some kvs \<Rightarrow> with_slots alloc (length kvs) 16
               (set_node p (\<lambda>s. s\<lparr>s_discriminator_mapping :=
                  map (\<lambda>(k, v). \<lparr>dm_key = cstr k, dm_ref = json_str v\<rparr>) kvs\<rparr>)) st)
        }
      | _ \<Rightarrow> Some st)"

definition parse_unevaluated ::
    "yyjson \<Rightarrow> 'a schema_reader \<Rightarrow> json \<Rightarrow> sref \<Rightarrow> 'a parse_step list" where
  "parse_unevaluated yy rec obj p =
     [set_node p (on_key yy obj ''unevaluatedProperties'' Some (\<lambda>x s. s\<lparr>s_has_unevaluated_properties := True\<rparr>)),
      parse_child yy rec obj ''unevaluatedProperties'' p (\<lambda>x s. s\<lparr>s_unevaluated_properties := x\<rparr>),
      set_node p (on_key yy obj ''unevaluatedItems'' Some (\<lambda>x s. s\<lparr>s_has_unevaluated_items := True\<rparr>)),
      parse_child yy rec obj ''unevaluatedItems'' p (\<lambda>x s. s\<lparr>s_unevaluated_items := x\<rparr>)]"

definition parse_node ::
    "yyjson \<Rightarrow> 'a schema_alloc \<Rightarrow> 'a schema_reader \<Rightarrow> json \<Rightarrow> sref \<Rightarrow> 'a parse_step" where
  "parse_node yy alloc rec v p = parse_steps
     ([set_node p (parse_annotations yy v),
       set_node p (parse_string_constraints yy v), set_node p (parse_numeric_constraints yy v)]
      @ parse_array_constraints yy alloc rec v p @ parse_object_constraints yy alloc rec v p
      @ parse_composition yy alloc rec v p @ parse_conditional yy rec v p
      @ [set_node p (parse_flags yy v), parse_discriminator yy alloc v p]
      @ parse_unevaluated yy rec v p)"

text \<open>The recursion goes down the JSON value; the fuel bounds its depth.\<close>

primrec oas_schema_parse :: "nat \<Rightarrow> yyjson \<Rightarrow> 'a schema_alloc \<Rightarrow> 'a schema_reader" where
  "oas_schema_parse 0 yy alloc v st = None"
| "oas_schema_parse (Suc fuel) yy alloc v st =
     (if \<not> is_jobj v then Some (None, st)
      else
        (case oas_schema_create alloc (Some (ps_arena st)) (ps_heap st) of
           (None, a, h) \<Rightarrow> Some (None, st\<lparr>ps_arena := the a, ps_heap := h\<rparr>)
         | (Some p, a, h) \<Rightarrow> do {
             st \<leftarrow> parse_node yy alloc (oas_schema_parse fuel yy alloc) v p (st\<lparr>ps_arena := the a, ps_heap := h\<rparr>);
             Some (Some p, st)
           }))"

end
