(* ===== verification/Liboas_Ref.thy ===== *)
theory Liboas_Ref
  imports Liboas_Uri Liboas_Ref_Cache Liboas_Jsonptr Liboas_Schema_Parser Liboas_Doc
begin

text \<open>
  The resolver of \<open>$ref\<close> (\<open>src/parser/oas_ref.c\<close>) and the loader of local files
  (\<open>src/parser/oas_ref_file.c\<close>). The file system, the network and the client's callback act on a
  world \<open>'w\<close>; every path opened and every URL fetched is recorded in a trace, every document read
  gets a number, and the numbers of those freed are recorded.
\<close>

section \<open>Context\<close>

text \<open>
  What opening and reading a file gives: \<open>fopen\<close> fails (\<open>errno\<close> may be unset), its length cannot
  be found, or the length reported and the bytes read.
\<close>

datatype file_outcome = Open_failed "errno option" | Length_failed errno | File_read nat string

record 'w oas_ref_options =
  ro_allow_remote :: bool
  ro_allow_file :: bool
  ro_fetch :: "('w \<Rightarrow> string \<Rightarrow> (errno + string) \<times> 'w) option"
  ro_base_dir :: "string option"
  ro_max_documents :: int
  ro_fetch_timeout_ms :: int
  ro_max_fetch_size :: nat
  ro_max_redirects :: int

text \<open>The built-in fetcher, the working directory, files, \<open>malloc\<close>, and the YAML build option.\<close>

record ('a, 'w) ref_env =
  rv_alloc :: "'a allocator"
  rv_yy :: yyjson
  rv_walk :: ptr_walk
  rv_http :: "'w \<Rightarrow> string \<Rightarrow> int \<Rightarrow> nat \<Rightarrow> int \<Rightarrow> (errno + string) \<times> 'w"
  rv_cwd :: "'w \<Rightarrow> (errno + string) \<times> 'w"
  rv_file :: "'w \<Rightarrow> string \<Rightarrow> file_outcome \<times> 'w"
  rv_malloc :: "'w \<Rightarrow> bool \<times> 'w"
  rv_yaml :: bool

datatype access = Opened string | Fetched string

record ref_visited =
  vi_refs :: "string list"
  vi_capacity :: nat

text \<open>The fields of the context, then what the functions change around it.\<close>

record ('a, 'w) oas_ref_ctx =
  rx_arena :: 'a
  rx_root :: json
  rx_visited :: ref_visited
  rx_cache :: "nat oas_ref_cache option"
  rx_options :: "'w oas_ref_options option"

record ('a, 'w) ref_state = "('a, 'w) oas_ref_ctx" +
  rx_errors :: "'a oas_error_list option"
  rx_schemas :: schema_heap
  rx_world :: 'w
  rx_docs :: nat
  rx_freed :: "nat list"
  rx_trace :: "access list"

definition OAS_MAX_REF_DEPTH :: nat where
  "OAS_MAX_REF_DEPTH = 64"

definition oas_ref_ctx_create :: "'a allocator \<Rightarrow> 'a option \<Rightarrow> json option \<Rightarrow> ('a, 'w) oas_ref_ctx option \<times> 'a option" where
  "oas_ref_ctx_create alloc arena doc_root =
     (case (arena, doc_root) of
        (Some a, Some r) \<Rightarrow>
          (case alloc a 56 8 of
             (None, a) \<Rightarrow> (None, Some a)
           | (Some _, a) \<Rightarrow>
               (case alloc a (8 * 16) 8 of
                  (None, a) \<Rightarrow> (None, Some a)
                | (Some _, a) \<Rightarrow>
                    (Some \<lparr>rx_arena = a, rx_root = r, rx_visited = \<lparr>vi_refs = [], vi_capacity = 16\<rparr>,
                       rx_cache = None, rx_options = None\<rparr>, Some a)))
      | _ \<Rightarrow> (None, arena))"

definition oas_ref_ctx_set_options ::
    "'w oas_ref_options option \<Rightarrow> nat oas_ref_cache option \<Rightarrow> ('a, 'w) ref_state \<Rightarrow> ('a, 'w) ref_state" where
  "oas_ref_ctx_set_options options cache st = st\<lparr>rx_options := options, rx_cache := cache\<rparr>"

definition ref_report ::
    "('a, 'w) ref_env \<Rightarrow> oas_error_kind \<Rightarrow> string \<Rightarrow> string \<Rightarrow> ('a, 'w) ref_state \<Rightarrow> ('a, 'w) ref_state" where
  "ref_report env kind path msg st =
     st\<lparr>rx_errors := map_option (\<lambda>l. oas_error_list_add (rv_alloc env) l kind (Some path) msg) (rx_errors st)\<rparr>"

section \<open>The visited references\<close>

definition visited_contains :: "ref_visited \<Rightarrow> string \<Rightarrow> bool" where
  "visited_contains v ref \<longleftrightarrow> list_ex (\<lambda>r. r = ref) (vi_refs v)"

definition visited_push :: "'a allocator \<Rightarrow> string \<Rightarrow> ('a, 'w) ref_state \<Rightarrow> errno option \<times> ('a, 'w) ref_state" where
  "visited_push alloc ref st =
     (let v = rx_visited st
      in if length (vi_refs v) \<ge> vi_capacity v
         then
           (case alloc (rx_arena st) (8 * (of_nat (vi_capacity v) * 2)) 8 of
              (None, a) \<Rightarrow> (Some ENOMEM, st\<lparr>rx_arena := a\<rparr>)
            | (Some _, a) \<Rightarrow>
                (None, st\<lparr>rx_arena := a,
                   rx_visited := \<lparr>vi_refs = vi_refs v @ [ref], vi_capacity = vi_capacity v * 2\<rparr>\<rparr>))
         else (None, st\<lparr>rx_visited := v\<lparr>vi_refs := vi_refs v @ [ref]\<rparr>\<rparr>))"

definition visited_pop :: "('a, 'w) ref_state \<Rightarrow> ('a, 'w) ref_state" where
  "visited_pop st = st\<lparr>rx_visited := (rx_visited st)\<lparr>vi_refs := butlast (vi_refs (rx_visited st))\<rparr>\<rparr>"

section \<open>Documents\<close>

text \<open>
  Storing a document that has been read under a key; a refused one is freed. What \<open>free\<close>s follow
  the call of \<open>oas_ref_cache_put\<close> in the code is part of it.
\<close>

definition keep_document ::
    "('a, 'w) ref_env \<Rightarrow> string \<Rightarrow> json \<Rightarrow> ('a, 'w) ref_state \<Rightarrow> (errno + json) \<times> ('a, 'w) ref_state" where
  "keep_document env key r st =
     (let d = rx_docs st; st = st\<lparr>rx_docs := d + 1\<rparr>
      in case rx_cache st of
           None \<Rightarrow> (Inr r, st)
         | Some c \<Rightarrow>
             (case rv_malloc env (rx_world st) of
                (dup, w) \<Rightarrow>
                  (case oas_ref_cache_put dup (Some c) (Some key) (Some d) (Some r) of
                     (Some e, c', gone) \<Rightarrow> (Inl e, st\<lparr>rx_world := w, rx_cache := c', rx_freed := d # gone @ rx_freed st\<rparr>)
                   | (None, c', gone) \<Rightarrow> (Inr r, st\<lparr>rx_world := w, rx_cache := c', rx_freed := gone @ rx_freed st\<rparr>))))"

text \<open>The text of a document that was fetched.\<close>

definition accept_fetched ::
    "('a, 'w) ref_env \<Rightarrow> string \<Rightarrow> string \<Rightarrow> string \<Rightarrow> ('a, 'w) ref_state \<Rightarrow> (errno + json) \<times> ('a, 'w) ref_state" where
  "accept_fetched env key ref data st =
     (case yy_read (rv_yy env) data of
        None \<Rightarrow> (Inl EINVAL, ref_report env OAS_ERR_PARSE ref (''JSON parse error in fetched: '' @ ref) st)
      | Some r \<Rightarrow> keep_document env key r st)"

section \<open>Files\<close>

definition OAS_REF_FILE_DEFAULT_MAX_SIZE :: nat where
  "OAS_REF_FILE_DEFAULT_MAX_SIZE = 10 * 1024 * 1024"

definition join_path :: "string \<Rightarrow> string \<Rightarrow> string" where
  "join_path dir path = dir @ (if dir \<noteq> [] \<and> last dir \<noteq> CHR ''/'' then ''/'' else []) @ path"

definition build_full_path ::
    "('a, 'w) ref_env \<Rightarrow> string \<Rightarrow> string option \<Rightarrow> 'w \<Rightarrow> (errno + string) \<times> 'w" where
  "build_full_path env path base_dir w =
     (if path \<noteq> [] \<and> hd path = CHR ''/''
      then (case rv_malloc env w of (ok, w) \<Rightarrow> (if ok then Inr path else Inl ENOMEM, w))
      else
        (case (case base_dir of None \<Rightarrow> rv_cwd env w | Some b \<Rightarrow> (Inr b, w)) of
           (Inl e, w) \<Rightarrow> (Inl e, w)
         | (Inr dir, w) \<Rightarrow>
             (case rv_malloc env w of (ok, w) \<Rightarrow> (if ok then Inr (join_path dir path) else Inl ENOMEM, w))))"

text \<open>The text after the last dot.\<close>

definition is_yaml_extension :: "string \<Rightarrow> bool" where
  "is_yaml_extension path =
     (CHR ''.'' \<in> set path \<and>
      rev (takeWhile (\<lambda>c. c \<noteq> CHR ''.'') (rev path)) \<in> {''yaml'', ''yml''})"

definition read_opened ::
    "('a, 'w) ref_env \<Rightarrow> string \<Rightarrow> string \<Rightarrow> nat \<Rightarrow> file_outcome \<Rightarrow> ('a, 'w) ref_state
      \<Rightarrow> (errno + json) \<times> ('a, 'w) ref_state" where
  "read_opened env path full max_size res st =
     (case res of
        Open_failed e \<Rightarrow>
          (Inl (case e of None \<Rightarrow> ENOENT | Some e \<Rightarrow> e), ref_report env OAS_ERR_REF path (''cannot open file: '' @ full) st)
      | Length_failed e \<Rightarrow> (Inl e, st)
      | File_read len content \<Rightarrow>
          if len > max_size
          then (Inl EFBIG, ref_report env OAS_ERR_REF path
                  (''file too large: '' @ dec_nat len @ '' bytes (max '' @ dec_nat max_size @ '')'') st)
          else
            (case rv_malloc env (rx_world st) of
               (ok, w) \<Rightarrow>
                 let st = st\<lparr>rx_world := w\<rparr>
                 in if \<not> ok then (Inl ENOMEM, st)
                    else if length content \<noteq> len then (Inl EIO, st)
                    else
                      (case yy_read (rv_yy env) content of
                         None \<Rightarrow>
                           (Inl EINVAL, ref_report env OAS_ERR_PARSE path (''JSON parse error in file: '' @ full) st)
                       | Some r \<Rightarrow> keep_document env full r st)))"

definition oas_ref_load_file ::
    "('a, 'w) ref_env \<Rightarrow> string option \<Rightarrow> string option \<Rightarrow> nat \<Rightarrow> ('a, 'w) ref_state
      \<Rightarrow> (errno + json) \<times> ('a, 'w) ref_state" where
  "oas_ref_load_file env path base_dir max_size st =
     (case (path, rx_cache st) of
        (Some p, Some c) \<Rightarrow>
          let max_size = (if max_size = 0 then OAS_REF_FILE_DEFAULT_MAX_SIZE else max_size)
          in (case build_full_path env p base_dir (rx_world st) of
                (Inl e, w) \<Rightarrow> (Inl e, st\<lparr>rx_world := w\<rparr>)
              | (Inr full, w) \<Rightarrow>
                  let st = st\<lparr>rx_world := w\<rparr>
                  in if \<not> oas_uri_path_is_safe (Some full)
                     then (Inl EINVAL, ref_report env OAS_ERR_REF p (''path traversal blocked: '' @ p) st)
                     else
                       (case oas_ref_cache_get (Some c) (Some full) of
                          Some r \<Rightarrow> (Inr r, st)
                        | None \<Rightarrow>
                            if is_yaml_extension full
                            then (Inl ENOTSUP,
                                  if rv_yaml env then st
                                  else ref_report env OAS_ERR_REF p (''YAML support not enabled: '' @ p) st)
                            else
                              (case rv_file env (rx_world st) full of
                                 (res, w) \<Rightarrow>
                                   read_opened env p full max_size res
                                     (st\<lparr>rx_world := w, rx_trace := Opened full # rx_trace st\<rparr>))))
      | _ \<Rightarrow> (Inl EINVAL, st))"

section \<open>References\<close>

definition is_http :: "oas_uri \<Rightarrow> bool" where "is_http uri \<longleftrightarrow> ur_scheme uri = Some ''http''"
definition is_https :: "oas_uri \<Rightarrow> bool" where "is_https uri \<longleftrightarrow> ur_scheme uri = Some ''https''"

definition fetch_remote ::
    "('a, 'w) ref_env \<Rightarrow> string \<Rightarrow> string \<Rightarrow> oas_uri \<Rightarrow> ('a, 'w) ref_state \<Rightarrow> (errno + json) \<times> ('a, 'w) ref_state" where
  "fetch_remote env key ref uri st =
     (let denied = (Inl EACCES, ref_report env OAS_ERR_REF ref (''remote $ref not allowed: '' @ ref) st);
          fetched = (\<lambda>w. st\<lparr>rx_world := w, rx_trace := Fetched ref # rx_trace st\<rparr>)
      in case rx_options st of
           None \<Rightarrow> denied
         | Some opts \<Rightarrow>
             if \<not> ro_allow_remote opts then denied
             else
               (case ro_fetch opts of
                  Some f \<Rightarrow>
                    (case f (rx_world st) ref of
                       (Inl e, w) \<Rightarrow> (Inl e, fetched w)
                     | (Inr data, w) \<Rightarrow> accept_fetched env key ref data (fetched w))
                | None \<Rightarrow>
                    if is_http uri
                    then
                      (case rv_http env (rx_world st) ref (ro_fetch_timeout_ms opts) (ro_max_fetch_size opts)
                              (ro_max_redirects opts) of
                         (Inl e, w) \<Rightarrow> (Inl e, ref_report env OAS_ERR_REF ref (''HTTP fetch failed: '' @ ref) (fetched w))
                       | (Inr data, w) \<Rightarrow> accept_fetched env key ref data (fetched w))
                    else (Inl ENOTSUP, ref_report env OAS_ERR_REF ref (''HTTPS requires user fetch callback: '' @ ref) st)))"

definition resolve_external_ref ::
    "('a, 'w) ref_env \<Rightarrow> string \<Rightarrow> oas_uri \<Rightarrow> ('a, 'w) ref_state \<Rightarrow> (errno + json) \<times> ('a, 'w) ref_state" where
  "resolve_external_ref env ref uri st =
     (let key = takeWhile (\<lambda>c. c \<noteq> CHR ''#'') ref
      in case oas_ref_cache_get (rx_cache st) (Some key) of
           Some r \<Rightarrow> (Inr r, st)
         | None \<Rightarrow>
             if is_http uri \<or> is_https uri then fetch_remote env key ref uri st
             else if rx_options st \<noteq> None \<and> \<not> ro_allow_file (the (rx_options st))
             then (Inl EACCES, ref_report env OAS_ERR_REF ref (''file $ref not allowed: '' @ ref) st)
             else if ur_path uri \<in> {None, Some []}
             then (Inl EINVAL, ref_report env OAS_ERR_REF ref (''empty file path in $ref: '' @ ref) st)
             else oas_ref_load_file env (ur_path uri)
                    (case rx_options st of None \<Rightarrow> None | Some opts \<Rightarrow> ro_base_dir opts)
                    (case rx_options st of None \<Rightarrow> 0 | Some opts \<Rightarrow> ro_max_fetch_size opts) st)"

text \<open>The pointer of a fragment, and the value it names.\<close>

definition follow_pointer ::
    "('a, 'w) ref_env \<Rightarrow> json \<Rightarrow> string \<Rightarrow> ('a, 'w) ref_state \<Rightarrow> json option \<times> ('a, 'w) ref_state" where
  "follow_pointer env doc_root ref st =
     (case oas_jsonptr_resolve_ex (rv_walk env) (rv_alloc env) (Some doc_root) (oas_jsonptr_from_ref (Some ref)) (rx_errors st) of
        (v, errors) \<Rightarrow> (v, st\<lparr>rx_errors := errors\<rparr>))"

text \<open>A local reference; \<open>rec\<close> follows the reference the value itself holds.\<close>

definition resolve_local ::
    "('a, 'w) ref_env \<Rightarrow> (string \<Rightarrow> ('a, 'w) ref_state \<Rightarrow> ((errno + json) \<times> ('a, 'w) ref_state) option)
      \<Rightarrow> string \<Rightarrow> ('a, 'w) ref_state \<Rightarrow> ((errno + json) \<times> ('a, 'w) ref_state) option" where
  "resolve_local env rec ref st =
     (case follow_pointer env (rx_root st) ref st of
        (None, st) \<Rightarrow> Some (Inl ENOENT, st)
      | (Some v, st) \<Rightarrow>
          (case (if is_jobj v then Option.bind (yy_obj_get (rv_yy env) v ''$ref'') json_str else None) of
             None \<Rightarrow> Some (Inr v, st)
           | Some nested \<Rightarrow>
               (case visited_push (rv_alloc env) ref st of
                  (Some e, st) \<Rightarrow> Some (Inl e, st)
                | (None, st) \<Rightarrow> map_option (\<lambda>(r, st). (r, visited_pop st)) (rec nested st))))"

definition resolve_external ::
    "('a, 'w) ref_env \<Rightarrow> string \<Rightarrow> oas_uri \<Rightarrow> ('a, 'w) ref_state \<Rightarrow> (errno + json) \<times> ('a, 'w) ref_state" where
  "resolve_external env ref uri st =
     (if rx_options st = None \<or> rx_cache st = None
      then (Inl ENOTSUP, ref_report env OAS_ERR_REF ref (''external $ref not supported: '' @ ref) st)
      else
        (case resolve_external_ref env ref uri st of
           (Inl e, st) \<Rightarrow> (Inl e, st)
         | (Inr doc_root, st) \<Rightarrow>
             (case ur_fragment uri of
                None \<Rightarrow> (Inr doc_root, st)
              | Some f \<Rightarrow>
                  if f = [] then (Inr doc_root, st)
                  else if length f + 1 \<ge> 1024 then (Inl ENAMETOOLONG, st)
                  else
                    (case follow_pointer env doc_root (CHR ''#'' # f) st of
                       (None, st) \<Rightarrow> (Inl ENOENT, st)
                     | (Some v, st) \<Rightarrow> (Inr v, st)))))"

text \<open>The fuel bounds the length of the chain.\<close>

primrec oas_ref_resolve ::
    "nat \<Rightarrow> ('a, 'w) ref_env \<Rightarrow> string \<Rightarrow> ('a, 'w) ref_state \<Rightarrow> ((errno + json) \<times> ('a, 'w) ref_state) option" where
  "oas_ref_resolve 0 env ref st = None"
| "oas_ref_resolve (Suc fuel) env ref st =
     (if visited_contains (rx_visited st) ref
      then Some (Inl ELOOP, ref_report env OAS_ERR_REF ref (''circular $ref detected: '' @ ref) st)
      else if length (vi_refs (rx_visited st)) \<ge> OAS_MAX_REF_DEPTH
      then Some (Inl ELOOP, ref_report env OAS_ERR_REF ref (''$ref chain too deep (max 64): '' @ ref) st)
      else
        (case oas_uri_parse (rv_alloc env) (Some ref) (Some (rx_arena st)) (Some uri_zero) of
           (rc, uri, a) \<Rightarrow>
             let st = st\<lparr>rx_arena := the a\<rparr>
             in case rc of
                  Some e \<Rightarrow> Some (Inl e, ref_report env OAS_ERR_REF ref (''invalid $ref URI: '' @ ref) st)
                | None \<Rightarrow>
                    if ur_is_fragment_only (the uri) then resolve_local env (oas_ref_resolve fuel env) ref st
                    else Some (resolve_external env ref (the uri) st)))"

section \<open>Schemas\<close>

definition find_component_schema :: "oas_doc \<Rightarrow> string \<Rightarrow> sref option" where
  "find_component_schema doc nm =
     (case d_components doc of
        None \<Rightarrow> None
      | Some c \<Rightarrow> (case map_of (co_schemas c) nm of None \<Rightarrow> None | Some x \<Rightarrow> x))"

definition component_prefix :: string where
  "component_prefix = ''/components/schemas/''"

text \<open>The component a reference names directly.\<close>

definition component_target :: "oas_doc \<Rightarrow> string \<Rightarrow> sref option" where
  "component_target doc ref =
     (let pointer = the (oas_jsonptr_from_ref (Some ref))
      in if take (length component_prefix) pointer = component_prefix
         then find_component_schema doc (drop (length component_prefix) pointer)
         else None)"

text \<open>The sub-schemas the walk goes on to, in its order.\<close>

definition walked :: "oas_schema \<Rightarrow> sref option list" where
  "walked s = s_items s # s_prefix_items s @ map p_schema (s_properties s) @ [s_additional_properties s] @
     s_all_of s @ s_any_of s @ s_one_of s @ [s_not_schema s, s_if_schema s, s_then_schema s, s_else_schema s]"

definition link_ref :: "sref \<Rightarrow> sref \<Rightarrow> ('a, 'w) ref_state \<Rightarrow> ('a, 'w) ref_state option" where
  "link_ref p q st = do {
     s \<leftarrow> rx_schemas st p;
     Some (st\<lparr>rx_schemas := (rx_schemas st)(p \<mapsto> s\<lparr>s_ref_resolved := Some q\<rparr>)\<rparr>)
   }"

text \<open>
  The fallback: the reference is resolved as a pointer and the value parsed into a new schema.
\<close>

definition resolve_by_value ::
    "nat \<Rightarrow> ('a, 'w) ref_env \<Rightarrow> sref \<Rightarrow> string \<Rightarrow> ('a, 'w) ref_state \<Rightarrow> (errno option \<times> ('a, 'w) ref_state) option" where
  "resolve_by_value depth env p ref st = do {
     (res, st) \<leftarrow> oas_ref_resolve depth env ref st;
     (case res of
        Inl e \<Rightarrow> Some (Some e, st)
      | Inr v \<Rightarrow>
          if is_jobj v then do {
            (x, ps) \<leftarrow> oas_schema_parse (Suc (size v)) (rv_yy env) (rv_alloc env) v
                        \<lparr>ps_arena = rx_arena st, ps_heap = rx_schemas st\<rparr>;
            let st = st\<lparr>rx_arena := ps_arena ps, rx_schemas := ps_heap ps\<rparr>;
            (case x of
               None \<Rightarrow> Some (None, st)
             | Some q \<Rightarrow> do { st \<leftarrow> link_ref p q st; Some (None, st) })
          }
          else Some (None, st))
   }"

fun resolve_each ::
    "('x \<Rightarrow> 's \<Rightarrow> (errno option \<times> 's) option) \<Rightarrow> 'x list \<Rightarrow> 's \<Rightarrow> (errno option \<times> 's) option" where
  "resolve_each f [] st = Some (None, st)"
| "resolve_each f (x # xs) st = do {
     (rc, st) \<leftarrow> f x st;
     (case rc of Some e \<Rightarrow> Some (Some e, st) | None \<Rightarrow> resolve_each f xs st)
   }"

text \<open>
  The walk of a schema tree. \<open>depth\<close> is the fuel of a chain, the first argument that of the walk.
\<close>

primrec resolve_schema_refs ::
    "nat \<Rightarrow> nat \<Rightarrow> ('a, 'w) ref_env \<Rightarrow> oas_doc \<Rightarrow> sref option \<Rightarrow> ('a, 'w) ref_state
      \<Rightarrow> (errno option \<times> ('a, 'w) ref_state) option" where
  "resolve_schema_refs 0 depth env doc x st = None"
| "resolve_schema_refs (Suc fuel) depth env doc x st =
     (case x of
        None \<Rightarrow> Some (None, st)
      | Some p \<Rightarrow> do {
          s \<leftarrow> rx_schemas st p;
          (case Option.bind (s_ref s) (component_target doc) of
             Some q \<Rightarrow> do { st \<leftarrow> link_ref p q st; Some (None, st) }
           | None \<Rightarrow> do {
               (rc, st) \<leftarrow> (case s_ref s of None \<Rightarrow> Some (None, st) | Some ref \<Rightarrow> resolve_by_value depth env p ref st);
               (case rc of
                  Some e \<Rightarrow> Some (Some e, st)
                | None \<Rightarrow> resolve_each (resolve_schema_refs fuel depth env doc) (walked s) st)
             })
        })"

section \<open>Documents\<close>

definition content_schemas :: "oas_media_type_entry list \<Rightarrow> sref option list" where
  "content_schemas ms = map (\<lambda>m. Option.bind (me_value m) mt_schema) ms"

definition param_schema :: "oas_parameter option \<Rightarrow> sref option" where
  "param_schema p = Option.bind p pa_schema"

definition body_schemas :: "oas_request_body option \<Rightarrow> sref option list" where
  "body_schemas b = (case b of None \<Rightarrow> [] | Some b \<Rightarrow> content_schemas (rb_content b))"

definition response_schemas :: "oas_response option \<Rightarrow> sref option list" where
  "response_schemas r = (case r of None \<Rightarrow> [] | Some r \<Rightarrow> content_schemas (re_content r))"

definition component_schemas :: "oas_components \<Rightarrow> sref option list" where
  "component_schemas c =
     map snd (co_schemas c) @ concat (map (response_schemas \<circ> snd) (co_comp_responses c)) @
     map (param_schema \<circ> snd) (co_parameters c) @ concat (map (body_schemas \<circ> snd) (co_request_bodies c)) @
     map (param_schema \<circ> snd) (co_headers c)"

definition operation_schemas :: "oas_operation option \<Rightarrow> sref option list" where
  "operation_schemas x =
     (case x of
        None \<Rightarrow> []
      | Some opn \<Rightarrow> map param_schema (op_parameters opn) @ body_schemas (op_request_body opn) @
          concat (map (response_schemas \<circ> rn_response) (op_responses opn)))"

definition path_schemas :: "oas_path_item option \<Rightarrow> sref option list" where
  "path_schemas x =
     (case x of
        None \<Rightarrow> []
      | Some i \<Rightarrow> map param_schema (pi_parameters i) @
          concat (map operation_schemas [pi_get i, pi_post i, pi_put i, pi_delete i, pi_patch i, pi_head i, pi_options i]))"

definition doc_schemas :: "oas_doc \<Rightarrow> sref option list" where
  "doc_schemas doc =
     (case d_components doc of None \<Rightarrow> [] | Some c \<Rightarrow> component_schemas c) @
     concat (map (path_schemas \<circ> pe_item) (d_paths doc))"

definition oas_ref_resolve_all ::
    "nat \<Rightarrow> nat \<Rightarrow> ('a, 'w) ref_env \<Rightarrow> oas_doc option \<Rightarrow> ('a, 'w) ref_state option
      \<Rightarrow> (errno option \<times> ('a, 'w) ref_state option) option" where
  "oas_ref_resolve_all fuel depth env doc ctx =
     (case (ctx, doc) of
        (Some st, Some d) \<Rightarrow>
          map_option (\<lambda>(rc, st). (rc, Some st)) (resolve_each (resolve_schema_refs fuel depth env d) (doc_schemas d) st)
      | _ \<Rightarrow> Some (Some EINVAL, ctx))"

end
