(* ===== verification/Liboas_Doc_Parser.thy ===== *)
theory Liboas_Doc_Parser
  imports Liboas_Ref
begin

text \<open>
  The document parser (\<open>src/parser/oas_doc_parser.c\<close>) and the JSON reader it starts from
  (\<open>src/parser/oas_json.c\<close>). Everything below the document is built on the arena and the schema
  store of \<open>Liboas_Schema_Parser\<close>; the error list is passed down and written only at the root.
\<close>

section \<open>Reading JSON\<close>

text \<open>
  The state of a call: every JSON document yyjson gives gets a number, the numbers freed are
  recorded, as are the paths opened and the URLs fetched.
\<close>

record ('a, 'w) parser_state =
  dp_arena :: 'a
  dp_heap :: schema_heap
  dp_errors :: "'a oas_error_list option"
  dp_world :: 'w
  dp_docs :: nat
  dp_freed :: "nat list"
  dp_trace :: "access list"

text \<open>The position and the text of a syntax error, and the texts of \<open>strerror\<close>.\<close>

record ('a, 'w) parser_env =
  pv_ref :: "('a, 'w) ref_env"
  pv_read_err :: "string \<Rightarrow> nat \<times> string"
  pv_strerror :: "errno option \<Rightarrow> string"

record oas_json_doc =
  jd_doc :: "nat option"
  jd_root :: "json option"

definition no_json_doc :: oas_json_doc where
  "no_json_doc = \<lparr>jd_doc = None, jd_root = None\<rparr>"

definition parser_report ::
    "('a, 'w) parser_env \<Rightarrow> oas_error_kind \<Rightarrow> string \<Rightarrow> string \<Rightarrow> ('a, 'w) parser_state \<Rightarrow> ('a, 'w) parser_state" where
  "parser_report env kind path msg st =
     st\<lparr>dp_errors := map_option (\<lambda>l. oas_error_list_add (rv_alloc (pv_ref env)) l kind (Some path) msg) (dp_errors st)\<rparr>"

definition oas_json_parse ::
    "('a, 'w) parser_env \<Rightarrow> string option \<Rightarrow> oas_json_doc option \<Rightarrow> ('a, 'w) parser_state
      \<Rightarrow> errno option \<times> oas_json_doc option \<times> ('a, 'w) parser_state" where
  "oas_json_parse env data out st =
     (case (data, out) of
        (Some t, Some _) \<Rightarrow>
          (case yy_read (rv_yy (pv_ref env)) t of
             None \<Rightarrow>
               (Some EINVAL, Some no_json_doc,
                parser_report env OAS_ERR_PARSE ''/''
                  (''JSON parse error at byte '' @ dec_nat (fst (pv_read_err env t)) @ '': '' @ snd (pv_read_err env t)) st)
           | Some r \<Rightarrow>
               (None, Some \<lparr>jd_doc = Some (dp_docs st), jd_root = Some r\<rparr>, st\<lparr>dp_docs := dp_docs st + 1\<rparr>))
      | _ \<Rightarrow> (Some EINVAL, out, st))"

text \<open>
  Reading a file first. The code of a file that cannot be opened is whatever \<open>errno\<close> holds.
\<close>

definition oas_json_parse_file ::
    "('a, 'w) parser_env \<Rightarrow> string option \<Rightarrow> oas_json_doc option \<Rightarrow> ('a, 'w) parser_state
      \<Rightarrow> errno option \<times> oas_json_doc option \<times> ('a, 'w) parser_state" where
  "oas_json_parse_file env path out st =
     (case (path, out) of
        (Some p, Some _) \<Rightarrow>
          (case rv_file (pv_ref env) (dp_world st) p of
             (res, w) \<Rightarrow>
               let st = st\<lparr>dp_world := w, dp_trace := Opened p # dp_trace st\<rparr>
               in case res of
                    Open_failed e \<Rightarrow>
                      (e, Some no_json_doc,
                       parser_report env OAS_ERR_PARSE ''/''
                         (''cannot open file: '' @ p @ '' ('' @ pv_strerror env e @ '')'') st)
                  | Length_failed e \<Rightarrow> (Some EIO, Some no_json_doc, st)
                  | File_read len content \<Rightarrow>
                      (case rv_malloc (pv_ref env) (dp_world st) of
                         (ok, w) \<Rightarrow>
                           let st = st\<lparr>dp_world := w\<rparr>
                           in if \<not> ok then (Some ENOMEM, Some no_json_doc, st)
                              else if length content \<noteq> len then (Some EIO, Some no_json_doc, st)
                              else oas_json_parse env (Some content) out st))
      | _ \<Rightarrow> (Some EINVAL, out, st))"

definition oas_json_free ::
    "oas_json_doc option \<Rightarrow> ('a, 'w) parser_state \<Rightarrow> oas_json_doc option \<times> ('a, 'w) parser_state" where
  "oas_json_free doc st =
     (case doc of
        None \<Rightarrow> (None, st)
      | Some d \<Rightarrow>
          (Some no_json_doc, case jd_doc d of None \<Rightarrow> st | Some n \<Rightarrow> st\<lparr>dp_freed := n # dp_freed st\<rparr>))"

text \<open>The accessors.\<close>

definition json_key :: "yyjson \<Rightarrow> json option \<Rightarrow> string option \<Rightarrow> (json \<Rightarrow> 'x option) \<Rightarrow> 'x option" where
  "json_key yy obj key get =
     (case (obj, key) of (Some v, Some k) \<Rightarrow> Option.bind (yy_obj_get yy v k) get | _ \<Rightarrow> None)"

definition oas_json_get_str :: "yyjson \<Rightarrow> json option \<Rightarrow> string option \<Rightarrow> string option" where
  "oas_json_get_str yy obj key = json_key yy obj key json_str"

definition oas_json_get_int :: "yyjson \<Rightarrow> json option \<Rightarrow> string option \<Rightarrow> int \<Rightarrow> int" where
  "oas_json_get_int yy obj key dflt = (case json_key yy obj key json_int of None \<Rightarrow> dflt | Some n \<Rightarrow> n)"

definition oas_json_get_bool :: "yyjson \<Rightarrow> json option \<Rightarrow> string option \<Rightarrow> bool \<Rightarrow> bool" where
  "oas_json_get_bool yy obj key dflt = (case json_key yy obj key json_bool of None \<Rightarrow> dflt | Some b \<Rightarrow> b)"

definition only_if :: "(json \<Rightarrow> bool) \<Rightarrow> json \<Rightarrow> json option" where
  "only_if P v = (if P v then Some v else None)"

definition oas_json_get_obj :: "yyjson \<Rightarrow> json option \<Rightarrow> string option \<Rightarrow> json option" where
  "oas_json_get_obj yy obj key = json_key yy obj key (only_if is_jobj)"

definition oas_json_get_arr :: "yyjson \<Rightarrow> json option \<Rightarrow> string option \<Rightarrow> json option" where
  "oas_json_get_arr yy obj key = json_key yy obj key (only_if is_jarr)"

section \<open>Nodes and arrays\<close>

text \<open>A step that reads a value, possibly without coming back.\<close>

type_synonym ('a, 'x) reader = "'a parse_state \<Rightarrow> ('x \<times> 'a parse_state) option"

definition str_at :: "yyjson \<Rightarrow> json \<Rightarrow> string \<Rightarrow> string option" where
  "str_at yy obj k = Option.bind (yy_obj_get yy obj k) json_str"

definition bool_at :: "yyjson \<Rightarrow> json \<Rightarrow> string \<Rightarrow> bool" where
  "bool_at yy obj k = (Option.bind (yy_obj_get yy obj k) json_bool = Some True)"

definition obj_at :: "yyjson \<Rightarrow> json \<Rightarrow> string \<Rightarrow> json option" where
  "obj_at yy obj k = Option.bind (yy_obj_get yy obj k) (only_if is_jobj)"

text \<open>A node of a size; the pointer stays null when it is refused.\<close>

definition read_struct :: "'a schema_alloc \<Rightarrow> nat \<Rightarrow> ('a, 'x) reader \<Rightarrow> ('a, 'x option) reader" where
  "read_struct alloc sz rd st =
     (case alloc (ps_arena st) (of_nat sz) 8 of
        (None, a) \<Rightarrow> Some (None, st\<lparr>ps_arena := a\<rparr>)
      | (Some _, a) \<Rightarrow> do { (x, st) \<leftarrow> rd (st\<lparr>ps_arena := a\<rparr>); Some (Some x, st) })"

definition read_maybe :: "('v \<Rightarrow> ('a, 'x option) reader) \<Rightarrow> 'v option \<Rightarrow> ('a, 'x option) reader" where
  "read_maybe rd v st = (case v of None \<Rightarrow> Some (None, st) | Some v \<Rightarrow> rd v st)"

fun read_each :: "('v \<Rightarrow> ('a, 'x) reader) \<Rightarrow> 'v list \<Rightarrow> ('a, 'x list) reader" where
  "read_each rd [] st = Some ([], st)"
| "read_each rd (v # vs) st = do {
     (x, st) \<leftarrow> rd v st;
     (xs, st) \<leftarrow> read_each rd vs st;
     Some (x # xs, st)
   }"

text \<open>An array with a slot for each of the values; a refused one leaves pointer and count zero.\<close>

definition read_array :: "'a schema_alloc \<Rightarrow> nat \<Rightarrow> ('v \<Rightarrow> ('a, 'x) reader) \<Rightarrow> 'v list \<Rightarrow> ('a, 'x list) reader" where
  "read_array alloc sz rd vs st =
     (if vs = [] then Some ([], st)
      else
        (case alloc (ps_arena st) (of_nat sz * of_nat (length vs)) 8 of
           (None, a) \<Rightarrow> Some ([], st\<lparr>ps_arena := a\<rparr>)
         | (Some _, a) \<Rightarrow> read_each rd vs (st\<lparr>ps_arena := a\<rparr>)))"

definition with_alloc :: "'a schema_alloc \<Rightarrow> u64 \<Rightarrow> (u64 option \<Rightarrow> ('a, 'x) reader) \<Rightarrow> ('a, 'x) reader" where
  "with_alloc alloc sz f st = (case alloc (ps_arena st) sz 8 of (p, a) \<Rightarrow> f p (st\<lparr>ps_arena := a\<rparr>))"

definition elems_at :: "yyjson \<Rightarrow> json \<Rightarrow> string \<Rightarrow> json list" where
  "elems_at yy obj k = (case arr_of yy obj k of None \<Rightarrow> [] | Some vs \<Rightarrow> vs)"

definition pairs_at :: "yyjson \<Rightarrow> json \<Rightarrow> string \<Rightarrow> (string \<times> json) list" where
  "pairs_at yy obj k = (case obj_of yy obj k of None \<Rightarrow> [] | Some kvs \<Rightarrow> kvs)"

text \<open>An array of strings, with a null pointer for an element that is none.\<close>

definition read_strings :: "'a schema_alloc \<Rightarrow> json list \<Rightarrow> ('a, string option list) reader" where
  "read_strings alloc vs = read_array alloc 8 (\<lambda>v st. Some (json_str v, st)) vs"

text \<open>A schema; its fuel is the size of the value.\<close>

definition read_schema :: "yyjson \<Rightarrow> 'a schema_alloc \<Rightarrow> json \<Rightarrow> ('a, sref option) reader" where
  "read_schema yy alloc v = oas_schema_parse (Suc (size v)) yy alloc v"

text \<open>The entry of a component: its name, and the node for its value.\<close>

definition read_entry :: "(json \<Rightarrow> ('a, 'x) reader) \<Rightarrow> string \<times> json \<Rightarrow> ('a, string \<times> 'x) reader" where
  "read_entry rd kv st = do { (x, st) \<leftarrow> rd (snd kv) st; Some ((cstr (fst kv), x), st) }"

section \<open>Information and servers\<close>

definition parse_contact :: "yyjson \<Rightarrow> 'a schema_alloc \<Rightarrow> json \<Rightarrow> ('a, oas_contact option) reader" where
  "parse_contact yy alloc v = read_struct alloc 24
     (\<lambda>st. Some (\<lparr>ct_name = str_at yy v ''name'', ct_url = str_at yy v ''url'', ct_email = str_at yy v ''email''\<rparr>, st))"

definition parse_license :: "yyjson \<Rightarrow> 'a schema_alloc \<Rightarrow> json \<Rightarrow> ('a, oas_license option) reader" where
  "parse_license yy alloc v = read_struct alloc 24
     (\<lambda>st. Some (\<lparr>lc_name = str_at yy v ''name'', lc_url = str_at yy v ''url'', lc_identifier = None\<rparr>, st))"

definition parse_info :: "yyjson \<Rightarrow> 'a schema_alloc \<Rightarrow> json \<Rightarrow> ('a, oas_info option) reader" where
  "parse_info yy alloc obj st =
     (if \<not> is_jobj obj then Some (None, st)
      else read_struct alloc 56 (\<lambda>st. do {
        (c, st) \<leftarrow> read_maybe (parse_contact yy alloc) (obj_at yy obj ''contact'') st;
        (l, st) \<leftarrow> read_maybe (parse_license yy alloc) (obj_at yy obj ''license'') st;
        Some (\<lparr>in_title = str_at yy obj ''title'', in_summary = str_at yy obj ''summary'',
               in_description = str_at yy obj ''description'', in_version = str_at yy obj ''version'',
               in_terms_of_service = str_at yy obj ''termsOfService'', in_contact = c, in_license = l\<rparr>, st)
      }) st)"

text \<open>
  A variable; the keys of a value that is no object are not there. A refused node leaves its slot
  unwritten, which is the \<open>None\<close> in the list.
\<close>

definition parse_server_var ::
    "yyjson \<Rightarrow> 'a schema_alloc \<Rightarrow> string \<times> json \<Rightarrow> ('a, oas_server_var option) reader" where
  "parse_server_var yy alloc kv = (let v = snd kv in read_struct alloc 40 (\<lambda>st. do {
     (es, st) \<leftarrow> read_strings alloc (elems_at yy v ''enum'') st;
     Some (\<lparr>sv_name = Some (cstr (fst kv)), sv_default_value = str_at yy v ''default'',
            sv_description = str_at yy v ''description'', sv_enum_values = es\<rparr>, st)
   }))"

definition parse_server :: "yyjson \<Rightarrow> 'a schema_alloc \<Rightarrow> json \<Rightarrow> ('a, oas_server option) reader" where
  "parse_server yy alloc obj st =
     (if \<not> is_jobj obj then Some (None, st)
      else read_struct alloc 32 (\<lambda>st. do {
        (vs, st) \<leftarrow> read_array alloc 8 (parse_server_var yy alloc) (pairs_at yy obj ''variables'') st;
        Some (\<lparr>se_url = str_at yy obj ''url'', se_description = str_at yy obj ''description'', se_variables = vs\<rparr>, st)
      }) st)"

section \<open>Security\<close>

text \<open>A requirement is the first pair of an object; the further ones are not looked at.\<close>

definition parse_requirement :: "'a schema_alloc \<Rightarrow> json \<Rightarrow> ('a, oas_security_req option) reader" where
  "parse_requirement alloc item st =
     (case item of
        JObj ((k, v) # _) \<Rightarrow> read_struct alloc 24 (\<lambda>st. do {
          (scopes, st) \<leftarrow> read_strings alloc (case v of JArr vs \<Rightarrow> vs | _ \<Rightarrow> []) st;
          Some (\<lparr>sr_name = cstr k, sr_scopes = scopes\<rparr>, st)
        }) st
      | _ \<Rightarrow> Some (None, st))"

definition parse_security_array ::
    "yyjson \<Rightarrow> 'a schema_alloc \<Rightarrow> json \<Rightarrow> ('a, oas_security_req option list) reader" where
  "parse_security_array yy alloc obj =
     read_array alloc 8 (parse_requirement alloc) (elems_at yy obj ''security'')"

text \<open>Both arrays of scopes are asked for; the count is set when both are there.\<close>

definition parse_oauth_flow :: "yyjson \<Rightarrow> 'a schema_alloc \<Rightarrow> json \<Rightarrow> ('a, oas_oauth_flow option) reader" where
  "parse_oauth_flow yy alloc obj st =
     (if \<not> is_jobj obj then Some (None, st)
      else
        let kvs = pairs_at yy obj ''scopes''; n = of_nat (length kvs) * 8;
            flow = (\<lambda>ss. \<lparr>of_authorization_url = str_at yy obj ''authorizationUrl'',
                          of_token_url = str_at yy obj ''tokenUrl'',
                          of_refresh_url = str_at yy obj ''refreshUrl'', of_scopes = ss\<rparr>)
        in read_struct alloc 48
             (if kvs = [] then (\<lambda>st. Some (flow [], st))
              else with_alloc alloc n (\<lambda>names. with_alloc alloc n (\<lambda>descriptions st.
                Some (flow (if names \<noteq> None \<and> descriptions \<noteq> None
                            then map (\<lambda>(k, v). (cstr k, json_str v)) kvs else []), st)))) st)"

definition parse_oauth_flows :: "yyjson \<Rightarrow> 'a schema_alloc \<Rightarrow> json \<Rightarrow> ('a, oas_oauth_flows option) reader" where
  "parse_oauth_flows yy alloc v = read_struct alloc 32 (\<lambda>st. do {
     (i, st) \<leftarrow> read_maybe (parse_oauth_flow yy alloc) (yy_obj_get yy v ''implicit'') st;
     (p, st) \<leftarrow> read_maybe (parse_oauth_flow yy alloc) (yy_obj_get yy v ''password'') st;
     (c, st) \<leftarrow> read_maybe (parse_oauth_flow yy alloc) (yy_obj_get yy v ''clientCredentials'') st;
     (a, st) \<leftarrow> read_maybe (parse_oauth_flow yy alloc) (yy_obj_get yy v ''authorizationCode'') st;
     Some (\<lparr>ofs_implicit = i, ofs_password = p, ofs_client_credentials = c, ofs_authorization_code = a\<rparr>, st)
   })"

definition parse_security_scheme ::
    "yyjson \<Rightarrow> 'a schema_alloc \<Rightarrow> json \<Rightarrow> ('a, oas_security_scheme option) reader" where
  "parse_security_scheme yy alloc obj st =
     (if \<not> is_jobj obj then Some (None, st)
      else read_struct alloc 64 (\<lambda>st. do {
        (flows, st) \<leftarrow> read_maybe (parse_oauth_flows yy alloc) (obj_at yy obj ''flows'') st;
        Some (\<lparr>ss_type = str_at yy obj ''type'', ss_name = str_at yy obj ''name'', ss_in = str_at yy obj ''in'',
               ss_scheme = str_at yy obj ''scheme'', ss_bearer_format = str_at yy obj ''bearerFormat'',
               ss_description = str_at yy obj ''description'',
               ss_open_id_connect_url = str_at yy obj ''openIdConnectUrl'', ss_flows = flows\<rparr>, st)
      }) st)"

section \<open>Operations\<close>

definition parse_parameter :: "yyjson \<Rightarrow> 'a schema_alloc \<Rightarrow> json \<Rightarrow> ('a, oas_parameter option) reader" where
  "parse_parameter yy alloc obj st =
     (if \<not> is_jobj obj then Some (None, st)
      else read_struct alloc 40 (\<lambda>st. do {
        (x, st) \<leftarrow> read_maybe (read_schema yy alloc) (obj_at yy obj ''schema'') st;
        Some (\<lparr>pa_name = str_at yy obj ''name'', pa_in = str_at yy obj ''in'',
               pa_description = str_at yy obj ''description'', pa_required = bool_at yy obj ''required'',
               pa_deprecated = bool_at yy obj ''deprecated'', pa_schema = x\<rparr>, st)
      }) st)"

definition parse_media :: "yyjson \<Rightarrow> 'a schema_alloc \<Rightarrow> string \<times> json \<Rightarrow> ('a, oas_media_type_entry) reader" where
  "parse_media yy alloc kv st = do {
     (mt, st) \<leftarrow> read_struct alloc 16 (\<lambda>st. do {
       (x, st) \<leftarrow> read_maybe (read_schema yy alloc) (obj_at yy (snd kv) ''schema'') st;
       Some (\<lparr>mt_media_type_name = Some (cstr (fst kv)), mt_schema = x\<rparr>, st)
     }) st;
     Some (\<lparr>me_key = cstr (fst kv), me_value = mt\<rparr>, st)
   }"

text \<open>The content below the key \<open>content\<close> of an object.\<close>

definition parse_content :: "yyjson \<Rightarrow> 'a schema_alloc \<Rightarrow> json \<Rightarrow> ('a, oas_media_type_entry list) reader" where
  "parse_content yy alloc obj = read_array alloc 16 (parse_media yy alloc) (pairs_at yy obj ''content'')"

definition parse_response :: "yyjson \<Rightarrow> 'a schema_alloc \<Rightarrow> json \<Rightarrow> ('a, oas_response option) reader" where
  "parse_response yy alloc v = read_struct alloc 24 (\<lambda>st. do {
     (ms, st) \<leftarrow> parse_content yy alloc v st;
     Some (\<lparr>re_description = str_at yy v ''description'', re_content = ms\<rparr>, st)
   })"

definition parse_responses :: "yyjson \<Rightarrow> 'a schema_alloc \<Rightarrow> json \<Rightarrow> ('a, oas_response_entry list) reader" where
  "parse_responses yy alloc obj = read_array alloc 16
     (\<lambda>kv st. do {
        (r, st) \<leftarrow> parse_response yy alloc (snd kv) st;
        Some (\<lparr>rn_status_code = cstr (fst kv), rn_response = r\<rparr>, st)
      }) (pairs_at yy obj ''responses'')"

definition parse_body :: "yyjson \<Rightarrow> 'a schema_alloc \<Rightarrow> json \<Rightarrow> ('a, oas_request_body option) reader" where
  "parse_body yy alloc v = read_struct alloc 32 (\<lambda>st. do {
     (ms, st) \<leftarrow> parse_content yy alloc v st;
     Some (\<lparr>rb_description = str_at yy v ''description'', rb_required = bool_at yy v ''required'', rb_content = ms\<rparr>, st)
   })"

definition parse_params :: "yyjson \<Rightarrow> 'a schema_alloc \<Rightarrow> json \<Rightarrow> ('a, oas_parameter option list) reader" where
  "parse_params yy alloc obj = read_array alloc 8 (parse_parameter yy alloc) (elems_at yy obj ''parameters'')"

definition parse_operation :: "yyjson \<Rightarrow> 'a schema_alloc \<Rightarrow> json \<Rightarrow> ('a, oas_operation option) reader" where
  "parse_operation yy alloc obj st =
     (if \<not> is_jobj obj then Some (None, st)
      else read_struct alloc 104 (\<lambda>st. do {
        (tags, st) \<leftarrow> read_strings alloc (elems_at yy obj ''tags'') st;
        (params, st) \<leftarrow> parse_params yy alloc obj st;
        (body, st) \<leftarrow> read_maybe (parse_body yy alloc) (obj_at yy obj ''requestBody'') st;
        (resps, st) \<leftarrow> parse_responses yy alloc obj st;
        (security, st) \<leftarrow> parse_security_array yy alloc obj st;
        Some (\<lparr>op_operation_id = str_at yy obj ''operationId'', op_summary = str_at yy obj ''summary'',
               op_description = str_at yy obj ''description'', op_tags = tags, op_parameters = params,
               op_request_body = body, op_responses = resps, op_security = security,
               op_deprecated = bool_at yy obj ''deprecated''\<rparr>, st)
      }) st)"

definition parse_path_item :: "yyjson \<Rightarrow> 'a schema_alloc \<Rightarrow> string \<Rightarrow> json \<Rightarrow> ('a, oas_path_item) reader" where
  "parse_path_item yy alloc path obj st = (let slot = (\<lambda>k. read_maybe (parse_operation yy alloc) (obj_at yy obj k)) in do {
     (x1, st) \<leftarrow> slot ''get'' st;
     (x2, st) \<leftarrow> slot ''post'' st;
     (x3, st) \<leftarrow> slot ''put'' st;
     (x4, st) \<leftarrow> slot ''delete'' st;
     (x5, st) \<leftarrow> slot ''patch'' st;
     (x6, st) \<leftarrow> slot ''head'' st;
     (x7, st) \<leftarrow> slot ''options'' st;
     (params, st) \<leftarrow> parse_params yy alloc obj st;
     Some (\<lparr>pi_path = Some path, pi_get = x1, pi_post = x2, pi_put = x3, pi_delete = x4, pi_patch = x5,
            pi_head = x6, pi_options = x7, pi_parameters = params\<rparr>, st)
   })"

section \<open>Components\<close>

definition parse_components :: "yyjson \<Rightarrow> 'a schema_alloc \<Rightarrow> json \<Rightarrow> ('a, oas_components option) reader" where
  "parse_components yy alloc obj st =
     (if \<not> is_jobj obj then Some (None, st)
      else read_struct alloc 96 (\<lambda>st. do {
        (schemas, st) \<leftarrow> read_array alloc 16 (read_entry (read_schema yy alloc)) (pairs_at yy obj ''schemas'') st;
        (schemes, st) \<leftarrow> read_array alloc 16 (read_entry (parse_security_scheme yy alloc))
                            (pairs_at yy obj ''securitySchemes'') st;
        (resps, st) \<leftarrow> read_array alloc 16 (read_entry (parse_response yy alloc)) (pairs_at yy obj ''responses'') st;
        (params, st) \<leftarrow> read_array alloc 16 (read_entry (parse_parameter yy alloc)) (pairs_at yy obj ''parameters'') st;
        (bodies, st) \<leftarrow> read_array alloc 16 (read_entry (parse_body yy alloc)) (pairs_at yy obj ''requestBodies'') st;
        (headers, st) \<leftarrow> read_array alloc 16 (read_entry (parse_parameter yy alloc)) (pairs_at yy obj ''headers'') st;
        Some (\<lparr>co_schemas = schemas, co_security_schemes = schemes, co_comp_responses = resps,
               co_parameters = params, co_request_bodies = bodies, co_headers = headers\<rparr>, st)
      }) st)"

section \<open>Documents\<close>

definition check_openapi_version :: "string option \<Rightarrow> bool" where
  "check_openapi_version version =
     (case version of None \<Rightarrow> False | Some v \<Rightarrow> take 2 v = ''3.'')"

definition parse_path ::
    "yyjson \<Rightarrow> 'a schema_alloc \<Rightarrow> string \<times> json \<Rightarrow> ('a, oas_path_entry) reader" where
  "parse_path yy alloc kv st = do {
     (i, st) \<leftarrow> read_struct alloc 80 (parse_path_item yy alloc (cstr (fst kv)) (snd kv)) st;
     Some (\<lparr>pe_path = cstr (fst kv), pe_item = i\<rparr>, st)
   }"

definition parse_tag :: "yyjson \<Rightarrow> 'a schema_alloc \<Rightarrow> json \<Rightarrow> ('a, oas_tag option) reader" where
  "parse_tag yy alloc v = read_struct alloc 16
     (\<lambda>st. Some (\<lparr>tg_name = str_at yy v ''name'', tg_description = str_at yy v ''description''\<rparr>, st))"

text \<open>From the allocation of the document to its last field; \<open>doc\<close> is the number of the JSON document.\<close>

definition build_doc ::
    "yyjson \<Rightarrow> 'a schema_alloc \<Rightarrow> nat option \<Rightarrow> string \<Rightarrow> json \<Rightarrow> ('a, oas_doc option) reader" where
  "build_doc yy alloc doc version r = read_struct alloc 96 (\<lambda>st. do {
     (info, st) \<leftarrow> read_maybe (parse_info yy alloc) (yy_obj_get yy r ''info'') st;
     (servers, st) \<leftarrow> read_array alloc 8 (parse_server yy alloc) (elems_at yy r ''servers'') st;
     (paths, st) \<leftarrow> read_array alloc 16 (parse_path yy alloc) (pairs_at yy r ''paths'') st;
     (comp, st) \<leftarrow> read_maybe (parse_components yy alloc) (yy_obj_get yy r ''components'') st;
     (security, st) \<leftarrow> parse_security_array yy alloc r st;
     (tags, st) \<leftarrow> read_array alloc 8 (parse_tag yy alloc) (elems_at yy r ''tags'') st;
     Some (\<lparr>d_openapi = Some version, d_info = info, d_servers = servers, d_paths = paths,
            d_components = comp, d_security = security, d_tags = tags, d_json_doc = doc\<rparr>, st)
   })"

text \<open>The context of the resolver inside the call, and the way back.\<close>

definition ref_state_of :: "('a, 'w) oas_ref_ctx \<Rightarrow> ('a, 'w) parser_state \<Rightarrow> ('a, 'w) ref_state" where
  "ref_state_of ctx st =
     \<lparr>rx_arena = rx_arena ctx, rx_root = rx_root ctx, rx_visited = rx_visited ctx, rx_cache = rx_cache ctx,
      rx_options = rx_options ctx, rx_errors = dp_errors st, rx_schemas = dp_heap st, rx_world = dp_world st,
      rx_docs = dp_docs st, rx_freed = dp_freed st, rx_trace = dp_trace st\<rparr>"

definition parser_state_of :: "('a, 'w) ref_state \<Rightarrow> ('a, 'w) parser_state" where
  "parser_state_of rs =
     \<lparr>dp_arena = rx_arena rs, dp_heap = rx_schemas rs, dp_errors = rx_errors rs, dp_world = rx_world rs,
      dp_docs = rx_docs rs, dp_freed = rx_freed rs, dp_trace = rx_trace rs\<rparr>"

text \<open>The cache and the options, when there are options.\<close>

definition set_up_cache ::
    "('a, 'w) ref_env \<Rightarrow> 'w oas_ref_options option \<Rightarrow> ('a, 'w) ref_state \<Rightarrow> ('a, 'w) ref_state" where
  "set_up_cache env ref_opts rs =
     (case ref_opts of
        None \<Rightarrow> rs
      | Some opts \<Rightarrow>
          (case rv_malloc env (rx_world rs) of
             (mem, w) \<Rightarrow>
               (case if mem then rv_malloc env w else (False, w) of
                  (mem_entries, w) \<Rightarrow>
                    oas_ref_ctx_set_options (Some opts)
                      (oas_ref_cache_create mem mem_entries (if ro_max_documents opts > 0 then ro_max_documents opts else 100))
                      (rs\<lparr>rx_world := w\<rparr>))))"

text \<open>
  Resolving the references of a document; the code of the resolver is dropped. The walk's fuel is
  the depth a schema of the document can have, that of a chain the longest the resolver follows.
\<close>

definition resolve_document ::
    "('a, 'w) ref_env \<Rightarrow> 'w oas_ref_options option \<Rightarrow> json \<Rightarrow> oas_doc \<Rightarrow> ('a, 'w) parser_state
      \<Rightarrow> ('a, 'w) parser_state option" where
  "resolve_document env ref_opts r doc st =
     (case oas_ref_ctx_create (rv_alloc env) (Some (dp_arena st)) (Some r) of
        (None, a) \<Rightarrow> Some (st\<lparr>dp_arena := the a\<rparr>)
      | (Some ctx, _) \<Rightarrow> do {
          (rc, rs) \<leftarrow> oas_ref_resolve_all (size r + 3) (OAS_MAX_REF_DEPTH + 1) env (Some doc)
                        (Some (set_up_cache env ref_opts (ref_state_of ctx st)));
          let rs = the rs;
          Some (parser_state_of (rs\<lparr>rx_freed := oas_ref_cache_destroy (rx_cache rs) @ rx_freed rs\<rparr>))
        })"

text \<open>The checks of the root: the error to report, or the version.\<close>

definition check_root :: "yyjson \<Rightarrow> json \<Rightarrow> (oas_error_kind \<times> string \<times> string) + string" where
  "check_root yy r =
     (if \<not> is_jobj r then Inl (OAS_ERR_PARSE, ''/'', ''root must be an object'')
      else
        (case str_at yy r ''openapi'' of
           None \<Rightarrow> Inl (OAS_ERR_REQUIRED, ''/openapi'', ''missing required field: openapi'')
         | Some v \<Rightarrow>
             if \<not> check_openapi_version (Some v)
             then Inl (OAS_ERR_SCHEMA, ''/openapi'', ''unsupported OpenAPI version: '' @ v @ '' (expected 3.x)'')
             else if obj_at yy r ''info'' = None
             then Inl (OAS_ERR_REQUIRED, ''/info'', ''missing required field: info'')
             else Inr v))"

definition oas_doc_parse_ex ::
    "('a, 'w) parser_env \<Rightarrow> bool \<Rightarrow> string option \<Rightarrow> 'w oas_ref_options option \<Rightarrow> ('a, 'w) parser_state
      \<Rightarrow> (oas_doc option \<times> ('a, 'w) parser_state) option" where
  "oas_doc_parse_ex env arena json ref_opts st =
     (if \<not> arena \<or> json = None then Some (None, st)
      else
        (case oas_json_parse env json (Some no_json_doc) st of
           (Some e, jdoc, st) \<Rightarrow> Some (None, st)
         | (None, jdoc, st) \<Rightarrow>
             let r = the (jd_root (the jdoc)); yy = rv_yy (pv_ref env)
             in case check_root yy r of
                  Inl (kind, path, msg) \<Rightarrow>
                    Some (None, snd (oas_json_free jdoc (parser_report env kind path msg st)))
                | Inr version \<Rightarrow> do {
                    (doc, ps) \<leftarrow> build_doc yy (rv_alloc (pv_ref env)) (jd_doc (the jdoc)) version r
                                   \<lparr>ps_arena = dp_arena st, ps_heap = dp_heap st\<rparr>;
                    let st = st\<lparr>dp_arena := ps_arena ps, dp_heap := ps_heap ps\<rparr>;
                    (case doc of
                       None \<Rightarrow> Some (None, snd (oas_json_free jdoc st))
                     | Some d \<Rightarrow> do { st \<leftarrow> resolve_document (pv_ref env) ref_opts r d st; Some (Some d, st) })
                  }))"

definition oas_doc_parse ::
    "('a, 'w) parser_env \<Rightarrow> bool \<Rightarrow> string option \<Rightarrow> ('a, 'w) parser_state
      \<Rightarrow> (oas_doc option \<times> ('a, 'w) parser_state) option" where
  "oas_doc_parse env arena json st = oas_doc_parse_ex env arena json None st"

definition oas_doc_parse_file ::
    "('a, 'w) parser_env \<Rightarrow> bool \<Rightarrow> string option \<Rightarrow> ('a, 'w) parser_state
      \<Rightarrow> (oas_doc option \<times> ('a, 'w) parser_state) option" where
  "oas_doc_parse_file env arena path st =
     (if \<not> arena \<or> path = None then Some (None, st)
      else
        (case rv_file (pv_ref env) (dp_world st) (the path) of
           (res, w) \<Rightarrow>
             let st = st\<lparr>dp_world := w, dp_trace := Opened (the path) # dp_trace st\<rparr>
             in case res of
                  Open_failed e \<Rightarrow> Some (None, st)
                | Length_failed e \<Rightarrow> Some (None, st)
                | File_read len content \<Rightarrow>
                    (case rv_malloc (pv_ref env) (dp_world st) of
                       (ok, w) \<Rightarrow>
                         let st = st\<lparr>dp_world := w\<rparr>
                         in if \<not> ok \<or> length content \<noteq> len then Some (None, st)
                            else oas_doc_parse env arena (Some content) st)))"

end
