(* ===== verification/Liboas_Ref_Spec.thy ===== *)
theory Liboas_Ref_Spec
  imports Liboas_Ref
begin

text \<open>
  What the resolver guarantees: it comes back, cycles and over-long chains are the same error as
  running out of steps, nothing is read that the options forbid, and documents are not lost.
\<close>

section \<open>Coming back\<close>

lemma visited_push_grows:
  "visited_push alloc ref st = (None, st') \<Longrightarrow> vi_refs (rx_visited st') = vi_refs (rx_visited st) @ [ref]"
  by (auto simp: visited_push_def Let_def split: if_splits prod.splits option.splits)

text \<open>What the steps around the visited list leave alone.\<close>

lemma ref_report_keeps [simp]:
  "rx_visited (ref_report env k p m st) = rx_visited st" "rx_trace (ref_report env k p m st) = rx_trace st"
  "rx_cache (ref_report env k p m st) = rx_cache st" "rx_options (ref_report env k p m st) = rx_options st"
  "rx_root (ref_report env k p m st) = rx_root st" "rx_docs (ref_report env k p m st) = rx_docs st"
  "rx_freed (ref_report env k p m st) = rx_freed st" "rx_schemas (ref_report env k p m st) = rx_schemas st"
  by (simp_all add: ref_report_def)

lemma follow_pointer_keeps:
  assumes "follow_pointer env r ref st = (v, st')"
  shows "\<exists>es. st' = st\<lparr>rx_errors := es\<rparr>"
  using assms by (auto simp: follow_pointer_def split: prod.splits)

lemma resolve_fuel:
  "OAS_MAX_REF_DEPTH \<le> fuel + length (vi_refs (rx_visited st)) \<Longrightarrow> oas_ref_resolve (Suc fuel) env ref st \<noteq> None"
proof (induction fuel arbitrary: ref st)
  case 0
  then show ?case by (simp split: prod.split option.split)
next
  case (Suc fuel)
  have loc: "resolve_local env (oas_ref_resolve (Suc fuel) env) ref st' \<noteq> None"
    if "rx_visited st' = rx_visited st" for st' :: "('a, 'b) ref_state"
  proof -
    obtain v st1 where f: "follow_pointer env (rx_root st') ref st' = (v, st1)"
      by (cases "follow_pointer env (rx_root st') ref st'")
    then have v: "rx_visited st1 = rx_visited st" using follow_pointer_keeps [OF f] that by auto
    have "oas_ref_resolve (Suc fuel) env r st2 \<noteq> None" if "visited_push (rv_alloc env) ref st1 = (None, st2)" for r st2
      using Suc.prems visited_push_grows [OF that] v by (intro Suc.IH) simp
    then show ?thesis
      by (simp add: resolve_local_def f del: oas_ref_resolve.simps split: option.split prod.split)
  qed
  then have "\<exists>a b. resolve_local env (oas_ref_resolve (Suc fuel) env) ref st' = Some (a, b)"
    if "rx_visited st' = rx_visited st" for st' :: "('a, 'b) ref_state"
    using that by (metis not_None_eq surj_pair)
  note loc = this
  show ?case by (subst oas_ref_resolve.simps) (simp add: loc Let_def del: oas_ref_resolve.simps split: prod.split option.split)
qed

section \<open>What is read\<close>

text \<open>What the options allow: no remote access, no file, and never a path with a parent segment.\<close>

fun allowed :: "'w oas_ref_options option \<Rightarrow> access \<Rightarrow> bool" where
  "allowed opts (Opened p) \<longleftrightarrow> pred_option ro_allow_file opts \<and> opts \<noteq> None \<and> ''..'' \<notin> set (split_on CHR ''/'' p)"
| "allowed opts (Fetched u) \<longleftrightarrow> pred_option ro_allow_remote opts \<and> opts \<noteq> None"

text \<open>
  Every document read so far is held by the cache, has been freed, or is one of \<open>K\<close>, which others
  own, and none twice.
\<close>

definition docs_ok :: "nat multiset \<Rightarrow> ('a, 'w) ref_state \<Rightarrow> bool" where
  "docs_ok K st \<longleftrightarrow> (case rx_cache st of
     None \<Rightarrow> False
   | Some c \<Rightarrow> cache_ok c \<and> mset (rx_freed st) + mset (cache_docs c) + K = mset [0..<rx_docs st])"

text \<open>
  What a run keeps: context, discipline of accesses and ownership of documents.
\<close>

definition run_ok :: "('a, 'w) ref_state \<Rightarrow> ('a, 'w) ref_state \<Rightarrow> bool" where
  "run_ok st st' \<longleftrightarrow> rx_options st' = rx_options st \<and> rx_root st' = rx_root st \<and>
     (\<exists>new. rx_trace st' = new @ rx_trace st \<and> list_all (allowed (rx_options st)) new) \<and>
     (\<forall>K. docs_ok K st \<longrightarrow> docs_ok K st')"

lemma run_ok_refl: "run_ok st st"
  by (simp add: run_ok_def)

lemma run_ok_trans: "run_ok a b \<Longrightarrow> run_ok b c \<Longrightarrow> run_ok a c"
  by (fastforce simp: run_ok_def)

lemma run_ok_same:
  assumes "rx_options st' = rx_options st" "rx_root st' = rx_root st"
    "rx_trace st' = rx_trace st" "rx_cache st' = rx_cache st" "rx_freed st' = rx_freed st" "rx_docs st' = rx_docs st"
  shows "run_ok st st'"
  using assms by (simp add: run_ok_def docs_ok_def split: option.split)

lemma run_ok_report: "run_ok st (ref_report env k p m st)"
  by (rule run_ok_same) simp_all

lemma run_ok_world: "run_ok st (st\<lparr>rx_world := w\<rparr>)"
  by (rule run_ok_same) simp_all

lemma run_ok_access: "allowed (rx_options st) a \<Longrightarrow> run_ok st (st\<lparr>rx_world := w, rx_trace := a # rx_trace st\<rparr>)"
  by (auto simp: run_ok_def docs_ok_def split: option.split)

lemma keep_document_ok: "run_ok st (snd (keep_document env key r st))"
proof (cases "rx_cache st")
  case None
  then show ?thesis by (simp add: keep_document_def Let_def run_ok_def docs_ok_def)
next
  case (Some c)
  obtain dup w where m: "rv_malloc env (rx_world st) = (dup, w)" by (cases "rv_malloc env (rx_world st)")
  obtain rc c' g where s: "cache_store dup c key (rx_docs st) r = (rc, c', g)" by (cases "cache_store dup c key (rx_docs st) r")
  have p: "oas_ref_cache_put dup (Some c) (Some key) (Some (rx_docs st)) (Some r) = (rc, Some c', g)"
    using s by (auto simp: cache_store_def oas_ref_cache_put_def split: option.splits if_splits)
  have "docs_ok K (snd (keep_document env key r st))" if "docs_ok K st" for K
  proof -
    have c: "cache_ok c" and e: "mset (rx_freed st) + mset (cache_docs c) + K = mset [0..<rx_docs st]"
      using that Some by (simp_all add: docs_ok_def)
    show ?thesis
      using ref_store.store_ok [OF c, of dup key "rx_docs st" r] s e p
      by (cases rule: cache_store_cases [OF c, of key dup "rx_docs st" r])
        (auto simp: keep_document_def Let_def Some m docs_ok_def add.assoc)
  qed
  then show ?thesis by (auto simp: run_ok_def keep_document_def Let_def Some m p split: option.split)
qed

lemma accept_fetched_ok: "run_ok st (snd (accept_fetched env key ref data st))"
  by (simp add: accept_fetched_def keep_document_ok run_ok_report split: option.split)

lemma read_opened_ok: "run_ok st (snd (read_opened env path full m res st))"
proof -
  have w: "run_ok st (snd (keep_document env full r (st\<lparr>rx_world := w\<rparr>)))" for r w
    by (rule run_ok_trans [OF run_ok_world keep_document_ok])
  have e: "run_ok st (ref_report env k p t (st\<lparr>rx_world := w\<rparr>))" for k p t w
    by (rule run_ok_trans [OF run_ok_world run_ok_report])
  show ?thesis
    by (cases res) (simp_all add: read_opened_def Let_def run_ok_report run_ok_world run_ok_refl w e split: prod.split option.split)
qed

lemma load_file_ok:
  assumes "pred_option ro_allow_file (rx_options st)" and "rx_options st \<noteq> None"
  shows "run_ok st (snd (oas_ref_load_file env path d m st))"
proof -
  have e: "run_ok st (ref_report env k p t (st\<lparr>rx_world := w\<rparr>))" for k p t w
    by (rule run_ok_trans [OF run_ok_world run_ok_report])
  have o: "run_ok st (snd (read_opened env p full m' res (st\<lparr>rx_world := w, rx_trace := Opened full # rx_trace st\<rparr>)))"
    if "oas_uri_path_is_safe (Some full)" for p full m' res w
    using assms that by (intro run_ok_trans [OF run_ok_access read_opened_ok]) (simp add: oas_uri_path_is_safe_def safe_loop_split)
  show ?thesis
    by (auto simp: oas_ref_load_file_def Let_def run_ok_world run_ok_refl e o split: prod.split option.split sum.split)
qed

lemma fetch_remote_ok: "run_ok st (snd (fetch_remote env key ref uri st))"
proof -
  have f: "run_ok st (st\<lparr>rx_world := w, rx_trace := Fetched ref # rx_trace st\<rparr>)"
    "run_ok st (snd (accept_fetched env key ref data (st\<lparr>rx_world := w, rx_trace := Fetched ref # rx_trace st\<rparr>)))"
    "run_ok st (ref_report env k p t (st\<lparr>rx_world := w, rx_trace := Fetched ref # rx_trace st\<rparr>))"
    if "rx_options st = Some opts" "ro_allow_remote opts" for w data k p t opts
    using that by (auto intro: run_ok_access run_ok_trans [OF run_ok_access accept_fetched_ok]
        run_ok_trans [OF run_ok_access run_ok_report])
  show ?thesis
    by (auto simp: fetch_remote_def Let_def run_ok_report f split: option.split prod.split sum.split)
qed

lemma resolve_external_ok: "run_ok st (snd (resolve_external env ref uri st))"
proof -
  have l: "run_ok st (snd (oas_ref_load_file env path d m st))"
    if "\<not> (rx_options st \<noteq> None \<and> \<not> ro_allow_file (the (rx_options st)))" "rx_options st \<noteq> None" for path d m
    using that by (intro load_file_ok) auto
  have r: "run_ok st (snd (resolve_external_ref env ref uri st))" if "rx_options st \<noteq> None"
    using that by (auto simp: resolve_external_ref_def Let_def run_ok_refl fetch_remote_ok run_ok_report
        intro: l split: option.split)
  have p: "run_ok st' (snd (follow_pointer env d f st'))" for st' :: "('a, 'b) ref_state" and d f
    using follow_pointer_keeps [of env d f st' "fst (follow_pointer env d f st')" "snd (follow_pointer env d f st')"]
    by (auto intro!: run_ok_same)
  obtain res st1 where e: "resolve_external_ref env ref uri st = (res, st1)" by (cases "resolve_external_ref env ref uri st")
  have "rx_options st \<noteq> None \<Longrightarrow> run_ok st (snd (follow_pointer env d f st1))" for d f
    using run_ok_trans [OF r p] e by simp
  then show ?thesis using r
    by (auto simp: resolve_external_def e run_ok_report simp del: not_None_eq split: sum.split option.split prod.split)
      (metis snd_conv)+
qed


text \<open>
  A relation that ignores what happens to the arena, the schemas, the visited and the error list, and
  holds for an external reference, holds for every resolution.
\<close>

definition same_run :: "('a, 'w) ref_state \<Rightarrow> ('a, 'w) ref_state \<Rightarrow> bool" where
  "same_run st st' \<longleftrightarrow> rx_options st' = rx_options st \<and> rx_root st' = rx_root st \<and> rx_trace st' = rx_trace st \<and>
     rx_cache st' = rx_cache st \<and> rx_freed st' = rx_freed st \<and> rx_docs st' = rx_docs st \<and>
     rx_world st' = rx_world st"

lemma same_run_steps:
  "same_run st (st\<lparr>rx_arena := a\<rparr>)" "same_run st (ref_report env k p m st)" "same_run st (visited_pop st)"
  "same_run st (snd (visited_push alloc r st))" "same_run st (st\<lparr>rx_errors := es\<rparr>)" "same_run st st"
  by (simp_all add: same_run_def ref_report_def visited_pop_def visited_push_def Let_def split: prod.split option.split)

lemma resolve_related:
  fixes R :: "('a, 'w) ref_state \<Rightarrow> ('a, 'w) ref_state \<Rightarrow> bool"
  assumes same: "\<And>st st'. same_run st st' \<Longrightarrow> R st st'"
    and trans: "\<And>a b c. R a b \<Longrightarrow> R b c \<Longrightarrow> R a c"
    and ext: "\<And>ref uri st. R st (snd (resolve_external env ref uri st))"
  shows "oas_ref_resolve fuel env ref st = Some (res, st') \<Longrightarrow> R st st'"
proof (induction fuel arbitrary: ref st res st')
  case (Suc fuel)
  note steps = same [OF same_run_steps(1)] same [OF same_run_steps(2)] same [OF same_run_steps(3)] same [OF same_run_steps(6)]
  have push: "R st0 st1" if "visited_push alloc r st0 = (x, st1)" for alloc r x st0 st1
    using same [OF same_run_steps(4), of st0 alloc r] that by simp
  have loc: "R st0 st1" if r: "resolve_local env (oas_ref_resolve fuel env) ref st0 = Some (x, st1)" for st0 st1 x
  proof -
    obtain v s1 where f: "follow_pointer env (rx_root st0) ref st0 = (v, s1)"
      by (cases "follow_pointer env (rx_root st0) ref st0")
    have s1: "R st0 s1" using follow_pointer_keeps [OF f] same [OF same_run_steps(5), of st0] by auto
    have "R s1 st1"
      using r by (auto simp: resolve_local_def f steps push split: option.splits prod.splits if_splits
          intro: trans [OF push trans [OF Suc.IH steps(3)]])
    then show ?thesis by (rule trans [OF s1])
  qed
  obtain rc uri a where u: "oas_uri_parse (rv_alloc env) (Some ref) (Some (rx_arena st)) (Some uri_zero) = (rc, uri, a)"
    by (metis prod_cases3)
  have ext': "R (st\<lparr>rx_arena := the a\<rparr>) st'"
    if "resolve_external env ref (the uri) (st\<lparr>rx_arena := the a\<rparr>) = (res, st')"
    using ext [of "st\<lparr>rx_arena := the a\<rparr>" ref "the uri"] that by simp
  show ?case using Suc.prems
    by (auto simp: u Let_def steps split: if_splits option.splits
        intro: trans [OF steps(1) steps(2)] trans [OF steps(1) loc] trans [OF steps(1) ext'])
qed simp

lemma resolve_each_related:
  assumes "\<And>st. R st st" and "\<And>a b c. R a b \<Longrightarrow> R b c \<Longrightarrow> R a c"
    and "\<And>x st rc st'. x \<in> set xs \<Longrightarrow> f x st = Some (rc, st') \<Longrightarrow> R st st'"
  shows "resolve_each f xs st = Some (rc, st') \<Longrightarrow> R st st'"
  using assms(3)
proof (induction xs arbitrary: st)
  case (Cons x xs)
  obtain rc1 st1 where f: "f x st = Some (rc1, st1)" using Cons.prems(1) by (auto simp: bind_eq_Some_conv)
  then have "R st1 st'" using Cons.prems(1) Cons.IH [of st1] Cons.prems(2) assms(1)
    by (auto split: option.splits)
  then show ?case using assms(2) Cons.prems(2) f by (metis list.set_intros(1))
qed (simp add: assms(1))

lemma walk_related:
  fixes R :: "('a, 'w) ref_state \<Rightarrow> ('a, 'w) ref_state \<Rightarrow> bool"
  assumes same: "\<And>st st'. same_run st st' \<Longrightarrow> R st st'"
    and trans: "\<And>a b c. R a b \<Longrightarrow> R b c \<Longrightarrow> R a c"
    and ext: "\<And>ref uri st. R st (snd (resolve_external env ref uri st))"
  shows "resolve_schema_refs fuel depth env doc x st = Some (rc, st') \<Longrightarrow> R st st'"
proof (induction fuel arbitrary: x st rc st')
  case (Suc fuel)
  have link: "R st0 st1" if "link_ref p q st0 = Some st1" for p q st0 st1
    using that by (auto simp: link_ref_def same_run_def bind_eq_Some_conv intro!: same)
  have self: "R st0 st0" for st0 by (rule same) (simp add: same_run_def)
  have vals: "R st0 st1" if v: "resolve_by_value depth env p ref st0 = Some (rc, st1)" for p ref st0 rc st1
  proof -
    obtain res s1 where s1: "oas_ref_resolve depth env ref st0 = Some (res, s1)"
      using v by (auto simp: resolve_by_value_def bind_eq_Some_conv)
    have parsed: "R s1 (s1\<lparr>rx_arena := a, rx_schemas := h\<rparr>)" for a h by (rule same) (simp add: same_run_def)
    have "R s1 st1"
      using v s1 by (auto simp: resolve_by_value_def bind_eq_Some_conv Let_def self parsed
          simp del: oas_schema_parse.simps split: sum.splits if_splits option.splits intro: trans [OF parsed link])
    with resolve_related [where R = R and env = env, OF same trans ext s1] show ?thesis by (rule trans)
  qed
  have each: "R st0 st1" if "resolve_each (resolve_schema_refs fuel depth env doc) xs st0 = Some (rc, st1)" for xs st0 rc st1
    by (rule resolve_each_related [where R = R, OF self trans _ that]) (auto intro: Suc.IH)
  show ?case using Suc.prems
    by (auto simp: bind_eq_Some_conv self link vals each split: option.splits intro: trans [OF vals each])
qed simp

lemma resolve_all_related:
  fixes R :: "('a, 'w) ref_state \<Rightarrow> ('a, 'w) ref_state \<Rightarrow> bool"
  assumes same: "\<And>st st'. same_run st st' \<Longrightarrow> R st st'"
    and trans: "\<And>a b c. R a b \<Longrightarrow> R b c \<Longrightarrow> R a c"
    and ext: "\<And>ref uri st. R st (snd (resolve_external env ref uri st))"
    and "oas_ref_resolve_all fuel depth env (Some doc) (Some st) = Some (rc, st')"
  shows "R st (the st')"
proof -
  obtain st1 where "resolve_each (resolve_schema_refs fuel depth env doc) (doc_schemas doc) st = Some (rc, st1)" "st' = Some st1"
    using assms(4) by (auto simp: oas_ref_resolve_all_def)
  moreover have "R st st1" if "resolve_each (resolve_schema_refs fuel depth env doc) (doc_schemas doc) st = Some (rc, st1)" for st1
    by (rule resolve_each_related [where R = R, OF same [OF same_run_steps(6)] trans _ that])
      (auto intro: walk_related [where R = R and env = env, OF same trans ext])
  ultimately show ?thesis by simp
qed

lemma resolve_run_ok: "oas_ref_resolve fuel env ref st = Some (res, st') \<Longrightarrow> run_ok st st'"
proof (rule resolve_related)
  show "run_ok st st'" if "same_run st st'" for st st' :: "('a, 'b) ref_state"
    using that by (intro run_ok_same) (simp_all add: same_run_def)
qed (auto intro: run_ok_trans resolve_external_ok)

text \<open>Without a cache nothing is read.\<close>

lemma idle_resolve_all:
  assumes "oas_ref_resolve_all fuel depth env (Some doc) (Some st) = Some (rc, st')" and "rx_cache st = None"
  shows "rx_cache (the st') = None \<and> rx_docs (the st') = rx_docs st \<and> rx_freed (the st') = rx_freed st"
proof -
  have "rx_cache st = None \<longrightarrow> rx_cache (the st') = None \<and> rx_docs (the st') = rx_docs st \<and> rx_freed (the st') = rx_freed st"
    by (rule resolve_all_related [OF _ _ _ assms(1)]) (auto simp: same_run_def resolve_external_def)
  then show ?thesis using assms(2) by simp
qed

lemma resolve_all_run_ok:
  assumes "oas_ref_resolve_all fuel depth env (Some doc) (Some st) = Some (rc, st')"
  shows "run_ok st (the st')"
proof (rule resolve_all_related [OF _ _ _ assms])
  show "run_ok st st'" if "same_run st st'" for st st' :: "('a, 'b) ref_state"
    using that by (intro run_ok_same) (simp_all add: same_run_def)
qed (auto intro: run_ok_trans resolve_external_ok)

section \<open>Chains of local references\<close>

definition is_local :: "string \<Rightarrow> bool" where
  "is_local ref \<longleftrightarrow> ref \<noteq> [] \<and> hd ref = CHR ''#''"

text \<open>The value a local reference names, and the reference a value is.\<close>

definition named_value :: "('a, 'w) ref_env \<Rightarrow> json \<Rightarrow> string \<Rightarrow> json option" where
  "named_value env doc_root ref = oas_jsonptr_resolve (rv_walk env) (Some doc_root) (oas_jsonptr_from_ref (Some ref))"

definition reference_of :: "('a, 'w) ref_env \<Rightarrow> json \<Rightarrow> string option" where
  "reference_of env v = (if is_jobj v then Option.bind (yy_obj_get (rv_yy env) v ''$ref'') json_str else None)"

text \<open>Following at most \<open>n\<close> references, with no memory of those already followed.\<close>

primrec chase :: "nat \<Rightarrow> ('a, 'w) ref_env \<Rightarrow> json \<Rightarrow> string \<Rightarrow> errno + json" where
  "chase 0 env doc_root ref = Inl ELOOP"
| "chase (Suc n) env doc_root ref =
     (case named_value env doc_root ref of
        None \<Rightarrow> Inl ENOENT
      | Some v \<Rightarrow> (case reference_of env v of None \<Rightarrow> Inr v | Some next \<Rightarrow> chase n env doc_root next))"

definition leads :: "('a, 'w) ref_env \<Rightarrow> json \<Rightarrow> string \<Rightarrow> string \<Rightarrow> bool" where
  "leads env doc_root r s \<longleftrightarrow> (\<exists>v. named_value env doc_root r = Some v \<and> reference_of env v = Some s)"

text \<open>Inside a set closed under following, no number of steps finds a value.\<close>

lemma chase_closed:
  assumes "\<And>r. r \<in> S \<Longrightarrow> \<exists>s \<in> S. leads env d r s"
  shows "r \<in> S \<Longrightarrow> chase n env d r = Inl ELOOP"
proof (induction n arbitrary: r)
  case (Suc n)
  then obtain s where "s \<in> S" "leads env d r s" using assms by blast
  then show ?case using Suc.IH by (auto simp: leads_def)
qed simp

text \<open>The visited list is the path that led here.\<close>

definition path_to :: "('a, 'w) ref_env \<Rightarrow> json \<Rightarrow> string list \<Rightarrow> string \<Rightarrow> bool" where
  "path_to env d rs r \<longleftrightarrow> successively (leads env d) (rs @ [r])"

lemma path_loop:
  assumes "path_to env d rs r" and "r \<in> set rs"
  shows "chase n env d r = Inl ELOOP"
proof -
  obtain as bs where rs: "rs = as @ r # bs" using assms(2) by (meson split_list)
  have s: "successively (leads env d) (r # bs @ [r])"
    using assms(1) by (auto simp: path_to_def rs successively_append_iff)
  show ?thesis
  proof (rule chase_closed [where S = "set (r # bs)"])
    fix q assume q: "q \<in> set (r # bs)"
    then obtain cs ds where c: "r # bs = cs @ q # ds" by (meson split_list)
    then have "successively (leads env d) (q # ds @ [r])"
      using s by (metis append.assoc append_Cons successively_append_iff)
    moreover have "set ds \<subseteq> set (r # bs)" using c by (metis Un_subset_iff set_append set_subset_Cons subset_trans sup.cobounded2)
    ultimately show "\<exists>s \<in> set (r # bs). leads env d q s" by (cases ds) auto
  qed simp
qed

lemma path_to_next: "path_to env d rs r \<Longrightarrow> leads env d r s \<Longrightarrow> path_to env d (rs @ [r]) s"
  by (simp add: path_to_def successively_append_iff)

lemma path_to_Nil [simp]: "path_to env d [] r"
  by (simp add: path_to_def)


definition visited_ok :: "('a, 'w) ref_state \<Rightarrow> bool" where
  "visited_ok st \<longleftrightarrow> 0 < vi_capacity (rx_visited st) \<and> vi_capacity (rx_visited st) \<le> 128"

text \<open>Documents whose local references lead to local references only.\<close>

definition local_refs :: "('a, 'w) ref_env \<Rightarrow> json \<Rightarrow> bool" where
  "local_refs env d \<longleftrightarrow> (\<forall>r s. is_local r \<and> leads env d r s \<longrightarrow> is_local s \<and> length s < 2 ^ 60)"

lemma parse_local:
  assumes "alloc_total alloc" and "is_local ref" and "length ref < 2 ^ 60"
  obtains u a' where "oas_uri_parse alloc (Some ref) (Some a) (Some uri_zero) = (None, Some u, Some a')" "ur_is_fragment_only u"
proof -
  obtain f where r: "ref = CHR ''#'' # f" using assms(2) by (cases ref) (auto simp: is_local_def)
  then obtain a' where "arena_strndup alloc a f = (Some f, a')" using strndup_granted [OF assms(1), of f a] assms(3) by auto
  then show thesis using that by (simp add: oas_uri_parse_def r keep_text_def Let_def)
qed

lemma visited_push_granted:
  assumes "alloc_total alloc" and "visited_ok st" and "length (vi_refs (rx_visited st)) < 64"
  obtains st' where "visited_push alloc ref st = (None, st')" "visited_ok st'" "rx_root st' = rx_root st"
    "vi_refs (rx_visited st') = vi_refs (rx_visited st) @ [ref]"
proof (cases "vi_capacity (rx_visited st) \<le> length (vi_refs (rx_visited st))")
  case True
  then obtain p a' where "alloc (rx_arena st) (of_nat (8 * (vi_capacity (rx_visited st) * 2))) 8 = (Some p, a')"
    using granted [OF assms(1), of "8 * (vi_capacity (rx_visited st) * 2)" 8 "rx_arena st"] assms(2,3)
    by (auto simp: visited_ok_def)
  then show thesis using that True assms(2,3) by (simp add: visited_push_def Let_def visited_ok_def)
next
  case False
  then show thesis using that assms(2) by (simp add: visited_push_def Let_def visited_ok_def)
qed

lemma follow_pointer_value:
  obtains es where "follow_pointer env d ref st = (named_value env d ref, st\<lparr>rx_errors := es\<rparr>)"
proof -
  have "fst (follow_pointer env d ref st) = named_value env d ref"
    by (auto simp: follow_pointer_def oas_jsonptr_resolve_ex_def named_value_def oas_jsonptr_resolve_def
        split: option.split sum.split)
  then show thesis using that follow_pointer_keeps [of env d ref st]
    by (metis prod.collapse)
qed

lemma chain_is_chase:
  assumes "alloc_total (rv_alloc env)" and "local_refs env d"
  shows "is_local ref \<Longrightarrow> length ref < 2 ^ 60 \<Longrightarrow> rx_root st = d \<Longrightarrow> visited_ok st \<Longrightarrow>
    path_to env d (vi_refs (rx_visited st)) ref \<Longrightarrow> 64 \<le> fuel + length (vi_refs (rx_visited st)) \<Longrightarrow>
    \<exists>st'. oas_ref_resolve (Suc fuel) env ref st =
        Some (chase (64 - length (vi_refs (rx_visited st))) env d ref, st') \<and>
      vi_refs (rx_visited st') = vi_refs (rx_visited st)"
proof (induction fuel arbitrary: ref st)
  case (0 ref st)
  then show ?case by (simp add: OAS_MAX_REF_DEPTH_def)
next
  case (Suc fuel ref st)
  let ?rs = "vi_refs (rx_visited st)"
  show ?case
  proof (cases "ref \<in> set ?rs")
    case True
    then have "visited_contains (rx_visited st) ref" by (auto simp: visited_contains_def list_ex_iff)
    then show ?thesis using path_loop [OF Suc.prems(5) True] by simp
  next
    case False
    then have nv: "\<not> visited_contains (rx_visited st) ref" by (auto simp: visited_contains_def list_ex_iff)
    show ?thesis
    proof (cases "64 \<le> length ?rs")
      case True
      then show ?thesis using nv by (simp add: OAS_MAX_REF_DEPTH_def)
    next
      case False
      then have d64: "\<not> OAS_MAX_REF_DEPTH \<le> length ?rs" by (simp add: OAS_MAX_REF_DEPTH_def)
      have n: "64 - length ?rs = Suc (64 - Suc (length ?rs))" using False by simp
      obtain u a' where u: "oas_uri_parse (rv_alloc env) (Some ref) (Some (rx_arena st)) (Some uri_zero) = (None, Some u, Some a')"
          "ur_is_fragment_only u"
        by (rule parse_local [OF assms(1) Suc.prems(1,2)])
      let ?st = "st\<lparr>rx_arena := a'\<rparr>"
      obtain es where f: "follow_pointer env d ref ?st = (named_value env d ref, ?st\<lparr>rx_errors := es\<rparr>)"
        by (rule follow_pointer_value)
      have R: "oas_ref_resolve (Suc (Suc fuel)) env ref st = resolve_local env (oas_ref_resolve (Suc fuel) env) ref ?st"
        by (subst oas_ref_resolve.simps) (simp add: nv d64 u Let_def del: oas_ref_resolve.simps)
      show ?thesis
      proof (cases "named_value env d ref")
        case None
        then show ?thesis unfolding R n using f Suc.prems(3) by (simp add: resolve_local_def del: oas_ref_resolve.simps)
      next
        case (Some v)
        show ?thesis
        proof (cases "reference_of env v")
          case None
          then show ?thesis unfolding R n using f Some Suc.prems(3)
            by (simp add: resolve_local_def reference_of_def del: oas_ref_resolve.simps)
        next
          case (Some nx)
          have l: "leads env d ref nx" using Some \<open>named_value env d ref = Some v\<close> by (simp add: leads_def)
          then have nl: "is_local nx" "length nx < 2 ^ 60" using assms(2) Suc.prems(1) by (auto simp: local_refs_def)
          let ?s1 = "?st\<lparr>rx_errors := es\<rparr>"
          obtain s2 where s2: "visited_push (rv_alloc env) ref ?s1 = (None, s2)" "visited_ok s2" "rx_root s2 = rx_root ?s1"
              "vi_refs (rx_visited s2) = vi_refs (rx_visited ?s1) @ [ref]"
            by (rule visited_push_granted [OF assms(1), of ?s1 ref]) (use Suc.prems(4) False in \<open>simp_all add: visited_ok_def\<close>)
          have "\<exists>s3. oas_ref_resolve (Suc fuel) env nx s2 =
              Some (chase (64 - length (vi_refs (rx_visited s2))) env d nx, s3) \<and>
              vi_refs (rx_visited s3) = vi_refs (rx_visited s2)"
            by (rule Suc.IH) (use nl s2 Suc.prems path_to_next [OF Suc.prems(5) l] in auto)
          then obtain s3 where s3: "oas_ref_resolve (Suc fuel) env nx s2 =
              Some (chase (64 - Suc (length ?rs)) env d nx, s3)" "vi_refs (rx_visited s3) = ?rs @ [ref]"
            using s2(4) by auto
          have c: "(if is_jobj v then Option.bind (yy_obj_get (rv_yy env) v ''$ref'') json_str else None) = Some nx"
            using Some by (simp only: reference_of_def)
          show ?thesis unfolding R n chase.simps using f \<open>named_value env d ref = Some v\<close> Suc.prems(3) Some s2(1) s3
            by (simp add: resolve_local_def c visited_pop_def del: oas_ref_resolve.simps)
        qed
      qed
    qed
  qed
qed


section \<open>Properties\<close>

text \<open>An instance: a walk one level down, no files and no network.\<close>

definition sample_env :: "(unit, unit) ref_env" where
  "sample_env = \<lparr>rv_alloc = (\<lambda>a n k. (Some 8, a)), rv_yy = sample_yyjson,
     rv_walk = (\<lambda>r p. case (r, p) of (JObj kvs, c # k) \<Rightarrow> (case map_of kvs k of Some v \<Rightarrow> Inr v | None \<Rightarrow> Inl None) | _ \<Rightarrow> Inl None),
     rv_http = (\<lambda>w u t m k. (Inl EIO, w)), rv_cwd = (\<lambda>w. (Inr ''/srv'', w)), rv_file = (\<lambda>w p. (Open_failed (Some ENOENT), w)),
     rv_malloc = (\<lambda>w. (True, w)), rv_yaml = False\<rparr>"

definition sample_root :: json where
  "sample_root = JObj [(''a'', JObj [(''$ref'', JStr ''#/b'')]), (''b'', JObj [(''$ref'', JStr ''#/a'')]),
     (''c'', JObj [(''$ref'', JStr ''#/d'')]), (''d'', JBool True)]"

definition sample_options :: "unit oas_ref_options" where
  "sample_options = \<lparr>ro_allow_remote = False, ro_allow_file = True, ro_fetch = None, ro_base_dir = Some ''/srv/api'',
     ro_max_documents = 2, ro_fetch_timeout_ms = 0, ro_max_fetch_size = 0, ro_max_redirects = 0\<rparr>"

definition sample_state :: "(unit, unit) ref_state" where
  "sample_state = \<lparr>rx_arena = (), rx_root = sample_root, rx_visited = \<lparr>vi_refs = [], vi_capacity = 16\<rparr>,
     rx_cache = Some empty_cache, rx_options = Some sample_options, rx_errors = None, rx_schemas = Map.empty,
     rx_world = (), rx_docs = 0, rx_freed = [], rx_trace = []\<rparr>"

text \<open>
  \<open>oas_ref_resolve\<close> comes back from every reference in every document, cyclic ones included,
  with recursion at most 65 deep: the depth limit cuts every chain the visited list does not.
\<close>

theorem ref_resolve_returns:
  "oas_ref_resolve (Suc OAS_MAX_REF_DEPTH) env ref st \<noteq> None"
  by (rule resolve_fuel) simp

text \<open>
  C33. With memory granted, resolving a local reference in a document of local references is
  following references for at most 64 steps and nothing more: the value at the end of the
  chain, \<open>ENOENT\<close> where a link dangles, and \<open>ELOOP\<close> where 64 steps find no end. The visited list
  only makes cycles fail sooner, and it is left as it was.
\<close>

theorem ref_chain_equivalence:
  assumes "alloc_total (rv_alloc env)" and "local_refs env (rx_root st)" and "is_local ref" and "length ref < 2 ^ 60"
    and "rx_visited st = \<lparr>vi_refs = [], vi_capacity = 16\<rparr>"
  shows "\<exists>st'. oas_ref_resolve (Suc OAS_MAX_REF_DEPTH) env ref st = Some (chase 64 env (rx_root st) ref, st') \<and>
    vi_refs (rx_visited st') = []"
  using chain_is_chase [OF assms(1,2,3,4) refl, of OAS_MAX_REF_DEPTH] assms(5)
  by (simp add: visited_ok_def OAS_MAX_REF_DEPTH_def del: oas_ref_resolve.simps chase.simps)

lemma sample_leads:
  assumes "is_local r" and "leads sample_env sample_root r s"
  shows "s \<in> {''#/a'', ''#/b'', ''#/d''}"
proof -
  obtain p where r: "r = CHR ''#'' # p" using assms(1) by (cases r) (auto simp: is_local_def)
  show ?thesis
  proof (cases p)
    case Nil
    then show ?thesis using assms(2)
      by (simp add: r leads_def named_value_def oas_jsonptr_resolve_def oas_jsonptr_from_ref_def reference_of_def
          sample_root_def sample_env_def sample_yyjson_def)
  next
    case (Cons c k)
    then show ?thesis using assms(2)
      by (simp add: r leads_def named_value_def oas_jsonptr_resolve_def oas_jsonptr_from_ref_def reference_of_def
          sample_root_def sample_env_def sample_yyjson_def split: if_splits)
  qed
qed

lemma sample_local: "local_refs sample_env (rx_root sample_state)"
  using sample_leads by (auto simp: local_refs_def sample_state_def is_local_def dest!: sample_leads [rotated])

theorem ref_chain_equivalence_witness:
  "\<exists>st'. oas_ref_resolve (Suc OAS_MAX_REF_DEPTH) sample_env ''#/a'' sample_state = Some (Inl ELOOP, st')"
proof -
  have t: "alloc_total (rv_alloc sample_env)" by (simp add: alloc_total_def sample_env_def)
  have "leads sample_env sample_root ''#/a'' ''#/b''" "leads sample_env sample_root ''#/b'' ''#/a''"
    by (simp_all add: leads_def named_value_def oas_jsonptr_resolve_def oas_jsonptr_from_ref_def reference_of_def
        sample_root_def sample_env_def sample_yyjson_def)
  then have "chase 64 sample_env sample_root ''#/a'' = Inl ELOOP"
    by (intro chase_closed [where S = "{''#/a'', ''#/b''}"]) auto
  then show ?thesis using ref_chain_equivalence [OF t sample_local, of "''#/a''"]
    by (auto simp: is_local_def sample_state_def simp del: oas_ref_resolve.simps chase.simps)
qed

text \<open>
  No run of the resolver touches what its options forbid: a file is opened only where files
  are allowed and never at a path with a parent segment, and the network or the client's
  callback is asked only where remote references are allowed.
\<close>

theorem ref_accesses_allowed:
  assumes "oas_ref_resolve fuel env ref st = Some (res, st')"
  shows "\<exists>new. rx_trace st' = new @ rx_trace st \<and>
    (\<forall>p. Opened p \<in> set new \<longrightarrow>
      (\<exists>opts. rx_options st = Some opts \<and> ro_allow_file opts) \<and> ''..'' \<notin> set (split_on CHR ''/'' p)) \<and>
    (\<forall>u. Fetched u \<in> set new \<longrightarrow> (\<exists>opts. rx_options st = Some opts \<and> ro_allow_remote opts))"
proof -
  obtain new where "rx_trace st' = new @ rx_trace st" "list_all (allowed (rx_options st)) new"
    using resolve_run_ok [OF assms] by (auto simp: run_ok_def)
  then show ?thesis by (intro exI [of _ new]) (fastforce simp: list_all_iff option.pred_set)
qed

theorem ref_accesses_allowed_witness:
  "\<exists>res st'. oas_ref_resolve 65 sample_env ''x.json'' sample_state = Some (res, st') \<and> rx_trace st' = [Opened ''/srv/api/x.json''] \<and>
    (\<forall>p. Opened p \<in> set (rx_trace st') \<longrightarrow> ''..'' \<notin> set (split_on CHR ''/'' p))"
proof -
  have f: "oas_ref_resolve (Suc 64) sample_env ''x.json'' sample_state \<noteq> None" by (rule resolve_fuel) (simp add: OAS_MAX_REF_DEPTH_def)
  then obtain res st' where r1: "oas_ref_resolve (Suc 64) sample_env ''x.json'' sample_state = Some (res, st')"
    by (metis not_None_eq surj_pair)
  then have r: "oas_ref_resolve 65 sample_env ''x.json'' sample_state = Some (res, st')" by simp
  have g: "oas_ref_cache_get (Some empty_cache) (Some k) = None" for k
    by (simp add: cache_get_map [OF empty_cache(2)] empty_cache(3))
  have "rx_trace st' = [Opened ''/srv/api/x.json'']"
    using r1 unfolding oas_ref_resolve.simps
    by (clarsimp simp: sample_state_def visited_contains_def OAS_MAX_REF_DEPTH_def oas_uri_parse_def Let_def uri_scheme_def
        uri_authority_def uri_path_def path_char_def uri_query_def uri_fragment_def keep_text_def arena_strndup_def sample_env_def
        uri_zero_def resolve_external_def resolve_external_ref_def is_http_def is_https_def sample_options_def g
        oas_ref_load_file_def build_full_path_def join_path_def oas_uri_path_is_safe_def is_yaml_extension_def read_opened_def
        ref_report_def)
  then show ?thesis using ref_accesses_allowed [OF r] r by (auto simp: sample_state_def)
qed

text \<open>
  Documents are not lost: as long as every document read so far is either held by the cache
  or freed, each exactly once, the same is true after any resolution, whether it succeeds or
  fails and whether or not the cache takes the new document.
\<close>

theorem ref_documents_accounted:
  assumes "oas_ref_resolve fuel env ref st = Some (res, st')"
    and "rx_cache st = Some c" and "cache_ok c" and "mset (rx_freed st) + mset (cache_docs c) = mset [0..<rx_docs st]"
  shows "\<exists>c'. rx_cache st' = Some c' \<and> cache_ok c' \<and>
    mset (rx_freed st') + mset (oas_ref_cache_destroy (Some c')) = mset [0..<rx_docs st']"
proof -
  have "docs_ok {#} st'" using resolve_run_ok [OF assms(1)] assms(2-4) by (simp add: run_ok_def docs_ok_def)
  then show ?thesis by (auto simp: docs_ok_def destroy_docs split: option.splits)
qed

theorem ref_documents_accounted_witness:
  "\<exists>res st' c'. oas_ref_resolve 65 sample_env ''x.json'' sample_state = Some (res, st') \<and> rx_cache st' = Some c' \<and>
    mset (rx_freed st') + mset (oas_ref_cache_destroy (Some c')) = mset [0..<rx_docs st']"
proof -
  have f: "oas_ref_resolve (Suc 64) sample_env ''x.json'' sample_state \<noteq> None" by (rule resolve_fuel) (simp add: OAS_MAX_REF_DEPTH_def)
  then obtain res st' where r: "oas_ref_resolve 65 sample_env ''x.json'' sample_state = Some (res, st')" by auto
  have "cache_docs empty_cache = []" using empty_cache(2,5) by (simp add: cache_ok_def cache_docs_def)
  then show ?thesis using ref_documents_accounted [OF r, of empty_cache] empty_cache(2) r by (auto simp: sample_state_def)
qed

end
