(* ===== verification/Liboas_Schema_Tree.thy ===== *)
theory Liboas_Schema_Tree
  imports Liboas_Schema_Parser Liboas_Compile_Steps
begin

text \<open>
  What the schema parser builds: a finite tree of fresh nodes. It comes back from every JSON
  value whose name lists hold strings, it leaves the nodes that were there alone, and the
  compiler comes back from what it returns.
\<close>

section \<open>JSON values\<close>

definition names_at :: "string \<Rightarrow> (string \<times> json) list \<Rightarrow> bool" where
  "names_at k kvs \<longleftrightarrow> (case map_of kvs k of Some (JArr vs) \<Rightarrow> list_all is_jstr vs | _ \<Rightarrow> True)"

definition dependents_at :: "string \<Rightarrow> (string \<times> json) list \<Rightarrow> bool" where
  "dependents_at k kvs \<longleftrightarrow>
     (case map_of kvs k of
        Some (JObj ds) \<Rightarrow> list_all (\<lambda>(n, d). case d of JArr vs \<Rightarrow> list_all is_jstr vs | _ \<Rightarrow> True) ds
      | _ \<Rightarrow> True)"

text \<open>
  Lists of names hold strings only, and no array or object is so long that its size in bytes
  wraps.
\<close>

fun well_named :: "json \<Rightarrow> bool" where
  "well_named (JArr vs) \<longleftrightarrow> length vs < 2 ^ 56 \<and> (\<forall>v \<in> set vs. well_named v)"
| "well_named (JObj kvs) \<longleftrightarrow> length kvs < 2 ^ 56 \<and> names_at ''required'' kvs \<and>
     dependents_at ''dependentRequired'' kvs \<and> (\<forall>kv \<in> set kvs. well_named (snd kv))"
| "well_named v \<longleftrightarrow> True"

text \<open>What a schema's keyword can hold, one level down.\<close>

definition below :: "nat \<Rightarrow> json \<Rightarrow> bool" where
  "below n v \<longleftrightarrow> size v < n \<and> well_named v"

lemma below_arr: "below n (JArr vs) \<Longrightarrow> length vs < 2 ^ 56 \<and> (\<forall>v \<in> set vs. below n v)"
  using size_list_estimation' [of _ vs _ size] by (fastforce simp: below_def)

lemma below_obj: "below n (JObj kvs) \<Longrightarrow> length kvs < 2 ^ 56 \<and> (\<forall>v \<in> set (map snd kvs). below n v)"
  using size_list_estimation' [of _ kvs _ "size_prod (\<lambda>x. 0) size"] by (fastforce simp: below_def)

lemma below_key:
  assumes "yy_obj_get_ok yy" and "below (Suc n) v" and "yy_obj_get yy v k = Some x"
  shows "below n x"
proof -
  obtain kvs where v: "v = JObj kvs" "map_of kvs k = Some x"
    using assms(1,3) by (auto simp: yy_obj_get_ok_def split: json.splits)
  then have m: "(k, x) \<in> set kvs" by (simp add: map_of_SomeD)
  then have "size x \<le> size_list (size_prod (\<lambda>x. 0) size) kvs"
    by (intro size_list_estimation' [of "(k, x)"]) simp_all
  then show ?thesis using assms(2) m unfolding v(1) by (fastforce simp: below_def)
qed

section \<open>Trees\<close>

definition children :: "oas_schema \<Rightarrow> sref option set" where
  "children s = followed s \<union> {s_unevaluated_properties s, s_unevaluated_items s}"

text \<open>The node is the root of a tree of nodes of \<open>A\<close>, at most \<open>n\<close> deep.\<close>

primrec tree :: "nat \<Rightarrow> schema_heap \<Rightarrow> sref set \<Rightarrow> sref option \<Rightarrow> bool" where
  "tree 0 h A x \<longleftrightarrow> x = None"
| "tree (Suc n) h A x \<longleftrightarrow>
     (\<forall>p. x = Some p \<longrightarrow> p \<in> A \<and> (\<exists>s. h p = Some s \<and> s_ref_resolved s = None \<and> (\<forall>y \<in> children s. tree n h A y)))"

lemma tree_None [simp]: "tree n h A None"
  by (cases n) simp_all

lemma tree_mono:
  assumes "A \<subseteq> A'" and "\<And>p. p \<in> A \<Longrightarrow> h' p = h p"
  shows "tree n h A x \<Longrightarrow> tree n h' A' x"
proof (induction n arbitrary: x)
  case (Suc n)
  show ?case
  proof (cases x)
    case (Some p)
    then obtain s where "p \<in> A" "h p = Some s" "s_ref_resolved s = None" "\<forall>y \<in> children s. tree n h A y"
      using Suc.prems by auto
    then show ?thesis using Suc.IH assms Some by auto
  qed simp
qed simp

lemma tree_Suc: "tree n h A x \<Longrightarrow> tree (Suc n) h A x"
proof (induction n arbitrary: x)
  case (Suc n)
  then show ?case unfolding tree.simps(2) [of "Suc n"] by (metis tree.simps(2))
qed simp

section \<open>Writes that leave the children alone\<close>

lemmas child_fields = children_def followed_def subschemas_def

lemma children_fields [simp]:
  "children (s\<lparr>s_type_mask := v1\<rparr>) = children s"
  "children (s\<lparr>s_title := v2\<rparr>) = children s"
  "children (s\<lparr>s_description := v3\<rparr>) = children s"
  "children (s\<lparr>s_format := v4\<rparr>) = children s"
  "children (s\<lparr>s_min_length := v5\<rparr>) = children s"
  "children (s\<lparr>s_max_length := v6\<rparr>) = children s"
  "children (s\<lparr>s_pattern := v7\<rparr>) = children s"
  "children (s\<lparr>s_minimum := v8\<rparr>) = children s"
  "children (s\<lparr>s_maximum := v9\<rparr>) = children s"
  "children (s\<lparr>s_exclusive_minimum := v10\<rparr>) = children s"
  "children (s\<lparr>s_exclusive_maximum := v11\<rparr>) = children s"
  "children (s\<lparr>s_multiple_of := v12\<rparr>) = children s"
  "children (s\<lparr>s_has_minimum := v13\<rparr>) = children s"
  "children (s\<lparr>s_has_maximum := v14\<rparr>) = children s"
  "children (s\<lparr>s_has_exclusive_minimum := v15\<rparr>) = children s"
  "children (s\<lparr>s_has_exclusive_maximum := v16\<rparr>) = children s"
  "children (s\<lparr>s_has_multiple_of := v17\<rparr>) = children s"
  "children (s\<lparr>s_min_items := v18\<rparr>) = children s"
  "children (s\<lparr>s_max_items := v19\<rparr>) = children s"
  "children (s\<lparr>s_unique_items := v20\<rparr>) = children s"
  "children (s\<lparr>s_properties_count := v21\<rparr>) = children s"
  "children (s\<lparr>s_required := v22\<rparr>) = children s"
  "children (s\<lparr>s_additional_properties_bool := v23\<rparr>) = children s"
  "children (s\<lparr>s_min_properties := v24\<rparr>) = children s"
  "children (s\<lparr>s_max_properties := v25\<rparr>) = children s"
  "children (s\<lparr>s_dependent_required := v26\<rparr>) = children s"
  "children (s\<lparr>s_min_contains := v27\<rparr>) = children s"
  "children (s\<lparr>s_max_contains := v28\<rparr>) = children s"
  "children (s\<lparr>s_const_value := v29\<rparr>) = children s"
  "children (s\<lparr>s_enum_values := v30\<rparr>) = children s"
  "children (s\<lparr>s_ref := v31\<rparr>) = children s"
  "children (s\<lparr>s_default_value := v32\<rparr>) = children s"
  "children (s\<lparr>s_nullable := v33\<rparr>) = children s"
  "children (s\<lparr>s_read_only := v34\<rparr>) = children s"
  "children (s\<lparr>s_write_only := v35\<rparr>) = children s"
  "children (s\<lparr>s_deprecated := v36\<rparr>) = children s"
  "children (s\<lparr>s_discriminator_property := v37\<rparr>) = children s"
  "children (s\<lparr>s_discriminator_mapping := v38\<rparr>) = children s"
  "children (s\<lparr>s_has_unevaluated_properties := v39\<rparr>) = children s"
  "children (s\<lparr>s_has_unevaluated_items := v40\<rparr>) = children s"
  by (simp_all add: children_def followed_def subschemas_def)

definition plain :: "(oas_schema \<Rightarrow> oas_schema) \<Rightarrow> bool" where
  "plain f \<longleftrightarrow> (\<forall>s. children (f s) = children s \<and> s_ref_resolved (f s) = s_ref_resolved s)"

lemma on_key_keeps [simp]:
  "(\<And>x s. children (f x s) = children s) \<Longrightarrow> children (on_key yy v k get f s) = children s"
  "(\<And>x s. s_ref_resolved (f x s) = s_ref_resolved s) \<Longrightarrow> s_ref_resolved (on_key yy v k get f s) = s_ref_resolved s"
  by (simp_all add: on_key_def split: option.split)

lemma parse_type_keeps [simp]:
  "children (parse_type v s) = children s" "s_ref_resolved (parse_type v s) = s_ref_resolved s"
proof -
  let ?g = "\<lambda>x s. case x of
      JStr t \<Rightarrow> s\<lparr>s_type_mask := s_type_mask s OR oas_type_from_string (Some (cstr t))\<rparr> | _ \<Rightarrow> s"
  have g: "children (?g x s) = children s" "s_ref_resolved (?g x s) = s_ref_resolved s" for x s
    by (cases x; simp)+
  have "children (fold ?g xs s) = children s \<and> s_ref_resolved (fold ?g xs s) = s_ref_resolved s" for xs
    by (induction xs arbitrary: s) (simp_all only: fold.simps id_apply o_apply g simp_thms)
  then show "children (parse_type v s) = children s" "s_ref_resolved (parse_type v s) = s_ref_resolved s"
    by (cases v; simp add: parse_type_def)+
qed

lemma plain_parts:
  "plain (parse_annotations yy v)" "plain (parse_string_constraints yy v)"
  "plain (parse_numeric_constraints yy v)" "plain (parse_flags yy v)"
  by (simp_all add: plain_def parse_annotations_def parse_string_constraints_def parse_numeric_constraints_def
      parse_flags_def Let_def)

lemma plain_on_key: "(\<And>x s. children (f x s) = children s) \<Longrightarrow> (\<And>x s. s_ref_resolved (f x s) = s_ref_resolved s) \<Longrightarrow>
    plain (on_key yy v k get f)"
  by (simp add: plain_def)

lemma slots_request:
  assumes "n < 2 ^ 56" and "sz \<le> 24"
  shows "request_ok (of_nat sz * of_nat n) 8"
proof -
  have "sz * n \<le> 24 * 2 ^ 56" using assms by (intro mult_le_mono) simp_all
  then have l: "sz * n \<le> 24 * 72057594037927936" by simp
  have "(of_nat sz * of_nat n :: u64) = of_nat (sz * n)" by simp
  moreover have "unat (of_nat (sz * n) :: u64) = sz * n"
    unfolding unsigned_of_nat of_nat_id by (rule take_bit_nat_eq_self) (use l in simp)
  ultimately show ?thesis using l by (simp add: request_ok_def)
qed

section \<open>Steps on a node under construction\<close>

context region_allocator
begin

definition state_ok :: "'a parse_state \<Rightarrow> bool" where
  "state_ok st \<longleftrightarrow> inv (ps_arena st) \<and> (\<forall>p. ps_heap st p \<noteq> None \<longrightarrow> unat p \<in> taken (ps_arena st))"

definition grows :: "'a parse_state \<Rightarrow> 'a parse_state \<Rightarrow> bool" where
  "grows st st' \<longleftrightarrow> state_ok st' \<and> (\<forall>p. ps_heap st p \<noteq> None \<longrightarrow> ps_heap st' p = ps_heap st p)"

definition fresh :: "'a parse_state \<Rightarrow> 'a parse_state \<Rightarrow> sref set" where
  "fresh st st' = {p. ps_heap st' p \<noteq> None \<and> ps_heap st p = None}"

definition reads_trees :: "nat \<Rightarrow> 'a schema_reader \<Rightarrow> bool" where
  "reads_trees n rec \<longleftrightarrow> (\<forall>v st. below n v \<longrightarrow> state_ok st \<longrightarrow>
     (\<exists>x st'. rec v st = Some (x, st') \<and> grows st st' \<and> tree n (ps_heap st') (fresh st st') x))"

text \<open>
  The node \<open>p\<close>, allocated after the store \<open>h0\<close>, with trees of younger nodes below it.
\<close>

definition younger :: "schema_heap \<Rightarrow> sref \<Rightarrow> 'a parse_state \<Rightarrow> sref set" where
  "younger h0 p st = {q. ps_heap st q \<noteq> None \<and> h0 q = None \<and> q \<noteq> p}"

definition node_ok :: "nat \<Rightarrow> schema_heap \<Rightarrow> sref \<Rightarrow> 'a parse_state \<Rightarrow> bool" where
  "node_ok n h0 p st \<longleftrightarrow> state_ok st \<and> (\<forall>q. h0 q \<noteq> None \<longrightarrow> ps_heap st q = h0 q) \<and> h0 p = None \<and>
     (\<exists>s. ps_heap st p = Some s \<and> s_ref_resolved s = None \<and>
       (\<forall>y \<in> children s. tree n (ps_heap st) (younger h0 p st) y))"

definition builds :: "nat \<Rightarrow> schema_heap \<Rightarrow> sref \<Rightarrow> 'a parse_step \<Rightarrow> bool" where
  "builds n h0 p f \<longleftrightarrow> (\<forall>st. node_ok n h0 p st \<longrightarrow> (\<exists>st'. f st = Some st' \<and> node_ok n h0 p st'))"

lemma buildsI:
  "(\<And>st. node_ok n h0 p st \<Longrightarrow> \<exists>st'. f st = Some st' \<and> node_ok n h0 p st') \<Longrightarrow> builds n h0 p f"
  by (simp add: builds_def)

lemma buildsE:
  assumes "builds n h0 p f" and "node_ok n h0 p st"
  obtains st' where "f st = Some st'" "node_ok n h0 p st'"
  using assms by (auto simp: builds_def)

lemma builds_steps: "list_all (builds n h0 p) fs \<Longrightarrow> builds n h0 p (parse_steps fs)"
proof (induction fs)
  case (Cons f fs)
  then have f: "builds n h0 p f" and fs: "builds n h0 p (parse_steps fs)" by simp_all
  show ?case
  proof (rule buildsI)
    fix st assume st: "node_ok n h0 p st"
    obtain st1 where s1: "f st = Some st1" "node_ok n h0 p st1" by (rule buildsE [OF f st])
    obtain st2 where "parse_steps fs st1 = Some st2" "node_ok n h0 p st2" by (rule buildsE [OF fs s1(2)])
    then show "\<exists>st'. parse_steps (f # fs) st = Some st' \<and> node_ok n h0 p st'" using s1(1) by simp
  qed
qed (simp add: builds_def)

lemma grows_trans: "grows st st1 \<Longrightarrow> grows st1 st2 \<Longrightarrow> grows st st2"
  by (auto simp: grows_def)

lemma grows_refl: "state_ok st \<Longrightarrow> grows st st"
  by (simp add: grows_def)

lemma node_ok_grows:
  assumes "node_ok n h0 p st" and "grows st st'"
  shows "node_ok n h0 p st'" and "fresh st st' \<subseteq> younger h0 p st'"
proof -
  obtain s where s: "ps_heap st p = Some s" "s_ref_resolved s = None"
    "\<forall>y \<in> children s. tree n (ps_heap st) (younger h0 p st) y"
    using assms(1) by (auto simp: node_ok_def)
  have k: "ps_heap st' q = ps_heap st q" if "ps_heap st q \<noteq> None" for q
    using assms(2) that by (simp add: grows_def)
  have h: "\<forall>q. h0 q \<noteq> None \<longrightarrow> ps_heap st' q = h0 q" "h0 p = None" "state_ok st'"
    using assms k by (auto simp: node_ok_def grows_def)
  have "tree n (ps_heap st') (younger h0 p st') y" if "y \<in> children s" for y
    by (rule tree_mono [OF _ _ bspec [OF s(3) that]]) (auto simp: younger_def k)
  then show "node_ok n h0 p st'" using h s k [of p] by (auto simp: node_ok_def)
  show "fresh st st' \<subseteq> younger h0 p st'"
  proof
    fix q assume q: "q \<in> fresh st st'"
    then have "h0 q = None" using assms(1) by (auto simp: fresh_def node_ok_def)
    then show "q \<in> younger h0 p st'" using q s(1) by (auto simp: fresh_def younger_def)
  qed
qed

lemma set_node_ok:
  assumes "node_ok n h0 p st" and "\<And>s. children (f s) \<subseteq> children s \<union> X"
    and "\<And>s. s_ref_resolved (f s) = s_ref_resolved s"
    and "\<forall>y \<in> X. tree n (ps_heap st) (younger h0 p st) y"
  shows "\<exists>st'. set_node p f st = Some st' \<and> node_ok n h0 p st'"
proof -
  obtain s where s: "ps_heap st p = Some s" "s_ref_resolved s = None"
    "\<forall>y \<in> children s. tree n (ps_heap st) (younger h0 p st) y"
    using assms(1) by (auto simp: node_ok_def)
  let ?st = "st\<lparr>ps_heap := (ps_heap st)(p \<mapsto> f s)\<rparr>"
  have y: "younger h0 p ?st = younger h0 p st" by (auto simp: younger_def)
  have "tree n (ps_heap ?st) (younger h0 p st) y" if "y \<in> children (f s)" for y
  proof (rule tree_mono [where A = "younger h0 p st" and h = "ps_heap st"])
    show "tree n (ps_heap st) (younger h0 p st) y" using that assms(2) s(3) assms(4) by blast
  qed (auto simp: younger_def)
  moreover have "state_ok ?st" using assms(1) s(1) by (auto simp: node_ok_def state_ok_def)
  ultimately have "node_ok n h0 p ?st"
    using assms(1,3) s(2) by (auto simp: node_ok_def y)
  then show ?thesis using s(1) by (simp add: set_node_def)
qed

lemma builds_plain: "plain f \<Longrightarrow> builds n h0 p (set_node p f)"
  by (rule buildsI) (rule set_node_ok [where X = "{}"], auto simp: plain_def)

lemma node_ok_alloc:
  assumes "node_ok n h0 p st" and "request_ok k al" and "alloc (ps_arena st) k al = (r, a)"
  shows "node_ok n h0 p (st\<lparr>ps_arena := a\<rparr>)"
proof -
  have i: "inv (ps_arena st)" using assms(1) by (simp add: node_ok_def state_ok_def)
  have "inv a" using alloc_inv [OF i assms(2)] assms(3) by simp
  moreover have "taken (ps_arena st) \<subseteq> taken a"
    using alloc_fresh [OF i assms(2)] alloc_fail assms(3) by (cases r) fastforce+
  ultimately have "state_ok (st\<lparr>ps_arena := a\<rparr>)" using assms(1) by (auto simp: node_ok_def state_ok_def)
  then have "grows st (st\<lparr>ps_arena := a\<rparr>)" by (simp add: grows_def)
  then show ?thesis using node_ok_grows(1) assms(1) by blast
qed

lemma builds_slots:
  assumes "k < 2 ^ 56" and "sz \<le> 24" and "builds n h0 p f"
  shows "builds n h0 p (with_slots alloc k sz f)"
proof (rule buildsI)
  fix st assume st: "node_ok n h0 p st"
  obtain r a where r: "alloc (ps_arena st) (of_nat sz * of_nat k) 8 = (r, a)" by fastforce
  have "node_ok n h0 p (st\<lparr>ps_arena := a\<rparr>)" by (rule node_ok_alloc [OF st slots_request [OF assms(1,2)] r])
  then show "\<exists>st'. with_slots alloc k sz f st = Some st' \<and> node_ok n h0 p st'"
    using st r assms(3) by (auto simp: with_slots_def builds_def split: option.split)
qed

text \<open>A sub-schema read into a field, and a list of them.\<close>

lemma reads_into:
  assumes r: "reads_trees n rec" and v: "below n v" and st: "node_ok n h0 p st"
  obtains x st1 where "rec v st = Some (x, st1)" and "node_ok n h0 p st1"
    and "tree n (ps_heap st1) (younger h0 p st1) x"
proof -
  obtain x st1 where x: "rec v st = Some (x, st1)" "grows st st1" "tree n (ps_heap st1) (fresh st st1) x"
    using r v st unfolding reads_trees_def node_ok_def by blast
  then show thesis
    using that node_ok_grows [OF st x(2)] tree_mono [of "fresh st st1" "younger h0 p st1" "ps_heap st1" "ps_heap st1"]
    by blast
qed

lemma builds_child:
  assumes yy: "yy_obj_get_ok yy" and r: "reads_trees n rec" and v: "below (Suc n) obj"
    and f: "\<And>x s. children (f x s) \<subseteq> children s \<union> {x}" "\<And>x s. s_ref_resolved (f x s) = s_ref_resolved s"
  shows "builds n h0 p (parse_child yy rec obj k p f)"
proof (rule buildsI)
  fix st assume st: "node_ok n h0 p st"
  show "\<exists>st'. parse_child yy rec obj k p f st = Some st' \<and> node_ok n h0 p st'"
  proof (cases "\<exists>w. yy_obj_get yy obj k = Some w \<and> is_jobj w")
    case False
    then show ?thesis using st by (auto simp: parse_child_def split: option.split)
  next
    case True
    then obtain w where w: "yy_obj_get yy obj k = Some w" "is_jobj w" by blast
    have "below n w" by (rule below_key [OF yy v w(1)])
    then obtain x st1 where x: "rec w st = Some (x, st1)" "node_ok n h0 p st1"
      "tree n (ps_heap st1) (younger h0 p st1) x" by (rule reads_into [OF r _ st])
    show ?thesis
      using set_node_ok [OF x(2), of "f x" "{x}"] f x w by (simp add: parse_child_def)
  qed
qed

lemma read_all_into:
  assumes r: "reads_trees n rec" and vs: "\<forall>v \<in> set vs. below n v" and st: "node_ok n h0 p st"
  shows "\<exists>xs st1. read_all rec vs st = Some (xs, st1) \<and> grows st st1 \<and> node_ok n h0 p st1 \<and>
    length xs = length vs \<and> (\<forall>x \<in> set xs. tree n (ps_heap st1) (younger h0 p st1) x)"
  using vs st
proof (induction vs arbitrary: st)
  case Nil
  then show ?case by (simp add: grows_refl node_ok_def)
next
  case (Cons v vs)
  then have v: "below n v" and vs: "\<forall>v \<in> set vs. below n v" by simp_all
  obtain x st1 where x: "rec v st = Some (x, st1)" "grows st st1" "tree n (ps_heap st1) (fresh st st1) x"
    using r v Cons.prems(2) unfolding reads_trees_def node_ok_def by blast
  note n1 = node_ok_grows [OF Cons.prems(2) x(2)]
  obtain xs st2 where xs: "read_all rec vs st1 = Some (xs, st2)" "grows st1 st2" "node_ok n h0 p st2"
    "length xs = length vs" "\<forall>x \<in> set xs. tree n (ps_heap st2) (younger h0 p st2) x"
    using Cons.IH [OF vs n1(1)] by blast
  have k: "ps_heap st2 q = ps_heap st1 q" if "q \<in> fresh st st1" for q
    using xs(2) that by (simp add: grows_def fresh_def)
  have "younger h0 p st1 \<subseteq> younger h0 p st2"
    using xs(2) by (auto simp: younger_def grows_def)
  then have "tree n (ps_heap st2) (younger h0 p st2) x"
    using tree_mono [of "fresh st st1" "younger h0 p st2" "ps_heap st2" "ps_heap st1", OF _ k x(3)] n1(2) by blast
  then show ?case using x(1,2) xs grows_trans by auto
qed

lemma builds_read_all:
  assumes "reads_trees n rec" and "\<forall>v \<in> set vs. below n v"
    and "\<And>xs s. length xs = length vs \<Longrightarrow> children (f xs s) \<subseteq> children s \<union> set xs"
    and "\<And>xs s. s_ref_resolved (f xs s) = s_ref_resolved s"
  shows "builds n h0 p (\<lambda>st. do { (xs, st) \<leftarrow> read_all rec vs st; set_node p (f xs) st })"
proof (rule buildsI)
  fix st assume "node_ok n h0 p st"
  then obtain xs st1 where xs: "read_all rec vs st = Some (xs, st1)" "node_ok n h0 p st1" "length xs = length vs"
    "\<forall>x \<in> set xs. tree n (ps_heap st1) (younger h0 p st1) x"
    using read_all_into [OF assms(1,2)] by blast
  show "\<exists>st'. (do { (xs, st) \<leftarrow> read_all rec vs st; set_node p (f xs) st }) = Some st' \<and> node_ok n h0 p st'"
    using set_node_ok [OF xs(2), of "f xs" "set xs"] assms(3) [OF xs(3)] assms(4) xs by simp
qed

lemma below_arr_of:
  assumes "yy_obj_get_ok yy" and "below (Suc n) obj" and "arr_of yy obj k = Some vs"
  shows "length vs < 2 ^ 56" and "\<forall>v \<in> set vs. below n v"
proof -
  have "yy_obj_get yy obj k = Some (JArr vs)"
    using assms(3) by (auto simp: arr_of_def split: option.splits json.splits)
  from below_arr [OF below_key [OF assms(1,2) this]]
  show "length vs < 2 ^ 56" and "\<forall>v \<in> set vs. below n v" by simp_all
qed

lemma below_obj_of:
  assumes "yy_obj_get_ok yy" and "below (Suc n) obj" and "obj_of yy obj k = Some kvs"
  shows "length kvs < 2 ^ 56" and "\<forall>v \<in> set (map snd kvs). below n v"
proof -
  have "yy_obj_get yy obj k = Some (JObj kvs)"
    using assms(3) by (auto simp: obj_of_def split: option.splits json.splits)
  from below_obj [OF below_key [OF assms(1,2) this]]
  show "length kvs < 2 ^ 56" and "\<forall>v \<in> set (map snd kvs). below n v" by simp_all
qed

lemma builds_array:
  assumes "yy_obj_get_ok yy" and "reads_trees n rec" and "below (Suc n) obj"
    and "\<And>xs s. children (f xs s) \<subseteq> children s \<union> set xs" and "\<And>xs s. s_ref_resolved (f xs s) = s_ref_resolved s"
  shows "builds n h0 p (parse_schema_array yy alloc rec obj k p f)"
proof (cases "arr_of yy obj k")
  case None
  then show ?thesis by (simp add: builds_def parse_schema_array_def)
next
  case (Some vs)
  have "builds n h0 p (with_slots alloc (length vs) 8 (\<lambda>st. do { (xs, st) \<leftarrow> read_all rec vs st; set_node p (f xs) st }))"
    using below_arr_of [OF assms(1,3) Some] assms(2,4,5) by (intro builds_slots builds_read_all) simp_all
  then show ?thesis using Some by (simp add: builds_def parse_schema_array_def)
qed

lemma reads_object: "reads_trees n rec \<Longrightarrow> reads_trees n (read_object rec)"
  unfolding reads_trees_def read_object_def by (auto simp: grows_refl)

lemma add_property_ok:
  assumes st: "node_ok n h0 p st" and x: "tree n (ps_heap st) (younger h0 p st) (Some q)"
  shows "\<exists>rc a h. oas_schema_add_property alloc (Some (ps_arena st)) (ps_heap st) (Some p) (Some nm) (Some q) =
      Some (rc, Some a, h) \<and> node_ok n h0 p (st\<lparr>ps_arena := a, ps_heap := h\<rparr>)"
proof -
  obtain r a where r: "alloc (ps_arena st) sizeof_oas_property 8 = (r, a)" by fastforce
  have "request_ok sizeof_oas_property 8" by (simp add: request_ok_def sizeof_oas_property_def)
  from node_ok_alloc [OF st this r] have ok: "node_ok n h0 p (st\<lparr>ps_arena := a\<rparr>)" .
  show ?thesis
  proof (cases r)
    case None
    then show ?thesis using r ok by (simp add: oas_schema_add_property_def)
  next
    case (Some z)
    let ?f = "\<lambda>s. s\<lparr>s_properties := \<lparr>p_name = nm, p_schema = Some q\<rparr> # s_properties s,
      s_properties_count := s_properties_count s + 1\<rparr>"
    have c: "children (?f s) \<subseteq> children s \<union> {Some q}" for s by (auto simp: child_fields)
    have "\<exists>st'. set_node p ?f (st\<lparr>ps_arena := a\<rparr>) = Some st' \<and> node_ok n h0 p st'"
      by (rule set_node_ok [OF ok c]) (use x in \<open>simp_all add: younger_def\<close>)
    then show ?thesis using r Some
      by (auto simp: oas_schema_add_property_def set_node_def bind_eq_Some_conv)
  qed
qed

lemma builds_properties:
  assumes r: "reads_trees n rec" and kvs: "\<forall>v \<in> set (map snd kvs). below n v"
  shows "builds n h0 p (properties_loop alloc rec p kvs)"
  using kvs
proof (induction kvs)
  case (Cons kv kvs)
  obtain k v where kv: "kv = (k, v)" by fastforce
  have v: "below n v" and rest: "builds n h0 p (properties_loop alloc rec p kvs)" using Cons kv by simp_all
  show ?case
  proof (rule buildsI)
    fix st assume st: "node_ok n h0 p st"
    show "\<exists>st'. properties_loop alloc rec p (kv # kvs) st = Some st' \<and> node_ok n h0 p st'"
    proof (cases "is_jobj v")
      case False
      then show ?thesis using buildsE [OF rest st] kv by auto
    next
      case True
      obtain x st1 where x: "rec v st = Some (x, st1)" "node_ok n h0 p st1"
        "tree n (ps_heap st1) (younger h0 p st1) x" by (rule reads_into [OF r v st])
      show ?thesis
      proof (cases x)
        case None
        obtain st2 where "properties_loop alloc rec p kvs st1 = Some st2" "node_ok n h0 p st2"
          by (rule buildsE [OF rest x(2)])
        then show ?thesis using kv True x(1) None by simp
      next
        case (Some q)
        then obtain rc a h where a: "oas_schema_add_property alloc (Some (ps_arena st1)) (ps_heap st1) (Some p)
            (Some (cstr k)) (Some q) = Some (rc, Some a, h)" "node_ok n h0 p (st1\<lparr>ps_arena := a, ps_heap := h\<rparr>)"
          using add_property_ok [OF x(2)] x(3) by blast
        obtain st2 where "properties_loop alloc rec p kvs (st1\<lparr>ps_arena := a, ps_heap := h\<rparr>) = Some st2"
          "node_ok n h0 p st2" by (rule buildsE [OF rest a(2)])
        then show ?thesis using kv True x(1) Some a(1) by simp
      qed
    qed
  qed
qed (simp add: builds_def)

lemma builds_required:
  assumes "yy_obj_get_ok yy" and "below (Suc n) obj"
  shows "builds n h0 p (parse_required yy alloc obj p)"
proof (cases "arr_of yy obj ''required''")
  case None
  then show ?thesis by (simp add: builds_def parse_required_def)
next
  case (Some vs)
  then have g: "yy_obj_get yy obj ''required'' = Some (JArr vs)"
    by (auto simp: arr_of_def split: option.splits json.splits)
  then obtain kvs where "obj = JObj kvs" "map_of kvs ''required'' = Some (JArr vs)"
    using assms(1) by (auto simp: yy_obj_get_ok_def split: json.splits)
  then have "list_all is_jstr vs" using assms(2) by (simp add: below_def names_at_def)
  then have "all_strings vs = Some (map (the \<circ> json_str) vs)" by (simp add: all_strings_def)
  then have "builds n h0 p (\<lambda>st. do { ns \<leftarrow> all_strings vs; set_node p (\<lambda>s. s\<lparr>s_required := ns\<rparr>) st })"
    using builds_plain [of "\<lambda>s. s\<lparr>s_required := map (the \<circ> json_str) vs\<rparr>"] by (simp add: plain_def)
  from builds_slots [OF below_arr_of(1) [OF assms Some] _ this] show ?thesis
    using Some by (simp add: builds_def parse_required_def)
qed

lemma create_grows:
  assumes "state_ok st" and "oas_schema_create alloc (Some (ps_arena st)) (ps_heap st) = (x, a, h)"
  shows "grows st (st\<lparr>ps_arena := the a, ps_heap := h\<rparr>)"
    and "\<And>p. x = Some p \<Longrightarrow> ps_heap st p = None \<and> h = (ps_heap st)(p \<mapsto> oas_schema_fresh)"
    and "x = None \<Longrightarrow> h = ps_heap st"
proof -
  obtain r a' where r: "alloc (ps_arena st) sizeof_oas_schema 8 = (r, a')" by fastforce
  have i: "inv (ps_arena st)" "\<forall>p. ps_heap st p \<noteq> None \<longrightarrow> unat p \<in> taken (ps_arena st)"
    using assms(1) by (simp_all add: state_ok_def)
  have q: "request_ok sizeof_oas_schema 8" by (simp add: request_ok_def sizeof_oas_schema_def)
  have i': "inv a'" using alloc_inv [OF i(1) q] r by simp
  have res: "(x, a, h) = (case r of None \<Rightarrow> (None, Some a', ps_heap st)
      | Some p \<Rightarrow> (Some p, Some a', (ps_heap st)(p \<mapsto> oas_schema_fresh)))"
    using assms(2) r by (auto simp: oas_schema_create_def split: option.splits)
  have new: "unat p \<notin> taken (ps_arena st)" "unat p \<in> taken a'" "taken (ps_arena st) \<subseteq> taken a'" if "r = Some p" for p
  proof -
    have "unat p \<in> region p sizeof_oas_schema" by (simp add: region_def sizeof_oas_schema_def)
    then show "unat p \<notin> taken (ps_arena st)" "unat p \<in> taken a'" "taken (ps_arena st) \<subseteq> taken a'"
      using alloc_fresh [OF i(1) q] r that by blast+
  qed
  show "\<And>p. x = Some p \<Longrightarrow> ps_heap st p = None \<and> h = (ps_heap st)(p \<mapsto> oas_schema_fresh)"
    using res new(1) i(2) by (auto split: option.splits)
  show "x = None \<Longrightarrow> h = ps_heap st" using res by (auto split: option.splits)
  show "grows st (st\<lparr>ps_arena := the a, ps_heap := h\<rparr>)"
  proof (cases r)
    case None
    then show ?thesis using res i i' alloc_fail [of "ps_arena st"] r by (auto simp: grows_def state_ok_def)
  next
    case (Some p)
    then have "ps_heap st p = None" using new(1) i(2) by blast
    then show ?thesis using Some res i(2) i' new [OF Some] by (auto simp: grows_def state_ok_def)
  qed
qed

lemma children_fresh [simp]: "children oas_schema_fresh = {None}"
  by (auto simp: child_fields)

lemma builds_additional:
  assumes yy: "yy_obj_get_ok yy" and r: "reads_trees (Suc n) rec" and v: "below (Suc (Suc n)) obj"
  shows "builds (Suc n) h0 p (parse_additional yy alloc rec obj p)"
proof (rule buildsI)
  fix st assume st: "node_ok (Suc n) h0 p st"
  let ?set = "\<lambda>x s. s\<lparr>s_additional_properties := x\<rparr>"
  have c: "children (?set x s) \<subseteq> children s \<union> {x}" for x s by (auto simp: child_fields)
  show "\<exists>st'. parse_additional yy alloc rec obj p st = Some st' \<and> node_ok (Suc n) h0 p st'"
  proof (cases "yy_obj_get yy obj ''additionalProperties''")
    case None
    then show ?thesis using st by (simp add: parse_additional_def)
  next
    case (Some w)
    have bw: "below (Suc n) w" by (rule below_key [OF yy v Some])
    show ?thesis
    proof (cases "\<exists>b. w = JBool b")
      case True
      then obtain b where b: "w = JBool b" by blast
      obtain st1 where s1: "set_node p (\<lambda>s. s\<lparr>s_additional_properties_bool := True\<rparr>) st = Some st1" "node_ok (Suc n) h0 p st1"
        using set_node_ok [OF st, of "\<lambda>s. s\<lparr>s_additional_properties_bool := True\<rparr>" "{}"] by auto
      obtain x a h where cr: "oas_schema_create alloc (Some (ps_arena st1)) (ps_heap st1) = (x, a, h)" by (metis prod_cases3)
      let ?st2 = "st1\<lparr>ps_arena := the a, ps_heap := h\<rparr>"
      have "state_ok st1" using s1(2) by (simp add: node_ok_def)
      note g = create_grows [OF this cr]
      note n2 = node_ok_grows [OF s1(2) g(1)]
      have "tree (Suc n) (ps_heap ?st2) (younger h0 p ?st2) x"
      proof (cases x)
        case (Some q)
        then have "q \<in> fresh st1 ?st2" "h q = Some oas_schema_fresh" using g(2) by (auto simp: fresh_def)
        then show ?thesis using n2(2) Some by auto
      qed simp
      then show ?thesis
        using set_node_ok [OF n2(1) c, of x] s1 cr n2 b Some by (auto simp: parse_additional_def)
    next
      case False
      show ?thesis
      proof (cases "is_jobj w")
        case True
        obtain x st1 where x: "rec w st = Some (x, st1)" "node_ok (Suc n) h0 p st1"
          "tree (Suc n) (ps_heap st1) (younger h0 p st1) x" by (rule reads_into [OF r bw st])
        show ?thesis using set_node_ok [OF x(2) c, of x] x Some True by (cases w) (simp_all add: parse_additional_def)
      next
        case f: False
        then show ?thesis using False Some st by (cases w) (simp_all add: parse_additional_def)
      qed
    qed
  qed
qed

lemma builds_pattern_properties:
  assumes "yy_obj_get_ok yy" and "reads_trees n rec" and "below (Suc n) obj"
  shows "builds n h0 p (parse_pattern_properties yy alloc rec obj p)"
proof (cases "obj_of yy obj ''patternProperties''")
  case None
  then show ?thesis by (simp add: builds_def parse_pattern_properties_def)
next
  case (Some kvs)
  let ?f = "\<lambda>xs s. s\<lparr>s_pattern_properties :=
    map2 (\<lambda>k x. \<lparr>pp_pattern = Some (cstr k), pp_schema = x\<rparr>) (map fst kvs) xs\<rparr>"
  note b = below_obj_of [OF assms(1,3) Some]
  have "children (?f xs s) \<subseteq> children s \<union> set xs" for xs s
    by (auto simp: child_fields dest: set_zip_rightD)
  then have "builds n h0 p (with_slots alloc (length kvs) 16 (\<lambda>st. do {
      (xs, st) \<leftarrow> read_all (read_object rec) (map snd kvs) st; set_node p (?f xs) st }))"
    using b(1) by (intro builds_slots builds_read_all [OF reads_object [OF assms(2)] b(2)]) simp_all
  then show ?thesis using Some by (simp add: builds_def parse_pattern_properties_def)
qed

lemma builds_dependent_schemas:
  assumes "yy_obj_get_ok yy" and "reads_trees n rec" and "below (Suc n) obj"
  shows "builds n h0 p (parse_dependent_schemas yy alloc rec obj p)"
proof (cases "obj_of yy obj ''dependentSchemas''")
  case None
  then show ?thesis by (simp add: builds_def parse_dependent_schemas_def)
next
  case (Some kvs)
  let ?f = "\<lambda>xs s. s\<lparr>s_dependent_schemas :=
    map2 (\<lambda>k x. \<lparr>ds_property = cstr k, ds_schema = x\<rparr>) (map fst kvs) xs\<rparr>"
  note b = below_obj_of [OF assms(1,3) Some]
  have "children (?f xs s) \<subseteq> children s \<union> set xs" for xs s
    by (auto simp: child_fields dest: set_zip_rightD)
  then have "builds n h0 p (with_slots alloc (length kvs) 16 (\<lambda>st. do {
      (xs, st) \<leftarrow> read_all (read_object rec) (map snd kvs) st; set_node p (?f xs) st }))"
    using b(1) by (intro builds_slots builds_read_all [OF reads_object [OF assms(2)] b(2)]) simp_all
  then show ?thesis using Some by (simp add: builds_def parse_dependent_schemas_def)
qed

lemma dependent_loop_ok:
  assumes st: "node_ok n h0 p st"
    and kvs: "\<forall>kv \<in> set kvs. below n (snd kv) \<and> (case snd kv of JArr vs \<Rightarrow> list_all is_jstr vs | _ \<Rightarrow> True)"
  shows "\<exists>ds a. dependent_loop alloc kvs (ps_arena st) = Some (ds, a) \<and> node_ok n h0 p (st\<lparr>ps_arena := a\<rparr>)"
  using st kvs
proof (induction kvs arbitrary: st)
  case (Cons kv kvs)
  obtain k v where kv: "kv = (k, v)" by fastforce
  have "\<exists>ns a. dependent_names alloc v (ps_arena st) = Some (ns, a) \<and> node_ok n h0 p (st\<lparr>ps_arena := a\<rparr>)"
  proof (cases "\<exists>vs. v = JArr vs \<and> vs \<noteq> []")
    case False
    then show ?thesis using Cons.prems(1) by (cases v) (simp_all add: dependent_names_def)
  next
    case True
    then obtain vs where vs: "v = JArr vs" "vs \<noteq> []" by blast
    have b: "length vs < 2 ^ 56" "list_all is_jstr vs" using Cons.prems(2) kv vs below_arr by auto
    obtain r a where r: "alloc (ps_arena st) (8 * of_nat (length vs)) 8 = (r, a)" by fastforce
    have "request_ok (8 * of_nat (length vs)) 8" using slots_request [OF b(1), of 8] by simp
    from node_ok_alloc [OF Cons.prems(1) this r] show ?thesis
      using vs r b(2) by (cases r) (simp_all add: dependent_names_def all_strings_def)
  qed
  then obtain ns a where a: "dependent_names alloc v (ps_arena st) = Some (ns, a)" "node_ok n h0 p (st\<lparr>ps_arena := a\<rparr>)"
    by blast
  show ?case using Cons.IH [OF a(2)] Cons.prems(2) a(1) kv by fastforce
qed simp

lemma builds_dependent_required:
  assumes "yy_obj_get_ok yy" and "below (Suc n) obj"
  shows "builds n h0 p (parse_dependent_required yy alloc obj p)"
proof (cases "obj_of yy obj ''dependentRequired''")
  case None
  then show ?thesis by (simp add: builds_def parse_dependent_required_def)
next
  case (Some kvs)
  note b = below_obj_of [OF assms Some]
  have "yy_obj_get yy obj ''dependentRequired'' = Some (JObj kvs)"
    using Some by (auto simp: obj_of_def split: option.splits json.splits)
  then obtain okvs where "obj = JObj okvs" "map_of okvs ''dependentRequired'' = Some (JObj kvs)"
    using assms(1) by (auto simp: yy_obj_get_ok_def split: json.splits)
  then have "\<forall>kv \<in> set kvs. case snd kv of JArr vs \<Rightarrow> list_all is_jstr vs | _ \<Rightarrow> True"
    using assms(2) by (auto simp: below_def dependents_at_def list_all_iff split_beta)
  then have n: "\<forall>kv \<in> set kvs. below n (snd kv) \<and> (case snd kv of JArr vs \<Rightarrow> list_all is_jstr vs | _ \<Rightarrow> True)"
    using b(2) by auto
  have "builds n h0 p (\<lambda>st. do { (ds, a) \<leftarrow> dependent_loop alloc kvs (ps_arena st);
      set_node p (\<lambda>s. s\<lparr>s_dependent_required := ds\<rparr>) (st\<lparr>ps_arena := a\<rparr>) })"
  proof (rule buildsI)
    fix st assume "node_ok n h0 p st"
    then obtain ds a where d: "dependent_loop alloc kvs (ps_arena st) = Some (ds, a)" "node_ok n h0 p (st\<lparr>ps_arena := a\<rparr>)"
      using dependent_loop_ok n by blast
    show "\<exists>st'. (do { (ds, a) \<leftarrow> dependent_loop alloc kvs (ps_arena st);
      set_node p (\<lambda>s. s\<lparr>s_dependent_required := ds\<rparr>) (st\<lparr>ps_arena := a\<rparr>) }) = Some st' \<and> node_ok n h0 p st'"
      using set_node_ok [OF d(2), of "\<lambda>s. s\<lparr>s_dependent_required := ds\<rparr>" "{}"] d(1) by simp
  qed
  from builds_slots [OF b(1) _ this, of 24] show ?thesis
    using Some by (simp add: builds_def parse_dependent_required_def)
qed

lemma parse_steps_single: "parse_steps [f] = f"
proof (rule ext)
  show "parse_steps [f] st = f st" for st by (cases "f st") simp_all
qed

lemma builds_discriminator:
  assumes "yy_obj_get_ok yy" and "below (Suc (Suc n)) obj"
  shows "builds m h0 p (parse_discriminator yy alloc obj p)"
proof (cases "\<exists>dkvs. yy_obj_get yy obj ''discriminator'' = Some (JObj dkvs)")
  case False
  then show ?thesis by (auto simp: builds_def parse_discriminator_def split: option.split json.split)
next
  case True
  then obtain dkvs where d: "yy_obj_get yy obj ''discriminator'' = Some (JObj dkvs)" by blast
  let ?name = "set_node p (on_key yy (JObj dkvs) ''propertyName'' json_str
    (\<lambda>t s. s\<lparr>s_discriminator_property := Some t\<rparr>))"
  let ?map = "\<lambda>st. case obj_of yy (JObj dkvs) ''mapping'' of None \<Rightarrow> Some st
    | Some kvs \<Rightarrow> with_slots alloc (length kvs) 16 (set_node p (\<lambda>s. s\<lparr>s_discriminator_mapping :=
        map (\<lambda>(k, v). \<lparr>dm_key = cstr k, dm_ref = json_str v\<rparr>) kvs\<rparr>)) st"
  have name: "builds m h0 p ?name" by (intro builds_plain plain_on_key) simp_all
  have map: "builds m h0 p ?map"
  proof (cases "obj_of yy (JObj dkvs) ''mapping''")
    case None
    then show ?thesis by (simp add: builds_def)
  next
    case (Some kvs)
    have "builds m h0 p (with_slots alloc (length kvs) 16 (set_node p (\<lambda>s. s\<lparr>s_discriminator_mapping :=
        map (\<lambda>(k, v). \<lparr>dm_key = cstr k, dm_ref = json_str v\<rparr>) kvs\<rparr>)))"
      using below_obj_of(1) [OF assms(1) below_key [OF assms d] Some]
      by (intro builds_slots builds_plain) (simp_all add: plain_def)
    then show ?thesis using Some by (simp add: builds_def)
  qed
  have "builds m h0 p (parse_steps [?name, ?map])" using name map by (intro builds_steps) simp
  moreover have "parse_discriminator yy alloc obj p st = parse_steps [?name, ?map] st" for st
    using d by (simp add: parse_discriminator_def parse_steps_single)
  ultimately show ?thesis by (simp only: builds_def)
qed

lemma builds_node:
  assumes yy: "yy_obj_get_ok yy" and r: "reads_trees (Suc n) rec" and v: "below (Suc (Suc n)) obj"
  shows "builds (Suc n) h0 p (parse_node yy alloc rec obj p)"
proof -
  note child = builds_child [OF yy r v] and array = builds_array [OF yy r v]
  have kvs: "builds (Suc n) h0 p (\<lambda>st. case obj_of yy obj ''properties'' of None \<Rightarrow> Some st
      | Some kvs \<Rightarrow> properties_loop alloc rec p kvs st)"
    using builds_properties [OF r] below_obj_of(2) [OF yy v, of "''properties''"]
    by (cases "obj_of yy obj ''properties''") (simp_all add: builds_def)
  have "list_all (builds (Suc n) h0 p) (parse_array_constraints yy alloc rec obj p)"
    unfolding parse_array_constraints_def list.pred_inject
    by (intro conjI child array builds_plain plain_on_key) (auto simp: child_fields)
  moreover have "list_all (builds (Suc n) h0 p) (parse_object_constraints yy alloc rec obj p)"
    unfolding parse_object_constraints_def list.pred_inject
    by (intro conjI kvs builds_required [OF yy v] builds_additional [OF yy r v] child builds_plain plain_on_key
        builds_pattern_properties [OF yy r v] builds_dependent_required [OF yy v] builds_dependent_schemas [OF yy r v])
      (auto simp: child_fields)
  moreover have "list_all (builds (Suc n) h0 p) (parse_composition yy alloc rec obj p)"
    unfolding parse_composition_def list.pred_inject
    by (intro conjI child array) (auto simp: child_fields)
  moreover have "list_all (builds (Suc n) h0 p) (parse_conditional yy rec obj p)"
    unfolding parse_conditional_def list.pred_inject
    by (intro conjI child) (auto simp: child_fields)
  moreover have "list_all (builds (Suc n) h0 p) (parse_unevaluated yy rec obj p)"
    unfolding parse_unevaluated_def list.pred_inject
    by (intro conjI child builds_plain plain_on_key) (auto simp: child_fields)
  ultimately show ?thesis
    unfolding parse_node_def using builds_discriminator [OF yy v]
    by (intro builds_steps) (simp add: builds_plain plain_parts)
qed

section \<open>The parser\<close>

lemma parse_reads: "yy_obj_get_ok yy \<Longrightarrow> reads_trees (Suc n) (oas_schema_parse (Suc n) yy alloc)"
proof (induction n)
  case 0
  have "\<not> is_jobj v" if "below (Suc 0) v" for v using that by (cases v) (simp_all add: below_def)
  then show ?case by (simp add: reads_trees_def grows_refl)
next
  case (Suc n)
  show ?case unfolding reads_trees_def
  proof (intro allI impI)
    fix v and st :: "'a parse_state"
    assume v: "below (Suc (Suc n)) v" and st: "state_ok st"
    show "\<exists>x st'. oas_schema_parse (Suc (Suc n)) yy alloc v st = Some (x, st') \<and> grows st st' \<and>
      tree (Suc (Suc n)) (ps_heap st') (fresh st st') x"
    proof (cases "is_jobj v")
      case False
      then show ?thesis using st by (simp add: grows_refl)
    next
      case True
      obtain x a h where cr: "oas_schema_create alloc (Some (ps_arena st)) (ps_heap st) = (x, a, h)" by (metis prod_cases3)
      note g = create_grows [OF st cr]
      let ?st = "st\<lparr>ps_arena := the a, ps_heap := h\<rparr>"
      show ?thesis
      proof (cases x)
        case None
        then show ?thesis using True cr g(1) by simp
      next
        case (Some p)
        have p: "ps_heap st p = None" "h = (ps_heap st)(p \<mapsto> oas_schema_fresh)" using g(2) Some by simp_all
        have "node_ok (Suc n) (ps_heap st) p ?st"
          using g(1) p by (auto simp: node_ok_def grows_def)
        from buildsE [OF builds_node [OF Suc.prems Suc.IH [OF Suc.prems] v] this]
        obtain st' where st': "parse_node yy alloc (oas_schema_parse (Suc n) yy alloc) v p ?st = Some st'"
          "node_ok (Suc n) (ps_heap st) p st'" by blast
        obtain s where s: "ps_heap st' p = Some s" "s_ref_resolved s = None"
          "\<forall>y \<in> children s. tree (Suc n) (ps_heap st') (younger (ps_heap st) p st') y"
          using st'(2) by (auto simp: node_ok_def)
        have "younger (ps_heap st) p st' \<subseteq> fresh st st'" by (auto simp: younger_def fresh_def)
        then have "\<forall>y \<in> children s. tree (Suc n) (ps_heap st') (fresh st st') y"
          using s(3) tree_mono by blast
        moreover have "p \<in> fresh st st'" using p(1) s(1) by (simp add: fresh_def)
        ultimately have "tree (Suc (Suc n)) (ps_heap st') (fresh st st') (Some p)" using s(1,2) by auto
        moreover have "grows st st'" using st'(2) by (auto simp: node_ok_def grows_def)
        ultimately show ?thesis using True cr Some st'(1) by simp
      qed
    qed
  qed
qed

text \<open>
  The parser comes back from any value with as much fuel as the value is big, and what it
  returns is a tree of new nodes.
\<close>

lemma schema_parse_tree:
  assumes "yy_obj_get_ok yy" and "well_named v" and "size v \<le> n" and "state_ok st"
  obtains x st' where "oas_schema_parse (Suc n) yy alloc v st = Some (x, st')" and "grows st st'"
    and "tree (Suc n) (ps_heap st') (fresh st st') x"
proof -
  have "below (Suc n) v" using assms(2,3) by (simp add: below_def)
  then show thesis using parse_reads [OF assms(1), of n] assms(4) that unfolding reads_trees_def by blast
qed

end

lemma tree_compiles:
  assumes "tree n (ce_heap env) A x"
  shows "returns (compile_schema n env x)"
proof (rule compile_schema_returns_by [where G = "\<lambda>n x. tree n (ce_heap env) A x"])
  show "tree 0 (ce_heap env) A y \<Longrightarrow> y = None" for y by simp
  show "\<exists>s. ce_heap env p = Some s \<and> (\<forall>y \<in> followed s. tree m (ce_heap env) A y)"
    if "tree (Suc m) (ce_heap env) A (Some p)" for m p
    using that by (auto simp: children_def)
qed (rule assms)

lemma returns_compile:
  assumes "returns (compile_schema n env x)"
  shows "oas_schema_compile n env ok x errors \<noteq> None"
proof -
  have "returns (run_steps [compile_schema n env x, emit_simple env OAS_OP_END])"
    using assms returning.closed_emitters(1) by (intro returns_run_steps) auto
  then have "run_steps [compile_schema n env x, emit_simple env OAS_OP_END]
      (oas_compiled_schema_init env errors) \<noteq> None" unfolding returns_def by blast
  then show ?thesis
    by (cases "x = None \<or> \<not> ok") (auto simp: oas_schema_compile_def Let_def simp del: run_steps.simps)
qed

section \<open>Properties\<close>

text \<open>
  On the arena of \<open>oas_alloc.c\<close>, \<open>oas_schema_parse\<close> comes back from every JSON value whose
  name lists hold strings, with fuel one more than the value's size; it changes no node that
  was there, whether or not memory runs out on the way, and what it returns is null or the
  root of a finite tree of nodes allocated by this call: nothing is shared, and no pointer in
  it dangles.
\<close>

theorem schema_parse_builds_tree:
  assumes "yy_obj_get_ok yy" and "well_named v" and "size v \<le> n"
    and "malloc_ok malloc" and "arena_inv malloc a" and "\<And>p. h p \<noteq> None \<Longrightarrow> unat p \<in> arena_taken a"
  shows "\<exists>x a' h'. oas_schema_parse (Suc n) yy (oas_arena_alloc malloc) v \<lparr>ps_arena = a, ps_heap = h\<rparr> =
      Some (x, \<lparr>ps_arena = a', ps_heap = h'\<rparr>) \<and>
    (\<forall>p. h p \<noteq> None \<longrightarrow> h' p = h p) \<and> tree (Suc n) h' {p. h' p \<noteq> None \<and> h p = None} x"
proof -
  have "arena.state_ok malloc \<lparr>ps_arena = a, ps_heap = h\<rparr>"
    unfolding arena.state_ok_def using assms(4-6) by simp
  from arena.schema_parse_tree [OF assms(1-3) this] obtain x st' where
    r: "oas_schema_parse (Suc n) yy (oas_arena_alloc malloc) v \<lparr>ps_arena = a, ps_heap = h\<rparr> = Some (x, st')"
    and g: "arena.grows malloc \<lparr>ps_arena = a, ps_heap = h\<rparr> st'"
    and t: "tree (Suc n) (ps_heap st') (arena.fresh \<lparr>ps_arena = a, ps_heap = h\<rparr> st') x" .
  show ?thesis
    using r g t by (intro exI [of _ x] exI [of _ "ps_arena st'"] exI [of _ "ps_heap st'"])
      (simp add: arena.grows_def arena.fresh_def)
qed

definition small_arena :: oas_arena where
  "small_arena = the (oas_arena_create sample_malloc 65536)"

lemma small_arena:
  "oas_arena_create sample_malloc 65536 = Some small_arena" "arena_inv sample_malloc small_arena"
proof -
  show c: "oas_arena_create sample_malloc 65536 = Some small_arena"
    by (simp add: small_arena_def oas_arena_create_def oas_arena_block_create_def sample_malloc_def sizeof_arena_block_def)
  show "arena_inv sample_malloc small_arena" using arena_create_inv [OF sample_malloc_ok _ c] by simp
qed

definition array_schema :: json where
  "array_schema = JObj [(''type'', JStr ''array''), (''items'', JObj [(''required'', JArr [JStr ''a''])])]"

lemma array_schema_ok: "well_named array_schema" "size array_schema \<le> 100"
  by (simp_all add: array_schema_def names_at_def dependents_at_def)

theorem schema_parse_builds_tree_witness:
  "\<exists>x a' h'. oas_schema_parse 101 sample_yyjson (oas_arena_alloc sample_malloc) array_schema
      \<lparr>ps_arena = small_arena, ps_heap = Map.empty\<rparr> = Some (x, \<lparr>ps_arena = a', ps_heap = h'\<rparr>) \<and>
    tree 101 h' (dom h') x"
  using schema_parse_builds_tree [OF sample_yyjson_ok(1) array_schema_ok sample_malloc_ok small_arena(2), of Map.empty]
  by (simp add: dom_def)

text \<open>
  Parsed schemas compile: \<open>oas_schema_compile\<close> comes back, with a program or with a null
  pointer, from every schema \<open>oas_schema_parse\<close> returns, as long as nothing has been written to
  it in between; the divergence on cyclic schemas is the work of the reference resolver.
\<close>

theorem parsed_schema_compile_returns:
  assumes "yy_obj_get_ok yy" and "well_named v" and "size v \<le> n"
    and "malloc_ok malloc" and "arena_inv malloc a" and "\<And>p. h p \<noteq> None \<Longrightarrow> unat p \<in> arena_taken a"
    and "oas_schema_parse (Suc n) yy (oas_arena_alloc malloc) v \<lparr>ps_arena = a, ps_heap = h\<rparr> = Some (x, st')"
    and "ce_heap env = ps_heap st'"
  shows "oas_schema_compile (Suc n) env ok x errors \<noteq> None"
proof (rule returns_compile, rule tree_compiles)
  have "arena.state_ok malloc \<lparr>ps_arena = a, ps_heap = h\<rparr>"
    unfolding arena.state_ok_def using assms(4-6) by simp
  from arena.schema_parse_tree [OF assms(1-3) this] show
    "tree (Suc n) (ce_heap env) (arena.fresh \<lparr>ps_arena = a, ps_heap = h\<rparr> st') x"
    using assms(7,8) by (metis Pair_inject option.inject)
qed

theorem parsed_schema_compile_returns_witness:
  "\<exists>x st'. oas_schema_parse 101 sample_yyjson (oas_arena_alloc sample_malloc) array_schema
      \<lparr>ps_arena = small_arena, ps_heap = Map.empty\<rparr> = Some (x, st') \<and>
    oas_schema_compile 101 \<lparr>ce_heap = ps_heap st', ce_config = (None :: unit oas_compiler_config option),
      ce_report = (\<lambda>e m. e), ce_mem_code = (\<lambda>n. True), ce_mem_patterns = (\<lambda>n. True)\<rparr> True x (None :: unit option) \<noteq> None"
proof -
  have e: "\<And>p. (Map.empty :: schema_heap) p \<noteq> None \<Longrightarrow> unat p \<in> arena_taken small_arena" by simp
  have s: "arena.state_ok sample_malloc \<lparr>ps_arena = small_arena, ps_heap = Map.empty\<rparr>"
    unfolding arena.state_ok_def using sample_malloc_ok small_arena(2) by simp
  obtain x st' where r: "oas_schema_parse (Suc 100) sample_yyjson (oas_arena_alloc sample_malloc) array_schema
      \<lparr>ps_arena = small_arena, ps_heap = Map.empty\<rparr> = Some (x, st')"
    using arena.schema_parse_tree [OF sample_yyjson_ok(1) array_schema_ok s] by blast
  let ?env = "\<lparr>ce_heap = ps_heap st', ce_config = (None :: unit oas_compiler_config option),
      ce_report = (\<lambda>(e :: unit) m. e), ce_mem_code = (\<lambda>n. True), ce_mem_patterns = (\<lambda>n. True)\<rparr>"
  have "ce_heap ?env = ps_heap st'" by simp
  from parsed_schema_compile_returns [OF sample_yyjson_ok(1) array_schema_ok sample_malloc_ok small_arena(2) e r this]
  show ?thesis using r by (simp only: eval_nat_numeral) blast
qed

text \<open>
  A boolean where a keyword takes a schema is dropped, \<open>false\<close> as well as \<open>true\<close>: the schema
  \<open>{"items": false}\<close>, which only the empty array satisfies, is parsed as \<open>{}\<close>.
\<close>

theorem boolean_schema_dropped:
  assumes "yy_obj_get_ok yy"
  shows "oas_schema_parse n yy alloc (JObj [(''items'', JBool b)]) st = oas_schema_parse n yy alloc (JObj []) st"
proof -
  have g: "yy_obj_get yy (JObj [(''items'', JBool b)]) k = (if k = ''items'' then Some (JBool b) else None)"
    "yy_obj_get yy (JObj []) k = None" for k
    using assms by (auto simp: yy_obj_get_ok_def)
  let ?v = "JObj [(''items'', JBool b)]"
  have k: "k \<noteq> ''items'' \<Longrightarrow> on_key yy ?v k get f = on_key yy (JObj []) k get f" for k get and f :: "'x \<Rightarrow> _"
    by (simp add: on_key_def g fun_eq_iff)
  have c: "parse_child yy rec ?v k p f = parse_child yy rec (JObj []) k p f" for rec k p f
    by (simp add: parse_child_def g fun_eq_iff)
  have a: "arr_of yy ?v k = arr_of yy (JObj []) k" "obj_of yy ?v k = obj_of yy (JObj []) k" for k
    by (simp_all add: arr_of_def obj_of_def g)
  have r: "parse_schema_array yy alloc rec ?v k p f = parse_schema_array yy alloc rec (JObj []) k p f"
    "parse_required yy alloc ?v p = parse_required yy alloc (JObj []) p"
    "parse_pattern_properties yy alloc rec ?v p = parse_pattern_properties yy alloc rec (JObj []) p"
    "parse_dependent_schemas yy alloc rec ?v p = parse_dependent_schemas yy alloc rec (JObj []) p"
    "parse_dependent_required yy alloc ?v p = parse_dependent_required yy alloc (JObj []) p" for rec k p f
    by (simp_all add: fun_eq_iff parse_schema_array_def parse_required_def parse_pattern_properties_def
        parse_dependent_schemas_def parse_dependent_required_def a)
  have d: "parse_additional yy alloc rec ?v p = parse_additional yy alloc rec (JObj []) p"
    "parse_discriminator yy alloc ?v p = parse_discriminator yy alloc (JObj []) p" for rec p
    by (simp_all add: fun_eq_iff parse_additional_def parse_discriminator_def g)
  have s: "parse_annotations yy ?v = parse_annotations yy (JObj [])"
    "parse_string_constraints yy ?v = parse_string_constraints yy (JObj [])"
    "parse_numeric_constraints yy ?v = parse_numeric_constraints yy (JObj [])"
    "parse_flags yy ?v = parse_flags yy (JObj [])"
    by (simp_all add: fun_eq_iff parse_annotations_def parse_string_constraints_def parse_numeric_constraints_def
        parse_flags_def k)
  have "parse_node yy alloc rec ?v p = parse_node yy alloc rec (JObj []) p" for rec p
    unfolding parse_node_def parse_array_constraints_def parse_object_constraints_def parse_composition_def
      parse_conditional_def parse_unevaluated_def s c r d a by (simp add: k)
  then have e: "parse_node yy alloc rec ?v = parse_node yy alloc rec (JObj [])" for rec by (rule ext)
  show ?thesis by (cases n) (simp_all add: e cong: option.case_cong prod.case_cong)
qed

theorem boolean_schema_dropped_witness:
  "\<forall>st. oas_schema_parse 3 sample_yyjson (oas_arena_alloc sample_malloc) (JObj [(''items'', JBool False)]) st =
     oas_schema_parse 3 sample_yyjson (oas_arena_alloc sample_malloc) (JObj []) st"
  by (intro allI) (rule boolean_schema_dropped [OF sample_yyjson_ok(1)])

end
