(* ===== verification/Liboas_Ref_Link.thy ===== *)
theory Liboas_Ref_Link
  imports Liboas_Ref_Spec Liboas_Schema_Tree
begin

text \<open>
  Linking the references of a document: which nodes the walk of the resolver reaches, what it
  leaves in them, and when the schema compiler comes back from the result.
\<close>

section \<open>The walk\<close>

definition ref_target :: "oas_doc \<Rightarrow> oas_schema \<Rightarrow> sref option" where
  "ref_target doc s = Option.bind (s_ref s) (component_target doc)"

text \<open>
  The nodes the walk comes to: it does not go on below a reference to a component, and of the
  sub-schemas it knows those of \<open>walked\<close>.
\<close>

inductive walk_reaches :: "oas_doc \<Rightarrow> schema_heap \<Rightarrow> sref option \<Rightarrow> sref \<Rightarrow> bool" for doc h where
  reach_here: "h p = Some s \<Longrightarrow> walk_reaches doc h (Some p) p"
| reach_down: "h p = Some s \<Longrightarrow> ref_target doc s = None \<Longrightarrow> y \<in> set (walked s) \<Longrightarrow> walk_reaches doc h y q \<Longrightarrow>
    walk_reaches doc h (Some p) q"

inductive_cases walk_reachesE: "walk_reaches doc h (Some p) q"

inductive_simps walk_reaches_None [simp]: "walk_reaches doc h None q"

text \<open>The walk goes at most \<open>n\<close> deep.\<close>

primrec walk_depth :: "oas_doc \<Rightarrow> schema_heap \<Rightarrow> nat \<Rightarrow> sref option \<Rightarrow> bool" where
  "walk_depth doc h 0 x \<longleftrightarrow> x = None"
| "walk_depth doc h (Suc n) x \<longleftrightarrow>
     (\<forall>p. x = Some p \<longrightarrow> (\<exists>s. h p = Some s \<and> (ref_target doc s = None \<longrightarrow> (\<forall>y \<in> set (walked s). walk_depth doc h n y))))"

text \<open>Every reference on the walk names a component.\<close>

definition component_refs :: "oas_doc \<Rightarrow> schema_heap \<Rightarrow> sref option \<Rightarrow> bool" where
  "component_refs doc h x \<longleftrightarrow>
     (\<forall>p s. walk_reaches doc h x p \<and> h p = Some s \<and> s_ref s \<noteq> None \<longrightarrow> ref_target doc s \<noteq> None)"

text \<open>The nodes of \<open>R\<close> with their references linked.\<close>

definition linked :: "oas_doc \<Rightarrow> oas_schema \<Rightarrow> oas_schema" where
  "linked doc s = (case ref_target doc s of None \<Rightarrow> s | Some q \<Rightarrow> s\<lparr>s_ref_resolved := Some q\<rparr>)"

definition link_all :: "oas_doc \<Rightarrow> sref set \<Rightarrow> schema_heap \<Rightarrow> schema_heap" where
  "link_all doc R h = (\<lambda>p. map_option (\<lambda>s. if p \<in> R then linked doc s else s) (h p))"

lemma linked_fields [simp]:
  "s_ref (linked doc s) = s_ref s" "walked (linked doc s) = walked s" "ref_target doc (linked doc s) = ref_target doc s"
  by (simp_all add: linked_def walked_def ref_target_def split: option.split)

lemma linked_linked [simp]: "linked doc (linked doc s) = linked doc s"
  unfolding linked_def [of doc "linked doc s"] linked_fields by (simp add: linked_def split: option.split)

lemma link_all_Some:
  assumes "h p = Some s"
  obtains s' where "link_all doc R h p = Some s'" "s_ref s' = s_ref s" "walked s' = walked s"
    "ref_target doc s' = ref_target doc s" "linked doc s' = linked doc s"
  using that [of "if p \<in> R then linked doc s else s"] assms by (simp add: link_all_def)

lemma link_all_insert:
  assumes "h p = Some s"
  shows "(link_all doc R h)(p \<mapsto> linked doc s) = link_all doc (insert p R) h"
  using assms by (auto simp: link_all_def fun_eq_iff)

lemma link_all_same:
  assumes "ref_target doc s = None" and "h p = Some s"
  shows "link_all doc (insert p R) h = link_all doc R h"
proof
  fix x
  have "linked doc s = s" using assms(1) by (simp add: linked_def)
  then show "link_all doc (insert p R) h x = link_all doc R h x"
    using assms(2) by (cases "x = p") (simp_all add: link_all_def)
qed

definition reached_from :: "oas_doc \<Rightarrow> schema_heap \<Rightarrow> sref option \<Rightarrow> sref set" where
  "reached_from doc h x = {p. walk_reaches doc h x p}"

lemma reached_from_simps:
  "reached_from doc h None = {}"
  "h p = Some s \<Longrightarrow> ref_target doc s \<noteq> None \<Longrightarrow> reached_from doc h (Some p) = {p}"
  "h p = Some s \<Longrightarrow> ref_target doc s = None \<Longrightarrow>
     reached_from doc h (Some p) = insert p (\<Union>y \<in> set (walked s). reached_from doc h y)"
  by (auto simp: reached_from_def intro: walk_reaches.intros elim!: walk_reachesE)

lemma component_refs_down:
  assumes "component_refs doc h (Some p)" and "h p = Some s" and "ref_target doc s = None" and "y \<in> set (walked s)"
  shows "component_refs doc h y"
  using assms(1) reach_down [where doc = doc and h = h, OF assms(2-4)] unfolding component_refs_def by blast

lemma resolve_each_links:
  assumes "\<And>y R st. y \<in> set ys \<Longrightarrow> rx_schemas st = link_all doc R h \<Longrightarrow>
      f y st = Some (None, st\<lparr>rx_schemas := link_all doc (R \<union> X y) h\<rparr>)"
  shows "rx_schemas st = link_all doc R h \<Longrightarrow>
    resolve_each f ys st = Some (None, st\<lparr>rx_schemas := link_all doc (R \<union> (\<Union>y \<in> set ys. X y)) h\<rparr>)"
  using assms
proof (induction ys arbitrary: st R)
  case (Cons y ys)
  let ?st = "st\<lparr>rx_schemas := link_all doc (R \<union> X y) h\<rparr>"
  have "resolve_each f ys ?st = Some (None, ?st\<lparr>rx_schemas := link_all doc ((R \<union> X y) \<union> (\<Union>y \<in> set ys. X y)) h\<rparr>)"
    by (rule Cons.IH) (simp_all add: Cons.prems(2))
  then show ?case using Cons.prems by (simp add: Un_assoc)
qed simp

lemma resolve_schema_links:
  "walk_depth doc h n x \<Longrightarrow> component_refs doc h x \<Longrightarrow> rx_schemas st = link_all doc R h \<Longrightarrow>
    resolve_schema_refs (Suc n) depth env doc x st =
      Some (None, st\<lparr>rx_schemas := link_all doc (R \<union> reached_from doc h x) h\<rparr>)"
proof (induction n arbitrary: x st R)
  case 0
  then show ?case by (simp add: reached_from_simps)
next
  case (Suc n)
  show ?case
  proof (cases x)
    case None
    then show ?thesis using Suc.prems(3) by (simp add: reached_from_simps)
  next
    case (Some p)
    obtain s where s: "h p = Some s" "ref_target doc s = None \<Longrightarrow> \<forall>y \<in> set (walked s). walk_depth doc h n y"
      using Suc.prems(1) Some by auto
    obtain s' where s': "rx_schemas st p = Some s'" "s_ref s' = s_ref s" "walked s' = walked s"
        "ref_target doc s' = ref_target doc s" "linked doc s' = linked doc s"
      using link_all_Some [where h = h and R = R and doc = doc, OF s(1)] Suc.prems(3) by metis
    have t: "Option.bind (s_ref s) (component_target doc) = ref_target doc s" by (simp add: ref_target_def)
    show ?thesis
    proof (cases "ref_target doc s")
      case None
      then have r: "s_ref s = None"
        using Suc.prems(2) s(1) reach_here [of h p s doc] Some unfolding component_refs_def by blast
      have down: "component_refs doc h y" if "y \<in> set (walked s)" for y
        by (rule component_refs_down [where p = p and s = s]) (use Suc.prems(2) Some s(1) None that in simp_all)
      have "resolve_each (resolve_schema_refs (Suc n) depth env doc) (walked s) st =
          Some (None, st\<lparr>rx_schemas := link_all doc (R \<union> (\<Union>y \<in> set (walked s). reached_from doc h y)) h\<rparr>)"
        using s(2) [OF None] down
        by (intro resolve_each_links Suc.IH Suc.prems(3)) auto
      moreover have "link_all doc (R \<union> reached_from doc h (Some p)) h =
          link_all doc (R \<union> (\<Union>y \<in> set (walked s). reached_from doc h y)) h"
        using link_all_same [where h = h and p = p, OF None s(1)] by (simp add: reached_from_simps(3) [where h = h and p = p, OF s(1) None])
      ultimately show ?thesis
        by (subst resolve_schema_refs.simps) (simp add: Some s' r t None del: resolve_schema_refs.simps)
    next
      case (Some q)
      then have "linked doc s' = s'\<lparr>s_ref_resolved := Some q\<rparr>" using s'(4) by (simp add: linked_def)
      then have "(rx_schemas st)(p \<mapsto> s'\<lparr>s_ref_resolved := Some q\<rparr>) = link_all doc (insert p R) h"
        using link_all_insert [where h = h and doc = doc and R = R, OF s(1)] s'(5) Suc.prems(3) by simp
      then show ?thesis using Some s' \<open>x = Some p\<close>
        by (simp add: t link_ref_def reached_from_simps(2) [where h = h and p = p, OF s(1)])
    qed
  qed
qed


lemma link_all_empty [simp]: "link_all doc {} h = h"
  by (simp add: link_all_def fun_eq_iff option.map_ident)

lemma resolve_all_links:
  assumes "\<And>x. x \<in> set (doc_schemas doc) \<Longrightarrow> walk_depth doc (rx_schemas st) n x \<and> component_refs doc (rx_schemas st) x"
  shows "oas_ref_resolve_all (Suc n) depth env (Some doc) (Some st) =
    Some (None, Some (st\<lparr>rx_schemas :=
      link_all doc (\<Union>x \<in> set (doc_schemas doc). reached_from doc (rx_schemas st) x) (rx_schemas st)\<rparr>))"
proof -
  have "resolve_each (resolve_schema_refs (Suc n) depth env doc) (doc_schemas doc) st =
      Some (None, st\<lparr>rx_schemas :=
        link_all doc ({} \<union> (\<Union>x \<in> set (doc_schemas doc). reached_from doc (rx_schemas st) x)) (rx_schemas st)\<rparr>)"
  proof (rule resolve_each_links)
    show "resolve_schema_refs (Suc n) depth env doc y st' =
        Some (None, st'\<lparr>rx_schemas := link_all doc (R \<union> reached_from doc (rx_schemas st) y) (rx_schemas st)\<rparr>)"
      if "y \<in> set (doc_schemas doc)" "rx_schemas st' = link_all doc R (rx_schemas st)" for y R st'
      using assms [OF that(1)] that(2) by (intro resolve_schema_links) simp_all
  qed simp
  then show ?thesis by (simp add: oas_ref_resolve_all_def del: resolve_schema_refs.simps)
qed

section \<open>Compiling what was linked\<close>

lemma walked_children:
  assumes "y \<in> set (walked s)" and "s_ref_resolved s = None"
  shows "y = None \<or> y \<in> children s"
  using assms by (auto simp: walked_def child_fields)

lemma tree_walk_depth: "tree n h A x \<Longrightarrow> walk_depth doc h n x"
proof (induction n arbitrary: x)
  case (Suc n)
  show ?case
  proof (cases x)
    case (Some p)
    then obtain s where s: "h p = Some s" "s_ref_resolved s = None" "\<forall>y \<in> children s. tree n h A y"
      using Suc.prems by auto
    then have "walk_depth doc h n y" if "y \<in> set (walked s)" for y
      using walked_children [OF that s(2)] Suc.IH by (cases "y = None") auto
    then show ?thesis using s(1) Some by auto
  qed simp
qed simp

text \<open>References between components run down a rank that is constant or smaller below a node.\<close>

definition acyclic_refs :: "oas_doc \<Rightarrow> schema_heap \<Rightarrow> (sref \<Rightarrow> nat) \<Rightarrow> bool" where
  "acyclic_refs doc h rank \<longleftrightarrow>
     (\<forall>p s. h p = Some s \<longrightarrow> (\<forall>c. Some c \<in> children s \<longrightarrow> rank c \<le> rank p) \<and>
       (\<forall>q. ref_target doc s = Some q \<longrightarrow> rank q < rank p))"

lemma target_is_component:
  assumes "ref_target doc s = Some q"
  shows "Some q \<in> set (doc_schemas doc)"
proof -
  obtain ref where "component_target doc ref = Some q" using assms by (auto simp: ref_target_def bind_eq_Some_conv)
  then obtain nm where "find_component_schema doc nm = Some q"
    by (auto simp: component_target_def Let_def split: if_splits)
  then obtain c where "d_components doc = Some c" "map_of (co_schemas c) nm = Some (Some q)"
    by (auto simp: find_component_schema_def split: option.splits)
  then have "(nm, Some q) \<in> set (co_schemas c)" by (simp add: map_of_SomeD)
  then have "Some q \<in> snd ` set (co_schemas c)" by (metis imageI snd_conv)
  then show ?thesis using \<open>d_components doc = Some c\<close> by (simp add: doc_schemas_def component_schemas_def)
qed

lemma linked_compiles:
  assumes trees: "\<And>x. x \<in> set (doc_schemas doc) \<Longrightarrow> tree n h A x"
    and rank: "acyclic_refs doc h rank" and heap: "ce_heap env = link_all doc R h"
    and x: "\<And>p. x = Some p \<Longrightarrow> rank p * Suc n + n \<le> m" "tree n h A x"
  shows "returns (compile_schema m env x)"
proof (rule compile_schema_returns_by [where
      G = "\<lambda>m x. \<forall>p. x = Some p \<longrightarrow> (\<exists>k \<le> n. tree k h A x \<and> rank p * Suc n + k \<le> m)"])
  show "y = None" if "\<forall>p. y = Some p \<longrightarrow> (\<exists>k \<le> n. tree k h A y \<and> rank p * Suc n + k \<le> 0)" for y
  proof (cases y)
    case (Some p)
    then have "tree 0 h A y" using that by auto
    then show ?thesis by simp
  qed simp
next
  fix m p
  assume "\<forall>q. Some p = Some q \<longrightarrow> (\<exists>k \<le> n. tree k h A (Some p) \<and> rank q * Suc n + k \<le> Suc m)"
  then obtain k where k: "k \<le> n" "tree k h A (Some p)" "rank p * Suc n + k \<le> Suc m" by blast
  then obtain j where j: "k = Suc j" by (cases k) auto
  then obtain s where s: "h p = Some s" "s_ref_resolved s = None" "\<forall>y \<in> children s. tree j h A y" using k(2) by auto
  have r: "Some c \<in> children s \<Longrightarrow> rank c \<le> rank p" "ref_target doc s = Some q \<Longrightarrow> rank q < rank p" for c q
    using rank s(1) unfolding acyclic_refs_def by blast+
  define s' where "s' = (if p \<in> R then linked doc s else s)"
  have h: "ce_heap env p = Some s'" using s(1) by (simp add: heap link_all_def s'_def)
  have "\<exists>i \<le> n. tree i h A (Some q) \<and> rank q * Suc n + i \<le> m" if "Some q \<in> followed s'" for q
  proof (cases "s' = s")
    case True
    then have c: "Some q \<in> children s" using that by (simp add: children_def)
    have "rank q * Suc n \<le> rank p * Suc n" using r(1) [OF c] by (rule mult_le_mono1)
    then show ?thesis using s(3) c k(1,3) j by (intro exI [of _ j]) auto
  next
    case False
    then have q: "ref_target doc s = Some q"
      using that s(2) by (auto simp: s'_def linked_def followed_def split: if_splits option.splits)
    have "Suc (rank q) * Suc n \<le> rank p * Suc n" using r(2) [OF q] by (intro mult_le_mono1) simp
    then show ?thesis using trees [OF target_is_component [OF q]] k(3) j by (intro exI [of _ n]) simp
  qed
  then show "\<exists>s. ce_heap env p = Some s \<and>
      (\<forall>y \<in> followed s. \<forall>q. y = Some q \<longrightarrow> (\<exists>i \<le> n. tree i h A y \<and> rank q * Suc n + i \<le> m))"
    using h by blast
qed (use x in auto)

section \<open>Properties\<close>


definition chain_heap :: schema_heap where
  "chain_heap = [8 \<mapsto> oas_schema_fresh\<lparr>s_ref := Some ''#/components/schemas/B''\<rparr>, 16 \<mapsto> oas_schema_fresh,
     24 \<mapsto> oas_schema_fresh\<lparr>s_contains := Some 8\<rparr>]"

definition chain_doc :: oas_doc where
  "chain_doc = \<lparr>d_openapi = None, d_info = None, d_servers = [], d_paths = [],
     d_components = Some \<lparr>co_schemas = [(''A'', Some 24), (''B'', Some 16)], co_security_schemes = [], co_comp_responses = [],
       co_parameters = [], co_request_bodies = [], co_headers = []\<rparr>,
     d_security = [], d_tags = [], d_json_doc = None\<rparr>"

lemma chain_fields:
  "walked oas_schema_fresh = [None, None, None, None, None, None]" "s_ref oas_schema_fresh = None"
  "walked (oas_schema_fresh\<lparr>s_contains := x\<rparr>) = [None, None, None, None, None, None]"
  "s_ref (oas_schema_fresh\<lparr>s_contains := x\<rparr>) = None"
  by (simp_all add: walked_def oas_schema_fresh_def)

lemma chain_schemas: "doc_schemas chain_doc = [Some 24, Some 16]"
  by (simp add: doc_schemas_def chain_doc_def component_schemas_def)

lemma chain_at:
  "chain_heap 8 = Some (oas_schema_fresh\<lparr>s_ref := Some ''#/components/schemas/B''\<rparr>)"
  "chain_heap 16 = Some oas_schema_fresh" "chain_heap 24 = Some (oas_schema_fresh\<lparr>s_contains := Some 8\<rparr>)"
  by (simp_all add: chain_heap_def)

lemma chain_reaches:
  assumes "x \<in> {Some 24, Some 16}"
  shows "walk_reaches doc chain_heap x p \<longleftrightarrow> x = Some p"
proof -
  have n: "set (walked s) \<subseteq> {None} \<Longrightarrow> chain_heap q = Some s \<Longrightarrow> walk_reaches doc chain_heap (Some q) p \<longleftrightarrow> q = p" for q s
    by (auto elim!: walk_reachesE intro: reach_here)
  show ?thesis using assms n [OF _ chain_at(2)] n [OF _ chain_at(3)] by (auto simp: chain_fields)
qed

lemma chain_component_refs: "x \<in> set (doc_schemas chain_doc) \<Longrightarrow> component_refs chain_doc chain_heap x"
  using chain_reaches [of x chain_doc] by (auto simp: chain_schemas component_refs_def chain_at chain_fields)


text \<open>
  Parsing, resolving and compiling compose: if the document's schemas are trees as the
  parser builds them, all references name components, and no component reaches itself through
  references, then after \<open>oas_ref_resolve_all\<close> the schema compiler comes back, with a program or
  an error, from every schema of the document.
\<close>

theorem acyclic_components_compile:
  assumes "\<And>x. x \<in> set (doc_schemas doc) \<Longrightarrow> tree n (rx_schemas st) A x"
    and "\<And>x. x \<in> set (doc_schemas doc) \<Longrightarrow> component_refs doc (rx_schemas st) x"
    and "acyclic_refs doc (rx_schemas st) rank"
  shows "\<exists>st'. oas_ref_resolve_all (Suc n) depth renv (Some doc) (Some st) = Some (None, Some st') \<and>
    (\<forall>p env. Some p \<in> set (doc_schemas doc) \<and> ce_heap env = rx_schemas st' \<longrightarrow>
      oas_schema_compile (rank p * Suc n + n) env ok (Some p) errors \<noteq> None)"
proof (intro exI conjI allI impI)
  let ?R = "\<Union>x \<in> set (doc_schemas doc). reached_from doc (rx_schemas st) x"
  let ?st = "st\<lparr>rx_schemas := link_all doc ?R (rx_schemas st)\<rparr>"
  show "oas_ref_resolve_all (Suc n) depth renv (Some doc) (Some st) = Some (None, Some ?st)"
    using assms(1,2) by (intro resolve_all_links) (auto intro: tree_walk_depth)
  show "oas_schema_compile (rank p * Suc n + n) env ok (Some p) errors \<noteq> None"
    if "Some p \<in> set (doc_schemas doc) \<and> ce_heap env = rx_schemas ?st" for p env
    using that assms(1) by (intro returns_compile linked_compiles [OF assms(1) assms(3)]) auto
qed

theorem acyclic_components_compile_witness:
  "\<exists>st'. oas_ref_resolve_all 3 65 sample_env (Some chain_doc) (Some (sample_state\<lparr>rx_schemas := chain_heap\<rparr>)) =
      Some (None, Some st') \<and>
    oas_schema_compile 5 \<lparr>ce_heap = rx_schemas st', ce_config = (None :: unit oas_compiler_config option),
      ce_report = (\<lambda>(e :: unit) m. e), ce_mem_code = (\<lambda>n. True), ce_mem_patterns = (\<lambda>n. True)\<rparr> True (Some 24) None \<noteq> None"
proof -
  let ?st = "sample_state\<lparr>rx_schemas := chain_heap\<rparr>" and ?rank = "\<lambda>p. if p = 16 then 0 else (1 :: nat)"
  have f: "children oas_schema_fresh = {None}" "children (oas_schema_fresh\<lparr>s_contains := Some 8\<rparr>) = {None, Some 8}"
    "children (oas_schema_fresh\<lparr>s_ref := r\<rparr>) = {None}" "s_ref_resolved oas_schema_fresh = None"
    "s_ref_resolved (oas_schema_fresh\<lparr>s_contains := Some 8\<rparr>) = None" "s_ref_resolved (oas_schema_fresh\<lparr>s_ref := r\<rparr>) = None" for r
    by (auto simp: child_fields oas_schema_fresh_def)
  have "tree (Suc (Suc 0)) (rx_schemas ?st) {8, 16, 24} x" if "x \<in> set (doc_schemas chain_doc)" for x
    using that by (auto simp: chain_schemas chain_at f)
  then have t: "tree 2 (rx_schemas ?st) {8, 16, 24} x" if "x \<in> set (doc_schemas chain_doc)" for x
    using that by (simp only: Suc_1 One_nat_def [symmetric])
  have c: "component_refs chain_doc (rx_schemas ?st) x" if "x \<in> set (doc_schemas chain_doc)" for x
    using chain_component_refs [OF that] by simp
  have a: "acyclic_refs chain_doc (rx_schemas ?st) ?rank"
    by (auto simp: acyclic_refs_def chain_heap_def f chain_fields ref_target_def component_target_def Let_def component_prefix_def
        oas_jsonptr_from_ref_def find_component_schema_def chain_doc_def split: if_splits)
  from acyclic_components_compile [OF t c a, where depth = 65 and renv = sample_env and ok = True and errors = "None :: unit option"] obtain st' where
    a: "oas_ref_resolve_all (Suc 2) 65 sample_env (Some chain_doc) (Some ?st) = Some (None, Some st')"
    and r: "\<forall>p (env :: (unit, unit) compile_env). Some p \<in> set (doc_schemas chain_doc) \<and> ce_heap env = rx_schemas st' \<longrightarrow>
      oas_schema_compile (?rank p * Suc 2 + 2) env True (Some p) (None :: unit option) \<noteq> None" by blast
  have "oas_schema_compile (5) \<lparr>ce_heap = rx_schemas st', ce_config = (None :: unit oas_compiler_config option),
      ce_report = (\<lambda>(e :: unit) m. e), ce_mem_code = (\<lambda>n. True), ce_mem_patterns = (\<lambda>n. True)\<rparr> True (Some 24) None \<noteq> None"
    using r [THEN spec, of 24] by (simp add: chain_schemas)
  then show ?thesis using a by (intro exI [of _ st']) simp
qed

end
