(* ===== verification/Liboas_Doc_Build.thy ===== *)
theory Liboas_Doc_Build
  imports Liboas_Doc_Parser Liboas_Ref_Link
begin

text \<open>
  What the document parser builds: it comes back from every root whose name lists hold strings,
  and every schema below the document is a finite tree of nodes of its own, so that resolving
  and compiling can go on from there.
\<close>

section \<open>Values below the root\<close>

lemma below_at:
  assumes "yy_obj_get_ok yy" and "below N v" and "yy_obj_get yy v k = Some x"
  shows "below N x"
  using below_key [OF assms(1) _ assms(3), of N] assms(2) by (auto simp: below_def)

lemma below_obj_at: "yy_obj_get_ok yy \<Longrightarrow> below N v \<Longrightarrow> obj_at yy v k = Some x \<Longrightarrow> below N x"
  by (auto simp: obj_at_def only_if_def bind_eq_Some_conv split: if_splits intro: below_at)

lemma below_elems:
  assumes "yy_obj_get_ok yy" and "below N v"
  shows "length (elems_at yy v k) < 2 ^ 56" and "\<forall>x \<in> set (elems_at yy v k). below N x"
proof -
  have "elems_at yy v k = [] \<or> (\<exists>vs. yy_obj_get yy v k = Some (JArr vs) \<and> elems_at yy v k = vs)"
    by (auto simp: elems_at_def arr_of_def split: option.splits json.splits)
  then show "length (elems_at yy v k) < 2 ^ 56" and "\<forall>x \<in> set (elems_at yy v k). below N x"
    using below_at [OF assms] below_arr by (metis length_0_conv zero_less_numeral zero_less_power, metis empty_iff empty_set)
qed

lemma below_pairs:
  assumes "yy_obj_get_ok yy" and "below N v"
  shows "length (pairs_at yy v k) < 2 ^ 56" and "\<forall>kv \<in> set (pairs_at yy v k). below N (snd kv)"
proof -
  have "pairs_at yy v k = [] \<or> (\<exists>kvs. yy_obj_get yy v k = Some (JObj kvs) \<and> pairs_at yy v k = kvs)"
    by (auto simp: pairs_at_def obj_of_def split: option.splits json.splits)
  then show "length (pairs_at yy v k) < 2 ^ 56" and "\<forall>kv \<in> set (pairs_at yy v k). below N (snd kv)"
    using below_at [OF assms] below_obj by fastforce+
qed

lemma tree_le: "tree m h A x \<Longrightarrow> m \<le> n \<Longrightarrow> tree n h A x"
  by (induction n) (auto simp: le_Suc_eq intro: tree_Suc simp del: tree.simps)

lemma struct_request:
  assumes "sz < 2 ^ 16"
  shows "request_ok (of_nat sz) 8"
proof -
  have "unat (of_nat sz :: u64) = sz"
    unfolding unsigned_of_nat of_nat_id by (rule take_bit_nat_eq_self) (use assms in simp)
  then show ?thesis using assms by (simp add: request_ok_def)
qed

text \<open>The schemas in a list of pointers.\<close>

definition some_of :: "sref option list \<Rightarrow> sref set" where
  "some_of xs = {p. Some p \<in> set xs}"

lemma some_of_simps [simp]:
  "some_of [] = {}" "some_of (x # xs) = set_option x \<union> some_of xs"
  "some_of (xs @ ys) = some_of xs \<union> some_of ys" "some_of (concat xss) = (\<Union>xs \<in> set xss. some_of xs)"
  by (auto simp: some_of_def)

lemma some_of_map: "some_of (map f xs) = (\<Union>x \<in> set xs. set_option (f x))"
  by (force simp: some_of_def)

section \<open>Readers\<close>

context region_allocator
begin

text \<open>
  Grown from \<open>st0\<close>, with trees of new nodes below the roots in \<open>X\<close>; and a reader that comes
  back and leaves roots of such trees.
\<close>

definition grown :: "nat \<Rightarrow> 'a parse_state \<Rightarrow> sref set \<Rightarrow> 'a parse_state \<Rightarrow> bool" where
  "grown N st0 X st \<longleftrightarrow> grows st0 st \<and> (\<forall>p \<in> X. tree N (ps_heap st) (fresh st0 st) (Some p))"

definition reads :: "nat \<Rightarrow> sref set \<Rightarrow> ('x \<Rightarrow> sref set) \<Rightarrow> ('a, 'x) reader \<Rightarrow> bool" where
  "reads N X S rd \<longleftrightarrow> (\<forall>st0 st. grown N st0 X st \<longrightarrow> (\<exists>x st'. rd st = Some (x, st') \<and> grown N st0 (S x) st'))"

lemma readsI:
  "(\<And>st0 st. grown N st0 X st \<Longrightarrow> \<exists>x st'. rd st = Some (x, st') \<and> grown N st0 (S x) st') \<Longrightarrow> reads N X S rd"
  by (simp add: reads_def)

lemma readsE:
  assumes "reads N X S rd" and "grown N st0 X st"
  obtains x st' where "rd st = Some (x, st')" "grown N st0 (S x) st'"
  using assms unfolding reads_def by blast

lemma reads_bind:
  assumes "reads N X A rd" and "\<And>x. reads N (A x) S (f x)"
  shows "reads N X S (\<lambda>st. do { (x, st) \<leftarrow> rd st; f x st })"
proof (rule readsI)
  fix st0 st assume "grown N st0 X st"
  then obtain x st1 where x: "rd st = Some (x, st1)" "grown N st0 (A x) st1" by (rule readsE [OF assms(1)])
  obtain y st2 where "f x st1 = Some (y, st2)" "grown N st0 (S y) st2" by (rule readsE [OF assms(2) x(2)])
  then show "\<exists>y st'. (do { (x, st) \<leftarrow> rd st; f x st }) = Some (y, st') \<and> grown N st0 (S y) st'" using x(1) by simp
qed

lemma grown_mono: "grown N st0 X st \<Longrightarrow> Y \<subseteq> X \<Longrightarrow> grown N st0 Y st"
  by (auto simp: grown_def)

lemma reads_return: "S x \<subseteq> X \<Longrightarrow> reads N X S (\<lambda>st. Some (x, st))"
  by (auto simp: reads_def intro: grown_mono)

lemma reads_mono: "reads N X S rd \<Longrightarrow> X \<subseteq> Y \<Longrightarrow> (\<And>x. T x \<subseteq> S x) \<Longrightarrow> reads N Y T rd"
  unfolding reads_def by (meson grown_mono)

lemma grown_trans:
  assumes "grown N st0 X st" and "grown N st Y st'"
  shows "grown N st0 (X \<union> Y) st'"
proof -
  have k: "ps_heap st' p = ps_heap st p" if "ps_heap st p \<noteq> None" for p
    using assms(2) that by (simp add: grown_def grows_def)
  have "fresh st0 st \<subseteq> fresh st0 st'" using k by (auto simp: fresh_def)
  moreover have "fresh st st' \<subseteq> fresh st0 st'"
    using assms(1) by (auto simp: fresh_def grown_def grows_def)
  moreover have "ps_heap st' p = ps_heap st p" if "p \<in> fresh st0 st" for p using k that by (simp add: fresh_def)
  ultimately have "tree N (ps_heap st') (fresh st0 st') (Some p)" if "p \<in> X \<union> Y" for p
    using that assms unfolding grown_def
    by (elim UnE) (blast intro: tree_mono [where A = "fresh st0 st" and h = "ps_heap st"],
      blast intro: tree_mono [where A = "fresh st st'" and h = "ps_heap st'"])
  then show ?thesis using assms by (auto simp: grown_def intro: grows_trans simp del: tree.simps)
qed

text \<open>A reader started from nothing keeps what others have built.\<close>

lemma reads_frame: "reads N {} A rd \<Longrightarrow> reads N X (\<lambda>x. X \<union> A x) rd"
proof (rule readsI)
  fix st0 st assume r: "reads N {} A rd" and g: "grown N st0 X st"
  have "grown N st {} st" using g by (auto simp: grown_def grows_def)
  with r obtain x st' where "rd st = Some (x, st')" "grown N st (A x) st'" by (rule readsE)
  then show "\<exists>x st'. rd st = Some (x, st') \<and> grown N st0 (X \<union> A x) st'" using grown_trans [OF g] by blast
qed

lemma reads_then:
  assumes "reads N {} A rd" and "\<And>x. reads N (X \<union> A x) S (f x)"
  shows "reads N X S (\<lambda>st. do { (x, st) \<leftarrow> rd st; f x st })"
  by (rule reads_bind [OF reads_frame [OF assms(1)] assms(2)])

lemma grown_alloc:
  assumes "grown N st0 X st" and "request_ok k al" and "alloc (ps_arena st) k al = (r, a)"
  shows "grown N st0 X (st\<lparr>ps_arena := a\<rparr>)"
proof -
  have i: "inv (ps_arena st)" using assms(1) by (simp add: grown_def grows_def state_ok_def)
  have "inv a" using alloc_inv [OF i assms(2)] assms(3) by simp
  moreover have "taken (ps_arena st) \<subseteq> taken a"
    using alloc_fresh [OF i assms(2)] alloc_fail assms(3) by (cases r) fastforce+
  ultimately have "state_ok (st\<lparr>ps_arena := a\<rparr>)" using assms(1) by (auto simp: grown_def grows_def state_ok_def)
  moreover have "fresh st0 (st\<lparr>ps_arena := a\<rparr>) = fresh st0 st" by (simp add: fresh_def)
  ultimately show ?thesis using assms(1) by (simp add: grown_def grows_def)
qed

lemma reads_struct:
  assumes "sz < 2 ^ 16" and "reads N X S rd"
  shows "reads N X (\<lambda>x. case x of None \<Rightarrow> X | Some x \<Rightarrow> S x) (read_struct alloc sz rd)"
proof (rule readsI)
  fix st0 st assume g: "grown N st0 X st"
  obtain r a where r: "alloc (ps_arena st) (of_nat sz) 8 = (r, a)" by fastforce
  from grown_alloc [OF g struct_request [OF assms(1)] r] have g: "grown N st0 X (st\<lparr>ps_arena := a\<rparr>)" .
  obtain x st' where x: "rd (st\<lparr>ps_arena := a\<rparr>) = Some (x, st')" "grown N st0 (S x) st'" by (rule readsE [OF assms(2) g])
  show "\<exists>x st'. read_struct alloc sz rd st = Some (x, st') \<and> grown N st0 (case x of None \<Rightarrow> X | Some x \<Rightarrow> S x) st'"
  proof (cases r)
    case None
    then show ?thesis using r g by (intro exI [of _ None] exI [of _ "st\<lparr>ps_arena := a\<rparr>"]) (simp add: read_struct_def)
  next
    case (Some p)
    then show ?thesis using r x by (intro exI [of _ "Some x"] exI [of _ st']) (simp add: read_struct_def)
  qed
qed

lemma reads_maybe:
  assumes "\<And>x. v = Some x \<Longrightarrow> reads N {} A (rd x)" and "A None = {}"
  shows "reads N {} A (read_maybe rd v)"
  using assms by (cases v) (simp_all add: read_maybe_def reads_def)

lemma reads_each:
  assumes "\<And>v. v \<in> set vs \<Longrightarrow> reads N {} A (rd v)"
  shows "reads N {} (\<lambda>xs. \<Union>x \<in> set xs. A x) (read_each rd vs)"
  using assms
proof (induction vs)
  case (Cons v vs)
  have v: "reads N {} A (rd v)" using Cons.prems by simp
  have vs: "reads N X (\<lambda>xs. X \<union> (\<Union>x \<in> set xs. A x)) (read_each rd vs)" for X
    using Cons by (intro reads_frame) simp
  have e: "read_each rd (v # vs) = (\<lambda>st. do { (x, st) \<leftarrow> rd v st; (xs, st) \<leftarrow> read_each rd vs st; Some (x # xs, st) })"
    by (simp add: fun_eq_iff)
  show ?case unfolding e
    by (rule reads_then [OF v], rule reads_bind [OF vs], rule reads_return) auto
qed (simp add: reads_return reads_def)

lemma reads_array:
  assumes "length vs < 2 ^ 56" and "sz \<le> 24" and "\<And>v. v \<in> set vs \<Longrightarrow> reads N {} A (rd v)"
  shows "reads N {} (\<lambda>xs. \<Union>x \<in> set xs. A x) (read_array alloc sz rd vs)"
proof (rule readsI)
  fix st0 st assume g: "grown N st0 {} st"
  obtain r a where r: "alloc (ps_arena st) (of_nat sz * of_nat (length vs)) 8 = (r, a)" by fastforce
  have g': "grown N st0 {} (st\<lparr>ps_arena := a\<rparr>)" by (rule grown_alloc [OF g slots_request [OF assms(1,2)] r])
  obtain xs st' where e: "read_each rd vs (st\<lparr>ps_arena := a\<rparr>) = Some (xs, st')" "grown N st0 (\<Union>x \<in> set xs. A x) st'"
    by (rule readsE [OF reads_each [OF assms(3)] g'])
  show "\<exists>x st'. read_array alloc sz rd vs st = Some (x, st') \<and> grown N st0 (\<Union>x \<in> set x. A x) st'"
  proof (cases "vs = []")
    case True
    then show ?thesis using g by (simp add: read_array_def)
  next
    case False
    show ?thesis
    proof (cases r)
      case None
      then show ?thesis using g' r False
        by (intro exI [of _ "[]"] exI [of _ "st\<lparr>ps_arena := a\<rparr>"]) (simp add: read_array_def)
    next
      case (Some p)
      then show ?thesis using e r False by (intro exI [of _ xs] exI [of _ st']) (simp add: read_array_def)
    qed
  qed
qed

text \<open>Schemas, and the nodes and arrays of a document.\<close>

lemma reads_schema:
  assumes "yy_obj_get_ok yy" and "below n v"
  shows "reads (Suc n) {} set_option (read_schema yy alloc v)"
proof (rule readsI)
  fix st0 st assume g: "grown (Suc n) st0 {} st"
  then have "state_ok st" by (simp add: grown_def grows_def)
  then obtain x st' where x: "read_schema yy alloc v st = Some (x, st')" "grows st st'"
      "tree (Suc (size v)) (ps_heap st') (fresh st st') x"
    unfolding read_schema_def using schema_parse_tree [OF assms(1), of v "size v" st] assms(2) by (auto simp: below_def)
  have "tree (Suc n) (ps_heap st') (fresh st st') x" by (rule tree_le [OF x(3)]) (use assms(2) in \<open>auto simp: below_def\<close>)
  then have "grown (Suc n) st (set_option x) st'" using x(2) by (auto simp: grown_def simp del: tree.simps)
  from grown_trans [OF g this]
  show "\<exists>x st'. read_schema yy alloc v st = Some (x, st') \<and> grown (Suc n) st0 (set_option x) st'"
    using x(1) by auto
qed

lemma reads_guard:
  assumes "reads N X A rd" and "A None \<subseteq> X"
  shows "reads N X A (\<lambda>st. if b then Some (None, st) else rd st)"
  using assms reads_return [of A None X N] by (cases b) simp_all

text \<open>A node with what was read for it.\<close>

lemma reads_node:
  assumes "sz < 2 ^ 16" and "reads N {} S rd" and "A None = {}" and "\<And>x. A (Some x) \<subseteq> S x"
  shows "reads N {} A (read_struct alloc sz rd)"
  by (rule reads_mono [OF reads_struct [OF assms(1,2)]]) (use assms(3,4) in \<open>auto split: option.split\<close>)

lemma reads_strings:
  assumes "length vs < 2 ^ 56"
  shows "reads N {} (\<lambda>xs. {}) (read_strings alloc vs)"
  unfolding read_strings_def
  by (rule reads_mono [OF reads_array [OF assms, where A = "\<lambda>x. {}"]]) (auto intro: reads_return)

lemma reads_plain_array:
  assumes "length vs < 2 ^ 56" and "sz \<le> 24" and "\<And>v. v \<in> set vs \<Longrightarrow> reads N {} (\<lambda>x. {}) (rd v)"
  shows "reads N {} (\<lambda>xs. {}) (read_array alloc sz rd vs)"
  by (rule reads_mono [OF reads_array [OF assms]]) auto

lemma reads_entry:
  assumes "reads N {} A (rd (snd kv))"
  shows "reads N {} (\<lambda>e. A (snd e)) (read_entry rd kv)"
  unfolding read_entry_def [abs_def] by (rule reads_then [OF assms]) (rule reads_return, simp)

end

text \<open>The parsers below a value of a well-named document.\<close>

locale document_reading = region_allocator +
  fixes yy :: yyjson and n :: nat
  assumes yy: "yy_obj_get_ok yy"
begin

lemmas value_parts = below_elems [OF yy, of n] below_pairs [OF yy, of n] below_obj_at [OF yy, of n] below_at [OF yy, of n]

lemma elem_below: "below n v \<Longrightarrow> x \<in> set (elems_at yy v k) \<Longrightarrow> below n x"
  using value_parts(2) by blast

lemma pair_below: "below n v \<Longrightarrow> kv \<in> set (pairs_at yy v k) \<Longrightarrow> below n (snd kv)"
  using value_parts(4) by blast

abbreviation none :: "'x \<Rightarrow> sref set" where
  "none x \<equiv> {}"

lemmas plain_rules = reads_guard reads_node [where S = none] reads_then [where A = none] reads_maybe reads_return
  reads_plain_array reads_strings value_parts(1,3)

lemma reads_info: "reads (Suc n) {} none (parse_info yy alloc v)"
  unfolding parse_info_def [abs_def] parse_contact_def parse_license_def by (intro plain_rules) simp_all

lemma reads_server_var: "below n (snd kv) \<Longrightarrow> reads (Suc n) {} none (parse_server_var yy alloc kv)"
  unfolding parse_server_var_def Let_def by (intro plain_rules) simp_all

lemma reads_server: "below n v \<Longrightarrow> reads (Suc n) {} none (parse_server yy alloc v)"
  unfolding parse_server_def [abs_def]
  by (intro plain_rules reads_server_var) (auto intro: pair_below)

lemma reads_requirement: "below n v \<Longrightarrow> reads (Suc n) {} none (parse_requirement alloc v)"
proof (cases "\<exists>k w kvs. v = JObj ((k, w) # kvs)")
  case True
  assume b: "below n v"
  obtain k w kvs where v: "v = JObj ((k, w) # kvs)" using True by blast
  have "below n w" using below_obj [of n "(k, w) # kvs"] b v by simp
  then have "length (case w of JArr vs \<Rightarrow> vs | _ \<Rightarrow> []) < 2 ^ 56" using below_arr by (cases w) auto
  then show ?thesis
    unfolding parse_requirement_def [abs_def] v json.case list.case prod.case by (intro plain_rules) simp_all
next
  case False
  then have "parse_requirement alloc v = (\<lambda>st. Some (None, st))"
    by (auto simp: parse_requirement_def fun_eq_iff split: json.split list.split)
  then show ?thesis by (simp add: reads_return)
qed

lemma reads_security: "below n v \<Longrightarrow> reads (Suc n) {} none (parse_security_array yy alloc v)"
  unfolding parse_security_array_def by (intro plain_rules reads_requirement) (use value_parts(2) in auto)

lemma reads_alloc:
  assumes "request_ok k 8" and "\<And>r. reads N X S (f r)"
  shows "reads N X S (with_alloc alloc k f)"
proof (rule readsI)
  fix st0 st assume g: "grown N st0 X st"
  obtain r a where r: "alloc (ps_arena st) k 8 = (r, a)" by fastforce
  obtain x st' where "f r (st\<lparr>ps_arena := a\<rparr>) = Some (x, st')" "grown N st0 (S x) st'"
    by (rule readsE [OF assms(2) grown_alloc [OF g assms(1) r]])
  then show "\<exists>x st'. with_alloc alloc k f st = Some (x, st') \<and> grown N st0 (S x) st'"
    using r by (simp add: with_alloc_def)
qed

lemma reads_flow:
  assumes v: "below n v"
  shows "reads (Suc n) {} none (parse_oauth_flow yy alloc v)"
proof -
  have q: "request_ok (of_nat (length (pairs_at yy v ''scopes'')) * 8) 8"
    using slots_request [of "length (pairs_at yy v ''scopes'')" 8, OF value_parts(3) [OF v]] by (simp add: mult.commute)
  show ?thesis unfolding parse_oauth_flow_def [abs_def] Let_def
    by (intro reads_guard reads_node [where S = none])
      (auto intro: reads_return reads_alloc [OF q])
qed

lemma reads_security_scheme: "below n v \<Longrightarrow> reads (Suc n) {} none (parse_security_scheme yy alloc v)"
  unfolding parse_security_scheme_def [abs_def] parse_oauth_flows_def
  by (intro plain_rules reads_flow) (auto intro: value_parts(5,6))

lemma reads_tag: "reads (Suc n) {} none (parse_tag yy alloc v)"
  unfolding parse_tag_def by (intro plain_rules) simp_all

section \<open>The schemas they leave\<close>

lemma reads_parameter: "below n v \<Longrightarrow> reads (Suc n) {} (\<lambda>p. set_option (param_schema p)) (parse_parameter yy alloc v)"
  unfolding parse_parameter_def [abs_def]
  by (intro reads_guard reads_node [where S = "\<lambda>p. set_option (pa_schema p)"] reads_then [where A = set_option] reads_maybe
      reads_schema reads_return yy) (auto simp: param_schema_def intro: value_parts)

lemma reads_content: "below n v \<Longrightarrow> reads (Suc n) {} (\<lambda>ms. some_of (content_schemas ms)) (parse_content yy alloc v)"
proof -
  assume v: "below n v"
  have m: "reads (Suc n) {} (\<lambda>m. set_option (Option.bind (me_value m) mt_schema)) (parse_media yy alloc kv)"
    if "below n (snd kv)" for kv
    unfolding parse_media_def [abs_def]
    by (intro reads_then [where A = "\<lambda>x. set_option (Option.bind x mt_schema)"] reads_node [where S = "\<lambda>m. set_option (mt_schema m)"]
        reads_then [where A = set_option] reads_maybe reads_schema reads_return yy) (auto intro: value_parts that)
  have e: "some_of (content_schemas ms) = (\<Union>m \<in> set ms. set_option (Option.bind (me_value m) mt_schema))" for ms
    by (simp add: content_schemas_def some_of_map)
  show ?thesis unfolding parse_content_def e
    by (intro reads_array value_parts(3) v m) (auto intro: pair_below v)
qed

lemma reads_response: "below n v \<Longrightarrow> reads (Suc n) {} (\<lambda>r. some_of (response_schemas r)) (parse_response yy alloc v)"
  unfolding parse_response_def
  by (intro reads_node [where S = "\<lambda>r. some_of (content_schemas (re_content r))"]
      reads_then [where A = "\<lambda>ms. some_of (content_schemas ms)"] reads_content reads_return)
    (simp_all add: response_schemas_def)

lemma reads_body: "below n v \<Longrightarrow> reads (Suc n) {} (\<lambda>b. some_of (body_schemas b)) (parse_body yy alloc v)"
  unfolding parse_body_def
  by (intro reads_node [where S = "\<lambda>b. some_of (content_schemas (rb_content b))"]
      reads_then [where A = "\<lambda>ms. some_of (content_schemas ms)"] reads_content reads_return)
    (simp_all add: body_schemas_def)

lemma reads_responses:
  assumes "below n v"
  shows "reads (Suc n) {} (\<lambda>rs. \<Union>r \<in> set rs. some_of (response_schemas (rn_response r))) (parse_responses yy alloc v)"
  unfolding parse_responses_def
  by (intro reads_array reads_then [where A = "\<lambda>r. some_of (response_schemas r)"] reads_response reads_return
      value_parts(3) assms) (auto intro: pair_below assms)

lemma reads_params:
  assumes "below n v"
  shows "reads (Suc n) {} (\<lambda>ps. \<Union>p \<in> set ps. set_option (param_schema p)) (parse_params yy alloc v)"
  unfolding parse_params_def by (intro reads_array reads_parameter value_parts(1) assms) (auto intro: elem_below assms)

lemma reads_operation: "below n v \<Longrightarrow> reads (Suc n) {} (\<lambda>x. some_of (operation_schemas x)) (parse_operation yy alloc v)"
  unfolding parse_operation_def [abs_def]
  apply (intro reads_guard reads_node [where S = "\<lambda>x. some_of (operation_schemas (Some x))"])
  apply simp
  apply (rule reads_then [where A = none], rule reads_strings, erule value_parts(1))
  apply (rule reads_then, erule reads_params)
  apply (rule reads_then [where A = "\<lambda>b. some_of (body_schemas b)"], rule reads_maybe, rule reads_body, erule (1) value_parts(5), simp add: body_schemas_def)
  apply (rule reads_then, erule reads_responses)
  apply (rule reads_then, erule reads_security)
  apply (rule reads_return)
  apply (auto simp: operation_schemas_def some_of_map)
  done

lemma reads_path_entry: "below n (snd kv) \<Longrightarrow> reads (Suc n) {} (\<lambda>e. some_of (path_schemas (pe_item e))) (parse_path yy alloc kv)"
proof -
  assume v: "below n (snd kv)"
  have slot: "reads (Suc n) {} (\<lambda>x. some_of (operation_schemas x))
      (read_maybe (parse_operation yy alloc) (obj_at yy (snd kv) k))" for k
    by (rule reads_maybe, rule reads_operation, erule value_parts(5) [OF v]) (simp add: operation_schemas_def)
  have item: "reads (Suc n) {} (\<lambda>i. some_of (path_schemas (Some i))) (parse_path_item yy alloc path (snd kv))" for path
    unfolding parse_path_item_def [abs_def] Let_def
    by (intro reads_then [OF slot] reads_then [OF reads_params [OF v]] reads_return)
      (auto simp: path_schemas_def some_of_map)
  show ?thesis unfolding parse_path_def [abs_def]
    by (intro reads_then [where A = "\<lambda>i. some_of (path_schemas i)"] reads_node [OF _ item] reads_return)
      (auto simp: path_schemas_def)
qed

lemma some_of_entries:
  "some_of (map snd es) = (\<Union>e \<in> set es. set_option (snd e))"
  "some_of (map (param_schema \<circ> snd) ps) = (\<Union>e \<in> set ps. set_option (param_schema (snd e)))"
  by (simp_all add: some_of_map)

lemma reads_entries:
  assumes "below n v" and "\<And>x. below n x \<Longrightarrow> reads (Suc n) {} A (rd x)"
  shows "reads (Suc n) {} (\<lambda>es. \<Union>e \<in> set es. A (snd e)) (read_array alloc 16 (read_entry rd) (pairs_at yy v k))"
  by (intro reads_array reads_entry value_parts(3) assms) (auto intro: pair_below [OF assms(1)])

lemma reads_components:
  assumes v: "below n v"
  shows "reads (Suc n) {} (\<lambda>c. case c of None \<Rightarrow> {} | Some c \<Rightarrow> some_of (component_schemas c)) (parse_components yy alloc v)"
  unfolding parse_components_def [abs_def]
  by (intro reads_guard reads_node [where S = "\<lambda>c. some_of (component_schemas c)"] reads_return
      reads_then [OF reads_entries [OF v reads_schema [OF yy]]] reads_then [OF reads_entries [OF v reads_security_scheme]]
      reads_then [OF reads_entries [OF v reads_response]] reads_then [OF reads_entries [OF v reads_body]]
      reads_then [OF reads_entries [OF v reads_parameter]])
    (auto simp: component_schemas_def some_of_entries)

lemma reads_doc:
  assumes v: "below n r"
  shows "reads (Suc n) {} (\<lambda>d. case d of None \<Rightarrow> {} | Some d \<Rightarrow> some_of (doc_schemas d)) (build_doc yy alloc doc version r)"
  unfolding build_doc_def
  apply (intro reads_node [where S = "\<lambda>d. some_of (doc_schemas d)"])
  apply simp
  apply (rule reads_then [where A = none], rule reads_maybe, rule reads_info, rule refl)
  apply (rule reads_then [where A = none], rule reads_plain_array, rule value_parts(1) [OF v], simp, rule reads_server, erule elem_below [OF v])
  apply (rule reads_then, rule reads_array, rule value_parts(3) [OF v], simp, rule reads_path_entry, erule pair_below [OF v])
  apply (rule reads_then, rule reads_maybe, rule reads_components, erule value_parts(6) [OF v], simp)
  apply (rule reads_then, rule reads_security [OF v])
  apply (rule reads_then [where A = none], rule reads_plain_array, rule value_parts(1) [OF v], simp, rule reads_tag)
  apply (rule reads_return)
  apply (auto simp: doc_schemas_def split: option.split)
  done

end

text \<open>The lookup yyjson documents, whatever the rest of the record does.\<close>

definition plain_lookup :: "yyjson \<Rightarrow> yyjson" where
  "plain_lookup yy = yy\<lparr>yy_obj_get := (\<lambda>v k. case v of JObj kvs \<Rightarrow> map_of kvs k | _ \<Rightarrow> None)\<rparr>"

lemma plain_lookup_same: "yy_obj_get_ok yy \<Longrightarrow> plain_lookup yy = yy"
  by (simp add: plain_lookup_def yy_obj_get_ok_def fun_eq_iff [symmetric])

interpretation parsed: document_reading "oas_arena_alloc malloc" arena_taken oas_arena_used
    "\<lambda>a. malloc_ok malloc \<and> arena_inv malloc a" "plain_lookup yy" n for malloc yy n
  by unfold_locales (simp add: plain_lookup_def yy_obj_get_ok_def)

section \<open>A small document\<close>

text \<open>A schema of which only \<open>$ref\<close> is there.\<close>

lemma bare_fields:
  assumes "\<forall>k. k \<noteq> ''$ref'' \<longrightarrow> yy_obj_get yy v k = None" and "k \<noteq> ''$ref''"
  shows "on_key yy v k get f = (\<lambda>s. s)" "parse_child yy rec v k p g = Some" "arr_of yy v k = None" "obj_of yy v k = None"
  using assms by (simp_all add: on_key_def parse_child_def arr_of_def obj_of_def fun_eq_iff)

lemma bare_node:
  assumes "\<forall>k. k \<noteq> ''$ref'' \<longrightarrow> yy_obj_get yy v k = None" and "ps_heap st p = Some s"
  shows "parse_node yy alloc rec v p st =
    Some (st\<lparr>ps_heap := (ps_heap st)(p \<mapsto> on_key yy v ''$ref'' json_str (\<lambda>t s. s\<lparr>s_ref := Some t\<rparr>) s)\<rparr>)"
proof -
  let ?s = "on_key yy v ''$ref'' json_str (\<lambda>t s. s\<lparr>s_ref := Some t\<rparr>) s"
  let ?st = "st\<lparr>ps_heap := (ps_heap st)(p \<mapsto> ?s)\<rparr>"
  note b = bare_fields [OF assms(1)]
  have n: "set_node p (\<lambda>s. s) ?st = Some ?st" by (simp add: set_node_def)
  have a: "parse_annotations yy v = on_key yy v ''$ref'' json_str (\<lambda>t s. s\<lparr>s_ref := Some t\<rparr>)"
    by (simp add: parse_annotations_def Let_def fun_eq_iff b(1))
  have e: "parse_string_constraints yy v = (\<lambda>s. s)" "parse_numeric_constraints yy v = (\<lambda>s. s)" "parse_flags yy v = (\<lambda>s. s)"
    by (simp_all add: parse_string_constraints_def parse_numeric_constraints_def parse_flags_def fun_eq_iff b(1))
  have c: "parse_schema_array yy alloc rec v k p f = Some" if "k \<noteq> ''$ref''" for k f
    by (simp add: parse_schema_array_def fun_eq_iff b(3) [OF that])
  have d: "parse_required yy alloc v p = Some" "parse_pattern_properties yy alloc rec v p = Some"
      "parse_dependent_schemas yy alloc rec v p = Some" "parse_dependent_required yy alloc v p = Some"
      "parse_additional yy alloc rec v p = Some" "parse_discriminator yy alloc v p = Some"
    by (simp_all add: parse_required_def parse_pattern_properties_def parse_dependent_schemas_def parse_dependent_required_def
        parse_additional_def parse_discriminator_def fun_eq_iff b assms(1))
  have "set_node p (parse_annotations yy v) st = Some ?st" using assms(2) by (simp add: set_node_def a)
  then show ?thesis
    by (simp add: parse_node_def parse_array_constraints_def parse_object_constraints_def parse_composition_def
        parse_conditional_def parse_unevaluated_def e c d b(1,2,4) n)
qed


lemma bare_schema:
  assumes "\<forall>k. k \<noteq> ''$ref'' \<longrightarrow> yy_obj_get yy v k = None" and "is_jobj v"
    and "alloc (ps_arena st) sizeof_oas_schema 8 = (Some p, a)"
  shows "read_schema yy alloc v st = Some (Some p, \<lparr>ps_arena = a, ps_heap =
    (ps_heap st)(p \<mapsto> on_key yy v ''$ref'' json_str (\<lambda>t s. s\<lparr>s_ref := Some t\<rparr>) oas_schema_fresh)\<rparr>)"
  using assms(2,3) by (simp add: read_schema_def oas_schema_create_def bare_node [OF assms(1)])

definition two_root :: json where
  "two_root = JObj [(''openapi'', JStr ''3.1.0''), (''info'', JObj []),
     (''components'', JObj [(''schemas'', JObj [(''A'', JObj []), (''B'', JObj [(''$ref'', JStr ''#/components/schemas/A'')])])])]"

definition two_doc :: oas_doc where
  "two_doc = \<lparr>d_openapi = Some ''3.1.0'', d_info = Some \<lparr>in_title = None, in_summary = None, in_description = None,
      in_version = None, in_terms_of_service = None, in_contact = None, in_license = None\<rparr>, d_servers = [], d_paths = [],
    d_components = Some \<lparr>co_schemas = [(''A'', Some 33554744), (''B'', Some 33555224)], co_security_schemes = [],
      co_comp_responses = [], co_parameters = [], co_request_bodies = [], co_headers = []\<rparr>,
    d_security = [], d_tags = [], d_json_doc = Some 0\<rparr>"

definition two_heap :: schema_heap where
  "two_heap = [33554744 \<mapsto> oas_schema_fresh, 33555224 \<mapsto> oas_schema_fresh\<lparr>s_ref := Some ''#/components/schemas/A''\<rparr>]"

definition block_arena :: "u64 \<Rightarrow> oas_arena" where
  "block_arena u = \<lparr>blocks = [\<lparr>blk_data = 33554464, blk_capacity = 65536, blk_used = u\<rparr>], current = 0, block_size = 65536,
    total_allocated = u, mallocs = 2\<rparr>"

lemma small_block: "small_arena = block_arena 0"
  by (simp add: small_arena_def block_arena_def oas_arena_create_def oas_arena_block_create_def sample_malloc_def sizeof_arena_block_def)

lemma block_alloc:
  "oas_arena_alloc m (block_arena 0) 96 8 = (Some 33554464, block_arena 96)"
  "oas_arena_alloc m (block_arena 96) 56 8 = (Some 33554560, block_arena 152)"
  "oas_arena_alloc m (block_arena 152) 96 8 = (Some 33554616, block_arena 248)"
  "oas_arena_alloc m (block_arena 248) 32 8 = (Some 33554712, block_arena 280)"
  "oas_arena_alloc m (block_arena 280) sizeof_oas_schema 8 = (Some 33554744, block_arena 760)"
  "oas_arena_alloc m (block_arena 760) sizeof_oas_schema 8 = (Some 33555224, block_arena 1240)"
  by (simp_all add: oas_arena_alloc_def block_arena_def align_up_def Let_def sizeof_oas_schema_def)

lemma two_built:
  assumes "yy_obj_get_ok yy"
  shows "build_doc yy (oas_arena_alloc m) (Some 0) ''3.1.0'' two_root \<lparr>ps_arena = small_arena, ps_heap = Map.empty\<rparr> =
    Some (Some two_doc, \<lparr>ps_arena = block_arena 1240, ps_heap = two_heap\<rparr>)"
proof -
  have g: "yy_obj_get yy (JObj kvs) k = map_of kvs k" for kvs k using assms by (simp add: yy_obj_get_ok_def)
  have a: "read_schema yy (oas_arena_alloc m) (JObj []) \<lparr>ps_arena = block_arena 280, ps_heap = h\<rparr> =
      Some (Some 33554744, \<lparr>ps_arena = block_arena 760, ps_heap = h(33554744 \<mapsto> oas_schema_fresh)\<rparr>)" for h
    using bare_schema [of yy "JObj []" "oas_arena_alloc m"] block_alloc by (simp add: g on_key_def)
  have b: "read_schema yy (oas_arena_alloc m) (JObj [(''$ref'', JStr ''#/components/schemas/A'')])
      \<lparr>ps_arena = block_arena 760, ps_heap = h\<rparr> = Some (Some 33555224, \<lparr>ps_arena = block_arena 1240,
        ps_heap = h(33555224 \<mapsto> oas_schema_fresh\<lparr>s_ref := Some ''#/components/schemas/A''\<rparr>)\<rparr>)" for h
    using bare_schema [of yy "JObj [(''$ref'', JStr ''#/components/schemas/A'')]" "oas_arena_alloc m"] block_alloc
    by (simp add: g on_key_def cstr_def)
  show ?thesis
    by (simp add: build_doc_def read_struct_def small_block block_alloc read_maybe_def parse_info_def str_at_def obj_at_def
        elems_at_def pairs_at_def arr_of_def obj_of_def read_array_def parse_components_def read_entry_def a b
        parse_security_array_def g two_root_def two_doc_def two_heap_def cstr_def)
qed


section \<open>Properties\<close>

lemma build_doc_grown:
  assumes "yy_obj_get_ok yy" and "well_named r" and "malloc_ok malloc" and "arena_inv malloc a"
    and "\<And>p. h p \<noteq> None \<Longrightarrow> unat p \<in> arena_taken a"
  obtains d st where "build_doc yy (oas_arena_alloc malloc) doc version r \<lparr>ps_arena = a, ps_heap = h\<rparr> = Some (d, st)"
    and "arena_inv malloc (ps_arena st)" and "\<forall>p. h p \<noteq> None \<longrightarrow> ps_heap st p = h p"
    and "\<forall>p. ps_heap st p \<noteq> None \<longrightarrow> unat p \<in> arena_taken (ps_arena st)"
    and "\<forall>dd. d = Some dd \<longrightarrow> (\<forall>x \<in> set (doc_schemas dd).
      tree (size r + 2) (ps_heap st) {p. ps_heap st p \<noteq> None \<and> h p = None} x)"
proof -
  let ?st = "\<lparr>ps_arena = a, ps_heap = h\<rparr>"
  have g: "arena.grown malloc (Suc (size r + 1)) ?st {} ?st"
    unfolding arena.grown_def arena.grows_def arena.state_ok_def using assms(3-5) by simp
  have "below (size r + 1) r" using assms(2) by (simp add: below_def)
  from parsed.reads_doc [OF this, of malloc yy doc version]
  have r: "arena.reads malloc (Suc (size r + 1)) {} (\<lambda>d. case d of None \<Rightarrow> {} | Some d \<Rightarrow> some_of (doc_schemas d))
      (build_doc yy (oas_arena_alloc malloc) doc version r)"
    unfolding plain_lookup_same [OF assms(1)] .
  obtain d st where d: "build_doc yy (oas_arena_alloc malloc) doc version r ?st = Some (d, st)"
      "arena.grown malloc (Suc (size r + 1)) ?st (case d of None \<Rightarrow> {} | Some d \<Rightarrow> some_of (doc_schemas d)) st"
    by (rule arena.readsE [OF r g])
  show thesis
  proof (rule that [OF d(1)], goal_cases)
    case 4
    have "tree (size r + 2) (ps_heap st) {p. ps_heap st p \<noteq> None \<and> h p = None} x"
      if x: "d = Some dd" "x \<in> set (doc_schemas dd)" for dd x
    proof (cases x)
      case (Some p)
      then have "p \<in> some_of (doc_schemas dd)" using x(2) by (simp add: some_of_def)
      then show ?thesis using d(2) x(1) Some
        unfolding arena.grown_def arena.fresh_def by (simp del: tree.simps)
    qed simp
    then show ?case by blast
  qed (use d(2) in \<open>simp_all add: arena.grown_def arena.grows_def arena.state_ok_def\<close>)
qed

lemma doc_build_grown_trees:
  assumes "yy_obj_get_ok yy" and "well_named r" and "malloc_ok malloc" and "arena_inv malloc a"
    and "\<And>p. h p \<noteq> None \<Longrightarrow> unat p \<in> arena_taken a"
    and "build_doc yy (oas_arena_alloc malloc) doc version r \<lparr>ps_arena = a, ps_heap = h\<rparr> = Some (Some d, st)"
    and "x \<in> set (doc_schemas d)"
  shows "tree (size r + 2) (ps_heap st) {p. ps_heap st p \<noteq> None \<and> h p = None} x"
  by (rule build_doc_grown [OF assms(1-5), where doc = doc and version = version]) (use assms(6,7) in auto)

text \<open>
  C31. On the arena of \<open>oas_alloc.c\<close> the document is built from every well-named root, however
  much memory there is: the parser comes back, changes no schema that was there, and every
  schema of the document is null or the root of a finite tree of nodes of its own, at most two
  deeper than the JSON text is long.
\<close>

theorem doc_build_trees:
  assumes "yy_obj_get_ok yy" and "well_named r" and "malloc_ok malloc" and "arena_inv malloc a"
    and "\<And>p. h p \<noteq> None \<Longrightarrow> unat p \<in> arena_taken a"
  shows "\<exists>d a' h'. build_doc yy (oas_arena_alloc malloc) doc version r \<lparr>ps_arena = a, ps_heap = h\<rparr> =
      Some (d, \<lparr>ps_arena = a', ps_heap = h'\<rparr>) \<and> arena_inv malloc a' \<and> (\<forall>p. h p \<noteq> None \<longrightarrow> h' p = h p) \<and>
    (\<forall>dd. d = Some dd \<longrightarrow> (\<forall>x \<in> set (doc_schemas dd). tree (size r + 2) h' {p. h' p \<noteq> None \<and> h p = None} x))"
proof -
  obtain d st where d: "build_doc yy (oas_arena_alloc malloc) doc version r \<lparr>ps_arena = a, ps_heap = h\<rparr> = Some (d, st)"
    "arena_inv malloc (ps_arena st)" "\<forall>p. h p \<noteq> None \<longrightarrow> ps_heap st p = h p"
    "\<forall>p. ps_heap st p \<noteq> None \<longrightarrow> unat p \<in> arena_taken (ps_arena st)"
    "\<forall>dd. d = Some dd \<longrightarrow> (\<forall>x \<in> set (doc_schemas dd).
      tree (size r + 2) (ps_heap st) {p. ps_heap st p \<noteq> None \<and> h p = None} x)"
    by (rule build_doc_grown [OF assms, where doc = doc and version = version])
  then show ?thesis by (intro exI [of _ d] exI [of _ "ps_arena st"] exI [of _ "ps_heap st"]) simp
qed

lemma two_root_named: "well_named two_root"
  by (simp add: two_root_def names_at_def dependents_at_def)

theorem doc_build_trees_witness:
  "\<exists>d a' h'. build_doc sample_yyjson (oas_arena_alloc sample_malloc) (Some 0) ''3.1.0'' two_root
      \<lparr>ps_arena = small_arena, ps_heap = Map.empty\<rparr> = Some (Some d, \<lparr>ps_arena = a', ps_heap = h'\<rparr>) \<and>
    (\<forall>x \<in> set (doc_schemas d). tree (size two_root + 2) h' (dom h') x)"
  using doc_build_trees [OF sample_yyjson_ok(1) two_root_named sample_malloc_ok small_arena(2), of Map.empty "Some 0" "''3.1.0''"]
    two_built [OF sample_yyjson_ok(1), of sample_malloc]
  by (simp add: dom_def del: tree.simps)

end
