(* ===== verification/Liboas_Doc_Parse.thy ===== *)
theory Liboas_Doc_Parse
  imports Liboas_Doc_Build Liboas_Doc_Compile
begin

text \<open>
  Calls of the document parser as a whole: which texts it takes and what it reports of the others,
  which operations the document has, how it goes together with the resolver and the schema
  compiler, and that no JSON document is lost or freed twice.
\<close>

section \<open>Texts that are refused\<close>

text \<open>An object with a version that starts with \<open>3.\<close> and an object under \<open>info\<close>.\<close>

definition openapi_root :: "json \<Rightarrow> bool" where
  "openapi_root r \<longleftrightarrow>
     (\<exists>kvs v i. r = JObj kvs \<and> map_of kvs ''openapi'' = Some (JStr v) \<and> take 2 (cstr v) = ''3.'' \<and>
        map_of kvs ''info'' = Some (JObj i))"

lemma check_root_ok:
  assumes "yy_obj_get_ok yy"
  shows "(\<exists>v. check_root yy r = Inr v) \<longleftrightarrow> openapi_root r"
proof (cases r)
  case (JObj kvs)
  have g: "yy_obj_get yy (JObj kvs) k = map_of kvs k" for k using assms by (simp add: yy_obj_get_ok_def)
  have o: "(\<exists>i. x = JObj i) \<longleftrightarrow> is_jobj x" for x by (cases x) simp_all
  have s: "json_str x = Some t \<longleftrightarrow> (\<exists>v. x = JStr v \<and> t = cstr v)" for x t by (cases x) auto
  show ?thesis
    by (auto simp: JObj check_root_def openapi_root_def str_at_def obj_at_def only_if_def g check_openapi_version_def
        bind_eq_Some_conv bind_eq_None_conv s o [symmetric] split: option.splits if_splits)
qed (simp_all add: check_root_def openapi_root_def)

lemma build_doc_null:
  "build_doc yy alloc doc v r st = Some (None, st') \<Longrightarrow> fst (alloc (ps_arena st) 96 8) = None"
  by (auto simp: build_doc_def read_struct_def bind_eq_Some_conv split: option.splits prod.splits)

text \<open>The rest of the call, once the root has passed the checks.\<close>

lemma parse_accepted:
  assumes "yy_read (rv_yy (pv_ref env)) t = Some r" and "check_root (rv_yy (pv_ref env)) r = Inr v"
  shows "oas_doc_parse_ex env True (Some t) opts st = do {
      (doc, ps) \<leftarrow> build_doc (rv_yy (pv_ref env)) (rv_alloc (pv_ref env)) (Some (dp_docs st)) v r
                     \<lparr>ps_arena = dp_arena st, ps_heap = dp_heap st\<rparr>;
      (case doc of
         None \<Rightarrow> Some (None, st\<lparr>dp_docs := dp_docs st + 1, dp_arena := ps_arena ps, dp_heap := ps_heap ps,
                               dp_freed := dp_docs st # dp_freed st\<rparr>)
       | Some d \<Rightarrow> do {
           st \<leftarrow> resolve_document (pv_ref env) opts r d
                  (st\<lparr>dp_docs := dp_docs st + 1, dp_arena := ps_arena ps, dp_heap := ps_heap ps\<rparr>);
           Some (Some d, st)
         })
    }"
  using assms
  by (simp add: oas_doc_parse_ex_def oas_json_parse_def no_json_doc_def Let_def oas_json_free_def
      cong: option.case_cong prod.case_cong)

text \<open>
  C27. The parser takes exactly the texts that are JSON objects with a string under \<open>openapi\<close> that
  starts with \<open>3.\<close> and an object under \<open>info\<close>. From the others it comes back with a null pointer
  and one error, the arena and the schemas are untouched, and the JSON document, if there was
  one, is freed. When it comes back from a text it takes, a null pointer means that there was
  no memory for the document itself.
\<close>

theorem doc_parse_accepts:
  assumes "yy_obj_get_ok (rv_yy (pv_ref env))"
  shows "if \<exists>r. yy_read (rv_yy (pv_ref env)) t = Some r \<and> openapi_root r
    then \<forall>st'. oas_doc_parse_ex env True (Some t) opts st = Some (None, st') \<longrightarrow>
      fst (rv_alloc (pv_ref env) (dp_arena st) 96 8) = None
    else \<exists>st' kind path msg. oas_doc_parse_ex env True (Some t) opts st = Some (None, st') \<and>
      dp_arena st' = dp_arena st \<and> dp_heap st' = dp_heap st \<and> dp_trace st' = dp_trace st \<and>
      dp_errors st' =
        map_option (\<lambda>l. oas_error_list_add (rv_alloc (pv_ref env)) l kind (Some path) msg) (dp_errors st) \<and>
      dp_freed st' = (if yy_read (rv_yy (pv_ref env)) t = None then [] else [dp_docs st]) @ dp_freed st"
proof (cases "yy_read (rv_yy (pv_ref env)) t")
  case None
  then show ?thesis
    by (auto simp: oas_doc_parse_ex_def oas_json_parse_def no_json_doc_def parser_report_def)
next
  case (Some r)
  show ?thesis
  proof (cases "check_root (rv_yy (pv_ref env)) r")
    case (Inl e)
    obtain kind path msg where e: "e = (kind, path, msg)" by (cases e)
    have "\<not> openapi_root r" using check_root_ok [OF assms, of r] Inl by simp
    then show ?thesis using Some Inl e
      by (auto simp: oas_doc_parse_ex_def oas_json_parse_def oas_json_free_def no_json_doc_def parser_report_def)
  next
    case (Inr v)
    have "openapi_root r" using check_root_ok [OF assms, of r] Inr by blast
    moreover have "fst (rv_alloc (pv_ref env) (dp_arena st) 96 8) = None"
      if "oas_doc_parse_ex env True (Some t) opts st = Some (None, st')" for st'
      using that unfolding parse_accepted [OF Some Inr]
      by (auto simp: bind_eq_Some_conv split: option.splits dest: build_doc_null)
    ultimately show ?thesis using Some by simp
  qed
qed

definition doc_yyjson :: "json \<Rightarrow> yyjson" where
  "doc_yyjson r = sample_yyjson\<lparr>yy_read := (\<lambda>t. if t = [] then None else Some r)\<rparr>"

lemma doc_yyjson_ok: "yy_obj_get_ok (doc_yyjson r)"
  using sample_yyjson_ok(1) by (simp add: yy_obj_get_ok_def doc_yyjson_def)

definition doc_parser_env :: "json \<Rightarrow> (oas_arena, unit) parser_env" where
  "doc_parser_env r = \<lparr>pv_ref = \<lparr>rv_alloc = oas_arena_alloc sample_malloc, rv_yy = doc_yyjson r,
       rv_walk = (\<lambda>r p. Inl None), rv_http = (\<lambda>w u t m k. (Inl EIO, w)), rv_cwd = (\<lambda>w. (Inr ''/srv'', w)),
       rv_file = (\<lambda>w p. (File_read 2 ''{}'', w)), rv_malloc = (\<lambda>w. (True, w)), rv_yaml = False\<rparr>,
     pv_read_err = (\<lambda>t. (0, ''empty content'')), pv_strerror = (\<lambda>e. ''error'')\<rparr>"

definition doc_parser_start :: "(oas_arena, unit) parser_state" where
  "doc_parser_start = \<lparr>dp_arena = small_arena, dp_heap = Map.empty, dp_errors = None, dp_world = (), dp_docs = 0,
     dp_freed = [], dp_trace = []\<rparr>"

theorem doc_parse_accepts_witness:
  "\<exists>st'. oas_doc_parse_ex (doc_parser_env (JObj [(''openapi'', JStr ''2.0'')])) True (Some ''{}'') None doc_parser_start =
     Some (None, st') \<and> dp_freed st' = [0]"
proof -
  have "\<not> (\<exists>r. yy_read (rv_yy (pv_ref (doc_parser_env (JObj [(''openapi'', JStr ''2.0'')])))) ''{}'' = Some r \<and> openapi_root r)"
    "yy_read (rv_yy (pv_ref (doc_parser_env (JObj [(''openapi'', JStr ''2.0'')])))) ''{}'' \<noteq> None"
    by (simp_all add: doc_parser_env_def doc_yyjson_def openapi_root_def)
  moreover have "yy_obj_get_ok (rv_yy (pv_ref (doc_parser_env (JObj [(''openapi'', JStr ''2.0'')]))))"
    using doc_yyjson_ok by (simp add: doc_parser_env_def)
  ultimately show ?thesis
    using doc_parse_accepts [of "doc_parser_env (JObj [(''openapi'', JStr ''2.0'')])" "''{}''" None doc_parser_start]
    by (auto simp: doc_parser_start_def)
qed

section \<open>The operations of the document\<close>

lemma read_each_all2:
  assumes "\<And>v st x st'. rd v st = Some (x, st') \<Longrightarrow> R v x"
  shows "read_each rd vs st = Some (xs, st') \<Longrightarrow> list_all2 R vs xs"
  by (induction vs arbitrary: st xs) (auto simp: bind_eq_Some_conv intro: assms)

text \<open>With memory granted, an array has what was read for each value, and a node is there.\<close>

lemma read_array_all2:
  assumes "alloc_total alloc" and "0 < sz" and "sz * length vs < 2 ^ 64"
    and "\<And>v st x st'. rd v st = Some (x, st') \<Longrightarrow> R v x" and "read_array alloc sz rd vs st = Some (xs, st')"
  shows "list_all2 R vs xs"
proof (cases "vs = []")
  case True
  then show ?thesis using assms(5) by (simp add: read_array_def)
next
  case False
  then have "0 < sz * length vs" using assms(2) by simp
  then obtain p a where "alloc (ps_arena st) (of_nat (sz * length vs)) 8 = (Some p, a)"
    using granted [OF assms(1) _ assms(3), of 8 "ps_arena st"] by auto
  then have "read_each rd vs (st\<lparr>ps_arena := a\<rparr>) = Some (xs, st')" using assms(5) False by (simp add: read_array_def)
  then show ?thesis by (rule read_each_all2 [rotated]) (rule assms(4))
qed

lemma read_struct_there:
  assumes "alloc_total alloc" and "read_struct alloc sz rd st = Some (x, st')" and "0 < sz" and "sz < 2 ^ 16"
  obtains y st1 where "x = Some y" "rd st1 = Some (y, st')"
proof -
  have "sz < 2 ^ 64" using assms(4) by simp
  then obtain p a where "alloc (ps_arena st) (of_nat sz) 8 = (Some p, a)"
    using granted [OF assms(1,3), of 8 "ps_arena st"] by auto
  then show thesis using assms(2) that by (auto simp: read_struct_def bind_eq_Some_conv)
qed

definition method_keys :: "(string \<times> string) list" where
  "method_keys = [(''get'', ''GET''), (''post'', ''POST''), (''put'', ''PUT''), (''delete'', ''DELETE''),
     (''patch'', ''PATCH''), (''head'', ''HEAD''), (''options'', ''OPTIONS'')]"

text \<open>Path, method and identifier of every operation, as the JSON text has them.\<close>

definition item_operations :: "yyjson \<Rightarrow> json \<Rightarrow> (string \<times> string option) list" where
  "item_operations yy v =
     List.map_filter (\<lambda>(k, m). map_option (\<lambda>x. (m, str_at yy x ''operationId'')) (obj_at yy v k)) method_keys"

definition json_operations :: "yyjson \<Rightarrow> json \<Rightarrow> (string \<times> string \<times> string option) list" where
  "json_operations yy r =
     concat (map (\<lambda>(k, v). map (Pair (cstr k)) (item_operations yy v)) (pairs_at yy r ''paths''))"

lemma operation_read:
  assumes "alloc_total alloc" and "parse_operation yy alloc v st = Some (x, st')" and "is_jobj v"
  shows "\<exists>opn. x = Some opn \<and> op_operation_id opn = str_at yy v ''operationId''"
proof -
  have r: "read_struct alloc 104 (\<lambda>st. do {
        (tags, st) \<leftarrow> read_strings alloc (elems_at yy v ''tags'') st;
        (params, st) \<leftarrow> parse_params yy alloc v st;
        (body, st) \<leftarrow> read_maybe (parse_body yy alloc) (obj_at yy v ''requestBody'') st;
        (resps, st) \<leftarrow> parse_responses yy alloc v st;
        (security, st) \<leftarrow> parse_security_array yy alloc v st;
        Some (\<lparr>op_operation_id = str_at yy v ''operationId'', op_summary = str_at yy v ''summary'',
               op_description = str_at yy v ''description'', op_tags = tags, op_parameters = params,
               op_request_body = body, op_responses = resps, op_security = security,
               op_deprecated = bool_at yy v ''deprecated''\<rparr>, st)
      }) st = Some (x, st')"
    using assms(2,3) by (simp add: parse_operation_def)
  show ?thesis by (rule read_struct_there [OF assms(1) r]) (auto simp: bind_eq_Some_conv)
qed

lemma slot_read:
  assumes "alloc_total alloc" and "read_maybe (parse_operation yy alloc) (obj_at yy v k) st = Some (x, st')"
  shows "map_option op_operation_id x = map_option (\<lambda>w. str_at yy w ''operationId'') (obj_at yy v k)"
proof (cases "obj_at yy v k")
  case (Some w)
  then have "is_jobj w" by (auto simp: obj_at_def only_if_def bind_eq_Some_conv split: if_splits)
  then show ?thesis using operation_read [OF assms(1)] assms(2) Some by (fastforce simp: read_maybe_def)
qed (use assms(2) in \<open>simp add: read_maybe_def\<close>)

definition operations_listed :: "yyjson \<Rightarrow> json \<Rightarrow> oas_path_item \<Rightarrow> bool" where
  "operations_listed yy v i \<longleftrightarrow>
     map (\<lambda>(m, x). (m, map_option op_operation_id x)) (item_methods i) =
     map (\<lambda>(k, m). (m, map_option (\<lambda>w. str_at yy w ''operationId'') (obj_at yy v k))) method_keys"

lemma item_read:
  assumes "alloc_total alloc" and "parse_path_item yy alloc path v st = Some (i, st')"
  shows "operations_listed yy v i"
  using assms(2) slot_read [OF assms(1)]
  by (auto simp: parse_path_item_def Let_def bind_eq_Some_conv operations_listed_def item_methods_def method_keys_def)

lemma listed_operations:
  assumes "operations_listed yy v i"
  shows "map (\<lambda>(p, m, opn). (p, m, op_operation_id opn))
      (List.map_filter (\<lambda>(m, x). map_option (\<lambda>opn. (path, m, opn)) x) (item_methods i)) =
    map (Pair path) (item_operations yy v)"
proof -
  have a: "map (\<lambda>(p, m, opn). (p, m, op_operation_id opn)) (List.map_filter (\<lambda>(m, x). map_option (\<lambda>opn. (path, m, opn)) x) xs) =
      map (Pair path) (List.map_filter (\<lambda>(m, y). map_option (Pair m) y) (map (\<lambda>(m, x). (m, map_option op_operation_id x)) xs))" for xs
    by (induction xs) (auto simp: List.map_filter_simps split: option.split)
  have b: "item_operations yy v = List.map_filter (\<lambda>(m, y). map_option (Pair m) y)
      (map (\<lambda>(k, m). (m, map_option (\<lambda>w. str_at yy w ''operationId'') (obj_at yy v k))) method_keys)"
    by (simp add: item_operations_def List.map_filter_def filter_map comp_def split_def option.map_comp)
  show ?thesis unfolding a b using assms unfolding operations_listed_def by simp
qed

lemma path_read:
  assumes "alloc_total alloc" and "parse_path yy alloc kv st = Some (e, st')"
  shows "\<exists>i. pe_path e = cstr (fst kv) \<and> pe_item e = Some i \<and> operations_listed yy (snd kv) i"
proof -
  obtain i st1 where s: "read_struct alloc 80 (parse_path_item yy alloc (cstr (fst kv)) (snd kv)) st = Some (i, st1)"
      "e = \<lparr>pe_path = cstr (fst kv), pe_item = i\<rparr>"
    using assms(2) by (auto simp: parse_path_def bind_eq_Some_conv)
  show ?thesis by (rule read_struct_there [OF assms(1) s(1)]) (use s(2) item_read [OF assms(1)] in auto)
qed

lemma paths_listed:
  assumes "list_all2 (\<lambda>kv e. \<exists>i. pe_path e = cstr (fst kv) \<and> pe_item e = Some i \<and> operations_listed yy (snd kv) i) kvs es"
  shows "map (\<lambda>(p, m, opn). (p, m, op_operation_id opn))
      (concat (map (\<lambda>e. case pe_item e of
         None \<Rightarrow> []
       | Some item \<Rightarrow> List.map_filter (\<lambda>(m, x). map_option (\<lambda>opn. (pe_path e, m, opn)) x) (item_methods item)) es)) =
    concat (map (\<lambda>(k, v). map (Pair (cstr k)) (item_operations yy v)) kvs)"
  using assms by (induction rule: list_all2_induct) (auto simp: listed_operations)

text \<open>
  C30. With memory granted, the operations of the document are those of the text, in its order:
  for each pair under \<open>paths\<close>, repeated keys included, one for each of the seven methods whose
  value is an object, with its \<open>operationId\<close>. These are the operations the document compiler
  compiles; a \<open>trace\<close>, \<open>query\<close> or additional operation is not among them.
\<close>

theorem doc_parse_operations:
  assumes "yy_obj_get_ok yy" and "well_named r" and "alloc_total alloc"
    and "build_doc yy alloc doc version r st = Some (Some d, st')"
  shows "map (\<lambda>(p, m, opn). (p, m, op_operation_id opn)) (doc_operations d) = json_operations yy r"
proof -
  have "below (size r + 1) r" using assms(2) by (simp add: below_def)
  from below_pairs(1) [OF assms(1) this, of "''paths''"]
  have l: "16 * length (pairs_at yy r ''paths'') < 2 ^ 64" by simp
  obtain st1 st2 where p: "read_array alloc 16 (parse_path yy alloc) (pairs_at yy r ''paths'') st1 = Some (d_paths d, st2)"
    using assms(4) by (auto simp: build_doc_def read_struct_def bind_eq_Some_conv split: option.splits prod.splits)
  have "list_all2 (\<lambda>kv e. \<exists>i. pe_path e = cstr (fst kv) \<and> pe_item e = Some i \<and> operations_listed yy (snd kv) i)
      (pairs_at yy r ''paths'') (d_paths d)"
    by (rule read_array_all2 [OF assms(3) _ l path_read [OF assms(3)] p]) simp_all
  then show ?thesis unfolding doc_operations_def json_operations_def by (rule paths_listed)
qed

definition ops_root :: json where
  "ops_root = JObj [(''paths'', JObj [(''/a'', JObj [(''put'', JObj [(''operationId'', JStr ''putA'')]), (''trace'', JObj []),
     (''get'', JObj [])])])]"

theorem doc_parse_operations_witness:
  "\<exists>d st'. build_doc sample_yyjson (\<lambda>a n k. (Some 8, a)) None ''3.1.0'' ops_root \<lparr>ps_arena = (), ps_heap = Map.empty\<rparr> =
      Some (Some d, st') \<and>
    map (\<lambda>(p, m, opn). (p, m, op_operation_id opn)) (doc_operations d) = [(''/a'', ''GET'', None), (''/a'', ''PUT'', Some ''putA'')]"
proof -
  have g: "yy_obj_get sample_yyjson (JObj kvs) k = map_of kvs k" for kvs k by (simp add: sample_yyjson_def)
  have t: "alloc_total (\<lambda>a n k. (Some 8, a))" by (simp add: alloc_total_def)
  have w: "well_named ops_root" by (simp add: ops_root_def names_at_def dependents_at_def)
  note defs = build_doc_def read_struct_def read_maybe_def str_at_def obj_at_def only_if_def elems_at_def pairs_at_def
    arr_of_def obj_of_def read_array_def parse_path_def parse_path_item_def parse_operation_def read_strings_def parse_params_def
    parse_responses_def parse_security_array_def Let_def g ops_root_def cstr_def
  have "\<exists>d st'. build_doc sample_yyjson (\<lambda>a n k. (Some 8, a)) None ''3.1.0'' ops_root \<lparr>ps_arena = (), ps_heap = Map.empty\<rparr> =
      Some (Some d, st')" by (simp add: defs)
  moreover have "json_operations sample_yyjson ops_root = [(''/a'', ''GET'', None), (''/a'', ''PUT'', Some ''putA'')]"
    by (simp add: json_operations_def item_operations_def method_keys_def List.map_filter_simps defs)
  ultimately show ?thesis using doc_parse_operations [OF sample_yyjson_ok(1) w t] by metis
qed

section \<open>Parsing, resolving, compiling\<close>

lemma resolve_none_links:
  assumes "\<And>x. x \<in> set (doc_schemas d) \<Longrightarrow> tree n (dp_heap st) A x"
    and "\<And>x. x \<in> set (doc_schemas d) \<Longrightarrow> component_refs d (dp_heap st) x" and "n = size r + 2"
  obtains st' R where "resolve_document env None r d st = Some st'" "dp_errors st' = dp_errors st" "dp_trace st' = dp_trace st"
    "dp_heap st' = link_all d R (dp_heap st)"
proof -
  obtain c a where c: "oas_ref_ctx_create (rv_alloc env) (Some (dp_arena st)) (Some r) = (c :: ('a, 'b) oas_ref_ctx option, a)"
    by fastforce
  show thesis
  proof (cases c)
    case None
    show thesis
      by (rule that [of "st\<lparr>dp_arena := the a\<rparr>" "{}"]) (use None c in \<open>simp_all add: resolve_document_def\<close>)
  next
    case (Some ctx)
    let ?rs = "ref_state_of ctx st"
    have o: "rx_cache ctx = None"
      using Some c by (auto simp: oas_ref_ctx_create_def split: prod.splits option.splits)
    have h: "rx_schemas ?rs = dp_heap st" by (simp add: ref_state_of_def)
    obtain R where a: "oas_ref_resolve_all (Suc n) (OAS_MAX_REF_DEPTH + 1) env (Some d) (Some ?rs) =
        Some (None, Some (?rs\<lparr>rx_schemas := link_all d R (dp_heap st)\<rparr>))"
      using resolve_all_links [of d ?rs n "OAS_MAX_REF_DEPTH + 1" env] assms(1,2) tree_walk_depth unfolding h by blast
    have e: "Suc n = size r + 3" using assms(3) by simp
    have "resolve_document env None r d st = Some (parser_state_of (?rs\<lparr>rx_schemas := link_all d R (dp_heap st)\<rparr>))"
      using Some c a o unfolding e
      by (auto simp: resolve_document_def set_up_cache_def Let_def oas_ref_cache_destroy_def ref_state_of_def split: prod.split)
    then show thesis by (rule that) (simp_all add: parser_state_of_def ref_state_of_def)
  qed
qed

lemma resolve_none:
  assumes "\<And>x. x \<in> set (doc_schemas d) \<Longrightarrow> tree n (dp_heap st) A x"
    and "\<And>x. x \<in> set (doc_schemas d) \<Longrightarrow> component_refs d (dp_heap st) x"
    and "acyclic_refs d (dp_heap st) rank" and "n = size r + 2"
  obtains st' where "resolve_document env None r d st = Some st'" "dp_errors st' = dp_errors st" "dp_trace st' = dp_trace st"
    and "\<forall>p (env :: ('p, 'e) compile_env). Some p \<in> set (doc_schemas d) \<and> ce_heap env = dp_heap st' \<longrightarrow>
      oas_schema_compile (rank p * Suc n + n) env ok (Some p) errors \<noteq> None"
proof -
  obtain st' R where st': "resolve_document env None r d st = Some st'" "dp_errors st' = dp_errors st" "dp_trace st' = dp_trace st"
      "dp_heap st' = link_all d R (dp_heap st)"
    by (rule resolve_none_links [OF assms(1,2,4), where env = env])
  show thesis
  proof (rule that [OF st'(1-3)], intro allI impI)
    fix p and env :: "('p, 'e) compile_env"
    assume "Some p \<in> set (doc_schemas d) \<and> ce_heap env = dp_heap st'"
    then show "oas_schema_compile (rank p * Suc n + n) env ok (Some p) errors \<noteq> None"
      using st'(4) assms(1) by (intro returns_compile linked_compiles [OF assms(1,3)]) auto
  qed
qed


lemma two_checked:
  assumes "yy_obj_get_ok yy"
  shows "check_root yy two_root = Inr ''3.1.0''"
proof -
  have g: "yy_obj_get yy (JObj kvs) k = map_of kvs k" for kvs k using assms by (simp add: yy_obj_get_ok_def)
  show ?thesis by (simp add: check_root_def two_root_def str_at_def obj_at_def only_if_def g check_openapi_version_def cstr_def)
qed

lemma two_links:
  "doc_schemas two_doc = [Some 33554744, Some 33555224]"
  "x \<in> {Some 33554744, Some 33555224} \<Longrightarrow> component_refs two_doc two_heap x"
  "acyclic_refs two_doc two_heap (\<lambda>p. if p = 33555224 then 1 else 0)"
proof -
  have f: "children oas_schema_fresh = {None}" "children (oas_schema_fresh\<lparr>s_ref := r\<rparr>) = {None}" "s_ref oas_schema_fresh = None"
    "walked oas_schema_fresh = [None, None, None, None, None, None]"
    "walked (oas_schema_fresh\<lparr>s_ref := r\<rparr>) = [None, None, None, None, None, None]" for r
    by (auto simp: child_fields walked_def oas_schema_fresh_def)
  have c: "component_target two_doc ''#/components/schemas/A'' = Some 33554744"
    by (simp add: component_target_def Let_def component_prefix_def oas_jsonptr_from_ref_def find_component_schema_def two_doc_def)
  show "doc_schemas two_doc = [Some 33554744, Some 33555224]"
    by (simp add: doc_schemas_def two_doc_def component_schemas_def)
  have w: "walk_reaches two_doc two_heap (Some p) q \<Longrightarrow> q = p" for p q
    by (auto simp: two_heap_def f split: if_splits elim!: walk_reachesE)
  then show "component_refs two_doc two_heap x" if "x \<in> {Some 33554744, Some 33555224}" for x
    using that w by (auto simp: component_refs_def two_heap_def f c ref_target_def split: if_splits)
  show "acyclic_refs two_doc two_heap (\<lambda>p. if p = 33555224 then 1 else 0)"
    by (auto simp: acyclic_refs_def two_heap_def f c ref_target_def split: if_splits)
qed

text \<open>The small document, parsed.\<close>

lemma two_env:
  "yy_obj_get_ok (rv_yy (pv_ref (doc_parser_env two_root)))"
  "rv_alloc (pv_ref (doc_parser_env two_root)) = oas_arena_alloc sample_malloc"
  "yy_read (rv_yy (pv_ref (doc_parser_env two_root))) ''{}'' = Some two_root"
  "dp_heap doc_parser_start = Map.empty" "dp_arena doc_parser_start = small_arena" "dp_docs doc_parser_start = 0"
  using doc_yyjson_ok by (simp_all add: doc_parser_env_def doc_yyjson_def doc_parser_start_def)

lemmas two_start_built = two_built [OF two_env(1), of sample_malloc, folded two_env(4,5)]

lemma two_parsed:
  "\<exists>st'. oas_doc_parse_ex (doc_parser_env two_root) True (Some ''{}'') None doc_parser_start = Some (Some two_doc, st')"
proof -
  let ?st = "doc_parser_start\<lparr>dp_docs := 1, dp_arena := block_arena 1240, dp_heap := two_heap\<rparr>"
  have t: "tree (size two_root + 2) (dp_heap ?st) {p. two_heap p \<noteq> None} x" if "x \<in> set (doc_schemas two_doc)" for x
    using doc_build_grown_trees [OF sample_yyjson_ok(1) two_root_named sample_malloc_ok small_arena(2) _
        two_built [OF sample_yyjson_ok(1)] that] by simp
  have c: "component_refs two_doc (dp_heap ?st) x" if "x \<in> set (doc_schemas two_doc)" for x
    using that two_links(1,2) by simp
  have "acyclic_refs two_doc (dp_heap ?st) (\<lambda>p. if p = 33555224 then 1 else 0)" using two_links(3) by simp
  from resolve_none [OF t c this refl, of "pv_ref (doc_parser_env two_root)"]
  obtain st' where "resolve_document (pv_ref (doc_parser_env two_root)) None two_root two_doc ?st = Some st'" by blast
  then show ?thesis
    using two_start_built two_env
    by (simp add: parse_accepted [OF two_env(3) two_checked [OF two_env(1)]])
qed


section \<open>Documents and accesses\<close>

lemma set_up_cache_keeps:
  assumes "rx_cache rs = None" and "rx_options rs = None"
  shows "rx_docs (set_up_cache env opts rs) = rx_docs rs" "rx_freed (set_up_cache env opts rs) = rx_freed rs"
    "rx_trace (set_up_cache env opts rs) = rx_trace rs" "rx_options (set_up_cache env opts rs) = opts"
    "\<exists>m1 m2. rx_cache (set_up_cache env opts rs) = (case opts of None \<Rightarrow> None
      | Some x \<Rightarrow> oas_ref_cache_create m1 m2 (if ro_max_documents x > 0 then ro_max_documents x else 100))"
  using assms by (auto simp: set_up_cache_def oas_ref_ctx_set_options_def split: option.split prod.split)

text \<open>The largest value of the C \<open>int\<close> that limits the cache.\<close>

definition int_limit :: "'w oas_ref_options option \<Rightarrow> bool" where
  "int_limit opts \<longleftrightarrow> (\<forall>x. opts = Some x \<longrightarrow> ro_max_documents x < 2 ^ 31)"

lemma resolve_document_ok:
  assumes "resolve_document env opts r d st = Some st'"
  shows "\<exists>new. dp_trace st' = new @ dp_trace st \<and> list_all (allowed opts) new"
    and "int_limit opts \<Longrightarrow> mset (dp_freed st) + K = mset [0..<dp_docs st] \<Longrightarrow>
      mset (dp_freed st') + K = mset [0..<dp_docs st']"
proof -
  obtain c a where c: "oas_ref_ctx_create (rv_alloc env) (Some (dp_arena st)) (Some r) = (c :: ('a, 'b) oas_ref_ctx option, a)"
    by fastforce
  have "(\<exists>new. dp_trace st' = new @ dp_trace st \<and> list_all (allowed opts) new) \<and>
    (int_limit opts \<longrightarrow> mset (dp_freed st) + K = mset [0..<dp_docs st] \<longrightarrow> mset (dp_freed st') + K = mset [0..<dp_docs st'])"
  proof (cases c)
    case None
    then show ?thesis using assms c by (auto simp: resolve_document_def)
  next
    case (Some ctx)
    define rs where "rs = set_up_cache env opts (ref_state_of ctx st)"
    have n: "rx_cache (ref_state_of ctx st) = None" "rx_options (ref_state_of ctx st) = None"
      using Some c by (auto simp: oas_ref_ctx_create_def ref_state_of_def split: prod.splits option.splits)
    note k = set_up_cache_keeps [OF n, of env opts, folded rs_def]
    obtain rc rs' where r: "oas_ref_resolve_all (size r + 3) (OAS_MAX_REF_DEPTH + 1) env (Some d) (Some rs) = Some (rc, rs')"
      and st': "st' = parser_state_of (the rs'\<lparr>rx_freed := oas_ref_cache_destroy (rx_cache (the rs')) @ rx_freed (the rs')\<rparr>)"
      using assms Some c by (auto simp: resolve_document_def rs_def Let_def bind_eq_Some_conv)
    have ok: "run_ok rs (the rs')" by (rule resolve_all_run_ok [OF r])
    have "mset (dp_freed st') + K = mset [0..<dp_docs st']"
      if l: "int_limit opts" and m: "mset (dp_freed st) + K = mset [0..<dp_docs st]"
    proof (cases "rx_cache rs")
      case None
      then show ?thesis using idle_resolve_all [OF r None] k m
        by (simp add: st' parser_state_of_def ref_state_of_def oas_ref_cache_destroy_def)
    next
      case (Some cache)
      then obtain m1 m2 x where x: "opts = Some x"
          "oas_ref_cache_create m1 m2 (if ro_max_documents x > 0 then ro_max_documents x else 100) = Some cache"
        using k(5) by (auto split: option.splits)
      have "(if ro_max_documents x > 0 then ro_max_documents x else 100) < 2 ^ 31" using l x(1) by (simp add: int_limit_def)
      note e = cache_create_ok [OF x(2) this]
      have "cache_docs cache = []" using e(1,2) cache_map_iff [OF e(1)]
        by (auto simp: cache_docs_def) (metis list.set_intros(1) neq_Nil_conv option.distinct(1))
      then have "docs_ok K rs" using k m e(1) Some by (simp add: docs_ok_def ref_state_of_def)
      then have "docs_ok K (the rs')" using ok by (simp add: run_ok_def)
      then show ?thesis
        by (auto simp: docs_ok_def st' parser_state_of_def destroy_docs add_ac split: option.splits)
    qed
    moreover obtain new where "rx_trace (the rs') = new @ rx_trace rs" "list_all (allowed (rx_options rs)) new"
      using ok by (auto simp: run_ok_def)
    ultimately show ?thesis using k by (simp add: st' parser_state_of_def ref_state_of_def)
  qed
  then show "\<exists>new. dp_trace st' = new @ dp_trace st \<and> list_all (allowed opts) new"
    and "int_limit opts \<Longrightarrow> mset (dp_freed st) + K = mset [0..<dp_docs st] \<Longrightarrow>
      mset (dp_freed st') + K = mset [0..<dp_docs st']" by blast+
qed

lemma parse_ex_outcome:
  assumes "oas_doc_parse_ex env arena json opts st = Some (d, st')"
  shows "(d = None \<and> dp_trace st' = dp_trace st \<and>
      (dp_docs st' = dp_docs st \<and> dp_freed st' = dp_freed st \<or>
       dp_docs st' = dp_docs st + 1 \<and> dp_freed st' = dp_docs st # dp_freed st)) \<or>
    (\<exists>dd r st1. d = Some dd \<and> d_json_doc dd = Some (dp_docs st) \<and> dp_docs st1 = dp_docs st + 1 \<and>
      dp_freed st1 = dp_freed st \<and> dp_trace st1 = dp_trace st \<and> resolve_document (pv_ref env) opts r dd st1 = Some st')"
proof (cases "\<exists>t r v. arena \<and> json = Some t \<and> yy_read (rv_yy (pv_ref env)) t = Some r \<and> check_root (rv_yy (pv_ref env)) r = Inr v")
  case True
  then obtain t r v where t: "arena" "json = Some t" "yy_read (rv_yy (pv_ref env)) t = Some r"
    "check_root (rv_yy (pv_ref env)) r = Inr v" by blast
  have j: "build_doc yy alloc doc v' r' s = Some (Some dd, s') \<Longrightarrow> d_json_doc dd = doc" for yy alloc doc v' r' dd
    and s s' :: "'a parse_state"
    by (auto simp: build_doc_def read_struct_def bind_eq_Some_conv split: option.splits prod.splits)
  show ?thesis
    using assms t(1,2) unfolding t(1,2) simp_thms parse_accepted [OF t(3,4)]
    by (auto simp: bind_eq_Some_conv t(1) parse_accepted [OF t(3,4)] split: option.splits dest!: j)
next
  case False
  then show ?thesis using assms
    by (auto simp: oas_doc_parse_ex_def oas_json_parse_def oas_json_free_def no_json_doc_def parser_report_def Let_def
        split: if_splits option.splits sum.splits)
qed

lemma parse_ex_cases [consumes 1, case_names untouched freed doc]:
  assumes "oas_doc_parse_ex env arena json opts st = Some (d, st')"
  obtains (untouched) "d = None" "dp_trace st' = dp_trace st" "dp_docs st' = dp_docs st" "dp_freed st' = dp_freed st"
    | (freed) "d = None" "dp_trace st' = dp_trace st" "dp_docs st' = dp_docs st + 1" "dp_freed st' = dp_docs st # dp_freed st"
    | (doc) dd r st1 where "d = Some dd" "d_json_doc dd = Some (dp_docs st)" "dp_docs st1 = dp_docs st + 1"
      "dp_freed st1 = dp_freed st" "dp_trace st1 = dp_trace st" "resolve_document (pv_ref env) opts r dd st1 = Some st'"
  using parse_ex_outcome [OF assms] by blast

lemma parse_ex_documents:
  assumes "oas_doc_parse_ex env arena json opts st = Some (d, st')" and "int_limit opts"
    and "mset (dp_freed st) + K = mset [0..<dp_docs st]"
  shows "mset (dp_freed st') + mset (snd (oas_doc_free d)) + K = mset [0..<dp_docs st']"
  using assms(1)
proof (cases rule: parse_ex_cases)
  case untouched
  then show ?thesis using assms(3) by (simp add: oas_doc_free_def)
next
  case freed
  then show ?thesis using assms(3) by (simp add: oas_doc_free_def)
next
  case (doc dd r st1)
  have "mset (dp_freed st1) + (add_mset (dp_docs st) K) = mset [0..<dp_docs st1]" using doc(3,4) assms(3) by simp
  from resolve_document_ok(2) [OF doc(6) assms(2) this] show ?thesis using doc(1,2) by (simp add: oas_doc_free_def)
qed

text \<open>
  C28. No JSON document is lost and none is freed twice: if \<open>K\<close> are the documents others own, then
  after any call of \<open>oas_doc_parse_ex\<close> all documents read so far are freed or in \<open>K\<close>, except the
  one the returned document owns, which \<open>oas_doc_free\<close> releases. In particular every external
  document is freed when the call returns, although schemas made from it stay in the document.
\<close>

theorem doc_parse_documents:
  assumes "oas_doc_parse_ex env arena json opts st = Some (d, st')" and "int_limit opts"
    and "mset (dp_freed st) + K = mset [0..<dp_docs st]"
  shows "mset (dp_freed st') + mset (snd (oas_doc_free d)) + K = mset [0..<dp_docs st']"
  by (rule parse_ex_documents [OF assms])

theorem doc_parse_documents_witness:
  "\<exists>d st'. oas_doc_parse_ex (doc_parser_env two_root) True (Some ''{}'') None doc_parser_start = Some (d, st') \<and>
    mset (dp_freed st') + mset (snd (oas_doc_free d)) = mset [0..<dp_docs st']"
proof -
  obtain d st' where p: "oas_doc_parse_ex (doc_parser_env two_root) True (Some ''{}'') None doc_parser_start = Some (d, st')"
    using two_parsed by blast
  from doc_parse_documents [OF p, of "{#}"] show ?thesis
    using p by (auto simp: int_limit_def doc_parser_start_def)
qed

text \<open>
  C29. Parsing a document touches nothing its options forbid: without options, as in
  \<open>oas_doc_parse\<close>, no file is opened and nothing is fetched; with them, files are opened only
  where files are allowed and never at a path with a parent segment, and the network is asked
  only where remote references are allowed.
\<close>

theorem doc_parse_accesses:
  assumes "oas_doc_parse_ex env arena json opts st = Some (d, st')"
  shows "\<exists>new. dp_trace st' = new @ dp_trace st \<and>
    (\<forall>p. Opened p \<in> set new \<longrightarrow> (\<exists>x. opts = Some x \<and> ro_allow_file x) \<and> ''..'' \<notin> set (split_on CHR ''/'' p)) \<and>
    (\<forall>u. Fetched u \<in> set new \<longrightarrow> (\<exists>x. opts = Some x \<and> ro_allow_remote x))"
proof -
  have "\<exists>new. dp_trace st' = new @ dp_trace st \<and> list_all (allowed opts) new"
    using assms
  proof (cases rule: parse_ex_cases)
    case (doc dd r st1)
    then show ?thesis using resolve_document_ok(1) [OF doc(6)] by simp
  qed simp_all
  then show ?thesis by (fastforce simp: list_all_iff option.pred_set)
qed

theorem doc_parse_accesses_witness:
  "\<exists>st'. oas_doc_parse_ex (doc_parser_env two_root) True (Some ''{}'') None doc_parser_start = Some (Some two_doc, st') \<and>
    dp_trace st' = []"
proof -
  obtain st' where p: "oas_doc_parse_ex (doc_parser_env two_root) True (Some ''{}'') None doc_parser_start = Some (Some two_doc, st')"
    using two_parsed by blast
  obtain new where n: "dp_trace st' = new @ dp_trace doc_parser_start" "\<forall>p. Opened p \<notin> set new" "\<forall>u. Fetched u \<notin> set new"
    using doc_parse_accesses [OF p] by auto
  have "new = []"
  proof (cases new)
    case (Cons a as)
    then show ?thesis using n(2,3) by (cases a) auto
  qed simp
  then show ?thesis using p n(1) by (simp add: doc_parser_start_def)
qed

end
