(* ===== verification/Liboas_Emitter.thy ===== *)
theory Liboas_Emitter
  imports Liboas_Doc
begin

text \<open>
  The emitters (\<open>src/emitter/oas_emitter.c\<close>, \<open>src/emitter/oas_yaml_emitter.c\<close>): a document or a
  schema as a JSON value, and that value written as text. yyjson's builder is not part of the
  repository. Of it the model uses that an object or array takes its members in the order they are
  added, that a null key, value or string adds nothing, and that a copied value is the same value;
  the memory of the builder is granted. Writing a value may fail.
\<close>

section \<open>Values under construction\<close>

text \<open>
  What a call gives: a null pointer is \<open>Some None\<close>, and \<open>None\<close> means that it does not come back,
  because the fuel is used up or a pointer leads to no node.
\<close>

type_synonym emission = "json option option"

type_synonym member = "string option \<times> emission"

fun add_members :: "member list \<Rightarrow> (string \<times> json) list option" where
  "add_members [] = Some []"
| "add_members ((k, e) # ms) = do {
     x \<leftarrow> e;
     kvs \<leftarrow> add_members ms;
     Some (case (k, x) of (Some k, Some v) \<Rightarrow> (k, v) # kvs | _ \<Rightarrow> kvs)
   }"

fun append_values :: "emission list \<Rightarrow> json list option" where
  "append_values [] = Some []"
| "append_values (e # es) = do {
     x \<leftarrow> e;
     vs \<leftarrow> append_values es;
     Some (case x of None \<Rightarrow> vs | Some v \<Rightarrow> v # vs)
   }"

definition new_obj :: "member list \<Rightarrow> emission" where
  "new_obj ms = map_option (Some \<circ> JObj) (add_members ms)"

definition new_arr :: "emission list \<Rightarrow> emission" where
  "new_arr es = map_option (Some \<circ> JArr) (append_values es)"

text \<open>A member of an object, added under a condition.\<close>

definition member_if :: "bool \<Rightarrow> string \<Rightarrow> emission \<Rightarrow> member" where
  "member_if b k e = (Some k, if b then e else Some None)"

definition str_val :: "string option \<Rightarrow> emission" where
  "str_val x = Some (map_option JStr x)"

definition str_member :: "string \<Rightarrow> string option \<Rightarrow> member" where
  "str_member k x = (Some k, str_val x)"

definition true_member :: "string \<Rightarrow> bool \<Rightarrow> member" where
  "true_member k b = member_if b k (Some (Some (JBool True)))"

definition int_member :: "string \<Rightarrow> int \<Rightarrow> member" where
  "int_member k n = member_if (0 \<le> n) k (Some (Some (JSint (word_of_int n))))"

definition real_member :: "string \<Rightarrow> bool \<Rightarrow> double \<Rightarrow> member" where
  "real_member k b d = member_if b k (Some (Some (JReal d)))"

definition copy_member :: "string \<Rightarrow> json option \<Rightarrow> member" where
  "copy_member k v = (Some k, Some v)"

text \<open>An array or object that is made only for a nonempty list.\<close>

definition arr_member :: "string \<Rightarrow> ('x \<Rightarrow> emission) \<Rightarrow> 'x list \<Rightarrow> member" where
  "arr_member k f xs = member_if (xs \<noteq> []) k (new_arr (map f xs))"

definition obj_member :: "string \<Rightarrow> ('x \<Rightarrow> member) \<Rightarrow> 'x list \<Rightarrow> member" where
  "obj_member k f xs = member_if (xs \<noteq> []) k (new_obj (map f xs))"

section \<open>Types\<close>

definition type_name_single :: "u8 \<Rightarrow> string option" where
  "type_name_single b =
     (if b = OAS_TYPE_NULL then Some ''null''
      else if b = OAS_TYPE_BOOLEAN then Some ''boolean''
      else if b = OAS_TYPE_INTEGER then Some ''integer''
      else if b = OAS_TYPE_NUMBER then Some ''number''
      else if b = OAS_TYPE_STRING then Some ''string''
      else if b = OAS_TYPE_ARRAY then Some ''array''
      else if b = OAS_TYPE_OBJECT then Some ''object''
      else None)"

function popcount8 :: "u8 \<Rightarrow> nat" where
  "popcount8 v = (if v = 0 then 0 else unat (v AND 1) + popcount8 (drop_bit 1 v))"
  by auto

termination
proof (relation "measure unat")
  fix v :: u8
  assume "v \<noteq> 0"
  then have "0 < unat v" by (simp add: unat_gt_0)
  then show "(drop_bit 1 v, v) \<in> measure unat" by (simp add: drop_bit_eq_div unat_div)
qed simp

declare popcount8.simps [simp del]

definition type_bits_up :: "u8 list" where
  "type_bits_up = [0x01, 0x02, 0x04, 0x08, 0x10, 0x20, 0x40]"

definition emit_type :: "u8 \<Rightarrow> json option" where
  "emit_type m =
     (if m = 0 then None
      else if popcount8 m = 1 then map_option JStr (type_name_single m)
      else Some (JArr (List.map_filter
             (\<lambda>b. if m AND b \<noteq> 0 then map_option JStr (type_name_single b) else None) type_bits_up)))"

section \<open>Schemas\<close>

definition emit_discriminator :: "oas_schema \<Rightarrow> emission" where
  "emit_discriminator s = new_obj
     [str_member ''propertyName'' (s_discriminator_property s),
      obj_member ''mapping'' (\<lambda>m. str_member (dm_key m) (dm_ref m)) (s_discriminator_mapping s)]"

text \<open>The members of a schema object in the order of the code, in five groups; \<open>sub\<close> emits a sub-schema.\<close>

definition value_members :: "oas_schema \<Rightarrow> member list" where
  "value_members s =
     [str_member ''$ref'' (s_ref s),
      (Some ''type'', Some (emit_type (s_type_mask s))),
      str_member ''title'' (s_title s),
      str_member ''description'' (s_description s),
      str_member ''format'' (s_format s),
      int_member ''minLength'' (s_min_length s),
      int_member ''maxLength'' (s_max_length s),
      str_member ''pattern'' (s_pattern s),
      real_member ''minimum'' (s_has_minimum s) (s_minimum s),
      real_member ''maximum'' (s_has_maximum s) (s_maximum s),
      real_member ''exclusiveMinimum'' (s_has_exclusive_minimum s) (s_exclusive_minimum s),
      real_member ''exclusiveMaximum'' (s_has_exclusive_maximum s) (s_exclusive_maximum s),
      real_member ''multipleOf'' (s_has_multiple_of s) (s_multiple_of s)]"

definition array_members :: "(sref option \<Rightarrow> emission) \<Rightarrow> oas_schema \<Rightarrow> member list" where
  "array_members sub s =
     [(Some ''items'', sub (s_items s)),
      arr_member ''prefixItems'' sub (s_prefix_items s),
      int_member ''minItems'' (s_min_items s),
      int_member ''maxItems'' (s_max_items s),
      true_member ''uniqueItems'' (s_unique_items s),
      (Some ''contains'', sub (s_contains s)),
      int_member ''minContains'' (s_min_contains s),
      int_member ''maxContains'' (s_max_contains s)]"

definition object_members :: "(sref option \<Rightarrow> emission) \<Rightarrow> oas_schema \<Rightarrow> member list" where
  "object_members sub s =
     [obj_member ''properties'' (\<lambda>p. (Some (p_name p), sub (p_schema p))) (s_properties s),
      arr_member ''required'' (\<lambda>n. str_val (Some n)) (s_required s),
      (Some ''additionalProperties'',
         if s_additional_properties_bool s then Some (Some (JBool (s_additional_properties s \<noteq> None)))
         else sub (s_additional_properties s)),
      int_member ''minProperties'' (s_min_properties s),
      int_member ''maxProperties'' (s_max_properties s),
      (Some ''propertyNames'', sub (s_property_names s)),
      obj_member ''patternProperties'' (\<lambda>e. (pp_pattern e, sub (pp_schema e))) (s_pattern_properties s),
      obj_member ''dependentRequired''
         (\<lambda>e. (Some (dr_property e), new_arr (map (\<lambda>n. str_val (Some n)) (dr_required e)))) (s_dependent_required s),
      obj_member ''dependentSchemas'' (\<lambda>e. (Some (ds_property e), sub (ds_schema e))) (s_dependent_schemas s)]"

definition composition_members :: "(sref option \<Rightarrow> emission) \<Rightarrow> oas_schema \<Rightarrow> member list" where
  "composition_members sub s =
     [arr_member ''allOf'' sub (s_all_of s),
      arr_member ''anyOf'' sub (s_any_of s),
      arr_member ''oneOf'' sub (s_one_of s),
      (Some ''not'', sub (s_not_schema s)),
      (Some ''if'', sub (s_if_schema s)),
      (Some ''then'', sub (s_then_schema s)),
      (Some ''else'', sub (s_else_schema s))]"

definition annotation_members :: "oas_schema \<Rightarrow> member list" where
  "annotation_members s =
     [copy_member ''enum'' (s_enum_values s),
      copy_member ''const'' (s_const_value s),
      copy_member ''default'' (s_default_value s),
      true_member ''nullable'' (s_nullable s),
      true_member ''readOnly'' (s_read_only s),
      true_member ''writeOnly'' (s_write_only s),
      true_member ''deprecated'' (s_deprecated s),
      member_if (s_discriminator_property s \<noteq> None) ''discriminator'' (emit_discriminator s)]"

definition schema_members :: "(sref option \<Rightarrow> emission) \<Rightarrow> oas_schema \<Rightarrow> member list" where
  "schema_members sub s =
     value_members s @ array_members sub s @ object_members sub s @ composition_members sub s @ annotation_members s"

lemmas schema_member_groups = schema_members_def value_members_def array_members_def object_members_def
  composition_members_def annotation_members_def append.simps

primrec oas_emit_build_schema :: "nat \<Rightarrow> schema_heap \<Rightarrow> sref option \<Rightarrow> emission" where
  "oas_emit_build_schema 0 heap x = None"
| "oas_emit_build_schema (Suc fuel) heap x =
     (case x of
        None \<Rightarrow> Some None
      | Some p \<Rightarrow> do { s \<leftarrow> heap p; new_obj (schema_members (oas_emit_build_schema fuel heap) s) })"

section \<open>Operations\<close>

text \<open>An object, or a null pointer for one.\<close>

definition emit_node :: "('x \<Rightarrow> member list) \<Rightarrow> 'x option \<Rightarrow> emission" where
  "emit_node f x = (case x of None \<Rightarrow> Some None | Some y \<Rightarrow> new_obj (f y))"

definition emit_parameter :: "(sref option \<Rightarrow> emission) \<Rightarrow> oas_parameter option \<Rightarrow> emission" where
  "emit_parameter sub = emit_node (\<lambda>param.
     [str_member ''name'' (pa_name param),
      str_member ''in'' (pa_in param),
      str_member ''description'' (pa_description param),
      true_member ''required'' (pa_required param),
      true_member ''deprecated'' (pa_deprecated param),
      (Some ''schema'', sub (pa_schema param))])"

definition emit_media_type_content :: "(sref option \<Rightarrow> emission) \<Rightarrow> oas_media_type_entry list \<Rightarrow> emission" where
  "emit_media_type_content sub entries =
     (if entries = [] then Some None
      else new_obj (map (\<lambda>e. (Some (me_key e),
             new_obj [(Some ''schema'', sub (Option.bind (me_value e) mt_schema))])) entries))"

definition emit_request_body :: "(sref option \<Rightarrow> emission) \<Rightarrow> oas_request_body option \<Rightarrow> emission" where
  "emit_request_body sub = emit_node (\<lambda>rb.
     [str_member ''description'' (rb_description rb),
      true_member ''required'' (rb_required rb),
      (Some ''content'', emit_media_type_content sub (rb_content rb))])"

text \<open>A response, which is an empty object where the pointer is null.\<close>

definition emit_response :: "(sref option \<Rightarrow> emission) \<Rightarrow> oas_response option \<Rightarrow> emission" where
  "emit_response sub r = new_obj
     (case r of
        None \<Rightarrow> []
      | Some r \<Rightarrow>
          [str_member ''description'' (re_description r),
           (Some ''content'', emit_media_type_content sub (re_content r))])"

definition emit_responses :: "(sref option \<Rightarrow> emission) \<Rightarrow> oas_response_entry list \<Rightarrow> emission" where
  "emit_responses sub entries =
     (if entries = [] then Some None
      else new_obj (map (\<lambda>e. (Some (rn_status_code e), emit_response sub (rn_response e))) entries))"

definition emit_requirement :: "oas_security_req option \<Rightarrow> emission" where
  "emit_requirement r = new_obj
     (case r of None \<Rightarrow> [] | Some r \<Rightarrow> [(Some (sr_name r), new_arr (map str_val (sr_scopes r)))])"

definition emit_operation :: "(sref option \<Rightarrow> emission) \<Rightarrow> oas_operation option \<Rightarrow> emission" where
  "emit_operation sub = emit_node (\<lambda>opn.
     [str_member ''operationId'' (op_operation_id opn),
      str_member ''summary'' (op_summary opn),
      str_member ''description'' (op_description opn),
      arr_member ''tags'' str_val (op_tags opn),
      arr_member ''parameters'' (emit_parameter sub) (op_parameters opn),
      (Some ''requestBody'', emit_request_body sub (op_request_body opn)),
      (Some ''responses'', emit_responses sub (op_responses opn)),
      arr_member ''security'' emit_requirement (op_security opn),
      true_member ''deprecated'' (op_deprecated opn)])"

definition emit_path_item :: "(sref option \<Rightarrow> emission) \<Rightarrow> oas_path_item option \<Rightarrow> emission" where
  "emit_path_item sub = emit_node (\<lambda>item.
     map (\<lambda>(k, opn). (Some k, emit_operation sub opn))
       [(''get'', pi_get item), (''post'', pi_post item), (''put'', pi_put item), (''delete'', pi_delete item),
        (''patch'', pi_patch item), (''head'', pi_head item), (''options'', pi_options item)]
     @ [arr_member ''parameters'' (emit_parameter sub) (pi_parameters item)])"

section \<open>Information and servers\<close>

definition emit_contact :: "oas_contact option \<Rightarrow> emission" where
  "emit_contact = emit_node (\<lambda>c.
     [str_member ''name'' (ct_name c), str_member ''url'' (ct_url c), str_member ''email'' (ct_email c)])"

definition emit_license :: "oas_license option \<Rightarrow> emission" where
  "emit_license = emit_node (\<lambda>l.
     [str_member ''name'' (lc_name l), str_member ''url'' (lc_url l), str_member ''identifier'' (lc_identifier l)])"

definition emit_info :: "oas_info option \<Rightarrow> emission" where
  "emit_info = emit_node (\<lambda>info.
     [str_member ''title'' (in_title info),
      str_member ''summary'' (in_summary info),
      str_member ''description'' (in_description info),
      str_member ''version'' (in_version info),
      str_member ''termsOfService'' (in_terms_of_service info),
      (Some ''contact'', emit_contact (in_contact info)),
      (Some ''license'', emit_license (in_license info))])"

text \<open>A variable without a node or a name is left out.\<close>

definition emit_server_var :: "oas_server_var option \<Rightarrow> member" where
  "emit_server_var v =
     (Option.bind v sv_name,
      emit_node (\<lambda>v. [str_member ''default'' (sv_default_value v), str_member ''description'' (sv_description v),
                       arr_member ''enum'' str_val (sv_enum_values v)]) v)"

definition emit_server :: "oas_server option \<Rightarrow> emission" where
  "emit_server = emit_node (\<lambda>server.
     [str_member ''url'' (se_url server),
      str_member ''description'' (se_description server),
      obj_member ''variables'' emit_server_var (se_variables server)])"

section \<open>Components\<close>

text \<open>OAuth flows and the address of OpenID Connect are not written.\<close>

definition emit_security_scheme :: "oas_security_scheme option \<Rightarrow> emission" where
  "emit_security_scheme = emit_node (\<lambda>s.
     [str_member ''type'' (ss_type s), str_member ''name'' (ss_name s), str_member ''in'' (ss_in s),
      str_member ''scheme'' (ss_scheme s), str_member ''bearerFormat'' (ss_bearer_format s),
      str_member ''description'' (ss_description s)])"

definition entry_members :: "string \<Rightarrow> ('x \<Rightarrow> emission) \<Rightarrow> (string \<times> 'x) list \<Rightarrow> member" where
  "entry_members k f es = obj_member k (\<lambda>(name, x). (Some name, f x)) es"

definition emit_components :: "(sref option \<Rightarrow> emission) \<Rightarrow> oas_components option \<Rightarrow> emission" where
  "emit_components sub = emit_node (\<lambda>co.
     [entry_members ''schemas'' sub (co_schemas co),
      entry_members ''securitySchemes'' emit_security_scheme (co_security_schemes co),
      entry_members ''responses'' (emit_response sub) (co_comp_responses co),
      entry_members ''parameters'' (emit_parameter sub) (co_parameters co),
      entry_members ''requestBodies'' (emit_request_body sub) (co_request_bodies co),
      entry_members ''headers'' (emit_parameter sub) (co_headers co)])"

section \<open>Documents\<close>

definition emit_tag :: "oas_tag option \<Rightarrow> emission" where
  "emit_tag = emit_node (\<lambda>t. [str_member ''name'' (tg_name t), str_member ''description'' (tg_description t)])"

definition doc_members :: "(sref option \<Rightarrow> emission) \<Rightarrow> oas_doc \<Rightarrow> member list" where
  "doc_members sub oas =
     [str_member ''openapi'' (d_openapi oas),
      (Some ''info'', emit_info (d_info oas)),
      arr_member ''servers'' emit_server (d_servers oas),
      obj_member ''paths'' (\<lambda>e. (Some (pe_path e), emit_path_item sub (pe_item e))) (d_paths oas),
      (Some ''components'', emit_components sub (d_components oas)),
      arr_member ''tags'' emit_tag (d_tags oas),
      arr_member ''security'' emit_requirement (d_security oas)]"

definition oas_emit_build_doc :: "nat \<Rightarrow> schema_heap \<Rightarrow> oas_doc \<Rightarrow> emission" where
  "oas_emit_build_doc fuel heap oas = new_obj (doc_members (oas_emit_build_schema fuel heap) oas)"

section \<open>Text\<close>

text \<open>
  Whether a builder can be made, and the writers: \<open>yyjson_mut_write\<close> with or without indentation,
  and libfyaml's, which reads the JSON text and writes it again as YAML. A result is the text, or
  \<open>None\<close> for a null pointer, and the length left behind \<open>out_len\<close>, which may itself be null.
\<close>

record emitter_env =
  ee_doc_new :: bool
  ee_write :: "bool \<Rightarrow> json \<Rightarrow> string option"
  ee_fy_read :: "string \<Rightarrow> string option"
  ee_fy_write :: "bool \<Rightarrow> string \<Rightarrow> string option"

record oas_emit_options =
  eo_pretty :: bool

type_synonym written = "string option \<times> nat option"

definition write_json :: "emitter_env \<Rightarrow> oas_emit_options option \<Rightarrow> nat option \<Rightarrow> json \<Rightarrow> written" where
  "write_json env options out_len v =
     (let t = ee_write env (case options of None \<Rightarrow> False | Some opts \<Rightarrow> eo_pretty opts) v
      in (t, map_option (\<lambda>n. case t of None \<Rightarrow> 0 | Some s \<Rightarrow> length s) out_len))"

text \<open>libfyaml's document is named by the text it was read from.\<close>

definition mut_doc_to_yaml :: "emitter_env \<Rightarrow> bool \<Rightarrow> nat option \<Rightarrow> json \<Rightarrow> written" where
  "mut_doc_to_yaml env pretty out_len v =
     (case Option.bind (Option.bind (ee_write env False v) (ee_fy_read env)) (ee_fy_write env pretty) of
        None \<Rightarrow> (None, out_len)
      | Some t \<Rightarrow> (Some t, map_option (\<lambda>n. length t) out_len))"

definition write_yaml :: "emitter_env \<Rightarrow> oas_emit_options option \<Rightarrow> nat option \<Rightarrow> json \<Rightarrow> written" where
  "write_yaml env options out_len v =
     mut_doc_to_yaml env (case options of None \<Rightarrow> True | Some opts \<Rightarrow> eo_pretty opts) out_len v"

definition emit_with ::
    "emitter_env \<Rightarrow> (nat option \<Rightarrow> json \<Rightarrow> written) \<Rightarrow> ('x \<Rightarrow> emission) \<Rightarrow> 'x option \<Rightarrow> nat option \<Rightarrow> written option" where
  "emit_with env wr build x out_len =
     (case x of
        None \<Rightarrow> Some (None, out_len)
      | Some y \<Rightarrow>
          if \<not> ee_doc_new env then Some (None, out_len)
          else do {
            r \<leftarrow> build y;
            Some (case r of None \<Rightarrow> (None, out_len) | Some v \<Rightarrow> wr out_len v)
          })"

definition oas_doc_emit_json ::
    "emitter_env \<Rightarrow> nat \<Rightarrow> schema_heap \<Rightarrow> oas_doc option \<Rightarrow> oas_emit_options option \<Rightarrow> nat option \<Rightarrow> written option" where
  "oas_doc_emit_json env fuel heap oas options out_len =
     emit_with env (write_json env options) (oas_emit_build_doc fuel heap) oas out_len"

definition oas_schema_emit_json ::
    "emitter_env \<Rightarrow> nat \<Rightarrow> schema_heap \<Rightarrow> sref option \<Rightarrow> oas_emit_options option \<Rightarrow> nat option \<Rightarrow> written option" where
  "oas_schema_emit_json env fuel heap schema options out_len =
     emit_with env (write_json env options) (oas_emit_build_schema fuel heap \<circ> Some) schema out_len"

definition oas_doc_emit_yaml ::
    "emitter_env \<Rightarrow> nat \<Rightarrow> schema_heap \<Rightarrow> oas_doc option \<Rightarrow> oas_emit_options option \<Rightarrow> nat option \<Rightarrow> written option" where
  "oas_doc_emit_yaml env fuel heap oas options out_len =
     emit_with env (write_yaml env options) (oas_emit_build_doc fuel heap) oas out_len"

definition oas_schema_emit_yaml ::
    "emitter_env \<Rightarrow> nat \<Rightarrow> schema_heap \<Rightarrow> sref option \<Rightarrow> oas_emit_options option \<Rightarrow> nat option \<Rightarrow> written option" where
  "oas_schema_emit_yaml env fuel heap schema options out_len =
     emit_with env (write_yaml env options) (oas_emit_build_schema fuel heap \<circ> Some) schema out_len"

end
