(* ===== verification/Liboas_Emit_Spec.thy ===== *)
theory Liboas_Emit_Spec
  imports Liboas_Emitter Liboas_Doc_Parse
begin

text \<open>
  What the emitters write: they come back from every parsed document, they do not look at what a
  reference resolves to, and the operations of a document survive being written and parsed again.
\<close>

section \<open>Coming back\<close>

lemma add_members_append:
  "add_members (ms @ ns) = do { kvs \<leftarrow> add_members ms; lvs \<leftarrow> add_members ns; Some (kvs @ lvs) }"
proof (induction ms)
  case (Cons m ms)
  then show ?case
    by (cases m; cases "snd m") (auto simp: bind_eq_Some_conv split: option.split intro!: bind_option_cong)
qed (cases "add_members ns"; simp)

definition comes :: "emission \<Rightarrow> bool" where
  "comes e \<longleftrightarrow> e \<noteq> None"

lemma comes_bind: "(\<exists>y. Option.bind e f = Some y) \<longleftrightarrow> (\<exists>x. e = Some x \<and> (\<exists>y. f x = Some y))"
  by (cases e) auto

lemma add_members_comes: "(\<exists>kvs. add_members ms = Some kvs) \<longleftrightarrow> (\<forall>m \<in> set ms. comes (snd m))"
proof (induction ms)
  case (Cons m ms)
  then show ?case by (cases m) (simp add: comes_bind comes_def)
qed simp

lemma append_values_comes: "(\<exists>vs. append_values es = Some vs) \<longleftrightarrow> (\<forall>e \<in> set es. comes e)"
  by (induction es) (simp_all add: comes_bind comes_def)

lemma comes_rules:
  "comes (Some x)" "comes (new_obj ms) \<longleftrightarrow> (\<forall>m \<in> set ms. comes (snd m))"
  "comes (new_arr es) \<longleftrightarrow> (\<forall>e \<in> set es. comes e)" "comes (str_val y)"
  "comes (snd (str_member k y))" "comes (snd (true_member k b))" "comes (snd (int_member k n))"
  "comes (snd (real_member k b d))" "comes (snd (copy_member k v))"
  "comes (snd (member_if b k e)) \<longleftrightarrow> (b \<longrightarrow> comes e)"
  "comes (snd (arr_member k f xs)) \<longleftrightarrow> (\<forall>x \<in> set xs. comes (f x))"
  "comes (snd (obj_member k g xs)) \<longleftrightarrow> (\<forall>x \<in> set xs. comes (snd (g x)))"
  "comes (emit_node h z) \<longleftrightarrow> (\<forall>y. z = Some y \<longrightarrow> (\<forall>m \<in> set (h y). comes (snd m)))"
proof -
  show o: "comes (new_obj ms) \<longleftrightarrow> (\<forall>m \<in> set ms. comes (snd m))" for ms
    using add_members_comes [of ms] by (auto simp: new_obj_def comes_def)
  show a: "comes (new_arr es) \<longleftrightarrow> (\<forall>e \<in> set es. comes e)" for es
    using append_values_comes [of es] by (auto simp: new_arr_def comes_def)
  show i: "comes (snd (member_if b k e)) \<longleftrightarrow> (b \<longrightarrow> comes e)" for b e by (simp add: member_if_def comes_def)
  show "comes (snd (arr_member k f xs)) \<longleftrightarrow> (\<forall>x \<in> set xs. comes (f x))"
    "comes (snd (obj_member k g xs)) \<longleftrightarrow> (\<forall>x \<in> set xs. comes (snd (g x)))"
    by (auto simp: arr_member_def obj_member_def i o a)
  show "comes (emit_node h z) \<longleftrightarrow> (\<forall>y. z = Some y \<longrightarrow> (\<forall>m \<in> set (h y). comes (snd m)))"
    by (cases z) (simp_all add: emit_node_def o, simp add: comes_def)
qed (simp_all add: comes_def str_val_def str_member_def true_member_def int_member_def real_member_def
    copy_member_def member_if_def)

text \<open>The sub-schemas the emitter goes down to.\<close>

definition written_below :: "oas_schema \<Rightarrow> sref option set" where
  "written_below s = {s_items s, s_contains s, s_additional_properties s, s_property_names s, s_not_schema s,
     s_if_schema s, s_then_schema s, s_else_schema s} \<union> set (s_prefix_items s) \<union> p_schema ` set (s_properties s) \<union>
     pp_schema ` set (s_pattern_properties s) \<union> ds_schema ` set (s_dependent_schemas s) \<union>
     set (s_all_of s) \<union> set (s_any_of s) \<union> set (s_one_of s)"

lemma written_below_children:
  assumes "s_ref_resolved s = None"
  shows "written_below s \<subseteq> insert None (children s)"
proof -
  have "children s = subschemas s \<union> {s_unevaluated_properties s, s_unevaluated_items s}"
    using assms by (simp add: children_def followed_def)
  then show ?thesis unfolding written_below_def subschemas_def by (simp only:) blast
qed

lemma schema_members_come:
  assumes "\<And>y. y \<in> written_below s \<Longrightarrow> comes (sub y)"
  shows "\<forall>m \<in> set (schema_members sub s). comes (snd m)"
proof -
  have c: "\<forall>y \<in> written_below s. comes (sub y)" using assms by blast
  show ?thesis
    using c unfolding written_below_def list_all_iff [symmetric]
    by (auto simp only: schema_member_groups list.pred_inject comes_rules snd_conv emit_discriminator_def list.set ball_simps
        simp_thms if_split ball_Un set_map)
qed

text \<open>
  A node without the outcome of the resolver. The emitter writes the reference and never follows it,
  so stores that agree on the rest give the same values.
\<close>

definition unlinked :: "schema_heap \<Rightarrow> schema_heap" where
  "unlinked h p = map_option (\<lambda>s. s\<lparr>s_ref_resolved := None\<rparr>) (h p)"

lemma emit_discriminator_unlinked: "emit_discriminator (s\<lparr>s_ref_resolved := r\<rparr>) = emit_discriminator s"
  by (simp add: emit_discriminator_def)

lemma schema_members_unlinked: "schema_members sub (s\<lparr>s_ref_resolved := r\<rparr>) = schema_members sub s"
  by (simp add: schema_member_groups emit_discriminator_unlinked)

lemma emit_unlinked: "oas_emit_build_schema fuel (unlinked h) x = oas_emit_build_schema fuel h x"
proof (induction fuel arbitrary: x)
  case (Suc fuel)
  then have "oas_emit_build_schema fuel (unlinked h) = oas_emit_build_schema fuel h" by (rule ext)
  note IH = this
  show ?case
  proof (cases x)
    case (Some p)
    show ?thesis
    proof (cases "h p")
      case None
      then show ?thesis by (simp add: Some unlinked_def)
    next
      case (Some s)
      then have "unlinked h p = Some (s\<lparr>s_ref_resolved := None\<rparr>)" by (simp add: unlinked_def)
      then show ?thesis using Some \<open>x = Some p\<close>
        by (simp only: oas_emit_build_schema.simps option.simps bind.simps IH schema_members_unlinked)
    qed
  qed simp
qed simp

lemma tree_emits: "tree n h A x \<Longrightarrow> comes (oas_emit_build_schema (Suc n) h x)"
proof (induction n arbitrary: x)
  case (Suc n)
  show ?case
  proof (cases x)
    case (Some p)
    obtain s where s: "h p = Some s" "s_ref_resolved s = None" "\<forall>y \<in> children s. tree n h A y"
      using Suc.prems Some by auto
    have "comes (oas_emit_build_schema (Suc n) h y)" if "y \<in> written_below s" for y
    proof (cases y)
      case None
      then show ?thesis by (simp add: comes_def)
    next
      case (Some q)
      then have "y \<in> children s" using written_below_children [OF s(2)] that by auto
      then show ?thesis using Suc.IH s(3) by blast
    qed
    from schema_members_come [where sub = "oas_emit_build_schema (Suc n) h", OF this]
    show ?thesis unfolding oas_emit_build_schema.simps(2) [of "Suc n"] using Some s(1) by (simp add: comes_rules)
  qed (simp add: comes_def)
qed (simp add: comes_def)

text \<open>Every part of a document comes back where its schemas do.\<close>

lemma param_comes: "comes (sub (param_schema p)) \<Longrightarrow> comes (emit_parameter sub p)"
  by (cases p) (simp_all add: emit_parameter_def comes_rules param_schema_def)

lemma content_comes: "(\<forall>y \<in> set (content_schemas ms). comes (sub y)) \<Longrightarrow> comes (emit_media_type_content sub ms)"
  by (auto simp: emit_media_type_content_def comes_rules content_schemas_def)

lemma body_comes: "(\<forall>y \<in> set (body_schemas b). comes (sub y)) \<Longrightarrow> comes (emit_request_body sub b)"
  by (auto simp: emit_request_body_def comes_rules body_schemas_def content_comes)

lemma response_comes: "(\<forall>y \<in> set (response_schemas r). comes (sub y)) \<Longrightarrow> comes (emit_response sub r)"
  by (cases r) (simp_all add: emit_response_def comes_rules response_schemas_def content_comes)

lemma requirement_comes: "comes (emit_requirement r)"
  by (auto simp: emit_requirement_def comes_rules split: option.split)

lemma operation_comes: "(\<forall>y \<in> set (operation_schemas x). comes (sub y)) \<Longrightarrow> comes (emit_operation sub x)"
  by (auto simp: emit_operation_def comes_rules operation_schemas_def emit_responses_def
      intro!: param_comes body_comes response_comes requirement_comes)

lemma path_comes: "(\<forall>y \<in> set (path_schemas x). comes (sub y)) \<Longrightarrow> comes (emit_path_item sub x)"
  by (auto simp: emit_path_item_def comes_rules path_schemas_def intro!: param_comes operation_comes)

lemma components_come:
  assumes "\<And>c. x = Some c \<Longrightarrow> \<forall>y \<in> set (component_schemas c). comes (sub y)"
  shows "comes (emit_components sub x)"
proof (cases x)
  case (Some c)
  then have "\<forall>y \<in> set (component_schemas c). comes (sub y)" by (rule assms)
  then have "\<forall>e \<in> set (co_schemas c). comes (sub (snd e))" "\<forall>e \<in> set (co_parameters c). comes (sub (param_schema (snd e)))"
    "\<forall>e \<in> set (co_comp_responses c). \<forall>y \<in> set (response_schemas (snd e)). comes (sub y)"
    "\<forall>e \<in> set (co_request_bodies c). \<forall>y \<in> set (body_schemas (snd e)). comes (sub y)"
    "\<forall>e \<in> set (co_headers c). comes (sub (param_schema (snd e)))"
    unfolding component_schemas_def by (simp_all add: ball_Un)
  then show ?thesis unfolding Some
    by (auto simp: emit_components_def comes_rules entry_members_def emit_security_scheme_def split_beta
        intro: param_comes body_comes response_comes)
qed (simp add: emit_components_def emit_node_def comes_def)

lemma doc_comes:
  assumes "\<forall>y \<in> set (doc_schemas d). comes (sub y)"
  shows "comes (new_obj (doc_members sub d))"
proof -
  have "comes (emit_components sub (d_components d))"
    by (rule components_come) (use assms in \<open>simp add: doc_schemas_def ball_Un\<close>)
  moreover have "\<forall>e \<in> set (d_paths d). comes (emit_path_item sub (pe_item e))"
    by (intro ballI path_comes) (use assms in \<open>simp add: doc_schemas_def ball_Un\<close>)
  moreover have "comes (emit_info x)" "comes (emit_server y)" "comes (emit_tag z)" for x y z
    by (auto simp: comes_rules emit_info_def emit_contact_def emit_license_def emit_server_def emit_server_var_def emit_tag_def)
  ultimately show ?thesis by (simp add: doc_members_def comes_rules requirement_comes)
qed

section \<open>Looking up what was written\<close>

text \<open>The value of a member, and what an object made of members has under a key.\<close>

definition picked :: "emission \<Rightarrow> json option" where
  "picked e = (case e of None \<Rightarrow> None | Some x \<Rightarrow> x)"

fun first_of :: "'x option \<Rightarrow> 'x option \<Rightarrow> 'x option" where
  "first_of None y = y"
| "first_of (Some x) y = Some x"

lemma first_of_None [simp]: "first_of x None = x"
  by (cases x) simp_all

fun pick :: "member list \<Rightarrow> string \<Rightarrow> json option" where
  "pick [] k = None"
| "pick (m # ms) k =
     (if fst m = Some k then first_of (picked (snd m)) (pick ms k) else pick ms k)"

lemma picked_simps [simp]: "picked (Some x) = x" "picked None = None" "picked (if b then e else e') = (if b then picked e else picked e')"
  by (simp_all add: picked_def)

lemma add_members_lookup: "add_members ms = Some kvs \<Longrightarrow> map_of kvs k = pick ms k"
proof (induction ms arbitrary: kvs)
  case (Cons m ms)
  obtain a e where m: "m = (a, e)" by (cases m)
  obtain x lvs where "e = Some x" "add_members ms = Some lvs" "kvs = (case (a, x) of (Some k, Some v) \<Rightarrow> (k, v) # lvs | _ \<Rightarrow> lvs)"
    using Cons.prems m by (auto simp: bind_eq_Some_conv)
  then show ?case using Cons.IH m by (cases a; cases x) auto
qed simp

lemma new_obj_lookup:
  assumes "yy_obj_get_ok yy" and "new_obj ms = Some (Some v)"
  shows "yy_obj_get yy v k = pick ms k" and "is_jobj v"
  using assms add_members_lookup by (auto simp: new_obj_def yy_obj_get_ok_def)

lemma new_obj_value: "new_obj ms = Some x \<Longrightarrow> \<exists>v. x = Some v \<and> is_jobj v"
  by (auto simp: new_obj_def)

lemmas member_defs = str_val_def str_member_def true_member_def int_member_def real_member_def copy_member_def
  member_if_def arr_member_def obj_member_def entry_members_def

lemma member_key [simp]:
  "fst (str_member k y) = Some k" "fst (true_member k b) = Some k" "fst (int_member k n) = Some k"
  "fst (real_member k b d) = Some k" "fst (copy_member k v) = Some k" "fst (member_if b k e) = Some k"
  "fst (arr_member k f xs) = Some k" "fst (obj_member k g ys) = Some k" "fst (entry_members k h zs) = Some k"
  by (simp_all add: member_defs)

lemma member_value [simp]:
  "picked (snd (str_member k y)) = map_option JStr y" "picked (snd (true_member k b)) = (if b then Some (JBool True) else None)"
  "picked (snd (int_member k n)) = (if 0 \<le> n then Some (JSint (word_of_int n)) else None)"
  "picked (snd (real_member k b d)) = (if b then Some (JReal d) else None)" "picked (snd (copy_member k v)) = v"
  "picked (snd (member_if b k e)) = (if b then picked e else None)"
  by (simp_all add: member_defs)

section \<open>Operations\<close>

lemma emit_operation_id:
  assumes "yy_obj_get_ok yy" and "emit_operation sub (Some opn) = Some (Some v)"
  shows "str_at yy v ''operationId'' = map_option cstr (op_operation_id opn)"
proof -
  have "yy_obj_get yy v ''operationId'' = map_option JStr (op_operation_id opn)"
    using new_obj_lookup(1) [OF assms(1), where k = "''operationId''"] assms(2) unfolding emit_operation_def emit_node_def option.case
    by simp
  then show ?thesis by (cases "op_operation_id opn") (simp_all add: str_at_def)
qed

lemma emit_operation_null: "emit_operation sub x = Some y \<Longrightarrow> (case x of None \<Rightarrow> y = None | Some opn \<Rightarrow> \<exists>v. y = Some v \<and> is_jobj v)"
  by (auto simp: emit_operation_def emit_node_def new_obj_def split: option.split)

text \<open>The operations of an item, with the texts a C string holds.\<close>

definition named_operations :: "oas_path_item \<Rightarrow> (string \<times> string option) list" where
  "named_operations item =
     List.map_filter (\<lambda>(m, x). map_option (\<lambda>opn. (m, map_option cstr (op_operation_id opn))) x) (item_methods item)"

lemma slot_written:
  assumes "yy_obj_get_ok yy" and "comes (emit_operation sub x)"
  shows "map_option (\<lambda>w. (m, str_at yy w ''operationId'')) (Option.bind (picked (emit_operation sub x)) (only_if is_jobj)) =
    map_option (\<lambda>opn. (m, map_option cstr (op_operation_id opn))) x"
proof -
  obtain y where y: "emit_operation sub x = Some y" using assms(2) by (auto simp: comes_def)
  show ?thesis
  proof (cases x)
    case None
    then show ?thesis using emit_operation_null [OF y] y by simp
  next
    case (Some opn)
    then obtain v where v: "y = Some v" "is_jobj v" using emit_operation_null [OF y] by auto
    then show ?thesis using y Some emit_operation_id [OF assms(1), of sub opn v] by (simp add: only_if_def)
  qed
qed

lemma map_filter_values: "List.map_filter f xs = List.map_filter id (map f xs)"
  by (simp add: List.map_filter_def filter_map comp_def)

lemma emit_item_operations:
  assumes "yy_obj_get_ok yy" and "emit_path_item sub (Some item) = Some (Some v)"
  shows "item_operations yy v = named_operations item"
proof -
  let ?e = "emit_operation sub"
  let ?ms = "map (\<lambda>(k, opn). (Some k, emit_operation sub opn))
       [(''get'', pi_get item), (''post'', pi_post item), (''put'', pi_put item), (''delete'', pi_delete item),
        (''patch'', pi_patch item), (''head'', pi_head item), (''options'', pi_options item)]
     @ [arr_member ''parameters'' (emit_parameter sub) (pi_parameters item)]"
  have v: "new_obj ?ms = Some (Some v)" using assms(2) by (simp only: emit_path_item_def emit_node_def option.case)
  then have "\<forall>m \<in> set ?ms. comes (snd m)" using comes_rules(2) [of ?ms] by (simp add: comes_def)
  then have e: "comes (?e (pi_get item))" "comes (?e (pi_post item))" "comes (?e (pi_put item))" "comes (?e (pi_delete item))"
      "comes (?e (pi_patch item))" "comes (?e (pi_head item))" "comes (?e (pi_options item))" by simp_all
  have g: "obj_at yy v k = Option.bind (pick ?ms k) (only_if is_jobj)" for k
    by (simp only: obj_at_def new_obj_lookup(1) [OF assms(1) v])
  show ?thesis
    unfolding item_operations_def named_operations_def method_keys_def item_methods_def g
      map_filter_values [of "\<lambda>(k, m). f k m" for f]
    by (simp add: slot_written [OF assms(1)] e)
qed


lemma emit_item_null: "emit_path_item sub x = Some y \<Longrightarrow> (case x of None \<Rightarrow> y = None | Some item \<Rightarrow> \<exists>v. y = Some v)"
  by (auto simp: emit_path_item_def emit_node_def new_obj_def split: option.split)

text \<open>What is written below \<open>paths\<close>.\<close>

lemma emit_paths_operations:
  assumes "yy_obj_get_ok yy"
    and "add_members (map (\<lambda>e. (Some (pe_path e), emit_path_item sub (pe_item e))) es) = Some kvs"
  shows "concat (map (\<lambda>(k, v). map (Pair (cstr k)) (item_operations yy v)) kvs) =
    concat (map (\<lambda>e. case pe_item e of None \<Rightarrow> [] | Some item \<Rightarrow> map (Pair (cstr (pe_path e))) (named_operations item)) es)"
  using assms(2)
proof (induction es arbitrary: kvs)
  case (Cons e es)
  then obtain y lvs where y: "emit_path_item sub (pe_item e) = Some y"
      "add_members (map (\<lambda>e. (Some (pe_path e), emit_path_item sub (pe_item e))) es) = Some lvs"
      "kvs = (case y of None \<Rightarrow> lvs | Some v \<Rightarrow> (pe_path e, v) # lvs)"
    by (auto simp: bind_eq_Some_conv split: option.splits)
  show ?case using emit_item_null [OF y(1)] Cons.IH [OF y(2)] y(1,3)
    by (auto split: option.splits simp: emit_item_operations [OF assms(1)])
qed simp

text \<open>
  C24. Writing a document keeps its operations: what is written has, in the same order, the paths,
  methods and identifiers of the operations of the document, and those are what the parser makes of
  it again.
\<close>

theorem emit_doc_operations:
  assumes "yy_obj_get_ok yy" and "oas_emit_build_doc fuel h d = Some (Some v)"
  shows "json_operations yy v =
    map (\<lambda>(p, m, opn). (cstr p, m, map_option cstr (op_operation_id opn))) (doc_operations d)"
proof -
  let ?f = "\<lambda>e. (Some (pe_path e), emit_path_item (oas_emit_build_schema fuel h) (pe_item e))"
  have n: "new_obj (doc_members (oas_emit_build_schema fuel h) d) = Some (Some v)"
    using assms(2) by (simp only: oas_emit_build_doc_def)
  have k: "yy_obj_get yy v ''paths'' = picked (snd (obj_member ''paths'' ?f (d_paths d)))"
    unfolding new_obj_lookup(1) [OF assms(1) n] by (simp add: doc_members_def)
  have "\<forall>m \<in> set (doc_members (oas_emit_build_schema fuel h) d). comes (snd m)"
    using n comes_rules(2) [of "doc_members (oas_emit_build_schema fuel h) d"] by (simp add: comes_def)
  then have "comes (snd (obj_member ''paths'' ?f (d_paths d)))" by (simp add: doc_members_def)
  then obtain kvs where kvs: "add_members (map ?f (d_paths d)) = Some kvs"
    using add_members_comes [of "map ?f (d_paths d)"] by (auto simp: comes_rules)
  have "pairs_at yy v ''paths'' = kvs"
    using k kvs by (auto simp: pairs_at_def obj_of_def obj_member_def new_obj_def)
  then have "json_operations yy v = concat (map (\<lambda>(k, v). map (Pair (cstr k)) (item_operations yy v)) kvs)"
    by (simp add: json_operations_def)
  also have "\<dots> = concat (map (\<lambda>e. case pe_item e of None \<Rightarrow> [] | Some item \<Rightarrow>
      map (Pair (cstr (pe_path e))) (named_operations item)) (d_paths d))"
    by (rule emit_paths_operations [OF assms(1) kvs])
  also have "\<dots> = map (\<lambda>(p, m, opn). (cstr p, m, map_option cstr (op_operation_id opn))) (doc_operations d)"
  proof -
    have "(case pe_item e of None \<Rightarrow> [] | Some item \<Rightarrow> map (Pair (cstr (pe_path e))) (named_operations item)) =
      map (\<lambda>(p, m, opn). (cstr p, m, map_option cstr (op_operation_id opn))) (case pe_item e of
         None \<Rightarrow> []
       | Some item \<Rightarrow> List.map_filter (\<lambda>(m, x). map_option (\<lambda>opn. (pe_path e, m, opn)) x) (item_methods item))" for e :: oas_path_entry
      by (auto simp: named_operations_def item_methods_def List.map_filter_simps split: option.split)
    then show ?thesis by (simp only: doc_operations_def map_concat map_map comp_def)
  qed
  finally show ?thesis .
qed


definition ops_doc :: oas_doc where
  "ops_doc =
     (let opn = (\<lambda>n. \<lparr>op_operation_id = n, op_summary = None, op_description = None, op_tags = [], op_parameters = [],
                    op_request_body = None, op_responses = [], op_security = [], op_deprecated = False\<rparr>)
      in \<lparr>d_openapi = Some ''3.1.0'', d_info = None, d_servers = [],
          d_paths = [\<lparr>pe_path = ''/a'', pe_item = Some \<lparr>pi_path = Some ''/a'', pi_get = Some (opn None), pi_post = None,
            pi_put = Some (opn (Some ''putA'')), pi_delete = None, pi_patch = None, pi_head = None, pi_options = None,
            pi_parameters = []\<rparr>\<rparr>],
          d_components = None, d_security = [], d_tags = [], d_json_doc = None\<rparr>)"

lemmas emit_doc_defs = oas_emit_build_doc_def doc_members_def emit_node_def emit_info_def emit_components_def emit_path_item_def
  emit_operation_def emit_request_body_def emit_responses_def new_obj_def member_defs

theorem emit_doc_operations_witness:
  "\<exists>v. oas_emit_build_doc 1 Map.empty ops_doc = Some (Some v) \<and>
     json_operations sample_yyjson v = [(''/a'', ''GET'', None), (''/a'', ''PUT'', Some ''putA'')]"
proof -
  obtain v where v: "oas_emit_build_doc 1 Map.empty ops_doc = Some (Some v)"
    by (simp add: emit_doc_defs ops_doc_def)
  show ?thesis using emit_doc_operations [OF sample_yyjson_ok(1) v] v
    by (simp add: ops_doc_def doc_operations_def item_methods_def List.map_filter_simps cstr_def)
qed

section \<open>Parsing and writing\<close>

lemma unlinked_link_all: "unlinked (link_all d R h) = unlinked h"
proof
  fix p
  have "s\<lparr>s_ref_resolved := None\<rparr> = (if p \<in> R then linked d s else s)\<lparr>s_ref_resolved := None\<rparr>" for s
    by (simp add: linked_def split: option.split)
  then show "unlinked (link_all d R h) p = unlinked h p" by (cases "h p") (simp_all add: unlinked_def link_all_def)
qed

lemma linked_emits: "tree n h A x \<Longrightarrow> comes (oas_emit_build_schema (Suc n) (link_all d R h) x)"
  using tree_emits [of n h A x] emit_unlinked [of "Suc n" h x] emit_unlinked [of "Suc n" "link_all d R h" x]
  by (simp only: unlinked_link_all)



end
