(* ===== verification/Liboas_Defaults.thy ===== *)
theory Liboas_Defaults
  imports Liboas_Request
begin

text \<open>
  Default values (\<open>src/validator/oas_defaults.c\<close>): a request body completed from the \<open>default\<close>
  keywords of its schema, alone and after the validation of the request. Of yyjson's mutable
  objects the model uses that a lookup gives the value of the first pair with the key and that an
  added pair comes last; the memory for single values is granted.
\<close>

section \<open>Completing an object\<close>

definition OAS_DEFAULTS_MAX_DEPTH :: nat where
  "OAS_DEFAULTS_MAX_DEPTH = 64"

text \<open>The value of the first pair with the key, changed in place.\<close>

fun put_first :: "string \<Rightarrow> json \<Rightarrow> (string \<times> json) list \<Rightarrow> (string \<times> json) list" where
  "put_first k v [] = []"
| "put_first k v ((k', v') # kvs) = (if k' = k then (k', v) # kvs else (k', v') # put_first k v kvs)"

text \<open>The schema of a property, one reference further when it is resolved.\<close>

definition resolved_schema :: "schema_heap \<Rightarrow> sref option \<Rightarrow> sref option option" where
  "resolved_schema heap x =
     (case x of
        None \<Rightarrow> Some None
      | Some q \<Rightarrow> do { s \<leftarrow> heap q; Some (case s_ref_resolved s of None \<Rightarrow> Some q | Some r \<Rightarrow> Some r) })"

definition default_of :: "schema_heap \<Rightarrow> sref option \<Rightarrow> json option option" where
  "default_of heap x = (case x of None \<Rightarrow> Some None | Some q \<Rightarrow> map_option s_default_value (heap q))"

text \<open>
  The loop over the properties of a schema; \<open>rec\<close> completes a nested object. \<open>None\<close> is a pointer
  that leads to no node.
\<close>

fun defaults_loop ::
    "schema_heap \<Rightarrow> (json \<Rightarrow> sref option \<Rightarrow> json option) \<Rightarrow> oas_property list \<Rightarrow> (string \<times> json) list
      \<Rightarrow> (string \<times> json) list option" where
  "defaults_loop heap rec [] kvs = Some kvs"
| "defaults_loop heap rec (p # ps) kvs = do {
     q \<leftarrow> resolved_schema heap (p_schema p);
     d \<leftarrow> default_of heap q;
     (case (map_of kvs (p_name p), d) of
        (None, Some v) \<Rightarrow> defaults_loop heap rec ps (kvs @ [(p_name p, v)])
      | (None, None) \<Rightarrow> defaults_loop heap rec ps kvs
      | (Some x, _) \<Rightarrow>
          if is_jobj x \<and> q \<noteq> None
          then do { x' \<leftarrow> rec x q; defaults_loop heap rec ps (put_first (p_name p) x' kvs) }
          else defaults_loop heap rec ps kvs)
   }"

text \<open>The recursion, by the number of levels that are still allowed.\<close>

primrec defaults_at :: "nat \<Rightarrow> schema_heap \<Rightarrow> json \<Rightarrow> sref option \<Rightarrow> json option" where
  "defaults_at 0 heap obj schema = Some obj"
| "defaults_at (Suc n) heap obj schema =
     (case (schema, obj) of
        (Some p, JObj kvs) \<Rightarrow> do {
          s \<leftarrow> heap p;
          map_option JObj (defaults_loop heap (defaults_at n heap) (s_properties s) kvs)
        }
      | _ \<Rightarrow> Some obj)"

definition apply_defaults_recursive :: "schema_heap \<Rightarrow> json \<Rightarrow> sref option \<Rightarrow> nat \<Rightarrow> json option" where
  "apply_defaults_recursive heap obj schema depth = defaults_at (OAS_DEFAULTS_MAX_DEPTH + 1 - depth) heap obj schema"

section \<open>Bodies\<close>

text \<open>
  yyjson, whether a mutable copy of a document can be made, and its writer. The results go to
  \<open>out_body\<close> and \<open>out_len\<close>, which are null together in \<open>None\<close>.
\<close>

record defaults_env =
  df_yy :: yyjson
  df_copy :: bool
  df_write :: "json \<Rightarrow> string option"

type_synonym body_out = "(string option \<times> nat) option"

definition oas_apply_defaults ::
    "defaults_env \<Rightarrow> schema_heap \<Rightarrow> sref option \<Rightarrow> string option \<Rightarrow> body_out \<Rightarrow> (errno option \<times> body_out) option" where
  "oas_apply_defaults env heap schema body out =
     (case (schema, body, out) of
        (Some p, Some text', Some _) \<Rightarrow>
          (case yy_read (df_yy env) text' of
             None \<Rightarrow> Some (Some EINVAL, out)
           | Some r \<Rightarrow>
               if \<not> df_copy env then Some (Some ENOMEM, out)
               else do {
                 v \<leftarrow> apply_defaults_recursive heap r (Some p) 0;
                 Some (case df_write env v of
                         None \<Rightarrow> (Some ENOMEM, out)
                       | Some t \<Rightarrow> (None, Some (Some t, length t)))
               })
      | _ \<Rightarrow> Some (Some EINVAL, out))"

section \<open>Lookups\<close>

text \<open>This file has loops of its own for the operation and the media type.\<close>

fun defaults_find_operation ::
    "('p, 'e) compiled_operation list \<Rightarrow> string \<Rightarrow> string \<Rightarrow> ('p, 'e) compiled_operation option" where
  "defaults_find_operation [] template_path method' = None"
| "defaults_find_operation (c # cs) template_path method' =
     (if co_path c = template_path \<and> strcaseeq (co_method c) method' then Some c
      else defaults_find_operation cs template_path method')"

fun find_media ::
    "(string \<Rightarrow> bool) \<Rightarrow> ('p, 'e) compiled_media_type list \<Rightarrow> ('p, 'e) compiled_media_type option" where
  "find_media P [] = None"
| "find_media P (m # ms) = (if P (cm_content_type m) then Some m else find_media P ms)"

definition defaults_find_content_type ::
    "('p, 'e) compiled_media_type list \<Rightarrow> string option \<Rightarrow> ('p, 'e) compiled_media_type option" where
  "defaults_find_content_type entries content_type =
     (case content_type of
        None \<Rightarrow> None
      | Some ct \<Rightarrow>
          (case find_media (\<lambda>t. strcaseeq t ct) entries of
             Some m \<Rightarrow> Some m
           | None \<Rightarrow>
               if CHR '';'' \<in> set ct
               then let base_len = length (takeWhile (\<lambda>c. c \<noteq> CHR '';'') ct)
                    in find_media (\<lambda>t. strncaseeq base_len t ct \<and> length t = base_len) entries
               else None))"

section \<open>Requests\<close>

text \<open>The schema of the body of a request: routing once more, on the same arena.\<close>

definition body_schema_of ::
    "'a allocator \<Rightarrow> ('p, 'c) oas_compiled_doc \<Rightarrow> string \<Rightarrow> string \<Rightarrow> string option \<Rightarrow> 'a request_state
      \<Rightarrow> sref option \<times> 'a request_state" where
  "body_schema_of alloc doc path meth content_type st =
     (case cd_matcher doc of
        None \<Rightarrow> (None, st)
      | Some matcher \<Rightarrow>
          (case oas_path_match alloc (Some matcher) (Some path) (Some no_match) (rs_get_arena st) of
             (rc, m, a) \<Rightarrow>
               (if rc \<noteq> None \<or> \<not> pm_matched (the m) then None
                else
                  Option.bind (defaults_find_operation (cd_operations doc) (the (pm_template_path (the m))) meth)
                    (\<lambda>opn. if co_request_body opn = [] then None
                            else Option.bind (defaults_find_content_type (co_request_body opn) content_type) cm_source_schema),
                rs_set_arena a st)))"

definition oas_validate_request_with_defaults ::
    "defaults_env \<Rightarrow> schema_heap \<Rightarrow> 'a allocator \<Rightarrow> ('p, 'c) oas_compiled_doc option \<Rightarrow> oas_http_request option
      \<Rightarrow> 'a request_state option \<Rightarrow> body_out \<Rightarrow> (errno option \<times> 'a request_state option \<times> body_out) option" where
  "oas_validate_request_with_defaults env heap alloc doc req result out =
     (case (doc, req, result, out) of
        (Some d, Some r, Some st, Some _) \<Rightarrow>
          (case (rq_method r, rq_path r) of
             (Some meth, Some path) \<Rightarrow> do {
               let out = Some (None, 0);
               (rc, result) \<leftarrow> oas_validate_request (df_yy env) alloc doc req result;
               (if rc \<noteq> None then Some (rc, result, out)
                else if \<not> non_empty (rq_body r) then Some (None, result, out)
                else
                  (case body_schema_of alloc d path meth (rq_content_type r) (the result) of
                     (None, st) \<Rightarrow> Some (None, Some st, out)
                   | (Some p, st) \<Rightarrow> do {
                       (rc, out) \<leftarrow> oas_apply_defaults env heap (Some p) (rq_body r) out;
                       Some (rc, Some st, out)
                     }))
             }
           | _ \<Rightarrow> Some (Some EINVAL, result, out))
      | _ \<Rightarrow> Some (Some EINVAL, result, out))"

end
