(* ===== verification/Liboas_Defaults_Spec.thy ===== *)
theory Liboas_Defaults_Spec
  imports Liboas_Defaults Liboas_Document
begin

text \<open>
  What completing a body means: which members are added, that no other is touched, that it always
  comes to an end, and how it goes together with the validation of the request.
\<close>

section \<open>One object\<close>

text \<open>Every schema a property or a reference of the store names is there.\<close>

definition properties_closed :: "schema_heap \<Rightarrow> bool" where
  "properties_closed h \<longleftrightarrow> (\<forall>p s pr q. h p = Some s \<and> pr \<in> set (s_properties s) \<and> p_schema pr = Some q \<longrightarrow>
     (\<exists>t. h q = Some t \<and> (\<forall>r. s_ref_resolved t = Some r \<longrightarrow> h r \<noteq> None)))"

definition unique_properties :: "schema_heap \<Rightarrow> bool" where
  "unique_properties h \<longleftrightarrow> (\<forall>p s. h p = Some s \<longrightarrow> distinct (map p_name (s_properties s)))"

lemma map_of_put_first:
  "map_of (put_first k v kvs) j = (if j = k \<and> k \<in> fst ` set kvs then Some v else map_of kvs j)"
  by (induction kvs) (auto split: if_splits)

lemma put_first_keys [simp]: "map fst (put_first k v kvs) = map fst kvs"
  by (induction kvs) auto

lemma keys_of_map: "map fst xs = map fst ys \<Longrightarrow> fst ` set xs = fst ` set ys"
  by (metis list.set_map)

text \<open>What one property does to the value under its name; \<open>rec\<close> completes a nested object.\<close>

definition property_filled ::
    "schema_heap \<Rightarrow> (json \<Rightarrow> sref option \<Rightarrow> json option) \<Rightarrow> oas_property \<Rightarrow> json option \<Rightarrow> json option \<Rightarrow> bool" where
  "property_filled h rec pr old new \<longleftrightarrow>
     (\<exists>q d. resolved_schema h (p_schema pr) = Some q \<and> default_of h q = Some d \<and>
        (case old of
           None \<Rightarrow> new = d
         | Some x \<Rightarrow> if is_jobj x \<and> q \<noteq> None then new \<noteq> None \<and> new = rec x q else new = Some x))"

lemma resolved_closed:
  assumes "properties_closed h" and "h p = Some s" and "pr \<in> set (s_properties s)"
  obtains q d where "resolved_schema h (p_schema pr) = Some q" "default_of h q = Some d" "\<forall>r. q = Some r \<longrightarrow> h r \<noteq> None"
proof (cases "p_schema pr")
  case None
  then show thesis using that by (simp add: resolved_schema_def default_of_def)
next
  case (Some q)
  then obtain t where t: "h q = Some t" "\<forall>r. s_ref_resolved t = Some r \<longrightarrow> h r \<noteq> None"
    using assms unfolding properties_closed_def by blast
  let ?r = "case s_ref_resolved t of None \<Rightarrow> q | Some r \<Rightarrow> r"
  obtain u where u: "h ?r = Some u" using t by (cases "s_ref_resolved t") auto
  show thesis
    by (rule that [of "Some ?r" "s_default_value u"])
      (use Some t(1) u in \<open>auto simp: resolved_schema_def default_of_def split: option.split\<close>)
qed

text \<open>The loop: each name of the list is filled from the first property that bears it.\<close>

lemma defaults_loop_fills:
  assumes r: "\<And>x q. is_jobj x \<Longrightarrow> h q \<noteq> None \<Longrightarrow> rec x (Some q) \<noteq> None"
    and c: "properties_closed h" and p: "h p = Some s"
  shows "set props \<subseteq> set (s_properties s) \<Longrightarrow> distinct (map p_name props) \<Longrightarrow>
    \<exists>new. defaults_loop h rec props kvs = Some new \<and>
      (\<forall>k. k \<notin> p_name ` set props \<longrightarrow> map_of new k = map_of kvs k) \<and>
      (\<forall>pr \<in> set props. property_filled h rec pr (map_of kvs (p_name pr)) (map_of new (p_name pr))) \<and>
      (\<exists>added. map fst new = map fst kvs @ added)"
proof (induction props arbitrary: kvs)
  case (Cons pr props)
  let ?n = "p_name pr"
  obtain q d where q: "resolved_schema h (p_schema pr) = Some q" "default_of h q = Some d" "\<forall>r. q = Some r \<longrightarrow> h r \<noteq> None"
    by (rule resolved_closed [OF c p, of pr]) (use Cons.prems in auto)
  obtain mid where mid: "defaults_loop h rec (pr # props) kvs = defaults_loop h rec props mid"
    "\<forall>k. k \<noteq> ?n \<longrightarrow> map_of mid k = map_of kvs k" "property_filled h rec pr (map_of kvs ?n) (map_of mid ?n)"
    "\<exists>added. map fst mid = map fst kvs @ added"
  proof (cases "map_of kvs ?n")
    case None
    then have n: "?n \<notin> fst ` set kvs" by (simp add: map_of_eq_None_iff)
    show thesis
    proof (cases d)
      case None
      show thesis
        by (rule that [of kvs]) (use None \<open>map_of kvs ?n = None\<close> q in \<open>auto simp: property_filled_def intro: exI [of _ "[]"]\<close>)
    next
      case (Some v)
      have m: "map_of (kvs @ [(?n, v)]) k = (if k = ?n then Some v else map_of kvs k)" for k
        using \<open>map_of kvs ?n = None\<close> by (simp add: map_add_def split: option.split)
      show thesis
      proof (rule that [of "kvs @ [(?n, v)]"])
        show "\<exists>added. map fst (kvs @ [(?n, v)]) = map fst kvs @ added" by (intro exI [of _ "[?n]"]) simp
      qed (use Some \<open>map_of kvs ?n = None\<close> q m in \<open>simp_all add: property_filled_def\<close>)
    qed
  next
    case (Some x)
    then have n: "?n \<in> fst ` set kvs" by (metis domI dom_map_of_conv_image_fst)
    show thesis
    proof (cases "is_jobj x \<and> q \<noteq> None")
      case True
      then obtain x' where x': "rec x q = Some x'" using r [of x] q(3) by (cases q) auto
      show thesis
        by (rule that [of "put_first ?n x' kvs"])
          (use True Some x' q n in \<open>auto simp: property_filled_def map_of_put_first intro: exI [of _ "[]"]\<close>)
    next
      case False
      show thesis
        by (rule that [of kvs]) (use False Some q in \<open>auto simp: property_filled_def intro: exI [of _ "[]"]\<close>)
    qed
  qed
  obtain new where new: "defaults_loop h rec props mid = Some new"
    "\<forall>k. k \<notin> p_name ` set props \<longrightarrow> map_of new k = map_of mid k"
    "\<forall>pr \<in> set props. property_filled h rec pr (map_of mid (p_name pr)) (map_of new (p_name pr))"
    "\<exists>added. map fst new = map fst mid @ added"
    using Cons.IH [of mid] Cons.prems by auto
  have d: "?n \<notin> p_name ` set props" using Cons.prems(2) by auto
  have "property_filled h rec py (map_of kvs (p_name py)) (map_of new (p_name py))" if "py \<in> set (pr # props)" for py
  proof (cases "py = pr")
    case True
    then show ?thesis using mid(3) new(2) d by simp
  next
    case False
    then have y: "py \<in> set props" using that by simp
    then have "p_name py \<noteq> ?n" using d by (metis imageI)
    then show ?thesis using mid(2) new(3) y by auto
  qed
  moreover have "\<exists>added. map fst new = map fst kvs @ added"
    using mid(4) new(4) by (metis append.assoc)
  ultimately show ?case using mid(1,2) new(1,2) by (intro exI [of _ new]) (simp del: defaults_loop.simps)
qed (auto intro: exI [of _ "[]"])

lemma defaults_at_returns:
  "properties_closed h \<Longrightarrow> h p \<noteq> None \<Longrightarrow> unique_properties h \<Longrightarrow> is_jobj x \<Longrightarrow> defaults_at n h x (Some p) \<noteq> None"
proof (induction n arbitrary: x p)
  case (Suc n)
  obtain kvs where x: "x = JObj kvs" using Suc.prems(4) by (cases x) auto
  obtain s where s: "h p = Some s" using Suc.prems(2) by blast
  have "defaults_at n h y (Some q) \<noteq> None" if "is_jobj y" "h q \<noteq> None" for y q
    using Suc.IH [OF Suc.prems(1) that(2) Suc.prems(3) that(1)] .
  from defaults_loop_fills [where rec = "defaults_at n h", OF this Suc.prems(1) s subset_refl, of kvs]
  show ?case using x s Suc.prems(3) by (auto simp: unique_properties_def)
qed simp

section \<open>Properties\<close>

text \<open>
  C10. Completing an object with the defaults of its schema comes back, on recursive schemas as well,
  and gives an object that starts with the members of the old one, under the same keys and in the
  same order. A key that is no property keeps its value. A property that is missing gets the default
  of its schema (of the schema its reference resolves to), if there is one; an object under a
  property is completed in the same way, one level deeper; any other value is kept.
\<close>

theorem defaults_fill_object:
  assumes "properties_closed h" and "unique_properties h" and "h p = Some s" and "depth \<le> OAS_DEFAULTS_MAX_DEPTH"
  shows "\<exists>new added. apply_defaults_recursive h (JObj kvs) (Some p) depth = Some (JObj new) \<and>
    map fst new = map fst kvs @ added \<and>
    (\<forall>k. k \<notin> p_name ` set (s_properties s) \<longrightarrow> map_of new k = map_of kvs k) \<and>
    (\<forall>pr \<in> set (s_properties s). property_filled h (\<lambda>x q. apply_defaults_recursive h x q (depth + 1)) pr
       (map_of kvs (p_name pr)) (map_of new (p_name pr)))"
proof -
  let ?n = "OAS_DEFAULTS_MAX_DEPTH - depth"
  have d: "OAS_DEFAULTS_MAX_DEPTH + 1 - depth = Suc ?n" "OAS_DEFAULTS_MAX_DEPTH + 1 - (depth + 1) = ?n" using assms(4) by simp_all
  have "defaults_at n h y (Some q) \<noteq> None" if "is_jobj y" "h q \<noteq> None" for n y q
    using defaults_at_returns [OF assms(1) that(2) assms(2) that(1)] .
  from defaults_loop_fills [where rec = "defaults_at ?n h", OF this assms(1,3) subset_refl, of kvs]
  obtain new added where "defaults_loop h (defaults_at ?n h) (s_properties s) kvs = Some new"
    "\<forall>k. k \<notin> p_name ` set (s_properties s) \<longrightarrow> map_of new k = map_of kvs k"
    "\<forall>pr \<in> set (s_properties s). property_filled h (defaults_at ?n h) pr (map_of kvs (p_name pr)) (map_of new (p_name pr))"
    "map fst new = map fst kvs @ added" using assms(2,3) unfolding unique_properties_def by blast
  then show ?thesis unfolding apply_defaults_recursive_def d
    by (intro exI [of _ new] exI [of _ added]) (simp add: assms(3) del: defaults_loop.simps)
qed

text \<open>A schema with two properties, one of them the schema itself.\<close>

definition looped_heap :: schema_heap where
  "looped_heap = [8 \<mapsto> oas_schema_fresh\<lparr>s_properties := [\<lparr>p_name = ''tail'', p_schema = Some 8\<rparr>, \<lparr>p_name = ''n'', p_schema = Some 16\<rparr>]\<rparr>,
     16 \<mapsto> oas_schema_fresh\<lparr>s_default_value := Some (JUint 1)\<rparr>]"

lemma fresh_parts: "s_properties oas_schema_fresh = []" "s_ref_resolved oas_schema_fresh = None" "s_default_value oas_schema_fresh = None"
  by (simp_all add: oas_schema_fresh_def)

lemma looped_heap_ok:
  "properties_closed looped_heap" "unique_properties looped_heap"
  by (auto simp: unique_properties_def looped_heap_def properties_closed_def fresh_parts split: if_splits)

theorem defaults_fill_object_witness:
  "\<exists>new added. apply_defaults_recursive looped_heap (JObj [(''tail'', JObj []), (''z'', JNull)]) (Some 8) 0 = Some (JObj new) \<and>
     map fst new = [''tail'', ''z''] @ added \<and> map_of new ''z'' = Some JNull \<and> map_of new ''n'' = Some (JUint 1)"
proof -
  have s: "looped_heap 8 = Some (oas_schema_fresh\<lparr>s_properties :=
      [\<lparr>p_name = ''tail'', p_schema = Some 8\<rparr>, \<lparr>p_name = ''n'', p_schema = Some 16\<rparr>]\<rparr>)"
    "looped_heap 16 = Some (oas_schema_fresh\<lparr>s_default_value := Some (JUint 1)\<rparr>)" by (simp_all add: looped_heap_def)
  have f: "resolved_schema looped_heap (Some 16) = Some (Some 16)" "default_of looped_heap (Some 16) = Some (Some (JUint 1))"
    by (simp_all add: resolved_schema_def default_of_def s(2) fresh_parts)
  let ?kvs = "[(''tail'', JObj []), (''z'', JNull)]"
  let ?props = "[\<lparr>p_name = ''tail'', p_schema = Some 8\<rparr>, \<lparr>p_name = ''n'', p_schema = Some (16 :: sref)\<rparr>]"
  have "s_properties (oas_schema_fresh\<lparr>s_properties := ?props\<rparr>) = ?props" by simp
  from defaults_fill_object [OF looped_heap_ok s(1), where depth = 0 and kvs = ?kvs, unfolded this]
  obtain new added where n: "apply_defaults_recursive looped_heap (JObj ?kvs) (Some 8) 0 = Some (JObj new)"
      "map fst new = map fst ?kvs @ added" "\<forall>k. k \<notin> p_name ` set ?props \<longrightarrow> map_of new k = map_of ?kvs k"
      "\<forall>pr \<in> set ?props. property_filled looped_heap (\<lambda>x q. apply_defaults_recursive looped_heap x q (0 + 1)) pr
         (map_of ?kvs (p_name pr)) (map_of new (p_name pr))" by blast
  have z: "map_of new ''z'' = Some JNull" using n(3) [rule_format, of "''z''"] by simp
  have "property_filled looped_heap (\<lambda>x q. apply_defaults_recursive looped_heap x q (0 + 1)) \<lparr>p_name = ''n'', p_schema = Some 16\<rparr>
      None (map_of new ''n'')" using n(4) by simp
  then have "map_of new ''n'' = Some (JUint 1)" using f unfolding property_filled_def by simp
  then show ?thesis using n(1,2) z by (intro exI [of _ new] exI [of _ added]) simp
qed

section \<open>Requests\<close>

lemma defaults_find_same: "defaults_find_operation (cd_operations cdoc) t meth = find_operation cdoc t meth"
proof -
  have "defaults_find_operation cs t meth = find (\<lambda>c. co_path c = t \<and> strcaseeq (co_method c) meth) cs" for cs
    by (induction cs) auto
  then show ?thesis by (simp add: find_operation_def)
qed

lemma find_media_find: "find_media P ms = find (\<lambda>m. P (cm_content_type m)) ms"
  by (induction ms) auto

lemma defaults_content_same: "defaults_find_content_type ms ct = find_content_type ms ct"
  unfolding defaults_find_content_type_def find_content_type_def find_media_find ..

text \<open>The schema the document gives for the body of a request.\<close>

definition source_body_schema :: "oas_doc \<Rightarrow> string \<Rightarrow> string \<Rightarrow> string option \<Rightarrow> sref option" where
  "source_body_schema doc path meth ct =
     (case route (doc_paths doc) path of
        None \<Rightarrow> None
      | Some (t, segs) \<Rightarrow>
          Option.bind (find_source_operation doc t meth) (\<lambda>(_, _, opn). find_source (body_sources opn) ct))"

lemma source_of_chosen:
  assumes "list_all2 (media_of de) sources ms"
  shows "(if ms = [] then None else Option.bind (find_content_type ms ct) cm_source_schema) = find_source sources ct"
proof (cases "ms = []")
  case True
  then have "sources = []" using assms by simp
  then show ?thesis using True by (cases ct) (simp_all add: find_source_def find_content_type_def Let_def)
next
  case False
  then show ?thesis using media_chosen [OF assms, of ct] by (auto simp: media_of_def split: option.splits)
qed

lemma body_schema_chosen:
  assumes c: "oas_doc_compile de (Some doc) errors = Some (Some cdoc, rel, es)" and t: "alloc_total alloc"
    and p: "path \<noteq> []" "hd path = CHR ''/''" "length path < 2 ^ 58" and st: "ready st"
  shows "\<exists>st'. body_schema_of alloc cdoc path meth ct st = (source_body_schema doc path meth ct, st') \<and> rs_valid st' = rs_valid st"
proof (cases "cd_matcher cdoc")
  case None
  then have "doc_paths doc = []" using doc_compile_parts(2) [OF c] by (simp add: doc_paths_def)
  then show ?thesis using None by (simp add: body_schema_of_def source_body_schema_def route_nothing)
next
  case (Some ms)
  then have m: "list_all2 represents (doc_paths doc) ms" using doc_compile_parts(2) [OF c] by (simp add: doc_paths_def)
  obtain a where a: "rs_get_arena st = Some a" using ready_get [OF st] by blast
  obtain a' where r: "oas_path_match alloc (Some ms) (Some path) (Some no_match) (Some a) =
      (None, Some (routed_result (route (doc_paths doc) path)), Some a')"
    using path_match_route [OF t m p] by blast
  have "Option.bind (find_operation cdoc u meth) (\<lambda>opn. if co_request_body opn = [] then None
      else Option.bind (find_content_type (co_request_body opn) ct) cm_source_schema) =
    Option.bind (find_source_operation doc u meth) (\<lambda>(_, _, opn). find_source (body_sources opn) ct)" for u
  proof (cases "find_operation cdoc u meth")
    case None
    then show ?thesis using operation_chosen [OF doc_compile_parts(1) [OF c], of u meth] by simp
  next
    case opn: (Some y)
    then obtain z m b where "find_source_operation doc u meth = Some (z, m, b)" "operation_of de (z, m, b) y"
      using operation_chosen [OF doc_compile_parts(1) [OF c], of u meth] by (auto simp: option_rel_Some2)
    then show ?thesis using opn source_of_chosen [of de "body_sources b" "co_request_body y" ct] by (simp add: operation_of_def)
  qed
  then show ?thesis using Some r a unfolding body_schema_of_def defaults_find_same defaults_content_same
    by (auto simp: source_body_schema_def routed_result_def no_match_def split: option.split)
qed

text \<open>
  C9. Validation with defaults is validation, and completing after it: the verdict is that of the
  document on the body as it was sent, whatever defaults there are; the body is completed from the
  schema the document gives for the request, found by routing it once more, whatever the verdict;
  and without a body or such a schema there is no new body.
\<close>

theorem request_with_defaults:
  assumes "oas_doc_compile de (Some doc) errors = Some (Some cdoc, rel, es)"
    and "document_usable (df_yy env) de doc path meth req" and "alloc_total alloc"
    and "rq_method req = Some meth" and "rq_path req = Some path"
    and "path \<noteq> []" and "hd path = CHR ''/''" and "length path < 2 ^ 58" and "rs_arena st \<noteq> None"
  shows "\<exists>st'. rs_valid st' = document_accepts (df_yy env) de doc path meth req \<and>
    oas_validate_request_with_defaults env h alloc (Some cdoc) (Some req) (Some st) (Some out) =
      (if \<not> non_empty (rq_body req) then Some (None, Some st', Some (None, 0))
       else
         (case source_body_schema doc path meth (rq_content_type req) of
            None \<Rightarrow> Some (None, Some st', Some (None, 0))
          | Some p \<Rightarrow> map_option (\<lambda>(rc, out). (rc, Some st', out))
              (oas_apply_defaults env h (Some p) (rq_body req) (Some (None, 0)))))"
proof -
  obtain st1 where s1: "oas_validate_request (df_yy env) alloc (Some cdoc) (Some req) (Some st) = Some (None, Some st1)" "ready st1"
    "rs_valid st1 = document_accepts (df_yy env) de doc path meth req" using document_request [OF assms] by blast
  obtain st2 where s2: "body_schema_of alloc cdoc path meth (rq_content_type req) st1 =
      (source_body_schema doc path meth (rq_content_type req), st2)" "rs_valid st2 = rs_valid st1"
    using body_schema_chosen [OF assms(1,3,6-8) s1(2)] by blast
  show ?thesis
  proof (cases "non_empty (rq_body req)")
    case False
    then show ?thesis using s1 assms(4,5)
      by (intro exI [of _ st1]) (simp add: oas_validate_request_with_defaults_def)
  next
    case True
    then show ?thesis using s1 s2 assms(4,5)
      by (intro exI [of _ st2])
        (auto simp: oas_validate_request_with_defaults_def map_option_case split: option.split)
  qed
qed

definition defaults_sample :: defaults_env where
  "defaults_sample = \<lparr>df_yy = reading_yyjson, df_copy = True, df_write = (\<lambda>v. Some ''{}'')\<rparr>"

theorem request_with_defaults_witness:
  "\<exists>cdoc rel es st'. oas_doc_compile pets_env (Some pets_source) None = Some (Some cdoc, rel, es) \<and>
     oas_validate_request_with_defaults defaults_sample (ce_heap text_env) (\<lambda>a n k. (Some 8, a)) (Some cdoc) (Some pets_request)
       (Some fresh_state) (Some (None, 7)) = Some (None, Some st', Some (None, 0)) \<and> rs_valid st'"
proof -
  obtain cdoc rel es where c: "oas_doc_compile pets_env (Some pets_source) None = Some (Some cdoc, rel, es)"
    using pets_compiles by blast
  have y: "df_yy defaults_sample = reading_yyjson" by (simp add: defaults_sample_def)
  have u: "document_usable (df_yy defaults_sample) pets_env pets_source ''/pets/rex'' ''get'' pets_request"
    using pets_judged(1) y by simp
  have "\<not> non_empty (rq_body pets_request)" by (simp add: pets_judged(5) non_empty_def)
  then show ?thesis
    using request_with_defaults [OF c u sample_total pets_judged(3,4,6-9), where out = "(None, 7)" and h = "ce_heap text_env"] c
      pets_judged(2) y by auto
qed

end
