(* ===== verification/Liboas_Adapter.thy ===== *)
theory Liboas_Adapter
  imports Liboas_Doc_Parse Liboas_Emitter
begin

text \<open>
  The adapter (\<open>src/adapter/oas_adapter.c\<close>, \<open>src/adapter/oas_scalar.c\<close>): parser, compiler,
  validator and emitter behind one object that owns what they make.
\<close>

section \<open>Configuration\<close>

record oas_adapter_config =
  ac_validate_requests :: bool
  ac_validate_responses :: bool
  ac_serve_spec :: bool
  ac_serve_scalar :: bool
  ac_spec_url :: "string option"
  ac_docs_url :: "string option"

definition DEFAULT_SPEC_URL :: string where
  "DEFAULT_SPEC_URL = ''/openapi.json''"

definition DEFAULT_DOCS_URL :: string where
  "DEFAULT_DOCS_URL = ''/docs''"

definition apply_defaults :: "oas_adapter_config option \<Rightarrow> oas_adapter_config" where
  "apply_defaults user =
     (let config = (case user of
            Some u \<Rightarrow> u
          | None \<Rightarrow> \<lparr>ac_validate_requests = True, ac_validate_responses = False, ac_serve_spec = False,
                     ac_serve_scalar = False, ac_spec_url = None, ac_docs_url = None\<rparr>);
          config = (if ac_spec_url config = None then config\<lparr>ac_spec_url := Some DEFAULT_SPEC_URL\<rparr> else config)
      in if ac_docs_url config = None then config\<lparr>ac_docs_url := Some DEFAULT_DOCS_URL\<rparr> else config)"

section \<open>The adapter\<close>

record ('p, 'e) oas_adapter =
  ad_owns_arena :: bool
  ad_doc :: "oas_doc option"
  ad_compiled :: "('p, 'e) oas_compiled_doc option"
  ad_config :: oas_adapter_config
  ad_spec_json :: "string option"
  ad_spec_json_len :: nat

text \<open>
  What is given: whether the adapter's own structure can be allocated, the parser's parameters, the
  regex backend that \<open>oas_regex_libregexp_create\<close> makes (null without memory), the compiler's
  parameters, of which the adapter sets the schemas and the configuration, and the emitter's.
\<close>

record ('p, 'a, 'w) adapter_env =
  ae_calloc :: bool
  ae_parser :: "('a, 'w) parser_env"
  ae_regex :: "'p oas_regex_backend option"
  ae_compile :: "('p, 'a oas_error_list, 'a) doc_env"
  ae_emit :: emitter_env
  ae_emit_fuel :: nat

text \<open>
  What has been given back: by the compiler, the JSON documents, and how many arenas, texts of a
  specification and adapters.
\<close>

record ('p, 'e) adapter_release =
  al_doc :: "('p, 'e) doc_release"
  al_json_docs :: "nat list"
  al_arenas :: nat
  al_texts :: nat
  al_adapters :: nat

definition nothing_released :: "('p, 'e) adapter_release" where
  "nothing_released = \<lparr>al_doc = \<lparr>dl_schemas = [], dl_regex = 0, dl_arena = 0, dl_calls = 0\<rparr>, al_json_docs = [], al_arenas = 0,
     al_texts = 0, al_adapters = 0\<rparr>"

definition oas_adapter_destroy ::
    "('p, 'e) oas_adapter option \<Rightarrow> ('p, 'e) adapter_release \<Rightarrow> ('p, 'e) adapter_release" where
  "oas_adapter_destroy adapter r =
     (case adapter of
        None \<Rightarrow> r
      | Some ad \<Rightarrow>
          let r = r\<lparr>al_doc := oas_compiled_doc_free (ad_compiled ad) (al_doc r)\<rparr>;
              r = (if ad_spec_json ad = None then r else r\<lparr>al_texts := al_texts r + 1\<rparr>);
              r = (if ad_owns_arena ad
                   then r\<lparr>al_json_docs := snd (oas_doc_free (ad_doc ad)) @ al_json_docs r, al_arenas := al_arenas r + 1\<rparr>
                   else r)
          in r\<lparr>al_adapters := al_adapters r + 1\<rparr>)"

text \<open>The compiler's parameters with the schemas of the document and the adapter's configuration.\<close>

definition adapter_doc_env ::
    "('p, 'a, 'w) adapter_env \<Rightarrow> schema_heap \<Rightarrow> ('p, 'a oas_error_list, 'a) doc_env" where
  "adapter_doc_env env heap = (ae_compile env)\<lparr>de_heap := heap,
     de_config := Some \<lparr>cc_regex = ae_regex env, cc_format_policy = 0, cc_borrow_regex = False\<rparr>\<rparr>"

text \<open>
  The second half of both constructors. The result is the adapter, what has been released, and the
  error list; the outer \<open>None\<close> says that the compiler or the emitter does not come back.
\<close>

definition adapter_finish ::
    "('p, 'a, 'w) adapter_env \<Rightarrow> schema_heap \<Rightarrow> ('p, 'a oas_error_list) oas_adapter \<Rightarrow> 'a oas_error_list option
      \<Rightarrow> (('p, 'a oas_error_list) oas_adapter option \<times> ('p, 'a oas_error_list) adapter_release \<times> 'a oas_error_list option) option" where
  "adapter_finish env heap adapter errors = do {
     (cdoc, rel, errors) \<leftarrow> oas_doc_compile (adapter_doc_env env heap) (ad_doc adapter) errors;
     let adapter = adapter\<lparr>ad_compiled := cdoc\<rparr>;
     let r = nothing_released\<lparr>al_doc := rel\<rparr>;
     (if cdoc = None then Some (None, oas_adapter_destroy (Some adapter) r, errors)
      else if ac_serve_spec (ad_config adapter)
      then do {
        (text', len) \<leftarrow> oas_doc_emit_json (ae_emit env) (ae_emit_fuel env) heap (ad_doc adapter) None (Some (ad_spec_json_len adapter));
        Some (Some (adapter\<lparr>ad_spec_json := text', ad_spec_json_len := the len\<rparr>), r, errors)
      }
      else Some (Some adapter, r, errors))
   }"

text \<open>
  From a text. The state is that of the parser, on the arena \<open>oas_arena_create\<close> gives.
\<close>

definition oas_adapter_create ::
    "('p, 'a, 'w) adapter_env \<Rightarrow> 'a option \<Rightarrow> string option \<Rightarrow> oas_adapter_config option \<Rightarrow> ('a, 'w) parser_state
      \<Rightarrow> (('p, 'a oas_error_list) oas_adapter option \<times> ('p, 'a oas_error_list) adapter_release \<times> ('a, 'w) parser_state) option" where
  "oas_adapter_create env arena json config st =
     (if json = None \<or> json = Some [] then Some (None, nothing_released, st)
      else if \<not> ae_calloc env then Some (None, nothing_released, st)
      else
        (case arena of
           None \<Rightarrow> Some (None, nothing_released\<lparr>al_adapters := 1\<rparr>, st)
         | Some a \<Rightarrow> do {
             (doc, st) \<leftarrow> oas_doc_parse (ae_parser env) True json (st\<lparr>dp_arena := a\<rparr>);
             let adapter = \<lparr>ad_owns_arena = True, ad_doc = doc, ad_compiled = None, ad_config = apply_defaults config,
                            ad_spec_json = None, ad_spec_json_len = 0\<rparr>;
             (if doc = None then Some (None, oas_adapter_destroy (Some adapter) nothing_released, st)
              else do {
                (ad, r, errors) \<leftarrow> adapter_finish env (dp_heap st) adapter (dp_errors st);
                Some (ad, r, st\<lparr>dp_errors := errors\<rparr>)
              })
           }))"

text \<open>From a document whose arena the caller keeps.\<close>

definition oas_adapter_from_doc ::
    "('p, 'a, 'w) adapter_env \<Rightarrow> schema_heap \<Rightarrow> oas_doc option \<Rightarrow> bool \<Rightarrow> oas_adapter_config option \<Rightarrow> 'a oas_error_list option
      \<Rightarrow> (('p, 'a oas_error_list) oas_adapter option \<times> ('p, 'a oas_error_list) adapter_release \<times> 'a oas_error_list option) option" where
  "oas_adapter_from_doc env heap doc arena config errors =
     (if doc = None \<or> \<not> arena then Some (None, nothing_released, errors)
      else if \<not> ae_calloc env then Some (None, nothing_released, errors)
      else adapter_finish env heap
             \<lparr>ad_owns_arena = False, ad_doc = doc, ad_compiled = None, ad_config = apply_defaults config,
              ad_spec_json = None, ad_spec_json_len = 0\<rparr> errors)"

section \<open>Accessors and validation\<close>

definition oas_adapter_doc :: "('p, 'e) oas_adapter option \<Rightarrow> oas_doc option" where
  "oas_adapter_doc adapter = Option.bind adapter ad_doc"

definition oas_adapter_get_config :: "('p, 'e) oas_adapter option \<Rightarrow> oas_adapter_config option" where
  "oas_adapter_get_config adapter = map_option ad_config adapter"

definition oas_adapter_spec_json :: "('p, 'e) oas_adapter option \<Rightarrow> nat option \<Rightarrow> string option \<times> nat option" where
  "oas_adapter_spec_json adapter out_len =
     (case adapter of
        None \<Rightarrow> (None, map_option (\<lambda>n. 0) out_len)
      | Some ad \<Rightarrow>
          (case ad_spec_json ad of
             None \<Rightarrow> (None, map_option (\<lambda>n. 0) out_len)
           | Some t \<Rightarrow> (Some t, map_option (\<lambda>n. ad_spec_json_len ad) out_len)))"

definition oas_adapter_validate_request ::
    "yyjson \<Rightarrow> 'a allocator \<Rightarrow> ('p, 'e) oas_adapter option \<Rightarrow> oas_http_request option \<Rightarrow> 'a request_state option
      \<Rightarrow> (errno option \<times> 'a request_state option) option" where
  "oas_adapter_validate_request yy alloc adapter req result =
     (case Option.bind adapter ad_compiled of
        None \<Rightarrow> Some (Some EINVAL, result)
      | Some cdoc \<Rightarrow> oas_validate_request yy alloc (Some cdoc) req result)"

definition oas_adapter_validate_response ::
    "yyjson \<Rightarrow> 'a allocator \<Rightarrow> ('p, 'e) oas_adapter option \<Rightarrow> string option \<Rightarrow> string option \<Rightarrow> oas_http_response option
      \<Rightarrow> 'a request_state option \<Rightarrow> (errno option \<times> 'a request_state option) option" where
  "oas_adapter_validate_response yy alloc adapter path meth resp result =
     (case Option.bind adapter ad_compiled of
        None \<Rightarrow> Some (Some EINVAL, result)
      | Some cdoc \<Rightarrow> oas_validate_response yy alloc (Some cdoc) path meth resp result)"

section \<open>Looking up an operation\<close>

record oas_matched_operation =
  mo_operation_id :: "string option"
  mo_path_template :: "string option"
  mo_method :: "string option"
  mo_param_names :: "string option list"
  mo_param_values :: "string list"
  mo_param_count :: nat

definition no_operation :: oas_matched_operation where
  "no_operation = \<lparr>mo_operation_id = None, mo_path_template = None, mo_method = None, mo_param_names = [],
     mo_param_values = [], mo_param_count = 0\<rparr>"

text \<open>The two arrays for the parameters: both are asked for, and both must be there.\<close>

definition fill_params ::
    "'a allocator \<Rightarrow> oas_path_match_result \<Rightarrow> oas_matched_operation \<Rightarrow> 'a \<Rightarrow> errno option \<times> oas_matched_operation \<times> 'a" where
  "fill_params alloc m out a =
     (if pm_params_count m = 0 then (None, out, a)
      else
        (case alloc a (of_nat (pm_params_count m) * 8) 8 of
           (names, a) \<Rightarrow>
             (case alloc a (of_nat (pm_params_count m) * 8) 8 of
                (vals, a) \<Rightarrow>
                  if names = None \<or> vals = None then (Some ENOMEM, out, a)
                  else (None, out\<lparr>mo_param_names := map mp_name (pm_params m), mo_param_values := map mp_value (pm_params m)\<rparr>, a))))"

definition oas_adapter_find_operation ::
    "'a allocator \<Rightarrow> ('p, 'e) oas_adapter option \<Rightarrow> string option \<Rightarrow> string option \<Rightarrow> oas_matched_operation option \<Rightarrow> 'a option
      \<Rightarrow> errno option \<times> oas_matched_operation option \<times> 'a option" where
  "oas_adapter_find_operation alloc adapter meth path out arena =
     (case (adapter, meth, path, out, arena) of
        (Some ad, Some mt, Some p, Some _, Some a) \<Rightarrow>
          (case Option.bind (ad_compiled ad) cd_matcher of
             None \<Rightarrow> (Some ENOENT, Some no_operation, arena)
           | Some matcher \<Rightarrow>
               (case oas_path_match alloc (Some matcher) (Some p) (Some no_match) (Some a) of
                  (rc, m, arena) \<Rightarrow>
                    if rc \<noteq> None then (rc, Some no_operation, arena)
                    else if \<not> pm_matched (the m) then (Some ENOENT, Some no_operation, arena)
                    else
                      (case find (\<lambda>c. co_path c = the (pm_template_path (the m)) \<and> strcaseeq (co_method c) mt)
                              (cd_operations (the (ad_compiled ad))) of
                         None \<Rightarrow> (Some ENOENT, Some no_operation, arena)
                       | Some c \<Rightarrow>
                           (case fill_params alloc (the m)
                                   (no_operation\<lparr>mo_operation_id := co_operation_id c,
                                      mo_path_template := pm_template_path (the m), mo_method := Some (co_method c),
                                      mo_param_count := pm_params_count (the m)\<rparr>) (the arena) of
                              (rc, op', a) \<Rightarrow> (rc, Some op', Some a)))))
      | _ \<Rightarrow> (Some EINVAL, out, arena))"

section \<open>The documentation page\<close>

definition html_line :: "string \<Rightarrow> string" where
  "html_line s = s @ [CHR 0x0A]"

definition quoted :: "string \<Rightarrow> string" where
  "quoted s = [CHR 0x22] @ s @ [CHR 0x22]"

definition SCALAR_CDN :: string where
  "SCALAR_CDN = ''https://cdn.jsdelivr.net/npm/@scalar/api-reference''"

definition scalar_page :: "string \<Rightarrow> string \<Rightarrow> string" where
  "scalar_page title spec_url =
     html_line ''<!DOCTYPE html>'' @
     html_line (''<html lang='' @ quoted ''en'' @ ''>'') @
     html_line ''<head>'' @
     html_line (''  <meta charset='' @ quoted ''utf-8'' @ ''>'') @
     html_line (''  <meta name='' @ quoted ''viewport'' @ '' content='' @ quoted ''width=device-width, initial-scale=1'' @ ''>'') @
     html_line (''  <title>'' @ title @ ''</title>'') @
     html_line ''</head>'' @
     html_line ''<body>'' @
     html_line (''  <script id='' @ quoted ''api-reference'' @ '' data-url='' @ quoted spec_url @ ''></script>'') @
     html_line (''  <script src='' @ quoted SCALAR_CDN @ ''></script>'') @
     html_line ''</body>'' @
     html_line ''</html>''"

text \<open>The page, from a buffer of 4096 bytes when there is memory for it; the title and the address go in as they are.\<close>

definition oas_scalar_html :: "bool \<Rightarrow> string option \<Rightarrow> string option \<Rightarrow> nat option \<Rightarrow> string option \<times> nat option" where
  "oas_scalar_html mem title spec_url out_len =
     (case spec_url of
        None \<Rightarrow> (None, out_len)
      | Some url \<Rightarrow>
          if \<not> mem then (None, out_len)
          else
            let page = scalar_page (case title of None \<Rightarrow> ''API Documentation'' | Some t \<Rightarrow> t) url
            in if 4096 \<le> length page then (None, out_len)
               else (Some page, map_option (\<lambda>n. length page) out_len))"

end
