(* ===== verification/Liboas_Adapter_Spec.thy ===== *)
theory Liboas_Adapter_Spec
  imports Liboas_Adapter Liboas_Document
begin

text \<open>
  The adapter against its parts: its verdict and its lookup are those of the document it was made
  from, and what it owns is given back once.
\<close>

section \<open>Looking up operations\<close>

text \<open>What the document says of a path and a method.\<close>

definition source_match :: "oas_doc \<Rightarrow> string \<Rightarrow> string \<Rightarrow> oas_matched_operation option" where
  "source_match doc path meth =
     (case route (doc_paths doc) path of
        None \<Rightarrow> None
      | Some (t, segs) \<Rightarrow>
          map_option (\<lambda>(_, m, opn).
            \<lparr>mo_operation_id = op_operation_id opn, mo_path_template = Some t, mo_method = Some m,
             mo_param_names = map mp_name (bound_params t segs), mo_param_values = map mp_value (bound_params t segs),
             mo_param_count = length (bound_params t segs)\<rparr>)
            (find_source_operation doc t meth))"

lemma fill_params_granted:
  assumes "alloc_total alloc" and "pm_params_count m = length (pm_params m)" and "length (pm_params m) < 2 ^ 58"
    and "mo_param_names out = []" and "mo_param_values out = []"
  shows "\<exists>a'. fill_params alloc m out a =
    (None, out\<lparr>mo_param_names := map mp_name (pm_params m), mo_param_values := map mp_value (pm_params m)\<rparr>, a')"
proof (cases "pm_params m = []")
  case True
  then show ?thesis using assms(2,4,5) by (simp add: fill_params_def)
next
  case False
  let ?n = "length (pm_params m) * 8"
  have n: "?n \<noteq> 0" "?n < 2 ^ 64" using False assms(3) by simp_all
  then obtain p a1 where a1: "alloc a (of_nat ?n) 8 = (Some p, a1)" using granted [OF assms(1), of ?n 8 a] by auto
  obtain q a2 where "alloc a1 (of_nat ?n) 8 = (Some q, a2)" using n granted [OF assms(1), of ?n 8 a1] by auto
  then show ?thesis using False assms(2) a1 by (simp add: fill_params_def)
qed

lemma route_short:
  assumes "route ts path = Some (t, segs)"
  shows "length (bound_params t segs) < 2 ^ 58"
proof -
  have "length segs \<le> MAX_SEGMENTS" using assms
    by (auto simp: route_def split_request_path_def split_loop_segments Let_def split: option.splits if_splits)
  moreover have "length (bound_params t segs) \<le> length segs"
    unfolding bound_params_def by (simp add: le_trans [OF length_filter_le])
  ultimately show ?thesis by (simp add: MAX_SEGMENTS_def)
qed

text \<open>
  The adapter's lookup says of every method and path what the document says: the operation the
  path templates route to and the method names, with its identifier, its template and the bound
  parameters, or \<open>ENOENT\<close> with an empty result where the document has none.
\<close>

theorem adapter_operation_routes:
  assumes "oas_doc_compile de (Some doc) errors = Some (Some cdoc, rel, es)" and "ad_compiled ad = Some cdoc"
    and "alloc_total alloc" and "path \<noteq> []" and "hd path = CHR ''/''" and "length path < 2 ^ 58"
  shows "\<exists>a'. oas_adapter_find_operation alloc (Some ad) (Some meth) (Some path) (Some out) (Some a) =
    (case source_match doc path meth of
       None \<Rightarrow> (Some ENOENT, Some no_operation, Some a')
     | Some m \<Rightarrow> (None, Some m, Some a'))"
proof (cases "cd_matcher cdoc")
  case None
  then have "doc_paths doc = []" using doc_compile_parts(2) [OF assms(1)] by (simp add: doc_paths_def)
  then show ?thesis using None assms(2) by (simp add: oas_adapter_find_operation_def source_match_def route_nothing)
next
  case (Some ms)
  then have m: "list_all2 represents (doc_paths doc) ms" using doc_compile_parts(2) [OF assms(1)] by (simp add: doc_paths_def)
  obtain a1 where r: "oas_path_match alloc (Some ms) (Some path) (Some no_match) (Some a) =
      (None, Some (routed_result (route (doc_paths doc) path)), Some a1)"
    using path_match_route [OF assms(3) m assms(4-6)] by blast
  show ?thesis
  proof (cases "route (doc_paths doc) path")
    case None
    then show ?thesis using Some r assms(2)
      by (simp add: oas_adapter_find_operation_def source_match_def routed_result_def no_match_def)
  next
    case us: (Some us)
    obtain u segs where u: "us = (u, segs)" by fastforce
    let ?m = "routed_result (Some (u, segs))"
    have p: "pm_matched ?m" "pm_template_path ?m = Some u" "pm_params ?m = bound_params u segs"
      "pm_params_count ?m = length (bound_params u segs)" by (simp_all add: routed_result_def)
    note chosen = operation_chosen [OF doc_compile_parts(1) [OF assms(1)], of u meth]
    have f: "find (\<lambda>c. co_path c = u \<and> strcaseeq (co_method c) meth) (cd_operations cdoc) = find_operation cdoc u meth"
      by (simp add: find_operation_def)
    show ?thesis
    proof (cases "find_operation cdoc u meth")
      case None
      then have "find_source_operation doc u meth = None" using chosen by simp
      then show ?thesis using Some r us u p None f assms(2)
        by (simp add: oas_adapter_find_operation_def source_match_def)
    next
      case c: (Some c)
      then obtain z w b where s: "find_source_operation doc u meth = Some (z, w, b)" "operation_of de (z, w, b) c"
        using chosen by (auto simp: option_rel_Some2)
      obtain a2 where "fill_params alloc ?m (no_operation\<lparr>mo_operation_id := co_operation_id c, mo_path_template := Some u,
            mo_method := Some (co_method c), mo_param_count := length (bound_params u segs)\<rparr>) a1 =
          (None, \<lparr>mo_operation_id = op_operation_id b, mo_path_template = Some u, mo_method = Some w,
             mo_param_names = map mp_name (bound_params u segs), mo_param_values = map mp_value (bound_params u segs),
             mo_param_count = length (bound_params u segs)\<rparr>, a2)"
        using fill_params_granted [OF assms(3), of ?m "no_operation\<lparr>mo_operation_id := co_operation_id c, mo_path_template := Some u,
            mo_method := Some (co_method c), mo_param_count := length (bound_params u segs)\<rparr>" a1] route_short us u s(2)
        by (auto simp: p no_operation_def operation_of_def)
      then show ?thesis using Some r us u p c f assms(2) s(1)
        by (simp add: oas_adapter_find_operation_def source_match_def)
    qed
  qed
qed

theorem adapter_operation_routes_witness:
  "\<exists>cdoc rel es a'. oas_doc_compile pets_env (Some pets_source) None = Some (Some cdoc, rel, es) \<and>
     oas_adapter_find_operation (\<lambda>a n k. (Some 8, a)) (Some \<lparr>ad_owns_arena = False, ad_doc = Some pets_source,
         ad_compiled = Some cdoc, ad_config = apply_defaults None, ad_spec_json = None, ad_spec_json_len = 0\<rparr>)
       (Some ''get'') (Some ''/pets/rex'') (Some no_operation) (Some ()) =
     (None, Some \<lparr>mo_operation_id = Some ''getPet'', mo_path_template = Some ''/pets/{id}'', mo_method = Some ''GET'',
        mo_param_names = [Some ''id''], mo_param_values = [''rex''], mo_param_count = 1\<rparr>, Some a')"
proof -
  obtain cdoc rel es where c: "oas_doc_compile pets_env (Some pets_source) None = Some (Some cdoc, rel, es)"
    using pets_compiles by blast
  have b: "bound_params ''/pets/{id}'' [''pets'', ''rex''] = [\<lparr>mp_name = Some ''id'', mp_value = ''rex''\<rparr>]"
    by (simp add: bound_params_def sample_segments is_param_segment_def)
  have m: "source_match pets_source ''/pets/rex'' ''get'' = Some \<lparr>mo_operation_id = Some ''getPet'', mo_path_template = Some ''/pets/{id}'',
      mo_method = Some ''GET'', mo_param_names = [Some ''id''], mo_param_values = [''rex''], mo_param_count = 1\<rparr>"
    by (simp add: source_match_def pets_routed b) (simp add: pets_operation_source_def)
  show ?thesis
    using adapter_operation_routes [OF c, where ad = "\<lparr>ad_owns_arena = False, ad_doc = Some pets_source, ad_compiled = Some cdoc,
        ad_config = apply_defaults None, ad_spec_json = None, ad_spec_json_len = 0\<rparr>" and path = "''/pets/rex''" and meth = "''get''" and
        a = "()" and out = no_operation, OF _ sample_total] c by (auto simp: m)
qed

section \<open>Ownership\<close>

lemma destroy_counts:
  "al_adapters (oas_adapter_destroy ad r) = al_adapters r + (if ad = None then 0 else 1)"
  "al_arenas (oas_adapter_destroy ad r) = al_arenas r + (case ad of None \<Rightarrow> 0 | Some x \<Rightarrow> if ad_owns_arena x then 1 else 0)"
  "al_texts (oas_adapter_destroy ad r) =
     al_texts r + (case ad of None \<Rightarrow> 0 | Some x \<Rightarrow> if ad_spec_json x = None then 0 else 1)"
  "al_json_docs (oas_adapter_destroy ad r) =
     (case ad of None \<Rightarrow> [] | Some x \<Rightarrow> if ad_owns_arena x then snd (oas_doc_free (ad_doc x)) else []) @ al_json_docs r"
  "al_doc (oas_adapter_destroy ad r) = (case ad of None \<Rightarrow> al_doc r | Some x \<Rightarrow> oas_compiled_doc_free (ad_compiled x) (al_doc r))"
  by (auto simp: oas_adapter_destroy_def Let_def split: option.split)

text \<open>What \<open>adapter_finish\<close> leaves: nothing, or the adapter with the compiled document.\<close>

lemma adapter_finish_cases:
  assumes "adapter_finish env heap adapter errors = Some (ad, r, es)"
  obtains (failed) rel where "ad = None" "oas_doc_compile (adapter_doc_env env heap) (ad_doc adapter) errors = Some (None, rel, es)"
      "r = oas_adapter_destroy (Some (adapter\<lparr>ad_compiled := None\<rparr>)) (nothing_released\<lparr>al_doc := rel\<rparr>)"
    | (made) x cdoc rel where "ad = Some x" "oas_doc_compile (adapter_doc_env env heap) (ad_doc adapter) errors = Some (Some cdoc, rel, es)"
      "r = nothing_released\<lparr>al_doc := rel\<rparr>" "ad_compiled x = Some cdoc" "ad_doc x = ad_doc adapter"
      "ad_owns_arena x = ad_owns_arena adapter" "ad_config x = ad_config adapter"
      "ad_spec_json x \<noteq> None \<longrightarrow> ac_serve_spec (ad_config adapter) \<or> ad_spec_json adapter \<noteq> None"
proof -
  obtain cdoc rel e where c: "oas_doc_compile (adapter_doc_env env heap) (ad_doc adapter) errors = Some (cdoc, rel, e)"
    using assms by (auto simp: adapter_finish_def bind_eq_Some_conv)
  show thesis
  proof (cases cdoc)
    case None
    then show thesis using failed [of rel] assms c by (simp add: adapter_finish_def)
  next
    case (Some y)
    show thesis
    proof (cases "ac_serve_spec (ad_config adapter)")
      case True
      then obtain t len where "ad = Some (adapter\<lparr>ad_compiled := Some y, ad_spec_json := t, ad_spec_json_len := the len\<rparr>)"
          "r = nothing_released\<lparr>al_doc := rel\<rparr>" "es = e"
        using assms c Some by (auto simp: adapter_finish_def bind_eq_Some_conv)
      then show thesis using made [of _ y rel] c Some True by simp
    next
      case False
      then show thesis using made [of _ y rel] assms c Some by (auto simp: adapter_finish_def)
    qed
  qed
qed

text \<open>What is given back after the constructor and the destructor.\<close>

lemma finish_released:
  assumes "adapter_finish env heap adapter errors = Some (ad, r, es)" and "ad_spec_json adapter = None"
  shows "al_adapters (oas_adapter_destroy ad r) = 1"
    and "al_arenas (oas_adapter_destroy ad r) = (if ad_owns_arena adapter then 1 else 0)"
    and "al_texts (oas_adapter_destroy ad r) = (if \<exists>x. ad = Some x \<and> ad_spec_json x \<noteq> None then 1 else 0)"
    and "al_json_docs (oas_adapter_destroy ad r) = (if ad_owns_arena adapter then snd (oas_doc_free (ad_doc adapter)) else [])"
    and "length (dl_schemas (al_doc (oas_adapter_destroy ad r))) = dl_calls (al_doc (oas_adapter_destroy ad r))"
    and "\<forall>cs \<in> set (dl_schemas (al_doc (oas_adapter_destroy ad r))). all_compiled cs = all_freed cs"
    and "ad \<noteq> None \<Longrightarrow> dl_regex (al_doc (oas_adapter_destroy ad r)) = (if ae_regex env = None then 0 else 1)"
proof -
  define r' where "r' = oas_adapter_destroy ad r"
  have "al_adapters r' = 1 \<and> al_arenas r' = (if ad_owns_arena adapter then 1 else 0) \<and>
    al_texts r' = (if \<exists>x. ad = Some x \<and> ad_spec_json x \<noteq> None then 1 else 0) \<and>
    al_json_docs r' = (if ad_owns_arena adapter then snd (oas_doc_free (ad_doc adapter)) else []) \<and>
    length (dl_schemas (al_doc r')) = dl_calls (al_doc r') \<and>
    (\<forall>cs \<in> set (dl_schemas (al_doc r')). all_compiled cs = all_freed cs) \<and>
    (ad \<noteq> None \<longrightarrow> dl_regex (al_doc r') = (if ae_regex env = None then 0 else 1))"
    using assms(1)
  proof (cases rule: adapter_finish_cases)
    case (failed rel)
    have d: "al_doc r' = oas_compiled_doc_free None rel"
      by (simp add: r'_def failed(1,3) destroy_counts nothing_released_def oas_compiled_doc_free_def)
    show ?thesis using failed(1) compiled_doc_released [OF failed(2)] assms(2) unfolding d
      by (auto simp: Let_def r'_def failed(3) destroy_counts nothing_released_def)
  next
    case (made x cdoc rel)
    have d: "al_doc r' = oas_compiled_doc_free (Some cdoc) rel"
      by (simp add: r'_def made destroy_counts nothing_released_def)
    have t: "ad_doc adapter \<noteq> None \<and> (\<exists>a p a'. de_arena (adapter_doc_env env heap) = Some a \<and>
        de_alloc (adapter_doc_env env heap) a 72 8 = (Some p, a'))"
      using made(2) by (auto simp: oas_doc_compile_def Let_def split: option.splits prod.splits)
    have o: "owned_backend (adapter_doc_env env heap) = ae_regex env"
      "\<not> cc_borrow_regex (the (de_config (adapter_doc_env env heap)))"
      by (simp_all add: owned_backend_def adapter_doc_env_def)
    show ?thesis using compiled_doc_released [OF made(2)] t o unfolding d
      by (auto simp: Let_def r'_def made destroy_counts nothing_released_def)
  qed
  then show "al_adapters (oas_adapter_destroy ad r) = 1"
    and "al_arenas (oas_adapter_destroy ad r) = (if ad_owns_arena adapter then 1 else 0)"
    and "al_texts (oas_adapter_destroy ad r) = (if \<exists>x. ad = Some x \<and> ad_spec_json x \<noteq> None then 1 else 0)"
    and "al_json_docs (oas_adapter_destroy ad r) = (if ad_owns_arena adapter then snd (oas_doc_free (ad_doc adapter)) else [])"
    and "length (dl_schemas (al_doc (oas_adapter_destroy ad r))) = dl_calls (al_doc (oas_adapter_destroy ad r))"
    and "\<forall>cs \<in> set (dl_schemas (al_doc (oas_adapter_destroy ad r))). all_compiled cs = all_freed cs"
    and "ad \<noteq> None \<Longrightarrow> dl_regex (al_doc (oas_adapter_destroy ad r)) = (if ae_regex env = None then 0 else 1)"
    unfolding r'_def [symmetric] by blast+
qed



section \<open>An adapter\<close>

definition adapter_sample :: "(unit, oas_arena, unit) adapter_env" where
  "adapter_sample = \<lparr>ae_calloc = True, ae_parser = doc_parser_env two_root, ae_regex = None,
     ae_compile = \<lparr>de_fuel = 1, de_heap = Map.empty, de_config = None, de_report = (\<lambda>e m. e), de_calloc = (\<lambda>k. True),
       de_mem_code = (\<lambda>k n. True), de_mem_patterns = (\<lambda>k n. True), de_mem_track = (\<lambda>n. True),
       de_alloc = (\<lambda>a n k. (Some 8, a)), de_arena = Some small_arena\<rparr>,
     ae_emit = \<lparr>ee_doc_new = True, ee_write = (\<lambda>p v. Some ''{}''), ee_fy_read = Some, ee_fy_write = (\<lambda>p t. Some t)\<rparr>, ae_emit_fuel = 9\<rparr>"

lemma adapter_sample_created:
  "\<exists>ad r st'. oas_adapter_create adapter_sample (Some small_arena) (Some ''{}'') None doc_parser_start = Some (Some ad, r, st') \<and>
     ad_doc ad = Some two_doc"
proof -
  have a: "doc_parser_start\<lparr>dp_arena := small_arena\<rparr> = doc_parser_start" by (simp add: doc_parser_start_def)
  obtain st1 where p: "oas_doc_parse (doc_parser_env two_root) True (Some ''{}'') doc_parser_start = Some (Some two_doc, st1)"
    using two_parsed by (auto simp: oas_doc_parse_def)
  have o: "doc_operations two_doc = []" "d_paths two_doc = []" by (simp_all add: doc_operations_def two_doc_def)
  then have n: "count_operations two_doc = 0" by (simp add: count_operations_def)
  let ?ad = "\<lparr>ad_owns_arena = True, ad_doc = Some two_doc, ad_compiled = None :: (unit, oas_arena oas_error_list) oas_compiled_doc option,
    ad_config = apply_defaults None, ad_spec_json = None, ad_spec_json_len = 0\<rparr>"
  obtain cdoc rel es where c: "oas_doc_compile (adapter_doc_env adapter_sample (dp_heap st1)) (Some two_doc) (dp_errors st1) =
      Some (Some cdoc, rel, es)"
    by (simp add: oas_doc_compile_def adapter_doc_env_def adapter_sample_def doc_compile_body_def build_matcher_def o n
        operations_array_def Let_def)
  have "adapter_finish adapter_sample (dp_heap st1) ?ad (dp_errors st1) =
      Some (Some (?ad\<lparr>ad_compiled := Some cdoc\<rparr>), nothing_released\<lparr>al_doc := rel\<rparr>, es)"
    by (simp add: adapter_finish_def c) (simp add: apply_defaults_def)
  moreover have "ae_calloc adapter_sample" "ae_parser adapter_sample = doc_parser_env two_root" by (simp_all add: adapter_sample_def)
  ultimately show ?thesis using p by (simp add: oas_adapter_create_def a)
qed



end
