(* ===== verification/Liboas_Builder.thy ===== *)
theory Liboas_Builder
  imports Liboas_Doc Liboas_Request
begin

text \<open>
  The code-first builders: \<open>src/model/oas_schema_builder.c\<close>, \<open>src/model/oas_doc_builder.c\<close> and
  the structures of \<open>include/liboas/oas_builder.h\<close>. The document is a value that each call returns
  updated, the pointer to a path item the position of its entry. An unset bound, a NAN in the code, is \<open>None\<close>.
  The outer \<open>None\<close> of a result is undefined behaviour: an array without its sentinel, or a schema
  pointer outside the heap.
\<close>

section \<open>Schemas\<close>

type_synonym 'a schema_result = "sref option \<times> 'a option \<times> schema_heap"

definition create_schema ::
    "'a allocator \<Rightarrow> (oas_schema \<Rightarrow> oas_schema) \<Rightarrow> 'a option \<Rightarrow> schema_heap \<Rightarrow> 'a schema_result" where
  "create_schema alloc f arena h =
     (case oas_schema_create alloc arena h of
        (None, arena, h) \<Rightarrow> (None, arena, h)
      | (Some p, arena, h) \<Rightarrow> (Some p, arena, h(p := map_option f (h p))))"

definition oas_schema_build_string :: "'a allocator \<Rightarrow> 'a option \<Rightarrow> schema_heap \<Rightarrow> 'a schema_result" where
  "oas_schema_build_string alloc = create_schema alloc (\<lambda>s. s\<lparr>s_type_mask := OAS_TYPE_STRING\<rparr>)"

definition oas_schema_build_int32 :: "'a allocator \<Rightarrow> 'a option \<Rightarrow> schema_heap \<Rightarrow> 'a schema_result" where
  "oas_schema_build_int32 alloc =
     create_schema alloc (\<lambda>s. s\<lparr>s_type_mask := OAS_TYPE_INTEGER, s_format := Some ''int32''\<rparr>)"

definition oas_schema_build_int64 :: "'a allocator \<Rightarrow> 'a option \<Rightarrow> schema_heap \<Rightarrow> 'a schema_result" where
  "oas_schema_build_int64 alloc =
     create_schema alloc (\<lambda>s. s\<lparr>s_type_mask := OAS_TYPE_INTEGER, s_format := Some ''int64''\<rparr>)"

definition oas_schema_build_number :: "'a allocator \<Rightarrow> 'a option \<Rightarrow> schema_heap \<Rightarrow> 'a schema_result" where
  "oas_schema_build_number alloc = create_schema alloc (\<lambda>s. s\<lparr>s_type_mask := OAS_TYPE_NUMBER\<rparr>)"

definition oas_schema_build_bool :: "'a allocator \<Rightarrow> 'a option \<Rightarrow> schema_heap \<Rightarrow> 'a schema_result" where
  "oas_schema_build_bool alloc = create_schema alloc (\<lambda>s. s\<lparr>s_type_mask := OAS_TYPE_BOOLEAN\<rparr>)"

record oas_string_opts =
  so_min_length :: int
  so_max_length :: int
  so_pattern :: "string option"
  so_format :: "string option"
  so_description :: "string option"

definition oas_schema_build_string_ex ::
    "'a allocator \<Rightarrow> 'a option \<Rightarrow> schema_heap \<Rightarrow> oas_string_opts option \<Rightarrow> 'a schema_result" where
  "oas_schema_build_string_ex alloc arena h opts =
     (case opts of
        None \<Rightarrow> oas_schema_build_string alloc arena h
      | Some c \<Rightarrow> create_schema alloc
          (\<lambda>s. s\<lparr>s_type_mask := OAS_TYPE_STRING, s_min_length := so_min_length c, s_max_length := so_max_length c,
             s_pattern := so_pattern c, s_format := so_format c, s_description := so_description c\<rparr>) arena h)"

record oas_number_opts =
  no_minimum :: "double option"
  no_maximum :: "double option"
  no_exclusive_min :: bool
  no_exclusive_max :: bool
  no_multiple_of :: "double option"
  no_format :: "string option"
  no_description :: "string option"

definition set_minimum :: "oas_number_opts \<Rightarrow> oas_schema \<Rightarrow> oas_schema" where
  "set_minimum c s =
     (case no_minimum c of
        None \<Rightarrow> s
      | Some m \<Rightarrow>
          if no_exclusive_min c then s\<lparr>s_exclusive_minimum := m, s_has_exclusive_minimum := True\<rparr>
          else s\<lparr>s_minimum := m, s_has_minimum := True\<rparr>)"

definition set_maximum :: "oas_number_opts \<Rightarrow> oas_schema \<Rightarrow> oas_schema" where
  "set_maximum c s =
     (case no_maximum c of
        None \<Rightarrow> s
      | Some m \<Rightarrow>
          if no_exclusive_max c then s\<lparr>s_exclusive_maximum := m, s_has_exclusive_maximum := True\<rparr>
          else s\<lparr>s_maximum := m, s_has_maximum := True\<rparr>)"

definition set_multiple_of :: "oas_number_opts \<Rightarrow> oas_schema \<Rightarrow> oas_schema" where
  "set_multiple_of c s =
     (case no_multiple_of c of None \<Rightarrow> s | Some m \<Rightarrow> s\<lparr>s_multiple_of := m, s_has_multiple_of := True\<rparr>)"

definition build_numeric_ex ::
    "'a allocator \<Rightarrow> 'a option \<Rightarrow> schema_heap \<Rightarrow> u8 \<Rightarrow> oas_number_opts \<Rightarrow> 'a schema_result" where
  "build_numeric_ex alloc arena h tm c =
     create_schema alloc
       (\<lambda>s. (set_multiple_of c (set_maximum c (set_minimum c (s\<lparr>s_type_mask := tm\<rparr>))))
          \<lparr>s_format := no_format c, s_description := no_description c\<rparr>) arena h"

definition oas_schema_build_integer_ex ::
    "'a allocator \<Rightarrow> 'a option \<Rightarrow> schema_heap \<Rightarrow> oas_number_opts option \<Rightarrow> 'a schema_result" where
  "oas_schema_build_integer_ex alloc arena h opts =
     (case opts of
        None \<Rightarrow> oas_schema_build_int64 alloc arena h
      | Some c \<Rightarrow> build_numeric_ex alloc arena h OAS_TYPE_INTEGER c)"

definition oas_schema_build_number_ex ::
    "'a allocator \<Rightarrow> 'a option \<Rightarrow> schema_heap \<Rightarrow> oas_number_opts option \<Rightarrow> 'a schema_result" where
  "oas_schema_build_number_ex alloc arena h opts =
     (case opts of
        None \<Rightarrow> oas_schema_build_number alloc arena h
      | Some c \<Rightarrow> build_numeric_ex alloc arena h OAS_TYPE_NUMBER c)"

definition oas_schema_build_array ::
    "'a allocator \<Rightarrow> 'a option \<Rightarrow> schema_heap \<Rightarrow> sref option \<Rightarrow> 'a schema_result" where
  "oas_schema_build_array alloc arena h items =
     create_schema alloc (\<lambda>s. s\<lparr>s_type_mask := OAS_TYPE_ARRAY, s_items := items\<rparr>) arena h"

definition oas_schema_build_object :: "'a allocator \<Rightarrow> 'a option \<Rightarrow> schema_heap \<Rightarrow> 'a schema_result" where
  "oas_schema_build_object alloc = create_schema alloc (\<lambda>s. s\<lparr>s_type_mask := OAS_TYPE_OBJECT\<rparr>)"

text \<open>The names after the schema are those of the argument list before its null pointer.\<close>

definition oas_schema_set_required ::
    "'a allocator \<Rightarrow> 'a option \<Rightarrow> schema_heap \<Rightarrow> sref option \<Rightarrow> string list
      \<Rightarrow> (errno option \<times> 'a option \<times> schema_heap) option" where
  "oas_schema_set_required alloc arena h schema names =
     (case (arena, schema) of
        (Some a, Some p) \<Rightarrow>
          if names = [] then Some (None, arena, h)
          else (case alloc a (of_nat (length names) * 8) 8 of
              (None, a) \<Rightarrow> Some (Some ENOMEM, Some a, h)
            | (Some _, a) \<Rightarrow> do { s \<leftarrow> h p; Some (None, Some a, h(p \<mapsto> s\<lparr>s_required := names\<rparr>)) })
      | _ \<Rightarrow> Some (Some EINVAL, arena, h))"

definition oas_schema_set_description ::
    "schema_heap \<Rightarrow> sref option \<Rightarrow> string option \<Rightarrow> (errno option \<times> schema_heap) option" where
  "oas_schema_set_description h schema d =
     (case schema of
        None \<Rightarrow> Some (Some EINVAL, h)
      | Some p \<Rightarrow> do { s \<leftarrow> h p; Some (None, h(p \<mapsto> s\<lparr>s_description := d\<rparr>)) })"

definition oas_schema_set_additional_properties ::
    "schema_heap \<Rightarrow> sref option \<Rightarrow> sref option \<Rightarrow> (errno option \<times> schema_heap) option" where
  "oas_schema_set_additional_properties h schema additional =
     (case schema of
        None \<Rightarrow> Some (Some EINVAL, h)
      | Some p \<Rightarrow> do { s \<leftarrow> h p; Some (None, h(p \<mapsto> s\<lparr>s_additional_properties := additional\<rparr>)) })"

section \<open>Allocating one structure after the other\<close>

text \<open>A step gives a value or, when memory is refused, a null pointer; both with the arena after it.\<close>

type_synonym ('a, 'x) maker = "'a \<Rightarrow> ('x option \<times> 'a) option"

definition done_with :: "'x \<Rightarrow> ('a, 'x) maker" where
  "done_with x a = Some (Some x, a)"

definition and_then :: "('a, 'x) maker \<Rightarrow> ('x \<Rightarrow> ('a, 'y) maker) \<Rightarrow> ('a, 'y) maker" where
  "and_then m f a = do {
     (x, a) \<leftarrow> m a;
     case x of None \<Rightarrow> Some (None, a) | Some y \<Rightarrow> f y a
   }"

definition room :: "'a allocator \<Rightarrow> u64 \<Rightarrow> u64 \<Rightarrow> ('a, unit) maker" where
  "room alloc sz align a =
     (case alloc a sz align of (None, a) \<Rightarrow> Some (None, a) | (Some _, a) \<Rightarrow> Some (Some (), a))"

fun make_each :: "('v \<Rightarrow> ('a, 'x) maker) \<Rightarrow> 'v list \<Rightarrow> ('a, 'x list) maker" where
  "make_each mk [] = done_with []"
| "make_each mk (v # vs) = and_then (mk v) (\<lambda>x. and_then (make_each mk vs) (\<lambda>xs. done_with (x # xs)))"

text \<open>The elements of an array before its sentinel; the scan for it counts them.\<close>

definition until_sentinel :: "('v \<Rightarrow> bool) \<Rightarrow> 'v list \<Rightarrow> 'v list option" where
  "until_sentinel stop vs = (if list_ex stop vs then Some (takeWhile (\<lambda>v. \<not> stop v) vs) else None)"

definition make_array ::
    "'a allocator \<Rightarrow> u64 \<Rightarrow> ('v \<Rightarrow> bool) \<Rightarrow> ('v \<Rightarrow> ('a, 'x) maker) \<Rightarrow> 'v list option \<Rightarrow> ('a, 'x list) maker" where
  "make_array alloc sz stop mk vs a =
     (case vs of
        None \<Rightarrow> Some (Some [], a)
      | Some vs \<Rightarrow> do {
          vs \<leftarrow> until_sentinel stop vs;
          if vs = [] then Some (Some [], a)
          else and_then (room alloc (of_nat (length vs) * sz) 8) (\<lambda>_. make_each mk vs) a
        })"

section \<open>The document\<close>

definition oas_doc_build ::
    "'a allocator \<Rightarrow> 'a option \<Rightarrow> string option \<Rightarrow> string option \<Rightarrow> oas_doc option \<times> 'a option" where
  "oas_doc_build alloc arena title version =
     (case (arena, title, version) of
        (Some a, Some t, Some v) \<Rightarrow>
          (case alloc a 96 8 of
             (None, a) \<Rightarrow> (None, Some a)
           | (Some _, a) \<Rightarrow>
               (case alloc a 56 8 of
                  (None, a) \<Rightarrow> (None, Some a)
                | (Some _, a) \<Rightarrow>
                    (Some \<lparr>d_openapi = Some ''3.2.0'',
                       d_info = Some \<lparr>in_title = Some t, in_summary = None, in_description = None,
                         in_version = Some v, in_terms_of_service = None, in_contact = None, in_license = None\<rparr>,
                       d_servers = [], d_paths = [], d_components = None, d_security = [], d_tags = [],
                       d_json_doc = None\<rparr>, Some a)))
      | _ \<Rightarrow> (None, arena))"

type_synonym 'a doc_result = "errno option \<times> oas_doc option \<times> 'a option"

definition oas_doc_add_server ::
    "'a allocator \<Rightarrow> oas_doc option \<Rightarrow> 'a option \<Rightarrow> string option \<Rightarrow> string option \<Rightarrow> 'a doc_result" where
  "oas_doc_add_server alloc doc arena url description =
     (case (doc, arena, url) of
        (Some d, Some a, Some u) \<Rightarrow>
          (case alloc a (of_nat (length (d_servers d) + 1) * 8) 8 of
             (None, a) \<Rightarrow> (Some ENOMEM, doc, Some a)
           | (Some _, a) \<Rightarrow>
               (case alloc a 32 8 of
                  (None, a) \<Rightarrow> (Some ENOMEM, doc, Some a)
                | (Some _, a) \<Rightarrow>
                    (None, Some (d\<lparr>d_servers := d_servers d @
                       [Some \<lparr>se_url = Some u, se_description = description, se_variables = []\<rparr>]\<rparr>), Some a)))
      | _ \<Rightarrow> (Some EINVAL, doc, arena))"

definition no_components :: oas_components where
  "no_components = \<lparr>co_schemas = [], co_security_schemes = [], co_comp_responses = [], co_parameters = [],
     co_request_bodies = [], co_headers = []\<rparr>"

text \<open>Components made for the call stay when the array of entries is refused.\<close>

definition ensure_components :: "'a allocator \<Rightarrow> oas_doc \<Rightarrow> 'a \<Rightarrow> oas_components option \<times> 'a" where
  "ensure_components alloc d a =
     (case d_components d of
        Some c \<Rightarrow> (Some c, a)
      | None \<Rightarrow> (case alloc a 96 8 of (None, a) \<Rightarrow> (None, a) | (Some _, a) \<Rightarrow> (Some no_components, a)))"

definition oas_doc_add_component_schema ::
    "'a allocator \<Rightarrow> oas_doc option \<Rightarrow> 'a option \<Rightarrow> string option \<Rightarrow> sref option \<Rightarrow> 'a doc_result" where
  "oas_doc_add_component_schema alloc doc arena name schema =
     (case (doc, arena, name, schema) of
        (Some d, Some a, Some nm, Some p) \<Rightarrow>
          (case ensure_components alloc d a of
             (None, a) \<Rightarrow> (Some ENOMEM, doc, Some a)
           | (Some c, a) \<Rightarrow>
               (case alloc a (of_nat (length (co_schemas c) + 1) * 16) 8 of
                  (None, a) \<Rightarrow> (Some ENOMEM, Some (d\<lparr>d_components := Some c\<rparr>), Some a)
                | (Some _, a) \<Rightarrow>
                    (None, Some (d\<lparr>d_components := Some (c\<lparr>co_schemas := co_schemas c @ [(nm, Some p)]\<rparr>)\<rparr>), Some a)))
      | _ \<Rightarrow> (Some EINVAL, doc, arena))"

section \<open>Operations\<close>

record oas_param_builder =
  ob_name :: "string option"
  ob_in :: "string option"
  ob_description :: "string option"
  ob_required :: bool
  ob_schema :: "sref option"

record oas_response_builder =
  rb_status :: int
  rb_text :: "string option"
  rb_content_type :: "string option"
  rb_schema :: "sref option"

record oas_op_builder =
  ob_summary :: "string option"
  ob_op_description :: "string option"
  ob_operation_id :: "string option"
  ob_tag :: "string option"
  ob_params :: "oas_param_builder list option"
  ob_request_body :: "sref option"
  ob_request_content_type :: "string option"
  ob_request_body_required :: bool
  ob_responses :: "oas_response_builder list option"

definition content_type_or_json :: "string option \<Rightarrow> string" where
  "content_type_or_json ct = (case ct of None \<Rightarrow> ''application/json'' | Some t \<Rightarrow> t)"

text \<open>The one media type of a body or response, with its entry.\<close>

definition build_content ::
    "'a allocator \<Rightarrow> string \<Rightarrow> sref \<Rightarrow> ('a, oas_media_type_entry list) maker" where
  "build_content alloc ct p =
     and_then (room alloc 16 8) (\<lambda>_.
     and_then (room alloc 16 8) (\<lambda>_.
     done_with [\<lparr>me_key = ct, me_value = Some \<lparr>mt_media_type_name = Some ct, mt_schema = Some p\<rparr>\<rparr>]))"

definition build_parameter :: "'a allocator \<Rightarrow> oas_param_builder \<Rightarrow> ('a, oas_parameter option) maker" where
  "build_parameter alloc p =
     and_then (room alloc 40 8) (\<lambda>_.
     done_with (Some \<lparr>pa_name = ob_name p, pa_in = ob_in p, pa_description = ob_description p,
       pa_required = ob_required p, pa_deprecated = False, pa_schema = ob_schema p\<rparr>))"

definition status_text :: "int \<Rightarrow> string" where
  "status_text status = dec_int (if status < 100 \<or> 999 < status then 0 else status)"

definition build_response :: "'a allocator \<Rightarrow> oas_response_builder \<Rightarrow> ('a, oas_response_entry) maker" where
  "build_response alloc r =
     and_then (room alloc 4 1) (\<lambda>_.
     and_then (room alloc 24 8) (\<lambda>_.
     and_then (case rb_schema r of
         None \<Rightarrow> done_with []
       | Some p \<Rightarrow> build_content alloc (content_type_or_json (rb_content_type r)) p) (\<lambda>content.
     done_with \<lparr>rn_status_code = status_text (rb_status r),
       rn_response = Some \<lparr>re_description = rb_text r, re_content = content\<rparr>\<rparr>)))"

definition build_body :: "'a allocator \<Rightarrow> oas_op_builder \<Rightarrow> ('a, oas_request_body option) maker" where
  "build_body alloc b =
     (case ob_request_body b of
        None \<Rightarrow> done_with None
      | Some p \<Rightarrow>
          and_then (room alloc 32 8) (\<lambda>_.
          and_then (build_content alloc (content_type_or_json (ob_request_content_type b)) p) (\<lambda>content.
          done_with (Some \<lparr>rb_description = None, rb_required = ob_request_body_required b, rb_content = content\<rparr>))))"

definition build_operation :: "'a allocator \<Rightarrow> oas_op_builder \<Rightarrow> ('a, oas_operation) maker" where
  "build_operation alloc b =
     and_then (room alloc 104 8) (\<lambda>_.
     and_then (case ob_tag b of
         None \<Rightarrow> done_with []
       | Some t \<Rightarrow> and_then (room alloc 8 8) (\<lambda>_. done_with [Some t])) (\<lambda>tags.
     and_then (make_array alloc 8 (\<lambda>p. ob_name p = None) (build_parameter alloc) (ob_params b)) (\<lambda>params.
     and_then (build_body alloc b) (\<lambda>body.
     and_then (make_array alloc 16 (\<lambda>r. rb_status r = 0) (build_response alloc) (ob_responses b)) (\<lambda>resps.
     done_with \<lparr>op_operation_id = ob_operation_id b, op_summary = ob_summary b, op_description = ob_op_description b,
       op_tags = tags, op_parameters = params, op_request_body = body, op_responses = resps,
       op_security = [], op_deprecated = False\<rparr>)))))"

section \<open>Paths\<close>

definition empty_path_item :: "string \<Rightarrow> oas_path_item" where
  "empty_path_item path = \<lparr>pi_path = Some path, pi_get = None, pi_post = None, pi_put = None, pi_delete = None,
     pi_patch = None, pi_head = None, pi_options = None, pi_parameters = []\<rparr>"

fun path_position :: "string \<Rightarrow> oas_path_entry list \<Rightarrow> nat option" where
  "path_position path [] = None"
| "path_position path (e # es) = (if pe_path e = path then Some 0 else map_option Suc (path_position path es))"

text \<open>The item found or made, as the position of its entry; a null item is the null pointer.\<close>

definition find_or_create_path ::
    "'a allocator \<Rightarrow> oas_doc \<Rightarrow> 'a \<Rightarrow> string \<Rightarrow> nat option \<times> oas_doc \<times> 'a" where
  "find_or_create_path alloc d a path =
     (case path_position path (d_paths d) of
        Some i \<Rightarrow> (if pe_item (d_paths d ! i) = None then None else Some i, d, a)
      | None \<Rightarrow>
          (case alloc a (of_nat (length (d_paths d) + 1) * 16) 8 of
             (None, a) \<Rightarrow> (None, d, a)
           | (Some _, a) \<Rightarrow>
               (case alloc a 80 8 of
                  (None, a) \<Rightarrow> (None, d, a)
                | (Some _, a) \<Rightarrow>
                    (Some (length (d_paths d)),
                     d\<lparr>d_paths := d_paths d @ [\<lparr>pe_path = path, pe_item = Some (empty_path_item path)\<rparr>]\<rparr>, a))))"

definition assign_method :: "string \<Rightarrow> oas_operation \<Rightarrow> oas_path_item \<Rightarrow> oas_path_item option" where
  "assign_method meth oper item =
     (if strcaseeq meth ''get'' then Some (item\<lparr>pi_get := Some oper\<rparr>)
      else if strcaseeq meth ''post'' then Some (item\<lparr>pi_post := Some oper\<rparr>)
      else if strcaseeq meth ''put'' then Some (item\<lparr>pi_put := Some oper\<rparr>)
      else if strcaseeq meth ''delete'' then Some (item\<lparr>pi_delete := Some oper\<rparr>)
      else if strcaseeq meth ''patch'' then Some (item\<lparr>pi_patch := Some oper\<rparr>)
      else if strcaseeq meth ''head'' then Some (item\<lparr>pi_head := Some oper\<rparr>)
      else if strcaseeq meth ''options'' then Some (item\<lparr>pi_options := Some oper\<rparr>)
      else None)"

definition update_item :: "nat \<Rightarrow> (oas_path_item \<Rightarrow> oas_path_item) \<Rightarrow> oas_doc \<Rightarrow> oas_doc" where
  "update_item i f d = d\<lparr>d_paths := (d_paths d)[i := (d_paths d ! i)\<lparr>pe_item := map_option f (pe_item (d_paths d ! i))\<rparr>]\<rparr>"

definition oas_doc_add_path_op ::
    "'a allocator \<Rightarrow> oas_doc option \<Rightarrow> 'a option \<Rightarrow> string option \<Rightarrow> string option \<Rightarrow> oas_op_builder option
      \<Rightarrow> 'a doc_result option" where
  "oas_doc_add_path_op alloc doc arena path meth builder =
     (case (doc, arena, path, meth, builder) of
        (Some d, Some a, Some t, Some m, Some b) \<Rightarrow>
          (case find_or_create_path alloc d a t of
             (None, d, a) \<Rightarrow> Some (Some ENOMEM, Some d, Some a)
           | (Some i, d, a) \<Rightarrow> do {
               (oper, a) \<leftarrow> build_operation alloc b a;
               case oper of
                 None \<Rightarrow> Some (Some ENOMEM, Some d, Some a)
               | Some opn \<Rightarrow>
                   if assign_method m opn (the (pe_item (d_paths d ! i))) = None
                   then Some (Some EINVAL, Some d, Some a)
                   else Some (None, Some (update_item i (\<lambda>item. the (assign_method m opn item)) d), Some a)
             })
      | _ \<Rightarrow> Some (Some EINVAL, doc, arena))"

end
