(* ===== verification/Liboas_Builder_Spec.thy ===== *)
theory Liboas_Builder_Spec
  imports Liboas_Builder Liboas_Document
begin

text \<open>
  What the document builder promises: a table from paths and methods to operations, which every
  successful \<open>oas_doc_add_path_op\<close> updates at one place and every failing one leaves alone. The
  operation a builder structure describes is a function of that structure, \<open>described\<close>.
\<close>

section \<open>What a builder structure describes\<close>

definition described_array :: "('v \<Rightarrow> bool) \<Rightarrow> ('v \<Rightarrow> 'x) \<Rightarrow> 'v list option \<Rightarrow> 'x list" where
  "described_array stop f vs = (case vs of None \<Rightarrow> [] | Some vs \<Rightarrow> map f (takeWhile (\<lambda>v. \<not> stop v) vs))"

definition described_content :: "string option \<Rightarrow> sref \<Rightarrow> oas_media_type_entry list" where
  "described_content ct p = [\<lparr>me_key = content_type_or_json ct,
     me_value = Some \<lparr>mt_media_type_name = Some (content_type_or_json ct), mt_schema = Some p\<rparr>\<rparr>]"

definition described_param :: "oas_param_builder \<Rightarrow> oas_parameter option" where
  "described_param p = Some \<lparr>pa_name = ob_name p, pa_in = ob_in p, pa_description = ob_description p,
     pa_required = ob_required p, pa_deprecated = False, pa_schema = ob_schema p\<rparr>"

definition described_response :: "oas_response_builder \<Rightarrow> oas_response_entry" where
  "described_response r = \<lparr>rn_status_code = status_text (rb_status r),
     rn_response = Some \<lparr>re_description = rb_text r,
       re_content = (case rb_schema r of None \<Rightarrow> [] | Some p \<Rightarrow> described_content (rb_content_type r) p)\<rparr>\<rparr>"

definition described :: "oas_op_builder \<Rightarrow> oas_operation" where
  "described b = \<lparr>op_operation_id = ob_operation_id b, op_summary = ob_summary b,
     op_description = ob_op_description b,
     op_tags = (case ob_tag b of None \<Rightarrow> [] | Some t \<Rightarrow> [Some t]),
     op_parameters = described_array (\<lambda>p. ob_name p = None) described_param (ob_params b),
     op_request_body = map_option (\<lambda>p. \<lparr>rb_description = None, rb_required = ob_request_body_required b,
       rb_content = described_content (ob_request_content_type b) p\<rparr>) (ob_request_body b),
     op_responses = described_array (\<lambda>r. rb_status r = 0) described_response (ob_responses b),
     op_security = [], op_deprecated = False\<rparr>"

text \<open>The arrays of a builder structure end with their sentinels; and they are of a size that memory has.\<close>

definition terminated :: "oas_op_builder \<Rightarrow> bool" where
  "terminated b \<longleftrightarrow>
     (case ob_params b of None \<Rightarrow> True | Some ps \<Rightarrow> list_ex (\<lambda>p. ob_name p = None) ps) \<and>
     (case ob_responses b of None \<Rightarrow> True | Some rs \<Rightarrow> list_ex (\<lambda>r. rb_status r = 0) rs)"

definition addressable :: "oas_op_builder \<Rightarrow> bool" where
  "addressable b \<longleftrightarrow>
     (case ob_params b of None \<Rightarrow> True | Some ps \<Rightarrow> length ps < 2 ^ 58) \<and>
     (case ob_responses b of None \<Rightarrow> True | Some rs \<Rightarrow> length rs < 2 ^ 58)"

section \<open>Steps that make values\<close>

text \<open>
  \<open>makes m x\<close>: the step is defined, and gives \<open>x\<close> unless memory is refused; \<open>grants\<close>: it does give a value.
\<close>

definition makes :: "('a, 'x) maker \<Rightarrow> 'x \<Rightarrow> bool" where
  "makes m x \<longleftrightarrow> (\<forall>a. \<exists>y a'. m a = Some (y, a') \<and> y \<in> {None, Some x})"

definition grants :: "('a, 'x) maker \<Rightarrow> bool" where
  "grants m \<longleftrightarrow> (\<forall>a. \<exists>x a'. m a = Some (Some x, a'))"

lemma makes_rules:
  "makes (done_with x) x"
  "makes (room alloc sz k) ()"
  by (auto simp: makes_def done_with_def room_def split: option.split prod.split)

lemma makes_then:
  assumes "makes m x" and "makes (f x) y"
  shows "makes (and_then m f) y"
  unfolding makes_def
proof
  fix a
  obtain z a1 where m: "m a = Some (z, a1)" "z \<in> {None, Some x}" using assms(1) unfolding makes_def by blast
  obtain w a2 where "f x a1 = Some (w, a2)" "w \<in> {None, Some y}" using assms(2) unfolding makes_def by blast
  then show "\<exists>u a'. and_then m f a = Some (u, a') \<and> u \<in> {None, Some y}"
    using m by (auto simp: and_then_def)
qed

lemma makes_room: "makes (f ()) y \<Longrightarrow> makes (and_then (room alloc sz k) f) y"
  by (rule makes_then [OF makes_rules(2)])

lemma grants_rules:
  "grants (done_with x)"
  "alloc_total alloc \<Longrightarrow> 0 < n \<Longrightarrow> n < 2 ^ 64 \<Longrightarrow> k \<in> {1, 8} \<Longrightarrow> grants (room alloc (of_nat n) k)"
proof -
  show "grants (done_with x)" by (simp add: grants_def done_with_def)
  assume g: "alloc_total alloc" "0 < n" "n < 2 ^ 64" "k \<in> {1, 8}"
  have "\<exists>x a'. room alloc (of_nat n) k a = Some (Some x, a')" for a
    by (rule granted [OF g, of a]) (simp add: room_def)
  then show "grants (room alloc (of_nat n) k)" by (simp add: grants_def)
qed

lemma grants_then: "grants m \<Longrightarrow> (\<And>x. grants (f x)) \<Longrightarrow> grants (and_then m f)"
  unfolding grants_def and_then_def by (metis (no_types, lifting) bind.bind_lunit case_prod_conv option.simps(5))

lemma makes_each: "(\<And>v. makes (mk v) (f v)) \<Longrightarrow> makes (make_each mk vs) (map f vs)"
  by (induction vs) (auto intro!: makes_then makes_rules)

lemma grants_each: "(\<And>v. grants (mk v)) \<Longrightarrow> grants (make_each mk vs)"
  by (induction vs) (auto intro!: grants_then grants_rules(1))

lemma makes_array:
  assumes "case vs of None \<Rightarrow> True | Some vs \<Rightarrow> list_ex stop vs" and "\<And>v. makes (mk v) (f v)"
  shows "makes (make_array alloc sz stop mk vs) (described_array stop f vs)"
proof (cases vs)
  case None
  then show ?thesis by (simp add: makes_def make_array_def described_array_def)
next
  case (Some us)
  let ?us = "takeWhile (\<lambda>v. \<not> stop v) us"
  have "makes (and_then (room alloc (of_nat (length ?us) * sz) 8) (\<lambda>_. make_each mk ?us)) (map f ?us)"
    by (rule makes_room) (rule makes_each, rule assms(2))
  then show ?thesis using Some assms(1)
    by (auto simp: makes_def make_array_def until_sentinel_def described_array_def)
qed

lemma grants_array:
  assumes "case vs of None \<Rightarrow> True | Some vs \<Rightarrow> list_ex stop vs" and "\<And>v. grants (mk v)"
    and "alloc_total alloc" and "case vs of None \<Rightarrow> True | Some vs \<Rightarrow> length vs < 2 ^ 58"
    and "0 < sz" and "sz \<le> 16"
  shows "grants (make_array alloc (of_nat sz) stop mk vs)"
proof (cases vs)
  case None
  then show ?thesis by (simp add: grants_def make_array_def)
next
  case (Some us)
  let ?us = "takeWhile (\<lambda>v. \<not> stop v) us"
  show ?thesis
  proof (cases "?us = []")
    case True
    then show ?thesis using Some assms(1) by (simp add: grants_def make_array_def until_sentinel_def)
  next
    case False
    have n: "length ?us < 2 ^ 58" using Some assms(4) length_takeWhile_le [of "\<lambda>v. \<not> stop v" us] by simp
    have "length ?us * sz \<le> length ?us * 16" using assms(6) by simp
    also have "\<dots> < 2 ^ 64" using n by simp
    finally have b: "length ?us * sz < 2 ^ 64" .
    have z: "0 < length ?us * sz" using False assms(5) by simp
    have "grants (and_then (room alloc (of_nat (length ?us * sz)) 8) (\<lambda>_. make_each mk ?us))"
      by (rule grants_then [OF grants_rules(2) [OF assms(3) z b]]) (auto intro: grants_each assms(2))
    then show ?thesis using Some assms(1) False by (simp add: grants_def make_array_def until_sentinel_def)
  qed
qed

lemma makes_content: "makes (build_content alloc (content_type_or_json ct) p) (described_content ct p)"
  unfolding build_content_def described_content_def by (intro makes_room makes_rules(1))

lemma makes_parameter: "makes (build_parameter alloc p) (described_param p)"
  unfolding build_parameter_def described_param_def by (intro makes_room makes_rules(1))

lemma makes_response: "makes (build_response alloc r) (described_response r)"
  unfolding build_response_def described_response_def
  by (cases "rb_schema r") (auto intro!: makes_room makes_rules(1) makes_then [OF makes_content] makes_then [OF makes_rules(1)])

lemma makes_body:
  "makes (build_body alloc b) (map_option (\<lambda>p. \<lparr>rb_description = None, rb_required = ob_request_body_required b,
     rb_content = described_content (ob_request_content_type b) p\<rparr>) (ob_request_body b))"
  unfolding build_body_def
  by (cases "ob_request_body b") (auto intro!: makes_room makes_rules(1) makes_then [OF makes_content] makes_then [OF makes_rules(1)])

lemma makes_operation: "terminated b \<Longrightarrow> makes (build_operation alloc b) (described b)"
  unfolding build_operation_def described_def
  by (cases "ob_tag b")
    (auto simp: terminated_def intro!: makes_room makes_rules(1) makes_then [OF makes_array] makes_parameter
      makes_response makes_then [OF makes_body] makes_then [OF makes_rules(1)] makes_then [OF makes_room])

lemma grants_room: "alloc_total alloc \<Longrightarrow> 0 < unat sz \<Longrightarrow> k \<in> {1, 8} \<Longrightarrow> grants (room alloc sz k)"
  using grants_rules(2) [of alloc "unat sz" k] unsigned_less [of sz] by simp

lemmas grants_intros = grants_then grants_rules(1) grants_room

lemma grants_content: "alloc_total alloc \<Longrightarrow> grants (build_content alloc ct p)"
  unfolding build_content_def by (intro grants_intros) simp_all

lemma grants_parameter: "alloc_total alloc \<Longrightarrow> grants (build_parameter alloc p)"
  unfolding build_parameter_def by (intro grants_intros) simp_all

lemma grants_response: "alloc_total alloc \<Longrightarrow> grants (build_response alloc r)"
  unfolding build_response_def
  by (cases "rb_schema r") (auto intro!: grants_intros grants_content)

lemma grants_body: "alloc_total alloc \<Longrightarrow> grants (build_body alloc b)"
  unfolding build_body_def
  by (cases "ob_request_body b") (auto intro!: grants_intros grants_content)

lemma grants_operation:
  assumes "alloc_total alloc" and "terminated b" and "addressable b"
  shows "grants (build_operation alloc b)"
proof -
  have "grants (make_array alloc (of_nat 8) (\<lambda>p. ob_name p = None) (build_parameter alloc) (ob_params b))"
    using assms by (intro grants_array grants_parameter) (simp_all add: terminated_def addressable_def)
  moreover have "grants (make_array alloc (of_nat 16) (\<lambda>r. rb_status r = 0) (build_response alloc) (ob_responses b))"
    using assms by (intro grants_array grants_response) (simp_all add: terminated_def addressable_def)
  ultimately show ?thesis using assms(1) unfolding build_operation_def
    by (cases "ob_tag b") (auto intro!: grants_intros grants_body)
qed

section \<open>The table of operations\<close>

definition entry_operations :: "oas_path_entry \<Rightarrow> (string \<times> string \<times> oas_operation) list" where
  "entry_operations e =
     (case pe_item e of
        None \<Rightarrow> []
      | Some item \<Rightarrow> List.map_filter (\<lambda>(m, x). map_option (\<lambda>opn. (pe_path e, m, opn)) x) (item_methods item))"

lemma doc_operations_entries: "doc_operations d = concat (map entry_operations (d_paths d))"
  unfolding doc_operations_def entry_operations_def ..

definition method_key :: "string \<Rightarrow> string option" where
  "method_key meth =
     find (\<lambda>k. strcaseeq k meth) [''GET'', ''POST'', ''PUT'', ''DELETE'', ''PATCH'', ''HEAD'', ''OPTIONS'']"

definition item_slot :: "oas_path_item \<Rightarrow> string \<Rightarrow> (string \<times> oas_operation) option" where
  "item_slot item meth =
     (case find (\<lambda>(k, x). strcaseeq k meth) (item_methods item) of
        None \<Rightarrow> None
      | Some (k, x) \<Rightarrow> map_option (Pair k) x)"

text \<open>A method names one slot, whatever its case.\<close>

lemma lower_names:
  "map ascii_lower ''GET'' = ''get''" "map ascii_lower ''POST'' = ''post''" "map ascii_lower ''PUT'' = ''put''"
  "map ascii_lower ''DELETE'' = ''delete''" "map ascii_lower ''PATCH'' = ''patch''"
  "map ascii_lower ''HEAD'' = ''head''" "map ascii_lower ''OPTIONS'' = ''options''"
  "map ascii_lower ''get'' = ''get''" "map ascii_lower ''post'' = ''post''" "map ascii_lower ''put'' = ''put''"
  "map ascii_lower ''delete'' = ''delete''" "map ascii_lower ''patch'' = ''patch''"
  "map ascii_lower ''head'' = ''head''" "map ascii_lower ''options'' = ''options''"
  by (simp_all add: ascii_lower_def char_of_def bit_Suc_0_iff)

lemma item_slot_cases:
  "item_slot item meth =
     (let l = map ascii_lower meth in
      if l = ''get'' then map_option (Pair ''GET'') (pi_get item)
      else if l = ''post'' then map_option (Pair ''POST'') (pi_post item)
      else if l = ''put'' then map_option (Pair ''PUT'') (pi_put item)
      else if l = ''delete'' then map_option (Pair ''DELETE'') (pi_delete item)
      else if l = ''patch'' then map_option (Pair ''PATCH'') (pi_patch item)
      else if l = ''head'' then map_option (Pair ''HEAD'') (pi_head item)
      else if l = ''options'' then map_option (Pair ''OPTIONS'') (pi_options item)
      else None)"
  unfolding item_slot_def item_methods_def strcaseeq_def Let_def
  by (simp add: lower_names del: list.map)

lemma method_key_cases:
  "method_key meth =
     (let l = map ascii_lower meth in
      if l = ''get'' then Some ''GET''
      else if l = ''post'' then Some ''POST''
      else if l = ''put'' then Some ''PUT''
      else if l = ''delete'' then Some ''DELETE''
      else if l = ''patch'' then Some ''PATCH''
      else if l = ''head'' then Some ''HEAD''
      else if l = ''options'' then Some ''OPTIONS''
      else None)"
  unfolding method_key_def strcaseeq_def Let_def
  by (simp add: lower_names del: list.map)

lemma assign_method_slot:
  "assign_method meth opn item = None \<longleftrightarrow> method_key meth = None"
  "assign_method meth opn item = Some item' \<Longrightarrow>
     item_slot item' m = (if strcaseeq meth m then map_option (\<lambda>k. (k, opn)) (method_key meth) else item_slot item m)"
proof -
  show "assign_method meth opn item = None \<longleftrightarrow> method_key meth = None"
    unfolding assign_method_def method_key_cases strcaseeq_def Let_def lower_names by simp
  assume "assign_method meth opn item = Some item'"
  then show "item_slot item' m = (if strcaseeq meth m then map_option (\<lambda>k. (k, opn)) (method_key meth) else item_slot item m)"
    unfolding assign_method_def method_key_cases item_slot_cases strcaseeq_def Let_def lower_names
    by (auto split: if_splits)
qed

lemma find_append: "find P (xs @ ys) = (case find P xs of None \<Rightarrow> find P ys | Some x \<Rightarrow> Some x)"
  by (induction xs) auto

text \<open>The search \<open>find_source_operation\<close> makes for a path and a method.\<close>

definition asks :: "string \<Rightarrow> string \<Rightarrow> string \<times> string \<times> 'x \<Rightarrow> bool" where
  "asks t m x \<longleftrightarrow> fst x = t \<and> strcaseeq (fst (snd x)) m"

lemma asks_simps: "asks t m (p, k, x) \<longleftrightarrow> p = t \<and> strcaseeq k m" by (simp add: asks_def)

lemma asks_eq: "(\<lambda>(p, k, x). p = t \<and> strcaseeq k m) = asks t m"
  by (auto simp: asks_def)

lemma find_filtered:
  assumes "distinct (map fst xs)" and "fst ` set xs \<subseteq> K"
    and "\<forall>k\<in>K. \<forall>k'\<in>K. strcaseeq k m \<longrightarrow> strcaseeq k' m \<longrightarrow> k = k'"
  shows "find (asks t m) (List.map_filter (\<lambda>(m, x). map_option (\<lambda>opn. (t, m, opn)) x) xs) =
    (case find (\<lambda>(k, x). strcaseeq k m) xs of None \<Rightarrow> None | Some (k, x) \<Rightarrow> map_option (\<lambda>opn. (t, k, opn)) x)"
  using assms(1,2)
proof (induction xs)
  case Nil
  then show ?case by (simp add: List.map_filter_simps)
next
  case (Cons y xs)
  obtain k x where y: "y = (k, x)" by fastforce
  have IH: "find (asks t m) (List.map_filter (\<lambda>(m, x). map_option (\<lambda>opn. (t, m, opn)) x) xs) =
    (case find (\<lambda>(k, x). strcaseeq k m) xs of None \<Rightarrow> None | Some (k, x) \<Rightarrow> map_option (\<lambda>opn. (t, k, opn)) x)"
    by (rule Cons.IH) (use Cons.prems in simp_all)
  show ?case
  proof (cases "strcaseeq k m")
    case False
    then show ?thesis using IH y by (cases x) (simp_all add: List.map_filter_simps asks_simps)
  next
    case True
    have "\<not> strcaseeq (fst z) m" if "z \<in> set xs" for z
    proof
      assume "strcaseeq (fst z) m"
      moreover have "fst z \<in> fst ` set xs" using that by (rule imageI)
      ultimately show False using True Cons.prems y assms(3) by auto
    qed
    then have "find (\<lambda>(k, x). strcaseeq k m) xs = None" by (auto simp: find_None_iff)
    then show ?thesis using IH y True by (cases x) (simp_all add: List.map_filter_simps asks_simps)
  qed
qed

lemma methods_apart:
  "distinct (map fst (item_methods item))"
  "\<forall>k\<in>fst ` set (item_methods item). \<forall>k'\<in>fst ` set (item_methods item). strcaseeq k m \<longrightarrow> strcaseeq k' m \<longrightarrow> k = k'"
proof -
  show "distinct (map fst (item_methods item))" by (simp add: item_methods_def)
  have "\<forall>k\<in>fst ` set (item_methods item). \<forall>k'\<in>fst ` set (item_methods item).
      map ascii_lower k = map ascii_lower k' \<longrightarrow> k = k'"
    by (simp add: item_methods_def lower_names del: list.map)
  then show "\<forall>k\<in>fst ` set (item_methods item). \<forall>k'\<in>fst ` set (item_methods item).
      strcaseeq k m \<longrightarrow> strcaseeq k' m \<longrightarrow> k = k'"
    unfolding strcaseeq_def by metis
qed

definition entry_slot :: "oas_path_entry \<Rightarrow> string \<Rightarrow> (string \<times> string \<times> oas_operation) option" where
  "entry_slot e m =
     (case pe_item e of None \<Rightarrow> None | Some item \<Rightarrow> map_option (Pair (pe_path e)) (item_slot item m))"

lemma find_entry:
  "find (asks t m) (entry_operations e) = (if pe_path e = t then entry_slot e m else None)"
proof (cases "pe_item e")
  case None
  then show ?thesis by (simp add: entry_operations_def entry_slot_def)
next
  case (Some item)
  show ?thesis
  proof (cases "pe_path e = t")
    case True
    show ?thesis
      using Some True find_filtered [OF methods_apart(1) subset_refl methods_apart(2), of t m item]
      by (auto simp: entry_operations_def entry_slot_def item_slot_def option.map_comp comp_def split: option.split)
  next
    case False
    have "\<forall>x \<in> set (entry_operations e). fst x = pe_path e"
      using Some by (auto simp: entry_operations_def List.map_filter_def)
    then show ?thesis using False by (fastforce simp: find_None_iff asks_def)
  qed
qed

lemma find_entries:
  assumes "distinct (map pe_path es)"
  shows "find (asks t m) (concat (map entry_operations es)) =
    (case find (\<lambda>e. pe_path e = t) es of None \<Rightarrow> None | Some e \<Rightarrow> entry_slot e m)"
  using assms
proof (induction es)
  case (Cons e es)
  have "find (\<lambda>e. pe_path e = t) es = None" if "pe_path e = t"
    using that Cons.prems by (simp add: find_None_iff image_iff) metis
  then show ?case using Cons by (auto simp: find_append find_entry split: option.split)
qed simp

lemma find_source_operation_entry:
  "distinct (doc_paths d) \<Longrightarrow> find_source_operation d t m =
    (case find (\<lambda>e. pe_path e = t) (d_paths d) of None \<Rightarrow> None | Some e \<Rightarrow> entry_slot e m)"
  using find_entries [of "d_paths d" t m]
  by (simp only: find_source_operation_def doc_operations_entries doc_paths_def asks_eq)

text \<open>The entry an item belongs to is found by its position.\<close>

lemma path_position_some:
  "path_position t es = Some i \<Longrightarrow> i < length es \<and> pe_path (es ! i) = t"
  by (induction es arbitrary: i) (auto split: if_splits)

lemma path_position_none: "path_position t es = None \<longleftrightarrow> t \<notin> pe_path ` set es"
  by (induction es) auto

lemma find_at:
  assumes "distinct (map pe_path es)" and "i < length es" and "pe_path e = pe_path (es ! i)"
  shows "find (\<lambda>e. pe_path e = t) (es[i := e]) = (if t = pe_path (es ! i) then Some e else find (\<lambda>e. pe_path e = t) es)"
  using assms
proof (induction es arbitrary: i)
  case (Cons x es)
  show ?case
  proof (cases i)
    case (Suc j)
    have "pe_path (es ! j) \<in> pe_path ` set es" using Cons.prems(2) Suc by simp
    then have "pe_path x \<noteq> pe_path (es ! j)" using Cons.prems(1) by auto
    then show ?thesis using Cons Suc by auto
  qed (use Cons.prems in auto)
qed simp

section \<open>Adding an operation\<close>

text \<open>The documents the builder makes: paths are distinct and every entry has its item.\<close>

definition built :: "oas_doc \<Rightarrow> bool" where
  "built d \<longleftrightarrow> distinct (doc_paths d) \<and> (\<forall>e \<in> set (d_paths d). pe_item e \<noteq> None)"

lemma doc_build_built: "oas_doc_build alloc arena title version = (Some d, arena') \<Longrightarrow> built d \<and> d_paths d = []"
  by (auto simp: oas_doc_build_def built_def doc_paths_def split: option.splits prod.splits)

lemma find_or_create_found:
  "path_position t (d_paths d) = Some j \<Longrightarrow>
    find_or_create_path alloc d a t = (if pe_item (d_paths d ! j) = None then None else Some j, d, a)"
  by (simp add: find_or_create_path_def)

text \<open>Finding or making the item changes no operation, and what it answers is the entry of the path.\<close>

lemma find_or_create_path_ok:
  assumes "built d" and "find_or_create_path alloc d a t = (r, d', a')"
  shows "built d'" and "find_source_operation d' t' m = find_source_operation d t' m"
    and "r = Some i \<Longrightarrow> i < length (d_paths d') \<and> pe_path (d_paths d' ! i) = t \<and> pe_item (d_paths d' ! i) \<noteq> None"
    and "r \<noteq> None \<Longrightarrow> doc_paths d' = (if t \<in> set (doc_paths d) then doc_paths d else doc_paths d @ [t])"
    and "r = None \<Longrightarrow> doc_paths d' = doc_paths d"
proof -
  let ?e = "\<lparr>pe_path = t, pe_item = Some (empty_path_item t)\<rparr>"
  have slot: "entry_slot ?e m = None"
    by (simp add: entry_slot_def item_slot_def item_methods_def empty_path_item_def del: list.map)
  consider (same) "d' = d" "r = None"
    | (found) j where "d' = d" "r = Some j" "path_position t (d_paths d) = Some j"
    | (made) "t \<notin> set (doc_paths d)" "d' = d\<lparr>d_paths := d_paths d @ [?e]\<rparr>" "r = Some (length (d_paths d))"
  proof (cases "path_position t (d_paths d)")
    case (Some j)
    then show thesis using assms(2) that(1) that(2) [of j] find_or_create_found [OF Some, of alloc a]
      by (cases "pe_item (d_paths d ! j)") simp_all
  next
    case None
    then have "t \<notin> set (doc_paths d)" using path_position_none [of t "d_paths d"] by (simp add: doc_paths_def)
    then show thesis using None assms(2) that(1,3)
      by (auto simp: find_or_create_path_def split: option.splits prod.splits)
  qed
  then have "built d' \<and> find_source_operation d' t' m = find_source_operation d t' m \<and>
    (r = Some i \<longrightarrow> i < length (d_paths d') \<and> pe_path (d_paths d' ! i) = t \<and> pe_item (d_paths d' ! i) \<noteq> None) \<and>
    (r \<noteq> None \<longrightarrow> doc_paths d' = (if t \<in> set (doc_paths d) then doc_paths d else doc_paths d @ [t])) \<and>
    (r = None \<longrightarrow> doc_paths d' = doc_paths d)"
  proof cases
    case same
    then show ?thesis using assms(1) by simp
  next
    case (found j)
    have j: "j < length (d_paths d)" "pe_path (d_paths d ! j) = t" using path_position_some [OF found(3)] by auto
    then have "t \<in> set (doc_paths d)" unfolding doc_paths_def by (metis nth_mem image_eqI set_map)
    moreover have "pe_item (d_paths d ! j) \<noteq> None" using assms(1) j(1) by (simp add: built_def)
    ultimately show ?thesis using found(1,2) assms(1) j by auto
  next
    case made
    have b: "built d'" using made(1,2) assms(1) by (auto simp: built_def doc_paths_def)
    have "find_source_operation d' t' m = find_source_operation d t' m"
      using b assms(1) made(2) slot
      by (auto simp: find_source_operation_entry built_def find_append split: option.split)
    then show ?thesis using b made by (auto simp: doc_paths_def)
  qed
  then show "built d'" "find_source_operation d' t' m = find_source_operation d t' m"
    "r = Some i \<Longrightarrow> i < length (d_paths d') \<and> pe_path (d_paths d' ! i) = t \<and> pe_item (d_paths d' ! i) \<noteq> None"
    "r \<noteq> None \<Longrightarrow> doc_paths d' = (if t \<in> set (doc_paths d) then doc_paths d else doc_paths d @ [t])"
    "r = None \<Longrightarrow> doc_paths d' = doc_paths d"
    by blast+
qed

lemma update_item_paths: "i < length (d_paths d) \<Longrightarrow> doc_paths (update_item i f d) = doc_paths d"
  by (simp add: update_item_def doc_paths_def map_update) (metis list_update_id nth_map length_map)

lemma update_item_ok:
  assumes "built d" and "i < length (d_paths d)" and "pe_item (d_paths d ! i) = Some item"
    and "assign_method meth opn item = Some item'" and "f item = item'"
  shows "built (update_item i f d)"
    and "find_source_operation (update_item i f d) t m =
      (if t = pe_path (d_paths d ! i) \<and> strcaseeq meth m then map_option (\<lambda>k. (t, k, opn)) (method_key meth)
       else find_source_operation d t m)"
proof -
  let ?e = "(d_paths d ! i)\<lparr>pe_item := Some item'\<rparr>"
  have ps: "d_paths (update_item i f d) = (d_paths d)[i := ?e]" using assms(3,5) by (simp add: update_item_def)
  have items: "\<forall>e \<in> set (d_paths (update_item i f d)). pe_item e \<noteq> None"
  proof
    fix e assume "e \<in> set (d_paths (update_item i f d))"
    then have "e = ?e \<or> e \<in> set (d_paths d)" using set_update_subset_insert [of "d_paths d" i ?e] ps by auto
    then show "pe_item e \<noteq> None" using assms(1) by (auto simp: built_def)
  qed
  then show b: "built (update_item i f d)"
    using assms(1) update_item_paths [OF assms(2), of f] by (simp add: built_def)
  have d: "distinct (map pe_path (d_paths d))" using assms(1) by (simp add: built_def doc_paths_def)
  have old: "find (\<lambda>e. pe_path e = pe_path (d_paths d ! i)) (d_paths d) = Some (d_paths d ! i)"
    using find_at [OF d assms(2), of "d_paths d ! i" "pe_path (d_paths d ! i)"] by simp
  show "find_source_operation (update_item i f d) t m =
      (if t = pe_path (d_paths d ! i) \<and> strcaseeq meth m then map_option (\<lambda>k. (t, k, opn)) (method_key meth)
       else find_source_operation d t m)"
    using b assms(1) old assms(3) assign_method_slot(2) [OF assms(4), of m]
    by (auto simp: find_source_operation_entry built_def ps find_at [OF d assms(2)] entry_slot_def
        option.map_comp comp_def)
qed

lemma add_path_op_steps:
  assumes "built d" and "terminated b"
  shows "\<exists>rc d' a'. oas_doc_add_path_op alloc (Some d) (Some a) (Some t) (Some meth) (Some b) = Some (rc, Some d', Some a') \<and>
     built d' \<and>
     (\<forall>t' m. find_source_operation d' t' m =
        (if rc = None \<and> t' = t \<and> strcaseeq meth m then Some (t, the (method_key meth), described b)
         else find_source_operation d t' m)) \<and>
     (rc = None \<longrightarrow> method_key meth \<noteq> None \<and>
        doc_paths d' = (if t \<in> set (doc_paths d) then doc_paths d else doc_paths d @ [t])) \<and>
     (alloc_total alloc \<and> addressable b \<and> length (d_paths d) < 2 ^ 58 \<longrightarrow>
        rc = (if method_key meth = None then Some EINVAL else None))"
proof -
  obtain r d1 a1 where f: "find_or_create_path alloc d a t = (r, d1, a1)" by (metis prod_cases3)
  note ok = find_or_create_path_ok [OF assms(1) f]
  have granted_path: "r \<noteq> None" if g: "alloc_total alloc" "length (d_paths d) < 2 ^ 58"
  proof (cases "path_position t (d_paths d)")
    case (Some j)
    then have "pe_item (d_paths d ! j) \<noteq> None" using assms(1) path_position_some [OF Some] by (simp add: built_def)
    then show ?thesis using f find_or_create_found [OF Some, of alloc a] by auto
  next
    case None
    have "(length (d_paths d) + 1) * 16 < 2 ^ 64" using g(2) by simp
    then obtain p a2 where "alloc a (of_nat ((length (d_paths d) + 1) * 16)) 8 = (Some p, a2)"
      using granted [OF g(1), of "(length (d_paths d) + 1) * 16" 8 a] by auto
    then have "alloc a (of_nat (length (d_paths d) + 1) * 16) 8 = (Some p, a2)" by simp
    moreover obtain q a3 where "alloc a2 80 8 = (Some q, a3)" using granted [OF g(1), of 80 8 a2] by auto
    ultimately show ?thesis using f None by (auto simp: find_or_create_path_def)
  qed
  show ?thesis
  proof (cases r)
    case None
    then have "oas_doc_add_path_op alloc (Some d) (Some a) (Some t) (Some meth) (Some b) =
        Some (Some ENOMEM, Some d1, Some a1)"
      using f by (simp add: oas_doc_add_path_op_def)
    then show ?thesis using ok(1,2) None granted_path by auto
  next
    case (Some i)
    note i = ok(3) [OF Some]
    obtain item where item: "pe_item (d_paths d1 ! i) = Some item" using i by blast
    have paths: "doc_paths d1 = (if t \<in> set (doc_paths d) then doc_paths d else doc_paths d @ [t])" using ok(4) Some by blast
    obtain oper a2 where o: "build_operation alloc b a1 = Some (oper, a2)" "oper \<in> {None, Some (described b)}"
      using makes_operation [OF assms(2), of alloc] unfolding makes_def by blast
    have here: "oper \<noteq> None" if g: "alloc_total alloc" "addressable b"
    proof -
      obtain x a3 where "build_operation alloc b a1 = Some (Some x, a3)"
        using grants_operation [OF g(1) assms(2) g(2)] unfolding grants_def by blast
      then show ?thesis using o(1) by simp
    qed
    consider "oper = None" | "oper = Some (described b)" "assign_method meth (described b) item = None"
      | item' where "oper = Some (described b)" "assign_method meth (described b) item = Some item'"
      using o(2) by (cases "assign_method meth (described b) item") auto
    then show ?thesis
    proof cases
      case 1
      then have "oas_doc_add_path_op alloc (Some d) (Some a) (Some t) (Some meth) (Some b) =
          Some (Some ENOMEM, Some d1, Some a2)"
        using f o(1) Some by (simp add: oas_doc_add_path_op_def)
      then show ?thesis using ok(1,2) 1 here by auto
    next
      case 2
      then have "oas_doc_add_path_op alloc (Some d) (Some a) (Some t) (Some meth) (Some b) =
          Some (Some EINVAL, Some d1, Some a2)"
        using f o(1) Some item by (simp add: oas_doc_add_path_op_def)
      moreover have "method_key meth = None" using 2(2) assign_method_slot(1) by blast
      ultimately show ?thesis using ok(1,2) by auto
    next
      case 3
      let ?f = "\<lambda>item. the (assign_method meth (described b) item)"
      have n: "method_key meth \<noteq> None" using 3(2) assign_method_slot(1) [of meth "described b" item] by simp
      have i': "i < length (d_paths d1)" "pe_path (d_paths d1 ! i) = t" using i by blast+
      have "?f item = item'" using 3(2) by simp
      note u = update_item_ok [OF ok(1) i'(1) item 3(2), of ?f, OF this]
      have "oas_doc_add_path_op alloc (Some d) (Some a) (Some t) (Some meth) (Some b) =
          Some (None, Some (update_item i ?f d1), Some a2)"
        using f o(1) Some item 3 by (simp add: oas_doc_add_path_op_def)
      moreover have "find_source_operation (update_item i ?f d1) t' m =
          (if t' = t \<and> strcaseeq meth m then Some (t, the (method_key meth), described b)
           else find_source_operation d t' m)" for t' m
        using u(2) [of t' m] n i'(2) ok(2) by auto
      moreover have "doc_paths (update_item i ?f d1) = (if t \<in> set (doc_paths d) then doc_paths d else doc_paths d @ [t])"
        using update_item_paths [OF i'(1), of ?f] paths by simp
      ultimately show ?thesis using u(1) n by auto
    qed
  qed
qed

text \<open>
  C11. The builder refines a table of operations. On a document it has made, a call of
  \<open>oas_doc_add_path_op\<close> with a terminated builder structure comes back, keeps the paths distinct and every
  entry's item there, and changes the operation found for one path and the methods equal to the given
  one up to case, when it answers 0: to the operation the structure describes, media types, status texts and defaults included.
  When it answers an error it changes no operation. With memory granted it answers 0 exactly for the
  seven methods it knows, and -EINVAL for the others.
\<close>

theorem add_path_op_refines:
  assumes "built d" and "terminated b"
  shows "\<exists>rc d' a'. oas_doc_add_path_op alloc (Some d) (Some a) (Some t) (Some meth) (Some b) = Some (rc, Some d', Some a') \<and>
     built d' \<and>
     (\<forall>t' m. find_source_operation d' t' m =
        (if rc = None \<and> t' = t \<and> strcaseeq meth m then Some (t, the (method_key meth), described b)
         else find_source_operation d t' m)) \<and>
     (rc = None \<longrightarrow> method_key meth \<noteq> None \<and>
        doc_paths d' = (if t \<in> set (doc_paths d) then doc_paths d else doc_paths d @ [t])) \<and>
     (alloc_total alloc \<and> addressable b \<and> length (d_paths d) < 2 ^ 58 \<longrightarrow>
        rc = (if method_key meth = None then Some EINVAL else None))"
  by (rule add_path_op_steps [OF assms])

definition list_pets :: oas_op_builder where
  "list_pets = \<lparr>ob_summary = None, ob_op_description = None, ob_operation_id = Some ''listPets'', ob_tag = None,
     ob_params = Some [\<lparr>ob_name = Some ''limit'', ob_in = Some ''query'', ob_description = None, ob_required = False, ob_schema = None\<rparr>,
       \<lparr>ob_name = None, ob_in = None, ob_description = None, ob_required = False, ob_schema = None\<rparr>],
     ob_request_body = None, ob_request_content_type = None, ob_request_body_required = False,
     ob_responses = Some [\<lparr>rb_status = 200, rb_text = Some ''ok'', rb_content_type = None, rb_schema = Some 8\<rparr>,
       \<lparr>rb_status = 0, rb_text = None, rb_content_type = None, rb_schema = None\<rparr>]\<rparr>"

definition granting :: "unit allocator" where
  "granting a n k = (Some 64, a)"

definition bare_doc :: oas_doc where
  "bare_doc = the (fst (oas_doc_build granting (Some ()) (Some ''T'') (Some ''1'')))"

lemma granting_total: "alloc_total granting"
  by (simp add: alloc_total_def granting_def)

lemma bare_doc_made: "oas_doc_build granting (Some ()) (Some ''T'') (Some ''1'') = (Some bare_doc, Some ())"
  unfolding bare_doc_def by (simp add: oas_doc_build_def granting_def)

lemma list_pets_ok: "terminated list_pets" "addressable list_pets"
  by (simp_all add: terminated_def addressable_def list_pets_def)

text \<open>
  Adding \<open>GET /pets\<close> to the bare document answers 0 and the operation is found, with the status
  text and the default media type; the method \<open>trace\<close> is answered -EINVAL.
\<close>

theorem add_path_op_refines_witness:
  "(\<exists>d' a'. oas_doc_add_path_op granting (Some bare_doc) (Some ()) (Some ''/pets'') (Some ''get'') (Some list_pets) =
       Some (None, Some d', Some a') \<and> find_source_operation d' ''/pets'' ''GET'' = Some (''/pets'', ''GET'', described list_pets)) \<and>
   (\<exists>d' a'. oas_doc_add_path_op granting (Some bare_doc) (Some ()) (Some ''/pets'') (Some ''trace'') (Some list_pets) =
       Some (Some EINVAL, Some d', Some a') \<and> find_source_operation d' ''/pets'' ''trace'' = None) \<and>
   op_responses (described list_pets) = [\<lparr>rn_status_code = ''200'', rn_response = Some \<lparr>re_description = Some ''ok'',
     re_content = [\<lparr>me_key = ''application/json'',
       me_value = Some \<lparr>mt_media_type_name = Some ''application/json'', mt_schema = Some 8\<rparr>\<rparr>]\<rparr>\<rparr>]"
proof (intro conjI)
  have b: "built bare_doc" "d_paths bare_doc = []" using doc_build_built [OF bare_doc_made] by auto
  have k: "method_key ''get'' = Some ''GET''" "method_key ''trace'' = None" "strcaseeq ''get'' ''GET''"
    by (simp_all add: method_key_cases strcaseeq_def ascii_lower_def char_of_def bit_Suc_0_iff)
  have none: "find_source_operation bare_doc t m = None" for t m
    using b(2) by (simp add: find_source_operation_def doc_operations_def)
  show "\<exists>d' a'. oas_doc_add_path_op granting (Some bare_doc) (Some ()) (Some ''/pets'') (Some ''get'') (Some list_pets) =
       Some (None, Some d', Some a') \<and> find_source_operation d' ''/pets'' ''GET'' = Some (''/pets'', ''GET'', described list_pets)"
    using add_path_op_refines [OF b(1) list_pets_ok(1), of granting "()" "''/pets''" "''get''"] granting_total
      list_pets_ok(2) b(2) k by auto
  show "\<exists>d' a'. oas_doc_add_path_op granting (Some bare_doc) (Some ()) (Some ''/pets'') (Some ''trace'') (Some list_pets) =
       Some (Some EINVAL, Some d', Some a') \<and> find_source_operation d' ''/pets'' ''trace'' = None"
    using add_path_op_refines [OF b(1) list_pets_ok(1), of granting "()" "''/pets''" "''trace''"] granting_total
      list_pets_ok(2) b(2) k none by auto
  show "op_responses (described list_pets) = [\<lparr>rn_status_code = ''200'', rn_response = Some \<lparr>re_description = Some ''ok'',
     re_content = [\<lparr>me_key = ''application/json'',
       me_value = Some \<lparr>mt_media_type_name = Some ''application/json'', mt_schema = Some 8\<rparr>\<rparr>]\<rparr>\<rparr>]"
    by (simp add: described_def described_array_def list_pets_def described_response_def described_content_def
        content_type_or_json_def status_text_def dec_int_def dec_nat.simps char_of_def bit_Suc_0_iff)
qed

section \<open>Whole documents\<close>

text \<open>
  A client that makes a document and adds operations, checking every return code: the outer
  \<open>None\<close> is a call that did not answer 0.
\<close>

fun add_operations ::
    "'a allocator \<Rightarrow> (string \<times> string \<times> oas_op_builder) list \<Rightarrow> oas_doc \<Rightarrow> 'a \<Rightarrow> (oas_doc \<times> 'a) option" where
  "add_operations alloc [] d a = Some (d, a)"
| "add_operations alloc ((t, meth, b) # calls) d a =
     (case oas_doc_add_path_op alloc (Some d) (Some a) (Some t) (Some meth) (Some b) of
        Some (None, Some d, Some a) \<Rightarrow> add_operations alloc calls d a
      | _ \<Rightarrow> None)"

lemma add_operations_built:
  assumes "built d" and "\<forall>(t, meth, b) \<in> set calls. terminated b"
    and "add_operations alloc calls d a = Some (d', a')"
  shows "built d' \<and>
    find_source_operation d' t m =
      (case find (\<lambda>(t', meth, b). t' = t \<and> strcaseeq meth m) (rev calls) of
         None \<Rightarrow> find_source_operation d t m
       | Some (t', meth, b) \<Rightarrow> Some (t, the (method_key meth), described b)) \<and>
    set (doc_paths d') = set (doc_paths d) \<union> fst ` set calls"
  using assms
proof (induction calls arbitrary: d a)
  case Nil
  then show ?case by simp
next
  case (Cons c calls)
  obtain t1 meth b where c: "c = (t1, meth, b)" by (metis prod_cases3)
  have "terminated b" using Cons.prems(2) c by simp
  from add_path_op_steps [OF Cons.prems(1) this, of alloc a t1 meth]
  obtain rc d1 a1 where s: "oas_doc_add_path_op alloc (Some d) (Some a) (Some t1) (Some meth) (Some b) = Some (rc, Some d1, Some a1)"
    and b1: "built d1" and f: "\<forall>t' m. find_source_operation d1 t' m =
        (if rc = None \<and> t' = t1 \<and> strcaseeq meth m then Some (t1, the (method_key meth), described b)
         else find_source_operation d t' m)"
    and ps: "rc = None \<longrightarrow> doc_paths d1 = (if t1 \<in> set (doc_paths d) then doc_paths d else doc_paths d @ [t1])"
    by blast
  have rc: "rc = None" and more: "add_operations alloc calls d1 a1 = Some (d', a')"
    using Cons.prems(3) s c by (auto split: option.splits)
  have rest: "\<forall>(t, meth, b) \<in> set calls. terminated b" using Cons.prems(2) by auto
  have "set (doc_paths d1) = insert t1 (set (doc_paths d))" using ps rc by auto
  then show ?case using Cons.IH [OF b1 rest more] f rc c
    by (auto simp: find_append split: option.split)
qed

text \<open>
  C12. A document made with the builder has exactly the operations of the calls. After a run in which
  every call answered 0, the operation found for a path and a method, in any case, is the one the
  last call for that path and method described, or none if there was no such call; and the paths are those of
  the calls, each once. This is the table requests are routed by once the document is compiled.
\<close>

theorem built_document_operations:
  assumes "oas_doc_build alloc arena title version = (Some d0, Some a0)"
    and "\<forall>(t, meth, b) \<in> set calls. terminated b" and "add_operations alloc calls d0 a0 = Some (d, a)"
  shows "find_source_operation d t m =
      map_option (\<lambda>(t', meth, b). (t, the (method_key meth), described b))
        (find (\<lambda>(t', meth, b). t' = t \<and> strcaseeq meth m) (rev calls)) \<and>
    distinct (doc_paths d) \<and> set (doc_paths d) = fst ` set calls"
proof -
  have d0: "built d0" "d_paths d0 = []" using doc_build_built [OF assms(1)] by auto
  have "find_source_operation d0 t m = None" "doc_paths d0 = []"
    using d0(2) by (simp_all add: find_source_operation_def doc_operations_def doc_paths_def)
  then show ?thesis using add_operations_built [OF d0(1) assms(2,3), of t m]
    by (auto simp: built_def split: option.split)
qed

theorem built_document_operations_witness:
  "\<exists>d. add_operations granting [(''/pets'', ''get'', list_pets), (''/pets'', ''GET'', list_pets\<lparr>ob_operation_id := None\<rparr>)]
     bare_doc () = Some (d, ()) \<and> doc_paths d = [''/pets''] \<and>
     find_source_operation d ''/pets'' ''get'' = Some (''/pets'', ''GET'', described (list_pets\<lparr>ob_operation_id := None\<rparr>))"
proof -
  let ?b = "list_pets\<lparr>ob_operation_id := None\<rparr>"
  let ?calls = "[(''/pets'', ''get'', list_pets), (''/pets'', ''GET'', ?b)]"
  have b: "built bare_doc" "d_paths bare_doc = []" using doc_build_built [OF bare_doc_made] by auto
  have k: "method_key ''get'' = Some ''GET''" "method_key ''GET'' = Some ''GET''" "strcaseeq ''GET'' ''get''"
    by (simp_all add: method_key_cases strcaseeq_def ascii_lower_def char_of_def bit_Suc_0_iff)
  have t: "terminated ?b" "addressable ?b" by (simp_all add: terminated_def addressable_def list_pets_def)
  obtain d1 where d1: "oas_doc_add_path_op granting (Some bare_doc) (Some ()) (Some ''/pets'') (Some ''get'') (Some list_pets) =
       Some (None, Some d1, Some ())" "built d1" "doc_paths d1 = [''/pets'']"
    using add_path_op_steps [OF b(1) list_pets_ok(1), of granting "()" "''/pets''" "''get''"] granting_total
      list_pets_ok(2) b(2) k by (auto simp: doc_paths_def)
  then have "length (d_paths d1) = 1" by (metis doc_paths_def length_map One_nat_def length_Cons list.size(3))
  then obtain d2 where d2: "oas_doc_add_path_op granting (Some d1) (Some ()) (Some ''/pets'') (Some ''GET'') (Some ?b) =
       Some (None, Some d2, Some ())" "doc_paths d2 = [''/pets'']"
    using add_path_op_steps [OF d1(2) t(1), of granting "()" "''/pets''" "''GET''"] granting_total t(2) k d1(3) by auto
  have run: "add_operations granting ?calls bare_doc () = Some (d2, ())" using d1(1) d2(1) by simp
  have "\<forall>(t, meth, b) \<in> set ?calls. terminated b" using list_pets_ok(1) t(1) by simp
  from built_document_operations [OF bare_doc_made this run, of "''/pets''" "''get''"]
  show ?thesis using run d2(2) k by simp
qed

end
