(* ===== verification/Liboas_Negotiate.thy ===== *)
theory Liboas_Negotiate
  imports Liboas_Request
begin

text \<open>
  Content negotiation, \<open>src/core/oas_negotiate.c\<close>. A position in the header is the text from it
  to the terminator, an entry a position with the number of characters before its comma.
  \<open>strtod\<close> is a parameter from texts to doubles; a double is a number, an infinity or a NAN.
\<close>

section \<open>Qualities\<close>

datatype quality = Finite double | Infinite bool | NaN

text \<open>The comparison \<open>>\<close> of doubles; \<open>Infinite True\<close> is the negative infinity.\<close>

fun exceeds :: "quality \<Rightarrow> quality \<Rightarrow> bool" where
  "exceeds (Finite x) (Finite y) \<longleftrightarrow> y < x"
| "exceeds (Infinite neg) (Finite y) \<longleftrightarrow> \<not> neg"
| "exceeds (Finite x) (Infinite neg) \<longleftrightarrow> neg"
| "exceeds (Infinite neg) (Infinite neg') \<longleftrightarrow> \<not> neg \<and> neg'"
| "exceeds _ _ \<longleftrightarrow> False"

section \<open>The entries of the header\<close>

record accept_entry =
  ac_type :: string
  ac_subtype :: string
  ac_quality :: quality

definition is_ws :: "char \<Rightarrow> bool" where
  "is_ws c \<longleftrightarrow> c = CHR '' '' \<or> c = CHR 0x09"

definition skip_ws :: "string \<Rightarrow> string" where
  "skip_ws p = dropWhile is_ws p"

text \<open>Characters of \<open>len\<close> left after moving from \<open>p\<close> to its suffix \<open>q\<close>.\<close>

definition left_of :: "nat \<Rightarrow> string \<Rightarrow> string \<Rightarrow> nat" where
  "left_of len p q = len - (length p - length q)"

text \<open>\<open>memchr\<close> in the first \<open>len\<close> characters: the offset.\<close>

fun memchr :: "string \<Rightarrow> char \<Rightarrow> nat \<Rightarrow> nat option" where
  "memchr p c 0 = None"
| "memchr [] c (Suc n) = None"
| "memchr (d # p) c (Suc n) = (if d = c then Some 0 else map_option Suc (memchr p c n))"

lemma memchr_less: "memchr p c n = Some i \<Longrightarrow> i < n \<and> i < length p \<and> p ! i = c \<and> c \<notin> set (take i p)"
  by (induction p c n arbitrary: i rule: memchr.induct) (auto split: if_splits)

lemma left_of_le: "left_of len p q \<le> len"
  by (simp add: left_of_def)

function parse_quality :: "(string \<Rightarrow> quality) \<Rightarrow> string \<Rightarrow> nat \<Rightarrow> quality" where
  "parse_quality strtod p len =
     (if len = 0 then Finite 1
      else let q = skip_ws p; n = left_of len p q
        in if 1 < n \<and> take 2 q = ''q='' then strtod (drop 2 q)
           else (case memchr q (CHR '';'') n of
               None \<Rightarrow> Finite 1
             | Some i \<Rightarrow> parse_quality strtod (drop (Suc i) q) (n - Suc i)))"
  by pat_completeness auto
termination
proof (relation "measure (\<lambda>(strtod, p, len). len)")
  show "wf (measure (\<lambda>(strtod, p, len). len))" by simp
next
  fix strtod :: "string \<Rightarrow> quality" and p len q n i
  assume "len \<noteq> 0" "q = skip_ws p" "n = left_of len p q" "memchr q (CHR '';'') n = Some i"
  then show "((strtod, drop (Suc i) q, n - Suc i), strtod, p, len) \<in> measure (\<lambda>(strtod, p, len). len)"
    using left_of_le [of len p q] memchr_less by fastforce
qed

declare parse_quality.simps [simp del]

definition trim_end :: "string \<Rightarrow> string" where
  "trim_end s = rev (dropWhile (\<lambda>c. c = CHR '' '') (rev s))"

definition parse_accept_entry :: "(string \<Rightarrow> quality) \<Rightarrow> string \<Rightarrow> nat \<Rightarrow> accept_entry option" where
  "parse_accept_entry strtod start len =
     (let p = skip_ws start; n = left_of len start p in
      case memchr p (CHR ''/'') n of
        None \<Rightarrow> None
      | Some i \<Rightarrow>
          let q = drop (Suc i) p; k = n - Suc i in
          Some (case memchr q (CHR '';'') k of
              Some j \<Rightarrow> \<lparr>ac_type = trim_end (take i p), ac_subtype = trim_end (take j q),
                ac_quality = parse_quality strtod (drop (Suc j) q) (k - j - 1)\<rparr>
            | None \<Rightarrow> \<lparr>ac_type = trim_end (take i p), ac_subtype = trim_end (take k q), ac_quality = Finite 1\<rparr>))"

section \<open>The choice\<close>

definition media_type_matches :: "accept_entry \<Rightarrow> string \<Rightarrow> bool" where
  "media_type_matches accept available \<longleftrightarrow>
     (if ac_type accept = ''*'' then True
      else if CHR ''/'' \<notin> set available then False
      else
        let type = takeWhile (\<lambda>c. c \<noteq> CHR ''/'') available;
            subtype = drop (length type + 1) available
        in if length (ac_type accept) \<noteq> length type \<or> \<not> strncaseeq (length type) (ac_type accept) available then False
           else if ac_subtype accept = ''*'' then True
           else length (ac_subtype accept) = length subtype
             \<and> strncaseeq (length subtype) (ac_subtype accept) subtype)"

fun best_available ::
    "accept_entry \<Rightarrow> string list \<Rightarrow> string option \<times> quality \<Rightarrow> string option \<times> quality" where
  "best_available e [] best = best"
| "best_available e (m # ms) best =
     best_available e ms
       (if media_type_matches e m \<and> exceeds (ac_quality e) (snd best) then (Some m, ac_quality e) else best)"

lemma dropWhile_comma: "dropWhile (\<lambda>c. c \<noteq> CHR '','') s = c # r \<Longrightarrow> length r < length s"
  by (rule dropWhile_shorter)

function accept_loop ::
    "(string \<Rightarrow> quality) \<Rightarrow> string list \<Rightarrow> string \<Rightarrow> string option \<times> quality \<Rightarrow> string option \<times> quality" where
  "accept_loop strtod available p best =
     (if p = [] then best
      else
        let entry_len = length (takeWhile (\<lambda>c. c \<noteq> CHR '','') p);
            best = (case parse_accept_entry strtod p entry_len of
                None \<Rightarrow> best
              | Some e \<Rightarrow> best_available e available best)
        in case drop entry_len p of
             [] \<Rightarrow> best
           | _ # rest \<Rightarrow> accept_loop strtod available rest best)"
  by pat_completeness auto
termination
proof (relation "measure (\<lambda>(strtod, ms, p, best). length p)")
  show "wf (measure (\<lambda>(strtod, ms, p, best). length p))" by simp
next
  fix strtod :: "string \<Rightarrow> quality" and available p best n best' c rest
  assume "p \<noteq> []" "drop n p = c # rest"
  then have "length rest < length p" by (metis length_drop length_Cons Suc_le_eq diff_le_self)
  then show "((strtod, available, rest, best'), strtod, available, p, best) \<in> measure (\<lambda>(strtod, ms, p, best). length p)"
    by simp
qed

declare accept_loop.simps [simp del]

definition oas_negotiate_content_type ::
    "(string \<Rightarrow> quality) \<Rightarrow> string option \<Rightarrow> string list option \<Rightarrow> string option" where
  "oas_negotiate_content_type strtod accept available =
     (case (accept, available) of
        (Some p, Some ms) \<Rightarrow> if ms = [] then None else fst (accept_loop strtod ms p (None, Finite (- 1)))
      | _ \<Rightarrow> None)"

section \<open>The best candidate\<close>

text \<open>What \<open>above\<close> is: a strict order on the numbers and infinities, where a NAN is above and below nothing.\<close>

lemma above_trans: "exceeds x y \<Longrightarrow> exceeds y z \<Longrightarrow> exceeds x z"
  by (cases x; cases y; cases z) auto

lemma above_irrefl: "\<not> exceeds x x"
  by (cases x) auto

lemma above_linear: "exceeds x b \<Longrightarrow> exceeds y b \<Longrightarrow> \<not> exceeds y x \<Longrightarrow> exceeds z x \<Longrightarrow> exceeds z y"
  by (cases x; cases y; cases z; cases b) auto

text \<open>
  The pairs of an entry and an available type that match, in the order of the code, with a quality
  above the \<open>-1\<close> the search starts with; and what choosing among them keeps: everything before is below the choice,
  nothing after is above it.
\<close>

definition candidates :: "accept_entry list \<Rightarrow> string list \<Rightarrow> (quality \<times> string) list" where
  "candidates es ms =
     concat (map (\<lambda>e. map (Pair (ac_quality e)) (filter (\<lambda>m. media_type_matches e m \<and> exceeds (ac_quality e) (Finite (- 1))) ms)) es)"

definition chosen :: "(quality \<times> string) list \<Rightarrow> string option \<times> quality \<Rightarrow> bool" where
  "chosen cs best \<longleftrightarrow>
     (case fst best of
        None \<Rightarrow> cs = [] \<and> snd best = Finite (- 1)
      | Some m \<Rightarrow> \<exists>pre post. cs = pre @ (snd best, m) # post \<and> exceeds (snd best) (Finite (- 1)) \<and>
          (\<forall>c \<in> set pre. exceeds (snd best) (fst c)) \<and> (\<forall>c \<in> set post. \<not> exceeds (fst c) (snd best)))"

lemma chosen_step:
  assumes "chosen cs best" and "exceeds q (Finite (- 1))" and "\<forall>c \<in> set cs. exceeds (fst c) (Finite (- 1))"
  shows "chosen (cs @ [(q, m)]) (if exceeds q (snd best) then (Some m, q) else best)"
proof (cases "fst best")
  case None
  then have "cs @ [(q, m)] = [] @ (q, m) # []" using assms(1) by (simp add: chosen_def)
  then show ?thesis using assms(1,2) None unfolding chosen_def by fastforce
next
  case (Some k)
  then obtain pre post where cs: "cs = pre @ (snd best, k) # post" and b: "exceeds (snd best) (Finite (- 1))"
    and pre: "\<forall>c \<in> set pre. exceeds (snd best) (fst c)" and post: "\<forall>c \<in> set post. \<not> exceeds (fst c) (snd best)"
    using assms(1) by (auto simp: chosen_def)
  show ?thesis
  proof (cases "exceeds q (snd best)")
    case False
    have "cs @ [(q, m)] = pre @ (snd best, k) # (post @ [(q, m)])" using cs by simp
    moreover have "\<forall>c \<in> set (post @ [(q, m)]). \<not> exceeds (fst c) (snd best)" using post False by simp
    ultimately have "\<exists>pre post. cs @ [(q, m)] = pre @ (snd best, k) # post \<and> exceeds (snd best) (Finite (- 1)) \<and>
        (\<forall>c \<in> set pre. exceeds (snd best) (fst c)) \<and> (\<forall>c \<in> set post. \<not> exceeds (fst c) (snd best))"
      using b pre by blast
    then show ?thesis using Some False by (simp add: chosen_def)
  next
    case True
    have "exceeds q (fst c)" if "c \<in> set cs" for c
      using that pre post True above_trans above_linear [OF b, of "fst c" q] assms(3) cs by auto
    then have "cs @ [(q, m)] = cs @ (q, m) # [] \<and> (\<forall>c \<in> set cs. exceeds q (fst c)) \<and>
        (\<forall>c \<in> set ([] :: (quality \<times> string) list). \<not> exceeds (fst c) q)" by simp
    then have "\<exists>pre post. cs @ [(q, m)] = pre @ (q, m) # post \<and>
        (\<forall>c \<in> set pre. exceeds q (fst c)) \<and> (\<forall>c \<in> set post. \<not> exceeds (fst c) q)" by blast
    then show ?thesis using True assms(2) by (simp add: chosen_def)
  qed
qed

lemma best_available_chosen:
  assumes "chosen cs best" and "\<forall>c \<in> set cs. exceeds (fst c) (Finite (- 1))"
  shows "chosen (cs @ candidates [e] ms) (best_available e ms best)"
  using assms
proof (induction ms arbitrary: cs best)
  case Nil
  then show ?case by (simp add: candidates_def)
next
  case (Cons m ms)
  let ?q = "ac_quality e"
  show ?case
  proof (cases "media_type_matches e m \<and> exceeds ?q (Finite (- 1))")
    case True
    have "chosen (cs @ [(?q, m)]) (if exceeds ?q (snd best) then (Some m, ?q) else best)"
      using chosen_step [OF Cons.prems(1) _ Cons.prems(2)] True by blast
    moreover have "\<forall>c \<in> set (cs @ [(?q, m)]). exceeds (fst c) (Finite (- 1))" using Cons.prems(2) True by simp
    ultimately show ?thesis using Cons.IH [of "cs @ [(?q, m)]"] True by (simp add: candidates_def)
  next
    case False
    have "\<not> (media_type_matches e m \<and> exceeds ?q (snd best))"
    proof
      assume a: "media_type_matches e m \<and> exceeds ?q (snd best)"
      then have "exceeds (snd best) (Finite (- 1)) \<or> snd best = Finite (- 1)"
        using Cons.prems(1) by (auto simp: chosen_def split: option.splits)
      then show False using a False above_trans by auto
    qed
    then have "best_available e (m # ms) best = best_available e ms best"
      by (simp only: best_available.simps if_False)
    moreover have "candidates [e] (m # ms) = candidates [e] ms" using False by (simp add: candidates_def)
    ultimately show ?thesis using Cons.IH [OF Cons.prems] by simp
  qed
qed

lemma candidates_append: "candidates (es @ fs) ms = candidates es ms @ candidates fs ms"
  by (simp add: candidates_def)

lemma candidates_Nil: "candidates [] ms = []"
  by (simp add: candidates_def)

lemma candidates_above: "c \<in> set (candidates es ms) \<Longrightarrow> exceeds (fst c) (Finite (- 1))"
  by (auto simp: candidates_def)

text \<open>The entries the loop reads: one per comma, those without a slash left out.\<close>

function header_entries :: "(string \<Rightarrow> quality) \<Rightarrow> string \<Rightarrow> accept_entry list" where
  "header_entries strtod p =
     (if p = [] then []
      else let n = length (takeWhile (\<lambda>c. c \<noteq> CHR '','') p) in
        (case parse_accept_entry strtod p n of None \<Rightarrow> [] | Some e \<Rightarrow> [e]) @
        (case drop n p of [] \<Rightarrow> [] | _ # rest \<Rightarrow> header_entries strtod rest))"
  by pat_completeness auto
termination
proof (relation "measure (\<lambda>(strtod, p). length p)")
  show "wf (measure (\<lambda>(strtod, p). length p))" by simp
next
  fix strtod :: "string \<Rightarrow> quality" and p n c rest
  assume "p \<noteq> []" "drop n p = c # rest"
  then have "length rest < length p" by (metis length_drop length_Cons Suc_le_eq diff_le_self)
  then show "((strtod, rest), strtod, p) \<in> measure (\<lambda>(strtod, p). length p)" by simp
qed

declare header_entries.simps [simp del]

lemma accept_loop_chosen:
  assumes "chosen (candidates es ms) best"
  shows "chosen (candidates (es @ header_entries strtod p) ms) (accept_loop strtod ms p best)"
  using assms
proof (induction p arbitrary: es best rule: length_induct)
  case (1 p)
  show ?case
  proof (cases "p = []")
    case True
    then show ?thesis using 1(2) by (simp add: header_entries.simps accept_loop.simps)
  next
    case False
    let ?n = "length (takeWhile (\<lambda>c. c \<noteq> CHR '','') p)"
    let ?e = "case parse_accept_entry strtod p ?n of None \<Rightarrow> [] | Some e \<Rightarrow> [e]"
    let ?b = "case parse_accept_entry strtod p ?n of None \<Rightarrow> best | Some e \<Rightarrow> best_available e ms best"
    have b: "chosen (candidates (es @ ?e) ms) ?b"
      using 1(2) best_available_chosen [OF 1(2)] candidates_above
      by (auto simp: candidates_append candidates_Nil split: option.split)
    show ?thesis
    proof (cases "drop ?n p")
      case Nil
      then show ?thesis using b False by (simp add: header_entries.simps [of strtod p] accept_loop.simps [of strtod ms p])
    next
      case (Cons c rest)
      then have "length rest < length p" by (metis length_drop length_Cons Suc_le_eq diff_le_self)
      then have "chosen (candidates ((es @ ?e) @ header_entries strtod rest) ms) (accept_loop strtod ms rest ?b)"
        using 1(1) b by blast
      then show ?thesis using Cons False
        by (simp add: header_entries.simps [of strtod p] accept_loop.simps [of strtod ms p] Let_def)
    qed
  qed
qed

lemma negotiate_chosen:
  assumes "ms \<noteq> []"
  obtains q where "chosen (candidates (header_entries strtod p) ms) (oas_negotiate_content_type strtod (Some p) (Some ms), q)"
proof -
  have "chosen (candidates ([] @ header_entries strtod p) ms) (accept_loop strtod ms p (None, Finite (- 1)))"
    by (rule accept_loop_chosen) (simp add: chosen_def candidates_def)
  then have "chosen (candidates (header_entries strtod p) ms)
      (oas_negotiate_content_type strtod (Some p) (Some ms), snd (accept_loop strtod ms p (None, Finite (- 1))))"
    using assms by (simp add: oas_negotiate_content_type_def)
  then show thesis by (rule that)
qed

section \<open>Headers as clients write them\<close>

text \<open>
  A media range with white space in front of it, and the text of its quality where it has one.
\<close>

record media_range =
  mr_space :: string
  mr_type :: string
  mr_subtype :: string
  mr_quality :: "string option"

definition range_text :: "media_range \<Rightarrow> string" where
  "range_text r = mr_space r @ mr_type r @ CHR ''/'' # mr_subtype r @
     (case mr_quality r of None \<Rightarrow> [] | Some x \<Rightarrow> '';q='' @ x)"

definition header_text :: "media_range list \<Rightarrow> string" where
  "header_text rs = join_on (CHR '','') (map range_text rs)"

definition token_char :: "char \<Rightarrow> bool" where
  "token_char c \<longleftrightarrow> \<not> is_ws c \<and> c \<noteq> CHR ''/'' \<and> c \<noteq> CHR '','' \<and> c \<noteq> CHR '';''"

definition range_ok :: "(string \<Rightarrow> quality) \<Rightarrow> media_range \<Rightarrow> bool" where
  "range_ok strtod r \<longleftrightarrow> list_all is_ws (mr_space r) \<and> list_all token_char (mr_type r) \<and>
     list_all token_char (mr_subtype r) \<and>
     (\<forall>x. mr_quality r = Some x \<longrightarrow> CHR '','' \<notin> set x \<and> (\<forall>rest. strtod (x @ CHR '','' # rest) = strtod x))"

definition range_quality :: "(string \<Rightarrow> quality) \<Rightarrow> media_range \<Rightarrow> quality" where
  "range_quality strtod r = (case mr_quality r of None \<Rightarrow> Finite 1 | Some x \<Rightarrow> strtod x)"

definition range_entry :: "(string \<Rightarrow> quality) \<Rightarrow> media_range \<Rightarrow> accept_entry" where
  "range_entry strtod r = \<lparr>ac_type = mr_type r, ac_subtype = mr_subtype r, ac_quality = range_quality strtod r\<rparr>"

lemma memchr_at: "c \<notin> set u \<Longrightarrow> length u < n \<Longrightarrow> memchr (u @ c # v) c n = Some (length u)"
  by (induction u arbitrary: n) (auto simp: less_Suc_eq_0_disj gr0_conv_Suc Suc_less_eq2)

lemma memchr_absent: "c \<notin> set (take n p) \<Longrightarrow> memchr p c n = None"
  by (induction p c n rule: memchr.induct) auto

lemma token_apart: "list_all token_char u \<Longrightarrow> c \<in> set ''/,; '' \<Longrightarrow> c \<notin> set u"
  by (auto simp: list_all_iff token_char_def is_ws_def)

lemma trim_token: "list_all token_char u \<Longrightarrow> trim_end u = u"
  by (cases u rule: rev_cases) (auto simp: trim_end_def token_char_def is_ws_def)

lemma skip_ws_here: "c \<noteq> CHR '' '' \<Longrightarrow> c \<noteq> CHR 0x09 \<Longrightarrow> skip_ws (c # p) = c # p"
  by (simp add: skip_ws_def is_ws_def)

lemma parse_quality_here: "parse_quality strtod (''q='' @ x) (Suc (Suc n)) = strtod x"
  by (simp add: parse_quality.simps [of strtod _ "Suc (Suc n)"] skip_ws_here left_of_def)

lemma skip_to_type:
  assumes "list_all is_ws w" and "list_all token_char t"
  shows "skip_ws (w @ t @ CHR ''/'' # v) = t @ CHR ''/'' # v"
proof -
  have "skip_ws (t @ CHR ''/'' # v) = t @ CHR ''/'' # v"
    using assms(2) by (cases t) (simp_all add: skip_ws_def token_char_def is_ws_def)
  moreover have "dropWhile is_ws (w @ u) = dropWhile is_ws u" for u
    using assms(1) by (simp add: dropWhile_append list_all_iff)
  ultimately show ?thesis by (simp add: skip_ws_def)
qed

lemma parse_range:
  assumes "range_ok strtod r" and "rest = [] \<or> (\<exists>v. rest = CHR '','' # v)"
  shows "parse_accept_entry strtod (range_text r @ rest) (length (range_text r)) = Some (range_entry strtod r)"
proof -
  let ?t = "mr_type r" and ?s = "mr_subtype r"
  let ?x = "case mr_quality r of None \<Rightarrow> [] | Some x \<Rightarrow> '';q='' @ x"
  let ?p = "?t @ CHR ''/'' # ?s @ ?x @ rest" and ?q = "?s @ ?x @ rest"
  let ?k = "length ?s + length ?x"
  have ok: "list_all is_ws (mr_space r)" "list_all token_char ?t" "list_all token_char ?s" using assms(1) by (auto simp: range_ok_def)
  have whole: "range_text r @ rest = mr_space r @ ?t @ CHR ''/'' # (?s @ ?x @ rest)" by (simp add: range_text_def)
  have p: "skip_ws (range_text r @ rest) = ?p" unfolding whole by (rule skip_to_type [OF ok(1,2)])
  have n: "left_of (length (range_text r)) (range_text r @ rest) ?p = length ?t + Suc ?k"
    by (simp add: left_of_def range_text_def)
  have slash: "memchr ?p (CHR ''/'') (length ?t + Suc ?k) = Some (length ?t)"
    by (rule memchr_at) (use token_apart [OF ok(2)] in simp_all)
  have q: "drop (Suc (length ?t)) ?p = ?q" "take (length ?t) ?p = ?t" "length ?t + Suc ?k - Suc (length ?t) = ?k" by simp_all
  have "parse_accept_entry strtod (range_text r @ rest) (length (range_text r)) =
      Some (case memchr ?q (CHR '';'') ?k of
          Some j \<Rightarrow> \<lparr>ac_type = trim_end ?t, ac_subtype = trim_end (take j ?q),
            ac_quality = parse_quality strtod (drop (Suc j) ?q) (?k - j - 1)\<rparr>
        | None \<Rightarrow> \<lparr>ac_type = trim_end ?t, ac_subtype = trim_end (take ?k ?q), ac_quality = Finite 1\<rparr>)"
    unfolding parse_accept_entry_def Let_def p n slash option.case q ..
  moreover have "(case memchr ?q (CHR '';'') ?k of
          Some j \<Rightarrow> \<lparr>ac_type = trim_end ?t, ac_subtype = trim_end (take j ?q),
            ac_quality = parse_quality strtod (drop (Suc j) ?q) (?k - j - 1)\<rparr>
        | None \<Rightarrow> \<lparr>ac_type = trim_end ?t, ac_subtype = trim_end (take ?k ?q), ac_quality = Finite 1\<rparr>) = range_entry strtod r"
  proof (cases "mr_quality r")
    case None
    have "memchr (?s @ rest) (CHR '';'') (length ?s) = None"
      by (rule memchr_absent) (use token_apart [OF ok(3)] in simp)
    then show ?thesis using None trim_token [OF ok(2)] trim_token [OF ok(3)]
      by (simp add: range_entry_def range_quality_def)
  next
    case (Some x)
    have semi: "memchr (?s @ CHR '';'' # (''q='' @ x @ rest)) (CHR '';'') (length ?s + Suc (Suc (Suc (length x)))) = Some (length ?s)"
      by (rule memchr_at) (use token_apart [OF ok(3)] in simp_all)
    have "strtod (x @ rest) = strtod x" using assms Some by (auto simp: range_ok_def)
    then show ?thesis
      using Some semi trim_token [OF ok(2)] trim_token [OF ok(3)] parse_quality_here [of strtod "x @ rest" "length x"]
      by (simp add: range_entry_def range_quality_def)
  qed
  ultimately show ?thesis by simp
qed

lemma range_no_comma:
  assumes "range_ok strtod r"
  shows "CHR '','' \<notin> set (range_text r)"
proof -
  have "\<not> is_ws (CHR '','')" by (simp add: is_ws_def)
  then have "CHR '','' \<notin> set (mr_space r)" using assms by (metis range_ok_def list_all_iff)
  moreover have "CHR '','' \<notin> set (mr_type r)" "CHR '','' \<notin> set (mr_subtype r)"
    using assms by (simp_all add: range_ok_def token_apart)
  moreover have "CHR '','' \<notin> set (case mr_quality r of None \<Rightarrow> [] | Some x \<Rightarrow> '';q='' @ x)"
    using assms by (cases "mr_quality r") (simp_all add: range_ok_def)
  ultimately show ?thesis by (simp add: range_text_def)
qed

lemma header_entries_text:
  "list_all (range_ok strtod) rs \<Longrightarrow> header_entries strtod (header_text rs) = map (range_entry strtod) rs"
proof (induction rs)
  case Nil
  then show ?case by (simp add: header_text_def header_entries.simps)
next
  case (Cons r rs)
  obtain rest where rest: "header_text (r # rs) = range_text r @ rest"
    "rest = (if rs = [] then [] else CHR '','' # header_text rs)"
    by (cases rs) (simp_all add: header_text_def)
  have ok: "range_ok strtod r" using Cons.prems by simp
  have "takeWhile (\<lambda>c. c \<noteq> CHR '','') (range_text r @ rest) = range_text r"
    using range_no_comma [OF ok] rest(2) by (subst takeWhile_append2) (auto split: if_splits)
  moreover have "range_text r @ rest \<noteq> []" by (simp add: range_text_def)
  moreover have "parse_accept_entry strtod (range_text r @ rest) (length (range_text r)) = Some (range_entry strtod r)"
    by (rule parse_range [OF ok]) (simp add: rest(2))
  ultimately have "header_entries strtod (range_text r @ rest) =
      [range_entry strtod r] @ (case rest of [] \<Rightarrow> [] | _ # u \<Rightarrow> header_entries strtod u)"
    by (simp add: header_entries.simps [of strtod "range_text r @ rest"])
  then show ?case using Cons rest by (cases "rs = []") simp_all
qed

text \<open>A range accepts the media types of its type and subtype, and \<open>*\<close> everything.\<close>

definition accepts :: "media_range \<Rightarrow> string \<Rightarrow> bool" where
  "accepts r m \<longleftrightarrow> mr_type r = ''*'' \<or>
     (CHR ''/'' \<in> set m \<and> strcaseeq (mr_type r) (takeWhile (\<lambda>c. c \<noteq> CHR ''/'') m) \<and>
      (mr_subtype r = ''*'' \<or> strcaseeq (mr_subtype r) (tl (dropWhile (\<lambda>c. c \<noteq> CHR ''/'') m))))"

lemma strcaseeq_length: "strcaseeq u v \<Longrightarrow> length u = length v"
  unfolding strcaseeq_def by (metis length_map)

lemma matches_accepts: "media_type_matches (range_entry strtod r) m = accepts r m"
proof -
  let ?t = "takeWhile (\<lambda>c. c \<noteq> CHR ''/'') m"
  have s: "drop (length ?t + 1) m = tl (dropWhile (\<lambda>c. c \<noteq> CHR ''/'') m)"
    by (metis drop_Suc Suc_eq_plus1 dropWhile_eq_drop drop_tl tl_drop)
  have t: "take (length ?t) m = ?t" by (metis takeWhile_eq_take)
  have whole: "length u = length v \<and> strncaseeq (length v) u v \<longleftrightarrow> strcaseeq u v" for u v
    by (metis strncaseeq_def take_all order_refl strcaseeq_length)
  have type: "length u = length ?t \<and> strncaseeq (length ?t) u m \<longleftrightarrow> strcaseeq u ?t" for u
    using whole [of u ?t] t by (simp add: strncaseeq_def)
  show ?thesis
    unfolding media_type_matches_def accepts_def Let_def s
    using type [of "mr_type r"] whole [of "mr_subtype r" "tl (dropWhile (\<lambda>c. c \<noteq> CHR ''/'') m)"]
    by (auto simp: range_entry_def)
qed

text \<open>The acceptable pairs of a quality and a media type, by range and then in the order offered.\<close>

definition acceptable :: "(string \<Rightarrow> quality) \<Rightarrow> media_range list \<Rightarrow> string list \<Rightarrow> (quality \<times> string) list" where
  "acceptable strtod rs ms =
     concat (map (\<lambda>r. map (Pair (range_quality strtod r))
       (filter (\<lambda>m. accepts r m \<and> exceeds (range_quality strtod r) (Finite (- 1))) ms)) rs)"

lemma candidates_acceptable: "candidates (map (range_entry strtod) rs) ms = acceptable strtod rs ms"
  by (simp add: candidates_def acceptable_def matches_accepts comp_def) (simp add: range_entry_def)

text \<open>
  C37. Negotiation finds the best match. For a header of media ranges separated by commas, with white
  space in front and qualities a C library reads up to the comma, the answer is null exactly when no
  range accepts an offered type with a quality above -1, and otherwise the first of the highest quality among the acceptable
  pairs, in the order of the ranges and then of the offer. A quality of 0 does not exclude a type.
\<close>

theorem negotiate_best_match:
  assumes "list_all (range_ok strtod) rs" and "ms \<noteq> []"
  shows "(case oas_negotiate_content_type strtod (Some (header_text rs)) (Some ms) of
      None \<Rightarrow> acceptable strtod rs ms = []
    | Some m \<Rightarrow> \<exists>pre q post. acceptable strtod rs ms = pre @ (q, m) # post \<and>
        (\<forall>c \<in> set pre. exceeds q (fst c)) \<and> (\<forall>c \<in> set post. \<not> exceeds (fst c) q))"
proof -
  obtain q where "chosen (acceptable strtod rs ms) (oas_negotiate_content_type strtod (Some (header_text rs)) (Some ms), q)"
    using negotiate_chosen [OF assms(2), of strtod "header_text rs"]
    unfolding header_entries_text [OF assms(1)] candidates_acceptable by blast
  then show ?thesis by (fastforce simp: chosen_def split: option.split)
qed

text \<open>\<open>text/html;q=0.5, Application/*\<close> offered HTML and JSON, with a reader of two numerals.\<close>

definition sample_strtod :: "string \<Rightarrow> quality" where
  "sample_strtod s = (if takeWhile (\<lambda>c. c \<noteq> CHR '','') s = ''0.5'' then Finite (1 / 2) else Finite 0)"

definition sample_ranges :: "media_range list" where
  "sample_ranges =
     [\<lparr>mr_space = [], mr_type = ''text'', mr_subtype = ''html'', mr_quality = Some ''0.5''\<rparr>,
      \<lparr>mr_space = '' '', mr_type = ''Application'', mr_subtype = ''*'', mr_quality = None\<rparr>]"

theorem negotiate_best_match_witness:
  "header_text sample_ranges = ''text/html;q=0.5, Application/*'' \<and>
   oas_negotiate_content_type sample_strtod (Some (header_text sample_ranges)) (Some [''text/html'', ''application/json'']) =
     Some ''application/json''"
proof
  show "header_text sample_ranges = ''text/html;q=0.5, Application/*''"
    by (simp add: header_text_def sample_ranges_def range_text_def)
  let ?r = "oas_negotiate_content_type sample_strtod (Some (header_text sample_ranges)) (Some [''text/html'', ''application/json''])"
  have ok: "list_all (range_ok sample_strtod) sample_ranges"
    by (simp add: sample_ranges_def range_ok_def token_char_def is_ws_def sample_strtod_def)
  have cs: "acceptable sample_strtod sample_ranges [''text/html'', ''application/json''] =
      [(Finite (1 / 2), ''text/html''), (Finite 1, ''application/json'')]"
    by (simp add: acceptable_def sample_ranges_def accepts_def range_quality_def sample_strtod_def strcaseeq_def
        ascii_lower_def char_of_def bit_Suc_0_iff)
  note best = negotiate_best_match [OF ok, of "[''text/html'', ''application/json'']", unfolded cs]
  show "?r = Some ''application/json''"
  proof (cases ?r)
    case None
    then show ?thesis using best by simp
  next
    case (Some m)
    then obtain pre q post where "[(Finite (1 / 2), ''text/html''), (Finite 1, ''application/json'')] = pre @ (q, m) # post"
      and post: "\<forall>c \<in> set post. \<not> exceeds (fst c) q"
      using best by auto
    then consider "pre = []" "q = Finite (1 / 2)" "post = [(Finite 1, ''application/json'')]" | "m = ''application/json''"
      by (auto simp: Cons_eq_append_conv)
    then show ?thesis using post Some by cases simp_all
  qed
qed

end
