(* ===== verification/Liboas_Problem.thy ===== *)
theory Liboas_Problem
  imports Liboas_Emitter Liboas_Validate
begin

text \<open>
  Problem details (RFC 9457), \<open>src/core/oas_problem.c\<close> and its header, written with yyjson as in
  \<open>Liboas_Emitter\<close>; and the version functions of \<open>src/core/oas_version.c\<close>, whose numbers the build puts
  into a generated header and are arguments here.
\<close>

section \<open>Problem details\<close>

definition status_member :: "int \<Rightarrow> member" where
  "status_member status = (Some ''status'', Some (Some (JSint (word_of_int status))))"

definition problem_error :: "oas_error \<Rightarrow> emission" where
  "problem_error err = new_obj [str_member ''path'' (err_path err), str_member ''message'' (err_message err)]"

text \<open>The loop over the errors asks for each index below the count; a null entry is skipped.\<close>

definition problem_errors :: "'a oas_error_list option \<Rightarrow> emission list" where
  "problem_errors errors =
     map (\<lambda>i. case oas_error_list_get errors i of None \<Rightarrow> Some None | Some err \<Rightarrow> problem_error err)
       [0..<oas_error_list_count errors]"

definition validation_members :: "'a oas_error_list option \<Rightarrow> int \<Rightarrow> member list" where
  "validation_members errors status_code =
     [str_member ''type'' (Some ''about:blank''),
      str_member ''title'' (Some ''Validation Failed''),
      status_member status_code,
      str_member ''detail'' (Some ''Request validation failed''),
      member_if (errors \<noteq> None \<and> 0 < oas_error_list_count errors) ''errors'' (new_arr (problem_errors errors))]"

definition write_problem :: "emitter_env \<Rightarrow> member list \<Rightarrow> nat option \<Rightarrow> written option" where
  "write_problem env ms out_len = emit_with env (write_json env None) new_obj (Some ms) out_len"

definition oas_problem_from_validation ::
    "emitter_env \<Rightarrow> 'a oas_error_list oas_validation_result option \<Rightarrow> int \<Rightarrow> nat option \<Rightarrow> written option" where
  "oas_problem_from_validation env result status_code out_len =
     (case result of
        None \<Rightarrow> Some (None, out_len)
      | Some r \<Rightarrow>
          if vr_valid r then Some (None, out_len)
          else write_problem env (validation_members (vr_errors r) status_code) out_len)"

record oas_problem =
  pb_type :: "string option"
  pb_title :: "string option"
  pb_status :: int
  pb_detail :: "string option"
  pb_instance :: "string option"

definition oas_problem_to_json :: "emitter_env \<Rightarrow> oas_problem option \<Rightarrow> nat option \<Rightarrow> written option" where
  "oas_problem_to_json env problem out_len =
     (case problem of
        None \<Rightarrow> Some (None, out_len)
      | Some p \<Rightarrow> write_problem env
          [str_member ''type'' (Some (case pb_type p of None \<Rightarrow> ''about:blank'' | Some t \<Rightarrow> t)),
           str_member ''title'' (pb_title p),
           status_member (pb_status p),
           str_member ''detail'' (pb_detail p),
           str_member ''instance'' (pb_instance p)] out_len)"

section \<open>Every error is reported\<close>

definition error_object :: "oas_error \<Rightarrow> json" where
  "error_object err = JObj
     ((case err_path err of None \<Rightarrow> [] | Some p \<Rightarrow> [(''path'', JStr p)]) @
      (case err_message err of None \<Rightarrow> [] | Some m \<Rightarrow> [(''message'', JStr m)]))"

lemma problem_error_value: "problem_error err = Some (Some (error_object err))"
  by (simp add: problem_error_def error_object_def new_obj_def str_member_def str_val_def split: option.split)

lemma append_values_all: "append_values (map (\<lambda>x. Some (Some (f x))) xs) = Some (map f xs)"
  by (induction xs) simp_all

lemma problem_errors_values:
  "append_values (problem_errors (Some l)) = Some (map error_object (el_errors l))"
proof -
  have "problem_errors (Some l) = map (\<lambda>i. Some (Some (error_object (el_errors l ! i)))) [0..<length (el_errors l)]"
    by (simp add: problem_errors_def oas_error_list_get_def oas_error_list_count_def problem_error_value)
  also have "\<dots> = map (\<lambda>err. Some (Some (error_object err))) (map ((!) (el_errors l)) [0..<length (el_errors l)])" by simp
  finally show ?thesis by (simp only: map_nth append_values_all)
qed

text \<open>
  An invalid result is written as an object with the fixed type, title and detail, the status and,
  where there are entries, one object per entry with its path and message, in order. A valid result, or none, gives no text.
\<close>

theorem problem_reports_errors:
  assumes "ee_doc_new env"
  shows "oas_problem_from_validation env (Some r) status_code out_len =
    (if vr_valid r then Some (None, out_len)
     else Some (write_json env None out_len (JObj
       ([(''type'', JStr ''about:blank''), (''title'', JStr ''Validation Failed''),
         (''status'', JSint (word_of_int status_code)), (''detail'', JStr ''Request validation failed'')] @
        (case vr_errors r of None \<Rightarrow> []
         | Some l \<Rightarrow> if el_errors l = [] then [] else [(''errors'', JArr (map error_object (el_errors l)))])))))"
proof (cases "vr_errors r")
  case None
  then show ?thesis using assms
    by (simp add: oas_problem_from_validation_def write_problem_def emit_with_def validation_members_def new_obj_def
        str_member_def str_val_def status_member_def member_if_def)
next
  case (Some l)
  then show ?thesis using assms
    by (simp add: oas_problem_from_validation_def write_problem_def emit_with_def validation_members_def new_obj_def
        str_member_def str_val_def status_member_def member_if_def new_arr_def problem_errors_values
        oas_error_list_count_def)
qed

section \<open>Version\<close>

definition oas_version :: "string \<Rightarrow> string" where
  "oas_version version_string = version_string"

definition oas_version_number :: "int \<Rightarrow> int \<Rightarrow> int \<Rightarrow> int" where
  "oas_version_number major minor patch = major * 10000 + minor * 100 + patch"

text \<open>
  The number orders versions as their components do, as long as minor and patch have two digits.
\<close>

theorem version_number_orders:
  assumes "0 \<le> mi" "mi < 100" "0 \<le> pt" "pt < 100" "0 \<le> mi'" "mi' < 100" "0 \<le> pt'" "pt' < 100"
  shows "oas_version_number ma mi pt < oas_version_number ma' mi' pt' \<longleftrightarrow>
    ma < ma' \<or> ma = ma' \<and> (mi < mi' \<or> mi = mi' \<and> pt < pt')"
proof -
  consider "ma < ma'" | "ma' < ma" | "ma = ma'" by linarith
  then show ?thesis
  proof cases
    case 1
    then have "ma + 1 \<le> ma'" by simp
    then have "oas_version_number ma mi pt < oas_version_number ma' mi' pt'"
      using assms unfolding oas_version_number_def by linarith
    then show ?thesis using 1 by simp
  next
    case 2
    then have "ma' + 1 \<le> ma" by simp
    then have "oas_version_number ma' mi' pt' \<le> oas_version_number ma mi pt"
      using assms unfolding oas_version_number_def by linarith
    then show ?thesis using 2 by simp
  next
    case 3
    have "mi * 100 + pt < mi' * 100 + pt' \<longleftrightarrow> mi < mi' \<or> mi = mi' \<and> pt < pt'"
    proof (cases "mi < mi'")
      case True
      then have "mi + 1 \<le> mi'" by simp
      then have "mi * 100 + pt < mi' * 100 + pt'" using assms by linarith
      then show ?thesis using True by simp
    next
      case False
      then show ?thesis using assms by (cases "mi = mi'") linarith+
    qed
    then show ?thesis using 3 by (simp add: oas_version_number_def)
  qed
qed

end
