(* ===== verification/Liboas_Yaml.thy ===== *)
theory Liboas_Yaml
  imports Liboas_Ref Liboas_Format_Spec
begin

text \<open>
  The YAML reader, \<open>src/parser/oas_yaml.c\<close>: libfyaml's tree converted to a JSON value, which is
  written and read again by yyjson. libfyaml, yyjson and \<open>strtod\<close> are parameters; the memory of yyjson's
  builder is granted.
\<close>

section \<open>Trees and texts\<close>

text \<open>
  What the accessors of libfyaml show of a node: the text of a scalar, if it has one, and whether
  its style is quoted, the items of a sequence, or the keys and values of a mapping, which may be null.
\<close>

datatype fy_node =
    Fy_scalar "string option" bool
  | Fy_sequence "fy_node list"
  | Fy_mapping "(fy_node option \<times> fy_node option) list"
  | Fy_other

fun fy_node_get_scalar0 :: "fy_node option \<Rightarrow> string option" where
  "fy_node_get_scalar0 (Some (Fy_scalar s quoted)) = s"
| "fy_node_get_scalar0 _ = None"

text \<open>
  \<open>ym_strtod\<close> gives the number read, \<open>None\<close> for an infinity or NAN, the characters consumed and
  whether \<open>errno\<close> stayed 0.
\<close>

record yaml_env =
  ym_build :: "string \<Rightarrow> fy_node option option"
  ym_doc_new :: bool
  ym_strtod :: "string \<Rightarrow> double option \<times> nat \<times> bool"
  ym_write :: "json \<Rightarrow> string option"
  ym_read :: "string \<Rightarrow> json option"

text \<open>\<open>strtoll\<close> in base 10: the number, the characters consumed and whether \<open>errno\<close> stayed 0.\<close>

definition is_space :: "char \<Rightarrow> bool" where
  "is_space c \<longleftrightarrow> byte c = 32 \<or> 9 \<le> byte c \<and> byte c \<le> 13"

definition split_sign :: "string \<Rightarrow> bool \<times> string" where
  "split_sign s =
     (case s of
        [] \<Rightarrow> (False, [])
      | c # r \<Rightarrow> if c = CHR ''-'' then (True, r) else if c = CHR ''+'' then (False, r) else (False, s))"

definition strtoll :: "string \<Rightarrow> int \<times> nat \<times> bool" where
  "strtoll s =
     (case split_sign (dropWhile is_space s) of
        (neg, r) \<Rightarrow>
          let ds = takeWhile is_digit r; v = (if neg then - digits_val ds else digits_val ds)
          in if ds = [] then (0, 0, True)
             else (max (- (2 ^ 63)) (min (2 ^ 63 - 1) v), length s - length (dropWhile is_digit r),
               - (2 ^ 63) \<le> v \<and> v < 2 ^ 63))"

section \<open>Conversion\<close>

text \<open>
  A result \<open>None\<close> is a value with a number that is not finite, which yyjson refuses to write.
\<close>

definition convert_plain :: "yaml_env \<Rightarrow> string \<Rightarrow> json option" where
  "convert_plain env str =
     (if str = ''null'' \<or> str = ''~'' \<or> str = [] then Some JNull
      else if str = ''true'' then Some (JBool True)
      else if str = ''false'' then Some (JBool False)
      else case strtoll str of (ival, n, ok) \<Rightarrow>
        if n \<noteq> 0 \<and> n = length str \<and> ok then Some (JSint (word_of_int ival))
        else case ym_strtod env str of (dval, n, ok) \<Rightarrow>
          if n \<noteq> 0 \<and> n = length str \<and> ok then map_option JReal dval else Some (JStr str))"

definition convert_scalar :: "yaml_env \<Rightarrow> string option \<Rightarrow> bool \<Rightarrow> json option" where
  "convert_scalar env s quoted =
     (case s of None \<Rightarrow> Some JNull | Some str \<Rightarrow> if quoted then Some (JStr str) else convert_plain env str)"

fun convert_node :: "yaml_env \<Rightarrow> fy_node \<Rightarrow> json option"
  and convert_items :: "yaml_env \<Rightarrow> fy_node list \<Rightarrow> json list option"
  and convert_pairs :: "yaml_env \<Rightarrow> (fy_node option \<times> fy_node option) list \<Rightarrow> (string \<times> json) list option" where
  "convert_node env (Fy_scalar s quoted) = convert_scalar env s quoted"
| "convert_node env (Fy_sequence items) = map_option JArr (convert_items env items)"
| "convert_node env (Fy_mapping pairs) = map_option JObj (convert_pairs env pairs)"
| "convert_node env Fy_other = Some JNull"
| "convert_items env [] = Some []"
| "convert_items env (x # xs) = do { v \<leftarrow> convert_node env x; vs \<leftarrow> convert_items env xs; Some (v # vs) }"
| "convert_pairs env [] = Some []"
| "convert_pairs env ((k, x) # kvs) =
     (case fy_node_get_scalar0 k of
        None \<Rightarrow> convert_pairs env kvs
      | Some key \<Rightarrow> do {
          v \<leftarrow> (case x of None \<Rightarrow> Some JNull | Some node \<Rightarrow> convert_node env node);
          rest \<leftarrow> convert_pairs env kvs;
          Some ((key, v) # rest)
        })"

definition convert_root :: "yaml_env \<Rightarrow> fy_node option \<Rightarrow> json option" where
  "convert_root env node = (case node of None \<Rightarrow> Some JNull | Some x \<Rightarrow> convert_node env x)"

section \<open>Entry points\<close>

text \<open>The error buffer with its size, or a null pointer.\<close>

type_synonym err_buffer = "(string \<times> nat) option"

definition yaml_set_error :: "string \<Rightarrow> err_buffer \<Rightarrow> err_buffer" where
  "yaml_set_error msg err =
     (case err of None \<Rightarrow> None | Some (old, n) \<Rightarrow> if 0 < n then Some (take (n - 1) msg, n) else Some (old, n))"

definition oas_yaml_to_json :: "yaml_env \<Rightarrow> string option \<Rightarrow> err_buffer \<Rightarrow> json option \<times> err_buffer" where
  "oas_yaml_to_json env yaml err =
     (if yaml = None \<or> yaml = Some [] then (None, yaml_set_error ''empty input'' err)
      else case ym_build env (the yaml) of
          None \<Rightarrow> (None, yaml_set_error ''YAML parse error'' err)
        | Some node \<Rightarrow>
            if \<not> ym_doc_new env then (None, yaml_set_error ''memory allocation error'' err)
            else case Option.bind (convert_root env node) (ym_write env) of
                None \<Rightarrow> (None, yaml_set_error ''JSON write error'' err)
              | Some json_text \<Rightarrow>
                  (case ym_read env json_text of
                     None \<Rightarrow> (None, yaml_set_error ''JSON re-parse error'' err)
                   | Some v \<Rightarrow> (Some v, err)))"

text \<open>
  The file is given as what opening and reading it gives; fewer bytes than its length are taken as they are.
\<close>

definition oas_yaml_file_to_json ::
    "yaml_env \<Rightarrow> (string \<Rightarrow> file_outcome) \<Rightarrow> bool \<Rightarrow> string option \<Rightarrow> err_buffer \<Rightarrow> json option \<times> err_buffer" where
  "oas_yaml_file_to_json env files granted filepath err =
     (case filepath of
        None \<Rightarrow> (None, yaml_set_error ''null filepath'' err)
      | Some p \<Rightarrow>
          (case files p of
             Open_failed e \<Rightarrow> (None, yaml_set_error (''cannot open file: '' @ p) err)
           | Length_failed e \<Rightarrow> (None, yaml_set_error ''ftell error'' err)
           | File_read len content \<Rightarrow>
               if \<not> granted then (None, yaml_set_error ''memory allocation error'' err)
               else oas_yaml_to_json env (Some content) err))"

definition oas_auto_parse :: "yaml_env \<Rightarrow> string option \<Rightarrow> err_buffer \<Rightarrow> json option \<times> err_buffer" where
  "oas_auto_parse env content err =
     (if content = None \<or> content = Some [] then (None, yaml_set_error ''empty input'' err)
      else case ym_read env (the content) of
          Some v \<Rightarrow> (Some v, err)
        | None \<Rightarrow> oas_yaml_to_json env content err)"

section \<open>JSON values in YAML\<close>

text \<open>
  The tree of a JSON value: strings and keys are quoted, other scalars plain. A real number has a
  text of its own that \<open>strtod\<close> reads completely and \<open>strtoll\<close> does not.
\<close>

definition real_text :: "yaml_env \<Rightarrow> double \<Rightarrow> string \<Rightarrow> bool" where
  "real_text env d x \<longleftrightarrow> ym_strtod env x = (Some d, length x, True) \<and> fst (snd (strtoll x)) \<noteq> length x \<and>
     x \<notin> {''null'', ''~'', [], ''true'', ''false''}"

definition quoted_pair :: "string \<times> fy_node \<Rightarrow> fy_node option \<times> fy_node option" where
  "quoted_pair kx = (Some (Fy_scalar (Some (fst kx)) True), Some (snd kx))"

inductive represents :: "yaml_env \<Rightarrow> fy_node \<Rightarrow> json \<Rightarrow> bool" for env where
  "represents env (Fy_scalar (Some ''null'') False) JNull"
| "represents env (Fy_scalar (Some (if b then ''true'' else ''false'')) False) (JBool b)"
| "unat n < 2 ^ 63 \<Longrightarrow> represents env (Fy_scalar (Some (dec_nat (unat n))) False) (JUint n)"
| "represents env (Fy_scalar (Some (dec_int (sint n))) False) (JSint n)"
| "real_text env d x \<Longrightarrow> represents env (Fy_scalar (Some x) False) (JReal d)"
| "represents env (Fy_scalar (Some s) True) (JStr s)"
| "list_all2 (represents env) xs vs \<Longrightarrow> represents env (Fy_sequence xs) (JArr vs)"
| "list_all2 (\<lambda>kx kv. fst kx = fst kv \<and> represents env (snd kx) (snd kv)) kxs kvs
    \<Longrightarrow> represents env (Fy_mapping (map quoted_pair kxs)) (JObj kvs)"

text \<open>
  The reader makes every integer signed; yyjson reads the text of an integer back as unsigned
  unless it is negative.
\<close>

fun signed_ints :: "json \<Rightarrow> json" where
  "signed_ints (JUint n) = JSint n"
| "signed_ints (JArr vs) = JArr (map signed_ints vs)"
| "signed_ints (JObj kvs) = JObj (map (\<lambda>kv. (fst kv, signed_ints (snd kv))) kvs)"
| "signed_ints v = v"

fun read_ints :: "json \<Rightarrow> json" where
  "read_ints (JSint n) = (if 0 \<le> sint n then JUint n else JSint n)"
| "read_ints (JArr vs) = JArr (map read_ints vs)"
| "read_ints (JObj kvs) = JObj (map (\<lambda>kv. (fst kv, read_ints (snd kv))) kvs)"
| "read_ints v = v"

text \<open>Documented behaviour of yyjson: what it writes reads back as the same value.\<close>

definition yy_text_roundtrip :: "yaml_env \<Rightarrow> bool" where
  "yy_text_roundtrip env \<longleftrightarrow> (\<forall>v t. ym_write env v = Some t \<longrightarrow> ym_read env t = Some (read_ints v))"

lemma dec_int_parts:
  obtains ds where "dec_int i = (if i < 0 then CHR ''-'' # ds else ds)" "list_all is_digit ds" "ds \<noteq> []" "digits_val ds = \<bar>i\<bar>"
proof
  let ?ds = "dec_nat (nat \<bar>i\<bar>)"
  show "dec_int i = (if i < 0 then CHR ''-'' # ?ds else ?ds)" by (simp add: dec_int_def)
  show "list_all is_digit ?ds" "?ds \<noteq> []" using dec_nat_digits by blast+
  show "digits_val ?ds = \<bar>i\<bar>" by (simp add: digits_val_dec_nat)
qed

lemma digit_plain: "is_digit c \<Longrightarrow> \<not> is_space c \<and> c \<noteq> CHR ''-'' \<and> c \<noteq> CHR ''+''"
  by (auto simp: is_digit_def is_space_def)

lemma strtoll_dec_int:
  assumes "- (2 ^ 63) \<le> i" and "i < 2 ^ 63"
  shows "strtoll (dec_int i) = (i, length (dec_int i), True) \<and> dec_int i \<noteq> []"
proof -
  obtain ds where ds: "dec_int i = (if i < 0 then CHR ''-'' # ds else ds)" "list_all is_digit ds" "ds \<noteq> []" "digits_val ds = \<bar>i\<bar>"
    by (rule dec_int_parts)
  obtain c r where c: "ds = c # r" using ds(3) by (cases ds) auto
  have sg: "split_sign (dropWhile is_space (dec_int i)) = (i < 0, ds)"
    using ds(1,2) c digit_plain [of c] by (auto simp: split_sign_def is_space_def)
  have t: "takeWhile is_digit ds = ds" "dropWhile is_digit ds = []"
    using ds(2) by (simp_all add: list_all_iff)
  have v: "(if i < 0 then - digits_val ds else digits_val ds) = i" using ds(4) by simp
  have "max (- (2 ^ 63)) (min (2 ^ 63 - 1) i) = i" using assms by simp
  then have "strtoll (dec_int i) = (i, length (dec_int i), True)"
    unfolding strtoll_def sg prod.case t Let_def v using ds(3) assms by simp
  then show ?thesis using ds(1,3) by simp
qed

lemma dec_int_no_word: "dec_int i \<notin> {''null'', ''~'', [], ''true'', ''false''}"
proof -
  obtain ds where ds: "dec_int i = (if i < 0 then CHR ''-'' # ds else ds)" "list_all is_digit ds" "ds \<noteq> []" "digits_val ds = \<bar>i\<bar>"
    by (rule dec_int_parts)
  then obtain c r where "ds = c # r" "is_digit c" by (cases ds) auto
  then show ?thesis using ds(1) by (auto simp: is_digit_def)
qed

lemma convert_dec_int:
  assumes "- (2 ^ 63) \<le> i" and "i < 2 ^ 63"
  shows "convert_plain env (dec_int i) = Some (JSint (word_of_int i))"
  using dec_int_no_word [of i] strtoll_dec_int [OF assms] by (simp add: convert_plain_def)

lemma convert_items_all2:
  "list_all2 (\<lambda>x v. convert_node env x = Some (f v)) xs vs \<Longrightarrow> convert_items env xs = Some (map f vs)"
  by (induction rule: list_all2_induct) simp_all

lemma convert_pairs_all2:
  assumes "list_all2 (\<lambda>kx kv. fst kx = fst kv \<and> convert_node env (snd kx) = Some (f (snd kv))) kxs kvs"
  shows "convert_pairs env (map quoted_pair kxs) = Some (map (\<lambda>kv. (fst kv, f (snd kv))) kvs)"
  using assms by (induction rule: list_all2_induct) (auto simp: quoted_pair_def)

lemma represents_convert: "represents env x v \<Longrightarrow> convert_node env x = Some (signed_ints v)"
proof (induction rule: represents.induct)
  case (3 n)
  have "dec_int (int (unat n)) = dec_nat (unat n)" by (simp add: dec_int_def)
  moreover have "convert_plain env (dec_int (int (unat n))) = Some (JSint (word_of_int (int (unat n))))"
  proof (rule convert_dec_int)
    show "- (2 ^ 63) \<le> int (unat n)" by (rule order_trans [of _ 0]) simp_all
    show "int (unat n) < 2 ^ 63" using 3 by (metis of_nat_less_iff of_nat_numeral of_nat_power)
  qed
  ultimately show ?case by (simp add: convert_scalar_def)
next
  case (4 n)
  have "convert_plain env (dec_int (sint n)) = Some (JSint (word_of_int (sint n)))"
    by (rule convert_dec_int) (use sint_greater_eq [of n] sint_less [of n] in simp_all)
  then show ?case by (simp add: convert_scalar_def)
next
  case (5 d x)
  then show ?case
    by (auto simp: real_text_def convert_scalar_def convert_plain_def split: prod.split)
next
  case (7 xs vs)
  then have "list_all2 (\<lambda>x v. convert_node env x = Some (signed_ints v)) xs vs"
    by (auto elim: list_all2_mono)
  then show ?case by (simp add: convert_items_all2)
next
  case (8 kxs kvs)
  then have "list_all2 (\<lambda>kx kv. fst kx = fst kv \<and> convert_node env (snd kx) = Some (signed_ints (snd kv))) kxs kvs"
    by (rule list_all2_mono) simp
  then show ?case by (simp add: convert_pairs_all2)
qed (simp_all add: convert_scalar_def convert_plain_def)

lemma unat_below_sint:
  fixes n :: u64
  assumes "unat n < 2 ^ 63"
  shows "0 \<le> sint n"
proof -
  have "int (unat n) < 2 ^ 63" using assms by (metis of_nat_less_iff of_nat_numeral of_nat_power)
  then have "sint n = int (unat n)"
    unfolding sint_uint uint_nat
    by (intro signed_take_bit_int_eq_self) (simp_all add: order_trans [of _ 0 "uint n"])
  then show ?thesis by simp
qed

lemma read_signed: "read_ints (signed_ints v) = read_ints v" if "represents env x v" for x v
  using that
proof (induction rule: represents.induct)
  case (3 n)
  have "0 \<le> sint n" using 3 by (simp add: unat_below_sint)
  then show ?case by simp
next
  case (7 xs vs)
  then show ?case by (auto simp: list_all2_conv_all_nth in_set_conv_nth)
next
  case (8 kxs kvs)
  then show ?case by (fastforce simp: list_all2_conv_all_nth in_set_conv_nth)
qed simp_all

text \<open>
  C36. YAML reads as the JSON it means. Whenever libfyaml's tree of a text represents a JSON value, quoted
  strings and keys, plain numbers, booleans and nulls, \<open>oas_yaml_to_json\<close> gives that value, with its
  integers as yyjson reads them, and leaves the error buffer alone; and \<open>oas_auto_parse\<close> gives the same for a text that is no JSON.
\<close>

theorem yaml_reads_json_tree:
  assumes "ym_build env t = Some (Some x)" and "represents env x v" and "t \<noteq> []" and "ym_doc_new env"
    and "ym_write env (signed_ints v) \<noteq> None" and "yy_text_roundtrip env"
  shows "oas_yaml_to_json env (Some t) err = (Some (read_ints v), err) \<and>
    (ym_read env t = None \<longrightarrow> oas_auto_parse env (Some t) err = (Some (read_ints v), err))"
proof -
  obtain s where s: "ym_write env (signed_ints v) = Some s" using assms(5) by blast
  have "ym_read env s = Some (read_ints v)"
    using assms(6) s read_signed [OF assms(2)] by (simp add: yy_text_roundtrip_def)
  then have "oas_yaml_to_json env (Some t) err = (Some (read_ints v), err)"
    using assms(1,3,4) s represents_convert [OF assms(2)] by (simp add: oas_yaml_to_json_def convert_root_def)
  then show ?thesis using assms(3) by (simp add: oas_auto_parse_def)
qed

text \<open>
  Two behaviours beyond JSON: a plain scalar that \<open>strtod\<close> reads as an infinity or NAN makes the
  whole text unreadable, and a plain style other than quoted, such as a literal block, is typed by its text.
\<close>

lemma yaml_not_finite:
  assumes "ym_build env t = Some (Some (Fy_scalar (Some ''nan'') False))" and "t \<noteq> []" and "ym_doc_new env"
    and "ym_strtod env ''nan'' = (None, 3, True)"
  shows "oas_yaml_to_json env (Some t) err = (None, yaml_set_error ''JSON write error'' err)"
proof -
  have "strtoll ''nan'' = (0, 0, True)"
    by (simp add: strtoll_def split_sign_def is_space_def is_digit_def Let_def)
  then show ?thesis using assms
    by (simp add: oas_yaml_to_json_def convert_root_def convert_scalar_def convert_plain_def)
qed

text \<open>The text \<open>a: 5\<close> with a writer for this one value.\<close>

definition sample_yaml :: yaml_env where
  "sample_yaml =
     \<lparr>ym_build = (\<lambda>t. if t = ''a: 5'' then Some (Some (Fy_mapping
          [(Some (Fy_scalar (Some ''a'') True), Some (Fy_scalar (Some ''5'') False))])) else None),
      ym_doc_new = True, ym_strtod = (\<lambda>s. (Some 0, 0, True)),
      ym_write = (\<lambda>v. if v = JObj [(''a'', JSint 5)] then Some ''{}'' else None),
      ym_read = (\<lambda>s. if s = ''{}'' then Some (JObj [(''a'', JUint 5)]) else None)\<rparr>"

theorem yaml_reads_json_tree_witness:
  "oas_auto_parse sample_yaml (Some ''a: 5'') None = (Some (JObj [(''a'', JUint 5)]), None)"
proof -
  let ?x = "Fy_mapping [(Some (Fy_scalar (Some ''a'') True), Some (Fy_scalar (Some ''5'') False))]"
  have five: "dec_nat 5 = ''5''" by (subst dec_nat.simps) (simp add: char_of_def bit_Suc_0_iff)
  have "represents sample_yaml (Fy_scalar (Some (dec_nat (unat (5 :: u64)))) False) (JUint 5)"
    by (rule represents.intros(3)) simp
  then have "represents sample_yaml (Fy_scalar (Some ''5'') False) (JUint 5)" by (simp add: five)
  then have r: "represents sample_yaml ?x (JObj [(''a'', JUint 5)])"
    using represents.intros(8) [of sample_yaml "[(''a'', Fy_scalar (Some ''5'') False)]" "[(''a'', JUint 5)]"]
    by (simp add: quoted_pair_def)
  have "yy_text_roundtrip sample_yaml" by (simp add: yy_text_roundtrip_def sample_yaml_def)
  with yaml_reads_json_tree [of sample_yaml "''a: 5''", OF _ r, of None] show ?thesis
    by (simp add: sample_yaml_def)
qed

end
