(* ===== verification/Liboas_Fetch.thy ===== *)
theory Liboas_Fetch
  imports Liboas_Yaml Liboas_Request
begin

text \<open>
  The built-in fetcher of remote references, \<open>src/parser/oas_ref_fetch.c\<close>: URLs, the HTTP exchange
  with its clean-up, and the redirects. Sockets, name resolution, the TLS layer and \<open>malloc\<close> are functions on a
  world. What is held, sockets, address lists, TLS contexts and heap blocks, is counted in the state.
\<close>

section \<open>URLs\<close>

definition OAS_REF_FETCH_DEFAULT_TIMEOUT_MS :: int where
  "OAS_REF_FETCH_DEFAULT_TIMEOUT_MS = 30000"

definition OAS_REF_FETCH_DEFAULT_MAX_SIZE :: nat where
  "OAS_REF_FETCH_DEFAULT_MAX_SIZE = 10 * 1024 * 1024"

definition OAS_REF_FETCH_DEFAULT_MAX_REDIRECTS :: int where
  "OAS_REF_FETCH_DEFAULT_MAX_REDIRECTS = 5"

definition OAS_REF_FETCH_INIT_BUF :: nat where
  "OAS_REF_FETCH_INIT_BUF = 4096"

text \<open>Line ends and the empty line between headers and body.\<close>

definition CRLF :: string where
  "CRLF = [CHR 0x0D, CHR 0x0A]"

record http_url =
  hu_host :: string
  hu_port :: string
  hu_path :: string
  hu_is_https :: bool

text \<open>
  \<open>strncmp(url, p, n)\<close> is 0 when the prefix is there. \<open>tls\<close> is the build option; the buffers have
  256 and 8 bytes.
\<close>

definition has_prefix :: "string \<Rightarrow> string \<Rightarrow> bool" where
  "has_prefix p s \<longleftrightarrow> take (length p) s = p"

definition url_start :: "bool \<Rightarrow> string \<Rightarrow> errno + string \<times> string \<times> bool" where
  "url_start tls url =
     (if has_prefix ''https://'' url then (if tls then Inr (drop 8 url, ''443'', True) else Inl ENOTSUP)
      else if has_prefix ''http://'' url then Inr (drop 7 url, ''80'', False)
      else Inl EINVAL)"

definition parse_http_url :: "bool \<Rightarrow> nat \<Rightarrow> nat \<Rightarrow> string \<Rightarrow> errno + http_url" where
  "parse_http_url tls host_len port_len url =
     (case url_start tls url of
        Inl e \<Rightarrow> Inl e
      | Inr (rest, default_port, sec) \<Rightarrow>
          if CHR 0x0D \<in> set rest \<or> CHR 0x0A \<in> set rest then Inl EINVAL
          else
            let before = takeWhile (\<lambda>c. c \<noteq> CHR ''/'') rest;
                path = dropWhile (\<lambda>c. c \<noteq> CHR ''/'') rest;
                host = takeWhile (\<lambda>c. c \<noteq> CHR '':'') before;
                hlen = length host
            in if hlen = 0 \<or> host_len \<le> hlen then Inl EINVAL
               else if CHR '':'' \<in> set before then
                 let port = drop (hlen + 1) before in
                 if port = [] \<or> port_len \<le> length port then Inl EINVAL
                 else Inr \<lparr>hu_host = host, hu_port = port, hu_path = (if path = [] then ''/'' else path), hu_is_https = sec\<rparr>
               else Inr \<lparr>hu_host = host, hu_port = take (port_len - 1) default_port,
                 hu_path = (if path = [] then ''/'' else path), hu_is_https = sec\<rparr>)"

section \<open>Responses\<close>

text \<open>The offset \<open>strstr\<close> finds.\<close>

fun strstr :: "string \<Rightarrow> string \<Rightarrow> nat option" where
  "strstr s p = (if has_prefix p s then Some 0 else case s of [] \<Rightarrow> None | c # r \<Rightarrow> map_option Suc (strstr r p))"

declare strstr.simps [simp del]

lemma strstr_bound: "strstr s p = Some i \<Longrightarrow> i + length p \<le> length s \<and> take (length p) (drop i s) = p"
proof (induction s arbitrary: i)
  case Nil
  then show ?case by (auto simp: strstr.simps [of "[]"] has_prefix_def split: if_splits)
next
  case (Cons c s)
  show ?case
  proof (cases "has_prefix p (c # s)")
    case True
    then have "length p \<le> length (c # s)" unfolding has_prefix_def by (metis length_take min.cobounded1)
    then show ?thesis using True Cons.prems by (simp add: strstr.simps [of "c # s"] has_prefix_def)
  next
    case False
    then obtain j where "strstr s p = Some j" "i = Suc j" using Cons.prems by (auto simp: strstr.simps [of "c # s"])
    then show ?thesis using Cons.IH by simp
  qed
qed

definition is_blank :: "char \<Rightarrow> bool" where
  "is_blank c \<longleftrightarrow> c = CHR '' '' \<or> c = CHR 0x09"

function http_header :: "string \<Rightarrow> string \<Rightarrow> string option" where
  "http_header p name =
     (if p = [] then None
      else if strncaseeq (length name) p name \<and> length name < length p \<and> p ! length name = CHR '':''
      then Some (dropWhile is_blank (drop (length name + 1) p))
      else case strstr p CRLF of None \<Rightarrow> None | Some i \<Rightarrow> http_header (drop (i + 2) p) name)"
  by pat_completeness auto
termination
proof (relation "measure (\<lambda>(p, name). length p)")
  show "wf (measure (\<lambda>(p, name :: string). length (p :: string)))" by simp
next
  fix p name :: string and i
  assume "p \<noteq> []"
  then show "((drop (i + 2) p, name), p, name) \<in> measure (\<lambda>(p, name). length p)" by simp
qed

declare http_header.simps [simp del]

definition header_value :: "string \<Rightarrow> string" where
  "header_value v = (case strstr v CRLF of None \<Rightarrow> v | Some n \<Rightarrow> take n v)"

definition parse_status_code :: "string \<Rightarrow> int" where
  "parse_status_code status_line =
     (case dropWhile (\<lambda>c. c \<noteq> CHR '' '') status_line of
        [] \<Rightarrow> - 1
      | _ # r \<Rightarrow>
          (case strtoll r of (v, n, ok) \<Rightarrow> if n = 0 \<or> v < 100 \<or> 999 < v then - 1 else v))"

section \<open>The network\<close>

text \<open>
  Each call answers or fails with a code; a failing read leaves whatever \<open>errno\<close> holds, which may be
  0. \<open>nt_send\<close> and \<open>nt_recv\<close> take whether the TLS layer is used.
\<close>

record 'w network =
  nt_tls :: bool
  nt_resolve :: "'w \<Rightarrow> string \<Rightarrow> string \<Rightarrow> bool \<times> 'w"
  nt_socket :: "'w \<Rightarrow> (errno + nat) \<times> 'w"
  nt_connect :: "'w \<Rightarrow> nat \<Rightarrow> int \<Rightarrow> errno option \<times> 'w"
  nt_tls_create :: "'w \<Rightarrow> bool \<times> 'w"
  nt_tls_connect :: "'w \<Rightarrow> nat \<Rightarrow> string \<Rightarrow> errno option \<times> 'w"
  nt_send :: "'w \<Rightarrow> nat \<Rightarrow> bool \<Rightarrow> string \<Rightarrow> (errno + nat) \<times> 'w"
  nt_recv :: "'w \<Rightarrow> nat \<Rightarrow> bool \<Rightarrow> nat \<Rightarrow> (errno option + string) \<times> 'w"
  nt_malloc :: "'w \<Rightarrow> nat \<Rightarrow> bool \<times> 'w"

record 'w fetch_state =
  fs_world :: 'w
  fs_sockets :: "nat list"
  fs_addresses :: nat
  fs_tls :: nat
  fs_blocks :: nat
  fs_contacted :: "(string \<times> string) list"

definition fetch_malloc :: "'w network \<Rightarrow> nat \<Rightarrow> 'w fetch_state \<Rightarrow> bool \<times> 'w fetch_state" where
  "fetch_malloc net n st =
     (case nt_malloc net (fs_world st) n of
        (ok, w) \<Rightarrow> (ok, st\<lparr>fs_world := w, fs_blocks := fs_blocks st + (if ok then 1 else 0)\<rparr>))"

definition fetch_free :: "'w fetch_state \<Rightarrow> 'w fetch_state" where
  "fetch_free st = st\<lparr>fs_blocks := fs_blocks st - 1\<rparr>"

text \<open>
  The receive loop: the buffer doubles while it may, \<open>got\<close> is what is in it. \<open>realloc\<close> replaces one
  block by another. An empty answer ends it.
\<close>

definition grow_buffer :: "'w network \<Rightarrow> nat \<Rightarrow> nat \<Rightarrow> nat \<Rightarrow> 'w fetch_state \<Rightarrow> (errno + nat) \<times> 'w fetch_state" where
  "grow_buffer net max_size buf_size used st =
     (if used < buf_size - 1 then (Inr buf_size, st)
      else if (max_size + OAS_REF_FETCH_INIT_BUF) mod 2 ^ 64 < buf_size * 2 then (Inl EFBIG, st)
      else case nt_malloc net (fs_world st) (buf_size * 2) of
          (ok, w) \<Rightarrow> (if ok then Inr (buf_size * 2) else Inl ENOMEM, st\<lparr>fs_world := w\<rparr>))"

fun read_loop ::
    "nat \<Rightarrow> 'w network \<Rightarrow> nat \<Rightarrow> bool \<Rightarrow> nat \<Rightarrow> nat \<Rightarrow> string \<Rightarrow> 'w fetch_state
      \<Rightarrow> ((errno option + string) \<times> 'w fetch_state) option" where
  "read_loop 0 net fd tls max_size buf_size got st = None"
| "read_loop (Suc fuel) net fd tls max_size buf_size got st =
     (case grow_buffer net max_size buf_size (length got) st of
        (Inl e, st) \<Rightarrow> Some (Inl (Some e), st)
      | (Inr sz, st) \<Rightarrow>
          (case nt_recv net (fs_world st) fd tls (sz - length got - 1) of
             (Inl e, w) \<Rightarrow> Some (Inl e, st\<lparr>fs_world := w\<rparr>)
           | (Inr chunk, w) \<Rightarrow>
               if chunk = [] then Some (Inr got, st\<lparr>fs_world := w\<rparr>)
               else read_loop fuel net fd tls max_size sz (got @ chunk) (st\<lparr>fs_world := w\<rparr>)))"

text \<open>The return code, the status, the redirect and the body of one exchange.\<close>

record http_answer =
  ha_rc :: "errno option"
  ha_status :: int
  ha_redirect :: "string option"
  ha_data :: "string option"

definition failed :: "errno option \<Rightarrow> int \<Rightarrow> http_answer" where
  "failed rc status = \<lparr>ha_rc = rc, ha_status = status, ha_redirect = None, ha_data = None\<rparr>"

definition redirect_status :: "int \<Rightarrow> bool" where
  "redirect_status s \<longleftrightarrow> s = 301 \<or> s = 302 \<or> s = 307 \<or> s = 308"

text \<open>What is done with the bytes received; a string function sees them up to the first NUL.\<close>

definition take_response :: "'w network \<Rightarrow> nat \<Rightarrow> string \<Rightarrow> 'w fetch_state \<Rightarrow> http_answer \<times> 'w fetch_state" where
  "take_response net max_size buf st =
     (case strstr (cstr buf) (CRLF @ CRLF) of
        None \<Rightarrow> (failed (Some EPROTO) 0, st)
      | Some i \<Rightarrow>
          let status = parse_status_code (cstr buf) in
          if status < 0 then (failed (Some EPROTO) status, st)
          else if redirect_status status then
            (case http_header (cstr buf) ''Location'' of
               None \<Rightarrow> (failed None status, st)
             | Some loc \<Rightarrow>
                 let v = header_value loc in
                 (case fetch_malloc net (length v + 1) st of
                    (ok, st) \<Rightarrow> ((failed None status)\<lparr>ha_redirect := (if ok then Some v else None)\<rparr>, st)))
          else
            let body = drop (i + 4) buf in
            if max_size < length body then (failed (Some EFBIG) status, st)
            else (case fetch_malloc net (length body + 1) st of
                (ok, st) \<Rightarrow> if ok then ((failed None status)\<lparr>ha_data := Some body\<rparr>, st)
                  else (failed (Some ENOMEM) status, st)))"

definition http_request_text :: "string \<Rightarrow> string \<Rightarrow> string" where
  "http_request_text path host =
     ''GET '' @ path @ '' HTTP/1.1'' @ CRLF @ ''Host: '' @ host @ CRLF @ ''User-Agent: liboas/0.1.0'' @ CRLF @
     ''Connection: close'' @ CRLF @ CRLF"

definition send_request ::
    "'w network \<Rightarrow> nat \<Rightarrow> bool \<Rightarrow> string \<Rightarrow> string \<Rightarrow> 'w fetch_state \<Rightarrow> errno option \<times> 'w fetch_state" where
  "send_request net fd tls path host st =
     (let request = http_request_text path host in
      if 2048 \<le> length request then (Some ENOMEM, st)
      else case nt_send net (fs_world st) fd tls request of
          (r, w) \<Rightarrow>
            (case r of Inl e \<Rightarrow> Some e | Inr n \<Rightarrow> if n \<noteq> length request then Some EIO else None, st\<lparr>fs_world := w\<rparr>))"

text \<open>From the connected socket on: request, response, and the buffer freed.\<close>

definition exchange ::
    "nat \<Rightarrow> 'w network \<Rightarrow> nat \<Rightarrow> bool \<Rightarrow> nat \<Rightarrow> string \<Rightarrow> string \<Rightarrow> 'w fetch_state
      \<Rightarrow> (http_answer \<times> 'w fetch_state) option" where
  "exchange fuel net fd tls max_size path host st =
     (case send_request net fd tls path host st of
        (Some e, st) \<Rightarrow> Some (failed (Some e) 0, st)
      | (None, st) \<Rightarrow>
          (case fetch_malloc net OAS_REF_FETCH_INIT_BUF st of
             (False, st) \<Rightarrow> Some (failed (Some ENOMEM) 0, st)
           | (True, st) \<Rightarrow> do {
               (r, st) \<leftarrow> read_loop fuel net fd tls max_size OAS_REF_FETCH_INIT_BUF [] st;
               let (a, st) = (case r of Inl e \<Rightarrow> (failed e 0, st) | Inr buf \<Rightarrow> take_response net max_size buf st);
               Some (a, fetch_free st)
             }))"

text \<open>With the TLS layer in between, where the URL asks for it.\<close>

definition secured_exchange ::
    "nat \<Rightarrow> 'w network \<Rightarrow> nat \<Rightarrow> bool \<Rightarrow> nat \<Rightarrow> string \<Rightarrow> string \<Rightarrow> 'w fetch_state
      \<Rightarrow> (http_answer \<times> 'w fetch_state) option" where
  "secured_exchange fuel net fd use_tls max_size path host st =
     (if \<not> (nt_tls net \<and> use_tls) then exchange fuel net fd False max_size path host st
      else case nt_tls_create net (fs_world st) of
          (False, w) \<Rightarrow> Some (failed (Some ENOMEM) 0, st\<lparr>fs_world := w\<rparr>)
        | (True, w) \<Rightarrow>
            let st = st\<lparr>fs_world := w, fs_tls := fs_tls st + 1\<rparr> in
            (case nt_tls_connect net (fs_world st) fd host of
               (Some e, w) \<Rightarrow> Some (failed (Some e) 0, st\<lparr>fs_world := w, fs_tls := fs_tls st - 1\<rparr>)
             | (None, w) \<Rightarrow> do {
                 (a, st) \<leftarrow> exchange fuel net fd True max_size path host (st\<lparr>fs_world := w\<rparr>);
                 Some (a, st\<lparr>fs_tls := fs_tls st - 1\<rparr>)
               }))"

text \<open>
  One request. Connecting takes the timeout, which the code sets as socket options before it. The clean-up frees the buffer, the TLS context, the
  address list and the socket, whichever are there.
\<close>

definition do_http_get ::
    "nat \<Rightarrow> 'w network \<Rightarrow> string \<Rightarrow> string \<Rightarrow> string \<Rightarrow> bool \<Rightarrow> int \<Rightarrow> nat \<Rightarrow> 'w fetch_state
      \<Rightarrow> (http_answer \<times> 'w fetch_state) option" where
  "do_http_get fuel net host port path use_tls timeout_ms max_size st =
     (let st = st\<lparr>fs_contacted := (host, port) # fs_contacted st\<rparr> in
      case nt_resolve net (fs_world st) host port of
        (False, w) \<Rightarrow> Some (failed (Some EHOSTUNREACH) 0, st\<lparr>fs_world := w\<rparr>)
      | (True, w) \<Rightarrow>
          let st = st\<lparr>fs_world := w, fs_addresses := fs_addresses st + 1\<rparr> in
          (case nt_socket net (fs_world st) of
             (Inl e, w) \<Rightarrow> Some (failed (Some e) 0, st\<lparr>fs_world := w, fs_addresses := fs_addresses st - 1\<rparr>)
           | (Inr fd, w) \<Rightarrow>
               let st = st\<lparr>fs_world := w, fs_sockets := fd # fs_sockets st\<rparr> in
               do {
                 (a, st) \<leftarrow> (case nt_connect net (fs_world st) fd timeout_ms of
                     (Some e, w) \<Rightarrow> Some (failed (Some e) 0, st\<lparr>fs_world := w\<rparr>)
                   | (None, w) \<Rightarrow> secured_exchange fuel net fd use_tls max_size path host (st\<lparr>fs_world := w\<rparr>));
                 Some (a, st\<lparr>fs_addresses := fs_addresses st - 1, fs_sockets := remove1 fd (fs_sockets st)\<rparr>)
               }))"

section \<open>Redirects\<close>

text \<open>
  \<open>left\<close> is \<open>redirects_left\<close>. The current URL is a block of the heap, freed when it is replaced and
  at the end.
\<close>

fun redirect_loop ::
    "nat \<Rightarrow> 'w network \<Rightarrow> int \<Rightarrow> nat \<Rightarrow> nat \<Rightarrow> string \<Rightarrow> 'w fetch_state \<Rightarrow> ((errno option \<times> string option) \<times> 'w fetch_state) option" where
  "redirect_loop fuel net timeout_ms max_size left url st =
     (case parse_http_url (nt_tls net) 256 8 url of
        Inl e \<Rightarrow> Some ((Some e, None), fetch_free st)
      | Inr u \<Rightarrow> do {
          (a, st) \<leftarrow> do_http_get fuel net (hu_host u) (hu_port u) (hu_path u) (hu_is_https u) timeout_ms max_size st;
          if ha_rc a \<noteq> None then Some ((ha_rc a, None), fetch_free st)
          else case ha_redirect a of
              Some url' \<Rightarrow>
                let st = fetch_free st in
                (case left of 0 \<Rightarrow> Some ((Some ELOOP, None), fetch_free st)
                 | Suc n \<Rightarrow> redirect_loop fuel net timeout_ms max_size n url' st)
            | None \<Rightarrow>
                if ha_status a < 200 \<or> 300 \<le> ha_status a
                then Some ((Some EPROTO, None), fetch_free (if ha_data a = None then st else fetch_free st))
                else Some ((None, ha_data a), fetch_free st)
        })"

declare redirect_loop.simps [simp del]

definition oas_ref_fetch_http ::
    "nat \<Rightarrow> 'w network \<Rightarrow> string option \<Rightarrow> int \<Rightarrow> nat \<Rightarrow> int \<Rightarrow> 'w fetch_state
      \<Rightarrow> ((errno option \<times> string option) \<times> 'w fetch_state) option" where
  "oas_ref_fetch_http fuel net url timeout_ms max_size max_redirects st =
     (case url of
        None \<Rightarrow> Some ((Some EINVAL, None), st)
      | Some u \<Rightarrow>
          let timeout_ms = (if timeout_ms \<le> 0 then OAS_REF_FETCH_DEFAULT_TIMEOUT_MS else timeout_ms);
              max_size = (if max_size = 0 then OAS_REF_FETCH_DEFAULT_MAX_SIZE else max_size);
              max_redirects = (if max_redirects \<le> 0 then OAS_REF_FETCH_DEFAULT_MAX_REDIRECTS else max_redirects)
          in (case fetch_malloc net (length u + 1) st of
                (False, st) \<Rightarrow> Some ((Some ENOMEM, None), st)
              | (True, st) \<Rightarrow> redirect_loop fuel net timeout_ms max_size (nat max_redirects) u st))"

end
