(* ===== verification/Liboas_Fetch_Spec.thy ===== *)
theory Liboas_Fetch_Spec
  imports Liboas_Fetch
begin

text \<open>
  The fetcher comes back, holds nothing afterwards but the body it hands over, and stays within its
  limits of size and redirects.
\<close>

section \<open>What a step holds\<close>

text \<open>Of the network only this is used: a read gives no more bytes than were asked for.\<close>

definition recv_ok :: "'w network \<Rightarrow> bool" where
  "recv_ok net \<longleftrightarrow> (\<forall>w fd tls n chunk w'. nt_recv net w fd tls n = (Inr chunk, w') \<longrightarrow> length chunk \<le> n)"

text \<open>After a step: nothing more held than \<open>k\<close> heap blocks, and these hosts contacted before the older ones.\<close>

definition holds_more :: "nat \<Rightarrow> (string \<times> string) list \<Rightarrow> 'w fetch_state \<Rightarrow> 'w fetch_state \<Rightarrow> bool" where
  "holds_more k hs st st' \<longleftrightarrow> fs_sockets st' = fs_sockets st \<and> fs_addresses st' = fs_addresses st \<and>
     fs_tls st' = fs_tls st \<and> fs_blocks st' = fs_blocks st + k \<and> fs_contacted st' = hs @ fs_contacted st"

lemma holds_more_world [simp]: "holds_more k hs st (st'\<lparr>fs_world := w\<rparr>) \<longleftrightarrow> holds_more k hs st st'"
  "holds_more k hs (st\<lparr>fs_world := w\<rparr>) st' \<longleftrightarrow> holds_more k hs st st'"
  by (simp_all add: holds_more_def)

lemma holds_nothing [simp]: "holds_more 0 [] st st"
  by (simp add: holds_more_def)

lemma holds_trans: "holds_more k hs st st' \<Longrightarrow> holds_more l gs st' st'' \<Longrightarrow> holds_more (k + l) (gs @ hs) st st''"
  by (simp add: holds_more_def)

lemma holds_free: "holds_more (Suc k) hs st st' \<Longrightarrow> holds_more k hs st (fetch_free st')"
  by (simp add: holds_more_def fetch_free_def)

lemma malloc_holds: "fetch_malloc net n st = (ok, st') \<Longrightarrow> holds_more (if ok then 1 else 0) [] st st'"
  by (auto simp: fetch_malloc_def holds_more_def split: prod.splits)

text \<open>The sizes the buffer takes: doublings of the first that stay below the limit.\<close>

definition buffer_size :: "nat \<Rightarrow> nat \<Rightarrow> bool" where
  "buffer_size max_size sz \<longleftrightarrow> (\<exists>k. sz = OAS_REF_FETCH_INIT_BUF * 2 ^ k) \<and> sz \<le> max_size + OAS_REF_FETCH_INIT_BUF"

lemma buffer_size_pos: "buffer_size max_size sz \<Longrightarrow> 4096 \<le> sz"
  by (auto simp: buffer_size_def OAS_REF_FETCH_INIT_BUF_def)

lemma buffer_size_first: "buffer_size max_size OAS_REF_FETCH_INIT_BUF"
  unfolding buffer_size_def by (intro conjI exI [of _ 0]) simp_all

lemma buffer_size_grown:
  assumes "buffer_size max_size sz" and "\<not> (max_size + OAS_REF_FETCH_INIT_BUF) mod 2 ^ 64 < sz * 2"
  shows "buffer_size max_size (sz * 2)"
proof -
  have "sz * 2 \<le> max_size + OAS_REF_FETCH_INIT_BUF"
    using assms(2) mod_less_eq_dividend [of "max_size + OAS_REF_FETCH_INIT_BUF" "2 ^ 64"] by linarith
  moreover obtain k where "sz = OAS_REF_FETCH_INIT_BUF * 2 ^ k" using assms(1) by (auto simp: buffer_size_def)
  then have "sz * 2 = OAS_REF_FETCH_INIT_BUF * 2 ^ Suc k" by simp
  ultimately show ?thesis unfolding buffer_size_def by blast
qed

lemma grow_buffer_room:
  assumes "buffer_size max_size sz" and "n < sz" and "grow_buffer net max_size sz n st = (r, st')"
  shows "holds_more 0 [] st st' \<and> (\<forall>sz'. r = Inr sz' \<longrightarrow> buffer_size max_size sz' \<and> n + 1 < sz')"
  using assms buffer_size_pos [OF assms(1)] buffer_size_grown [OF assms(1)]
  by (auto simp: grow_buffer_def split: if_splits prod.splits)

text \<open>One unit of fuel per byte below the limit is enough: every round receives something.\<close>

lemma read_loop_returns:
  assumes "recv_ok net" and "buffer_size max_size sz" and "length got < sz"
    and "max_size + OAS_REF_FETCH_INIT_BUF - length got < fuel"
  shows "\<exists>r st'. read_loop fuel net fd tls max_size sz got st = Some (r, st') \<and> holds_more 0 [] st st' \<and>
    (\<forall>buf. r = Inr buf \<longrightarrow> (\<exists>sz'. buffer_size max_size sz' \<and> length buf < sz'))"
  using assms(2-)
proof (induction fuel arbitrary: sz got st)
  case 0
  then show ?case by simp
next
  case (Suc fuel)
  obtain r st1 where g: "grow_buffer net max_size sz (length got) st = (r, st1)" by fastforce
  note room = grow_buffer_room [OF Suc.prems(1,2) g]
  show ?case
  proof (cases r)
    case (Inl e)
    then show ?thesis using g room by simp
  next
    case (Inr sz')
    then have sz': "buffer_size max_size sz'" "length got + 1 < sz'" using room by auto
    obtain c w where c: "nt_recv net (fs_world st1) fd tls (sz' - length got - 1) = (c, w)" by fastforce
    show ?thesis
    proof (cases c)
      case (Inl e)
      then show ?thesis using g Inr c room by simp
    next
      case (Inr chunk)
      note r = \<open>r = Inr sz'\<close>
      have le: "length chunk \<le> sz' - length got - 1" using assms(1) c Inr unfolding recv_ok_def by blast
      show ?thesis
      proof (cases "chunk = []")
        case True
        then show ?thesis using g r c Inr room sz' by auto
      next
        case False
        then have "0 < length chunk" by simp
        have less: "length (got @ chunk) < sz'" using le sz'(2) by simp
        have "max_size + OAS_REF_FETCH_INIT_BUF - length (got @ chunk) < fuel"
        proof -
          have "length got < max_size + OAS_REF_FETCH_INIT_BUF" using sz' by (simp add: buffer_size_def)
          moreover have "length (got @ chunk) = length got + length chunk" by simp
          ultimately show ?thesis using Suc.prems(3) \<open>0 < length chunk\<close> by linarith
        qed
        from Suc.IH [OF sz'(1) less this, of "st1\<lparr>fs_world := w\<rparr>"]
        obtain r' st' where rst: "read_loop fuel net fd tls max_size sz' (got @ chunk) (st1\<lparr>fs_world := w\<rparr>) = Some (r', st')"
          "holds_more 0 [] st1 st'" "\<forall>buf. r' = Inr buf \<longrightarrow> (\<exists>sz'. buffer_size max_size sz' \<and> length buf < sz')"
          by auto
        have "holds_more 0 [] st st'" using holds_trans [of 0 "[]" st st1 0 "[]" st'] room rst(2) by simp
        then show ?thesis using g r c Inr False rst by simp
      qed
    qed
  qed
qed

section \<open>One exchange\<close>

definition answer_blocks :: "http_answer \<Rightarrow> nat" where
  "answer_blocks a = (if ha_redirect a = None then 0 else 1) + (if ha_data a = None then 0 else 1)"

text \<open>What an answer is like: an error carries nothing, a body is within the limits, and a success has one.\<close>

definition answer_ok :: "nat \<Rightarrow> http_answer \<Rightarrow> bool" where
  "answer_ok max_size a \<longleftrightarrow>
     (ha_rc a \<noteq> None \<longrightarrow> ha_redirect a = None \<and> ha_data a = None) \<and>
     (\<forall>d. ha_data a = Some d \<longrightarrow> ha_redirect a = None \<and> length d \<le> max_size \<and>
        (\<exists>sz. buffer_size max_size sz \<and> length d < sz)) \<and>
     (ha_rc a = None \<and> 200 \<le> ha_status a \<and> ha_status a < 300 \<longrightarrow> ha_data a \<noteq> None)"

lemma failed_ok: "rc \<noteq> None \<or> s < 200 \<or> 300 \<le> s \<Longrightarrow> answer_ok max_size (failed rc s) \<and> answer_blocks (failed rc s) = 0"
  by (auto simp: answer_ok_def answer_blocks_def failed_def)

lemma send_request_holds: "send_request net fd tls path host st = (rc, st') \<Longrightarrow> holds_more 0 [] st st'"
  by (auto simp: send_request_def Let_def split: if_splits prod.splits)

lemma redirect_status_range: "redirect_status s \<Longrightarrow> \<not> (200 \<le> s \<and> s < 300)"
  by (auto simp: redirect_status_def)

lemma take_response_ok:
  assumes "take_response net max_size buf st = (a, st')" and "buffer_size max_size sz" and "length buf < sz"
  shows "holds_more (answer_blocks a) [] st st' \<and> answer_ok max_size a"
proof (cases "strstr (cstr buf) (CRLF @ CRLF)")
  case None
  then show ?thesis using assms(1) failed_ok [of "Some EPROTO" 0 max_size] by (auto simp: take_response_def)
next
  case (Some i)
  let ?s = "parse_status_code (cstr buf)" and ?body = "drop (i + 4) buf"
  consider (bad) "?s < 0" | (redirect) "\<not> ?s < 0" "redirect_status ?s" | (body) "\<not> ?s < 0" "\<not> redirect_status ?s" by blast
  then show ?thesis
  proof cases
    case bad
    then show ?thesis using assms(1) Some failed_ok [of "Some EPROTO" ?s max_size] by (auto simp: take_response_def Let_def)
  next
    case redirect
    show ?thesis
    proof (cases "http_header (cstr buf) ''Location''")
      case None
      have "?s < 200 \<or> 300 \<le> ?s" using redirect_status_range [OF redirect(2)] by linarith
      then have "answer_ok max_size (failed None ?s) \<and> answer_blocks (failed None ?s) = 0" by (intro failed_ok) simp
      moreover have "a = failed None ?s" "st' = st"
        using assms(1) Some redirect None by (auto simp: take_response_def Let_def)
      ultimately show ?thesis by simp
    next
      case (Some loc)
      obtain ok st1 where m: "fetch_malloc net (length (header_value loc) + 1) st = (ok, st1)" by fastforce
      have "a = (failed None ?s)\<lparr>ha_redirect := (if ok then Some (header_value loc) else None)\<rparr>" "st' = st1"
        using assms(1) Some redirect m \<open>strstr (cstr buf) (CRLF @ CRLF) = Some i\<close> by (auto simp: take_response_def Let_def)
      then show ?thesis using malloc_holds [OF m] redirect_status_range [OF redirect(2)]
        by (auto simp: answer_ok_def answer_blocks_def failed_def)
    qed
  next
    case body
    show ?thesis
    proof (cases "max_size < length ?body")
      case True
      then show ?thesis using assms(1) Some body failed_ok [of "Some EFBIG" ?s max_size]
        by (auto simp: take_response_def Let_def)
    next
      case False
      obtain ok st1 where m: "fetch_malloc net (length ?body + 1) st = (ok, st1)" by fastforce
      have "a = (if ok then (failed None ?s)\<lparr>ha_data := Some ?body\<rparr> else failed (Some ENOMEM) ?s)" "st' = st1"
        using assms(1) Some body False m by (auto simp: take_response_def Let_def split: if_splits)
      then show ?thesis using malloc_holds [OF m] False assms(2,3) failed_ok [of "Some ENOMEM" ?s max_size]
        by (auto simp: answer_ok_def answer_blocks_def failed_def intro!: exI [of _ sz])
    qed
  qed
qed

lemma exchange_ok:
  assumes "recv_ok net" and "max_size + OAS_REF_FETCH_INIT_BUF < fuel"
  shows "\<exists>a st'. exchange fuel net fd tls max_size path host st = Some (a, st') \<and>
    holds_more (answer_blocks a) [] st st' \<and> answer_ok max_size a"
proof -
  obtain rc st1 where s: "send_request net fd tls path host st = (rc, st1)" by fastforce
  note h1 = send_request_holds [OF s]
  show ?thesis
  proof (cases rc)
    case (Some e)
    then show ?thesis using s h1 failed_ok [of "Some e" 0 max_size] by (auto simp: exchange_def)
  next
    case None
    obtain ok st2 where m: "fetch_malloc net OAS_REF_FETCH_INIT_BUF st1 = (ok, st2)" by fastforce
    have h2: "holds_more (if ok then 1 else 0) [] st st2" using holds_trans [OF h1 malloc_holds [OF m]] by simp
    show ?thesis
    proof (cases ok)
      case False
      then show ?thesis using s None m h2 failed_ok [of "Some ENOMEM" 0 max_size] by (auto simp: exchange_def)
    next
      case True
      have "length [] < OAS_REF_FETCH_INIT_BUF" by (simp add: OAS_REF_FETCH_INIT_BUF_def)
      from read_loop_returns [OF assms(1) buffer_size_first this, of max_size fuel fd tls st2] assms(2)
      obtain r st3 where r: "read_loop fuel net fd tls max_size OAS_REF_FETCH_INIT_BUF [] st2 = Some (r, st3)"
        "holds_more 0 [] st2 st3" "\<forall>buf. r = Inr buf \<longrightarrow> (\<exists>sz'. buffer_size max_size sz' \<and> length buf < sz')"
        by auto
      obtain a st4 where a: "(case r of Inl e \<Rightarrow> (failed e 0, st3) | Inr buf \<Rightarrow> take_response net max_size buf st3) = (a, st4)"
        by fastforce
      have "holds_more (answer_blocks a) [] st3 st4 \<and> answer_ok max_size a"
      proof (cases r)
        case (Inl e)
        then show ?thesis using a failed_ok [of e 0 max_size] by auto
      next
        case (Inr buf)
        then obtain sz' where "buffer_size max_size sz'" "length buf < sz'" using r(3) by blast
        then show ?thesis using a Inr take_response_ok [of net max_size buf st3 a st4 sz'] by simp
      qed
      moreover have "holds_more 1 [] st st3" using holds_trans [OF h2 r(2)] True by simp
      ultimately have "holds_more (answer_blocks a) [] st (fetch_free st4)" "answer_ok max_size a"
        using holds_trans [of 1 "[]" st st3 "answer_blocks a" "[]" st4] holds_free by auto
      moreover have "exchange fuel net fd tls max_size path host st = Some (a, fetch_free st4)"
        using s None m True r(1) a by (simp add: exchange_def)
      ultimately show ?thesis by blast
    qed
  qed
qed

lemma secured_exchange_ok:
  assumes "recv_ok net" and "max_size + OAS_REF_FETCH_INIT_BUF < fuel"
  shows "\<exists>a st'. secured_exchange fuel net fd use_tls max_size path host st = Some (a, st') \<and>
    holds_more (answer_blocks a) [] st st' \<and> answer_ok max_size a"
proof (cases "nt_tls net \<and> use_tls")
  case False
  then show ?thesis using exchange_ok [OF assms] by (simp add: secured_exchange_def)
next
  case True
  obtain ok w where c: "nt_tls_create net (fs_world st) = (ok, w)" by fastforce
  show ?thesis
  proof (cases ok)
    case False
    then show ?thesis using True c failed_ok [of "Some ENOMEM" 0 max_size] by (auto simp: secured_exchange_def)
  next
    case ok: True
    let ?st1 = "st\<lparr>fs_world := w, fs_tls := fs_tls st + 1\<rparr>"
    obtain e w2 where t: "nt_tls_connect net w fd host = (e, w2)" by fastforce
    show ?thesis
    proof (cases e)
      case (Some e')
      then show ?thesis using True ok c t failed_ok [of "Some e'" 0 max_size]
        by (auto simp: secured_exchange_def holds_more_def)
    next
      case None
      from exchange_ok [OF assms, of fd True path host "?st1\<lparr>fs_world := w2\<rparr>"]
      obtain a st' where x: "exchange fuel net fd True max_size path host (?st1\<lparr>fs_world := w2\<rparr>) = Some (a, st')"
        "holds_more (answer_blocks a) [] (?st1\<lparr>fs_world := w2\<rparr>) st'" "answer_ok max_size a"
        by blast
      have "secured_exchange fuel net fd use_tls max_size path host st = Some (a, st'\<lparr>fs_tls := fs_tls st' - 1\<rparr>)"
        using True ok c t None x(1) by (simp add: secured_exchange_def)
      moreover have "holds_more (answer_blocks a) [] st (st'\<lparr>fs_tls := fs_tls st' - 1\<rparr>)"
        using x(2) by (simp add: holds_more_def)
      ultimately show ?thesis using x(3) by blast
    qed
  qed
qed

lemma do_http_get_ok:
  assumes "recv_ok net" and "max_size + OAS_REF_FETCH_INIT_BUF < fuel"
  shows "\<exists>a st'. do_http_get fuel net host port path use_tls timeout_ms max_size st = Some (a, st') \<and>
    holds_more (answer_blocks a) [(host, port)] st st' \<and> answer_ok max_size a"
proof -
  let ?st0 = "st\<lparr>fs_contacted := (host, port) # fs_contacted st\<rparr>"
  have start: "fs_sockets ?st0 = fs_sockets st" "fs_addresses ?st0 = fs_addresses st" "fs_tls ?st0 = fs_tls st"
    "fs_blocks ?st0 = fs_blocks st" by simp_all
  obtain found w where r: "nt_resolve net (fs_world st) host port = (found, w)" by fastforce
  show ?thesis
  proof (cases found)
    case False
    then show ?thesis using r failed_ok [of "Some EHOSTUNREACH" 0 max_size]
      by (auto simp: do_http_get_def Let_def holds_more_def)
  next
    case True
    obtain s w2 where s: "nt_socket net w = (s, w2)" by fastforce
    show ?thesis
    proof (cases s)
      case (Inl e)
      then show ?thesis using r True s failed_ok [of "Some e" 0 max_size]
        by (auto simp: do_http_get_def Let_def holds_more_def)
    next
      case (Inr fd)
      let ?st2 = "st\<lparr>fs_contacted := (host, port) # fs_contacted st,
        fs_addresses := fs_addresses st + 1, fs_world := w2, fs_sockets := fd # fs_sockets st\<rparr>"
      let ?run = "case nt_connect net w2 fd timeout_ms of
          (Some e, w) \<Rightarrow> Some (failed (Some e) 0, ?st2\<lparr>fs_world := w\<rparr>)
        | (None, w) \<Rightarrow> secured_exchange fuel net fd use_tls max_size path host (?st2\<lparr>fs_world := w\<rparr>)"
      obtain e w3 where c: "nt_connect net w2 fd timeout_ms = (e, w3)" by fastforce
      have "\<exists>a st'. ?run = Some (a, st') \<and> holds_more (answer_blocks a) [] ?st2 st' \<and> answer_ok max_size a"
      proof (cases e)
        case (Some e')
        then show ?thesis using c failed_ok [of "Some e'" 0 max_size] by (auto simp: holds_more_def)
      next
        case None
        then show ?thesis using c secured_exchange_ok [OF assms, of fd use_tls path host "?st2\<lparr>fs_world := w3\<rparr>"]
          by (auto simp: holds_more_def)
      qed
      then obtain a st' where x: "?run = Some (a, st')" "holds_more (answer_blocks a) [] ?st2 st'" "answer_ok max_size a"
        by blast
      let ?fin = "st'\<lparr>fs_addresses := fs_addresses st' - 1, fs_sockets := remove1 fd (fs_sockets st')\<rparr>"
      have "do_http_get fuel net host port path use_tls timeout_ms max_size st = Some (a, ?fin)"
        using r True s Inr c x(1) by (cases e) (simp_all add: do_http_get_def Let_def)
      moreover have "holds_more (answer_blocks a) [(host, port)] st ?fin" using x(2) by (simp add: holds_more_def)
      ultimately show ?thesis using x(3) by blast
    qed
  qed
qed

section \<open>Redirects\<close>

text \<open>What a whole fetch gives, from a state that holds the current URL in a block of its own.\<close>

definition fetch_ok :: "nat \<Rightarrow> errno option \<Rightarrow> string option \<Rightarrow> bool" where
  "fetch_ok max_size rc data \<longleftrightarrow> (rc = None) = (data \<noteq> None) \<and>
     (\<forall>d. data = Some d \<longrightarrow> length d \<le> max_size \<and> (\<exists>sz. buffer_size max_size sz \<and> length d < sz))"

lemma redirect_loop_ok:
  assumes "recv_ok net" and "max_size + OAS_REF_FETCH_INIT_BUF < fuel"
  shows "holds_more 1 gs st0 st \<Longrightarrow>
    \<exists>rc d st' hs. redirect_loop fuel net timeout_ms max_size left url st = Some ((rc, d), st') \<and>
      holds_more (if d = None then 0 else 1) (hs @ gs) st0 st' \<and> length hs \<le> left + 1 \<and> fetch_ok max_size rc d"
proof (induction left arbitrary: url st gs rule: less_induct)
  case (less left)
  show ?case
  proof (cases "parse_http_url (nt_tls net) 256 8 url")
    case (Inl e)
    then have "redirect_loop fuel net timeout_ms max_size left url st = Some ((Some e, None), fetch_free st)"
      by (simp add: redirect_loop.simps)
    then show ?thesis using holds_free [of 0 gs st0 st] less.prems
      by (intro exI [of _ "Some e"] exI [of _ None] exI [of _ "fetch_free st"] exI [of _ "[]"]) (simp add: fetch_ok_def)
  next
    case (Inr u)
    obtain a st1 where a: "do_http_get fuel net (hu_host u) (hu_port u) (hu_path u) (hu_is_https u) timeout_ms max_size st = Some (a, st1)"
      "holds_more (answer_blocks a) [(hu_host u, hu_port u)] st st1" "answer_ok max_size a"
      using do_http_get_ok [OF assms] by blast
    let ?h = "(hu_host u, hu_port u) # gs"
    have h: "holds_more (1 + answer_blocks a) ?h st0 st1" using holds_trans [OF less.prems a(2)] by simp
    consider (bad) "ha_rc a \<noteq> None" | (redirect) url' where "ha_rc a = None" "ha_redirect a = Some url'"
      | (status) "ha_rc a = None" "ha_redirect a = None" "ha_status a < 200 \<or> 300 \<le> ha_status a"
      | (good) "ha_rc a = None" "ha_redirect a = None" "\<not> (ha_status a < 200 \<or> 300 \<le> ha_status a)"
      by (cases "ha_redirect a") auto
    then show ?thesis
    proof cases
      case bad
      then have "answer_blocks a = 0" using a(3) by (simp add: answer_ok_def answer_blocks_def)
      then have "holds_more 0 ?h st0 (fetch_free st1)" using h holds_free by simp
      moreover have "redirect_loop fuel net timeout_ms max_size left url st = Some ((ha_rc a, None), fetch_free st1)"
        using Inr a(1) bad by (simp add: redirect_loop.simps)
      ultimately show ?thesis using bad
        by (intro exI [of _ "ha_rc a"] exI [of _ None] exI [of _ "fetch_free st1"] exI [of _ "[(hu_host u, hu_port u)]"]) (simp add: fetch_ok_def)
    next
      case redirect
      then have "ha_data a = None" using a(3) by (auto simp: answer_ok_def)
      then have h1: "holds_more 1 ?h st0 (fetch_free st1)" using h redirect holds_free [of 1 ?h st0 st1] by (simp add: answer_blocks_def)
      show ?thesis
      proof (cases left)
        case 0
        then have "redirect_loop fuel net timeout_ms max_size left url st = Some ((Some ELOOP, None), fetch_free (fetch_free st1))"
          using Inr a(1) redirect by (simp add: redirect_loop.simps)
        moreover have "holds_more 0 ?h st0 (fetch_free (fetch_free st1))" using holds_free [of 0 ?h] h1 by simp
        ultimately show ?thesis
          by (intro exI [of _ "Some ELOOP"] exI [of _ None] exI [of _ "fetch_free (fetch_free st1)"] exI [of _ "[(hu_host u, hu_port u)]"]) (simp add: fetch_ok_def)
      next
        case (Suc n)
        have "n < left" using Suc by simp
        from less.IH [OF this h1, of url']
        obtain rc d st2 hs where r: "redirect_loop fuel net timeout_ms max_size n url' (fetch_free st1) = Some ((rc, d), st2)"
          "holds_more (if d = None then 0 else 1) (hs @ ?h) st0 st2" "length hs \<le> n + 1" "fetch_ok max_size rc d"
          by blast
        have "redirect_loop fuel net timeout_ms max_size left url st = Some ((rc, d), st2)"
          using Inr a(1) redirect Suc r(1) by (simp add: redirect_loop.simps [of fuel net timeout_ms max_size "Suc n"] Let_def)
        then show ?thesis using r Suc
          by (intro exI [of _ rc] exI [of _ d] exI [of _ st2] exI [of _ "hs @ [(hu_host u, hu_port u)]"]) simp
      qed
    next
      case status
      let ?fin = "fetch_free (if ha_data a = None then st1 else fetch_free st1)"
      have "redirect_loop fuel net timeout_ms max_size left url st = Some ((Some EPROTO, None), ?fin)"
        using Inr a(1) status by (simp add: redirect_loop.simps)
      moreover have "holds_more 0 ?h st0 ?fin"
        using h status(2) by (cases "ha_data a") (auto simp: answer_blocks_def intro!: holds_free)
      ultimately show ?thesis
        by (intro exI [of _ "Some EPROTO"] exI [of _ None] exI [of _ ?fin] exI [of _ "[(hu_host u, hu_port u)]"]) (simp add: fetch_ok_def)
    next
      case good
      then obtain d where d: "ha_data a = Some d" using a(3) by (auto simp: answer_ok_def)
      have "redirect_loop fuel net timeout_ms max_size left url st = Some ((None, Some d), fetch_free st1)"
        using Inr a(1) good d by (simp add: redirect_loop.simps)
      moreover have "holds_more 1 ?h st0 (fetch_free st1)"
        using h good(2) d holds_free [of 1 ?h st0 st1] by (simp add: answer_blocks_def)
      ultimately show ?thesis using a(3) d
        by (intro exI [of _ None] exI [of _ "Some d"] exI [of _ "fetch_free st1"] exI [of _ "[(hu_host u, hu_port u)]"])
          (simp add: fetch_ok_def answer_ok_def)
    qed
  qed
qed

section \<open>The fetch\<close>

text \<open>The limits the arguments stand for.\<close>

definition size_limit :: "nat \<Rightarrow> nat" where
  "size_limit max_size = (if max_size = 0 then OAS_REF_FETCH_DEFAULT_MAX_SIZE else max_size)"

definition redirect_limit :: "int \<Rightarrow> nat" where
  "redirect_limit n = (if n \<le> 0 then 5 else nat n)"

lemma fetch_http_ok:
  assumes "recv_ok net" and "size_limit max_size + OAS_REF_FETCH_INIT_BUF < fuel"
  shows "\<exists>rc d st' hs. oas_ref_fetch_http fuel net url timeout_ms max_size max_redirects st = Some ((rc, d), st') \<and>
    holds_more (if d = None then 0 else 1) hs st st' \<and> length hs \<le> redirect_limit max_redirects + 1 \<and>
    fetch_ok (size_limit max_size) rc d"
proof (cases url)
  case None
  then show ?thesis
    by (intro exI [of _ "Some EINVAL"] exI [of _ None] exI [of _ st] exI [of _ "[]"])
      (simp add: oas_ref_fetch_http_def fetch_ok_def)
next
  case (Some u)
  obtain ok st1 where m: "fetch_malloc net (length u + 1) st = (ok, st1)" by fastforce
  note h = malloc_holds [OF m]
  show ?thesis
  proof (cases ok)
    case False
    then show ?thesis using Some m h
      by (intro exI [of _ "Some ENOMEM"] exI [of _ None] exI [of _ st1] exI [of _ "[]"])
        (simp add: oas_ref_fetch_http_def Let_def fetch_ok_def)
  next
    case True
    let ?t = "if timeout_ms \<le> 0 then OAS_REF_FETCH_DEFAULT_TIMEOUT_MS else timeout_ms"
    have "oas_ref_fetch_http fuel net url timeout_ms max_size max_redirects st =
        redirect_loop fuel net ?t (size_limit max_size) (redirect_limit max_redirects) u st1"
      using Some m True
      by (simp add: oas_ref_fetch_http_def Let_def size_limit_def redirect_limit_def OAS_REF_FETCH_DEFAULT_MAX_REDIRECTS_def)
    then show ?thesis using redirect_loop_ok [OF assms, of "[]" st st1 ?t "redirect_limit max_redirects" u] h True by simp
  qed
qed

text \<open>
  C34. The fetcher comes back and lets everything go. With a network whose reads give at most what was
  asked for, one unit of fuel per byte of the limit is enough for \<open>oas_ref_fetch_http\<close> to return. It returns 0 exactly
  when it hands over a body; afterwards no socket, address list, TLS context or heap block is held that was not
  before, but the body; the body is within the size limit; and at most one host more than the
  redirects allowed was contacted.
\<close>

theorem fetch_returns_and_releases:
  assumes "recv_ok net" and "size_limit max_size + OAS_REF_FETCH_INIT_BUF < fuel"
  shows "\<exists>rc d st'. oas_ref_fetch_http fuel net url timeout_ms max_size max_redirects st = Some ((rc, d), st') \<and>
    (rc = None \<longleftrightarrow> d \<noteq> None) \<and>
    fs_sockets st' = fs_sockets st \<and> fs_addresses st' = fs_addresses st \<and> fs_tls st' = fs_tls st \<and>
    fs_blocks st' = fs_blocks st + (if d = None then 0 else 1) \<and>
    (\<forall>b. d = Some b \<longrightarrow> length b \<le> size_limit max_size) \<and>
    length (fs_contacted st') \<le> length (fs_contacted st) + redirect_limit max_redirects + 1"
proof -
  obtain rc d st' hs where r: "oas_ref_fetch_http fuel net url timeout_ms max_size max_redirects st = Some ((rc, d), st')"
    and h: "holds_more (if d = None then 0 else 1) hs st st'" and n: "length hs \<le> redirect_limit max_redirects + 1"
    and ok: "fetch_ok (size_limit max_size) rc d"
    using fetch_http_ok [OF assms] by blast
  show ?thesis
    by (intro exI [of _ rc] exI [of _ d] exI [of _ st']) (use r h n ok in \<open>simp add: holds_more_def fetch_ok_def\<close>)
qed

text \<open>
  The limit is not reached: the buffer only doubles, so with the default of ten megabytes no body
  of 8388608 bytes or rst is ever handed over.
\<close>

theorem fetch_default_limit:
  assumes "recv_ok net" and "OAS_REF_FETCH_DEFAULT_MAX_SIZE + OAS_REF_FETCH_INIT_BUF < fuel"
    and "oas_ref_fetch_http fuel net url timeout_ms 0 max_redirects st = Some ((rc, Some d), st')"
  shows "length d < 8388608"
proof -
  have "fetch_ok (size_limit 0) rc (Some d)"
    using fetch_http_ok [OF assms(1), of 0 fuel url timeout_ms max_redirects st] assms(2,3) by (auto simp: size_limit_def)
  then obtain k where k: "length d < OAS_REF_FETCH_INIT_BUF * 2 ^ k"
    "OAS_REF_FETCH_INIT_BUF * 2 ^ k \<le> size_limit 0 + OAS_REF_FETCH_INIT_BUF"
    by (auto simp: fetch_ok_def buffer_size_def)
  have "k < 12"
  proof (rule ccontr)
    assume "\<not> k < 12"
    then have "(2::nat) ^ 12 \<le> 2 ^ k" by (intro power_increasing) simp_all
    then show False using k(2) by (simp add: size_limit_def OAS_REF_FETCH_DEFAULT_MAX_SIZE_def OAS_REF_FETCH_INIT_BUF_def)
  qed
  then have "(2::nat) ^ k \<le> 2 ^ 11" by (intro power_increasing) simp_all
  then show ?thesis using k(1) by (simp add: OAS_REF_FETCH_INIT_BUF_def)
qed

text \<open>A network that answers every request with one small response.\<close>

definition sample_response :: string where
  "sample_response = ''HTTP/1.1 200 OK'' @ CRLF @ CRLF @ ''{}''"

definition sample_net :: "string network" where
  "sample_net =
     \<lparr>nt_tls = False, nt_resolve = (\<lambda>w h p. (True, sample_response)), nt_socket = (\<lambda>w. (Inr 3, w)),
      nt_connect = (\<lambda>w fd t. (None, w)), nt_tls_create = (\<lambda>w. (False, w)), nt_tls_connect = (\<lambda>w fd h. (None, w)),
      nt_send = (\<lambda>w fd tls r. (Inr (length r), sample_response)), nt_recv = (\<lambda>w fd tls n. (Inr (take n w), drop n w)),
      nt_malloc = (\<lambda>w n. (True, w))\<rparr>"

definition sample_fetch_state :: "string fetch_state" where
  "sample_fetch_state = \<lparr>fs_world = [], fs_sockets = [], fs_addresses = 0, fs_tls = 0, fs_blocks = 0, fs_contacted = []\<rparr>"

lemma sample_net_ok: "recv_ok sample_net"
  by (auto simp: recv_ok_def sample_net_def)

theorem fetch_returns_and_releases_witness:
  "\<exists>rc d st'. oas_ref_fetch_http 5000 sample_net (Some ''http://h/a'') 0 100 0 sample_fetch_state = Some ((rc, d), st') \<and>
     fs_sockets st' = [] \<and> length (fs_contacted st') \<le> 6"
  using fetch_returns_and_releases [OF sample_net_ok, of 100 5000 "Some ''http://h/a''" 0 0 sample_fetch_state]
  by (auto simp: size_limit_def redirect_limit_def OAS_REF_FETCH_INIT_BUF_def sample_fetch_state_def)

section \<open>What is fetched\<close>

text \<open>
  A server behind the network: names resolve, connections are made, memory is granted, a request is taken
  whole, and then the bytes of its answer arrive in pieces of any size until they are all there.
\<close>

definition serves :: "'w network \<Rightarrow> ('w \<Rightarrow> string) \<Rightarrow> (string \<Rightarrow> string) \<Rightarrow> bool" where
  "serves net pending answer \<longleftrightarrow>
     (\<forall>w h p. fst (nt_resolve net w h p)) \<and>
     (\<forall>w. \<exists>fd w'. nt_socket net w = (Inr fd, w')) \<and>
     (\<forall>w fd t. fst (nt_connect net w fd t) = None) \<and>
     (\<forall>w fd r. \<exists>w'. nt_send net w fd False r = (Inr (length r), w') \<and> pending w' = answer r) \<and>
     (\<forall>w n. \<exists>w'. nt_malloc net w n = (True, w') \<and> pending w' = pending w) \<and>
     (\<forall>w fd n. \<exists>chunk w'. nt_recv net w fd False n = (Inr chunk, w') \<and> pending w = chunk @ pending w' \<and>
        length chunk \<le> n \<and> (0 < n \<and> chunk = [] \<longrightarrow> pending w = []))"

lemma servesD:
  assumes "serves net pending answer"
  shows "\<exists>w'. nt_send net w fd False r = (Inr (length r), w') \<and> pending w' = answer r"
    and "\<exists>w'. nt_malloc net w n = (True, w') \<and> pending w' = pending w"
    and "\<exists>chunk w'. nt_recv net w fd False n = (Inr chunk, w') \<and> pending w = chunk @ pending w' \<and>
        length chunk \<le> n \<and> (0 < n \<and> chunk = [] \<longrightarrow> pending w = [])"
    and "\<exists>w'. nt_resolve net w h p = (True, w')"
    and "\<exists>fd w'. nt_socket net w = (Inr fd, w')"
    and "\<exists>w'. nt_connect net w fd t = (None, w')"
  using assms unfolding serves_def by (simp_all add: prod_eq_iff)

lemma buffer_doubles:
  assumes "sz = OAS_REF_FETCH_INIT_BUF * 2 ^ j" and "S = OAS_REF_FETCH_INIT_BUF * 2 ^ k" and "sz < S"
  shows "sz * 2 \<le> S"
proof -
  have "(2::nat) ^ j < 2 ^ k" using assms by (simp add: OAS_REF_FETCH_INIT_BUF_def)
  then have "j < k" by simp
  then have "(2::nat) ^ Suc j \<le> 2 ^ k" by (intro power_increasing) simp_all
  then show ?thesis using assms(1,2) by simp
qed

lemma read_loop_serves:
  assumes "serves net pending answer" and "S = OAS_REF_FETCH_INIT_BUF * 2 ^ k"
    and "S \<le> max_size + OAS_REF_FETCH_INIT_BUF" and "max_size + OAS_REF_FETCH_INIT_BUF < 2 ^ 64"
  shows "sz = OAS_REF_FETCH_INIT_BUF * 2 ^ j \<Longrightarrow> sz \<le> S \<Longrightarrow> length got < sz \<Longrightarrow>
    length got + length (pending (fs_world st)) + 1 < S \<Longrightarrow> length (pending (fs_world st)) < fuel \<Longrightarrow>
    \<exists>st'. read_loop fuel net fd False max_size sz got st = Some (Inr (got @ pending (fs_world st)), st')"
proof (induction fuel arbitrary: sz j got st)
  case 0
  then show ?case by simp
next
  case (Suc fuel)
  have pos: "4096 \<le> sz" using Suc.prems(1) by (simp add: OAS_REF_FETCH_INIT_BUF_def)
  obtain sz' j' st1 where g: "grow_buffer net max_size sz (length got) st = (Inr sz', st1)"
    "sz' = OAS_REF_FETCH_INIT_BUF * 2 ^ j'" "sz' \<le> S" "length got + 1 < sz'" "pending (fs_world st1) = pending (fs_world st)"
  proof (cases "length got < sz - 1")
    case True
    then show thesis using that [of sz st j] Suc.prems pos by (simp add: grow_buffer_def)
  next
    case False
    then have "sz < S" using Suc.prems(3,4) by simp
    then have d: "sz * 2 \<le> S" by (rule buffer_doubles [OF Suc.prems(1) assms(2)])
    then have "\<not> (max_size + OAS_REF_FETCH_INIT_BUF) mod 2 ^ 64 < sz * 2" using assms(3,4) by simp
    moreover obtain w where "nt_malloc net (fs_world st) (sz * 2) = (True, w)" "pending w = pending (fs_world st)"
      using servesD(2) [OF assms(1)] by blast
    ultimately have "grow_buffer net max_size sz (length got) st = (Inr (sz * 2), st\<lparr>fs_world := w\<rparr>)"
      using False by (simp add: grow_buffer_def)
    then show thesis using that [of "sz * 2" "st\<lparr>fs_world := w\<rparr>" "Suc j"] Suc.prems pos d \<open>pending w = pending (fs_world st)\<close>
      by simp
  qed
  obtain chunk w where c: "nt_recv net (fs_world st1) fd False (sz' - length got - 1) = (Inr chunk, w)"
    "pending (fs_world st1) = chunk @ pending w" "length chunk \<le> sz' - length got - 1"
    "0 < sz' - length got - 1 \<and> chunk = [] \<longrightarrow> pending (fs_world st1) = []"
    using servesD(3) [OF assms(1), of "fs_world st1" fd "sz' - length got - 1"] by blast
  show ?case
  proof (cases "chunk = []")
    case True
    then have "pending (fs_world st) = []" using c(4) g(4,5) by simp
    then show ?thesis using g(1) c(1) True by simp
  next
    case False
    let ?st2 = "st1\<lparr>fs_world := w\<rparr>"
    have p: "pending (fs_world st) = chunk @ pending w" using c(2) g(5) by simp
    have "length (pending (fs_world st)) = length chunk + length (pending w)" "0 < length chunk" using p False by simp_all
    then have l: "length (got @ chunk) < sz'" "length (pending (fs_world ?st2)) < fuel"
      "length (got @ chunk) + length (pending (fs_world ?st2)) + 1 < S"
      using Suc.prems(4,5) c(3) g(4) unfolding length_append by (simp_all del: length_greater_0_conv)
    obtain st' where "read_loop fuel net fd False max_size sz' (got @ chunk) ?st2 = Some (Inr ((got @ chunk) @ pending w), st')"
      using Suc.IH [OF g(2,3) l(1,3,2)] by auto
    then show ?thesis using g(1) c(1) False p by simp
  qed
qed

lemma has_prefix_append: "length p \<le> length u \<Longrightarrow> has_prefix p (u @ v) = has_prefix p u"
  by (simp add: has_prefix_def)

lemma strstr_append: "strstr (u @ p) p = Some (length u) \<Longrightarrow> strstr (u @ p @ v) p = Some (length u)"
proof (induction u)
  case Nil
  then show ?case by (simp add: strstr.simps [of "p @ v"] has_prefix_def)
next
  case (Cons c u)
  have same: "has_prefix p ((c # u @ p) @ v) = has_prefix p (c # u @ p)" by (rule has_prefix_append) simp
  show ?case
  proof (cases "has_prefix p (c # u @ p)")
    case True
    then show ?thesis using Cons.prems by (simp add: strstr.simps [of "c # u @ p"])
  next
    case False
    then have "strstr (u @ p) p = Some (length u)" using Cons.prems by (auto simp: strstr.simps [of "c # u @ p"])
    then show ?thesis using Cons.IH same False by (simp add: strstr.simps [of "c # u @ p @ v"])
  qed
qed

text \<open>The head of a success: a status line with the code 200 and no empty line or NUL before its end.\<close>

definition success_head :: "string \<Rightarrow> bool" where
  "success_head head \<longleftrightarrow> (\<exists>rst. head = ''HTTP/1.1 200 '' @ rst) \<and> is_cstring head \<and>
     strstr (head @ CRLF @ CRLF) (CRLF @ CRLF) = Some (length head)"

lemma status_200: "parse_status_code (''HTTP/1.1 200 '' @ rst) = 200"
  by (simp add: parse_status_code_def strtoll_def split_sign_def is_space_def is_digit_def Let_def digits_val_def digit_val_def)

lemma take_response_success:
  assumes "success_head head" and "length body \<le> max_size" and "serves net pending answer"
  shows "\<exists>st'. take_response net max_size (head @ CRLF @ CRLF @ body) st =
    ((failed None 200)\<lparr>ha_data := Some body\<rparr>, st')"
proof -
  let ?buf = "head @ CRLF @ CRLF @ body"
  obtain rst where rst: "head = ''HTTP/1.1 200 '' @ rst" using assms(1) by (auto simp: success_head_def)
  have c: "cstr ?buf = head @ (CRLF @ CRLF) @ cstr body"
    using assms(1) by (simp add: cstr_def success_head_def is_cstring_def list_all_iff CRLF_def)
  have i: "strstr (cstr ?buf) (CRLF @ CRLF) = Some (length head)"
    unfolding c by (rule strstr_append) (use assms(1) in \<open>simp add: success_head_def\<close>)
  have s: "parse_status_code (cstr ?buf) = 200"
    unfolding c unfolding rst append_assoc by (rule status_200)
  have d: "drop (length head + 4) ?buf = body" by (simp add: CRLF_def)
  obtain w where "nt_malloc net (fs_world st) (length body + 1) = (True, w)"
    using servesD(2) [OF assms(3)] by blast
  then have "\<exists>st'. fetch_malloc net (length body + 1) st = (True, st')" by (simp add: fetch_malloc_def)
  then show ?thesis using i s d assms(2) by (auto simp: take_response_def Let_def redirect_status_def)
qed

text \<open>A plain URL, and what it is cut into.\<close>

definition plain_host :: "string \<Rightarrow> bool" where
  "plain_host h \<longleftrightarrow> h \<noteq> [] \<and> length h < 256 \<and> set h \<inter> {CHR ''/'', CHR '':'', CHR 0x0D, CHR 0x0A} = {}"

definition plain_path :: "string \<Rightarrow> bool" where
  "plain_path p \<longleftrightarrow> (\<exists>r. p = CHR ''/'' # r) \<and> set p \<inter> {CHR 0x0D, CHR 0x0A} = {}"

lemma parse_plain_url:
  assumes "plain_host h" and "plain_path p"
  shows "parse_http_url tls 256 8 (''http://'' @ h @ p) = Inr \<lparr>hu_host = h, hu_port = ''80'', hu_path = p, hu_is_https = False\<rparr>"
proof -
  obtain r where p: "p = CHR ''/'' # r" using assms(2) by (auto simp: plain_path_def)
  have s: "url_start tls (''http://'' @ h @ p) = Inr (h @ p, ''80'', False)" by (simp add: url_start_def has_prefix_def)
  have "\<forall>c \<in> set h. c \<noteq> CHR ''/''" "\<forall>c \<in> set h. c \<noteq> CHR '':''" using assms(1) by (auto simp: plain_host_def)
  then have t: "takeWhile (\<lambda>c. c \<noteq> CHR ''/'') (h @ p) = h" "dropWhile (\<lambda>c. c \<noteq> CHR ''/'') (h @ p) = p"
    "takeWhile (\<lambda>c. c \<noteq> CHR '':'') h = h"
    by (simp_all add: p takeWhile_append2 dropWhile_append2)
  have n: "CHR 0x0D \<notin> set (h @ p)" "CHR 0x0A \<notin> set (h @ p)" "CHR '':'' \<notin> set h" "h \<noteq> []" "length h < 256" "p \<noteq> []"
    using assms by (auto simp: plain_host_def plain_path_def)
  show ?thesis unfolding parse_http_url_def s sum.case prod.case Let_def t using n by simp
qed

lemma redirect_loop_success:
  assumes "parse_http_url (nt_tls net) 256 8 url = Inr u"
    and "do_http_get fuel net (hu_host u) (hu_port u) (hu_path u) (hu_is_https u) t m st =
      Some (\<lparr>ha_rc = None, ha_status = 200, ha_redirect = None, ha_data = Some d\<rparr>, st')"
  shows "redirect_loop fuel net t m n url st = Some ((None, Some d), fetch_free st')"
  using assms by (simp add: redirect_loop.simps)

text \<open>
  C35. Fetching gives what the server serves. For a plain http URL whose server answers the request of
  that path and host with a 200 head, an empty line and a body, in pieces of any size, \<open>oas_ref_fetch_http\<close> returns 0
  and exactly the body, NUL bytes included, where the whole answer fits a size the doubling buffer takes below the limit.
\<close>

theorem fetch_gives_body:
  assumes "serves net pending answer" and "plain_host h" and "plain_path p"
    and "length (http_request_text p h) < 2048"
    and "answer (http_request_text p h) = head @ CRLF @ CRLF @ body" and "success_head head"
    and "length (answer (http_request_text p h)) + 1 < OAS_REF_FETCH_INIT_BUF * 2 ^ k"
    and "OAS_REF_FETCH_INIT_BUF * 2 ^ k \<le> size_limit max_size + OAS_REF_FETCH_INIT_BUF"
    and "size_limit max_size + OAS_REF_FETCH_INIT_BUF < fuel" and "fuel < 2 ^ 64" and "length body \<le> size_limit max_size"
  shows "\<exists>st'. oas_ref_fetch_http fuel net (Some (''http://'' @ h @ p)) timeout_ms max_size max_redirects st =
    Some ((None, Some body), st')"
proof -
  let ?max = "size_limit max_size" and ?url = "''http://'' @ h @ p" and ?req = "http_request_text p h"
  have exch: "\<exists>st'. exchange fuel net fd False ?max p h s = Some ((failed None 200)\<lparr>ha_data := Some body\<rparr>, st')" for fd s
  proof -
    obtain w where w: "nt_send net (fs_world s) fd False ?req = (Inr (length ?req), w)" "pending w = answer ?req"
      using servesD(1) [OF assms(1)] by blast
    let ?s1 = "s\<lparr>fs_world := w\<rparr>"
    have send: "send_request net fd False p h s = (None, ?s1)" using w(1) assms(4) by (simp add: send_request_def Let_def)
    obtain w2 where w2: "nt_malloc net w OAS_REF_FETCH_INIT_BUF = (True, w2)" "pending w2 = pending w"
      using servesD(2) [OF assms(1)] by blast
    let ?s2 = "?s1\<lparr>fs_world := w2, fs_blocks := fs_blocks s + 1\<rparr>"
    have m: "fetch_malloc net OAS_REF_FETCH_INIT_BUF ?s1 = (True, ?s2)" using w2(1) by (simp add: fetch_malloc_def)
    have pend: "pending (fs_world ?s2) = answer ?req" using w(2) w2(2) by simp
    have lim: "?max + OAS_REF_FETCH_INIT_BUF < 2 ^ 64" using assms(9,10) by (rule less_trans)
    have first: "OAS_REF_FETCH_INIT_BUF = OAS_REF_FETCH_INIT_BUF * 2 ^ 0" "OAS_REF_FETCH_INIT_BUF \<le> OAS_REF_FETCH_INIT_BUF * 2 ^ k"
      "length ([] :: string) < OAS_REF_FETCH_INIT_BUF" by (simp_all add: OAS_REF_FETCH_INIT_BUF_def)
    have len: "length ([] :: string) + length (pending (fs_world ?s2)) + 1 < OAS_REF_FETCH_INIT_BUF * 2 ^ k"
      "length (pending (fs_world ?s2)) < fuel"
      using pend assms(7,8,9) by simp_all
    obtain s3 where r: "read_loop fuel net fd False ?max OAS_REF_FETCH_INIT_BUF [] ?s2 =
        Some (Inr (head @ CRLF @ CRLF @ body), s3)"
      using read_loop_serves [OF assms(1) refl assms(8) lim first len, of fd] pend assms(5) by auto
    show ?thesis
      using send m r take_response_success [OF assms(6,11,1), of s3] by (auto simp: exchange_def)
  qed
  have get: "\<exists>st'. do_http_get fuel net h ''80'' p False t ?max s = Some ((failed None 200)\<lparr>ha_data := Some body\<rparr>, st')" for t s
  proof -
    obtain w1 where w1: "nt_resolve net (fs_world s) h ''80'' = (True, w1)" using servesD(4) [OF assms(1)] by blast
    obtain fd w2 where w2: "nt_socket net w1 = (Inr fd, w2)" using servesD(5) [OF assms(1)] by blast
    obtain w3 where w3: "nt_connect net w2 fd t = (None, w3)" using servesD(6) [OF assms(1)] by blast
    let ?s = "s\<lparr>fs_contacted := (h, ''80'') # fs_contacted s, fs_addresses := fs_addresses s + 1,
      fs_sockets := fd # fs_sockets s, fs_world := w3\<rparr>"
    show ?thesis using w1 w2 w3 exch [of fd ?s] by (auto simp: do_http_get_def Let_def secured_exchange_def)
  qed
  obtain w where "nt_malloc net (fs_world st) (length ?url + 1) = (True, w)"
    using servesD(2) [OF assms(1)] by blast
  then obtain s1 where m: "fetch_malloc net (length ?url + 1) st = (True, s1)" by (auto simp: fetch_malloc_def)
  have u: "parse_http_url (nt_tls net) 256 8 ?url = Inr \<lparr>hu_host = h, hu_port = ''80'', hu_path = p, hu_is_https = False\<rparr>"
    by (rule parse_plain_url [OF assms(2,3)])
  have "\<exists>st'. redirect_loop fuel net t ?max n ?url s1 = Some ((None, Some body), st')" for t n
    using redirect_loop_success [OF u] get [of t s1] by (simp add: failed_def) blast
  then show ?thesis using m by (simp add: oas_ref_fetch_http_def Let_def size_limit_def [symmetric])
qed

text \<open>The sample network serves its response to every request.\<close>

theorem fetch_gives_body_witness:
  "\<exists>st'. oas_ref_fetch_http 5000 sample_net (Some ''http://h/a'') 0 100 0 sample_fetch_state = Some ((None, Some ''{}''), st')"
proof -
  have s: "serves sample_net (\<lambda>w. w) (\<lambda>r. sample_response)"
    by (auto simp: serves_def sample_net_def)
  have p: "plain_host ''h''" "plain_path ''/a''" by (simp_all add: plain_host_def plain_path_def)
  have r: "length (http_request_text ''/a'' ''h'') < 2048" by (simp add: http_request_text_def CRLF_def)
  have h: "success_head ''HTTP/1.1 200 OK''"
    by (simp add: success_head_def strstr.simps has_prefix_def CRLF_def)
  have b: "sample_response = ''HTTP/1.1 200 OK'' @ CRLF @ CRLF @ ''{}''" by (simp add: sample_response_def)
  have "length sample_response + 1 < OAS_REF_FETCH_INIT_BUF * 2 ^ 0" by (simp add: sample_response_def CRLF_def OAS_REF_FETCH_INIT_BUF_def)
  from fetch_gives_body [OF s p r b h this, of 100 5000 0 0 sample_fetch_state]
  show ?thesis by (simp add: size_limit_def OAS_REF_FETCH_INIT_BUF_def)
qed

end
