(* ===== verification/Liboas_Regex.thy ===== *)
theory Liboas_Regex
  imports Liboas_Compiler
begin

text \<open>
  The regex backend on libregexp, \<open>src/core/oas_regex_libregexp.c\<close>. The library is a parameter: what
  it compiles a pattern to, the number of captures, and the result of running byte code on an input from one
  index. Memory is granted or refused by an argument, and what is held on the heap is listed. The
  library's own callbacks are included.
\<close>

section \<open>Callbacks of the library\<close>

definition lre_check_stack_overflow :: "nat \<Rightarrow> bool" where
  "lre_check_stack_overflow alloca_size = False"

definition lre_check_timeout :: "unit \<Rightarrow> int" where
  "lre_check_timeout opaque = 0"

text \<open>\<open>realloc\<close> is a parameter; a size of zero frees, which the second component lists.\<close>

definition lre_realloc :: "(u64 option \<Rightarrow> u64 \<Rightarrow> u64 option) \<Rightarrow> u64 option \<Rightarrow> u64 \<Rightarrow> u64 option \<times> u64 list" where
  "lre_realloc ralloc p sz =
     (if sz = 0 then (None, case p of None \<Rightarrow> [] | Some q \<Rightarrow> [q]) else (ralloc p sz, []))"

section \<open>Patterns\<close>

record 'b lre =
  lre_compile :: "string \<Rightarrow> 'b option"
  lre_get_capture_count :: "'b \<Rightarrow> int"
  lre_exec :: "'b \<Rightarrow> string \<Rightarrow> nat \<Rightarrow> int \<Rightarrow> int"

record 'b compiled_pattern =
  cp_bytecode :: 'b
  cp_capture_count :: int

text \<open>Byte code of the library, and how many pattern structures, capture arrays and backends are held.\<close>

record 'b regex_heap =
  rh_bytecode :: "'b list"
  rh_patterns :: nat
  rh_captures :: nat
  rh_backends :: nat

definition libregexp_compile ::
    "'b lre \<Rightarrow> bool \<Rightarrow> string option \<Rightarrow> 'b regex_heap \<Rightarrow> (errno + 'b compiled_pattern) \<times> 'b regex_heap" where
  "libregexp_compile lib granted pattern h =
     (case Option.bind pattern (lre_compile lib) of
        None \<Rightarrow> (Inl EINVAL, h)
      | Some b \<Rightarrow>
          let h = h\<lparr>rh_bytecode := b # rh_bytecode h\<rparr> in
          if \<not> granted then (Inl ENOMEM, h\<lparr>rh_bytecode := remove1 b (rh_bytecode h)\<rparr>)
          else (Inr \<lparr>cp_bytecode = b, cp_capture_count = lre_get_capture_count lib b\<rparr>,
            h\<lparr>rh_patterns := rh_patterns h + 1\<rparr>))"

definition libregexp_free_pattern :: "'b compiled_pattern option \<Rightarrow> 'b regex_heap \<Rightarrow> 'b regex_heap" where
  "libregexp_free_pattern compiled h =
     (case compiled of
        None \<Rightarrow> h
      | Some c \<Rightarrow> h\<lparr>rh_bytecode := remove1 (cp_bytecode c) (rh_bytecode h), rh_patterns := rh_patterns h - 1\<rparr>)"

text \<open>The loop over the start indices, with \<open>n\<close> of them left.\<close>

fun lre_scan :: "(nat \<Rightarrow> int) \<Rightarrow> nat \<Rightarrow> nat \<Rightarrow> bool" where
  "lre_scan run i 0 = False"
| "lre_scan run i (Suc n) =
     (if run i = 1 then True else if run i < 0 then False else lre_scan run (Suc i) n)"

text \<open>The length of the input is an \<open>int\<close>.\<close>

definition input_length :: "nat \<Rightarrow> int" where
  "input_length len = sint (of_nat len :: 32 word)"

definition libregexp_match ::
    "'b lre \<Rightarrow> bool \<Rightarrow> 'b compiled_pattern option \<Rightarrow> string option \<Rightarrow> 'b regex_heap \<Rightarrow> bool \<times> 'b regex_heap" where
  "libregexp_match lib granted compiled s h =
     (case (compiled, s) of
        (Some c, Some v) \<Rightarrow>
          if \<not> granted then (False, h)
          else
            let h = h\<lparr>rh_captures := rh_captures h + 1\<rparr>;
                found = lre_scan (\<lambda>i. lre_exec lib (cp_bytecode c) v i (input_length (length v))) 0
                  (nat (input_length (length v) + 1))
            in (found, h\<lparr>rh_captures := rh_captures h - 1\<rparr>)
      | _ \<Rightarrow> (False, h))"

definition libregexp_destroy :: "bool \<Rightarrow> 'b regex_heap \<Rightarrow> 'b regex_heap" where
  "libregexp_destroy backend h = (if backend then h\<lparr>rh_backends := rh_backends h - 1\<rparr> else h)"

text \<open>
  The backend the rest of the library is given. \<open>met\<close> says which requests of a call for a pattern or
  a value are met; of what the calls hold the compiler keeps a trace of its own.
\<close>

definition oas_regex_libregexp_create ::
    "'b lre \<Rightarrow> (string \<Rightarrow> bool) \<Rightarrow> bool \<Rightarrow> 'b regex_heap \<Rightarrow> 'b compiled_pattern oas_regex_backend option \<times> 'b regex_heap" where
  "oas_regex_libregexp_create lib met granted h =
     (if \<not> granted then (None, h)
      else (Some \<lparr>rx_compile = (\<lambda>p. fst (libregexp_compile lib (met p) (Some p) h)),
          rx_match = (\<lambda>c v. fst (libregexp_match lib (met v) (Some c) (Some v) h))\<rparr>,
        h\<lparr>rh_backends := rh_backends h + 1\<rparr>))"

text \<open>A pattern that was compiled holds what freeing it gives back, and nothing else is kept by any call.\<close>

theorem libregexp_holds_patterns:
  shows "(case libregexp_compile lib granted pattern h of
      (Inl _, h') \<Rightarrow> h' = h
    | (Inr c, h') \<Rightarrow> rh_patterns h' = rh_patterns h + 1 \<and> libregexp_free_pattern (Some c) h' = h)"
    and "snd (libregexp_match lib granted compiled v h) = h"
  by (auto simp: libregexp_compile_def libregexp_free_pattern_def libregexp_match_def Let_def
      split: option.splits sum.splits)

text \<open>Which of the calls made on a backend succeed does not depend on what is held.\<close>

lemma libregexp_verdicts:
  "fst (libregexp_compile lib granted pattern h) = fst (libregexp_compile lib granted pattern h')"
  "fst (libregexp_match lib granted compiled v h) = fst (libregexp_match lib granted compiled v h')"
  by (auto simp: libregexp_compile_def libregexp_match_def Let_def split: option.splits)

section \<open>Matching anywhere\<close>

lemma lre_scan_iff:
  "lre_scan run i n \<longleftrightarrow> (\<exists>k. i \<le> k \<and> k < i + n \<and> run k = 1 \<and> (\<forall>j. i \<le> j \<and> j < k \<longrightarrow> 0 \<le> run j))"
proof (induction n arbitrary: i)
  case 0
  then show ?case by simp
next
  case (Suc n)
  show ?case
  proof
    assume "lre_scan run i (Suc n)"
    then consider "run i = 1" | "\<not> run i < 0" "lre_scan run (Suc i) n" by (auto split: if_splits)
    then show "\<exists>k. i \<le> k \<and> k < i + Suc n \<and> run k = 1 \<and> (\<forall>j. i \<le> j \<and> j < k \<longrightarrow> 0 \<le> run j)"
    proof cases
      case 1
      then show ?thesis by (intro exI [of _ i]) simp
    next
      case 2
      then obtain k where "Suc i \<le> k" "k < Suc i + n" "run k = 1" "\<forall>j. Suc i \<le> j \<and> j < k \<longrightarrow> 0 \<le> run j"
        using Suc.IH by blast
      then show ?thesis using 2(1) by (intro exI [of _ k]) (metis Suc_leD add_Suc_shift le_neq_implies_less not_less not_less_eq_eq)
    qed
  next
    assume "\<exists>k. i \<le> k \<and> k < i + Suc n \<and> run k = 1 \<and> (\<forall>j. i \<le> j \<and> j < k \<longrightarrow> 0 \<le> run j)"
    then obtain k where k: "i \<le> k" "k < i + Suc n" "run k = 1" "\<forall>j. i \<le> j \<and> j < k \<longrightarrow> 0 \<le> run j" by blast
    show "lre_scan run i (Suc n)"
    proof (cases "k = i")
      case True
      then show ?thesis using k(3) by simp
    next
      case False
      then have "Suc i \<le> k" "0 \<le> run i" using k(1,4) by auto
      then have "lre_scan run (Suc i) n" unfolding Suc.IH using k by (intro exI [of _ k]) simp
      then show ?thesis using \<open>0 \<le> run i\<close> by simp
    qed
  qed
qed

text \<open>
  A match is looked for from every byte of the value and its end: it is found exactly when the library
  matches from some index and reported no error from an earlier one.
\<close>

theorem libregexp_match_anywhere:
  assumes "length v < 2 ^ 31"
  shows "fst (libregexp_match lib True (Some c) (Some v) h) \<longleftrightarrow>
    (\<exists>k \<le> length v. lre_exec lib (cp_bytecode c) v k (int (length v)) = 1 \<and>
       (\<forall>j < k. 0 \<le> lre_exec lib (cp_bytecode c) v j (int (length v))))"
proof -
  have "take_bit 32 (int (length v)) = int (length v)" using assms by (intro take_bit_int_eq_self) simp_all
  moreover have "int (length v) < 2 ^ 31" using assms by (metis of_nat_less_iff of_nat_numeral of_nat_power)
  ultimately have n: "input_length (length v) = int (length v)"
    unfolding input_length_def sint_uint by (simp add: signed_take_bit_int_eq_self unsigned_of_nat take_bit_nat_eq_self)
  show ?thesis by (simp add: libregexp_match_def Let_def n lre_scan_iff less_Suc_eq_le nat_add_distrib)
qed

end
